(* ===== verification/Prelude.thy ===== *)
theory Prelude
  imports Main "HOL-Library.AList" "HOL-Library.Sublist"
begin

text \<open>
  What every component of the development shares.

  \<^item> The JavaScript values the code passes around untyped (\<open>jsval\<close>), own-property access
    on them, and the string methods the code calls (\<open>trim\<close>, \<open>startsWith\<close>, \<open>endsWith\<close>, \<open>split\<close>, \<open>join\<close>).
    A text is a \<open>string\<close>; its characters stand for UTF-16 code units, and no
    definition depends on a code unit above 255 except where a theory says so.
  \<^item> The \<open>Map\<close> of JavaScript: an association list with distinct keys, whose order is the
    insertion order that iteration follows. \<open>AList.update\<close> keeps the position of a key that
    is present and appends a new one, which is what \<open>Map.prototype.set\<close> does. The locale
    \<open>ordered_map\<close> states what the components rely on.
  \<^item> The \<open>Set\<close> of JavaScript as a distinct list (\<open>set_add\<close>).
  \<^item> Decimal printing of counters (\<open>show_nat\<close>), used in generated identifiers.
\<close>

named_theorems jsmap_simps \<open>equations of the insertion-ordered map\<close>
named_theorems inv_intros \<open>introduction rules for component invariants\<close>

subsection \<open>JavaScript values\<close>

text \<open>\<open>JFun\<close> stands for the values that are neither data nor objects for the code:
  functions, symbols and big integers.\<close>

datatype jsval =
    JUndef | JNull | JBool bool | JNum int | JStr string
  | JArr "jsval list" | JObj "(string \<times> jsval) list" | JFun nat

fun is_record :: "jsval \<Rightarrow> bool" where
  "is_record (JObj _) = True"
| "is_record _ = False"

text \<open>Reading \<open>v.k\<close>: \<open>None\<close> is the TypeError that \<open>undefined\<close> and \<open>null\<close> raise.\<close>

fun js_field :: "jsval \<Rightarrow> string \<Rightarrow> jsval option" where
  "js_field JUndef _ = None"
| "js_field JNull _ = None"
| "js_field (JObj fs) k = Some (case map_of fs k of None \<Rightarrow> JUndef | Some v \<Rightarrow> v)"
| "js_field _ _ = Some JUndef"

subsection \<open>String methods\<close>

definition js_ws :: "char \<Rightarrow> bool" where
  "js_ws c \<longleftrightarrow> (of_char c :: nat) \<in> {9, 10, 11, 12, 13, 32, 160}"

definition trim_start :: "string \<Rightarrow> string" where
  "trim_start s = dropWhile js_ws s"

definition trim_end :: "string \<Rightarrow> string" where
  "trim_end s = rev (dropWhile js_ws (rev s))"

definition js_trim :: "string \<Rightarrow> string" where
  "js_trim s = trim_end (trim_start s)"

abbreviation starts_with :: "'a list \<Rightarrow> 'a list \<Rightarrow> bool" where
  "starts_with s p \<equiv> prefix p s"

abbreviation ends_with :: "'a list \<Rightarrow> 'a list \<Rightarrow> bool" where
  "ends_with s p \<equiv> suffix p s"

text \<open>\<open>split\<close> at a character, and \<open>join\<close>.\<close>

fun split_on :: "char \<Rightarrow> string \<Rightarrow> string list" where
  "split_on c [] = [[]]"
| "split_on c (x # xs) =
     (if x = c then [] # split_on c xs
      else case split_on c xs of p # ps \<Rightarrow> (x # p) # ps | [] \<Rightarrow> [[x]])"

fun join_with :: "string \<Rightarrow> string list \<Rightarrow> string" where
  "join_with sep [] = []"
| "join_with sep [p] = p"
| "join_with sep (p # ps) = p @ sep @ join_with sep ps"

lemma split_on_not_Nil [simp]: "split_on c s \<noteq> []"
  by (induction s) (auto split: list.split)

lemma split_on_none: "c \<notin> set s \<Longrightarrow> split_on c s = [s]"
  by (induction s) auto

lemma split_on_append: "c \<notin> set p \<Longrightarrow> split_on c (p @ c # s) = p # split_on c s"
  by (induction p) auto

lemma length_trim_start: "length (trim_start s) \<le> length s"
  by (simp add: trim_start_def length_dropWhile_le)

lemma trim_end_Cons:
  "\<not> js_ws c \<Longrightarrow> trim_end (c # s) = c # trim_end s"
  by (simp add: trim_end_def dropWhile_append)

lemma trim_end_idem [simp]: "trim_end (trim_end s) = trim_end s"
  by (simp add: trim_end_def)

lemma trim_start_idem [simp]: "trim_start (trim_start s) = trim_start s"
  by (simp add: trim_start_def)

lemma trim_end_drop: "trim_end s = s \<Longrightarrow> trim_end (drop n s) = drop n s"
proof -
  assume a: "trim_end s = s"
  then have "dropWhile js_ws (rev s) = rev s" by (metis rev_rev_ident trim_end_def)
  then have h: "s = [] \<or> \<not> js_ws (last s)"
    by (metis dropWhile_eq_self_iff hd_rev rev_is_Nil_conv)
  show ?thesis
  proof (cases "n < length s")
    case True
    then have "drop n s \<noteq> []" "last (drop n s) = last s" by auto
    moreover have "s \<noteq> []" using True by auto
    ultimately have "dropWhile js_ws (rev (drop n s)) = rev (drop n s)"
      using h by (subst dropWhile_eq_self_iff) (simp add: hd_rev)
    then show ?thesis by (simp add: trim_end_def)
  qed (simp add: trim_end_def)
qed

lemma trim_start_eq_drop: "\<exists>n. trim_start s = drop n s"
  by (metis dropWhile_eq_drop trim_start_def)

lemma trim_end_trim_start: "trim_end s = s \<Longrightarrow> trim_end (trim_start s) = trim_start s"
  using trim_start_eq_drop trim_end_drop by metis

lemma trim_end_take: "\<exists>n. trim_end s = take n s"
  by (metis dropWhile_eq_drop rev_drop rev_rev_ident trim_end_def)

lemma trim_start_Cons_id: "\<not> js_ws c \<Longrightarrow> trim_start (c # s) = c # s"
  by (simp add: trim_start_def)

lemma js_trim_end: "trim_end (js_trim s) = js_trim s"
  by (simp add: js_trim_def)

subsection \<open>Insertion-ordered maps\<close>

abbreviation jm_get :: "('k \<times> 'v) list \<Rightarrow> 'k \<Rightarrow> 'v option" where
  "jm_get m k \<equiv> map_of m k"

abbreviation jm_set :: "'k \<Rightarrow> 'v \<Rightarrow> ('k \<times> 'v) list \<Rightarrow> ('k \<times> 'v) list" where
  "jm_set k v m \<equiv> AList.update k v m"

abbreviation jm_del :: "'k \<Rightarrow> ('k \<times> 'v) list \<Rightarrow> ('k \<times> 'v) list" where
  "jm_del k m \<equiv> AList.delete k m"

abbreviation jm_keys :: "('k \<times> 'v) list \<Rightarrow> 'k list" where
  "jm_keys m \<equiv> map fst m"

abbreviation jm_values :: "('k \<times> 'v) list \<Rightarrow> 'v list" where
  "jm_values m \<equiv> map snd m"

definition jm_ok :: "('k \<times> 'v) list \<Rightarrow> bool" where
  "jm_ok m \<longleftrightarrow> distinct (map fst m)"

lemma jm_get_set [jsmap_simps]: "jm_get (jm_set k v m) j = (if j = k then Some v else jm_get m j)"
  by (simp add: update_conv')

lemma jm_get_del [jsmap_simps]: "jm_get (jm_del k m) j = (if j = k then None else jm_get m j)"
  by (simp add: delete_conv')

lemma jm_keys_set [jsmap_simps]:
  "jm_keys (jm_set k v m) = (if k \<in> set (jm_keys m) then jm_keys m else jm_keys m @ [k])"
  by (induction m) auto

lemma jm_ok_Nil [simp, intro]: "jm_ok []"
  by (simp add: jm_ok_def)

lemma jm_ok_set [simp, intro]: "jm_ok m \<Longrightarrow> jm_ok (jm_set k v m)"
  by (simp add: jm_ok_def distinct_update)

lemma jm_ok_del [simp, intro]: "jm_ok m \<Longrightarrow> jm_ok (jm_del k m)"
  by (simp add: jm_ok_def distinct_delete)

lemma jm_get_in_set: "jm_ok m \<Longrightarrow> jm_get m k = Some v \<longleftrightarrow> (k, v) \<in> set m"
  by (simp add: jm_ok_def)

lemma jm_set_in_set:
  "x \<in> set (jm_set k v m) \<Longrightarrow> x = (k, v) \<or> x \<in> set m"
  by (induction m) (auto split: if_splits)

lemma jm_set_ok_iff:
  "jm_ok m \<Longrightarrow> x \<in> set (jm_set k v m) \<longleftrightarrow> x = (k, v) \<or> (x \<in> set m \<and> fst x \<noteq> k)"
  by (induction m) (auto simp: jm_ok_def image_iff)

lemma jm_del_ok_iff: "x \<in> set (jm_del k m) \<longleftrightarrow> x \<in> set m \<and> fst x \<noteq> k"
  by (cases x) (auto simp: AList.delete_eq)

text \<open>The interface the components rely on: a lookup after a write, the keys in insertion
  order, and the invariant every operation keeps.\<close>

locale ordered_map =
  fixes empty :: "'m"
    and get :: "'m \<Rightarrow> 'k \<Rightarrow> 'v option"
    and put :: "'k \<Rightarrow> 'v \<Rightarrow> 'm \<Rightarrow> 'm"
    and remove :: "'k \<Rightarrow> 'm \<Rightarrow> 'm"
    and keys :: "'m \<Rightarrow> 'k list"
    and invar :: "'m \<Rightarrow> bool"
  assumes get_empty: "get empty k = None"
    and get_put: "invar m \<Longrightarrow> get (put k v m) j = (if j = k then Some v else get m j)"
    and get_remove: "invar m \<Longrightarrow> get (remove k m) j = (if j = k then None else get m j)"
    and keys_put: "invar m \<Longrightarrow> keys (put k v m) = (if k \<in> set (keys m) then keys m else keys m @ [k])"
    and keys_get: "invar m \<Longrightarrow> k \<in> set (keys m) \<longleftrightarrow> get m k \<noteq> None"
    and keys_distinct: "invar m \<Longrightarrow> distinct (keys m)"
    and invar_empty: "invar empty"
    and invar_put: "invar m \<Longrightarrow> invar (put k v m)"
    and invar_remove: "invar m \<Longrightarrow> invar (remove k m)"
begin

text \<open>Filling a map from a list of entries, as the constructors of the code do.\<close>

lemma invar_fold_put: "invar m \<Longrightarrow> invar (fold (\<lambda>(k, v). put k v) kvs m)"
  by (induction kvs arbitrary: m) (auto simp: invar_put)

lemma get_fold_put:
  "invar m \<Longrightarrow> get (fold (\<lambda>(k, v). put k v) kvs m) j =
     (case map_of (rev kvs) j of Some v \<Rightarrow> Some v | None \<Rightarrow> get m j)"
  by (induction kvs arbitrary: m)
    (auto simp: invar_put get_put map_of_append map_add_def split: option.splits)

lemma put_present_keeps_order:
  "invar m \<Longrightarrow> get m k \<noteq> None \<Longrightarrow> keys (put k v m) = keys m"
  by (simp add: keys_put keys_get)

lemma get_put_remove: "invar m \<Longrightarrow> get (put k v (remove k m)) j = get (put k v m) j"
  by (simp add: get_put get_remove invar_remove)

end

interpretation jsmap: ordered_map
  "[]" "map_of" "AList.update" "AList.delete" "map fst" "jm_ok"
  by unfold_locales
    (auto simp: jsmap_simps jm_ok_def distinct_update distinct_delete map_of_eq_None_iff)

subsection \<open>Sets\<close>

definition set_add :: "'a \<Rightarrow> 'a list \<Rightarrow> 'a list" where
  "set_add x xs = (if x \<in> set xs then xs else xs @ [x])"

definition set_of_list :: "'a list \<Rightarrow> 'a list" where
  "set_of_list xs = fold set_add xs []"

lemma set_set_add [simp]: "set (set_add x xs) = insert x (set xs)"
  by (auto simp: set_add_def)

lemma distinct_set_add [simp]: "distinct (set_add x xs) \<longleftrightarrow> distinct xs"
  by (auto simp: set_add_def)

lemma set_fold_set_add [simp]: "set (fold set_add xs ys) = set xs \<union> set ys"
  by (induction xs arbitrary: ys) auto

lemma distinct_fold_set_add [simp]: "distinct (fold set_add xs ys) \<longleftrightarrow> distinct ys"
  by (induction xs arbitrary: ys) auto

lemma set_set_of_list [simp]: "set (set_of_list xs) = set xs"
  by (simp add: set_of_list_def)

lemma distinct_set_of_list [simp]: "distinct (set_of_list xs)"
  by (simp add: set_of_list_def)

subsection \<open>Printing counters\<close>

definition digit_char :: "nat \<Rightarrow> char" where
  "digit_char d = char_of (48 + d)"

fun show_nat :: "nat \<Rightarrow> string" where
  "show_nat n = (if n < 10 then [digit_char n] else show_nat (n div 10) @ [digit_char (n mod 10)])"

declare show_nat.simps [simp del]

lemma digit_char_inj:
  assumes ab: "a < 10" "b < 10"
  shows "digit_char a = digit_char b \<longleftrightarrow> a = b"
proof
  assume eq: "digit_char a = digit_char b"
  have "(of_char (digit_char n) :: nat) = 48 + n" if "n < 10" for n
    using that by (simp add: digit_char_def)
  with ab eq show "a = b" by (metis add_left_cancel)
qed simp

lemma show_nat_inj: "show_nat a = show_nat b \<Longrightarrow> a = b"
proof (induction a arbitrary: b rule: show_nat.induct)
  case (1 a)
  have ne: "show_nat n \<noteq> []" for n by (subst show_nat.simps) simp
  show ?case
  proof (cases "a < 10")
    case True
    with "1.prems" have e: "[digit_char a] = show_nat b" by (simp add: show_nat.simps [of a])
    then have "b < 10"
      by (subst (asm) show_nat.simps) (auto simp: ne ne [symmetric] split: if_splits)
    with e True show ?thesis by (simp add: show_nat.simps [of b] digit_char_inj)
  next
    case False
    with "1.prems" ne have b: "\<not> b < 10"
      by (subst (asm) (1 2) show_nat.simps) (auto split: if_splits)
    from "1.prems" False b have "show_nat (a div 10) = show_nat (b div 10)"
      "a mod 10 = b mod 10"
      by (subst (asm) (1 2) show_nat.simps, simp add: digit_char_inj)+
    with "1.IH" [OF False] show ?thesis by (metis div_mult_mod_eq)
  qed
qed

subsection \<open>Simulation of runs\<close>

text \<open>Running operations one after another, collecting their results.\<close>

fun run_ops :: "('o \<Rightarrow> 's \<Rightarrow> 's \<times> 'r) \<Rightarrow> 'o list \<Rightarrow> 's \<Rightarrow> 's \<times> 'r list" where
  "run_ops step [] s = (s, [])"
| "run_ops step (op # ops) s =
     (let (s1, r) = step op s; (s2, rs) = run_ops step ops s1 in (s2, r # rs))"

text \<open>A detailed component implements an abstract one when related states answer every operation alike
  and stay related; then whole runs do.\<close>

locale step_refinement =
  fixes related :: "'c \<Rightarrow> 'a \<Rightarrow> bool"
    and cstep :: "'o \<Rightarrow> 'c \<Rightarrow> 'c \<times> 'r"
    and astep :: "'o \<Rightarrow> 'a \<Rightarrow> 'a \<times> 'r"
  assumes simulates: "related c a \<Longrightarrow>
    related (fst (cstep op c)) (fst (astep op a)) \<and> snd (cstep op c) = snd (astep op a)"
begin

lemma run_simulates:
  "related c a \<Longrightarrow>
   related (fst (run_ops cstep ops c)) (fst (run_ops astep ops a)) \<and> snd (run_ops cstep ops c) = snd (run_ops astep ops a)"
proof (induction ops arbitrary: c a)
  case (Cons op ops)
  from simulates [OF Cons.prems, of op] Cons.IH [of "fst (cstep op c)" "fst (astep op a)"]
  show ?case by (simp add: Let_def case_prod_beta)
qed simp

lemma run_same_results: "related c a \<Longrightarrow> snd (run_ops cstep ops c) = snd (run_ops astep ops a)"
  using run_simulates by blast

end

end
