(* ===== verification/ToolInput.thy ===== *)
theory ToolInput
  imports Prelude
begin

text \<open>
  The text of a tool call's arguments as a provider streams it:
  \<open>agent/streaming/tool-input.ts\<close> (merging deltas, removing empty-object placeholders)
  and \<open>agent/streaming/lifecycle/tool-input.ts\<close> (the canonical parse).

  The host's JSON functions are the parameter \<open>json_codec\<close>: \<open>json_parse\<close> is \<open>None\<close> where
  \<open>JSON.parse\<close> throws; \<open>json_stringify\<close> is \<open>None\<close> where serialization throws and
  \<open>Some None\<close> where it returns \<open>undefined\<close>. Every theorem holds for every codec.
\<close>

record json_codec =
  json_parse :: "string \<Rightarrow> jsval option"
  json_stringify :: "jsval \<Rightarrow> string option option"

subsection \<open>Placeholder removal\<close>

lemma strip_loop_shrinks:
  "starts_with s ''{}'' \<Longrightarrow> length (trim_start (drop 2 s)) + 2 \<le> length s"
  by (cases s; cases "tl s") (auto intro: length_trim_start)

function strip_loop :: "string \<Rightarrow> string" where
  "strip_loop normalized =
     (if starts_with normalized ''{}'' then
        (let remainder = trim_start (drop 2 normalized) in
         if starts_with remainder ''{'' then strip_loop remainder
         else if starts_with remainder [CHR 0x22] then strip_loop (CHR ''{'' # remainder)
         else normalized)
      else normalized)"
  by pat_completeness auto

termination
  by (relation "measure length") (auto dest!: strip_loop_shrinks)

declare strip_loop.simps [simp del]

definition stripLeadingEmptyObjectPlaceholder :: "string \<Rightarrow> string" where
  "stripLeadingEmptyObjectPlaceholder rawArgs = strip_loop (js_trim rawArgs)"

definition isCompleteJsonObject :: "json_codec \<Rightarrow> string \<Rightarrow> bool" where
  "isCompleteJsonObject c v = (case json_parse c v of None \<Rightarrow> False | Some p \<Rightarrow> is_record p)"

definition isDoubleClosedObject :: "json_codec \<Rightarrow> string \<Rightarrow> bool" where
  "isDoubleClosedObject c v =
     (let normalized = js_trim v in
      if \<not> ends_with normalized [CHR 0x22, CHR 0x22] then False
      else isCompleteJsonObject c (js_trim (take (length normalized - 2) normalized)))"

subsection \<open>Merging deltas\<close>

definition MIN_OVERLAP_DEDUP_LENGTH :: nat where
  "MIN_OVERLAP_DEDUP_LENGTH = 4"

text \<open>The inner loop: the longest overlap, from \<open>overlap\<close> down to the minimum.\<close>

fun overlap_loop :: "string \<Rightarrow> string \<Rightarrow> nat \<Rightarrow> string option" where
  "overlap_loop cur cand overlap =
     (if overlap < MIN_OVERLAP_DEDUP_LENGTH then None
      else if ends_with cur (take overlap cand) then Some (cur @ drop overlap cand)
      else (case overlap of 0 \<Rightarrow> None | Suc n \<Rightarrow> overlap_loop cur cand n))"

declare overlap_loop.simps [simp del]

text \<open>The candidate loop after the short-delta guard; \<open>None\<close> falls through to appending.\<close>

fun candidate_loop :: "string \<Rightarrow> string list \<Rightarrow> string option" where
  "candidate_loop cur [] = None"
| "candidate_loop cur (cand # cands) =
     (if cand = cur then Some cur
      else if starts_with cand cur then Some cand
      else (case overlap_loop cur cand (min (length cur) (length cand)) of
              Some merged \<Rightarrow> Some merged
            | None \<Rightarrow> candidate_loop cur cands))"

definition candidate_deltas :: "string \<Rightarrow> string list" where
  "candidate_deltas nextDelta =
     (let normalizedDelta = trim_start nextDelta in
      if starts_with normalizedDelta [CHR 0x22]
      then [normalizedDelta, CHR ''{'' # normalizedDelta] else [normalizedDelta])"

definition mergeToolInputDelta :: "string \<Rightarrow> string \<Rightarrow> string" where
  "mergeToolInputDelta cur nextDelta =
     (let candidateDeltas = candidate_deltas nextDelta;
          early = (if cur = ''{}'' \<or> length cur = 0
                   then find (\<lambda>cand. starts_with cand ''{'') candidateDeltas else None)
      in case early of
           Some cand \<Rightarrow> cand
         | None \<Rightarrow>
             if length nextDelta = 0 then cur
             else if length cur = 0 then nextDelta
             else if length nextDelta < MIN_OVERLAP_DEDUP_LENGTH then cur @ nextDelta
             else (case candidate_loop cur candidateDeltas of
                     Some merged \<Rightarrow> merged
                   | None \<Rightarrow> cur @ nextDelta))"

definition mergeToolCallInput :: "json_codec \<Rightarrow> string \<Rightarrow> string \<Rightarrow> string" where
  "mergeToolCallInput c cur nextInput =
     (if length cur = 0 then nextInput
      else let normalizedCurrent = stripLeadingEmptyObjectPlaceholder cur in
        if js_trim nextInput = ''{}'' \<and> starts_with (js_trim cur) ''{''
        then (if isDoubleClosedObject c cur then nextInput else cur)
        else if js_trim nextInput = ''{}'' \<and> starts_with (js_trim normalizedCurrent) ''{''
        then normalizedCurrent
        else if js_trim cur = ''{}'' \<and> starts_with (js_trim nextInput) ''{''
        then nextInput
        else nextInput)"

subsection \<open>Parsing\<close>

definition parseToolInputObject :: "json_codec \<Rightarrow> jsval \<Rightarrow> jsval" where
  "parseToolInputObject c input =
     (if is_record input then input
      else case input of
        JStr s \<Rightarrow>
          (case json_parse c (stripLeadingEmptyObjectPlaceholder s) of
             None \<Rightarrow> JObj []
           | Some parsed \<Rightarrow> if is_record parsed then parsed else JObj [])
      | _ \<Rightarrow> JObj [])"

datatype rejection_reason = RInvalid | RMalformed | RUnavailable

datatype parse_result = POk jsval | PRejected rejection_reason

definition parseCanonicalToolInput :: "json_codec \<Rightarrow> jsval \<Rightarrow> parse_result" where
  "parseCanonicalToolInput c input =
     (if is_record input then POk input
      else case input of
        JStr s \<Rightarrow>
          (let normalized = stripLeadingEmptyObjectPlaceholder s in
           if length normalized = 0 then PRejected RInvalid
           else (case json_parse c normalized of
                   None \<Rightarrow> PRejected RMalformed
                 | Some parsed \<Rightarrow> if is_record parsed then POk parsed else PRejected RInvalid))
      | _ \<Rightarrow> PRejected RInvalid)"

subsection \<open>Library lemmas\<close>

lemma strip_loop_trimmed: "trim_end s = s \<Longrightarrow> trim_end (strip_loop s) = strip_loop s"
proof (induction s rule: strip_loop.induct)
  case (1 s)
  have r: "trim_end (trim_start (drop 2 s)) = trim_start (drop 2 s)"
    using "1.prems" by (intro trim_end_trim_start trim_end_drop)
  have b: "\<not> js_ws (CHR ''{'')" by (simp add: js_ws_def)
  show ?case
    by (subst (1 2) strip_loop.simps)
      (simp add: Let_def "1.IH" r trim_end_Cons [OF b] "1.prems")
qed

lemma strip_loop_no_ws_start:
  "trim_start s = s \<Longrightarrow> trim_start (strip_loop s) = strip_loop s"
proof (induction s rule: strip_loop.induct)
  case (1 s)
  have b: "\<not> js_ws (CHR ''{'')" by (simp add: js_ws_def)
  show ?case
    by (subst (1 2) strip_loop.simps)
      (simp add: Let_def "1.IH" trim_start_Cons_id [OF b] "1.prems")
qed

lemma strip_loop_idem: "strip_loop (strip_loop s) = strip_loop s"
proof (induction s rule: strip_loop.induct)
  case (1 s)
  show ?case
  proof (cases "starts_with s ''{}''")
    case True
    with "1.IH" show ?thesis
      by (simp add: strip_loop.simps [of s] Let_def)
  qed (simp add: strip_loop.simps [of s])
qed

lemma trim_trim_start: "trim_start (js_trim s) = js_trim s"
proof -
  obtain n where n: "js_trim s = take n (trim_start s)"
    by (metis js_trim_def trim_end_take)
  have "trim_start s = [] \<or> \<not> js_ws (hd (trim_start s))"
    by (metis hd_dropWhile trim_start_def)
  then have "js_trim s = [] \<or> \<not> js_ws (hd (js_trim s))"
    using n by (metis hd_take take_eq_Nil not_gr_zero)
  then show ?thesis by (cases "js_trim s") (auto simp: trim_start_def)
qed

lemma strip_is_trimmed: "js_trim (stripLeadingEmptyObjectPlaceholder s) = stripLeadingEmptyObjectPlaceholder s"
  unfolding stripLeadingEmptyObjectPlaceholder_def
  by (metis js_trim_def js_trim_end strip_loop_no_ws_start strip_loop_trimmed trim_trim_start)

lemma strip_idem:
  "stripLeadingEmptyObjectPlaceholder (stripLeadingEmptyObjectPlaceholder s)
     = stripLeadingEmptyObjectPlaceholder s"
  by (metis strip_is_trimmed strip_loop_idem stripLeadingEmptyObjectPlaceholder_def)

lemma strip_loop_shape:
  "starts_with (strip_loop s) ''{}'' \<Longrightarrow>
     \<not> starts_with (trim_start (drop 2 (strip_loop s))) ''{'' \<and>
     \<not> starts_with (trim_start (drop 2 (strip_loop s))) [CHR 0x22]"
proof (induction s rule: strip_loop.induct)
  case (1 s)
  show ?case
  proof (cases "starts_with s ''{}''")
    case True
    with "1.IH" "1.prems" show ?thesis
      by (auto simp: strip_loop.simps [of s] Let_def split: if_splits)
  next
    case False
    with "1.prems" show ?thesis by (simp add: strip_loop.simps [of s])
  qed
qed

lemma overlap_loop_Some:
  "overlap_loop cur cand k = Some m \<Longrightarrow>
     \<exists>n. MIN_OVERLAP_DEDUP_LENGTH \<le> n \<and> n \<le> k \<and> ends_with cur (take n cand) \<and> m = cur @ drop n cand"
proof (induction cur cand k rule: overlap_loop.induct)
  case (1 cur cand k)
  show ?case
  proof (cases "k < MIN_OVERLAP_DEDUP_LENGTH")
    case True
    with "1.prems" show ?thesis by (simp add: overlap_loop.simps [of cur cand k])
  next
    case low: False
    show ?thesis
    proof (cases "ends_with cur (take k cand)")
      case True
      with low "1.prems" show ?thesis
        by (intro exI [of _ k]) (simp add: overlap_loop.simps [of cur cand k])
    next
      case False
      with low "1.prems" obtain j where j: "k = Suc j" "overlap_loop cur cand j = Some m"
        by (auto simp: overlap_loop.simps [of cur cand k] split: nat.splits)
      from "1.IH" [OF low False j] j(1) show ?thesis by (auto intro: le_SucI)
    qed
  qed
qed

lemma candidate_loop_prefix: "candidate_loop cur cands = Some m \<Longrightarrow> starts_with m cur"
  by (induction cands) (auto split: if_splits option.splits dest!: overlap_loop_Some)

lemma candidate_loop_tail:
  "candidate_loop cur cands = Some m \<Longrightarrow> \<exists>a. m = cur @ a \<and> (\<exists>cand \<in> set cands. suffix a cand)"
proof (induction cands)
  case (Cons cand cands)
  have "m = cur \<or> starts_with cand cur \<and> m = cand
      \<or> overlap_loop cur cand (min (length cur) (length cand)) = Some m
      \<or> candidate_loop cur cands = Some m"
    using Cons.prems by (simp split: if_split_asm option.split_asm)
  then consider "m = cur" | "starts_with cand cur" "m = cand"
    | "overlap_loop cur cand (min (length cur) (length cand)) = Some m"
    | "candidate_loop cur cands = Some m"
    by blast
  then show ?case
  proof cases
    case 2
    then show ?thesis by (auto simp: prefix_def intro: suffixI)
  next
    case 3
    then show ?thesis by (auto dest!: overlap_loop_Some intro: suffix_drop)
  next
    case 4
    with Cons.IH show ?thesis by auto
  qed auto
qed simp

lemma suffix_trim_start: "suffix (trim_start s) s"
  by (simp add: trim_start_def suffix_dropWhile)

text \<open>Merging a delta into a non-empty tool input (one that is not the \<open>{}\<close> placeholder)
  never loses a buffered character: the result is the buffer followed by text that is the tail
  of the delta, or of the delta with its opening brace restored. A delta shorter than the minimum
  overlap is appended verbatim.\<close>

theorem mergeToolInputDelta_extends:
  assumes "cur \<noteq> []" and "cur \<noteq> ''{}''"
  shows "(\<exists>appended. mergeToolInputDelta cur nextDelta = cur @ appended \<and>
           (suffix appended nextDelta \<or> suffix appended (CHR ''{'' # trim_start nextDelta))) \<and>
         (length nextDelta < 4 \<longrightarrow> mergeToolInputDelta cur nextDelta = cur @ nextDelta)"
proof (cases "candidate_loop cur (candidate_deltas nextDelta)")
  case None
  with assms show ?thesis
    by (auto simp: mergeToolInputDelta_def Let_def MIN_OVERLAP_DEDUP_LENGTH_def)
next
  case (Some m)
  then obtain a cand where a: "m = cur @ a" "cand \<in> set (candidate_deltas nextDelta)" "suffix a cand"
    by (auto dest: candidate_loop_tail)
  then have "suffix a (trim_start nextDelta) \<or> suffix a (CHR ''{'' # trim_start nextDelta)"
    by (auto simp: candidate_deltas_def Let_def split: if_splits)
  then have "suffix a nextDelta \<or> suffix a (CHR ''{'' # trim_start nextDelta)"
    using suffix_order.trans suffix_trim_start by blast
  with assms Some a(1) show ?thesis
    by (auto simp: mergeToolInputDelta_def Let_def MIN_OVERLAP_DEDUP_LENGTH_def)
qed

text \<open>Placeholder removal is a normal form. The result is trimmed, removing placeholders
  again changes nothing, and a result that still starts with an empty object is not followed by
  the start of another object or of a key.\<close>

theorem stripLeadingEmptyObjectPlaceholder_normal_form:
  "js_trim (stripLeadingEmptyObjectPlaceholder s) = stripLeadingEmptyObjectPlaceholder s \<and>
   stripLeadingEmptyObjectPlaceholder (stripLeadingEmptyObjectPlaceholder s)
     = stripLeadingEmptyObjectPlaceholder s \<and>
   \<not> (starts_with (stripLeadingEmptyObjectPlaceholder s) ''{}'' \<and>
      (starts_with (trim_start (drop 2 (stripLeadingEmptyObjectPlaceholder s))) ''{'' \<or>
       starts_with (trim_start (drop 2 (stripLeadingEmptyObjectPlaceholder s))) [CHR 0x22]))"
  using strip_loop_shape [of "js_trim s"]
  by (simp only: strip_is_trimmed strip_idem) (auto simp: stripLeadingEmptyObjectPlaceholder_def)

text \<open>The lenient parse used by the non-streaming paths is the canonical parse with every
  rejection replaced by the empty object, for any JSON parser that rejects the empty text.\<close>

theorem parseToolInputObject_eq_canonical:
  assumes "json_parse c [] = None"
  shows "parseToolInputObject c input =
    (case parseCanonicalToolInput c input of POk v \<Rightarrow> v | PRejected _ \<Rightarrow> JObj [])"
  using assms
  by (cases input)
    (auto simp: parseToolInputObject_def parseCanonicalToolInput_def Let_def split: option.splits)

definition braces_codec :: json_codec where
  "braces_codec = \<lparr>json_parse = (\<lambda>s. if s = ''{}'' then Some (JObj []) else None),
     json_stringify = (\<lambda>v. if v = JObj [] then Some (Some ''{}'') else Some None)\<rparr>"

end
