(* ===== verification/StreamTypes.thy ===== *)
theory StreamTypes
  imports ToolInput
begin

text \<open>
  The data of a provider stream attempt, from \<open>agent/streaming/lifecycle/types.ts\<close>:
  phases, protocol events, signals, frames, the tool and stream snapshots, lifecycle errors and
  outcomes. An optional field is an \<open>option\<close>; \<open>null\<close> is \<open>None\<close>. The optional cost and cache
  fields of \<open>StreamUsage\<close> are the association list \<open>us_extra\<close>. Clock readings are integers.
\<close>

datatype stream_phase =
    AwaitingFirstProgress | Streaming | AwaitingToolInput | ToolHandoff
  | Completed | Failed | Cancelled

datatype deadline_kind = FirstProgress | SemanticIdle | ToolInputIdle | ToolCommitGrace

datatype cancellation_source = CUser | CParent | CRuntime | CClientDisconnected | CConsumerStopped

record stream_usage =
  us_inputTokens :: int
  us_outputTokens :: int
  us_totalTokens :: int
  us_extra :: "(string \<times> jsval) list"

datatype finish_reason = FStop | FLength | FToolCalls | FContentFilter | FOther

type_synonym metadata = "(string \<times> jsval) list"

datatype protocol_event =
    MessageStart "string option"
  | StepStart
  | TextStart "string option"
  | TextContent "string option" string
  | TextEnd "string option"
  | ReasoningStart string
  | ReasoningContent string string
  | ReasoningEnd string "string option" "string option"
  | ToolInputStart string string "bool option" "bool option" bool
  | ToolInputContent string string
  | ToolInputReady string string jsval "bool option" "bool option" "bool option"
  | ToolInputRejected string string rejection_reason
  | ProviderToolStart string string
  | ProviderToolResult string string jsval bool "bool option" "bool option"
  | ProviderToolDenied string string
  | ProviderToolCancelled string string
  | StepFinish "finish_reason option" "metadata option"
  | Custom string jsval

record provider_error =
  pe_code :: string
  pe_publicMessage :: string
  pe_retryable :: bool
  pe_terminal :: bool
  pe_diagnosticId :: "string option"

datatype stream_signal =
    SigProtocol protocol_event
  | SigUsage stream_usage
  | SigProviderError provider_error
  | SigDiagnosticCandidate string jsval

datatype semantic_event = SemProtocol protocol_event | SemUsage stream_usage

datatype input_status = PendingInput | StreamingInput

datatype telemetry_event =
    TelToolInputStatus string "string option" input_status
  | TelLiveHeartbeat
  | TelChildProgress string

datatype deadline_action = Armed | Advanced | Fired

datatype diagnostic_event =
    DiagPartRejected "string option"
  | DiagRepair string
  | DiagInvalidToolTransition
  | DiagInvalidTerminalState
  | DiagDeadline deadline_action string
  | DiagCleanupFailed "string option"
  | DiagProvider string "(string \<times> jsval) list"

datatype frame_body =
    Semantic semantic_event | Telemetry telemetry_event | Diagnostic diagnostic_event

record lifecycle_frame =
  fr_sequence :: nat
  fr_elapsed :: int
  fr_body :: frame_body

datatype tool_phase =
    InputOpen | InputStreaming | InputReady | InputRejected | Running
  | Succeeded | ToolFailed | Denied | ToolCancelled

record tool_snapshot =
  tl_id :: string
  tl_name :: string
  tl_phase :: tool_phase
  tl_inputText :: string
  tl_inputDeltas :: "string list"
  tl_input :: "jsval option"
  tl_rejectionReason :: "rejection_reason option"
  tl_output :: "jsval option"
  tl_error :: "jsval option"
  tl_preliminary :: "bool option"
  tl_providerExecuted :: "bool option"
  tl_dynamic :: "bool option"

record reasoning_part =
  rp_id :: string
  rp_text :: string
  rp_signature :: "string option"
  rp_redacted :: "string option"

record stream_snapshot =
  sn_phase :: stream_phase
  sn_accumulatedText :: string
  sn_reasoning :: "reasoning_part list"
  sn_tools :: "tool_snapshot list"
  sn_finishReason :: "finish_reason option"
  sn_providerMetadata :: "metadata option"
  sn_usage :: stream_usage
  sn_hasStreamOutput :: bool
  sn_hasSemanticProgress :: bool

record lifecycle_policy =
  po_firstProgressTimeoutMs :: int
  po_semanticIdleTimeoutMs :: int
  po_toolInputIdleTimeoutMs :: int
  po_toolCommitGraceMs :: int
  po_requireProviderFinish :: bool
  po_streamRequiresFinish :: bool
  po_statusIntervalMs :: int
  po_attemptTimeoutMs :: int

definition DEFAULT_STREAM_LIFECYCLE_POLICY :: lifecycle_policy where
  "DEFAULT_STREAM_LIFECYCLE_POLICY =
     \<lparr>po_firstProgressTimeoutMs = 60000, po_semanticIdleTimeoutMs = 15000,
      po_toolInputIdleTimeoutMs = 15000, po_toolCommitGraceMs = 250,
      po_requireProviderFinish = False, po_streamRequiresFinish = False,
      po_statusIntervalMs = 5000, po_attemptTimeoutMs = 300000\<rparr>"

record committed_call =
  cc_id :: string
  cc_name :: string
  cc_arguments :: string
  cc_inputDeltas :: "string list"
  cc_dynamic :: bool

datatype lifecycle_error_code =
    FirstProgressTimeout | SemanticIdleTimeout | ToolInputTimeout | ToolInputIncomplete
  | StreamAttemptTimeout | ProtocolViolation | ProviderStreamError | ProviderTerminalError

datatype error_source = EProvider | ERuntime | ETool

record lifecycle_error =
  le_code :: lifecycle_error_code
  le_phase :: stream_phase
  le_source :: error_source
  le_retryable :: bool
  le_publicMessage :: string
  le_providerCode :: "string option"
  le_diagnosticId :: "string option"

text \<open>The fields of \<open>StreamOutcomeBase\<close> and the four outcomes over it.\<close>

record outcome_base =
  ob_snapshot :: stream_snapshot
  ob_usage :: stream_usage
  ob_elapsed :: int
  ob_phase :: stream_phase

datatype stream_outcome =
    OCompleted outcome_base finish_reason
  | OToolHandoff outcome_base "committed_call list"
  | OCancelled outcome_base cancellation_source string
  | OFailed outcome_base lifecycle_error

fun outcome_base_of :: "stream_outcome \<Rightarrow> outcome_base" where
  "outcome_base_of (OCompleted b _) = b"
| "outcome_base_of (OToolHandoff b _) = b"
| "outcome_base_of (OCancelled b _ _) = b"
| "outcome_base_of (OFailed b _) = b"

text \<open>\<open>providerExecuted !== true\<close>: the tool runs locally.\<close>

abbreviation is_local :: "tool_snapshot \<Rightarrow> bool" where
  "is_local t \<equiv> tl_providerExecuted t \<noteq> Some True"

abbreviation input_pending :: "tool_snapshot \<Rightarrow> bool" where
  "input_pending t \<equiv> tl_phase t = InputOpen \<or> tl_phase t = InputStreaming"

definition terminal_phase :: "stream_phase \<Rightarrow> bool" where
  "terminal_phase p \<longleftrightarrow> p = Completed \<or> p = Failed \<or> p = Cancelled \<or> p = ToolHandoff"

end
