(* ===== verification/StreamReducer.thy ===== *)
theory StreamReducer
  imports StreamTypes
begin

text \<open>
  The stream lifecycle reducer, \<open>agent/streaming/lifecycle/reducer.ts\<close>: one signal from the
  provider adapter updates the reducer state and emits frames. The \<open>emit\<close> closure of the
  source, which numbers a frame and appends it, is \<open>emit\<close> on the pair of state and frames.
  Cloning the state first is the identity here, since HOL values do not alias.
\<close>

record reducer_state =
  rs_snapshot :: stream_snapshot
  rs_sequence :: nat
  rs_activeTextId :: "string option"
  rs_activeReasoningId :: "string option"
  rs_nextTextIndex :: nat
  rs_tools :: "(string \<times> tool_snapshot) list"
  rs_terminal :: bool
  rs_terminalError :: "lifecycle_error option"

type_synonym emission = "reducer_state \<times> lifecycle_frame list"

record reduction =
  rd_state :: reducer_state
  rd_frames :: "lifecycle_frame list"
  rd_progress :: bool

text \<open>What the reducer can throw: reading a field of \<open>null\<close> custom data, and the routing
  error of the inner switch (proved unreachable).\<close>

datatype reduce_error = CustomDataTypeError | RoutingError

definition createInitialReducerState :: reducer_state where
  "createInitialReducerState =
     \<lparr>rs_snapshot = \<lparr>sn_phase = AwaitingFirstProgress, sn_accumulatedText = [], sn_reasoning = [],
        sn_tools = [], sn_finishReason = None, sn_providerMetadata = None,
        sn_usage = \<lparr>us_inputTokens = 0, us_outputTokens = 0, us_totalTokens = 0, us_extra = []\<rparr>,
        sn_hasStreamOutput = False, sn_hasSemanticProgress = False\<rparr>,
      rs_sequence = 0, rs_activeTextId = None, rs_activeReasoningId = None,
      rs_nextTextIndex = 0, rs_tools = [], rs_terminal = False, rs_terminalError = None\<rparr>"

fun emit :: "int \<Rightarrow> frame_body \<Rightarrow> emission \<Rightarrow> emission" where
  "emit e b (s, fs) =
     (s\<lparr>rs_sequence := Suc (rs_sequence s)\<rparr>,
      fs @ [\<lparr>fr_sequence = Suc (rs_sequence s), fr_elapsed = e, fr_body = b\<rparr>])"

abbreviation emit_sem :: "int \<Rightarrow> protocol_event \<Rightarrow> emission \<Rightarrow> emission" where
  "emit_sem e ev \<equiv> emit e (Semantic (SemProtocol ev))"

subsection \<open>Open text and reasoning segments\<close>

fun closeReasoning :: "int \<Rightarrow> emission \<Rightarrow> emission" where
  "closeReasoning e (s, fs) =
     (case rs_activeReasoningId s of
        None \<Rightarrow> (s, fs)
      | Some i \<Rightarrow>
          (let (s1, fs1) = emit_sem e (ReasoningEnd i None None) (s, fs)
           in (s1\<lparr>rs_activeReasoningId := None\<rparr>, fs1)))"

fun closeText :: "int \<Rightarrow> emission \<Rightarrow> emission" where
  "closeText e (s, fs) =
     (case rs_activeTextId s of
        None \<Rightarrow> (s, fs)
      | Some i \<Rightarrow>
          (let (s1, fs1) = emit_sem e (TextEnd (Some i)) (s, fs)
           in (s1\<lparr>rs_activeTextId := None\<rparr>, fs1)))"

definition closeOpenContent :: "int \<Rightarrow> emission \<Rightarrow> emission" where
  "closeOpenContent e x = closeText e (closeReasoning e x)"

definition text_id :: "nat \<Rightarrow> string" where
  "text_id n = ''text:'' @ show_nat n"

definition openText :: "int \<Rightarrow> emission \<Rightarrow> emission" where
  "openText e x =
     (case x of (s, fs) \<Rightarrow>
       (let i = text_id (rs_nextTextIndex s);
            s1 = s\<lparr>rs_nextTextIndex := Suc (rs_nextTextIndex s), rs_activeTextId := Some i\<rparr>
        in emit_sem e (TextStart (Some i)) (s1, fs)))"

definition upd_snapshot :: "(stream_snapshot \<Rightarrow> stream_snapshot) \<Rightarrow> reducer_state \<Rightarrow> reducer_state" where
  "upd_snapshot f s = s\<lparr>rs_snapshot := f (rs_snapshot s)\<rparr>"

definition markProgress :: "reducer_state \<Rightarrow> reducer_state" where
  "markProgress = upd_snapshot (\<lambda>n. n\<lparr>sn_phase := Streaming, sn_hasSemanticProgress := True\<rparr>)"

fun append_reasoning :: "string \<Rightarrow> string \<Rightarrow> reasoning_part list \<Rightarrow> reasoning_part list" where
  "append_reasoning i delta [] =
     [\<lparr>rp_id = i, rp_text = delta, rp_signature = None, rp_redacted = None\<rparr>]"
| "append_reasoning i delta (p # ps) =
     (if rp_id p = i then p\<lparr>rp_text := rp_text p @ delta\<rparr> # ps
      else p # append_reasoning i delta ps)"

definition sign_reasoning :: "string \<Rightarrow> string option \<Rightarrow> string option \<Rightarrow>
    reasoning_part list \<Rightarrow> reasoning_part list" where
  "sign_reasoning i sig red =
     map (\<lambda>p. if rp_id p = i
          then p\<lparr>rp_signature := (case sig of None \<Rightarrow> rp_signature p | Some x \<Rightarrow> Some x),
                 rp_redacted := (case red of None \<Rightarrow> rp_redacted p | Some x \<Rightarrow> Some x)\<rparr>
          else p)"

subsection \<open>Tool snapshots\<close>

definition serializeToolInput :: "json_codec \<Rightarrow> jsval \<Rightarrow> string option" where
  "serializeToolInput c input =
     (case json_stringify c (if input = JUndef then JNull else input) of
        None \<Rightarrow> None
      | Some None \<Rightarrow> Some ''null''
      | Some (Some t) \<Rightarrow> Some t)"

definition isBareEmptyObjectPlaceholder :: "string \<Rightarrow> bool" where
  "isBareEmptyObjectPlaceholder inputText =
     (let stripped = stripLeadingEmptyObjectPlaceholder inputText
      in stripped = [] \<or> stripped = ''{}'')"

definition syncToolSnapshot :: "stream_phase \<Rightarrow> reducer_state \<Rightarrow> reducer_state" where
  "syncToolSnapshot p s =
     upd_snapshot (\<lambda>n. n\<lparr>sn_phase := p, sn_tools := jm_values (rs_tools s),
        sn_hasStreamOutput := (sn_hasStreamOutput n \<or>
          (\<exists>t \<in> set (jm_values (rs_tools s)). tl_rejectionReason t \<noteq> Some RUnavailable))\<rparr>) s"

definition put_tool :: "string \<Rightarrow> tool_snapshot \<Rightarrow> reducer_state \<Rightarrow> reducer_state" where
  "put_tool i t s = s\<lparr>rs_tools := jm_set i t (rs_tools s)\<rparr>"

definition protocol_violation :: "stream_phase \<Rightarrow> lifecycle_error" where
  "protocol_violation failedFrom =
     \<lparr>le_code = ProtocolViolation, le_phase = failedFrom, le_source = ERuntime,
      le_retryable = False,
      le_publicMessage = ''Provider stream violated the lifecycle protocol'',
      le_providerCode = None, le_diagnosticId = None\<rparr>"

fun failProtocol :: "int \<Rightarrow> emission \<Rightarrow> emission \<times> bool" where
  "failProtocol e (s, fs) =
     (let failedFrom = sn_phase (rs_snapshot s);
          s1 = upd_snapshot (\<lambda>n. n\<lparr>sn_phase := Failed\<rparr>)
                 (s\<lparr>rs_terminal := True, rs_terminalError := Some (protocol_violation failedFrom)\<rparr>)
      in (emit e (Diagnostic DiagInvalidToolTransition) (s1, fs), False))"

definition set_if_true :: "bool option \<Rightarrow> bool option" where
  "set_if_true b = (if b = Some True then Some True else None)"

text \<open>One entry of the loop of \<open>commitPendingLocalInputs\<close>. The loop writes only the entry it
  stands on, so iterating over the live map is iterating over its entries at the start.\<close>

fun commit_entry :: "json_codec \<Rightarrow> int \<Rightarrow> string \<times> tool_snapshot \<Rightarrow> emission \<Rightarrow> emission" where
  "commit_entry c e (i, t) (s, fs) =
     (if tl_providerExecuted t = Some True \<or> \<not> input_pending t then (s, fs)
      else if isBareEmptyObjectPlaceholder (tl_inputText t) then
        emit_sem e (ToolInputRejected i (tl_name t) RInvalid)
          (put_tool i (t\<lparr>tl_phase := InputRejected, tl_rejectionReason := Some RInvalid\<rparr>) s, fs)
      else (case parseCanonicalToolInput c (JStr (tl_inputText t)) of
          POk v \<Rightarrow>
            emit_sem e (ToolInputReady i (tl_name t) v None
                (set_if_true (tl_dynamic t)) None)
              (put_tool i (t\<lparr>tl_phase := InputReady, tl_input := Some v\<rparr>) s, fs)
        | PRejected r \<Rightarrow>
            emit_sem e (ToolInputRejected i (tl_name t) r)
              (put_tool i (t\<lparr>tl_phase := InputRejected, tl_rejectionReason := Some r\<rparr>) s, fs)))"

fun commitPendingLocalInputs :: "json_codec \<Rightarrow> int \<Rightarrow> emission \<Rightarrow> emission" where
  "commitPendingLocalInputs c e (s, fs) =
     (let (s1, fs1) = fold (commit_entry c e) (rs_tools s) (s, fs)
      in (syncToolSnapshot (sn_phase (rs_snapshot s1)) s1, fs1))"

subsection \<open>Tool and step events\<close>

definition on_tool_input_start :: "int \<Rightarrow> string \<Rightarrow> string \<Rightarrow> bool option \<Rightarrow> bool option \<Rightarrow> bool \<Rightarrow>
    bool \<Rightarrow> emission \<Rightarrow> emission \<times> bool" where
  "on_tool_input_start e i nm pe dyn obs prog x =
     (let (s, fs) = closeOpenContent e x;
          t = \<lparr>tl_id = i, tl_name = nm, tl_phase = InputOpen, tl_inputText = [], tl_inputDeltas = [],
               tl_input = None, tl_rejectionReason = None, tl_output = None, tl_error = None,
               tl_preliminary = None, tl_providerExecuted = pe, tl_dynamic = set_if_true dyn\<rparr>;
          s1 = syncToolSnapshot AwaitingToolInput (put_tool i t s)
      in (emit_sem e (ToolInputStart i nm pe dyn obs) (s1, fs), prog))"

definition on_tool_input_content :: "int \<Rightarrow> string \<Rightarrow> string \<Rightarrow> emission \<Rightarrow> emission \<times> bool" where
  "on_tool_input_content e i delta x =
     (case x of (s, fs) \<Rightarrow>
       (case jm_get (rs_tools s) i of
          None \<Rightarrow> failProtocol e (s, fs)
        | Some t \<Rightarrow>
            if \<not> input_pending t then failProtocol e (s, fs)
            else
              (let inputText = mergeToolInputDelta (tl_inputText t) delta;
                   t1 = t\<lparr>tl_phase := InputStreaming, tl_inputText := inputText,
                          tl_inputDeltas := tl_inputDeltas t @ [delta]\<rparr>;
                   s1 = syncToolSnapshot AwaitingToolInput (put_tool i t1 s)
               in (emit_sem e (ToolInputContent i delta) (s1, fs), inputText \<noteq> tl_inputText t))))"

definition on_tool_input_ready :: "json_codec \<Rightarrow> int \<Rightarrow> string \<Rightarrow> string \<Rightarrow> jsval \<Rightarrow> bool option \<Rightarrow>
    bool option \<Rightarrow> bool option \<Rightarrow> emission \<Rightarrow> emission \<times> bool" where
  "on_tool_input_ready c e i nm input pe dyn ann x =
     (case x of (s, fs) \<Rightarrow>
       (let prior = jm_get (rs_tools s) i;
            finalInputText =
              (case serializeToolInput c input of
                 None \<Rightarrow> (case prior of
                            Some t \<Rightarrow> if tl_inputText t \<noteq> [] then tl_inputText t else ''null''
                          | None \<Rightarrow> ''null'')
               | Some ser \<Rightarrow> mergeToolCallInput c
                   (case prior of Some t \<Rightarrow> tl_inputText t | None \<Rightarrow> []) ser);
            (s1, fs1) =
              (case prior of
                 Some _ \<Rightarrow> (s, fs)
               | None \<Rightarrow> emit e (Diagnostic (DiagRepair ''implicit_tool_input_start''))
                   (emit_sem e (ToolInputStart i nm pe (set_if_true dyn) False) (s, fs)));
            t1 = \<lparr>tl_id = i, tl_name = nm, tl_phase = InputReady, tl_inputText = finalInputText,
                  tl_inputDeltas = (case prior of Some t \<Rightarrow> tl_inputDeltas t | None \<Rightarrow> []),
                  tl_input = Some input, tl_rejectionReason = None, tl_output = None,
                  tl_error = None, tl_preliminary = None, tl_providerExecuted = pe,
                  tl_dynamic = set_if_true dyn\<rparr>;
            s2 = syncToolSnapshot AwaitingToolInput (put_tool i t1 s1)
        in (emit_sem e (ToolInputReady i nm input pe dyn ann) (s2, fs1), True)))"

definition on_tool_input_rejected :: "int \<Rightarrow> string \<Rightarrow> string \<Rightarrow> rejection_reason \<Rightarrow> bool \<Rightarrow>
    emission \<Rightarrow> emission \<times> bool" where
  "on_tool_input_rejected e i nm reason prog x =
     (case x of (s, fs) \<Rightarrow>
       (let prior = jm_get (rs_tools s) i;
            t = \<lparr>tl_id = i, tl_name = nm, tl_phase = InputRejected,
                 tl_inputText = (case prior of Some t \<Rightarrow> tl_inputText t | None \<Rightarrow> []),
                 tl_inputDeltas = (case prior of Some t \<Rightarrow> tl_inputDeltas t | None \<Rightarrow> []),
                 tl_input = None, tl_rejectionReason = Some reason, tl_output = None,
                 tl_error = None, tl_preliminary = None, tl_providerExecuted = None,
                 tl_dynamic = None\<rparr>;
            s1 = syncToolSnapshot AwaitingToolInput (put_tool i t s)
        in (emit_sem e (ToolInputRejected i nm reason) (s1, fs), prog)))"

definition on_provider_tool_start :: "int \<Rightarrow> string \<Rightarrow> string \<Rightarrow> bool \<Rightarrow> emission \<Rightarrow> emission \<times> bool" where
  "on_provider_tool_start e i nm prog x =
     (case x of (s, fs) \<Rightarrow>
       (case jm_get (rs_tools s) i of
          None \<Rightarrow> failProtocol e (s, fs)
        | Some t \<Rightarrow>
            if tl_providerExecuted t \<noteq> Some True \<or> tl_phase t \<noteq> InputReady
            then failProtocol e (s, fs)
            else
              (let s1 = syncToolSnapshot Streaming (put_tool i (t\<lparr>tl_phase := Running\<rparr>) s)
               in (emit_sem e (ProviderToolStart i nm) (s1, fs), prog))))"

text \<open>The terminal tool snapshot of a result, a denial or a cancellation.\<close>

fun settle_tool :: "protocol_event \<Rightarrow> tool_snapshot \<Rightarrow> tool_snapshot" where
  "settle_tool (ProviderToolResult _ _ out isError _ pre) t =
     (let t1 = (if isError then t\<lparr>tl_phase := ToolFailed, tl_error := Some out\<rparr>
                else t\<lparr>tl_phase := Succeeded, tl_output := Some out\<rparr>)
      in (case pre of None \<Rightarrow> t1 | Some p \<Rightarrow> t1\<lparr>tl_preliminary := Some p\<rparr>))"
| "settle_tool (ProviderToolDenied _ _) t =
     t\<lparr>tl_phase := Denied, tl_error := Some (JStr ''Tool output denied'')\<rparr>"
| "settle_tool _ t =
     t\<lparr>tl_phase := ToolCancelled, tl_error := Some (JStr ''Provider tool execution was cancelled'')\<rparr>"

definition on_provider_tool_end :: "int \<Rightarrow> string \<Rightarrow> protocol_event \<Rightarrow> emission \<Rightarrow> emission \<times> bool" where
  "on_provider_tool_end e i ev x =
     (case x of (s, fs) \<Rightarrow>
       (case jm_get (rs_tools s) i of
          None \<Rightarrow> failProtocol e (s, fs)
        | Some t \<Rightarrow>
            if tl_providerExecuted t \<noteq> Some True \<or> tl_phase t \<noteq> Running
            then failProtocol e (s, fs)
            else (case ev of
                ProviderToolResult _ _ _ _ _ (Some True) \<Rightarrow> (emit_sem e ev (s, fs), True)
              | _ \<Rightarrow>
                (let s1 = syncToolSnapshot Streaming (put_tool i (settle_tool ev t) s)
                 in (emit_sem e ev (s1, fs), True)))))"

definition tool_input_incomplete :: "stream_phase \<Rightarrow> lifecycle_error" where
  "tool_input_incomplete p =
     \<lparr>le_code = ToolInputIncomplete, le_phase = p, le_source = ETool, le_retryable = False,
      le_publicMessage = ''Tool input ended before a valid object was complete'',
      le_providerCode = None, le_diagnosticId = None\<rparr>"

definition handoff_without_call :: "stream_phase \<Rightarrow> lifecycle_error" where
  "handoff_without_call p =
     \<lparr>le_code = ProtocolViolation, le_phase = p, le_source = ERuntime, le_retryable = False,
      le_publicMessage = ''Provider requested tool handoff without an executable tool call'',
      le_providerCode = None, le_diagnosticId = None\<rparr>"

definition on_step_finish :: "json_codec \<Rightarrow> int \<Rightarrow> bool \<Rightarrow> finish_reason option \<Rightarrow> metadata option \<Rightarrow>
    emission \<Rightarrow> emission \<times> bool" where
  "on_step_finish c e recoverUnavailableToolCalls fr meta x =
     (let x1 = closeOpenContent e x;
          x2 = (if fr = Some FToolCalls then commitPendingLocalInputs c e x1 else x1);
          (s, fs) = emit_sem e (StepFinish fr meta) x2;
          values = jm_values (rs_tools s);
          readyLocal = filter (\<lambda>t. tl_phase t = InputReady \<and> is_local t) values;
          rejectedLocal = filter (\<lambda>t. tl_phase t = InputRejected \<and> is_local t) values;
          phaseBeforeFinish = sn_phase (rs_snapshot s);
          recoverUnavailable = (recoverUnavailableToolCalls \<and> rejectedLocal \<noteq> [] \<and>
            \<not> (\<exists>t \<in> set rejectedLocal. tl_rejectionReason t \<noteq> Some RUnavailable));
          terminalPhase =
            (if fr = Some FToolCalls \<and> (readyLocal \<noteq> [] \<or> recoverUnavailable) then ToolHandoff
             else if fr = Some FToolCalls then Failed
             else Completed);
          s1 = upd_snapshot (\<lambda>n. n\<lparr>sn_finishReason := fr,
                  sn_providerMetadata := (case meta of None \<Rightarrow> sn_providerMetadata n | Some m \<Rightarrow> Some m),
                  sn_phase := terminalPhase, sn_hasSemanticProgress := True\<rparr>) s;
          incomplete = (\<exists>t \<in> set rejectedLocal.
            tl_rejectionReason t = Some RInvalid \<or> tl_rejectionReason t = Some RMalformed);
          s2 = (if terminalPhase = Failed
                then s1\<lparr>rs_terminalError := Some (if incomplete then tool_input_incomplete phaseBeforeFinish
                                                 else handoff_without_call phaseBeforeFinish)\<rparr>
                else s1)
      in ((s2\<lparr>rs_terminal := True\<rparr>, fs), True))"

fun reduceNonTextProtocolEvent :: "json_codec \<Rightarrow> protocol_event \<Rightarrow> int \<Rightarrow> bool \<Rightarrow> bool \<Rightarrow> emission \<Rightarrow>
    reduce_error + (emission \<times> bool)" where
  "reduceNonTextProtocolEvent c (MessageStart m) e prog rec x = Inr (emit_sem e (MessageStart m) x, prog)"
| "reduceNonTextProtocolEvent c StepStart e prog rec x = Inr (emit_sem e StepStart x, prog)"
| "reduceNonTextProtocolEvent c (ToolInputStart i nm pe dyn obs) e prog rec x =
     Inr (on_tool_input_start e i nm pe dyn obs prog x)"
| "reduceNonTextProtocolEvent c (ToolInputContent i delta) e prog rec x =
     Inr (on_tool_input_content e i delta x)"
| "reduceNonTextProtocolEvent c (ToolInputReady i nm input pe dyn ann) e prog rec x =
     Inr (on_tool_input_ready c e i nm input pe dyn ann x)"
| "reduceNonTextProtocolEvent c (ToolInputRejected i nm r) e prog rec x =
     Inr (on_tool_input_rejected e i nm r prog x)"
| "reduceNonTextProtocolEvent c (ProviderToolStart i nm) e prog rec x =
     Inr (on_provider_tool_start e i nm prog x)"
| "reduceNonTextProtocolEvent c (ProviderToolResult i nm out isError dyn pre) e prog rec x =
     Inr (on_provider_tool_end e i (ProviderToolResult i nm out isError dyn pre) x)"
| "reduceNonTextProtocolEvent c (ProviderToolDenied i nm) e prog rec x =
     Inr (on_provider_tool_end e i (ProviderToolDenied i nm) x)"
| "reduceNonTextProtocolEvent c (ProviderToolCancelled i nm) e prog rec x =
     Inr (on_provider_tool_end e i (ProviderToolCancelled i nm) x)"
| "reduceNonTextProtocolEvent c (StepFinish fr meta) e prog rec x =
     Inr (on_step_finish c e rec fr meta x)"
| "reduceNonTextProtocolEvent c _ e prog rec x = Inl RoutingError"

subsection \<open>The reducer\<close>

definition on_reasoning_start :: "int \<Rightarrow> string \<Rightarrow> emission \<Rightarrow> emission \<times> bool" where
  "on_reasoning_start e i x =
     (let (s, fs) = closeReasoning e (closeText e x)
      in (emit_sem e (ReasoningStart i) (s\<lparr>rs_activeReasoningId := Some i\<rparr>, fs), False))"

definition on_reasoning_content :: "int \<Rightarrow> string \<Rightarrow> string \<Rightarrow> emission \<Rightarrow> emission \<times> bool" where
  "on_reasoning_content e i delta x =
     (let (s, fs) = closeText e x;
          (s1, fs1) =
            (if rs_activeReasoningId s \<noteq> Some i then
               (let (s', fs') = closeReasoning e (s, fs)
                in emit e (Diagnostic (DiagRepair ''implicit_reasoning_start''))
                     (emit_sem e (ReasoningStart i) (s'\<lparr>rs_activeReasoningId := Some i\<rparr>, fs')))
             else (s, fs));
          s2 = upd_snapshot (\<lambda>n. n\<lparr>sn_reasoning := append_reasoning i delta (sn_reasoning n)\<rparr>) s1;
          (s3, fs3) = emit_sem e (ReasoningContent i delta) (s2, fs1)
      in if delta \<noteq> [] then ((markProgress s3, fs3), True) else ((s3, fs3), False))"

definition on_reasoning_end :: "int \<Rightarrow> string \<Rightarrow> string option \<Rightarrow> string option \<Rightarrow> emission \<Rightarrow> emission \<times> bool" where
  "on_reasoning_end e i sig red x =
     (case x of (s, fs) \<Rightarrow>
        if rs_activeReasoningId s \<noteq> Some i then ((s, fs), False)
        else
          (let s1 = (if sig \<noteq> None \<or> red \<noteq> None
                     then upd_snapshot (\<lambda>n. n\<lparr>sn_reasoning := sign_reasoning i sig red (sn_reasoning n)\<rparr>) s
                     else s);
               (s2, fs2) = emit_sem e (ReasoningEnd i sig red) (s1, fs)
           in ((s2\<lparr>rs_activeReasoningId := None\<rparr>, fs2), False)))"

definition on_text_start :: "int \<Rightarrow> emission \<Rightarrow> emission \<times> bool" where
  "on_text_start e x = (openText e (closeText e (closeReasoning e x)), False)"

definition on_text_content :: "int \<Rightarrow> string \<Rightarrow> emission \<Rightarrow> emission \<times> bool" where
  "on_text_content e delta x =
     (let (s, fs) = closeReasoning e x;
          (s1, fs1) =
            (if rs_activeTextId s = None
             then emit e (Diagnostic (DiagRepair ''implicit_text_start'')) (openText e (s, fs))
             else (s, fs));
          s2 = upd_snapshot (\<lambda>n. n\<lparr>sn_accumulatedText := sn_accumulatedText n @ delta,
                 sn_hasStreamOutput := (sn_hasStreamOutput n \<or> delta \<noteq> [])\<rparr>) s1;
          (s3, fs3) = emit_sem e (TextContent (rs_activeTextId s2) delta) (s2, fs1)
      in if delta \<noteq> [] then ((markProgress s3, fs3), True) else ((s3, fs3), False))"

definition on_custom :: "int \<Rightarrow> string \<Rightarrow> jsval \<Rightarrow> emission \<Rightarrow> reduce_error + (emission \<times> bool)" where
  "on_custom e nm data x =
     (case x of (s, fs) \<Rightarrow>
        if nm = ''tool-call-status'' then
          (case js_field data ''toolCallId'' of
             None \<Rightarrow> Inl CustomDataTypeError
           | Some (JStr toolCallId) \<Rightarrow>
               (let status = (case js_field data ''status'' of
                       Some (JStr st) \<Rightarrow> if st = ''pending_input'' then Some PendingInput
                         else if st = ''streaming_input'' then Some StreamingInput else None
                     | _ \<Rightarrow> None)
                in case status of
                     None \<Rightarrow> Inr ((s, fs), False)
                   | Some st \<Rightarrow>
                       Inr (emit e (Telemetry (TelToolInputStatus toolCallId
                              (map_option tl_name (find (\<lambda>t. tl_id t = toolCallId) (sn_tools (rs_snapshot s))))
                              st)) (s, fs), False))
           | Some _ \<Rightarrow> Inr ((s, fs), False))
        else Inr (emit_sem e (Custom nm data) (s, fs), False))"

fun reduceProtocolEvent :: "json_codec \<Rightarrow> protocol_event \<Rightarrow> int \<Rightarrow> bool \<Rightarrow> emission \<Rightarrow>
    reduce_error + (emission \<times> bool)" where
  "reduceProtocolEvent c (ReasoningStart i) e rec x = Inr (on_reasoning_start e i x)"
| "reduceProtocolEvent c (ReasoningContent i delta) e rec x = Inr (on_reasoning_content e i delta x)"
| "reduceProtocolEvent c (ReasoningEnd i sig red) e rec x = Inr (on_reasoning_end e i sig red x)"
| "reduceProtocolEvent c (TextStart _) e rec x = Inr (on_text_start e x)"
| "reduceProtocolEvent c (TextContent _ delta) e rec x = Inr (on_text_content e delta x)"
| "reduceProtocolEvent c (TextEnd _) e rec x = Inr (closeText e x, False)"
| "reduceProtocolEvent c (Custom nm data) e rec x = on_custom e nm data x"
| "reduceProtocolEvent c ev e rec x = reduceNonTextProtocolEvent c ev e False rec x"

definition finish_reduction :: "emission \<times> bool \<Rightarrow> reduction" where
  "finish_reduction r =
     (case r of ((s, fs), prog) \<Rightarrow>
        \<lparr>rd_state = (if prog \<and> \<not> sn_hasSemanticProgress (rs_snapshot s)
                     then upd_snapshot (\<lambda>n. n\<lparr>sn_hasSemanticProgress := True\<rparr>) s else s),
         rd_frames = fs, rd_progress = prog\<rparr>)"

definition reduceStreamSignal :: "json_codec \<Rightarrow> reducer_state \<Rightarrow> stream_signal \<Rightarrow> int \<Rightarrow> bool \<Rightarrow>
    reduce_error + reduction" where
  "reduceStreamSignal c current signal e recoverUnavailableToolCalls =
     (if rs_terminal current then
        (let (s, fs) = emit e (Diagnostic (DiagPartRejected None)) (current, [])
         in Inr \<lparr>rd_state = s, rd_frames = fs, rd_progress = False\<rparr>)
      else case signal of
        SigUsage u \<Rightarrow>
          (let (s, fs) = emit e (Semantic (SemUsage u))
                 (upd_snapshot (\<lambda>n. n\<lparr>sn_usage := u\<rparr>) current, [])
           in Inr \<lparr>rd_state = s, rd_frames = fs, rd_progress = False\<rparr>)
      | SigProviderError _ \<Rightarrow> Inr \<lparr>rd_state = current, rd_frames = [], rd_progress = False\<rparr>
      | SigDiagnosticCandidate _ _ \<Rightarrow> Inr \<lparr>rd_state = current, rd_frames = [], rd_progress = False\<rparr>
      | SigProtocol ev \<Rightarrow>
          (case reduceProtocolEvent c ev e recoverUnavailableToolCalls (current, []) of
             Inl err \<Rightarrow> Inl err
           | Inr r \<Rightarrow> Inr (finish_reduction r)))"

subsection \<open>Deadlines of local tools and projection\<close>

fun deadline_entry :: "json_codec \<Rightarrow> int \<Rightarrow> string \<times> tool_snapshot \<Rightarrow> emission \<times> bool \<Rightarrow> emission \<times> bool" where
  "deadline_entry c e (i, t) ((s, fs), received) =
     (if tl_providerExecuted t = Some True \<or> \<not> input_pending t then ((s, fs), received)
      else
        (let hadInput = (stripLeadingEmptyObjectPlaceholder (tl_inputText t) \<noteq> []);
             received1 = (received \<or> hadInput);
             reject = (\<lambda>r.
               (let s1 = put_tool i (t\<lparr>tl_phase := InputRejected, tl_rejectionReason := Some r\<rparr>) s
                in if hadInput then emit_sem e (ToolInputRejected i (tl_name t) r) (s1, fs)
                   else (s1, fs)))
         in if isBareEmptyObjectPlaceholder (tl_inputText t) then (reject RInvalid, received1)
            else (case parseCanonicalToolInput c (JStr (tl_inputText t)) of
                POk v \<Rightarrow>
                  (emit_sem e (ToolInputReady i (tl_name t) v None (set_if_true (tl_dynamic t)) None)
                    (put_tool i (t\<lparr>tl_phase := InputReady, tl_input := Some v\<rparr>) s, fs), received1)
              | PRejected r \<Rightarrow> (reject r, received1))))"

datatype deadline_resolution =
    DHandoff reduction
  | DFailed reduction lifecycle_error_code

definition resolveLocalToolDeadline :: "json_codec \<Rightarrow> reducer_state \<Rightarrow> int \<Rightarrow> deadline_resolution" where
  "resolveLocalToolDeadline c current e =
     (let ((s, fs), receivedInput) = fold (deadline_entry c e) (rs_tools current) ((current, []), False);
          values = jm_values (rs_tools s);
          ready = filter (\<lambda>t. tl_phase t = InputReady \<and> is_local t) values;
          s1 = s\<lparr>rs_terminal := True\<rparr>
      in if ready \<noteq> [] then
           DHandoff \<lparr>rd_state = upd_snapshot (\<lambda>n. n\<lparr>sn_finishReason := Some FToolCalls,
                sn_phase := ToolHandoff, sn_hasSemanticProgress := True, sn_tools := values\<rparr>) s1,
              rd_frames = fs, rd_progress = True\<rparr>
         else
           DFailed \<lparr>rd_state = upd_snapshot (\<lambda>n. n\<lparr>sn_tools := values\<rparr>) s1,
              rd_frames = fs, rd_progress = False\<rparr>
             (if receivedInput then ToolInputIncomplete else ToolInputTimeout))"

definition finalizeStreamProjection :: "reducer_state \<Rightarrow> int \<Rightarrow> reduction" where
  "finalizeStreamProjection current e =
     (let (s, fs) = closeOpenContent e (current, [])
      in \<lparr>rd_state = s, rd_frames = fs, rd_progress = False\<rparr>)"

end
