(* ===== verification/StreamProjection.thy ===== *)
theory StreamProjection
  imports StreamReducer
begin

text \<open>
  The contract between the reducer and whoever consumes its frames, as a refinement. A consumer
  that only sees frames keeps a \<open>stream_view\<close>: the last sequence number, the open text and
  reasoning segment, the text and reasoning received, the usage and the finish reason.
  \<open>observe\<close> rejects a frame that is out of sequence or that breaks segment bracketing.
  The theorem: observing the frames of a signal leads from the view of the old reducer state to
  the view of the new one, so the frames alone reproduce the state's content.
\<close>

record stream_view =
  sv_sequence :: nat
  sv_openText :: "string option"
  sv_openReasoning :: "string option"
  sv_text :: string
  sv_reasoning :: "reasoning_part list"
  sv_usage :: stream_usage
  sv_finish :: "finish_reason option"

definition view :: "reducer_state \<Rightarrow> stream_view" where
  "view s =
     \<lparr>sv_sequence = rs_sequence s, sv_openText = rs_activeTextId s,
      sv_openReasoning = rs_activeReasoningId s,
      sv_text = sn_accumulatedText (rs_snapshot s), sv_reasoning = sn_reasoning (rs_snapshot s),
      sv_usage = sn_usage (rs_snapshot s), sv_finish = sn_finishReason (rs_snapshot s)\<rparr>"

fun observe_event :: "stream_view \<Rightarrow> protocol_event \<Rightarrow> stream_view option" where
  "observe_event v (TextStart (Some i)) =
     (if sv_openText v = None \<and> sv_openReasoning v = None
      then Some (v\<lparr>sv_openText := Some i\<rparr>) else None)"
| "observe_event v (TextStart None) = None"
| "observe_event v (TextContent i delta) =
     (if i \<noteq> None \<and> sv_openText v = i \<and> sv_openReasoning v = None
      then Some (v\<lparr>sv_text := sv_text v @ delta\<rparr>) else None)"
| "observe_event v (TextEnd i) =
     (if i \<noteq> None \<and> sv_openText v = i then Some (v\<lparr>sv_openText := None\<rparr>) else None)"
| "observe_event v (ReasoningStart i) =
     (if sv_openText v = None \<and> sv_openReasoning v = None
      then Some (v\<lparr>sv_openReasoning := Some i\<rparr>) else None)"
| "observe_event v (ReasoningContent i delta) =
     (if sv_openReasoning v = Some i \<and> sv_openText v = None
      then Some (v\<lparr>sv_reasoning := append_reasoning i delta (sv_reasoning v)\<rparr>) else None)"
| "observe_event v (ReasoningEnd i sig red) =
     (if sv_openReasoning v = Some i
      then Some (v\<lparr>sv_openReasoning := None, sv_reasoning := sign_reasoning i sig red (sv_reasoning v)\<rparr>)
      else None)"
| "observe_event v (StepFinish fr _) =
     (if sv_openText v = None \<and> sv_openReasoning v = None
      then Some (v\<lparr>sv_finish := fr\<rparr>) else None)"
| "observe_event v _ = Some v"

fun observe :: "stream_view \<Rightarrow> lifecycle_frame \<Rightarrow> stream_view option" where
  "observe v f =
     (if fr_sequence f \<noteq> Suc (sv_sequence v) then None
      else map_option (\<lambda>w. w\<lparr>sv_sequence := Suc (sv_sequence v)\<rparr>)
        (case fr_body f of
           Semantic (SemProtocol ev) \<Rightarrow> observe_event v ev
         | Semantic (SemUsage u) \<Rightarrow> Some (v\<lparr>sv_usage := u\<rparr>)
         | Telemetry _ \<Rightarrow> Some v
         | Diagnostic _ \<Rightarrow> Some v))"

fun observe_all :: "stream_view \<Rightarrow> lifecycle_frame list \<Rightarrow> stream_view option" where
  "observe_all v [] = Some v"
| "observe_all v (f # fs) = Option.bind (observe v f) (\<lambda>w. observe_all w fs)"

lemma observe_all_append:
  "observe_all v (fs @ gs) = Option.bind (observe_all v fs) (\<lambda>w. observe_all w gs)"
  by (induction fs arbitrary: v) (auto simp: bind_assoc split: bind_split)

definition one_segment :: "reducer_state \<Rightarrow> bool" where
  "one_segment s \<longleftrightarrow> rs_activeTextId s = None \<or> rs_activeReasoningId s = None"

text \<open>\<open>tracks v x\<close>: observing the frames emitted so far from \<open>v\<close> gives the view of the state.\<close>

definition tracks :: "stream_view \<Rightarrow> emission \<Rightarrow> bool" where
  "tracks v x \<longleftrightarrow> observe_all v (snd x) = Some (view (fst x)) \<and> one_segment (fst x)"

lemma tracks_start: "one_segment s \<Longrightarrow> tracks (view s) (s, [])"
  by (simp add: tracks_def)

named_theorems track_intros \<open>emission steps that keep the frames in step with the state\<close>

lemma view_put_tool [simp]: "view (put_tool i t s) = view s"
  by (simp add: view_def put_tool_def)

lemma view_sync [simp]: "view (syncToolSnapshot p s) = view s"
  by (simp add: view_def syncToolSnapshot_def upd_snapshot_def)

lemma one_segment_put_tool [simp]: "one_segment (put_tool i t s) = one_segment s"
  by (simp add: one_segment_def put_tool_def)

lemma one_segment_sync [simp]: "one_segment (syncToolSnapshot p s) = one_segment s"
  by (simp add: one_segment_def syncToolSnapshot_def upd_snapshot_def)

lemma tracks_same_view:
  "tracks v (s, fs) \<Longrightarrow> view s' = view s \<Longrightarrow> one_segment s' = one_segment s \<Longrightarrow> tracks v (s', fs)"
  by (simp add: tracks_def)

text \<open>An event the view ignores may be emitted at any point.\<close>

definition silent :: "frame_body \<Rightarrow> bool" where
  "silent b \<longleftrightarrow> (\<forall>v. (case b of
       Semantic (SemProtocol ev) \<Rightarrow> observe_event v ev
     | Semantic (SemUsage u) \<Rightarrow> Some (v\<lparr>sv_usage := u\<rparr>)
     | Telemetry _ \<Rightarrow> Some v
     | Diagnostic _ \<Rightarrow> Some v) = Some v)"

lemma tracks_emit_silent [track_intros]:
  "silent b \<Longrightarrow> tracks v x \<Longrightarrow> tracks v (emit e b x)"
  by (cases x) (auto simp: silent_def tracks_def observe_all_append view_def one_segment_def)

lemma silent_simps [simp]:
  "silent (Telemetry tel)" "silent (Diagnostic dg)"
  "silent (Semantic (SemProtocol (MessageStart m)))"
  "silent (Semantic (SemProtocol StepStart))"
  "silent (Semantic (SemProtocol (ToolInputStart i nm pe dyn obs)))"
  "silent (Semantic (SemProtocol (ToolInputContent i d)))"
  "silent (Semantic (SemProtocol (ToolInputReady i nm inp pe dyn ann)))"
  "silent (Semantic (SemProtocol (ToolInputRejected i nm r)))"
  "silent (Semantic (SemProtocol (ProviderToolStart i nm)))"
  "silent (Semantic (SemProtocol (ProviderToolResult i nm out err dyn pre)))"
  "silent (Semantic (SemProtocol (ProviderToolDenied i nm)))"
  "silent (Semantic (SemProtocol (ProviderToolCancelled i nm)))"
  "silent (Semantic (SemProtocol (Custom nm data)))"
  by (simp_all add: silent_def)

lemma sign_reasoning_None [simp]: "sign_reasoning i None None ps = ps"
proof -
  have "p = p\<lparr>rp_signature := rp_signature p, rp_redacted := rp_redacted p\<rparr>" for p :: reasoning_part
    by simp
  then show ?thesis by (simp add: sign_reasoning_def map_idI)
qed

lemma tracks_closeReasoning [track_intros]: "tracks v x \<Longrightarrow> tracks v (closeReasoning e x)"
  by (cases x)
    (auto simp: tracks_def observe_all_append view_def one_segment_def split: option.splits)

lemma tracks_closeText [track_intros]: "tracks v x \<Longrightarrow> tracks v (closeText e x)"
  by (cases x)
    (auto simp: tracks_def observe_all_append view_def one_segment_def split: option.splits)

lemma tracks_closeOpenContent [track_intros]: "tracks v x \<Longrightarrow> tracks v (closeOpenContent e x)"
  by (simp add: closeOpenContent_def track_intros)

lemma closeReasoning_closed [simp]: "rs_activeReasoningId (fst (closeReasoning e x)) = None"
  by (cases x) (auto split: option.splits)

lemma closeText_closed [simp]: "rs_activeTextId (fst (closeText e x)) = None"
  by (cases x) (auto split: option.splits)

lemma closeText_reasoning [simp]:
  "rs_activeReasoningId (fst (closeText e x)) = rs_activeReasoningId (fst x)"
  by (cases x) (auto split: option.splits)

lemma closeReasoning_text [simp]:
  "rs_activeTextId (fst (closeReasoning e x)) = rs_activeTextId (fst x)"
  by (cases x) (auto split: option.splits)

lemma closeOpenContent_closed [simp]:
  "rs_activeReasoningId (fst (closeOpenContent e x)) = None"
  "rs_activeTextId (fst (closeOpenContent e x)) = None"
  by (simp_all add: closeOpenContent_def)

text \<open>Opening a segment needs both closed.\<close>

lemma tracks_openText [track_intros]:
  "tracks v x \<Longrightarrow> rs_activeTextId (fst x) = None \<Longrightarrow> rs_activeReasoningId (fst x) = None
     \<Longrightarrow> tracks v (openText e x)"
  by (cases x)
    (auto simp: openText_def Let_def tracks_def observe_all_append view_def one_segment_def)

lemma tracks_openReasoning:
  "tracks v (s, fs) \<Longrightarrow> rs_activeTextId s = None \<Longrightarrow> rs_activeReasoningId s = None
     \<Longrightarrow> tracks v (emit_sem e (ReasoningStart i) (s\<lparr>rs_activeReasoningId := Some i\<rparr>, fs))"
  by (auto simp: tracks_def observe_all_append view_def one_segment_def)

lemma openText_fields:
  "rs_activeTextId (fst (openText e x)) = Some (text_id (rs_nextTextIndex (fst x)))"
  "rs_activeReasoningId (fst (openText e x)) = rs_activeReasoningId (fst x)"
  by (cases x; simp add: openText_def Let_def)+

lemma emit_fields [simp]:
  "rs_activeTextId (fst (emit e b x)) = rs_activeTextId (fst x)"
  "rs_activeReasoningId (fst (emit e b x)) = rs_activeReasoningId (fst x)"
  "rs_tools (fst (emit e b x)) = rs_tools (fst x)"
  "rs_snapshot (fst (emit e b x)) = rs_snapshot (fst x)"
  by (cases x; simp)+

subsection \<open>Handlers\<close>

lemma tracks_sync_put [track_intros]:
  "tracks v (s, fs) \<Longrightarrow> tracks v (syncToolSnapshot p (put_tool i t s), fs)"
  by (simp add: tracks_def)

lemma tracks_put [track_intros]: "tracks v (s, fs) \<Longrightarrow> tracks v (put_tool i t s, fs)"
  by (simp add: tracks_def)

lemma tracks_sync [track_intros]: "tracks v (s, fs) \<Longrightarrow> tracks v (syncToolSnapshot p s, fs)"
  by (simp add: tracks_def)

lemma tracks_failProtocol [track_intros]: "tracks v x \<Longrightarrow> tracks v (fst (failProtocol e x))"
  by (cases x)
    (auto simp: Let_def tracks_def observe_all_append view_def one_segment_def upd_snapshot_def)

lemma tracks_prog: "tracks v (s, fs) \<Longrightarrow> tracks v (markProgress s, fs)"
  by (simp add: tracks_def view_def markProgress_def upd_snapshot_def one_segment_def)

lemma tracks_prog_if: "tracks v x \<Longrightarrow> tracks v (if b then (markProgress (fst x), snd x) else x)"
  by (simp add: tracks_prog)

lemma tracks_on_tool_input_start:
  "tracks v x \<Longrightarrow> tracks v (fst (on_tool_input_start e i nm pe dyn obs prog x))"
  unfolding on_tool_input_start_def Let_def case_prod_beta fst_conv
  by (intro track_intros silent_simps) (simp add: track_intros)

lemma tracks_on_tool_input_content:
  "tracks v x \<Longrightarrow> tracks v (fst (on_tool_input_content e i delta x))"
  unfolding on_tool_input_content_def Let_def case_prod_beta
  by (auto split: option.splits intro!: track_intros silent_simps simp del: emit.simps failProtocol.simps)

lemma tracks_on_tool_input_ready:
  "tracks v x \<Longrightarrow> tracks v (fst (on_tool_input_ready c e i nm inp pe dyn ann x))"
  unfolding on_tool_input_ready_def Let_def case_prod_beta fst_conv
  by (intro track_intros silent_simps)
    (auto split: option.splits intro!: track_intros silent_simps simp del: emit.simps)

lemma tracks_on_tool_input_rejected:
  "tracks v x \<Longrightarrow> tracks v (fst (on_tool_input_rejected e i nm r prog x))"
  unfolding on_tool_input_rejected_def Let_def case_prod_beta fst_conv
  by (intro track_intros silent_simps) simp

lemma tracks_on_provider_tool_start:
  "tracks v x \<Longrightarrow> tracks v (fst (on_provider_tool_start e i nm prog x))"
  unfolding on_provider_tool_start_def Let_def case_prod_beta
  by (auto split: option.splits intro!: track_intros silent_simps simp del: emit.simps failProtocol.simps)

lemma tracks_on_provider_tool_end:
  "tracks v x \<Longrightarrow> silent (Semantic (SemProtocol ev)) \<Longrightarrow> tracks v (fst (on_provider_tool_end e i ev x))"
  unfolding on_provider_tool_end_def Let_def case_prod_beta
  by (auto split: option.splits protocol_event.splits bool.splits
      intro!: track_intros simp del: emit.simps failProtocol.simps)

lemma tracks_commit_entry:
  "tracks v x \<Longrightarrow> tracks v (commit_entry c e it x)"
  by (cases x; cases it)
    (auto simp del: emit.simps split: parse_result.splits intro!: track_intros silent_simps)

lemma tracks_commit_fold: "tracks v x \<Longrightarrow> tracks v (fold (commit_entry c e) its x)"
  by (induction its arbitrary: x) (simp_all add: tracks_commit_entry del: commit_entry.simps)

lemma tracks_commitPending [track_intros]:
  "tracks v x \<Longrightarrow> tracks v (commitPendingLocalInputs c e x)"
  using tracks_commit_fold [of v x c e "rs_tools (fst x)"]
  by (cases x) (auto simp: Let_def case_prod_beta intro!: track_intros)

lemma closed_commit_entry [simp]:
  "rs_activeTextId (fst (commit_entry c e it x)) = rs_activeTextId (fst x)"
  "rs_activeReasoningId (fst (commit_entry c e it x)) = rs_activeReasoningId (fst x)"
  by (cases x; cases it; auto simp: put_tool_def split: parse_result.splits)+

lemma closed_commit_fold [simp]:
  "rs_activeTextId (fst (fold (commit_entry c e) its x)) = rs_activeTextId (fst x)"
  "rs_activeReasoningId (fst (fold (commit_entry c e) its x)) = rs_activeReasoningId (fst x)"
  by (induction its arbitrary: x) simp_all

lemma closed_commitPending [simp]:
  "rs_activeTextId (fst (commitPendingLocalInputs c e x)) = rs_activeTextId (fst x)"
  "rs_activeReasoningId (fst (commitPendingLocalInputs c e x)) = rs_activeReasoningId (fst x)"
  by (cases x; simp add: Let_def case_prod_beta syncToolSnapshot_def upd_snapshot_def)+

lemma tracks_finish_frame:
  "tracks v (s, fs) \<Longrightarrow> rs_activeTextId s = None \<Longrightarrow> rs_activeReasoningId s = None \<Longrightarrow>
   sn_finishReason (rs_snapshot s') = fr \<Longrightarrow>
   view s' = view (upd_snapshot (\<lambda>n. n\<lparr>sn_finishReason := fr\<rparr>) (fst (emit_sem e (StepFinish fr meta) (s, fs)))) \<Longrightarrow>
   tracks v (s', snd (emit_sem e (StepFinish fr meta) (s, fs)))"
  by (auto simp: tracks_def observe_all_append view_def one_segment_def upd_snapshot_def)

lemma tracks_on_step_finish:
  assumes t: "tracks v x"
  shows "tracks v (fst (on_step_finish c e rec fr meta x))"
proof -
  obtain s fs where x2: "(if fr = Some FToolCalls then commitPendingLocalInputs c e (closeOpenContent e x)
      else closeOpenContent e x) = (s, fs)" (is "?x2 = _") by (cases ?x2)
  have "tracks v (s, fs)" using t by (simp flip: x2 add: track_intros)
  moreover have "rs_activeTextId (fst ?x2) = None" "rs_activeReasoningId (fst ?x2) = None"
    by simp_all
  then have "rs_activeTextId s = None" "rs_activeReasoningId s = None" by (simp_all add: x2)
  ultimately show ?thesis
    unfolding on_step_finish_def Let_def x2 case_prod_beta fst_conv
    by (intro tracks_finish_frame) (simp_all add: view_def upd_snapshot_def)
qed

lemma tracks_on_reasoning_start: "tracks v x \<Longrightarrow> tracks v (fst (on_reasoning_start e i x))"
  unfolding on_reasoning_start_def Let_def case_prod_beta fst_conv
  by (intro tracks_openReasoning) (simp_all add: track_intros)

lemma tracks_reasoning_frame:
  "tracks v (s, fs) \<Longrightarrow> rs_activeReasoningId s = Some i \<Longrightarrow> rs_activeTextId s = None \<Longrightarrow>
   tracks v (emit_sem e (ReasoningContent i delta)
     (upd_snapshot (\<lambda>n. n\<lparr>sn_reasoning := append_reasoning i delta (sn_reasoning n)\<rparr>) s, fs))"
  by (auto simp: tracks_def observe_all_append view_def one_segment_def upd_snapshot_def)

lemma tracks_on_reasoning_content: "tracks v x \<Longrightarrow> tracks v (fst (on_reasoning_content e i delta x))"
proof -
  assume t: "tracks v x"
  define y where "y = closeText e x"
  define z where "z = (if rs_activeReasoningId (fst y) \<noteq> Some i
      then emit e (Diagnostic (DiagRepair ''implicit_reasoning_start''))
             (emit_sem e (ReasoningStart i)
               ((fst (closeReasoning e y))\<lparr>rs_activeReasoningId := Some i\<rparr>, snd (closeReasoning e y)))
      else y)"
  have y: "tracks v y" "rs_activeTextId (fst y) = None" using t by (simp_all add: y_def track_intros)
  have "tracks v z"
    unfolding z_def using y
      tracks_openReasoning [of v "fst (closeReasoning e y)" "snd (closeReasoning e y)" e i]
    by (simp add: track_intros del: emit.simps closeReasoning.simps)
  moreover have "rs_activeReasoningId (fst z) = Some i" "rs_activeTextId (fst z) = None"
    using y by (simp_all add: z_def)
  ultimately have w: "tracks v (emit_sem e (ReasoningContent i delta)
     (upd_snapshot (\<lambda>n. n\<lparr>sn_reasoning := append_reasoning i delta (sn_reasoning n)\<rparr>) (fst z), snd z))"
    by (intro tracks_reasoning_frame) simp_all
  have eq: "fst (on_reasoning_content e i delta x) =
     (let r = emit_sem e (ReasoningContent i delta)
        (upd_snapshot (\<lambda>n. n\<lparr>sn_reasoning := append_reasoning i delta (sn_reasoning n)\<rparr>) (fst z), snd z)
      in if delta \<noteq> [] then (markProgress (fst r), snd r) else r)"
    unfolding on_reasoning_content_def z_def y_def
    by (simp add: Let_def case_prod_beta del: emit.simps closeText.simps closeReasoning.simps)
  show ?thesis unfolding eq Let_def by (rule tracks_prog_if [OF w])
qed

lemma tracks_on_reasoning_end: "tracks v x \<Longrightarrow> tracks v (fst (on_reasoning_end e i sig red x))"
  by (cases x)
    (auto simp: on_reasoning_end_def Let_def tracks_def observe_all_append view_def
      one_segment_def upd_snapshot_def)

lemma tracks_text_frame:
  "tracks v (s, fs) \<Longrightarrow> rs_activeReasoningId s = None \<Longrightarrow> rs_activeTextId s \<noteq> None \<Longrightarrow>
   tracks v (emit_sem e (TextContent (rs_activeTextId s) delta)
     (upd_snapshot (\<lambda>n. n\<lparr>sn_accumulatedText := sn_accumulatedText n @ delta,
        sn_hasStreamOutput := (sn_hasStreamOutput n \<or> delta \<noteq> [])\<rparr>) s, fs))"
  by (auto simp: tracks_def observe_all_append view_def one_segment_def upd_snapshot_def)

lemma tracks_on_text_content: "tracks v x \<Longrightarrow> tracks v (fst (on_text_content e delta x))"
proof -
  assume t: "tracks v x"
  define y where "y = closeReasoning e x"
  define z where "z = (if rs_activeTextId (fst y) = None
      then emit e (Diagnostic (DiagRepair ''implicit_text_start'')) (openText e y) else y)"
  have y: "tracks v y" "rs_activeReasoningId (fst y) = None"
    using t by (simp_all add: y_def track_intros)
  have "tracks v z"
    unfolding z_def using y by (auto intro!: track_intros simp del: emit.simps)
  moreover have "rs_activeReasoningId (fst z) = None" "rs_activeTextId (fst z) \<noteq> None"
    using y by (simp_all add: z_def openText_fields)
  ultimately have w: "tracks v (emit_sem e (TextContent (rs_activeTextId (fst z)) delta)
     (upd_snapshot (\<lambda>n. n\<lparr>sn_accumulatedText := sn_accumulatedText n @ delta,
        sn_hasStreamOutput := (sn_hasStreamOutput n \<or> delta \<noteq> [])\<rparr>) (fst z), snd z))"
    by (intro tracks_text_frame) simp_all
  have eq: "fst (on_text_content e delta x) =
     (let r = emit_sem e (TextContent (rs_activeTextId (fst z)) delta)
        (upd_snapshot (\<lambda>n. n\<lparr>sn_accumulatedText := sn_accumulatedText n @ delta,
        sn_hasStreamOutput := (sn_hasStreamOutput n \<or> delta \<noteq> [])\<rparr>) (fst z), snd z)
      in if delta \<noteq> [] then (markProgress (fst r), snd r) else r)"
    unfolding on_text_content_def z_def y_def
    by (simp add: Let_def case_prod_beta upd_snapshot_def del: emit.simps closeText.simps closeReasoning.simps)
  show ?thesis unfolding eq Let_def by (rule tracks_prog_if [OF w])
qed

lemma tracks_on_text_start: "tracks v x \<Longrightarrow> tracks v (fst (on_text_start e x))"
  by (simp add: on_text_start_def track_intros)

lemma tracks_on_custom:
  "tracks v x \<Longrightarrow> on_custom e nm data x = Inr r \<Longrightarrow> tracks v (fst r)"
  by (cases x)
    (auto simp: on_custom_def Let_def simp del: emit.simps
      split: if_splits option.splits jsval.splits intro!: track_intros silent_simps)

lemmas tracks_handlers =
  tracks_on_tool_input_start tracks_on_tool_input_content tracks_on_tool_input_ready
  tracks_on_tool_input_rejected tracks_on_provider_tool_start tracks_on_provider_tool_end
  tracks_on_step_finish tracks_on_reasoning_start tracks_on_reasoning_content
  tracks_on_reasoning_end tracks_on_text_start tracks_on_text_content tracks_on_custom

lemma tracks_reduceProtocolEvent:
  "tracks v x \<Longrightarrow> reduceProtocolEvent c ev e rec x = Inr r \<Longrightarrow> tracks v (fst r)"
  by (cases ev)
    (auto simp del: emit.simps closeText.simps
      intro: tracks_handlers track_intros tracks_emit_silent [OF silent_simps(3)]
        tracks_emit_silent [OF silent_simps(4)])

lemma view_finish_reduction:
  "view (rd_state (finish_reduction r)) = view (fst (fst r))"
  "one_segment (rd_state (finish_reduction r)) = one_segment (fst (fst r))"
  "rd_frames (finish_reduction r) = snd (fst r)"
  by (auto simp: finish_reduction_def view_def one_segment_def upd_snapshot_def split: prod.splits)

lemma reduce_tracks:
  assumes "one_segment s" and r: "reduceStreamSignal c s sig e rec = Inr r"
  shows "observe_all (view s) (rd_frames r) = Some (view (rd_state r)) \<and> one_segment (rd_state r)"
proof (cases "rs_terminal s")
  case True
  with r assms(1) show ?thesis by (auto simp: reduceStreamSignal_def view_def one_segment_def)
next
  case False
  show ?thesis
  proof (cases sig)
    case (SigProtocol ev)
    with False r obtain q where q: "reduceProtocolEvent c ev e rec (s, []) = Inr q"
      and rq: "r = finish_reduction q"
      by (auto simp: reduceStreamSignal_def split: sum.splits)
    from tracks_reduceProtocolEvent [OF tracks_start [OF assms(1)] q] show ?thesis
      by (simp add: rq view_finish_reduction tracks_def)
  qed (use False r assms(1) in \<open>auto simp: reduceStreamSignal_def view_def one_segment_def upd_snapshot_def\<close>)
qed

end
