(* ===== verification/StreamInvariants.thy ===== *)
theory StreamInvariants
  imports StreamProjection
begin

text \<open>
  The invariant of the reducer state, kept by every signal: the tool map is keyed by tool id and
  mirrored in the snapshot, each tool snapshot is consistent with its phase, text identities come
  from the counter, and the phase, the terminal flag, the terminal error and the finish reason
  agree. \<open>live\<close> is the state of an attempt that still reduces, \<open>settled\<close> one that is over.
\<close>

definition tool_ok :: "tool_snapshot \<Rightarrow> bool" where
  "tool_ok t \<longleftrightarrow>
     (tl_rejectionReason t \<noteq> None \<longleftrightarrow> tl_phase t = InputRejected) \<and>
     (tl_phase t \<in> {Running, Succeeded, ToolFailed, Denied, ToolCancelled}
        \<longrightarrow> tl_providerExecuted t = Some True) \<and>
     (tl_phase t = InputReady \<longrightarrow> tl_input t \<noteq> None)"

definition tools_ok :: "(string \<times> tool_snapshot) list \<Rightarrow> bool" where
  "tools_ok m \<longleftrightarrow> jm_ok m \<and> (\<forall>(i, t) \<in> set m. tl_id t = i \<and> tool_ok t)"

definition fresh_text :: "reducer_state \<Rightarrow> bool" where
  "fresh_text s \<longleftrightarrow> (\<forall>i. rs_activeTextId s = Some i \<longrightarrow> (\<exists>n < rs_nextTextIndex s. i = text_id n))"

definition core :: "reducer_state \<Rightarrow> bool" where
  "core s \<longleftrightarrow> tools_ok (rs_tools s) \<and> fresh_text s"

definition synced :: "reducer_state \<Rightarrow> bool" where
  "synced s \<longleftrightarrow> sn_tools (rs_snapshot s) = jm_values (rs_tools s)"

definition running :: "reducer_state \<Rightarrow> bool" where
  "running s \<longleftrightarrow> core s \<and> \<not> rs_terminal s \<and> rs_terminalError s = None \<and>
     sn_finishReason (rs_snapshot s) = None \<and> \<not> terminal_phase (sn_phase (rs_snapshot s))"

definition live :: "reducer_state \<Rightarrow> bool" where
  "live s \<longleftrightarrow> running s \<and> synced s"

definition settled :: "reducer_state \<Rightarrow> bool" where
  "settled s \<longleftrightarrow> core s \<and> synced s \<and> rs_terminal s \<and>
     sn_phase (rs_snapshot s) \<in> {Completed, Failed, ToolHandoff} \<and>
     (rs_terminalError s \<noteq> None \<longleftrightarrow> sn_phase (rs_snapshot s) = Failed) \<and>
     (sn_phase (rs_snapshot s) = ToolHandoff \<longrightarrow>
        sn_finishReason (rs_snapshot s) = Some FToolCalls \<and>
        (\<forall>t \<in> set (jm_values (rs_tools s)). is_local t \<longrightarrow> \<not> input_pending t)) \<and>
     (sn_phase (rs_snapshot s) = Completed \<longrightarrow> sn_finishReason (rs_snapshot s) \<noteq> Some FToolCalls)"

definition reducer_inv :: "reducer_state \<Rightarrow> bool" where
  "reducer_inv s \<longleftrightarrow> one_segment s \<and> (live s \<or> settled s)"

lemma tools_ok_set:
  "tools_ok m \<Longrightarrow> tl_id t = i \<Longrightarrow> tool_ok t \<Longrightarrow> tools_ok (jm_set i t m)"
  by (auto simp: tools_ok_def dest!: jm_set_in_set)

lemma tools_ok_get: "tools_ok m \<Longrightarrow> jm_get m i = Some t \<Longrightarrow> tl_id t = i \<and> tool_ok t"
  by (auto simp: tools_ok_def dest!: map_of_SomeD)

lemma initial_live: "live createInitialReducerState"
  by (simp add: live_def running_def core_def synced_def createInitialReducerState_def
      tools_ok_def fresh_text_def terminal_phase_def)

lemma running_emit [inv_intros]: "running (fst x) \<Longrightarrow> running (fst (emit e b x))"
  by (cases x) (simp add: running_def core_def fresh_text_def)

lemma synced_emit [inv_intros]: "synced (fst x) \<Longrightarrow> synced (fst (emit e b x))"
  by (cases x) (simp add: synced_def)

lemma live_emit [inv_intros]: "live (fst x) \<Longrightarrow> live (fst (emit e b x))"
  by (simp add: live_def inv_intros)

lemma settled_emit [inv_intros]: "settled (fst x) \<Longrightarrow> settled (fst (emit e b x))"
  by (cases x) (simp add: settled_def core_def synced_def fresh_text_def)

lemma live_closeReasoning [inv_intros]: "live (fst x) \<Longrightarrow> live (fst (closeReasoning e x))"
  by (cases x)
    (auto simp: live_def running_def core_def synced_def fresh_text_def split: option.splits)

lemma live_closeText [inv_intros]: "live (fst x) \<Longrightarrow> live (fst (closeText e x))"
  by (cases x)
    (auto simp: live_def running_def core_def synced_def fresh_text_def split: option.splits)

lemma live_closeOpenContent [inv_intros]: "live (fst x) \<Longrightarrow> live (fst (closeOpenContent e x))"
  by (simp add: closeOpenContent_def inv_intros)

lemma live_openText [inv_intros]: "live (fst x) \<Longrightarrow> live (fst (openText e x))"
  by (cases x)
    (auto simp: openText_def Let_def live_def running_def core_def synced_def fresh_text_def)

lemma live_active_reasoning [inv_intros]: "live s \<Longrightarrow> live (s\<lparr>rs_activeReasoningId := r\<rparr>)"
  by (simp add: live_def running_def core_def synced_def fresh_text_def)

lemma live_upd_content [inv_intros]:
  "live s \<Longrightarrow> (\<And>n. sn_phase (f n) = sn_phase n \<and> sn_tools (f n) = sn_tools n \<and>
     sn_finishReason (f n) = sn_finishReason n) \<Longrightarrow> live (upd_snapshot f s)"
  by (simp add: live_def running_def core_def synced_def fresh_text_def upd_snapshot_def)

lemma live_markProgress [inv_intros]: "live s \<Longrightarrow> live (markProgress s)"
  by (simp add: live_def running_def core_def synced_def fresh_text_def markProgress_def
      upd_snapshot_def terminal_phase_def)

lemma running_put [inv_intros]:
  "running s \<Longrightarrow> tl_id t = i \<Longrightarrow> tool_ok t \<Longrightarrow> running (put_tool i t s)"
  by (simp add: running_def core_def fresh_text_def put_tool_def tools_ok_set)

lemma live_sync [inv_intros]:
  "running s \<Longrightarrow> \<not> terminal_phase p \<Longrightarrow> live (syncToolSnapshot p s)"
  by (simp add: live_def running_def core_def synced_def fresh_text_def syncToolSnapshot_def
      upd_snapshot_def)

lemma live_running [simp]: "live s \<Longrightarrow> running s"
  by (simp add: live_def)

lemma not_terminal_phase [simp]:
  "\<not> terminal_phase AwaitingToolInput" "\<not> terminal_phase Streaming"
  by (simp_all add: terminal_phase_def)

lemma live_put_sync:
  "live s \<Longrightarrow> tl_id t = i \<Longrightarrow> tool_ok t \<Longrightarrow> \<not> terminal_phase p
     \<Longrightarrow> live (syncToolSnapshot p (put_tool i t s))"
  by (intro inv_intros) simp_all

lemma settled_failProtocol [inv_intros]: "live (fst x) \<Longrightarrow> settled (fst (fst (failProtocol e x)))"
  by (cases x)
    (auto simp: Let_def settled_def live_def running_def core_def synced_def fresh_text_def
      upd_snapshot_def terminal_phase_def)

lemma live_tool: "live s \<Longrightarrow> jm_get (rs_tools s) i = Some t \<Longrightarrow> tl_id t = i \<and> tool_ok t"
  using tools_ok_get by (auto simp: live_def running_def core_def)

subsection \<open>Tool handlers\<close>

abbreviation next_ok :: "emission \<Rightarrow> bool" where
  "next_ok x \<equiv> live (fst x) \<or> settled (fst x)"

lemma inv_tool_input_start:
  "live (fst x) \<Longrightarrow> live (fst (fst (on_tool_input_start e i nm pe dyn obs prog x)))"
  unfolding on_tool_input_start_def Let_def case_prod_beta fst_conv
  by (rule live_emit) (simp add: live_put_sync inv_intros tool_ok_def)

lemma inv_tool_input_content:
  assumes l: "live (fst x)"
  shows "next_ok (fst (on_tool_input_content e i delta x))"
proof (cases "\<exists>t. jm_get (rs_tools (fst x)) i = Some t \<and> input_pending t")
  case False
  then have "on_tool_input_content e i delta x = failProtocol e x"
    by (cases x) (auto simp: on_tool_input_content_def Let_def split: option.splits)
  with l show ?thesis by (simp add: settled_failProtocol del: failProtocol.simps)
next
  case True
  then obtain t where t: "jm_get (rs_tools (fst x)) i = Some t" "input_pending t" by blast
  let ?t1 = "t\<lparr>tl_phase := InputStreaming, tl_inputText := mergeToolInputDelta (tl_inputText t) delta, tl_inputDeltas := tl_inputDeltas t @ [delta]\<rparr>"
  have "tl_id ?t1 = i \<and> tool_ok ?t1"
    using live_tool [OF l t(1)] t(2) by (auto simp: tool_ok_def)
  then have "live (fst (emit_sem e (ToolInputContent i delta) (syncToolSnapshot AwaitingToolInput (put_tool i ?t1 (fst x)), snd x)))"
    by (intro live_emit) (simp add: live_put_sync l)
  moreover have "fst (on_tool_input_content e i delta x) = emit_sem e (ToolInputContent i delta) (syncToolSnapshot AwaitingToolInput (put_tool i ?t1 (fst x)), snd x)"
    using t by (cases x) (simp add: on_tool_input_content_def Let_def del: emit.simps)
  ultimately show ?thesis by simp
qed

lemma inv_tool_input_ready:
  "live (fst x) \<Longrightarrow> live (fst (fst (on_tool_input_ready c e i nm inp pe dyn ann x)))"
  unfolding on_tool_input_ready_def Let_def case_prod_beta fst_conv
  by (rule live_emit)
    (auto intro!: live_put_sync live_emit simp: tool_ok_def simp del: emit.simps split: option.splits)

lemma inv_tool_input_rejected:
  "live (fst x) \<Longrightarrow> live (fst (fst (on_tool_input_rejected e i nm r prog x)))"
  unfolding on_tool_input_rejected_def Let_def case_prod_beta fst_conv
  by (rule live_emit) (simp add: live_put_sync tool_ok_def)

lemma inv_provider_tool_start:
  assumes l: "live (fst x)"
  shows "next_ok (fst (on_provider_tool_start e i nm prog x))"
proof (cases "\<exists>t. jm_get (rs_tools (fst x)) i = Some t \<and> tl_providerExecuted t = Some True \<and> tl_phase t = InputReady")
  case False
  then have "on_provider_tool_start e i nm prog x = failProtocol e x"
    by (cases x) (auto simp: on_provider_tool_start_def Let_def split: option.splits)
  with l show ?thesis by (simp add: settled_failProtocol del: failProtocol.simps)
next
  case True
  then obtain t where t: "jm_get (rs_tools (fst x)) i = Some t" "tl_providerExecuted t = Some True \<and> tl_phase t = InputReady" by blast
  let ?t1 = "t\<lparr>tl_phase := Running\<rparr>"
  have "tl_id ?t1 = i \<and> tool_ok ?t1"
    using live_tool [OF l t(1)] t(2) by (auto simp: tool_ok_def)
  then have "live (fst (emit_sem e (ProviderToolStart i nm) (syncToolSnapshot Streaming (put_tool i ?t1 (fst x)), snd x)))"
    by (intro live_emit) (simp add: live_put_sync l)
  moreover have "fst (on_provider_tool_start e i nm prog x) = emit_sem e (ProviderToolStart i nm) (syncToolSnapshot Streaming (put_tool i ?t1 (fst x)), snd x)"
    using t by (cases x) (simp add: on_provider_tool_start_def Let_def del: emit.simps)
  ultimately show ?thesis by simp
qed

lemma settle_tool_ok:
  "tool_ok t \<Longrightarrow> tl_phase t = Running \<Longrightarrow> tl_id (settle_tool ev t) = tl_id t \<and> tool_ok (settle_tool ev t)"
  by (cases "(ev, t)" rule: settle_tool.cases) (auto simp: tool_ok_def Let_def split: option.splits)

lemma inv_provider_tool_end:
  assumes l: "live (fst x)"
  shows "next_ok (fst (on_provider_tool_end e i ev x))"
proof (cases "\<exists>t. jm_get (rs_tools (fst x)) i = Some t \<and> tl_providerExecuted t = Some True \<and> tl_phase t = Running")
  case False
  then have "on_provider_tool_end e i ev x = failProtocol e x"
    by (cases x) (auto simp: on_provider_tool_end_def split: option.splits)
  with l show ?thesis by (simp add: settled_failProtocol del: failProtocol.simps)
next
  case True
  then obtain t where t: "jm_get (rs_tools (fst x)) i = Some t" "tl_providerExecuted t = Some True"
    "tl_phase t = Running" by blast
  have "tl_id (settle_tool ev t) = i \<and> tool_ok (settle_tool ev t)"
    using live_tool [OF l t(1)] settle_tool_ok [of t ev] t(3) by auto
  then have "live (fst (emit_sem e ev (syncToolSnapshot Streaming (put_tool i (settle_tool ev t) (fst x)), snd x)))"
    by (intro live_emit) (simp add: live_put_sync l)
  moreover have "live (fst (emit_sem e ev x))" using l by (rule live_emit)
  moreover have "fst (on_provider_tool_end e i ev x) = emit_sem e ev x \<or>
      fst (on_provider_tool_end e i ev x) = emit_sem e ev (syncToolSnapshot Streaming (put_tool i (settle_tool ev t) (fst x)), snd x)"
    using t by (cases x) (simp add: on_provider_tool_end_def Let_def del: emit.simps settle_tool.simps
        split: protocol_event.split option.split bool.split)
  ultimately show ?thesis by fastforce
qed

subsection \<open>Committing pending inputs\<close>

text \<open>One entry of the loop leaves the other entries alone and resolves its own.\<close>

lemma commit_entry_tools:
  "rs_tools (fst (commit_entry c e (i, t) x)) =
     (if is_local t \<and> input_pending t
      then jm_set i
        (if isBareEmptyObjectPlaceholder (tl_inputText t)
         then t\<lparr>tl_phase := InputRejected, tl_rejectionReason := Some RInvalid\<rparr>
         else case parseCanonicalToolInput c (JStr (tl_inputText t)) of
             POk v \<Rightarrow> t\<lparr>tl_phase := InputReady, tl_input := Some v\<rparr>
           | PRejected r \<Rightarrow> t\<lparr>tl_phase := InputRejected, tl_rejectionReason := Some r\<rparr>)
        (rs_tools (fst x))
      else rs_tools (fst x))"
  by (cases x) (auto simp: put_tool_def split: parse_result.splits)

definition resolve_tool :: "json_codec \<Rightarrow> tool_snapshot \<Rightarrow> tool_snapshot" where
  "resolve_tool c t =
     (if is_local t \<and> input_pending t
      then (if isBareEmptyObjectPlaceholder (tl_inputText t)
            then t\<lparr>tl_phase := InputRejected, tl_rejectionReason := Some RInvalid\<rparr>
            else case parseCanonicalToolInput c (JStr (tl_inputText t)) of
                POk v \<Rightarrow> t\<lparr>tl_phase := InputReady, tl_input := Some v\<rparr>
              | PRejected r \<Rightarrow> t\<lparr>tl_phase := InputRejected, tl_rejectionReason := Some r\<rparr>)
      else t)"

lemma resolve_tool_ok:
  "tool_ok t \<Longrightarrow> tl_id (resolve_tool c t) = tl_id t \<and> tool_ok (resolve_tool c t)"
  by (auto simp: resolve_tool_def tool_ok_def split: parse_result.splits)

lemma resolve_tool_not_pending: "is_local t \<Longrightarrow> \<not> input_pending (resolve_tool c t)"
  by (auto simp: resolve_tool_def split: parse_result.splits)

lemma resolve_tool_local [simp]: "is_local (resolve_tool c t) = is_local t"
  by (auto simp: resolve_tool_def split: parse_result.splits)

lemma jm_set_middle:
  "jm_ok (xs @ (i, t) # ys) \<Longrightarrow> jm_set i u (xs @ (i, t) # ys) = xs @ (i, u) # ys"
  by (induction xs) (auto simp: jm_ok_def)

lemma jm_set_self: "jm_ok m \<Longrightarrow> (i, t) \<in> set m \<Longrightarrow> jm_set i t m = m"
  by (induction m) (auto simp: jm_ok_def image_iff)

lemma commit_fold_tools:
  "rs_tools (fst x) = xs @ ys \<Longrightarrow> jm_ok (xs @ ys) \<Longrightarrow>
   rs_tools (fst (fold (commit_entry c e) ys x)) = xs @ map (\<lambda>(i, t). (i, resolve_tool c t)) ys"
proof (induction ys arbitrary: xs x)
  case (Cons it ys)
  obtain i t where it: "it = (i, t)" by (cases it)
  have "rs_tools (fst (commit_entry c e it x)) = (xs @ [(i, resolve_tool c t)]) @ ys"
    using Cons.prems
    by (simp add: it commit_entry_tools resolve_tool_def jm_set_middle del: commit_entry.simps)
  moreover have "jm_ok ((xs @ [(i, resolve_tool c t)]) @ ys)"
    using Cons.prems by (simp add: jm_ok_def it)
  ultimately show ?case
    using Cons.IH [of "commit_entry c e it x" "xs @ [(i, resolve_tool c t)]"]
    by (simp add: it del: commit_entry.simps)
qed simp

lemma commit_tools:
  "jm_ok (rs_tools (fst x)) \<Longrightarrow>
   rs_tools (fst (commitPendingLocalInputs c e x)) =
     map (\<lambda>(i, t). (i, resolve_tool c t)) (rs_tools (fst x))"
  using commit_fold_tools [of x "[]" "rs_tools (fst x)" c e]
  by (cases x) (simp add: Let_def case_prod_beta syncToolSnapshot_def upd_snapshot_def)

lemma tools_ok_resolve:
  "tools_ok m \<Longrightarrow> tools_ok (map (\<lambda>(i, t). (i, resolve_tool c t)) m)"
  by (auto simp: tools_ok_def jm_ok_def resolve_tool_ok comp_def case_prod_beta)

lemma running_commit_entry:
  "running (fst x) \<Longrightarrow> tl_id t = i \<Longrightarrow> tool_ok t \<Longrightarrow> running (fst (commit_entry c e (i, t) x))"
  by (cases x)
    (auto simp del: emit.simps split: parse_result.splits simp: tool_ok_def intro!: running_emit running_put)

lemma running_commit_fold:
  "running (fst x) \<Longrightarrow> (\<forall>(i, t) \<in> set its. tl_id t = i \<and> tool_ok t) \<Longrightarrow>
   running (fst (fold (commit_entry c e) its x))"
proof (induction its arbitrary: x)
  case (Cons it its)
  obtain i t where it: "it = (i, t)" by (cases it)
  with Cons.prems have "running (fst (commit_entry c e it x))"
    by (simp add: running_commit_entry del: commit_entry.simps)
  with Cons.IH Cons.prems(2) show ?case by simp
qed simp

lemma live_commitPending [inv_intros]:
  assumes "live (fst x)"
  shows "live (fst (commitPendingLocalInputs c e x))"
proof -
  obtain s fs where x: "x = (s, fs)" by (cases x)
  have "running (fst (fold (commit_entry c e) (rs_tools s) (s, fs)))"
    using assms by (intro running_commit_fold) (auto simp: x live_def running_def core_def tools_ok_def)
  then show ?thesis
    by (auto simp: x Let_def case_prod_beta running_def intro!: live_sync)
qed

lemma commit_no_pending:
  assumes "live (fst x)" and "t \<in> set (jm_values (rs_tools (fst (commitPendingLocalInputs c e x))))"
    and "is_local t"
  shows "\<not> input_pending t"
proof -
  have "jm_ok (rs_tools (fst x))"
    using assms(1) by (simp add: live_def running_def core_def tools_ok_def)
  with assms(2) obtain u where "t = resolve_tool c u"
    by (auto simp: commit_tools simp del: commitPendingLocalInputs.simps)
  with assms(3) resolve_tool_not_pending [of u c] show ?thesis by simp
qed

subsection \<open>The step that ends the attempt\<close>

lemma settled_step_finish:
  assumes l: "live (fst x)"
  shows "settled (fst (fst (on_step_finish c e rec fr meta x)))"
proof -
  define y where "y = emit_sem e (StepFinish fr meta)
    (if fr = Some FToolCalls then commitPendingLocalInputs c e (closeOpenContent e x) else closeOpenContent e x)"
  have y: "live (fst y)"
    using l unfolding y_def by (intro live_emit) (simp add: inv_intros del: commitPendingLocalInputs.simps)
  have p: "\<not> input_pending t" if "fr = Some FToolCalls" "t \<in> set (jm_values (rs_tools (fst y)))" "is_local t" for t
    using that commit_no_pending [of "closeOpenContent e x" t c e] l
    by (simp add: y_def inv_intros del: commitPendingLocalInputs.simps emit.simps)
  obtain s' fs' where sy: "y = (s', fs')" by (cases y)
  have z: "core s'" "synced s'" "rs_terminalError s' = None"
    using y by (simp_all add: sy live_def running_def)
  show ?thesis
    unfolding on_step_finish_def Let_def y_def [symmetric] sy
    using z p
    by (simp add: sy settled_def core_def synced_def fresh_text_def upd_snapshot_def)
qed

subsection \<open>Text and reasoning handlers\<close>

lemma live_sem_content:
  "live s \<Longrightarrow> live (fst (emit e b (s\<lparr>rs_activeReasoningId := r\<rparr>, fs)))"
  by (intro live_emit) (simp add: live_active_reasoning)

lemma inv_reasoning_start: "live (fst x) \<Longrightarrow> live (fst (fst (on_reasoning_start e i x)))"
  unfolding on_reasoning_start_def Let_def case_prod_beta fst_conv
  by (rule live_sem_content) (simp add: inv_intros)

lemma live_if: "(b \<Longrightarrow> live s) \<Longrightarrow> (\<not> b \<Longrightarrow> live t) \<Longrightarrow> live (if b then s else t)"
  by simp

lemma inv_reasoning_content: "live (fst x) \<Longrightarrow> live (fst (fst (on_reasoning_content e i delta x)))"
  unfolding on_reasoning_content_def Let_def case_prod_beta
  by (auto intro!: live_markProgress live_emit live_upd_content live_active_reasoning
      live_closeReasoning live_closeText simp del: emit.simps closeText.simps closeReasoning.simps
      simp: if_distrib [of fst])

lemma inv_reasoning_end: "live (fst x) \<Longrightarrow> live (fst (fst (on_reasoning_end e i sig red x)))"
  unfolding on_reasoning_end_def Let_def case_prod_beta
  by (auto intro!: live_emit live_upd_content live_active_reasoning simp del: emit.simps)

lemma inv_text_start: "live (fst x) \<Longrightarrow> live (fst (fst (on_text_start e x)))"
  by (simp add: on_text_start_def inv_intros)

lemma inv_text_content: "live (fst x) \<Longrightarrow> live (fst (fst (on_text_content e delta x)))"
  unfolding on_text_content_def Let_def case_prod_beta
  by (auto intro!: live_markProgress live_emit live_upd_content live_openText
      live_closeReasoning simp del: emit.simps closeReasoning.simps
      simp: if_distrib [of fst])

lemma inv_custom: "live (fst x) \<Longrightarrow> on_custom e nm data x = Inr r \<Longrightarrow> live (fst (fst r))"
  unfolding on_custom_def Let_def case_prod_beta
  by (auto simp del: emit.simps split: if_splits option.splits jsval.splits intro!: live_emit)

lemmas inv_handlers =
  inv_tool_input_start inv_tool_input_content inv_tool_input_ready inv_tool_input_rejected
  inv_provider_tool_start inv_provider_tool_end settled_step_finish inv_reasoning_start
  inv_reasoning_content inv_reasoning_end inv_text_start inv_text_content inv_custom

lemma inv_reduceNonText:
  assumes "live (fst x)" and "reduceNonTextProtocolEvent c ev e prog rec x = Inr r"
  shows "next_ok (fst r)"
  using assms inv_tool_input_content [of x e] inv_provider_tool_start [of x e]
    inv_provider_tool_end [of x e] inv_tool_input_start [of x e] inv_tool_input_ready [of x c e]
    inv_tool_input_rejected [of x e] settled_step_finish [of x c e] live_emit [of x e]
  by (cases ev) (simp_all del: emit.simps, (metis fst_conv)+)

lemma inv_reduceProtocolEvent:
  assumes l: "live (fst x)" and r: "reduceProtocolEvent c ev e rec x = Inr r"
  shows "next_ok (fst r)"
proof (cases ev)
  case (ReasoningStart i)
  then show ?thesis using r inv_reasoning_start [OF l, of e i] by simp
next
  case (ReasoningContent i delta)
  then show ?thesis using r inv_reasoning_content [OF l, of e i delta] by simp
next
  case (ReasoningEnd i sig red)
  then show ?thesis using r inv_reasoning_end [OF l, of e i sig red] by simp
next
  case (TextStart i)
  then show ?thesis using r inv_text_start [OF l, of e] by simp
next
  case (TextContent i delta)
  then show ?thesis using r inv_text_content [OF l, of e delta] by simp
next
  case (TextEnd i)
  then show ?thesis using r live_closeText [OF l, of e] by (auto simp del: closeText.simps)
next
  case (Custom nm data)
  then show ?thesis using r inv_custom [OF l, of e nm data r] by simp
qed (use inv_reduceNonText [OF l, of c ev e False rec r] r in simp_all)

lemma settled_progress:
  "settled s \<Longrightarrow> settled (upd_snapshot (\<lambda>n. n\<lparr>sn_hasSemanticProgress := True\<rparr>) s)"
  by (simp add: settled_def core_def synced_def fresh_text_def upd_snapshot_def)

lemma next_ok_finish:
  assumes "next_ok (fst r)"
  shows "live (rd_state (finish_reduction r)) \<or> settled (rd_state (finish_reduction r))"
proof -
  let ?f = "\<lambda>n. n\<lparr>sn_hasSemanticProgress := True\<rparr>"
  have "rd_state (finish_reduction r) = fst (fst r) \<or>
      rd_state (finish_reduction r) = upd_snapshot ?f (fst (fst r))"
    by (cases r) (simp add: finish_reduction_def split: prod.split)
  moreover have "live (fst (fst r)) \<Longrightarrow> live (upd_snapshot ?f (fst (fst r)))"
    by (rule live_upd_content) simp_all
  ultimately show ?thesis using assms settled_progress [of "fst (fst r)"] by metis
qed

lemma reducer_inv_step:
  assumes i: "reducer_inv s" and r: "reduceStreamSignal c s sig e rec = Inr r"
  shows "reducer_inv (rd_state r)"
proof -
  have seg: "one_segment (rd_state r)" using reduce_tracks [OF _ r] i by (simp add: reducer_inv_def)
  have "live (rd_state r) \<or> settled (rd_state r)"
  proof (cases "rs_terminal s")
    case True
    with i have "settled s" by (auto simp: reducer_inv_def live_def running_def)
    with True r show ?thesis
      using settled_emit [of "(s, [])" e "Diagnostic (DiagPartRejected None)"]
      by (auto simp: reduceStreamSignal_def)
  next
    case False
    with i have l: "live s" by (auto simp: reducer_inv_def settled_def)
    show ?thesis
    proof (cases sig)
      case (SigProtocol ev)
      with False r obtain q where "reduceProtocolEvent c ev e rec (s, []) = Inr q"
        "r = finish_reduction q"
        by (auto simp: reduceStreamSignal_def split: sum.splits)
      with inv_reduceProtocolEvent [of "(s, [])" c ev e rec q] next_ok_finish [of q] l show ?thesis
        by simp
    next
      case (SigUsage u)
      have "live (upd_snapshot (\<lambda>n. n\<lparr>sn_usage := u\<rparr>) s)" using l by (rule live_upd_content) simp
      with SigUsage False r show ?thesis
        using live_emit [of "(upd_snapshot (\<lambda>n. n\<lparr>sn_usage := u\<rparr>) s, [])" e "Semantic (SemUsage u)"]
        by (auto simp: reduceStreamSignal_def)
    qed (use l False r in \<open>auto simp: reduceStreamSignal_def\<close>)
  qed
  with seg show ?thesis by (simp add: reducer_inv_def)
qed

lemma reducer_inv_initial: "reducer_inv createInitialReducerState"
  using initial_live by (simp add: reducer_inv_def one_segment_def createInitialReducerState_def)


subsection \<open>A whole attempt\<close>

text \<open>The signals of an attempt with the clock reading of each, reduced in order.\<close>

fun reduce_all :: "json_codec \<Rightarrow> bool \<Rightarrow> reducer_state \<Rightarrow> (stream_signal \<times> int) list \<Rightarrow>
    reduce_error + (reducer_state \<times> lifecycle_frame list)" where
  "reduce_all c rec s [] = Inr (s, [])"
| "reduce_all c rec s ((sig, e) # sigs) =
     (case reduceStreamSignal c s sig e rec of
        Inl err \<Rightarrow> Inl err
      | Inr r \<Rightarrow> (case reduce_all c rec (rd_state r) sigs of
          Inl err \<Rightarrow> Inl err
        | Inr (s', fs) \<Rightarrow> Inr (s', rd_frames r @ fs)))"

lemma reduce_all_inv:
  "reducer_inv s \<Longrightarrow> reduce_all c rec s sigs = Inr (s', fs) \<Longrightarrow>
   reducer_inv s' \<and> observe_all (view s) fs = Some (view s')"
proof (induction c rec s sigs arbitrary: s' fs rule: reduce_all.induct)
  case (2 c rec s sig e sigs)
  then obtain r gs where r: "reduceStreamSignal c s sig e rec = Inr r"
    "reduce_all c rec (rd_state r) sigs = Inr (s', gs)" "fs = rd_frames r @ gs"
    by (auto split: sum.splits)
  have "reducer_inv (rd_state r)" by (rule reducer_inv_step [OF "2.prems"(1) r(1)])
  with "2.IH" [OF r(1) _ r(2)]
  have "reducer_inv s' \<and> observe_all (view (rd_state r)) gs = Some (view s')" by simp
  moreover have "one_segment s" using "2.prems"(1) by (simp add: reducer_inv_def)
  with reduce_tracks [OF _ r(1)]
  have "observe_all (view s) (rd_frames r) = Some (view (rd_state r))" by simp
  ultimately show ?case by (simp add: r(3) observe_all_append)
qed simp

text \<open>A signal sequence used by the witnesses: two text deltas, reasoning, a tool call.\<close>

definition demo_signals :: "(stream_signal \<times> int) list" where
  "demo_signals =
     [(SigProtocol (TextContent None ''hi''), 5),
      (SigProtocol (ReasoningContent ''r'' ''x''), 6),
      (SigProtocol (ToolInputStart ''t1'' ''read'' None None True), 7),
      (SigProtocol (ToolInputReady ''t1'' ''read'' (JObj []) None None None), 8),
      (SigProtocol (StepFinish (Some FToolCalls) None), 9),
      (SigProtocol StepStart, 10)]"

definition demo_run :: "reduce_error + (reducer_state \<times> lifecycle_frame list)" where
  "demo_run = reduce_all braces_codec False createInitialReducerState demo_signals"

lemma demo_run_ok:
  "\<exists>s fs. reduce_all braces_codec False createInitialReducerState demo_signals = Inr (s, fs) \<and>
     sn_phase (rs_snapshot s) = ToolHandoff \<and> sn_accumulatedText (rs_snapshot s) = ''hi'' \<and>
     length fs = 12"
proof -
  have "\<not> isl demo_run"
    and "sn_phase (rs_snapshot (fst (projr demo_run))) = ToolHandoff"
    and "sn_accumulatedText (rs_snapshot (fst (projr demo_run))) = ''hi''"
    and "length (snd (projr demo_run)) = 12"
    by code_simp+
  then show ?thesis by (cases demo_run) (auto simp: demo_run_def)
qed

text \<open>C1: The frames of an attempt reproduce its state. Whatever signals an attempt reduces,
  a consumer that sees only the frames ends with the view of the final state: consecutive
  sequence numbers, properly bracketed text and reasoning segments with their ids, the
  concatenated text, reasoning parts, usage and finish reason.\<close>

theorem frames_reproduce_state:
  "reduce_all c rec createInitialReducerState sigs = Inr (s, fs) \<Longrightarrow>
   observe_all (view createInitialReducerState) fs = Some (view s)"
  using reduce_all_inv [OF reducer_inv_initial] by blast

theorem frames_reproduce_state_witness:
  "\<exists>s fs. observe_all (view createInitialReducerState) fs = Some (view s) \<and>
     length fs = 12 \<and> sv_text (view s) = ''hi''"
proof -
  obtain s fs where r: "reduce_all braces_codec False createInitialReducerState demo_signals = Inr (s, fs)"
    and "sn_accumulatedText (rs_snapshot s) = ''hi''" "length fs = 12"
    using demo_run_ok by blast
  moreover from this have "sv_text (view s) = ''hi''" by (simp add: view_def)
  ultimately show ?thesis using frames_reproduce_state [OF r] by blast
qed

text \<open>C2: The reducer invariant holds in every state an attempt reaches: one open segment at
  most, the tool map keyed by id and mirrored in the snapshot, tool phases consistent with
  their data, and phase, terminal flag, terminal error and finish reason in agreement.\<close>

theorem attempt_keeps_invariant:
  "reduce_all c rec createInitialReducerState sigs = Inr (s, fs) \<Longrightarrow> reducer_inv s"
  using reduce_all_inv [OF reducer_inv_initial] by blast

theorem attempt_keeps_invariant_witness:
  "\<exists>s. reducer_inv s \<and> sn_phase (rs_snapshot s) = ToolHandoff"
proof -
  obtain s fs where r: "reduce_all braces_codec False createInitialReducerState demo_signals = Inr (s, fs)"
    and "sn_phase (rs_snapshot s) = ToolHandoff"
    using demo_run_ok by blast
  with attempt_keeps_invariant [OF r] show ?thesis by blast
qed

subsection \<open>Totality\<close>

lemma custom_throws:
  "on_custom e nm d x = Inl err \<longleftrightarrow>
     nm = ''tool-call-status'' \<and> (d = JUndef \<or> d = JNull) \<and> err = CustomDataTypeError"
  by (cases x; cases d)
    (auto simp: on_custom_def Let_def simp del: emit.simps split: option.splits jsval.splits)

lemma custom_status_null:
  "on_custom e ''tool-call-status'' JUndef x = Inl CustomDataTypeError"
  "on_custom e ''tool-call-status'' JNull x = Inl CustomDataTypeError"
  by (simp_all add: custom_throws)

lemma reduceProtocolEvent_throws:
  "reduceProtocolEvent c ev e rec x = Inl err \<longleftrightarrow>
     (\<exists>d. ev = Custom ''tool-call-status'' d \<and> (d = JUndef \<or> d = JNull) \<and> err = CustomDataTypeError)"
  by (cases ev) (simp_all add: custom_throws)

text \<open>The reducer is total but for one case: it throws exactly on a running attempt that
  receives a custom tool-call-status event whose data is \<open>undefined\<close> or \<open>null\<close>. The routing
  error of the inner switch is never reached.\<close>

theorem reducer_throws_iff:
  "reduceStreamSignal c s sig e rec = Inl err \<longleftrightarrow>
     \<not> rs_terminal s \<and> err = CustomDataTypeError \<and>
     (\<exists>d. sig = SigProtocol (Custom ''tool-call-status'' d) \<and> (d = JUndef \<or> d = JNull))"
  by (cases sig)
    (auto simp: reduceStreamSignal_def reduceProtocolEvent_throws custom_status_null split: sum.splits prod.splits)

subsection \<open>Settled attempts\<close>

text \<open>A settled attempt absorbs: however many signals follow, none throws, the snapshot,
  tools and error stay as they are, and each signal yields one frame, the diagnostic that the
  part was rejected.\<close>

theorem settled_absorbs:
  "rs_terminal s \<Longrightarrow> \<exists>s' fs. reduce_all c rec s sigs = Inr (s', fs) \<and>
     s' = s\<lparr>rs_sequence := rs_sequence s + length sigs\<rparr> \<and>
     map fr_body fs = replicate (length sigs) (Diagnostic (DiagPartRejected None))"
proof (induction c rec s sigs rule: reduce_all.induct)
  case (2 c rec s sig e sigs)
  let ?s1 = "s\<lparr>rs_sequence := Suc (rs_sequence s)\<rparr>"
  let ?r = "\<lparr>rd_state = ?s1,
    rd_frames = [\<lparr>fr_sequence = Suc (rs_sequence s), fr_elapsed = e,
       fr_body = Diagnostic (DiagPartRejected None)\<rparr>], rd_progress = False\<rparr>"
  have r: "reduceStreamSignal c s sig e rec = Inr ?r"
    using "2.prems" by (simp add: reduceStreamSignal_def)
  obtain s' fs where "reduce_all c rec ?s1 sigs = Inr (s', fs)"
      "s' = ?s1\<lparr>rs_sequence := rs_sequence ?s1 + length sigs\<rparr>"
      "map fr_body fs = replicate (length sigs) (Diagnostic (DiagPartRejected None))"
    using "2.IH" [OF r] "2.prems" by auto
  with r show ?case by simp
qed simp

end
