(* ===== verification/StreamHandoff.thy ===== *)
theory StreamHandoff
  imports StreamInvariants
begin

text \<open>
  When an attempt hands its tool calls over: the step that finishes with tool calls commits the
  inputs still pending, and a local-tool deadline resolves them. Both resolve every tool the same
  way (\<open>resolve_tool\<close>), differ in the frames they emit, and hand over exactly when an executable
  local call, or for a step a recoverable rejection, is left.
\<close>

subsection \<open>The deadline of local tools\<close>

lemma deadline_entry_tools:
  "rs_tools (fst (fst (deadline_entry c e (i, t) x))) =
     (if is_local t \<and> input_pending t then jm_set i (resolve_tool c t) (rs_tools (fst (fst x)))
      else rs_tools (fst (fst x)))"
  by (cases "(c, e, (i, t), x)" rule: deadline_entry.cases)
    (auto simp: put_tool_def Let_def resolve_tool_def split: parse_result.splits)

lemma deadline_fold_tools:
  "rs_tools (fst (fst x)) = xs @ ys \<Longrightarrow> jm_ok (xs @ ys) \<Longrightarrow>
   rs_tools (fst (fst (fold (deadline_entry c e) ys x))) = xs @ map (\<lambda>(i, t). (i, resolve_tool c t)) ys"
proof (induction ys arbitrary: xs x)
  case (Cons it ys)
  obtain i t where it: "it = (i, t)" by (cases it)
  have "rs_tools (fst (fst (deadline_entry c e it x))) = (xs @ [(i, resolve_tool c t)]) @ ys"
    using Cons.prems
    by (simp add: it deadline_entry_tools resolve_tool_def jm_set_middle del: deadline_entry.simps)
  moreover have "jm_ok ((xs @ [(i, resolve_tool c t)]) @ ys)"
    using Cons.prems by (simp add: jm_ok_def it)
  ultimately show ?case
    using Cons.IH [of "deadline_entry c e it x" "xs @ [(i, resolve_tool c t)]"]
    by (simp add: it del: deadline_entry.simps)
qed simp

lemma deadline_entry_snapshot:
  "rs_snapshot (fst (fst (deadline_entry c e it x))) = rs_snapshot (fst (fst x))"
  by (cases "(c, e, it, x)" rule: deadline_entry.cases)
    (auto simp: put_tool_def Let_def split: parse_result.splits)

lemma deadline_fold_snapshot:
  "rs_snapshot (fst (fst (fold (deadline_entry c e) ys x))) = rs_snapshot (fst (fst x))"
  by (induction ys arbitrary: x) (simp_all add: deadline_entry_snapshot del: deadline_entry.simps)

definition resolved_values :: "json_codec \<Rightarrow> reducer_state \<Rightarrow> tool_snapshot list" where
  "resolved_values c s = map (resolve_tool c) (jm_values (rs_tools s))"

definition resolution_state :: "deadline_resolution \<Rightarrow> reducer_state" where
  "resolution_state d = (case d of DHandoff r \<Rightarrow> rd_state r | DFailed r _ \<Rightarrow> rd_state r)"

lemma resolved_values_map:
  "map snd (map (\<lambda>(i, t). (i, resolve_tool c t)) m) = map (resolve_tool c) (jm_values m)"
  by (induction m) auto

lemma deadline_cases:
  assumes "jm_ok (rs_tools s)"
  shows "sn_tools (rs_snapshot (resolution_state (resolveLocalToolDeadline c s e))) = resolved_values c s"
    and "(\<exists>r. resolveLocalToolDeadline c s e = DHandoff r) \<longleftrightarrow>
      (\<exists>t \<in> set (resolved_values c s). tl_phase t = InputReady \<and> is_local t)"
    and "rs_terminal (resolution_state (resolveLocalToolDeadline c s e))"
proof -
  obtain s1 fs1 b where f: "fold (deadline_entry c e) (rs_tools s) ((s, []), False) = ((s1, fs1), b)"
    by (metis prod.exhaust)
  have v: "map snd (rs_tools s1) = resolved_values c s"
    using deadline_fold_tools [of "((s, []), False)" "[]" "rs_tools s" c e] assms
    by (simp add: f resolved_values_def resolved_values_map del: map_map)
  show "sn_tools (rs_snapshot (resolution_state (resolveLocalToolDeadline c s e))) = resolved_values c s"
    by (simp add: resolveLocalToolDeadline_def f v Let_def resolution_state_def upd_snapshot_def)
  show "rs_terminal (resolution_state (resolveLocalToolDeadline c s e))"
    by (simp add: resolveLocalToolDeadline_def f v Let_def resolution_state_def upd_snapshot_def)
  show "(\<exists>r. resolveLocalToolDeadline c s e = DHandoff r) \<longleftrightarrow>
      (\<exists>t \<in> set (resolved_values c s). tl_phase t = InputReady \<and> is_local t)"
    unfolding v [symmetric] by (auto simp: resolveLocalToolDeadline_def f Let_def filter_empty_conv)
qed

lemma resolved_not_pending:
  "t \<in> set (resolved_values c s) \<Longrightarrow> is_local t \<Longrightarrow> \<not> input_pending t"
  using resolve_tool_not_pending [of _ c] unfolding resolved_values_def by fastforce

text \<open>A local-tool deadline always resolves: afterwards the attempt is over, no local tool
  input is pending, provider tools are untouched, and the outcome is a handoff exactly when some
  local tool is ready to execute.\<close>

theorem deadline_resolves_local_tools:
  assumes "jm_ok (rs_tools s)"
  shows "let d = resolveLocalToolDeadline c s e; n = rs_snapshot (resolution_state d)
     in rs_terminal (resolution_state d)
     \<and> \<not> (\<exists>t \<in> set (sn_tools n). is_local t \<and> input_pending t)
     \<and> filter (\<lambda>t. \<not> is_local t) (sn_tools n) = filter (\<lambda>t. \<not> is_local t) (jm_values (rs_tools s))
     \<and> ((\<exists>r. d = DHandoff r) \<longleftrightarrow> (\<exists>t \<in> set (sn_tools n). tl_phase t = InputReady \<and> is_local t))"
proof -
  have "filter (\<lambda>t. \<not> is_local t) (map (resolve_tool c) ts) = filter (\<lambda>t. \<not> is_local t) ts" for ts
    by (induction ts) (use resolve_tool_local in \<open>auto simp: resolve_tool_def\<close>)
  then have "filter (\<lambda>t. \<not> is_local t) (resolved_values c s) = filter (\<lambda>t. \<not> is_local t) (jm_values (rs_tools s))"
    unfolding resolved_values_def .
  then show ?thesis
    using deadline_cases [OF assms, of c e] resolved_not_pending [of _ c s] unfolding Let_def
    by metis
qed

definition pending_tool :: "string \<Rightarrow> string \<Rightarrow> tool_snapshot" where
  "pending_tool i text =
     \<lparr>tl_id = i, tl_name = ''read'', tl_phase = InputStreaming, tl_inputText = text,
      tl_inputDeltas = [text], tl_input = None, tl_rejectionReason = None, tl_output = None,
      tl_error = None, tl_preliminary = None, tl_providerExecuted = None, tl_dynamic = None\<rparr>"

definition two_pending :: reducer_state where
  "two_pending = createInitialReducerState\<lparr>
     rs_tools := [(''a'', pending_tool ''a'' ''{x''), (''b'', pending_tool ''b'' ''[1]'')]\<rparr>"

subsection \<open>The step that hands over\<close>

text \<open>The tools an attempt ends with when the step finishes with tool calls.\<close>

lemma closeOpenContent_tools [simp]: "rs_tools (fst (closeOpenContent e x)) = rs_tools (fst x)"
  by (cases x) (auto simp: closeOpenContent_def split: option.split)

lemma handoff_step_tools:
  assumes "jm_ok (rs_tools (fst x))"
  shows "rs_tools (fst (fst (on_step_finish c e rec (Some FToolCalls) meta x))) =
    map (\<lambda>(i, t). (i, resolve_tool c t)) (rs_tools (fst x))"
proof -
  obtain s fs where y: "commitPendingLocalInputs c e (closeOpenContent e x) = (s, fs)"
    by (cases "commitPendingLocalInputs c e (closeOpenContent e x)")
  have "rs_tools s = map (\<lambda>(i, t). (i, resolve_tool c t)) (rs_tools (fst x))"
    using commit_tools [of "closeOpenContent e x" c e] assms by (simp add: y del: commitPendingLocalInputs.simps)
  then show ?thesis
    by (simp add: on_step_finish_def y Let_def upd_snapshot_def del: commitPendingLocalInputs.simps)
qed

lemma handoff_step_phase:
  assumes "jm_ok (rs_tools (fst x))"
  shows "sn_phase (rs_snapshot (fst (fst (on_step_finish c e rec (Some FToolCalls) meta x)))) =
    (let ts = resolved_values c (fst x); rej = filter (\<lambda>t. tl_phase t = InputRejected \<and> is_local t) ts
     in if (\<exists>t \<in> set ts. tl_phase t = InputReady \<and> is_local t) \<or>
           (rec \<and> rej \<noteq> [] \<and> (\<forall>t \<in> set rej. tl_rejectionReason t = Some RUnavailable))
        then ToolHandoff else Failed)"
proof -
  obtain s fs where y: "commitPendingLocalInputs c e (closeOpenContent e x) = (s, fs)"
    by (cases "commitPendingLocalInputs c e (closeOpenContent e x)")
  have "map snd (rs_tools s) = resolved_values c (fst x)"
    using commit_tools [of "closeOpenContent e x" c e] assms
    by (simp add: y resolved_values_def resolved_values_map del: commitPendingLocalInputs.simps map_map)
  then show ?thesis
    by (auto simp: on_step_finish_def y Let_def upd_snapshot_def filter_empty_conv
        simp del: commitPendingLocalInputs.simps)
qed

text \<open>C3: A step that finishes with tool calls decides the attempt. Every pending local input is
  committed or rejected first; then the attempt hands over exactly when a local call is ready to
  execute, or recovery is on and there are rejected local calls, all of them unavailable tools;
  otherwise it fails. It never completes, and the frames of the other events are unaffected.\<close>

theorem tool_calls_finish_decides:
  assumes "reducer_inv s" "\<not> rs_terminal s"
    and "reduceStreamSignal c s (SigProtocol (StepFinish (Some FToolCalls) meta)) e rec = Inr r"
  shows "sn_phase (rs_snapshot (rd_state r)) =
      (let ts = sn_tools (rs_snapshot (rd_state r));
           rej = filter (\<lambda>t. tl_phase t = InputRejected \<and> is_local t) ts
       in if (\<exists>t \<in> set ts. tl_phase t = InputReady \<and> is_local t) \<or>
             (rec \<and> rej \<noteq> [] \<and> (\<forall>t \<in> set rej. tl_rejectionReason t = Some RUnavailable))
          then ToolHandoff else Failed)
    \<and> sn_tools (rs_snapshot (rd_state r)) = map (resolve_tool c) (jm_values (rs_tools s))
    \<and> \<not> (\<exists>t \<in> set (sn_tools (rs_snapshot (rd_state r))). is_local t \<and> input_pending t)"
proof -
  let ?x = "(s, []) :: emission"
  let ?q = "on_step_finish c e rec (Some FToolCalls) meta ?x"
  have l: "live (fst ?x)" using assms(1,2) by (auto simp: reducer_inv_def settled_def)
  then have ok: "jm_ok (rs_tools (fst ?x))" by (simp add: live_def running_def core_def tools_ok_def)
  have fin: "r = finish_reduction ?q" using assms by (simp add: reduceStreamSignal_def)
  have same: "sn_phase (rs_snapshot (rd_state r)) = sn_phase (rs_snapshot (fst (fst ?q)))"
    "sn_tools (rs_snapshot (rd_state r)) = sn_tools (rs_snapshot (fst (fst ?q)))"
    unfolding fin by (cases ?q; simp add: finish_reduction_def upd_snapshot_def split: prod.split)+
  have "synced (fst (fst ?q))"
    using settled_step_finish [OF l, of c e rec "Some FToolCalls" meta] by (simp add: settled_def)
  then have vals: "sn_tools (rs_snapshot (fst (fst ?q))) = resolved_values c s"
    using handoff_step_tools [OF ok, of c e rec meta] by (simp add: synced_def resolved_values_map resolved_values_def del: map_map)
  have eq: "resolved_values c s = map (resolve_tool c) (jm_values (rs_tools s))"
    by (simp add: resolved_values_def)
  show ?thesis
    using handoff_step_phase [OF ok, of c e rec meta] resolved_not_pending [of _ c s]
    unfolding same vals eq [symmetric] by (auto simp: Let_def)
qed

theorem tool_calls_finish_decides_witness:
  "\<exists>r. reduceStreamSignal braces_codec createInitialReducerState
       (SigProtocol (StepFinish (Some FToolCalls) None)) 3 False = Inr r \<and>
     sn_phase (rs_snapshot (rd_state r)) = Failed"
proof -
  obtain r where r: "reduceStreamSignal braces_codec createInitialReducerState
       (SigProtocol (StepFinish (Some FToolCalls) None)) 3 False = Inr r"
    by (simp add: reduceStreamSignal_def createInitialReducerState_def)
  have "sn_tools (rs_snapshot (rd_state r)) = []"
    using tool_calls_finish_decides [OF reducer_inv_initial _ r]
    by (simp add: createInitialReducerState_def)
  then show ?thesis
    using r tool_calls_finish_decides [OF reducer_inv_initial _ r]
    by (simp add: createInitialReducerState_def Let_def)
qed

end
