(* ===== verification/StreamOutcome.thy ===== *)
theory StreamOutcome
  imports StreamHandoff
begin

text \<open>
  The terminal classifier, \<open>agent/streaming/stream-outcome.ts\<close>: how a provider stream ended.
  A thrown value is an \<open>Error\<close> with its message or any other value. Two functions are
  arguments: \<open>parseProviderError\<close> of \<open>chat/provider-errors.ts\<close> (the record \<open>parsed_error\<close>
  it returns) and the text \<open>String()\<close> gives a value that is neither an error, a text nor an
  object with a message.
\<close>

datatype thrown = ThrownError string | ThrownValue jsval

record parsed_error =
  px_code :: string
  px_message :: string

record error_env =
  parseProviderError :: "thrown \<Rightarrow> parsed_error"
  js_String :: "jsval \<Rightarrow> string"

definition lower_char :: "char \<Rightarrow> char" where
  "lower_char ch =
     (let n = (of_char ch :: nat)
      in if (65 \<le> n \<and> n \<le> 90) \<or> (192 \<le> n \<and> n \<le> 222 \<and> n \<noteq> 215) then char_of (n + 32) else ch)"

definition to_lower :: "string \<Rightarrow> string" where
  "to_lower s = map lower_char s"

abbreviation js_includes :: "string \<Rightarrow> string \<Rightarrow> bool" where
  "js_includes s p \<equiv> sublist p s"

fun getStreamErrorMessage :: "error_env \<Rightarrow> thrown \<Rightarrow> string" where
  "getStreamErrorMessage env (ThrownError m) = m"
| "getStreamErrorMessage env (ThrownValue (JStr s)) = s"
| "getStreamErrorMessage env (ThrownValue (JObj fs)) =
     (case map_of fs ''message'' of Some (JStr m) \<Rightarrow> m | _ \<Rightarrow> js_String env (JObj fs))"
| "getStreamErrorMessage env (ThrownValue v) = js_String env v"

definition isLateProviderBodyReadError :: "error_env \<Rightarrow> thrown \<Rightarrow> bool" where
  "isLateProviderBodyReadError env err =
     js_includes (to_lower (getStreamErrorMessage env err)) ''error reading a body from connection''"

definition isStreamTimeoutError :: "error_env \<Rightarrow> thrown \<Rightarrow> bool" where
  "isStreamTimeoutError env err =
     (let normalized = to_lower (js_trim (getStreamErrorMessage env err))
      in js_includes normalized ''stream timed out'' \<or>
         js_includes normalized ''chat stream idle timeout'' \<or>
         js_includes normalized ''chat stream bootstrap timeout'' \<or>
         js_includes normalized ''stream timeout'')"

fun hasCompletedStepSignal :: "finish_reason option \<Rightarrow> bool" where
  "hasCompletedStepSignal (Some FStop) = True"
| "hasCompletedStepSignal (Some FLength) = True"
| "hasCompletedStepSignal (Some FToolCalls) = True"
| "hasCompletedStepSignal (Some FContentFilter) = True"
| "hasCompletedStepSignal (Some FOther) = True"
| "hasCompletedStepSignal None = False"

definition resolveKnownProviderTerminalError :: "error_env \<Rightarrow> thrown \<Rightarrow> (string \<times> string) option" where
  "resolveKnownProviderTerminalError env err =
     (let p = parseProviderError env err
      in if px_code p = ''EXTERNAL_SERVICE_ERROR'' \<and> px_message p = ''LLM provider service error''
         then None else Some (px_code p, px_message p))"

record outcome_input =
  oi_snapshot :: stream_snapshot
  oi_elapsed :: int
  oi_cancellation :: "cancellation_source option"
  oi_lifecycleError :: "lifecycle_error option"
  oi_thrown :: "thrown option"
  oi_providerError :: "provider_error option"

definition with_phase :: "stream_phase \<Rightarrow> outcome_input \<Rightarrow> outcome_base" where
  "with_phase p i =
     (let n = (oi_snapshot i)\<lparr>sn_phase := p\<rparr>
      in \<lparr>ob_snapshot = n, ob_usage = sn_usage n, ob_elapsed = oi_elapsed i, ob_phase = sn_phase n\<rparr>)"

definition collectCommittedLocalToolCalls :: "stream_snapshot \<Rightarrow> committed_call list" where
  "collectCommittedLocalToolCalls n =
     map (\<lambda>t. \<lparr>cc_id = tl_id t, cc_name = tl_name t, cc_arguments = tl_inputText t,
               cc_inputDeltas = tl_inputDeltas t, cc_dynamic = (tl_dynamic t = Some True)\<rparr>)
       (filter (\<lambda>t. tl_phase t = InputReady \<and> is_local t) (sn_tools n))"

definition classifyThrownProviderError :: "error_env \<Rightarrow> thrown \<Rightarrow> provider_error" where
  "classifyThrownProviderError env err =
     (case resolveKnownProviderTerminalError env err of
        Some (code, msg) \<Rightarrow>
          \<lparr>pe_code = code, pe_publicMessage = msg, pe_retryable = False, pe_terminal = True,
           pe_diagnosticId = None\<rparr>
      | None \<Rightarrow>
          \<lparr>pe_code = ''PROVIDER_STREAM_ERROR'', pe_publicMessage = ''Provider stream failed'',
           pe_retryable = True, pe_terminal = False, pe_diagnosticId = None\<rparr>)"

definition createFailedResolverOutcome :: "outcome_input \<Rightarrow> lifecycle_error \<Rightarrow> stream_outcome" where
  "createFailedResolverOutcome i err =
     OFailed (with_phase Failed i) (err\<lparr>le_phase := sn_phase (oi_snapshot i)\<rparr>)"

definition non_empty :: "string option \<Rightarrow> string option" where
  "non_empty d = (if d = Some [] then None else d)"

definition failedClassifiedProviderOutcome :: "outcome_input \<Rightarrow> provider_error \<Rightarrow> stream_outcome" where
  "failedClassifiedProviderOutcome i pe =
     createFailedResolverOutcome i
       \<lparr>le_code = (if pe_terminal pe then ProviderTerminalError else ProviderStreamError),
        le_phase = Failed, le_source = EProvider, le_retryable = pe_retryable pe,
        le_publicMessage = pe_publicMessage pe, le_providerCode = Some (pe_code pe),
        le_diagnosticId = non_empty (pe_diagnosticId pe)\<rparr>"

definition failedRuntimeOutcome :: "outcome_input \<Rightarrow> lifecycle_error_code \<Rightarrow> string \<Rightarrow> stream_outcome" where
  "failedRuntimeOutcome i code msg =
     createFailedResolverOutcome i
       \<lparr>le_code = code, le_phase = Failed, le_source = ERuntime,
        le_retryable = (code = ProviderStreamError), le_publicMessage = msg,
        le_providerCode = None, le_diagnosticId = None\<rparr>"

definition toolHandoffOutcome :: "outcome_input \<Rightarrow> stream_outcome" where
  "toolHandoffOutcome i =
     (let b = with_phase ToolHandoff i
      in OToolHandoff b (collectCommittedLocalToolCalls (ob_snapshot b)))"

definition completedOutcome :: "outcome_input \<Rightarrow> stream_outcome" where
  "completedOutcome i =
     (case sn_finishReason (oi_snapshot i) of
        None \<Rightarrow> failedRuntimeOutcome i ProtocolViolation
          ''Provider stream ended in an invalid lifecycle state''
      | Some FToolCalls \<Rightarrow> failedRuntimeOutcome i ProtocolViolation
          ''Provider stream ended in an invalid lifecycle state''
      | Some fr \<Rightarrow> OCompleted (with_phase Completed i) fr)"

definition thrown_is_fatal :: "error_env \<Rightarrow> stream_snapshot \<Rightarrow> thrown \<Rightarrow> bool" where
  "thrown_is_fatal env n err \<longleftrightarrow>
     \<not> (sn_hasStreamOutput n \<and> hasCompletedStepSignal (sn_finishReason n) \<and>
        \<not> isStreamTimeoutError env err)"

definition resolveStreamOutcome :: "error_env \<Rightarrow> outcome_input \<Rightarrow> stream_outcome" where
  "resolveStreamOutcome env i =
     (case oi_cancellation i of
        Some source \<Rightarrow> OCancelled (with_phase Cancelled i) source ''Stream was cancelled''
      | None \<Rightarrow>
     (case oi_lifecycleError i of
        Some err \<Rightarrow> OFailed (with_phase Failed i) err
      | None \<Rightarrow>
     (let n = oi_snapshot i;
          rest = (if sn_phase n = ToolHandoff then toolHandoffOutcome i
            else if sn_phase n = Completed \<and> sn_finishReason n \<noteq> None \<and>
                sn_finishReason n \<noteq> Some FToolCalls then completedOutcome i
            else failedRuntimeOutcome i ProviderStreamError ''Provider stream ended before completion'')
      in case oi_thrown i of
          Some err \<Rightarrow>
            if thrown_is_fatal env n err
            then failedClassifiedProviderOutcome i
              (case oi_providerError i of Some pe \<Rightarrow> pe | None \<Rightarrow> classifyThrownProviderError env err)
            else rest
        | None \<Rightarrow>
            (case oi_providerError i of
               Some pe \<Rightarrow> failedClassifiedProviderOutcome i pe
             | None \<Rightarrow> rest))))"

subsection \<open>The precedence of the classifier\<close>

text \<open>A provider failure the classifier reports: a thrown value that is fatal, or without a
  thrown value an error signal. A thrown value that is not fatal also hides the error signal.\<close>

definition reported_provider_failure :: "error_env \<Rightarrow> outcome_input \<Rightarrow> provider_error option" where
  "reported_provider_failure env i =
     (case oi_thrown i of
        Some err \<Rightarrow>
          if thrown_is_fatal env (oi_snapshot i) err
          then Some (case oi_providerError i of Some pe \<Rightarrow> pe
                     | None \<Rightarrow> classifyThrownProviderError env err)
          else None
      | None \<Rightarrow> oi_providerError i)"

definition undisturbed :: "error_env \<Rightarrow> outcome_input \<Rightarrow> bool" where
  "undisturbed env i \<longleftrightarrow>
     oi_cancellation i = None \<and> oi_lifecycleError i = None \<and> reported_provider_failure env i = None"

lemma resolve_cancelled:
  "oi_cancellation i = Some src \<Longrightarrow>
   resolveStreamOutcome env i = OCancelled (with_phase Cancelled i) src ''Stream was cancelled''"
  by (simp add: resolveStreamOutcome_def)

lemma resolve_lifecycle_error:
  "oi_cancellation i = None \<Longrightarrow> oi_lifecycleError i = Some err \<Longrightarrow>
   resolveStreamOutcome env i = OFailed (with_phase Failed i) err"
  by (simp add: resolveStreamOutcome_def)

lemma resolve_provider_failure:
  "oi_cancellation i = None \<Longrightarrow> oi_lifecycleError i = None \<Longrightarrow>
   reported_provider_failure env i = Some pe \<Longrightarrow>
   resolveStreamOutcome env i = failedClassifiedProviderOutcome i pe"
  by (auto simp: resolveStreamOutcome_def reported_provider_failure_def Let_def
      split: option.splits if_splits)

lemma resolve_undisturbed:
  "undisturbed env i \<Longrightarrow>
   resolveStreamOutcome env i =
     (if sn_phase (oi_snapshot i) = ToolHandoff then toolHandoffOutcome i
      else if sn_phase (oi_snapshot i) = Completed \<and> sn_finishReason (oi_snapshot i) \<noteq> None \<and>
          sn_finishReason (oi_snapshot i) \<noteq> Some FToolCalls
      then OCompleted (with_phase Completed i) (the (sn_finishReason (oi_snapshot i)))
      else failedRuntimeOutcome i ProviderStreamError ''Provider stream ended before completion'')"
  by (auto simp: undisturbed_def resolveStreamOutcome_def reported_provider_failure_def Let_def
      completedOutcome_def split: option.splits if_splits finish_reason.splits)

lemmas resolve_simps = resolve_cancelled resolve_lifecycle_error resolve_provider_failure
  resolve_undisturbed

lemma resolve_cases:
  obtains (cancelled) src where "oi_cancellation i = Some src"
  | (lifecycle) err where "oi_cancellation i = None" "oi_lifecycleError i = Some err"
  | (provider) pe where "oi_cancellation i = None" "oi_lifecycleError i = None"
      "reported_provider_failure env i = Some pe"
  | (undisturbed) "undisturbed env i"
  by (cases "oi_cancellation i"; cases "oi_lifecycleError i"; cases "reported_provider_failure env i")
    (auto simp: undisturbed_def)

lemmas failure_defs = failedClassifiedProviderOutcome_def failedRuntimeOutcome_def
  createFailedResolverOutcome_def toolHandoffOutcome_def

text \<open>An error that comes too late to count, said without the classifier's own test: output was streamed, the provider
  gave a finish reason, and the text of the error contains none of the words of a timeout.\<close>

definition timeout_words :: "string list" where
  "timeout_words = [''stream timed out'', ''chat stream idle timeout'', ''chat stream bootstrap timeout'', ''stream timeout'']"

definition comes_too_late :: "error_env \<Rightarrow> stream_snapshot \<Rightarrow> thrown \<Rightarrow> bool" where
  "comes_too_late env n err \<longleftrightarrow>
     sn_hasStreamOutput n \<and> sn_finishReason n \<noteq> None \<and>
     \<not> (\<exists>w \<in> set timeout_words. sublist w (to_lower (js_trim (getStreamErrorMessage env err))))"

definition provider_at_fault :: "error_env \<Rightarrow> outcome_input \<Rightarrow> bool" where
  "provider_at_fault env i \<longleftrightarrow>
     (case oi_thrown i of Some err \<Rightarrow> \<not> comes_too_late env (oi_snapshot i) err | None \<Rightarrow> oi_providerError i \<noteq> None)"

definition unspoiled :: "error_env \<Rightarrow> outcome_input \<Rightarrow> bool" where
  "unspoiled env i \<longleftrightarrow> oi_cancellation i = None \<and> oi_lifecycleError i = None \<and> \<not> provider_at_fault env i"

text \<open>The provider's error signal tells more than the value that was thrown, and is reported in its place.\<close>

definition blamed_code :: "error_env \<Rightarrow> outcome_input \<Rightarrow> string" where
  "blamed_code env i =
     (case (oi_providerError i, oi_thrown i) of
        (Some pe, _) \<Rightarrow> pe_code pe
      | (None, Some err) \<Rightarrow>
          (let p = parseProviderError env err
           in if (px_code p, px_message p) = (''EXTERNAL_SERVICE_ERROR'', ''LLM provider service error'')
              then ''PROVIDER_STREAM_ERROR'' else px_code p)
      | (None, None) \<Rightarrow> [])"

lemma completed_step_signal: "hasCompletedStepSignal fr \<longleftrightarrow> fr \<noteq> None"
  by (cases fr rule: hasCompletedStepSignal.cases) auto

lemma not_fatal_iff: "thrown_is_fatal env n err \<longleftrightarrow> \<not> comes_too_late env n err"
  by (simp add: thrown_is_fatal_def comes_too_late_def completed_step_signal isStreamTimeoutError_def timeout_words_def
      Let_def)

lemma unspoiled_iff: "unspoiled env i \<longleftrightarrow> undisturbed env i"
  by (auto simp: unspoiled_def undisturbed_def provider_at_fault_def reported_provider_failure_def not_fatal_iff
      split: option.splits)

lemma blamed_failure:
  "oi_cancellation i = None \<Longrightarrow> oi_lifecycleError i = None \<Longrightarrow> provider_at_fault env i \<Longrightarrow>
   \<exists>b err. resolveStreamOutcome env i = OFailed b err \<and> le_source err = EProvider \<and>
     le_providerCode err = Some (blamed_code env i)"
  by (auto simp: provider_at_fault_def resolveStreamOutcome_def not_fatal_iff failure_defs blamed_code_def
      classifyThrownProviderError_def resolveKnownProviderTerminalError_def Let_def split: option.splits)

text \<open>C4: An error that comes too late does not undo what the attempt achieved. An error is late when output was streamed, the
  provider named a finish reason and the text is not that of a timeout; then, whatever was thrown or signalled, the
  outcome is the one of the same attempt without any error. An earlier error, a timeout, or a signal without a thrown
  value fails the attempt, which is then blamed on the provider, under the code of the signal if there is one. Above
  both stand the cancellation and the error of the lifecycle; an attempt that nothing spoiled hands over exactly its
  committed local tools in the phase of a handoff, completes with the finish reason in the phase of completion, and
  fails in the name of the runtime otherwise.\<close>

theorem late_error_undoes_nothing:
  "((\<exists>b src m. resolveStreamOutcome env i = OCancelled b src m) \<longleftrightarrow> oi_cancellation i \<noteq> None)
   \<and> ((\<exists>b. resolveStreamOutcome env i = OToolHandoff b calls) \<longleftrightarrow>
        unspoiled env i \<and> sn_phase (oi_snapshot i) = ToolHandoff \<and>
        calls = map (\<lambda>t. \<lparr>cc_id = tl_id t, cc_name = tl_name t, cc_arguments = tl_inputText t,
            cc_inputDeltas = tl_inputDeltas t, cc_dynamic = (tl_dynamic t = Some True)\<rparr>)
          (filter (\<lambda>t. tl_phase t = InputReady \<and> is_local t) (sn_tools (oi_snapshot i))))
   \<and> ((\<exists>b. resolveStreamOutcome env i = OCompleted b fr) \<longleftrightarrow>
        unspoiled env i \<and> sn_phase (oi_snapshot i) = Completed \<and> fr \<noteq> FToolCalls \<and>
        sn_finishReason (oi_snapshot i) = Some fr)
   \<and> (oi_thrown i = Some err \<and> comes_too_late env (oi_snapshot i) err \<longrightarrow>
        resolveStreamOutcome env i = resolveStreamOutcome env (i\<lparr>oi_thrown := None, oi_providerError := None\<rparr>))
   \<and> (oi_cancellation i = None \<and> oi_lifecycleError i = None \<and> provider_at_fault env i \<longrightarrow>
        (\<exists>b e. resolveStreamOutcome env i = OFailed b e \<and> le_source e = EProvider \<and> le_providerCode e = Some (blamed_code env i)))"
  (is "?cancelled \<and> ?handoff \<and> ?completed \<and> ?late \<and> ?blamed")
proof -
  have ?late by (auto simp: resolveStreamOutcome_def not_fatal_iff failure_defs completedOutcome_def with_phase_def Let_def
      split: option.splits finish_reason.splits)
  moreover have ?blamed using blamed_failure by blast
  moreover have "?cancelled \<and> ?handoff \<and> ?completed"
  proof (cases rule: resolve_cases [where i = i and env = env])
    case (cancelled src)
    then show ?thesis by (auto simp: resolve_simps undisturbed_def unspoiled_iff)
  next
    case (lifecycle err)
    then show ?thesis by (auto simp: resolve_simps undisturbed_def unspoiled_iff)
  next
    case (provider pe)
    then show ?thesis by (auto simp: resolve_simps undisturbed_def failure_defs unspoiled_iff)
  next
    case undisturbed
    then have "oi_cancellation i = None" by (simp add: undisturbed_def)
    with undisturbed show ?thesis
      by (auto simp: resolve_undisturbed failure_defs Let_def unspoiled_iff with_phase_def collectCommittedLocalToolCalls_def)
  qed
  ultimately show ?thesis by blast
qed

text \<open>Whatever the outcome, its snapshot is the input's with the phase of the outcome's
  status and nothing else changed, its usage and phase are that snapshot's, and a failure of the
  classifier itself names the phase it failed from. The classifier never reports a protocol
  violation of its own.\<close>

theorem outcome_base_consistent:
  "ob_snapshot (outcome_base_of (resolveStreamOutcome env i)) =
      (oi_snapshot i)\<lparr>sn_phase := ob_phase (outcome_base_of (resolveStreamOutcome env i))\<rparr>
   \<and> ob_usage (outcome_base_of (resolveStreamOutcome env i)) = sn_usage (oi_snapshot i)
   \<and> ob_elapsed (outcome_base_of (resolveStreamOutcome env i)) = oi_elapsed i
   \<and> (case resolveStreamOutcome env i of
        OCompleted b _ \<Rightarrow> ob_phase b = Completed
      | OToolHandoff b _ \<Rightarrow> ob_phase b = ToolHandoff
      | OCancelled b _ _ \<Rightarrow> ob_phase b = Cancelled
      | OFailed b err \<Rightarrow> ob_phase b = Failed \<and>
          (oi_lifecycleError i = None \<longrightarrow>
             le_phase err = sn_phase (oi_snapshot i) \<and> le_code err \<noteq> ProtocolViolation))"
proof (cases rule: resolve_cases [where i = i and env = env])
  case (cancelled src)
  then show ?thesis by (simp add: resolve_simps with_phase_def Let_def)
next
  case (lifecycle err)
  then show ?thesis by (simp add: resolve_simps with_phase_def Let_def)
next
  case (provider pe)
  then show ?thesis by (simp add: resolve_simps failure_defs with_phase_def Let_def)
next
  case undisturbed
  then show ?thesis
    by (simp add: resolve_undisturbed failure_defs with_phase_def Let_def)
qed

definition demo_input :: outcome_input where
  "demo_input =
     \<lparr>oi_snapshot = rs_snapshot createInitialReducerState, oi_elapsed = 7, oi_cancellation = None,
      oi_lifecycleError = None, oi_thrown = None, oi_providerError = None\<rparr>"

definition empty_env :: error_env where
  "empty_env = \<lparr>parseProviderError = (\<lambda>_. \<lparr>px_code = ''X'', px_message = []\<rparr>), js_String = (\<lambda>_. [])\<rparr>"

text \<open>The connection breaks after the last output of a finished attempt; before that, the same error fails it.\<close>

definition finished_input :: outcome_input where
  "finished_input = demo_input\<lparr>oi_snapshot := (oi_snapshot demo_input)\<lparr>sn_phase := Completed, sn_finishReason := Some FStop,
      sn_hasStreamOutput := True\<rparr>, oi_thrown := Some (ThrownError ''reset'')\<rparr>"

lemma reset_is_late: "comes_too_late empty_env (oi_snapshot finished_input) (ThrownError ''reset'')"
  by code_simp

lemma reset_is_early: "provider_at_fault empty_env (demo_input\<lparr>oi_thrown := Some (ThrownError ''reset'')\<rparr>)"
  by (simp add: provider_at_fault_def comes_too_late_def demo_input_def createInitialReducerState_def)

theorem late_error_undoes_nothing_witness:
  "resolveStreamOutcome empty_env finished_input =
     resolveStreamOutcome empty_env (finished_input\<lparr>oi_thrown := None, oi_providerError := None\<rparr>) \<and>
   (\<exists>b e. resolveStreamOutcome empty_env (demo_input\<lparr>oi_thrown := Some (ThrownError ''reset'')\<rparr>) = OFailed b e \<and>
      le_source e = EProvider \<and> le_providerCode e = Some ''X'')"
proof -
  have "oi_thrown finished_input = Some (ThrownError ''reset'')" by (simp add: finished_input_def)
  with reset_is_late late_error_undoes_nothing [of empty_env finished_input _ _ "ThrownError ''reset''"]
  have "resolveStreamOutcome empty_env finished_input =
     resolveStreamOutcome empty_env (finished_input\<lparr>oi_thrown := None, oi_providerError := None\<rparr>)" by blast
  moreover have "oi_cancellation (demo_input\<lparr>oi_thrown := Some (ThrownError ''reset'')\<rparr>) = None"
    "oi_lifecycleError (demo_input\<lparr>oi_thrown := Some (ThrownError ''reset'')\<rparr>) = None"
    "blamed_code empty_env (demo_input\<lparr>oi_thrown := Some (ThrownError ''reset'')\<rparr>) = ''X''"
    by (simp_all add: demo_input_def blamed_code_def empty_env_def)
  moreover note reset_is_early
    late_error_undoes_nothing [of empty_env "demo_input\<lparr>oi_thrown := Some (ThrownError ''reset'')\<rparr>"]
  ultimately show ?thesis by metis
qed

subsection \<open>The outcome of a settled reducer\<close>

text \<open>\<open>settleReducerTerminal\<close> of the runner, less the deferred it resolves.\<close>

definition settleReducerTerminal :: "error_env \<Rightarrow> reducer_state \<Rightarrow> int \<Rightarrow> stream_outcome" where
  "settleReducerTerminal env s e =
     resolveStreamOutcome env
       \<lparr>oi_snapshot = rs_snapshot s, oi_elapsed = e, oi_cancellation = None,
        oi_lifecycleError = rs_terminalError s, oi_thrown = None, oi_providerError = None\<rparr>"

text \<open>What the reducer settled on is what the attempt reports. For every settled state: an
  error becomes the failure with that error, a handoff becomes the handoff of exactly the local
  tools whose input is ready, in map order and with their text, a completion becomes completion
  with its finish reason, and a completion without a finish reason becomes a retryable failure.\<close>

theorem settled_state_outcome:
  assumes "settled s"
  shows "case settleReducerTerminal env s e of
      OCompleted b fr \<Rightarrow> sn_phase (rs_snapshot s) = Completed \<and> sn_finishReason (rs_snapshot s) = Some fr
    | OToolHandoff b calls \<Rightarrow> sn_phase (rs_snapshot s) = ToolHandoff \<and>
        map (\<lambda>k. (cc_id k, cc_name k, cc_arguments k)) calls =
          map (\<lambda>t. (tl_id t, tl_name t, tl_inputText t))
            (filter (\<lambda>t. tl_phase t = InputReady \<and> is_local t) (jm_values (rs_tools s)))
    | OCancelled b src m \<Rightarrow> False
    | OFailed b err \<Rightarrow> (case rs_terminalError s of
          Some err0 \<Rightarrow> err = err0
        | None \<Rightarrow> sn_phase (rs_snapshot s) = Completed \<and> sn_finishReason (rs_snapshot s) = None \<and>
            le_code err = ProviderStreamError \<and> le_retryable err)"
proof (cases "rs_terminalError s")
  case (Some err)
  then show ?thesis by (simp add: settleReducerTerminal_def resolve_lifecycle_error)
next
  case None
  then have u: "undisturbed env \<lparr>oi_snapshot = rs_snapshot s, oi_elapsed = e, oi_cancellation = None,
      oi_lifecycleError = None, oi_thrown = None, oi_providerError = None\<rparr>"
    by (simp add: undisturbed_def reported_provider_failure_def)
  have p: "sn_phase (rs_snapshot s) = Completed \<or> sn_phase (rs_snapshot s) = ToolHandoff"
    and v: "sn_tools (rs_snapshot s) = jm_values (rs_tools s)"
    using assms None by (auto simp: settled_def synced_def)
  have fr: "sn_phase (rs_snapshot s) = Completed \<Longrightarrow> sn_finishReason (rs_snapshot s) \<noteq> Some FToolCalls"
    using assms by (simp add: settled_def)
  show ?thesis
    using p fr None
    by (auto simp: settleReducerTerminal_def None resolve_undisturbed [OF u] failure_defs with_phase_def Let_def
        collectCommittedLocalToolCalls_def v)
qed

end
