(* ===== verification/StreamDeadlines.thy ===== *)
theory StreamDeadlines
  imports StreamTypes
begin

text \<open>
  The deadline controller of \<open>agent/streaming/lifecycle/deadlines.ts\<close>: which deadline a wait for
  the provider is under, what is left of its budget when waits are paused and resumed, when a
  status is due, and which result a race of the read against the clock has.

  Clock readings are arguments. One iteration of the loop of \<open>raceProviderRead\<close> is \<open>race_poll\<close>:
  it decides on a result or on the time to sleep until (the \<open>await\<close> of the source). A read that
  settled carries its settling time and its payload, part or error.
\<close>

record deadline_state =
  dl_activeKind :: "deadline_kind option"
  dl_remaining :: int
  dl_deadlineAbs :: "int option"
  dl_statusDue :: "int option"
  dl_statusEmitted :: bool
  dl_statusToolIds :: "string list"
  dl_waitStart :: "int option"
  dl_waiting :: bool
  dl_disposed :: bool

definition createStreamDeadlineController :: deadline_state where
  "createStreamDeadlineController =
     \<lparr>dl_activeKind = None, dl_remaining = 0, dl_deadlineAbs = None, dl_statusDue = None,
      dl_statusEmitted = False, dl_statusToolIds = [], dl_waitStart = None, dl_waiting = False,
      dl_disposed = False\<rparr>"

definition selectKind :: "lifecycle_policy \<Rightarrow> stream_snapshot \<Rightarrow> deadline_kind option" where
  "selectKind po n =
     (if terminal_phase (sn_phase n) then None
      else if po_streamRequiresFinish po then None
      else (let localTools = filter is_local (sn_tools n) in
        if \<exists>t \<in> set localTools. tl_phase t = InputReady
        then Some (if po_requireProviderFinish po then SemanticIdle else ToolCommitGrace)
        else if \<exists>t \<in> set localTools. input_pending t then Some ToolInputIdle
        else if \<not> sn_hasSemanticProgress n then Some FirstProgress
        else Some SemanticIdle))"

fun budgetFor :: "lifecycle_policy \<Rightarrow> deadline_kind \<Rightarrow> int" where
  "budgetFor po FirstProgress = po_firstProgressTimeoutMs po"
| "budgetFor po SemanticIdle = po_semanticIdleTimeoutMs po"
| "budgetFor po ToolInputIdle = po_toolInputIdleTimeoutMs po"
| "budgetFor po ToolCommitGrace = po_toolCommitGraceMs po"

definition refreshStatusTargets :: "stream_snapshot \<Rightarrow> deadline_state \<Rightarrow> deadline_state" where
  "refreshStatusTargets n d =
     d\<lparr>dl_statusToolIds := map tl_id (filter (\<lambda>t. is_local t \<and> input_pending t) (sn_tools n))\<rparr>"

definition start_kind :: "lifecycle_policy \<Rightarrow> deadline_kind option \<Rightarrow> deadline_state \<Rightarrow> deadline_state" where
  "start_kind po k d =
     d\<lparr>dl_activeKind := k, dl_remaining := (case k of None \<Rightarrow> 0 | Some k' \<Rightarrow> budgetFor po k')\<rparr>"

definition resumeProviderWait :: "lifecycle_policy \<Rightarrow> int \<Rightarrow> stream_snapshot \<Rightarrow> deadline_state \<Rightarrow>
    deadline_state" where
  "resumeProviderWait po now n d =
     (let kind = selectKind po n;
          d1 = (if kind \<noteq> dl_activeKind d then start_kind po kind d else d);
          d2 = refreshStatusTargets n d1;
          d3 = (if dl_statusToolIds d2 = [] then d2\<lparr>dl_statusDue := None, dl_statusEmitted := False\<rparr>
                else if dl_statusDue d2 = None \<or> dl_statusEmitted d2
                then d2\<lparr>dl_statusDue := Some (now + po_statusIntervalMs po), dl_statusEmitted := False\<rparr>
                else d2)
      in d3\<lparr>dl_deadlineAbs := (if dl_activeKind d3 = None then None else Some (now + dl_remaining d3)),
            dl_waitStart := Some now, dl_waiting := True\<rparr>)"

definition pauseProviderWait :: "int \<Rightarrow> deadline_state \<Rightarrow> deadline_state" where
  "pauseProviderWait now d =
     (if \<not> dl_waiting d then d
      else case dl_waitStart d of
        None \<Rightarrow> d
      | Some w \<Rightarrow> d\<lparr>dl_remaining := max 0 (dl_remaining d - (now - w)), dl_waiting := False,
                      dl_waitStart := None, dl_deadlineAbs := None\<rparr>)"

definition noteSemanticProgress :: "lifecycle_policy \<Rightarrow> int \<Rightarrow> stream_snapshot \<Rightarrow> deadline_state \<Rightarrow>
    deadline_state" where
  "noteSemanticProgress po now n d =
     (let d1 = refreshStatusTargets n (start_kind po (selectKind po n) d)
      in if dl_statusToolIds d1 \<noteq> []
         then d1\<lparr>dl_statusDue := Some (now + po_statusIntervalMs po), dl_statusEmitted := False\<rparr>
         else d1\<lparr>dl_statusDue := None\<rparr>)"

definition dispose_deadlines :: "deadline_state \<Rightarrow> deadline_state" where
  "dispose_deadlines d = d\<lparr>dl_disposed := True\<rparr>"

datatype 'r provider_read = ReadPending | ReadSettled int 'r

datatype 'r race_result =
    RaceRead 'r
  | RaceStatus "string list"
  | RaceDeadline deadline_kind
  | RaceAttemptTimeout
  | RaceCancelled
  | RaceSleep int

fun in_time :: "deadline_state \<Rightarrow> 'r provider_read \<Rightarrow> 'r option" where
  "in_time d ReadPending = None"
| "in_time d (ReadSettled at r) =
     (case dl_deadlineAbs d of None \<Rightarrow> Some r | Some a \<Rightarrow> if at \<le> a then Some r else None)"

definition min_opt :: "int \<Rightarrow> int option \<Rightarrow> int" where
  "min_opt x y = (case y of None \<Rightarrow> x | Some z \<Rightarrow> min x z)"

definition race_rest :: "int \<Rightarrow> int \<Rightarrow> deadline_state \<Rightarrow> 'r race_result \<times> deadline_state" where
  "race_rest attemptDeadline now d =
     (if (case dl_statusDue d of None \<Rightarrow> False | Some x \<Rightarrow> x \<le> now)
      then (RaceStatus (dl_statusToolIds d), d\<lparr>dl_statusEmitted := True\<rparr>)
      else (RaceSleep (min_opt (min_opt attemptDeadline (dl_deadlineAbs d)) (dl_statusDue d)), d))"

definition race_poll :: "int \<Rightarrow> bool \<Rightarrow> int \<Rightarrow> 'r provider_read \<Rightarrow> deadline_state \<Rightarrow>
    'r race_result \<times> deadline_state" where
  "race_poll attemptDeadline aborted now rd d =
     (if dl_disposed d \<or> aborted then (RaceCancelled, d)
      else if attemptDeadline \<le> now then (RaceAttemptTimeout, d)
      else case in_time d rd of
        Some r \<Rightarrow> (RaceRead r, d)
      | None \<Rightarrow>
        (case (dl_deadlineAbs d, dl_activeKind d) of
           (Some a, Some k) \<Rightarrow> if a \<le> now then (RaceDeadline k, d) else race_rest attemptDeadline now d
         | _ \<Rightarrow> race_rest attemptDeadline now d))"
lemmas deadline_op_defs = resumeProviderWait_def pauseProviderWait_def noteSemanticProgress_def
  refreshStatusTargets_def start_kind_def

subsection \<open>What a controller can do, and its invariant\<close>

text \<open>The operations in the order their user may call them, with a clock that does not go back:
  progress is noted while the wait is paused, as the runner does. The payload of a read does not
  matter to the state.\<close>

inductive deadline_step :: "lifecycle_policy \<Rightarrow> int \<Rightarrow> int \<times> deadline_state \<Rightarrow> int \<times> deadline_state \<Rightarrow> bool"
  for po :: lifecycle_policy and lim :: int where
  tick: "t \<le> t' \<Longrightarrow> deadline_step po lim (t, d) (t', d)"
| resume: "\<not> dl_waiting d \<Longrightarrow> deadline_step po lim (t, d) (t, resumeProviderWait po t n d)"
| pause: "deadline_step po lim (t, d) (t, pauseProviderWait t d)"
| progress: "\<not> dl_waiting d \<Longrightarrow> deadline_step po lim (t, d) (t, noteSemanticProgress po t n d)"
| poll: "race_poll lim aborted t (rd :: unit provider_read) d = (r, d') \<Longrightarrow> deadline_step po lim (t, d) (t, d')"
| dispose: "deadline_step po lim (t, d) (t, dispose_deadlines d)"

definition policy_ok :: "lifecycle_policy \<Rightarrow> bool" where
  "policy_ok po \<longleftrightarrow> (\<forall>k \<in> {FirstProgress, SemanticIdle, ToolInputIdle, ToolCommitGrace}. 0 \<le> budgetFor po k)"

definition budget_of :: "lifecycle_policy \<Rightarrow> deadline_kind option \<Rightarrow> int" where
  "budget_of po k = (case k of None \<Rightarrow> 0 | Some k' \<Rightarrow> budgetFor po k')"

definition deadline_inv :: "lifecycle_policy \<Rightarrow> int \<Rightarrow> deadline_state \<Rightarrow> bool" where
  "deadline_inv po t d \<longleftrightarrow>
     0 \<le> dl_remaining d \<and> dl_remaining d \<le> budget_of po (dl_activeKind d) \<and>
     (if dl_waiting d
      then (\<exists>w \<le> t. dl_waitStart d = Some w \<and>
              dl_deadlineAbs d = (if dl_activeKind d = None then None else Some (w + dl_remaining d)))
      else dl_deadlineAbs d = None)"

lemma budget_nonneg: "policy_ok po \<Longrightarrow> 0 \<le> budgetFor po k"
  by (cases k) (auto simp: policy_ok_def)

lemma budget_of_nonneg: "policy_ok po \<Longrightarrow> 0 \<le> budget_of po k"
  by (simp add: budget_of_def budget_nonneg split: option.split)

lemma deadline_inv_start:
  "policy_ok po \<Longrightarrow> 0 \<le> (case k of None \<Rightarrow> 0 | Some k' \<Rightarrow> budgetFor po k')"
  by (simp add: budget_nonneg split: option.split)

lemma race_poll_state:
  "race_poll lim ab t rd d = (r, d') \<Longrightarrow> d' = d \<or> d' = d\<lparr>dl_statusEmitted := True\<rparr>"
  by (auto simp: race_poll_def race_rest_def split: if_splits option.splits)

lemma deadline_inv_resume:
  "policy_ok po \<Longrightarrow> deadline_inv po t d \<Longrightarrow> \<not> dl_waiting d \<Longrightarrow>
   deadline_inv po t (resumeProviderWait po t n d)"
  by (auto simp: deadline_inv_def deadline_op_defs Let_def budget_of_def budget_nonneg
      split: option.splits)

lemma deadline_inv_progress:
  "policy_ok po \<Longrightarrow> deadline_inv po t d \<Longrightarrow> \<not> dl_waiting d \<Longrightarrow>
   deadline_inv po t (noteSemanticProgress po t n d)"
  by (auto simp: deadline_inv_def deadline_op_defs Let_def budget_of_def budget_nonneg
      split: option.splits)

lemma deadline_inv_pause:
  "policy_ok po \<Longrightarrow> deadline_inv po t d \<Longrightarrow> deadline_inv po t (pauseProviderWait t d)"
  using budget_of_nonneg [of po "dl_activeKind d"]
  by (auto simp: deadline_inv_def pauseProviderWait_def split: option.splits)

lemma deadline_inv_step:
  assumes "deadline_step po lim (t, d) (t', d')" "policy_ok po" "deadline_inv po t d"
  shows "deadline_inv po t' d'"
  using assms(1)
proof cases
  case tick
  with assms(3) show ?thesis by (auto simp: deadline_inv_def split: if_splits)
next
  case (poll aborted rd r)
  with assms(3) race_poll_state [OF poll(2)] show ?thesis by (auto simp: deadline_inv_def)
next
  case dispose
  with assms(3) show ?thesis by (auto simp: deadline_inv_def dispose_deadlines_def)
qed (use assms deadline_inv_resume deadline_inv_progress deadline_inv_pause in auto)

lemma deadline_inv_reachable:
  assumes "(deadline_step po lim)\<^sup>*\<^sup>* (t0, createStreamDeadlineController) (t, d)" "policy_ok po"
  shows "deadline_inv po t d"
  using assms(1)
proof (induction "(t, d)" arbitrary: t d rule: rtranclp_induct)
  case base
  then show ?case
    by (simp add: deadline_inv_def createStreamDeadlineController_def budget_of_def)
next
  case (step y)
  obtain t1 d1 where y: "y = (t1, d1)" by (cases y)
  from deadline_inv_step [OF step(2) [unfolded y] assms(2) step(3) [OF y]] show ?case .
qed

subsection \<open>Properties\<close>

text \<open>C5: A wait is bounded. In every state a controller reaches, the budget left is between
  zero and the budget of the active deadline, and a deadline armed during a wait lies at most
  that budget after the wait began, however often waits were paused and resumed before.\<close>

theorem wait_never_exceeds_budget:
  assumes "(deadline_step po lim)\<^sup>*\<^sup>* (t0, createStreamDeadlineController) (t, d)" "policy_ok po"
  shows "0 \<le> dl_remaining d \<and> dl_remaining d \<le> budget_of po (dl_activeKind d) \<and>
    (\<forall>a. dl_deadlineAbs d = Some a \<longrightarrow>
       (\<exists>w k. dl_waitStart d = Some w \<and> w \<le> t \<and> dl_activeKind d = Some k \<and> w \<le> a \<and> a \<le> w + budgetFor po k))"
  using deadline_inv_reachable [OF assms]
  by (auto simp: deadline_inv_def budget_of_def split: if_splits option.splits)

definition idle_snapshot :: stream_snapshot where
  "idle_snapshot = \<lparr>sn_phase = Streaming, sn_accumulatedText = [], sn_reasoning = [], sn_tools = [],
     sn_finishReason = None, sn_providerMetadata = None,
     sn_usage = \<lparr>us_inputTokens = 0, us_outputTokens = 0, us_totalTokens = 0, us_extra = []\<rparr>,
     sn_hasStreamOutput = True, sn_hasSemanticProgress = True\<rparr>"

theorem wait_never_exceeds_budget_witness:
  "dl_deadlineAbs (resumeProviderWait DEFAULT_STREAM_LIFECYCLE_POLICY 3 idle_snapshot
      createStreamDeadlineController) = Some 15003 \<and>
   dl_remaining (resumeProviderWait DEFAULT_STREAM_LIFECYCLE_POLICY 3 idle_snapshot
      createStreamDeadlineController) \<le> 15000"
proof
  let ?po = DEFAULT_STREAM_LIFECYCLE_POLICY
  let ?d = "resumeProviderWait ?po 3 idle_snapshot createStreamDeadlineController"
  show "dl_deadlineAbs ?d = Some 15003" by code_simp
  have "(deadline_step ?po 300000)\<^sup>*\<^sup>* (3, createStreamDeadlineController) (3, ?d)"
    by (intro r_into_rtranclp resume) (simp add: createStreamDeadlineController_def)
  moreover have "policy_ok ?po" by (simp add: policy_ok_def DEFAULT_STREAM_LIFECYCLE_POLICY_def)
  moreover have "budget_of ?po (dl_activeKind ?d) = 15000" by code_simp
  ultimately show "dl_remaining ?d \<le> 15000" using wait_never_exceeds_budget by metis
qed

text \<open>A sequence of waits, each from a resume to the pause after it, under snapshots that select
  the same deadline.\<close>

fun waits :: "lifecycle_policy \<Rightarrow> (int \<times> stream_snapshot \<times> int) list \<Rightarrow> deadline_state \<Rightarrow> deadline_state" where
  "waits po [] d = d"
| "waits po ((t, n, u) # ws) d = waits po ws (pauseProviderWait u (resumeProviderWait po t n d))"

fun waited :: "(int \<times> stream_snapshot \<times> int) list \<Rightarrow> int" where
  "waited [] = 0"
| "waited ((t, n, u) # ws) = (u - t) + waited ws"

lemma waited_nonneg: "\<forall>(t, n, u) \<in> set ws. t \<le> u \<Longrightarrow> 0 \<le> waited ws"
  by (induction ws rule: waited.induct) auto

lemma resume_pause_same:
  "selectKind po n = dl_activeKind d \<Longrightarrow>
   dl_activeKind (pauseProviderWait u (resumeProviderWait po t n d)) = dl_activeKind d \<and>
   dl_remaining (pauseProviderWait u (resumeProviderWait po t n d)) = max 0 (dl_remaining d - (u - t))"
  by (simp add: deadline_op_defs Let_def)

text \<open>Time is charged once. However a stretch without progress is split into waits, what is
  left of the deadline's budget is the budget at its start less the time actually spent waiting,
  and never negative: time between the waits is not charged, and splitting gains nothing.\<close>

theorem split_waits_charge_total:
  assumes "\<forall>(t, n, u) \<in> set ws. t \<le> u \<and> selectKind po n = dl_activeKind d" "0 \<le> dl_remaining d"
  shows "dl_remaining (waits po ws d) = max 0 (dl_remaining d - waited ws) \<and>
    dl_activeKind (waits po ws d) = dl_activeKind d"
  using assms
proof (induction po ws d rule: waits.induct)
  case (2 po t n u ws d)
  let ?d1 = "pauseProviderWait u (resumeProviderWait po t n d)"
  have d1: "dl_activeKind ?d1 = dl_activeKind d" "dl_remaining ?d1 = max 0 (dl_remaining d - (u - t))"
    using resume_pause_same [of po n d u t] "2.prems" by auto
  have "0 \<le> waited ws" using "2.prems" by (intro waited_nonneg) auto
  with "2.IH" "2.prems" d1 show ?case by auto
qed simp

text \<open>C6: The race is decided soundly. In a reachable state during a wait: a deadline fires only
  when it has passed, before the attempt's own, and the read had not settled in time; a read that
  settled in time is delivered unless the attempt was cancelled or timed out; and the race sleeps
  only until a time strictly in the future and not beyond the attempt deadline, so the polling
  loop cannot spin.\<close>

theorem race_decides_soundly:
  assumes "(deadline_step po lim)\<^sup>*\<^sup>* (t0, createStreamDeadlineController) (t, d)" "policy_ok po"
  shows "case fst (race_poll lim aborted t rd d) of
      RaceRead r \<Rightarrow> (\<exists>at. rd = ReadSettled at r \<and> (\<forall>a. dl_deadlineAbs d = Some a \<longrightarrow> at \<le> a)) \<and> t < lim
    | RaceStatus ids \<Rightarrow> ids = dl_statusToolIds d \<and> (\<exists>x \<le> t. dl_statusDue d = Some x) \<and> t < lim \<and>
        in_time d rd = None
    | RaceDeadline k \<Rightarrow> dl_activeKind d = Some k \<and> t < lim \<and>
        (\<exists>a \<le> t. dl_deadlineAbs d = Some a \<and> (\<forall>at r. rd = ReadSettled at r \<longrightarrow> a < at))
    | RaceAttemptTimeout \<Rightarrow> lim \<le> t
    | RaceCancelled \<Rightarrow> aborted \<or> dl_disposed d
    | RaceSleep target \<Rightarrow> t < target \<and> target \<le> lim \<and> in_time d rd = None \<and>
        (\<forall>a. dl_deadlineAbs d = Some a \<longrightarrow> target \<le> a)"
proof -
  have "deadline_inv po t d" using deadline_inv_reachable [OF assms] .
  then have k: "dl_deadlineAbs d = Some a \<Longrightarrow> dl_activeKind d \<noteq> None" for a
    by (auto simp: deadline_inv_def split: if_splits)
  show ?thesis
    using k
    by (cases rd; cases "dl_deadlineAbs d"; cases "dl_statusDue d")
      (auto simp: race_poll_def race_rest_def min_opt_def)
qed

theorem race_decides_soundly_witness:
  "fst (race_poll 300000 False 5 (ReadPending :: nat provider_read) createStreamDeadlineController)
     = RaceSleep 300000 \<and> (5::int) < 300000"
proof -
  have "(deadline_step DEFAULT_STREAM_LIFECYCLE_POLICY 300000)\<^sup>*\<^sup>*
      (5, createStreamDeadlineController) (5, createStreamDeadlineController)" by simp
  moreover have "policy_ok DEFAULT_STREAM_LIFECYCLE_POLICY"
    by (simp add: policy_ok_def DEFAULT_STREAM_LIFECYCLE_POLICY_def)
  moreover have r: "fst (race_poll 300000 False 5 (ReadPending :: nat provider_read)
      createStreamDeadlineController) = RaceSleep 300000"
    by code_simp
  ultimately show ?thesis
    using race_decides_soundly [of DEFAULT_STREAM_LIFECYCLE_POLICY 300000 5 5
        createStreamDeadlineController "ReadPending :: nat provider_read" False]
    by simp
qed

end
