(* ===== verification/StreamCancellation.thy ===== *)
theory StreamCancellation
  imports StreamTypes
begin

text \<open>
  The cancellation coordinator, \<open>agent/streaming/lifecycle/cancellation.ts\<close>. An input is its
  source and its signal; the signals are numbered and \<open>aborted\<close> says which had fired when the
  coordinator was created. \<open>co_listening\<close> holds the inputs that still have a listener,
  \<open>co_log\<close> the calls of \<open>onCancel\<close>.
\<close>

definition CANCELLATION_PRECEDENCE :: "cancellation_source list" where
  "CANCELLATION_PRECEDENCE = [CUser, CParent, CRuntime, CClientDisconnected]"

type_synonym cancellation_input = "cancellation_source \<times> nat"

record coordinator =
  co_source :: "cancellation_source option"
  co_aborted :: bool
  co_listening :: "cancellation_input list"
  co_log :: "cancellation_source list"

definition select_cancel :: "cancellation_source \<Rightarrow> coordinator \<Rightarrow> coordinator" where
  "select_cancel next co =
     (if co_source co \<noteq> None then co
      else co\<lparr>co_source := Some next, co_listening := [], co_log := co_log co @ [next],
              co_aborted := True\<rparr>)"

definition pre_aborted :: "cancellation_input list \<Rightarrow> (nat \<Rightarrow> bool) \<Rightarrow> cancellation_source option" where
  "pre_aborted inputs aborted =
     find (\<lambda>cand. \<exists>inp \<in> set inputs. fst inp = cand \<and> aborted (snd inp)) CANCELLATION_PRECEDENCE"

definition createCancellationCoordinator :: "cancellation_input list \<Rightarrow> (nat \<Rightarrow> bool) \<Rightarrow> coordinator" where
  "createCancellationCoordinator inputs aborted =
     (let co = \<lparr>co_source = None, co_aborted = False, co_listening = [], co_log = []\<rparr>
      in case pre_aborted inputs aborted of
           Some src \<Rightarrow> select_cancel src co
         | None \<Rightarrow> co\<lparr>co_listening := inputs\<rparr>)"

text \<open>What happens to a coordinator: an input's signal fires, the consumer stops, the provider is
  aborted for another reason, or it is disposed of. A signal runs its listeners in the order they
  were added; each is removed when it runs.\<close>

datatype cancel_event = SignalFires nat | StopConsumer | AbortProvider | DisposeCoordinator

definition signal_fires :: "nat \<Rightarrow> coordinator \<Rightarrow> coordinator" where
  "signal_fires sig co =
     fold (\<lambda>inp c. if snd inp = sig \<and> inp \<in> set (co_listening c)
                   then select_cancel (fst inp) (c\<lparr>co_listening := remove1 inp (co_listening c)\<rparr>) else c)
       (co_listening co) co"

fun cancel_step :: "cancel_event \<Rightarrow> coordinator \<Rightarrow> coordinator" where
  "cancel_step (SignalFires sig) co = signal_fires sig co"
| "cancel_step StopConsumer co = select_cancel CConsumerStopped co"
| "cancel_step AbortProvider co = co\<lparr>co_aborted := True\<rparr>"
| "cancel_step DisposeCoordinator co = co\<lparr>co_listening := []\<rparr>"

definition cancel_events :: "cancel_event list \<Rightarrow> coordinator \<Rightarrow> coordinator" where
  "cancel_events evs co = fold cancel_step evs co"

definition coordinator_inv :: "coordinator \<Rightarrow> bool" where
  "coordinator_inv co \<longleftrightarrow>
     (case co_source co of
        None \<Rightarrow> co_log co = []
      | Some src \<Rightarrow> co_log co = [src] \<and> co_aborted co \<and> co_listening co = [])"

lemma inv_select [inv_intros]: "coordinator_inv co \<Longrightarrow> coordinator_inv (select_cancel src co)"
  by (auto simp: coordinator_inv_def select_cancel_def split: option.splits)

lemma inv_create: "coordinator_inv (createCancellationCoordinator inputs aborted)"
  by (auto simp: createCancellationCoordinator_def Let_def coordinator_inv_def
      intro!: inv_select split: option.splits)
    (simp add: select_cancel_def)+

lemma select_source: "co_source (select_cancel src co) = (case co_source co of None \<Rightarrow> Some src | Some x \<Rightarrow> Some x)"
  by (auto simp: select_cancel_def split: option.split)

lemma signal_fold_keeps:
  "co_source co = Some src \<Longrightarrow> co_listening co = [] \<Longrightarrow>
   fold (\<lambda>inp c. if snd inp = sig \<and> inp \<in> set (co_listening c)
     then select_cancel (fst inp) (c\<lparr>co_listening := remove1 inp (co_listening c)\<rparr>) else c) ls co = co"
  by (induction ls) auto

lemma signal_fires_eq:
  "coordinator_inv co \<Longrightarrow> signal_fires sig co =
     (case find (\<lambda>inp. snd inp = sig) (co_listening co) of
        None \<Rightarrow> co
      | Some inp \<Rightarrow> select_cancel (fst inp) (co\<lparr>co_listening := remove1 inp (co_listening co)\<rparr>))"
proof -
  assume inv: "coordinator_inv co"
  define f where "f = (\<lambda>inp c. if snd inp = sig \<and> inp \<in> set (co_listening c)
     then select_cancel (fst inp) (c\<lparr>co_listening := remove1 inp (co_listening c)\<rparr>) else c)"
  show ?thesis
  proof (cases "co_source co")
    case None
    have "set ls \<subseteq> set (co_listening co) \<Longrightarrow> fold f ls co =
       (case find (\<lambda>inp. snd inp = sig) ls of
        None \<Rightarrow> co
      | Some inp \<Rightarrow> select_cancel (fst inp) (co\<lparr>co_listening := remove1 inp (co_listening co)\<rparr>))" for ls
    proof (induction ls)
      case (Cons a ls)
      show ?case
      proof (cases "snd a = sig")
        case True
        have "fold f ls (select_cancel (fst a) (co\<lparr>co_listening := remove1 a (co_listening co)\<rparr>)) =
          select_cancel (fst a) (co\<lparr>co_listening := remove1 a (co_listening co)\<rparr>)"
          unfolding f_def by (rule signal_fold_keeps [where src = "fst a"]) (simp_all add: select_cancel_def None)
        with True Cons.prems show ?thesis by (simp add: f_def)
      next
        case False
        with Cons show ?thesis by (simp add: f_def)
      qed
    qed simp
    from this [of "co_listening co"] show ?thesis by (simp add: signal_fires_def f_def)
  next
    case (Some src)
    with inv have "co_listening co = []" by (simp add: coordinator_inv_def)
    then show ?thesis by (simp add: signal_fires_def)
  qed
qed

lemma inv_listening [inv_intros]:
  "coordinator_inv co \<Longrightarrow> set ls \<subseteq> set (co_listening co) \<Longrightarrow> coordinator_inv (co\<lparr>co_listening := ls\<rparr>)"
  by (auto simp: coordinator_inv_def split: option.splits)

lemma inv_event: "coordinator_inv co \<Longrightarrow> coordinator_inv (cancel_step ev co)"
  by (cases ev; cases "co_source co")
    (auto simp: signal_fires_eq coordinator_inv_def select_cancel_def split: option.splits)

lemma inv_events: "coordinator_inv co \<Longrightarrow> coordinator_inv (cancel_events evs co)"
  unfolding cancel_events_def by (induction evs arbitrary: co) (auto simp: inv_event)

lemma source_kept_event: "co_source co = Some src \<Longrightarrow> coordinator_inv co \<Longrightarrow>
   co_source (cancel_step ev co) = Some src"
  by (cases ev)
    (auto simp: signal_fires_eq select_source coordinator_inv_def split: option.splits)

lemma source_kept: "co_source co = Some src \<Longrightarrow> coordinator_inv co \<Longrightarrow>
   co_source (cancel_events evs co) = Some src"
  unfolding cancel_events_def
  by (induction evs arbitrary: co) (auto simp: source_kept_event inv_event)

text \<open>A cancellation is selected once. Whatever signals fire and whatever is called, in any
  order, \<open>onCancel\<close> has run at most once, with the source that the coordinator reports; the source
  never changes again, the provider is aborted with it and no listener is left. If an input had
  already fired when the coordinator was created, the source is the first in the precedence.\<close>

theorem cancellation_selected_once:
  "let co = cancel_events evs (createCancellationCoordinator inputs aborted)
   in (case co_source co of
         None \<Rightarrow> co_log co = []
       | Some src \<Rightarrow> co_log co = [src] \<and> co_aborted co \<and> co_listening co = [] \<and>
           co_source (cancel_events evs2 co) = Some src)
     \<and> (case pre_aborted inputs aborted of None \<Rightarrow> True | Some src \<Rightarrow> co_source co = Some src)"
proof -
  let ?c0 = "createCancellationCoordinator inputs aborted"
  have i: "coordinator_inv (cancel_events evs ?c0)" by (simp add: inv_events inv_create)
  have "pre_aborted inputs aborted = Some src \<Longrightarrow> co_source (cancel_events evs ?c0) = Some src" for src
    by (rule source_kept [OF _ inv_create])
      (simp add: createCancellationCoordinator_def Let_def select_cancel_def)
  then show ?thesis
    using i source_kept [OF _ i] by (auto simp: Let_def coordinator_inv_def split: option.split)
qed

end
