(* ===== verification/StreamRunner.thy ===== *)
theory StreamRunner
  imports StreamOutcome StreamDeadlines StreamCancellation
begin

text \<open>
  The lifecycle runner, \<open>agent/streaming/lifecycle/runner.ts\<close>, as a state machine. The async
  generator \<open>consume\<close> runs without interruption between its suspension points: the \<open>await\<close> of
  the race (\<open>PcRacing\<close>) and each \<open>yield\<close> (\<open>PcSuspended\<close> with what is left to do). One function
  runs each stretch. The step relation \<open>runner_step\<close> interleaves them with what happens outside:
  the clock advances, the provider's read settles, a cancellation signal fires, the attempt timer
  fires, the consumer asks for the next frame or stops. The head of the loop (\<open>PcLoop\<close>) is a step
  of its own so that a throwing \<open>next\<close> is a choice; the interleavings this adds only make the
  theorems stronger.

  The provider adapter, the diagnostic policy and the error classifiers are the record
  \<open>stream_env\<close>. Observers are left out: the code runs them fail-open, without effect.
\<close>

record 'p stream_env =
  se_codec :: json_codec
  se_errors :: error_env
  se_policy :: lifecycle_policy
  se_decode :: "'p \<Rightarrow> stream_snapshot \<Rightarrow> thrown + stream_signal list"
  se_classify :: "thrown \<Rightarrow> stream_snapshot \<Rightarrow> provider_error option"
  se_accept :: "string \<Rightarrow> jsval \<Rightarrow> (string \<times> (string \<times> jsval) list) option"

datatype 'p read_result = ReadPart 'p | ReadDone | ReadError thrown

text \<open>What is left when the generator is suspended at a \<open>yield\<close>.\<close>

datatype after_yield =
    AfterStatus "string list"
  | AfterDeadline "lifecycle_frame list"
  | AfterDiagnostic "stream_signal list"
  | AfterFrame "lifecycle_frame list" bool "stream_signal list"

datatype runner_pc = PcInit | PcLoop | PcRacing | PcSuspended after_yield | PcDone

record 'p runner =
  rn_reducer :: reducer_state
  rn_outcome :: "stream_outcome option"
  rn_deadlines :: deadline_state
  rn_cancel :: coordinator
  rn_read :: "'p read_result provider_read option"
  rn_start :: "int option"
  rn_lastProgress :: "int option"
  rn_cleanup :: bool
  rn_returning :: bool
  rn_log :: "lifecycle_frame list"
  rn_pc :: runner_pc

definition no_coordinator :: coordinator where
  "no_coordinator = \<lparr>co_source = None, co_aborted = False, co_listening = [], co_log = []\<rparr>"

definition initial_runner :: "'p runner" where
  "initial_runner =
     \<lparr>rn_reducer = createInitialReducerState, rn_outcome = None,
      rn_deadlines = createStreamDeadlineController, rn_cancel = no_coordinator, rn_read = None,
      rn_start = None, rn_lastProgress = None, rn_cleanup = False, rn_returning = False,
      rn_log = [], rn_pc = PcInit\<rparr>"

subsection \<open>Settling the outcome\<close>

definition elapsed_ms :: "int \<Rightarrow> 'p runner \<Rightarrow> int" where
  "elapsed_ms now r = (case rn_start r of None \<Rightarrow> 0 | Some t \<Rightarrow> max 0 (now - t))"

definition settle :: "stream_outcome \<Rightarrow> 'p runner \<Rightarrow> 'p runner" where
  "settle out r = (if rn_outcome r = None then r\<lparr>rn_outcome := Some out\<rparr> else r)"

definition terminateReducer :: "stream_phase \<Rightarrow> reducer_state \<Rightarrow> reducer_state" where
  "terminateReducer p s = upd_snapshot (\<lambda>n. n\<lparr>sn_phase := p\<rparr>) (s\<lparr>rs_terminal := True\<rparr>)"

definition plain_input :: "stream_snapshot \<Rightarrow> int \<Rightarrow> outcome_input" where
  "plain_input n e =
     \<lparr>oi_snapshot = n, oi_elapsed = e, oi_cancellation = None, oi_lifecycleError = None,
      oi_thrown = None, oi_providerError = None\<rparr>"

definition settleCancelled :: "'p stream_env \<Rightarrow> cancellation_source \<Rightarrow> int \<Rightarrow> 'p runner \<Rightarrow> 'p runner" where
  "settleCancelled env src now r =
     (if rn_outcome r \<noteq> None then r
      else settle (resolveStreamOutcome (se_errors env)
              ((plain_input (rs_snapshot (rn_reducer r)) (elapsed_ms now r))\<lparr>oi_cancellation := Some src\<rparr>))
            (r\<lparr>rn_reducer := terminateReducer Cancelled (rn_reducer r)\<rparr>))"

text \<open>Settle a lifecycle error and take over the failed snapshot.\<close>

definition settle_lifecycle_error :: "'p stream_env \<Rightarrow> lifecycle_error \<Rightarrow> int \<Rightarrow> 'p runner \<Rightarrow> 'p runner" where
  "settle_lifecycle_error env err now r =
     (let failed = resolveStreamOutcome (se_errors env)
            ((plain_input (rs_snapshot (rn_reducer r)) (elapsed_ms now r))\<lparr>oi_lifecycleError := Some err\<rparr>)
      in settle failed (r\<lparr>rn_reducer := (rn_reducer r)\<lparr>rs_terminal := True,
           rs_snapshot := ob_snapshot (outcome_base_of failed)\<rparr>\<rparr>))"

definition cleanup :: "'p runner \<Rightarrow> 'p runner" where
  "cleanup r = r\<lparr>rn_cleanup := True\<rparr>"

definition abort_provider :: "'p runner \<Rightarrow> 'p runner" where
  "abort_provider r = r\<lparr>rn_cancel := cancel_step AbortProvider (rn_cancel r)\<rparr>"

definition attempt_timeout_error :: "stream_phase \<Rightarrow> lifecycle_error" where
  "attempt_timeout_error p =
     \<lparr>le_code = StreamAttemptTimeout, le_phase = p, le_source = ERuntime, le_retryable = True,
      le_publicMessage = ''Stream attempt exceeded its time limit'', le_providerCode = None,
      le_diagnosticId = None\<rparr>"

definition settleAttemptTimeout :: "'p stream_env \<Rightarrow> int \<Rightarrow> 'p runner \<Rightarrow> 'p runner" where
  "settleAttemptTimeout env now r =
     (if rn_outcome r \<noteq> None then r
      else cleanup (abort_provider (settle_lifecycle_error env
             (attempt_timeout_error (sn_phase (rs_snapshot (rn_reducer r)))) now r)))"

definition settleProviderFailure :: "'p stream_env \<Rightarrow> thrown \<Rightarrow> provider_error \<Rightarrow> int \<Rightarrow> 'p runner \<Rightarrow> 'p runner" where
  "settleProviderFailure env err pe now r =
     settle (resolveStreamOutcome (se_errors env)
        ((plain_input (rs_snapshot (rn_reducer r)) (elapsed_ms now r))
          \<lparr>oi_thrown := (if err = ThrownValue JUndef then None else Some err),
           oi_providerError := Some pe\<rparr>)) r"

definition classifyProviderFailure :: "'p stream_env \<Rightarrow> thrown \<Rightarrow> stream_snapshot \<Rightarrow> provider_error" where
  "classifyProviderFailure env err n =
     (case se_classify env err n of
        Some pe \<Rightarrow> pe
      | None \<Rightarrow> \<lparr>pe_code = ''PROVIDER_STREAM_ERROR'', pe_publicMessage = ''Provider stream failed'',
                  pe_retryable = True, pe_terminal = False, pe_diagnosticId = None\<rparr>)"

text \<open>The \<open>finally\<close> block. The generator has returned.\<close>

definition finish :: "'p stream_env \<Rightarrow> int \<Rightarrow> 'p runner \<Rightarrow> 'p runner" where
  "finish env now r =
     (let r1 = cleanup (settleCancelled env CConsumerStopped now r)
      in r1\<lparr>rn_deadlines := dispose_deadlines (rn_deadlines r1),
            rn_cancel := cancel_step DisposeCoordinator (rn_cancel r1), rn_pc := PcDone\<rparr>)"

definition provider_failed :: "'p stream_env \<Rightarrow> thrown \<Rightarrow> int \<Rightarrow> 'p runner \<Rightarrow> 'p runner" where
  "provider_failed env err now r =
     finish env now (settleProviderFailure env err
       (classifyProviderFailure env err (rs_snapshot (rn_reducer r))) now r)"

text \<open>A frame is yielded; a consumer that already asked to return ends the generator there.\<close>

definition yield_frame :: "'p stream_env \<Rightarrow> int \<Rightarrow> lifecycle_frame \<Rightarrow> after_yield \<Rightarrow> 'p runner \<Rightarrow> 'p runner" where
  "yield_frame env now f k r =
     (let r1 = r\<lparr>rn_log := rn_log r @ [f]\<rparr>
      in if rn_returning r1 then finish env now r1 else r1\<lparr>rn_pc := PcSuspended k\<rparr>)"

definition sequence_frame :: "frame_body \<Rightarrow> int \<Rightarrow> 'p runner \<Rightarrow> lifecycle_frame \<times> 'p runner" where
  "sequence_frame b now r =
     (let q = Suc (rs_sequence (rn_reducer r))
      in (\<lparr>fr_sequence = q, fr_elapsed = elapsed_ms now r, fr_body = b\<rparr>,
          r\<lparr>rn_reducer := (rn_reducer r)\<lparr>rs_sequence := q\<rparr>\<rparr>))"

subsection \<open>The stretches between suspension points\<close>

text \<open>The loop over the tools whose status is due.\<close>

fun run_status :: "'p stream_env \<Rightarrow> int \<Rightarrow> string list \<Rightarrow> 'p runner \<Rightarrow> 'p runner" where
  "run_status env now [] r = r\<lparr>rn_pc := PcLoop\<rparr>"
| "run_status env now (i # ids) r =
     (if rn_outcome r \<noteq> None then finish env now r
      else case find (\<lambda>t. tl_id t = i) (sn_tools (rs_snapshot (rn_reducer r))) of
        None \<Rightarrow> run_status env now ids r
      | Some t \<Rightarrow>
          if \<not> input_pending t then run_status env now ids r
          else (let (f, r1) = sequence_frame (Telemetry (TelToolInputStatus i (Some (tl_name t))
                    (if tl_phase t = InputStreaming then StreamingInput else PendingInput))) now r
                in yield_frame env now f (AfterStatus ids) r1))"

text \<open>The frames of a resolved deadline, then the end of the attempt.\<close>

fun run_deadline_frames :: "'p stream_env \<Rightarrow> int \<Rightarrow> lifecycle_frame list \<Rightarrow> 'p runner \<Rightarrow> 'p runner" where
  "run_deadline_frames env now [] r = finish env now (cleanup (abort_provider r))"
| "run_deadline_frames env now (f # fs) r = yield_frame env now f (AfterDeadline fs) r"

definition tool_deadline_error :: "lifecycle_error_code \<Rightarrow> stream_phase \<Rightarrow> lifecycle_error" where
  "tool_deadline_error code p =
     \<lparr>le_code = code, le_phase = p, le_source = ETool, le_retryable = False,
      le_publicMessage = (if code = ToolInputTimeout
        then ''Tool input did not arrive before the deadline''
        else ''Tool input ended before a valid object was complete''),
      le_providerCode = None, le_diagnosticId = None\<rparr>"

definition provider_deadline_error :: "deadline_kind \<Rightarrow> stream_phase \<Rightarrow> lifecycle_error" where
  "provider_deadline_error k p =
     \<lparr>le_code = (if k = ToolInputIdle then ToolInputTimeout
                else if k = FirstProgress then FirstProgressTimeout else SemanticIdleTimeout),
      le_phase = p, le_source = EProvider, le_retryable = True,
      le_publicMessage =
        (if k = ToolInputIdle then ''Provider did not finish tool input before the deadline''
         else if k = FirstProgress then ''Provider did not produce semantic progress''
         else ''Provider stopped producing semantic progress''),
      le_providerCode = None, le_diagnosticId = None\<rparr>"

definition on_provider_deadline :: "'p stream_env \<Rightarrow> int \<Rightarrow> deadline_kind \<Rightarrow> 'p runner \<Rightarrow> 'p runner" where
  "on_provider_deadline env now k r =
     (let phase = (\<lambda>q. sn_phase (rs_snapshot (rn_reducer q)))
      in if \<not> po_requireProviderFinish (se_policy env) \<and> (k = ToolInputIdle \<or> k = ToolCommitGrace)
         then (case resolveLocalToolDeadline (se_codec env) (rn_reducer r) (elapsed_ms now r) of
             DHandoff red \<Rightarrow>
               (let r1 = r\<lparr>rn_reducer := rd_state red\<rparr>;
                    r2 = settle (settleReducerTerminal (se_errors env) (rn_reducer r1) (elapsed_ms now r1)) r1
                in run_deadline_frames env now (rd_frames red) r2)
           | DFailed red code \<Rightarrow>
               (let r1 = r\<lparr>rn_reducer := rd_state red\<rparr>
                in run_deadline_frames env now (rd_frames red)
                     (settle_lifecycle_error env (tool_deadline_error code (phase r1)) now r1)))
         else run_deadline_frames env now []
                (settle_lifecycle_error env (provider_deadline_error k (phase r)) now r))"

text \<open>A reduced signal: the new reducer state, progress noted for the deadlines, and the outcome
  settled when the reducer has ended the attempt.\<close>

definition take_reduction :: "'p stream_env \<Rightarrow> int \<Rightarrow> reduction \<Rightarrow> 'p runner \<Rightarrow> 'p runner" where
  "take_reduction env now red r =
     (let r1 = r\<lparr>rn_reducer := rd_state red\<rparr>;
          r2 = (if rd_progress red
                then r1\<lparr>rn_deadlines := noteSemanticProgress (se_policy env) now
                           (rs_snapshot (rd_state red)) (rn_deadlines r1),
                        rn_lastProgress := Some now\<rparr>
                else r1)
      in if rs_terminal (rn_reducer r2)
         then settle (settleReducerTerminal (se_errors env) (rn_reducer r2) (elapsed_ms now r2)) r2
         else r2)"

text \<open>The loop over the signals of a part, up to the next \<open>yield\<close>.\<close>

fun run_signals :: "'p stream_env \<Rightarrow> int \<Rightarrow> stream_signal list \<Rightarrow> 'p runner \<Rightarrow> 'p runner" where
  "run_signals env now [] r = r\<lparr>rn_pc := PcLoop\<rparr>"
| "run_signals env now (SigDiagnosticCandidate code v # sigs) r =
     (case se_accept env code v of
        None \<Rightarrow> run_signals env now sigs r
      | Some (c, attrs) \<Rightarrow>
          if rn_outcome r \<noteq> None then finish env now r
          else (let (f, r1) = sequence_frame (Diagnostic (DiagProvider c attrs)) now r
                in yield_frame env now f (AfterDiagnostic sigs) r1))"
| "run_signals env now (SigProviderError pe # sigs) r =
     finish env now (settleProviderFailure env (ThrownValue JUndef) pe now r)"
| "run_signals env now (sig # sigs) r =
     (case reduceStreamSignal (se_codec env) (rn_reducer r) sig (elapsed_ms now r)
             (po_requireProviderFinish (se_policy env)) of
        Inl _ \<Rightarrow> finish env now r
      | Inr red \<Rightarrow>
          (let r1 = take_reduction env now red r; committed = rs_terminal (rd_state red)
           in case rd_frames red of
                [] \<Rightarrow> if committed then finish env now r1 else run_signals env now sigs r1
              | f # fs \<Rightarrow>
                  if \<not> committed \<and> rn_outcome r1 \<noteq> None then finish env now r1
                  else yield_frame env now f (AfterFrame fs committed sigs) r1))"

fun run_frames :: "'p stream_env \<Rightarrow> int \<Rightarrow> lifecycle_frame list \<Rightarrow> bool \<Rightarrow> stream_signal list \<Rightarrow>
    'p runner \<Rightarrow> 'p runner" where
  "run_frames env now [] committed sigs r =
     (if rs_terminal (rn_reducer r) then finish env now r else run_signals env now sigs r)"
| "run_frames env now (f # fs) committed sigs r =
     (if \<not> committed \<and> rn_outcome r \<noteq> None then finish env now r
      else yield_frame env now f (AfterFrame fs committed sigs) r)"

text \<open>After a \<open>yield\<close>: the consumer asked for the next frame.\<close>

fun resume_yield :: "'p stream_env \<Rightarrow> int \<Rightarrow> after_yield \<Rightarrow> 'p runner \<Rightarrow> 'p runner" where
  "resume_yield env now (AfterStatus ids) r =
     (if rn_outcome r \<noteq> None then finish env now r else run_status env now ids r)"
| "resume_yield env now (AfterDeadline fs) r = run_deadline_frames env now fs r"
| "resume_yield env now (AfterDiagnostic sigs) r =
     (if rn_outcome r \<noteq> None then finish env now r else run_signals env now sigs r)"
| "resume_yield env now (AfterFrame fs committed sigs) r =
     (if \<not> committed \<and> rn_outcome r \<noteq> None then finish env now r
      else run_frames env now fs committed sigs r)"

definition unfinished_error :: "'p stream_env \<Rightarrow> provider_error" where
  "unfinished_error env =
     \<lparr>pe_code = ''PROVIDER_STREAM_ERROR'',
      pe_publicMessage = (if po_streamRequiresFinish (se_policy env)
        then ''Provider stream ended before required finish''
        else ''Provider stream ended before required tool continuation metadata''),
      pe_retryable = True, pe_terminal = False, pe_diagnosticId = None\<rparr>"

definition on_stream_end :: "'p stream_env \<Rightarrow> int \<Rightarrow> 'p runner \<Rightarrow> 'p runner" where
  "on_stream_end env now r =
     (let s = rn_reducer r; e = elapsed_ms now r
      in finish env now
        (if rs_terminal s then settle (settleReducerTerminal (se_errors env) s e) r
         else if po_streamRequiresFinish (se_policy env) \<or>
                 (po_requireProviderFinish (se_policy env) \<and>
                  (\<exists>t \<in> set (sn_tools (rs_snapshot s)). is_local t \<and> tl_phase t = InputReady))
         then settleProviderFailure env (ThrownValue JUndef) (unfinished_error env) now r
         else settle (resolveStreamOutcome (se_errors env) (plain_input (rs_snapshot s) e)) r))"

definition on_part :: "'p stream_env \<Rightarrow> int \<Rightarrow> 'p \<Rightarrow> 'p runner \<Rightarrow> 'p runner" where
  "on_part env now p r =
     (case se_decode env p (rs_snapshot (rn_reducer r)) of
        Inl err \<Rightarrow> provider_failed env err now r
      | Inr sigs \<Rightarrow> run_signals env now sigs r)"

text \<open>What the race decided, after the wait is paused.\<close>

fun on_race :: "'p stream_env \<Rightarrow> int \<Rightarrow> 'p read_result race_result \<Rightarrow> 'p runner \<Rightarrow> 'p runner" where
  "on_race env now (RaceStatus ids) r = run_status env now ids r"
| "on_race env now (RaceDeadline k) r = on_provider_deadline env now k r"
| "on_race env now RaceAttemptTimeout r = finish env now (settleAttemptTimeout env now r)"
| "on_race env now RaceCancelled r = finish env now r"
| "on_race env now (RaceRead (ReadError err)) r = provider_failed env err now r"
| "on_race env now (RaceRead ReadDone) r = on_stream_end env now (r\<lparr>rn_read := None\<rparr>)"
| "on_race env now (RaceRead (ReadPart p)) r = on_part env now p (r\<lparr>rn_read := None\<rparr>)"
| "on_race env now (RaceSleep _) r = r"

definition attempt_deadline :: "'p stream_env \<Rightarrow> 'p runner \<Rightarrow> int" where
  "attempt_deadline env r = the (rn_start r) + po_attemptTimeoutMs (se_policy env)"

text \<open>The generator wakes from the race and decides; it sleeps on or leaves the race.\<close>

definition poll_race :: "'p stream_env \<Rightarrow> int \<Rightarrow> 'p runner \<Rightarrow> 'p runner" where
  "poll_race env now r =
     (case race_poll (attempt_deadline env r) (co_aborted (rn_cancel r)) now (the (rn_read r)) (rn_deadlines r) of
        (RaceSleep _, d) \<Rightarrow> r\<lparr>rn_deadlines := d\<rparr>
      | (res, d) \<Rightarrow> on_race env now res (r\<lparr>rn_deadlines := pauseProviderWait now d\<rparr>))"

text \<open>The head of the loop: a settled outcome ends it; otherwise a read is pending or started
  (\<open>next\<close> may throw) and the wait resumes.\<close>

definition loop_head :: "'p stream_env \<Rightarrow> int \<Rightarrow> thrown option \<Rightarrow> 'p runner \<Rightarrow> 'p runner" where
  "loop_head env now nextThrows r =
     (if rn_outcome r \<noteq> None then finish env now r
      else case (rn_read r, nextThrows) of
        (None, Some err) \<Rightarrow> provider_failed env err now r
      | _ \<Rightarrow> r\<lparr>rn_read := Some (case rn_read r of None \<Rightarrow> ReadPending | Some rd \<Rightarrow> rd),
               rn_deadlines := resumeProviderWait (se_policy env) now (rs_snapshot (rn_reducer r)) (rn_deadlines r),
               rn_pc := PcRacing\<rparr>)"

text \<open>The coordinator changes; a newly selected source settles the outcome as cancelled.\<close>

definition coordinate :: "'p stream_env \<Rightarrow> int \<Rightarrow> coordinator \<Rightarrow> 'p runner \<Rightarrow> 'p runner" where
  "coordinate env now co r =
     (case (co_source (rn_cancel r), co_source co) of
        (None, Some src) \<Rightarrow> settleCancelled env src now (r\<lparr>rn_cancel := co\<rparr>)
      | _ \<Rightarrow> r\<lparr>rn_cancel := co\<rparr>)"

definition start_run :: "'p stream_env \<Rightarrow> int \<Rightarrow> coordinator \<Rightarrow> thrown option \<Rightarrow> 'p runner \<Rightarrow> 'p runner" where
  "start_run env now co openThrows r =
     (let r1 = coordinate env now co (r\<lparr>rn_start := Some now\<rparr>)
      in if co_source co \<noteq> None then finish env now r1
         else case openThrows of
           Some err \<Rightarrow> provider_failed env err now r1
         | None \<Rightarrow> r1\<lparr>rn_pc := PcLoop\<rparr>)"

text \<open>The consumer stops: \<open>return\<close> and \<open>throw\<close> of the frames' iterator.\<close>

definition consumer_stops :: "'p stream_env \<Rightarrow> int \<Rightarrow> 'p runner \<Rightarrow> 'p runner" where
  "consumer_stops env now r =
     (let r1 = settleCancelled env CConsumerStopped now r
      in case rn_pc r of
        PcInit \<Rightarrow> r1\<lparr>rn_pc := PcDone\<rparr>
      | _ \<Rightarrow>
        (let r2 = coordinate env now (cancel_step StopConsumer (rn_cancel r1)) r1
         in case rn_pc r of
           PcSuspended _ \<Rightarrow> finish env now r2
         | PcDone \<Rightarrow> r2
         | _ \<Rightarrow> r2\<lparr>rn_returning := True\<rparr>))"

inductive runner_step :: "'p stream_env \<Rightarrow> int \<times> 'p runner \<Rightarrow> int \<times> 'p runner \<Rightarrow> bool"
  for env :: "'p stream_env" where
  clock: "t \<le> t' \<Longrightarrow> runner_step env (t, r) (t', r)"
| start: "rn_pc r = PcInit \<Longrightarrow> co = createCancellationCoordinator inputs fired \<Longrightarrow>
    runner_step env (t, r) (t, start_run env t co openThrows r)"
| head: "rn_pc r = PcLoop \<Longrightarrow> runner_step env (t, r) (t, loop_head env t nextThrows r)"
| read: "rn_read r = Some ReadPending \<Longrightarrow>
    runner_step env (t, r) (t, r\<lparr>rn_read := Some (ReadSettled t res)\<rparr>)"
| poll: "rn_pc r = PcRacing \<Longrightarrow> runner_step env (t, r) (t, poll_race env t r)"
| pull: "rn_pc r = PcSuspended k \<Longrightarrow> runner_step env (t, r) (t, resume_yield env t k r)"
| signal: "rn_pc r \<noteq> PcInit \<Longrightarrow> rn_pc r \<noteq> PcDone \<Longrightarrow>
    runner_step env (t, r) (t, coordinate env t (cancel_step (SignalFires i) (rn_cancel r)) r)"
| timer: "rn_pc r \<noteq> PcInit \<Longrightarrow> rn_pc r \<noteq> PcDone \<Longrightarrow> attempt_deadline env r \<le> t \<Longrightarrow>
    runner_step env (t, r) (t, settleAttemptTimeout env t r)"
| stop: "runner_step env (t, r) (t, consumer_stops env t r)"

abbreviation runner_reaches :: "'p stream_env \<Rightarrow> int \<Rightarrow> int \<times> 'p runner \<Rightarrow> bool" where
  "runner_reaches env t0 x \<equiv> (runner_step env)\<^sup>*\<^sup>* (t0, initial_runner) x"

end
