(* ===== verification/StreamRunnerSafety.thy ===== *)
theory StreamRunnerSafety
  imports StreamRunner
begin

text \<open>
  What every run of the lifecycle runner keeps, over all interleavings of its step relation: the
  outcome settles once, a returned generator has an outcome, the frames a consumer sees form one
  well-formed stream, and nothing is yielded after a cancellation.
\<close>

subsection \<open>The outcome settles once\<close>

named_theorems outcome_kept \<open>functions that keep a settled outcome\<close>

lemma kept_settle [outcome_kept]: "rn_outcome r = Some x \<Longrightarrow> rn_outcome (settle out r) = Some x"
  by (simp add: settle_def)

lemma kept_settleCancelled [outcome_kept]:
  "rn_outcome r = Some x \<Longrightarrow> rn_outcome (settleCancelled env src now r) = Some x"
  by (simp add: settleCancelled_def)

lemma kept_lifecycle [outcome_kept]:
  "rn_outcome r = Some x \<Longrightarrow> rn_outcome (settle_lifecycle_error env err now r) = Some x"
  by (simp add: settle_lifecycle_error_def settle_def Let_def)

lemma kept_simple [outcome_kept]:
  "rn_outcome r = Some x \<Longrightarrow> rn_outcome (cleanup r) = Some x"
  "rn_outcome r = Some x \<Longrightarrow> rn_outcome (abort_provider r) = Some x"
  "rn_outcome r = Some x \<Longrightarrow> rn_outcome (settleAttemptTimeout env now r) = Some x"
  "rn_outcome r = Some x \<Longrightarrow> rn_outcome (settleProviderFailure env err pe now r) = Some x"
  by (simp_all add: cleanup_def abort_provider_def settleAttemptTimeout_def
      settleProviderFailure_def settle_def)

lemma kept_finish [outcome_kept]:
  "rn_outcome r = Some x \<Longrightarrow> rn_outcome (finish env now r) = Some x"
  by (simp add: finish_def Let_def cleanup_def settleCancelled_def)

lemma kept_failed [outcome_kept]:
  "rn_outcome r = Some x \<Longrightarrow> rn_outcome (provider_failed env err now r) = Some x"
  by (simp add: provider_failed_def outcome_kept)

lemma kept_yield [outcome_kept]:
  "rn_outcome r = Some x \<Longrightarrow> rn_outcome (yield_frame env now f k r) = Some x"
  by (simp add: yield_frame_def Let_def outcome_kept)

lemma kept_status [outcome_kept]:
  "rn_outcome r = Some x \<Longrightarrow> rn_outcome (run_status env now ids r) = Some x"
  by (cases ids) (simp_all add: outcome_kept)

lemma kept_deadline_frames [outcome_kept]:
  "rn_outcome r = Some x \<Longrightarrow> rn_outcome (run_deadline_frames env now fs r) = Some x"
  by (cases fs) (simp_all add: outcome_kept)

lemma kept_deadline [outcome_kept]:
  "rn_outcome r = Some x \<Longrightarrow> rn_outcome (on_provider_deadline env now k r) = Some x"
  by (simp add: on_provider_deadline_def Let_def outcome_kept split: deadline_resolution.split)

lemma kept_reduction [outcome_kept]:
  "rn_outcome r = Some x \<Longrightarrow> rn_outcome (take_reduction env now red r) = Some x"
  by (simp add: take_reduction_def Let_def settle_def)

lemma kept_sequence [outcome_kept]:
  "rn_outcome r = Some x \<Longrightarrow> rn_outcome (snd (sequence_frame b now r)) = Some x"
  by (simp add: sequence_frame_def Let_def)

lemma kept_signals [outcome_kept]:
  "rn_outcome r = Some x \<Longrightarrow> rn_outcome (run_signals env now sigs r) = Some x"
proof (induction sigs arbitrary: r)
  case (Cons sig sigs)
  then show ?case
    by (cases sig) (auto simp: outcome_kept Let_def split: option.split sum.split list.split)
qed simp

lemma kept_frames [outcome_kept]:
  "rn_outcome r = Some x \<Longrightarrow> rn_outcome (run_frames env now fs committed sigs r) = Some x"
  by (cases fs) (simp_all add: outcome_kept)

lemma kept_resume [outcome_kept]:
  "rn_outcome r = Some x \<Longrightarrow> rn_outcome (resume_yield env now k r) = Some x"
  by (cases k) (simp_all add: outcome_kept)

lemma kept_race [outcome_kept]:
  "rn_outcome r = Some x \<Longrightarrow> rn_outcome (on_race env now res r) = Some x"
  by (cases "(env, now, res, r)" rule: on_race.cases)
    (auto simp: outcome_kept on_stream_end_def on_part_def Let_def split: sum.split)

lemma kept_poll [outcome_kept]:
  "rn_outcome r = Some x \<Longrightarrow> rn_outcome (poll_race env now r) = Some x"
  by (auto simp: poll_race_def outcome_kept split: prod.split race_result.split)

lemma kept_head [outcome_kept]:
  "rn_outcome r = Some x \<Longrightarrow> rn_outcome (loop_head env now nt r) = Some x"
  by (simp add: loop_head_def outcome_kept)

lemma kept_coordinate [outcome_kept]:
  "rn_outcome r = Some x \<Longrightarrow> rn_outcome (coordinate env now co r) = Some x"
  by (simp add: coordinate_def outcome_kept split: option.split)

lemma kept_start [outcome_kept]:
  "rn_outcome r = Some x \<Longrightarrow> rn_outcome (start_run env now co op r) = Some x"
  by (simp add: start_run_def Let_def outcome_kept split: option.split)

lemma kept_stop [outcome_kept]:
  "rn_outcome r = Some x \<Longrightarrow> rn_outcome (consumer_stops env now r) = Some x"
  by (simp add: consumer_stops_def Let_def outcome_kept split: runner_pc.split)

lemma kept_step: "runner_step env (t, r) (t', r') \<Longrightarrow> rn_outcome r = Some x \<Longrightarrow> rn_outcome r' = Some x"
  by (cases rule: runner_step.cases) (auto simp: outcome_kept)

text \<open>The outcome settles once. Whatever happens after an attempt's outcome settled, in any
  interleaving of reads, timers, cancellations and consumer calls, the outcome stays the one it was.\<close>

theorem outcome_settles_once:
  "(runner_step env)\<^sup>*\<^sup>* (t, r) (t', r') \<Longrightarrow> rn_outcome r = Some x \<Longrightarrow> rn_outcome r' = Some x"
  by (induction "(t', r')" arbitrary: t' r' rule: rtranclp_induct) (auto intro: kept_step)

subsection \<open>The frames a consumer sees\<close>

definition observed :: "lifecycle_frame list \<Rightarrow> stream_view option" where
  "observed fs = observe_all (view createInitialReducerState) fs"

definition well_formed :: "lifecycle_frame list \<Rightarrow> bool" where
  "well_formed fs \<longleftrightarrow> observed fs \<noteq> None"

lemma observed_append: "observed (fs @ gs) = Option.bind (observed fs) (\<lambda>v. observe_all v gs)"
  by (simp add: observed_def observe_all_append)

lemma well_formed_prefix: "well_formed (fs @ gs) \<Longrightarrow> well_formed fs"
  by (auto simp: well_formed_def observed_append split: bind_splits)

text \<open>\<open>in_step F r\<close>: the yielded frames and then \<open>F\<close> lead to the view of the reducer state.\<close>

definition in_step :: "lifecycle_frame list \<Rightarrow> 'p runner \<Rightarrow> bool" where
  "in_step F r \<longleftrightarrow> observed (rn_log r @ F) = Some (view (rn_reducer r)) \<and> one_segment (rn_reducer r)"

definition is_cancelled :: "'p runner \<Rightarrow> bool" where
  "is_cancelled r \<longleftrightarrow> (\<exists>b src m. rn_outcome r = Some (OCancelled b src m))"

definition ended :: "'p runner \<Rightarrow> bool" where
  "ended r \<longleftrightarrow> rn_outcome r \<noteq> None \<and> \<not> is_cancelled r"

definition pc_ok :: "'p runner \<Rightarrow> bool" where
  "pc_ok r \<longleftrightarrow> (case rn_pc r of
       PcDone \<Rightarrow> well_formed (rn_log r) \<and> rn_outcome r \<noteq> None
     | PcInit \<Rightarrow> in_step [] r \<and> rn_outcome r = None
     | PcSuspended (AfterDeadline fs) \<Rightarrow> well_formed (rn_log r @ fs) \<and> ended r
     | PcSuspended (AfterFrame fs committed sigs) \<Rightarrow> in_step fs r \<and> (committed \<longrightarrow> ended r)
     | _ \<Rightarrow> in_step [] r)"

definition abort_ok :: "'p runner \<Rightarrow> bool" where
  "abort_ok r \<longleftrightarrow> coordinator_inv (rn_cancel r) \<and>
     (is_cancelled r \<longrightarrow> co_aborted (rn_cancel r) \<or> rn_pc r = PcDone)"

definition runner_inv :: "'p runner \<Rightarrow> bool" where
  "runner_inv r \<longleftrightarrow> pc_ok r \<and> abort_ok r"

lemma in_step_well_formed: "in_step F r \<Longrightarrow> well_formed (rn_log r @ F)"
  by (simp add: in_step_def well_formed_def)

lemma in_step_log: "in_step F r \<Longrightarrow> well_formed (rn_log r)"
  using in_step_well_formed well_formed_prefix by blast

text \<open>What the functions that settle leave alone.\<close>

lemma resolve_phase_only:
  "view (s\<lparr>rs_terminal := b, rs_snapshot := ob_snapshot (outcome_base_of (resolveStreamOutcome env i))\<rparr>) = view s
   \<and> one_segment (s\<lparr>rs_terminal := b, rs_snapshot := ob_snapshot (outcome_base_of (resolveStreamOutcome env i))\<rparr>) = one_segment s"
  if "oi_snapshot i = rs_snapshot s"
  using that
  by (cases rule: resolve_cases [where i = i and env = env])
    (simp_all add: resolve_simps failure_defs with_phase_def Let_def view_def one_segment_def)

lemma settle_fields [simp]:
  "rn_log (settle out r) = rn_log r" "rn_reducer (settle out r) = rn_reducer r"
  "rn_cancel (settle out r) = rn_cancel r" "rn_pc (settle out r) = rn_pc r"
  "rn_returning (settle out r) = rn_returning r"
  by (simp_all add: settle_def)

lemma terminate_fields [simp]:
  "view (terminateReducer p s) = view s" "one_segment (terminateReducer p s) = one_segment s"
  by (simp_all add: terminateReducer_def upd_snapshot_def view_def one_segment_def)

lemma settleCancelled_fields [simp]:
  "rn_log (settleCancelled env src now r) = rn_log r"
  "rn_cancel (settleCancelled env src now r) = rn_cancel r"
  "rn_pc (settleCancelled env src now r) = rn_pc r"
  "rn_returning (settleCancelled env src now r) = rn_returning r"
  "view (rn_reducer (settleCancelled env src now r)) = view (rn_reducer r)"
  "one_segment (rn_reducer (settleCancelled env src now r)) = one_segment (rn_reducer r)"
  "rn_outcome (settleCancelled env src now r) \<noteq> None"
  by (auto simp: settleCancelled_def terminateReducer_def upd_snapshot_def view_def one_segment_def)
    (auto simp: settle_def)

lemma lifecycle_fields [simp]:
  "rn_log (settle_lifecycle_error env err now r) = rn_log r"
  "rn_cancel (settle_lifecycle_error env err now r) = rn_cancel r"
  "rn_pc (settle_lifecycle_error env err now r) = rn_pc r"
  "view (rn_reducer (settle_lifecycle_error env err now r)) = view (rn_reducer r)"
  "one_segment (rn_reducer (settle_lifecycle_error env err now r)) = one_segment (rn_reducer r)"
  by (simp_all add: settle_lifecycle_error_def Let_def resolve_phase_only plain_input_def)

lemma simple_fields [simp]:
  "rn_log (cleanup r) = rn_log r" "rn_cancel (cleanup r) = rn_cancel r" "rn_pc (cleanup r) = rn_pc r"
  "rn_reducer (cleanup r) = rn_reducer r" "rn_outcome (cleanup r) = rn_outcome r"
  "rn_log (abort_provider r) = rn_log r" "rn_pc (abort_provider r) = rn_pc r"
  "rn_reducer (abort_provider r) = rn_reducer r" "rn_outcome (abort_provider r) = rn_outcome r"
  "rn_cancel (abort_provider r) = cancel_step AbortProvider (rn_cancel r)"
  by (simp_all add: cleanup_def abort_provider_def)

lemma failure_fields [simp]:
  "rn_log (settleProviderFailure env err pe now r) = rn_log r"
  "rn_cancel (settleProviderFailure env err pe now r) = rn_cancel r"
  "rn_reducer (settleProviderFailure env err pe now r) = rn_reducer r"
  by (simp_all add: settleProviderFailure_def)

lemma timeout_fields [simp]:
  "rn_log (settleAttemptTimeout env now r) = rn_log r"
  "rn_pc (settleAttemptTimeout env now r) = rn_pc r"
  "view (rn_reducer (settleAttemptTimeout env now r)) = view (rn_reducer r)"
  "one_segment (rn_reducer (settleAttemptTimeout env now r)) = one_segment (rn_reducer r)"
  by (simp_all add: settleAttemptTimeout_def)

lemma not_cancelled_lifecycle:
  "is_cancelled (settle_lifecycle_error env err now r) = is_cancelled r"
  by (simp add: settle_lifecycle_error_def Let_def settle_def is_cancelled_def
      resolve_lifecycle_error plain_input_def)

lemma not_cancelled_terminal:
  "settleReducerTerminal env s e \<noteq> OCancelled b src m"
  by (cases rule: resolve_cases [where i = "plain_input (rs_snapshot s) e\<lparr>oi_lifecycleError := rs_terminalError s\<rparr>" and env = env])
    (auto simp: settleReducerTerminal_def plain_input_def resolve_simps failure_defs Let_def)

subsection \<open>Finishing and yielding\<close>

lemma finish_inv:
  "well_formed (rn_log r) \<Longrightarrow> coordinator_inv (rn_cancel r) \<Longrightarrow> runner_inv (finish env now r)"
  by (simp add: finish_def Let_def runner_inv_def pc_ok_def abort_ok_def inv_event
      del: cancel_step.simps)

lemma finish_done [simp]: "rn_pc (finish env now r) = PcDone"
  by (simp add: finish_def Let_def)

lemma finish_log [simp]: "rn_log (finish env now r) = rn_log r"
  by (simp add: finish_def Let_def)

text \<open>A function between suspension points may start when the frames are in step, the coordinator
  is sound and the attempt is not cancelled.\<close>

definition may_run :: "lifecycle_frame list \<Rightarrow> 'p runner \<Rightarrow> bool" where
  "may_run F r \<longleftrightarrow> in_step F r \<and> coordinator_inv (rn_cancel r) \<and> \<not> is_cancelled r"

lemma may_runD: "may_run F r \<Longrightarrow> well_formed (rn_log r) \<and> coordinator_inv (rn_cancel r)"
  using in_step_log by (auto simp: may_run_def)

lemma provider_failed_inv: "may_run F r \<Longrightarrow> runner_inv (provider_failed env err now r)"
  by (auto simp: provider_failed_def dest!: may_runD intro!: finish_inv)

lemma yield_cases:
  "runner_inv (finish env now (r\<lparr>rn_log := rn_log r @ [f]\<rparr>)) \<Longrightarrow>
   runner_inv (r\<lparr>rn_log := rn_log r @ [f], rn_pc := PcSuspended k\<rparr>) \<Longrightarrow>
   runner_inv (yield_frame env now f k r)"
  by (simp add: yield_frame_def Let_def)

lemma yield_inv:
  assumes "may_run (f # F) r" and "(case k of AfterDeadline fs \<Rightarrow> False
      | AfterFrame fs committed sigs \<Rightarrow> fs = F \<and> (committed \<longrightarrow> ended r) | _ \<Rightarrow> F = [])"
  shows "runner_inv (yield_frame env now f k r)"
proof (rule yield_cases)
  let ?r1 = "r\<lparr>rn_log := rn_log r @ [f]\<rparr>"
  have s: "in_step F ?r1" using assms(1) by (simp add: may_run_def in_step_def)
  have c: "coordinator_inv (rn_cancel ?r1)" "\<not> is_cancelled ?r1"
    using assms(1) by (simp_all add: may_run_def is_cancelled_def)
  show "runner_inv (finish env now ?r1)" by (rule finish_inv [OF in_step_log [OF s] c(1)])
  show "runner_inv (r\<lparr>rn_log := rn_log r @ [f], rn_pc := PcSuspended k\<rparr>)"
    using s c assms(2)
    by (cases k) (auto simp: runner_inv_def pc_ok_def abort_ok_def in_step_def is_cancelled_def ended_def)
qed

lemma yield_deadline_inv:
  assumes w: "well_formed (rn_log r @ f # fs)" and c: "coordinator_inv (rn_cancel r)" and e: "ended r"
  shows "runner_inv (yield_frame env now f (AfterDeadline fs) r)"
proof (rule yield_cases)
  have "well_formed (rn_log r @ [f])" using w well_formed_prefix [of "rn_log r @ [f]" fs] by simp
  then show "runner_inv (finish env now (r\<lparr>rn_log := rn_log r @ [f]\<rparr>))"
    using c by (intro finish_inv) simp_all
  show "runner_inv (r\<lparr>rn_log := rn_log r @ [f], rn_pc := PcSuspended (AfterDeadline fs)\<rparr>)"
    using w c e by (simp add: runner_inv_def pc_ok_def abort_ok_def is_cancelled_def ended_def)
qed

lemma sequence_in_step:
  assumes "may_run [] r" "silent b"
  shows "may_run [fst (sequence_frame b now r)] (snd (sequence_frame b now r))"
proof -
  have "rn_outcome (snd (sequence_frame b now r)) = rn_outcome r"
    by (simp add: sequence_frame_def Let_def)
  moreover have "tracks (view (rn_reducer r)) (emit (elapsed_ms now r) b (rn_reducer r, []))"
    using assms by (intro tracks_emit_silent) (simp_all add: may_run_def in_step_def tracks_start)
  ultimately show ?thesis
    using assms(1)
    by (simp add: may_run_def in_step_def sequence_frame_def Let_def tracks_def observed_append is_cancelled_def)
qed

subsection \<open>The stretches keep the invariant\<close>

lemma loop_inv: "may_run [] r \<Longrightarrow> runner_inv (r\<lparr>rn_pc := PcLoop\<rparr>)"
  by (simp add: may_run_def runner_inv_def pc_ok_def abort_ok_def in_step_def is_cancelled_def)

lemma finish_run: "may_run F r \<Longrightarrow> runner_inv (finish env now r)"
  using may_runD finish_inv by blast

lemma yield_silent:
  assumes "may_run [] r" "silent b" "k = AfterStatus ids \<or> k = AfterDiagnostic sigs"
  shows "runner_inv (yield_frame env now (fst (sequence_frame b now r)) k (snd (sequence_frame b now r)))"
  using yield_inv [OF sequence_in_step [OF assms(1,2)]] assms(3) by auto

lemma status_inv: "may_run [] r \<Longrightarrow> runner_inv (run_status env now ids r)"
proof (induction ids)
  case (Cons i ids)
  then show ?case
    by (auto simp: case_prod_beta Let_def finish_run intro!: yield_silent split: option.split)
qed (simp add: loop_inv)

lemma tracks_deadline_entry: "tracks v (fst x) \<Longrightarrow> tracks v (fst (deadline_entry c e it x))"
  by (cases "(c, e, it, x)" rule: deadline_entry.cases)
    (auto simp del: emit.simps simp: Let_def split: parse_result.splits intro!: track_intros silent_simps)

lemma tracks_deadline_fold: "tracks v (fst x) \<Longrightarrow> tracks v (fst (fold (deadline_entry c e) its x))"
  by (induction its arbitrary: x) (simp_all add: tracks_deadline_entry del: deadline_entry.simps)

definition resolution_frames :: "deadline_resolution \<Rightarrow> lifecycle_frame list" where
  "resolution_frames d = (case d of DHandoff red \<Rightarrow> rd_frames red | DFailed red _ \<Rightarrow> rd_frames red)"

lemma deadline_frames_observed:
  assumes "one_segment s"
  shows "observe_all (view s) (resolution_frames (resolveLocalToolDeadline c s e)) \<noteq> None"
proof -
  obtain s1 fs1 b where f: "fold (deadline_entry c e) (rs_tools s) ((s, []), False) = ((s1, fs1), b)"
    by (metis prod.exhaust)
  have "tracks (view s) (s1, fs1)"
    using tracks_deadline_fold [of "view s" "((s, []), False)" c e "rs_tools s"] f tracks_start [OF assms]
    by simp
  moreover have "resolution_frames (resolveLocalToolDeadline c s e) = fs1"
    by (simp add: resolution_frames_def resolveLocalToolDeadline_def f Let_def)
  ultimately show ?thesis by (simp add: tracks_def)
qed

lemma deadline_frames_inv:
  "well_formed (rn_log r @ fs) \<Longrightarrow> coordinator_inv (rn_cancel r) \<Longrightarrow> ended r \<Longrightarrow>
   runner_inv (run_deadline_frames env now fs r)"
  by (cases fs) (auto intro!: finish_inv yield_deadline_inv inv_event simp del: cancel_step.simps)

lemma ended_lifecycle: "\<not> is_cancelled r \<Longrightarrow> ended (settle_lifecycle_error env err now r)"
  by (simp add: ended_def not_cancelled_lifecycle)
    (simp add: settle_lifecycle_error_def Let_def settle_def)

lemma ended_terminal:
  "\<not> is_cancelled r \<Longrightarrow> ended (settle (settleReducerTerminal eenv s e) r)"
  by (auto simp: ended_def is_cancelled_def settle_def not_cancelled_terminal)

lemma deadline_inv_run:
  assumes "may_run [] r"
  shows "runner_inv (on_provider_deadline env now k r)"
proof -
  let ?d = "resolveLocalToolDeadline (se_codec env) (rn_reducer r) (elapsed_ms now r)"
  have c: "coordinator_inv (rn_cancel r)" "\<not> is_cancelled r" and w: "well_formed (rn_log r)"
    using assms in_step_log by (auto simp: may_run_def)
  have wf: "well_formed (rn_log r @ resolution_frames ?d)"
    using assms deadline_frames_observed
    by (simp add: may_run_def in_step_def well_formed_def observed_append)
  have nc: "\<not> is_cancelled (r\<lparr>rn_reducer := s\<rparr>)" for s using c(2) by (simp add: is_cancelled_def)
  show ?thesis
    using c w wf nc
    by (auto simp: on_provider_deadline_def Let_def resolution_frames_def
        simp del: run_deadline_frames.simps
        intro!: deadline_frames_inv ended_lifecycle ended_terminal split: deadline_resolution.split)
qed

lemma reduction_may_run:
  assumes "may_run [] r"
    and "reduceStreamSignal (se_codec env) (rn_reducer r) sig e rec = Inr red"
  shows "may_run (rd_frames red) (take_reduction env now red r) \<and>
    (rs_terminal (rd_state red) \<longrightarrow> ended (take_reduction env now red r)) \<and>
    rn_reducer (take_reduction env now red r) = rd_state red"
proof -
  have o: "one_segment (rn_reducer r)" and v: "observed (rn_log r) = Some (view (rn_reducer r))"
    and c: "coordinator_inv (rn_cancel r)" "\<not> is_cancelled r"
    using assms(1) by (simp_all add: may_run_def in_step_def)
  from reduce_tracks [OF o assms(2)]
  have t: "observe_all (view (rn_reducer r)) (rd_frames red) = Some (view (rd_state red))"
    "one_segment (rd_state red)" by simp_all
  have f: "rn_reducer (take_reduction env now red r) = rd_state red"
    "rn_log (take_reduction env now red r) = rn_log r"
    "rn_cancel (take_reduction env now red r) = rn_cancel r"
    by (simp_all add: take_reduction_def Let_def)
  have "\<not> is_cancelled (take_reduction env now red r)"
    using c(2) by (auto simp: take_reduction_def Let_def is_cancelled_def settle_def not_cancelled_terminal)
  moreover have "rs_terminal (rd_state red) \<Longrightarrow> rn_outcome (take_reduction env now red r) \<noteq> None"
    by (simp add: take_reduction_def Let_def settle_def)
  ultimately show ?thesis
    using t f v c by (simp add: may_run_def in_step_def observed_append ended_def)
qed

lemma reduced_inv:
  assumes "may_run [] r" and IH: "\<And>q. may_run [] q \<Longrightarrow> runner_inv (run_signals env now sigs q)"
    and red: "reduceStreamSignal (se_codec env) (rn_reducer r) sig (elapsed_ms now r)
        (po_requireProviderFinish (se_policy env)) = Inr red"
  shows "runner_inv (let r1 = take_reduction env now red r; committed = rs_terminal (rd_state red)
           in case rd_frames red of
                [] \<Rightarrow> if committed then finish env now r1 else run_signals env now sigs r1
              | f # fs \<Rightarrow>
                  if \<not> committed \<and> rn_outcome r1 \<noteq> None then finish env now r1
                  else yield_frame env now f (AfterFrame fs committed sigs) r1)"
  using reduction_may_run [OF assms(1) red, of now] IH
  by (auto simp: Let_def intro: finish_run yield_inv split: list.split)

lemma signals_inv: "may_run [] r \<Longrightarrow> runner_inv (run_signals env now sigs r)"
proof (induction sigs arbitrary: r)
  case Nil
  then show ?case by (simp add: loop_inv)
next
  case (Cons sig sigs)
  show ?case
  proof (cases sig)
    case (SigProtocol ev)
    with Cons reduced_inv [OF Cons.prems Cons.IH] show ?thesis
      by (auto simp: finish_run split: sum.split simp del: Let_def)
  next
    case (SigUsage u)
    with Cons reduced_inv [OF Cons.prems Cons.IH] show ?thesis
      by (auto simp: finish_run split: sum.split simp del: Let_def)
  next
    case (SigProviderError pe)
    with Cons.prems show ?thesis by (auto dest!: may_runD intro!: finish_inv)
  next
    case (SigDiagnosticCandidate code v)
    with Cons show ?thesis
      by (auto simp: case_prod_beta finish_run Let_def intro!: yield_silent split: option.split)
  qed
qed

subsection \<open>Every step keeps the invariant\<close>

lemma frames_inv:
  "may_run fs r \<Longrightarrow> (committed \<longrightarrow> ended r) \<Longrightarrow> runner_inv (run_frames env now fs committed sigs r)"
  by (cases fs) (auto intro!: finish_run signals_inv yield_inv)

lemma abort_okD: "abort_ok r \<Longrightarrow> coordinator_inv (rn_cancel r)"
  by (simp add: abort_ok_def)

lemma unsettled_may_run: "in_step F r \<Longrightarrow> abort_ok r \<Longrightarrow> rn_outcome r = None \<Longrightarrow> may_run F r"
  by (simp add: may_run_def abort_ok_def is_cancelled_def)

lemma ended_may_run: "in_step F r \<Longrightarrow> abort_ok r \<Longrightarrow> ended r \<Longrightarrow> may_run F r"
  by (simp add: may_run_def abort_ok_def ended_def)

lemma finish_step: "in_step F r \<Longrightarrow> abort_ok r \<Longrightarrow> runner_inv (finish env now r)"
  by (intro finish_inv in_step_log abort_okD)

lemma resume_inv:
  assumes "runner_inv r" "rn_pc r = PcSuspended k"
  shows "runner_inv (resume_yield env now k r)"
proof -
  have p: "pc_ok r" "abort_ok r" using assms(1) by (simp_all add: runner_inv_def)
  show ?thesis
  proof (cases k)
    case (AfterDeadline fs)
    with p assms(2) show ?thesis
      by (auto simp: pc_ok_def simp del: run_deadline_frames.simps intro!: deadline_frames_inv abort_okD)
  next
    case (AfterFrame fs committed sigs)
    with p assms(2) show ?thesis
      by (auto simp: pc_ok_def simp del: run_frames.simps intro!: frames_inv
          intro: finish_step ended_may_run unsettled_may_run)
  qed (use p assms(2) in \<open>auto simp: pc_ok_def intro: status_inv signals_inv finish_step unsettled_may_run\<close>)
qed

lemma stream_end_inv: "may_run [] r \<Longrightarrow> runner_inv (on_stream_end env now r)"
  by (auto simp: on_stream_end_def Let_def dest!: may_runD intro!: finish_inv)

lemma part_inv: "may_run [] r \<Longrightarrow> runner_inv (on_part env now p r)"
  by (auto simp: on_part_def intro: provider_failed_inv signals_inv split: sum.split)

lemma race_inv:
  assumes "may_run [] r" "\<forall>t. res \<noteq> RaceSleep t"
  shows "runner_inv (on_race env now res r)"
proof -
  have m: "may_run [] (r\<lparr>rn_read := None\<rparr>)"
    using assms(1) by (simp add: may_run_def in_step_def is_cancelled_def)
  have a: "well_formed (rn_log r)" "coordinator_inv (rn_cancel r)" using assms(1) may_runD by auto
  have t: "coordinator_inv (rn_cancel (settleAttemptTimeout env now r))"
    using a(2) by (simp add: settleAttemptTimeout_def inv_event del: cancel_step.simps)
  show ?thesis
    using assms m a t
    by (cases "(env, now, res, r)" rule: on_race.cases)
      (auto intro: status_inv deadline_inv_run finish_inv provider_failed_inv stream_end_inv part_inv)
qed

lemma deadlines_irrelevant:
  "may_run F (r\<lparr>rn_deadlines := d\<rparr>) = may_run F r"
  "runner_inv (r\<lparr>rn_deadlines := d\<rparr>) = runner_inv r"
  "runner_inv (r\<lparr>rn_read := rd\<rparr>) = runner_inv r"
  "runner_inv (r\<lparr>rn_returning := b\<rparr>) = runner_inv r"
  by (simp_all add: may_run_def in_step_def is_cancelled_def runner_inv_def pc_ok_def abort_ok_def ended_def
      split: runner_pc.split after_yield.split)

lemma poll_inv:
  assumes "runner_inv r" "rn_pc r = PcRacing"
  shows "runner_inv (poll_race env now r)"
proof -
  obtain res d where p: "race_poll (attempt_deadline env r) (co_aborted (rn_cancel r)) now
      (the (rn_read r)) (rn_deadlines r) = (res, d)"
    by (cases "race_poll (attempt_deadline env r) (co_aborted (rn_cancel r)) now
      (the (rn_read r)) (rn_deadlines r)")
  have i: "in_step [] r" "abort_ok r" using assms by (simp_all add: runner_inv_def pc_ok_def)
  show ?thesis
  proof (cases "co_aborted (rn_cancel r)")
    case True
    with p have "res = RaceCancelled" by (auto simp: race_poll_def)
    then show ?thesis
      using p i by (auto simp: poll_race_def intro!: finish_inv intro: in_step_log abort_okD)
  next
    case False
    with i assms(2) have "may_run [] r" by (simp add: may_run_def abort_ok_def)
    then have "\<forall>t. res \<noteq> RaceSleep t \<Longrightarrow>
        runner_inv (on_race env now res (r\<lparr>rn_deadlines := pauseProviderWait now d\<rparr>))"
      by (intro race_inv) (simp_all add: deadlines_irrelevant)
    then show ?thesis
      using p assms(1) by (cases res) (auto simp: poll_race_def deadlines_irrelevant)
  qed
qed

lemma head_inv:
  assumes "runner_inv r" "rn_pc r = PcLoop"
  shows "runner_inv (loop_head env now nt r)"
proof -
  have i: "in_step [] r" "abort_ok r" using assms by (simp_all add: runner_inv_def pc_ok_def)
  have "rn_outcome r = None \<Longrightarrow> runner_inv (r\<lparr>rn_read := rd, rn_deadlines := d, rn_pc := PcRacing\<rparr>)" for rd d
    using i by (simp add: runner_inv_def pc_ok_def abort_ok_def in_step_def is_cancelled_def)
  then show ?thesis
    using i by (auto simp: loop_head_def intro: finish_step provider_failed_inv unsettled_may_run
        split: option.split)
qed

lemma aborted_kept: "co_aborted co \<Longrightarrow> coordinator_inv co \<Longrightarrow> co_aborted (cancel_step ev co)"
  by (cases ev; cases "co_source co")
    (auto simp: signal_fires_eq select_cancel_def split: option.split)

text \<open>Settling or aborting from outside, at any point but the end.\<close>

definition outside_ok :: "'p runner \<Rightarrow> 'p runner \<Rightarrow> bool" where
  "outside_ok r r' \<longleftrightarrow> rn_log r' = rn_log r \<and> rn_pc r' = rn_pc r \<and>
     view (rn_reducer r') = view (rn_reducer r) \<and> one_segment (rn_reducer r') = one_segment (rn_reducer r) \<and>
     (rn_outcome r \<noteq> None \<longrightarrow> rn_outcome r' = rn_outcome r) \<and> abort_ok r'"

lemma outside_inv:
  "runner_inv r \<Longrightarrow> rn_pc r \<noteq> PcInit \<Longrightarrow> outside_ok r r' \<Longrightarrow> runner_inv r'"
  by (auto simp: runner_inv_def outside_ok_def pc_ok_def in_step_def ended_def is_cancelled_def
      split: runner_pc.splits after_yield.splits)

lemma coordinate_outside:
  assumes "abort_ok r" "rn_pc r \<noteq> PcDone"
  shows "outside_ok r (coordinate env now (cancel_step ev (rn_cancel r)) r)"
proof -
  let ?co = "cancel_step ev (rn_cancel r)"
  have inv: "coordinator_inv ?co" using assms(1) by (simp add: abort_ok_def inv_event del: cancel_step.simps)
  have ab: "is_cancelled r \<Longrightarrow> co_aborted ?co"
    using assms aborted_kept by (auto simp: abort_ok_def)
  have src: "co_source ?co = Some src \<Longrightarrow> co_aborted ?co" for src
    using inv by (simp add: coordinator_inv_def)
  show ?thesis
    using inv ab src
    by (auto simp: coordinate_def outside_ok_def abort_ok_def is_cancelled_def settleCancelled_def settle_def
        terminateReducer_def upd_snapshot_def view_def one_segment_def
        simp del: cancel_step.simps split: option.split)
qed

lemma timer_outside:
  assumes "abort_ok r" "rn_pc r \<noteq> PcDone"
  shows "outside_ok r (settleAttemptTimeout env now r)"
proof -
  have "is_cancelled r \<Longrightarrow> co_aborted (rn_cancel r)" using assms by (auto simp: abort_ok_def)
  moreover have "coordinator_inv (cancel_step AbortProvider (rn_cancel r))"
    using assms(1) by (simp add: abort_ok_def inv_event del: cancel_step.simps)
  ultimately show ?thesis
    using assms(1)
    by (auto simp: outside_ok_def abort_ok_def settleAttemptTimeout_def)
qed

lemma stop_inv:
  assumes "runner_inv r"
  shows "runner_inv (consumer_stops env now r)"
proof -
  have a: "abort_ok r" and w: "well_formed (rn_log r)"
    using assms in_step_log well_formed_prefix
    by (auto simp: runner_inv_def pc_ok_def split: runner_pc.splits after_yield.splits)
  let ?r1 = "settleCancelled env CConsumerStopped now r"
  let ?co = "cancel_step StopConsumer (rn_cancel r)"
  let ?r2 = "coordinate env now ?co ?r1"
  have inv: "coordinator_inv ?co" "co_aborted ?co"
    using abort_okD [OF a] by (auto simp: inv_select select_cancel_def coordinator_inv_def)
  have some: "rn_outcome ?r1 \<noteq> None" by simp
  then have r2: "?r2 = ?r1\<lparr>rn_cancel := ?co\<rparr>"
    by (auto simp: coordinate_def settleCancelled_def split: option.split)
  have o: "outside_ok r ?r2" if "rn_pc r \<noteq> PcDone"
    using inv unfolding r2
    by (auto simp: outside_ok_def abort_ok_def settleCancelled_def settle_def)
  have fin: "runner_inv (finish env now ?r2)"
    using w inv unfolding r2 by (intro finish_inv) simp_all
  show ?thesis
  proof (cases "rn_pc r")
    case PcInit
    then show ?thesis
      using w a by (simp add: consumer_stops_def Let_def runner_inv_def pc_ok_def abort_ok_def)
  next
    case PcDone
    then show ?thesis
      using w inv some unfolding consumer_stops_def Let_def
      by (simp add: r2 runner_inv_def pc_ok_def abort_ok_def del: cancel_step.simps)
  next
    case (PcSuspended k)
    with fin show ?thesis by (simp add: consumer_stops_def Let_def)
  next
    case PcLoop
    then have "runner_inv ?r2" by (intro outside_inv [OF assms _ o]) simp_all
    with PcLoop show ?thesis
      by (simp add: consumer_stops_def Let_def deadlines_irrelevant del: cancel_step.simps)
  next
    case PcRacing
    then have "runner_inv ?r2" by (intro outside_inv [OF assms _ o]) simp_all
    with PcRacing show ?thesis
      by (simp add: consumer_stops_def Let_def deadlines_irrelevant del: cancel_step.simps)
  qed
qed

lemma start_inv:
  assumes "runner_inv r" "rn_pc r = PcInit" "co = createCancellationCoordinator inputs fired"
  shows "runner_inv (start_run env now co op r)"
proof -
  have i: "in_step [] r" "rn_outcome r = None" using assms by (simp_all add: runner_inv_def pc_ok_def)
  have c: "coordinator_inv co" using assms(3) by (simp add: inv_create)
  let ?r1 = "coordinate env now co (r\<lparr>rn_start := Some now\<rparr>)"
  have w: "well_formed (rn_log ?r1)" "coordinator_inv (rn_cancel ?r1)"
    using in_step_log [OF i(1)] c by (auto simp: coordinate_def split: option.split)
  have "co_source co = None \<Longrightarrow> may_run [] ?r1"
    using i c by (auto simp: may_run_def in_step_def is_cancelled_def coordinate_def split: option.split)
  with w show ?thesis
    by (auto simp: start_run_def Let_def intro: finish_inv provider_failed_inv loop_inv split: option.split)
qed

lemma step_inv:
  assumes "runner_step env (t, r) (t', r')" "runner_inv r"
  shows "runner_inv r'"
  using assms(1)
proof cases
  case (signal i)
  have "abort_ok r" using assms(2) by (simp add: runner_inv_def)
  from outside_inv [OF assms(2) signal(3) coordinate_outside [OF this signal(4)]]
  show ?thesis unfolding signal(2) .
next
  case timer
  have "abort_ok r" using assms(2) by (simp add: runner_inv_def)
  from outside_inv [OF assms(2) timer(3) timer_outside [OF this timer(4)]] timer(2)
  show ?thesis by simp
next
  case (start co inputs fired openThrows)
  from start_inv [OF assms(2) start(3,4)] show ?thesis unfolding start(2) .
next
  case (read res)
  from assms(2) show ?thesis unfolding read(2) deadlines_irrelevant(3) .
qed (use assms(2) in \<open>auto intro: head_inv poll_inv resume_inv stop_inv\<close>)

lemma initial_inv: "runner_inv initial_runner"
  by (simp add: runner_inv_def pc_ok_def abort_ok_def initial_runner_def in_step_def observed_def
      one_segment_def createInitialReducerState_def coordinator_inv_def no_coordinator_def is_cancelled_def)

lemma reaches_inv: "runner_reaches env t0 (t, r) \<Longrightarrow> runner_inv r"
  by (induction "(t, r)" arbitrary: t r rule: rtranclp_induct) (auto intro: step_inv simp: initial_inv)

subsection \<open>A run used by the witnesses\<close>

text \<open>The provider sends one part with a text delta; the consumer takes the first frame and stops.\<close>

definition demo_env :: "nat stream_env" where
  "demo_env = \<lparr>se_codec = braces_codec, se_errors = empty_env, se_policy = DEFAULT_STREAM_LIFECYCLE_POLICY,
     se_decode = (\<lambda>p n. Inr [SigProtocol (TextContent None ''a'')]), se_classify = (\<lambda>e n. None),
     se_accept = (\<lambda>c v. None)\<rparr>"

definition demo_started :: "nat runner" where
  "demo_started = start_run demo_env 0 (createCancellationCoordinator [] (\<lambda>_. False)) None initial_runner"

definition demo_waiting :: "nat runner" where
  "demo_waiting = (loop_head demo_env 0 None demo_started)\<lparr>rn_read := Some (ReadSettled 0 (ReadPart 0))\<rparr>"

definition demo_frame :: "nat runner" where
  "demo_frame = poll_race demo_env 0 demo_waiting"

definition demo_stopped :: "nat runner" where
  "demo_stopped = consumer_stops demo_env 0 demo_frame"

lemma demo_pcs:
  "rn_pc demo_started = PcLoop" "rn_read (loop_head demo_env 0 None demo_started) = Some ReadPending"
  "rn_pc demo_waiting = PcRacing" "length (rn_log demo_frame) = 1" "rn_pc demo_stopped = PcDone"
  by code_simp+

lemma demo_cancelled:
  "\<exists>b m. rn_outcome demo_stopped = Some (OCancelled b CConsumerStopped m)"
proof -
  have "(case rn_outcome demo_stopped of Some (OCancelled b src m) \<Rightarrow> src = CConsumerStopped | _ \<Rightarrow> False)"
    by code_simp
  then show ?thesis by (auto split: option.splits stream_outcome.splits)
qed

lemma demo_reaches_frame: "runner_reaches demo_env 0 (0, demo_frame)"
proof -
  have s1: "runner_step demo_env (0, initial_runner) (0, demo_started)"
    unfolding demo_started_def by (rule runner_step.start) (simp_all add: initial_runner_def)
  have s2: "runner_step demo_env (0, demo_started) (0, loop_head demo_env 0 None demo_started)"
    by (rule runner_step.head) (simp add: demo_pcs)
  have s3: "runner_step demo_env (0, loop_head demo_env 0 None demo_started) (0, demo_waiting)"
    unfolding demo_waiting_def by (rule runner_step.read) (simp add: demo_pcs)
  have s4: "runner_step demo_env (0, demo_waiting) (0, demo_frame)"
    unfolding demo_frame_def by (rule runner_step.poll) (simp add: demo_pcs)
  note rtranclp.rtrancl_into_rtrancl [OF rtranclp.rtrancl_into_rtrancl
      [OF rtranclp.rtrancl_into_rtrancl [OF r_into_rtranclp [of "runner_step demo_env", OF s1] s2] s3] s4]
  then show ?thesis .
qed

lemma demo_stop_step: "runner_step demo_env (0, demo_frame) (0, demo_stopped)"
  unfolding demo_stopped_def by (rule runner_step.stop)

lemma demo_reaches_stopped: "runner_reaches demo_env 0 (0, demo_stopped)"
  using demo_reaches_frame demo_stop_step by (rule rtranclp.rtrancl_into_rtrancl)

subsection \<open>Properties of every run\<close>

text \<open>C7: A consumer always sees a well-formed stream. In every reachable state, the frames yielded
  so far have the sequence numbers 1, 2, 3, ... without a gap, and their text and reasoning segments
  are properly bracketed, whichever way reads, timers, cancellations and the consumer interleave.\<close>

theorem yielded_frames_well_formed:
  "runner_reaches env t0 (t, r) \<Longrightarrow> observe_all (view createInitialReducerState) (rn_log r) \<noteq> None"
  using reaches_inv [of env t0 t r] in_step_log [of _ r] well_formed_prefix [of "rn_log r"]
  unfolding runner_inv_def pc_ok_def well_formed_def observed_def
  by (auto split: runner_pc.splits after_yield.splits)

theorem yielded_frames_well_formed_witness:
  "observe_all (view createInitialReducerState) (rn_log demo_frame) \<noteq> None \<and> length (rn_log demo_frame) = 1"
  using yielded_frames_well_formed [OF demo_reaches_frame] demo_pcs by simp

text \<open>C8: A generator that has returned has settled its outcome, so the promise of the outcome never
  stays open once the frames are exhausted.\<close>

theorem returned_run_has_outcome:
  "runner_reaches env t0 (t, r) \<Longrightarrow> rn_pc r = PcDone \<Longrightarrow> \<exists>out. rn_outcome r = Some out"
  using reaches_inv [of env t0 t r] by (auto simp: runner_inv_def pc_ok_def)

theorem returned_run_has_outcome_witness: "\<exists>out. rn_outcome demo_stopped = Some out"
  by (rule returned_run_has_outcome [OF demo_reaches_stopped]) (simp add: demo_pcs)

lemma settled_head: "rn_outcome r \<noteq> None \<Longrightarrow> loop_head env now nt r = finish env now r"
  by (simp add: loop_head_def)

lemma aborted_poll:
  assumes "co_aborted (rn_cancel r)"
  shows "rn_log (poll_race env now r) = rn_log r \<and> rn_pc (poll_race env now r) = PcDone"
proof -
  have "race_poll (attempt_deadline env r) True now (the (rn_read r)) (rn_deadlines r) = (RaceCancelled, rn_deadlines r)"
    by (simp add: race_poll_def)
  with assms show ?thesis by (simp add: poll_race_def)
qed

lemma settled_resume:
  assumes "rn_outcome r \<noteq> None"
    and "(\<forall>fs. k \<noteq> AfterDeadline fs) \<and> (\<forall>fs sigs. k \<noteq> AfterFrame fs True sigs)"
  shows "resume_yield env now k r = finish env now r"
  using assms by (cases k) auto

text \<open>A cancelled attempt falls silent. From a reachable state whose outcome is cancelled, no
  step of any kind yields a frame, and the generator's own next step, when it has not returned
  yet, returns.\<close>

theorem cancelled_attempt_falls_silent:
  assumes "runner_reaches env t0 (t, r)" "rn_outcome r = Some (OCancelled b src m)"
    and "runner_step env (t, r) (t', r')"
  shows "rn_log r' = rn_log r \<and>
    (rn_pc r = PcLoop \<longrightarrow> rn_pc (loop_head env t nt r) = PcDone) \<and>
    (rn_pc r = PcRacing \<longrightarrow> rn_pc (poll_race env t r) = PcDone) \<and>
    (\<forall>k. rn_pc r = PcSuspended k \<longrightarrow> rn_pc (resume_yield env t k r) = PcDone)"
proof -
  have i: "runner_inv r" by (rule reaches_inv [OF assms(1)])
  have c: "is_cancelled r" using assms(2) by (auto simp: is_cancelled_def)
  have ab: "rn_pc r \<noteq> PcDone \<Longrightarrow> co_aborted (rn_cancel r)"
    using i c by (auto simp: runner_inv_def abort_ok_def)
  have ni: "rn_pc r \<noteq> PcInit" using i assms(2) by (auto simp: runner_inv_def pc_ok_def)
  have n: "rn_outcome r \<noteq> None" using assms(2) by simp
  have k: "resume_yield env t k r = finish env t r" if "rn_pc r = PcSuspended k" for k
    using i c that by (intro settled_resume [OF n]) (auto simp: runner_inv_def pc_ok_def ended_def)
  have "rn_log r' = rn_log r"
    using assms(3)
    by cases (use ni k n ab aborted_poll in \<open>auto simp: settled_head coordinate_def consumer_stops_def Let_def
        simp del: cancel_step.simps split: option.split runner_pc.split\<close>)
  then show ?thesis using ab aborted_poll [of r env t] k n by (auto simp: settled_head)
qed

subsection \<open>A throwing reducer\<close>

text \<open>C9: When the reducer throws, the attempt reports that its consumer stopped. A running attempt
  that decodes a custom tool-call-status event without data ends with the outcome cancelled, with the
  source consumer-stopped, although no one stopped it and the provider sent the event.\<close>

theorem null_status_reports_consumer_stopped:
  assumes "rn_outcome r = None" "\<not> rs_terminal (rn_reducer r)" "d = JUndef \<or> d = JNull"
  shows "\<exists>b m. rn_outcome (run_signals env now (SigProtocol (Custom ''tool-call-status'' d) # sigs) r) =
      Some (OCancelled b CConsumerStopped m)"
proof -
  have "reduceProtocolEvent c (Custom ''tool-call-status'' d) e rec x = Inl CustomDataTypeError" for c e rec x
    using assms(3) by (auto simp: custom_status_null)
  then have "reduceStreamSignal (se_codec env) (rn_reducer r) (SigProtocol (Custom ''tool-call-status'' d))
      (elapsed_ms now r) (po_requireProviderFinish (se_policy env)) = Inl CustomDataTypeError"
    using assms(2) by (simp add: reduceStreamSignal_def)
  then show ?thesis
    using assms(1)
    by (simp add: finish_def Let_def settleCancelled_def settle_def resolve_cancelled)
qed

theorem null_status_reports_consumer_stopped_witness:
  "\<exists>b m. rn_outcome (run_signals demo_env 0 [SigProtocol (Custom ''tool-call-status'' JNull)] demo_started) =
      Some (OCancelled b CConsumerStopped m)"
  by (rule null_status_reports_consumer_stopped) (code_simp, code_simp, simp)

end
