(* ===== verification/WorkflowGraph.thy ===== *)
theory WorkflowGraph
  imports Prelude
begin

text \<open>
  The dependency graph of a workflow, \<open>workflow/executor/dag/graph.ts\<close>: building it from the
  declared nodes, deciding which nodes are ready, detecting cycles by depth-first search and
  accounting for completed nodes on resume. Maps are insertion-ordered maps of the prelude; node
  states are one too (their order does not matter to any result).
\<close>

datatype node_status = NPending | NRunning | NCompleted | NFailed | NSkipped

record workflow_node =
  wn_id :: string
  wn_dependsOn :: "string list option"

datatype graph_error =
    DuplicateNode string
  | DuplicateDependency string string
  | UnknownDependency string string

record dag_graph =
  dg_adj :: "(string \<times> string list) list"
  dg_inDegree :: "(string \<times> nat) list"
  dg_nodeMap :: "(string \<times> workflow_node) list"

definition hasAnyDependents :: "workflow_node list \<Rightarrow> string \<Rightarrow> bool" where
  "hasAnyDependents nodes i =
     (\<exists>n \<in> set nodes. case wn_dependsOn n of None \<Rightarrow> False | Some ds \<Rightarrow> i \<in> set ds)"

definition degree_of :: "(string \<times> nat) list \<Rightarrow> string \<Rightarrow> nat" where
  "degree_of m i = (case jm_get m i of None \<Rightarrow> 0 | Some d \<Rightarrow> d)"

definition dependents_of :: "(string \<times> string list) list \<Rightarrow> string \<Rightarrow> string list" where
  "dependents_of m i = (case jm_get m i of None \<Rightarrow> [] | Some ds \<Rightarrow> ds)"

text \<open>The loop that registers the nodes.\<close>

fun register_nodes :: "workflow_node list \<Rightarrow> dag_graph \<Rightarrow> graph_error + dag_graph" where
  "register_nodes [] g = Inr g"
| "register_nodes (n # ns) g =
     (if jm_get (dg_nodeMap g) (wn_id n) \<noteq> None then Inl (DuplicateNode (wn_id n))
      else register_nodes ns
        (g\<lparr>dg_adj := jm_set (wn_id n) [] (dg_adj g),
           dg_inDegree := jm_set (wn_id n) 0 (dg_inDegree g),
           dg_nodeMap := jm_set (wn_id n) n (dg_nodeMap g)\<rparr>))"

text \<open>An edge: \<open>from\<close>'s dependents get \<open>to\<close>, whose degree rises.\<close>

definition add_edge :: "string \<Rightarrow> string \<Rightarrow> dag_graph \<Rightarrow> dag_graph" where
  "add_edge src dst g =
     g\<lparr>dg_adj := jm_set src (dependents_of (dg_adj g) src @ [dst]) (dg_adj g),
       dg_inDegree := jm_set dst (degree_of (dg_inDegree g) dst + 1) (dg_inDegree g)\<rparr>"

fun add_dependencies :: "string \<Rightarrow> string list \<Rightarrow> string list \<Rightarrow> dag_graph \<Rightarrow> graph_error + dag_graph" where
  "add_dependencies i seen [] g = Inr g"
| "add_dependencies i seen (dep # deps) g =
     (if dep \<in> set seen then Inl (DuplicateDependency i dep)
      else if jm_get (dg_adj g) dep = None then Inl (UnknownDependency i dep)
      else add_dependencies i (seen @ [dep]) deps (add_edge dep i g))"

fun addExplicitDependencies :: "workflow_node list \<Rightarrow> dag_graph \<Rightarrow> graph_error + dag_graph" where
  "addExplicitDependencies [] g = Inr g"
| "addExplicitDependencies (n # ns) g =
     (case add_dependencies (wn_id n) [] (case wn_dependsOn n of None \<Rightarrow> [] | Some ds \<Rightarrow> ds) g of
        Inl err \<Rightarrow> Inl err
      | Inr g1 \<Rightarrow> addExplicitDependencies ns g1)"

text \<open>The loop over the implicit sequential dependencies; \<open>prev\<close> is falsy when it is \<open>null\<close> or the
  empty text.\<close>

fun add_sequential :: "workflow_node list \<Rightarrow> string option \<Rightarrow> workflow_node list \<Rightarrow> dag_graph \<Rightarrow> dag_graph" where
  "add_sequential nodes prev [] g = g"
| "add_sequential nodes prev (n # ns) g =
     (case prev of
        None \<Rightarrow> add_sequential nodes (Some (wn_id n)) ns g
      | Some p \<Rightarrow>
          if p = [] \<or> wn_dependsOn n \<noteq> None then add_sequential nodes (Some (wn_id n)) ns g
          else if degree_of (dg_inDegree g) (wn_id n) \<noteq> 0 \<or> hasAnyDependents nodes (wn_id n)
          then add_sequential nodes (Some (wn_id n)) ns g
          else add_sequential nodes (Some (wn_id n)) ns (add_edge p (wn_id n) g))"

definition empty_graph :: dag_graph where
  "empty_graph = \<lparr>dg_adj = [], dg_inDegree = [], dg_nodeMap = []\<rparr>"

definition buildGraph :: "workflow_node list \<Rightarrow> graph_error + dag_graph" where
  "buildGraph nodes =
     (case register_nodes nodes empty_graph of
        Inl err \<Rightarrow> Inl err
      | Inr g \<Rightarrow>
          (case addExplicitDependencies nodes g of
             Inl err \<Rightarrow> Inl err
           | Inr g1 \<Rightarrow> Inr (add_sequential nodes None nodes g1)))"

definition getReadyNodes :: "(string \<times> nat) list \<Rightarrow> (string \<times> node_status) list \<Rightarrow> string list" where
  "getReadyNodes inDegree states =
     map fst (filter (\<lambda>(i, degree). degree = 0 \<and>
       (case jm_get states i of None \<Rightarrow> True | Some st \<Rightarrow> st = NPending \<or> st = NFailed)) inDegree)"

definition finished_status :: "node_status \<Rightarrow> bool" where
  "finished_status st \<longleftrightarrow> st = NCompleted \<or> st = NSkipped"

definition lower_degree :: "string \<Rightarrow> (string \<times> nat) list \<Rightarrow> (string \<times> nat) list" where
  "lower_degree i m = (if degree_of m i > 0 then jm_set i (degree_of m i - 1) m else m)"

fun updateInDegreesForCompletedNodes :: "(string \<times> node_status) list \<Rightarrow> (string \<times> string list) list \<Rightarrow>
    (string \<times> nat) list \<Rightarrow> (string \<times> nat) list" where
  "updateInDegreesForCompletedNodes [] adj m = m"
| "updateInDegreesForCompletedNodes ((i, st) # states) adj m =
     updateInDegreesForCompletedNodes states adj
       (if finished_status st then fold lower_degree (dependents_of adj i) m else m)"

subsection \<open>Depth-first search\<close>

text \<open>\<open>dfs\<close> and its loop over the neighbours, with the sets \<open>visited\<close> and \<open>recursionStack\<close> as the
  state. The first argument bounds the depth of the recursion: every nested call visits a new node, so
  the number of nodes is enough, which \<open>hasCycle_returns\<close> proves.\<close>

type_synonym dfs_state = "string list \<times> string list"

function dfs :: "nat \<Rightarrow> (string \<times> string list) list \<Rightarrow> string \<Rightarrow> dfs_state \<Rightarrow> (bool \<times> dfs_state) option"
  and dfs_loop :: "nat \<Rightarrow> (string \<times> string list) list \<Rightarrow> string \<Rightarrow> string list \<Rightarrow> dfs_state \<Rightarrow>
    (bool \<times> dfs_state) option" where
  "dfs 0 adj v s = None"
| "dfs (Suc k) adj v (vis, stk) =
     dfs_loop k adj v (dependents_of adj v) (set_add v vis, set_add v stk)"
| "dfs_loop k adj v [] (vis, stk) = Some (False, vis, filter (\<lambda>x. x \<noteq> v) stk)"
| "dfs_loop k adj v (n # ns) (vis, stk) =
     (if n \<notin> set vis then
        (case dfs k adj n (vis, stk) of
           None \<Rightarrow> None
         | Some (found, s) \<Rightarrow> if found then Some (True, s) else dfs_loop k adj v ns s)
      else if n \<in> set stk then Some (True, vis, stk)
      else dfs_loop k adj v ns (vis, stk))"
  by pat_completeness auto
termination
  by (relation "measures [\<lambda>x. case x of Inl (k, _) \<Rightarrow> k | Inr (k, _) \<Rightarrow> k,
        \<lambda>x. case x of Inl _ \<Rightarrow> 0 | Inr (_, _, _, ns, _) \<Rightarrow> Suc (length ns)]") auto

fun cycle_loop :: "nat \<Rightarrow> (string \<times> string list) list \<Rightarrow> workflow_node list \<Rightarrow> dfs_state \<Rightarrow> bool option" where
  "cycle_loop k adj [] s = Some False"
| "cycle_loop k adj (n # ns) s =
     (if wn_id n \<notin> set (fst s) then
        (case dfs k adj (wn_id n) s of
           None \<Rightarrow> None
         | Some (found, s1) \<Rightarrow> if found then Some True else cycle_loop k adj ns s1)
      else cycle_loop k adj ns s)"

definition hasCycle :: "workflow_node list \<Rightarrow> (string \<times> string list) list \<Rightarrow> bool option" where
  "hasCycle nodes adj = cycle_loop (length nodes) adj nodes ([], [])"

subsection \<open>What a built graph is\<close>

definition edges :: "(string \<times> string list) list \<Rightarrow> (string \<times> string) set" where
  "edges adj = {(u, v). v \<in> set (dependents_of adj u)}"

text \<open>The keys of the maps are the nodes, edges stay among them, and the in-degree of a node counts
  the edges into it.\<close>

definition graph_ok :: "string list \<Rightarrow> dag_graph \<Rightarrow> bool" where
  "graph_ok ids g \<longleftrightarrow> distinct ids \<and> jm_keys (dg_adj g) = ids \<and> jm_keys (dg_inDegree g) = ids \<and>
     edges (dg_adj g) \<subseteq> set ids \<times> set ids \<and>
     (\<forall>v \<in> set ids. degree_of (dg_inDegree g) v =
        (\<Sum>u \<in> set ids. count_list (dependents_of (dg_adj g) u) v))"

lemma dependents_set:
  "dependents_of (jm_set src ds m) u = (if u = src then ds else dependents_of m u)"
  by (simp add: dependents_of_def jsmap_simps)

lemma degree_set: "degree_of (jm_set i d m) v = (if v = i then d else degree_of m v)"
  by (simp add: degree_of_def jsmap_simps)

lemma edges_add_edge [simp]: "edges (dg_adj (add_edge src dst g)) = insert (src, dst) (edges (dg_adj g))"
  by (auto simp: edges_def add_edge_def dependents_set split: if_splits)

lemma nodeMap_add_edge [simp]: "dg_nodeMap (add_edge src dst g) = dg_nodeMap g"
  by (simp add: add_edge_def)

lemma add_edge_ok:
  assumes g: "graph_ok ids g" and st: "src \<in> set ids" "dst \<in> set ids"
  shows "graph_ok ids (add_edge src dst g)"
proof -
  have c: "count_list (dependents_of (dg_adj (add_edge src dst g)) u) v =
      count_list (dependents_of (dg_adj g) u) v + (if u = src \<and> v = dst then 1 else 0)" for u v
    by (simp add: add_edge_def dependents_set)
  have d: "degree_of (dg_inDegree (add_edge src dst g)) v =
      degree_of (dg_inDegree g) v + (if v = dst then 1 else 0)" for v
    by (simp add: add_edge_def degree_set)
  have "(\<Sum>u \<in> set ids. if u = src \<and> v = dst then 1 else 0) = (if v = dst then 1 else 0 :: nat)" for v
    using st(1) by (cases "v = dst") (simp_all add: sum.delta)
  then have "\<forall>v \<in> set ids. degree_of (dg_inDegree (add_edge src dst g)) v =
      (\<Sum>u \<in> set ids. count_list (dependents_of (dg_adj (add_edge src dst g)) u) v)"
    using g unfolding c d by (simp add: graph_ok_def sum.distrib)
  moreover have "jm_keys (dg_adj (add_edge src dst g)) = ids" "jm_keys (dg_inDegree (add_edge src dst g)) = ids"
    using g st by (auto simp: graph_ok_def add_edge_def jsmap_simps)
  ultimately show ?thesis using g st by (auto simp: graph_ok_def)
qed

lemma jm_set_new: "k \<notin> set (jm_keys m) \<Longrightarrow> jm_set k v m = m @ [(k, v)]"
  by (induction m) auto

definition blank_graph :: "workflow_node list \<Rightarrow> dag_graph" where
  "blank_graph ns = \<lparr>dg_adj = map (\<lambda>n. (wn_id n, [])) ns, dg_inDegree = map (\<lambda>n. (wn_id n, 0)) ns,
     dg_nodeMap = map (\<lambda>n. (wn_id n, n)) ns\<rparr>"

lemma blank_snoc:
  "wn_id n \<notin> wn_id ` set ms \<Longrightarrow>
   (blank_graph ms)\<lparr>dg_adj := jm_set (wn_id n) [] (dg_adj (blank_graph ms)),
     dg_inDegree := jm_set (wn_id n) 0 (dg_inDegree (blank_graph ms)),
     dg_nodeMap := jm_set (wn_id n) n (dg_nodeMap (blank_graph ms))\<rparr> = blank_graph (ms @ [n])"
  by (simp add: blank_graph_def jm_set_new image_image)

lemma blank_nodeMap: "jm_get (dg_nodeMap (blank_graph ms)) i \<noteq> None \<longleftrightarrow> i \<in> wn_id ` set ms"
  by (auto simp: blank_graph_def map_of_eq_None_iff image_image)

lemma register_nodes_step:
  "register_nodes (n # ns) (blank_graph ms) =
     (if wn_id n \<in> wn_id ` set ms then Inl (DuplicateNode (wn_id n))
      else register_nodes ns (blank_graph (ms @ [n])))"
  using blank_nodeMap [of ms "wn_id n"] by (simp add: blank_snoc)

lemma register_nodes_blank:
  "(\<exists>g. register_nodes ns (blank_graph ms) = Inr g) \<longleftrightarrow>
     distinct (map wn_id ns) \<and> wn_id ` set ns \<inter> wn_id ` set ms = {}"
  "register_nodes ns (blank_graph ms) = Inr g \<Longrightarrow> g = blank_graph (ms @ ns)"
proof (induction ns arbitrary: ms)
  case (Cons n ns)
  {
    case 1
    show ?case using Cons.IH(1) [of "ms @ [n]"] unfolding register_nodes_step by auto
  next
    case 2
    then show ?case using Cons.IH(2) [of "ms @ [n]"] unfolding register_nodes_step by (auto split: if_splits)
  }
qed simp_all

lemma register_nodes_empty:
  "register_nodes nodes empty_graph = Inr g \<longleftrightarrow> distinct (map wn_id nodes) \<and> g = blank_graph nodes"
proof -
  have "empty_graph = blank_graph []" by (simp add: empty_graph_def blank_graph_def)
  then show ?thesis
    using register_nodes_blank(1) [of nodes "[]"] register_nodes_blank(2) [of nodes "[]"]
    by (cases "register_nodes nodes empty_graph") auto
qed

lemma blank_dependents: "dependents_of (dg_adj (blank_graph ns)) u = []"
  by (induction ns) (auto simp: dependents_of_def blank_graph_def)

lemma blank_degree: "degree_of (dg_inDegree (blank_graph ns)) u = 0"
  by (induction ns) (auto simp: degree_of_def blank_graph_def)

lemma blank_ok: "distinct (map wn_id ns) \<Longrightarrow> graph_ok (map wn_id ns) (blank_graph ns)"
  using blank_dependents [of ns] blank_degree [of ns]
  by (simp add: graph_ok_def edges_def) (simp add: blank_graph_def comp_def)

lemma adj_known: "graph_ok ids g \<Longrightarrow> jm_get (dg_adj g) i = None \<longleftrightarrow> i \<notin> set ids"
  by (metis graph_ok_def map_of_eq_None_iff set_map)

lemma add_dependencies_ok:
  assumes "graph_ok ids g" "i \<in> set ids"
  shows "(\<exists>g'. add_dependencies i seen deps g = Inr g') \<longleftrightarrow>
      distinct deps \<and> set deps \<inter> set seen = {} \<and> set deps \<subseteq> set ids"
    and "add_dependencies i seen deps g = Inr g' \<Longrightarrow>
      graph_ok ids g' \<and> edges (dg_adj g') = edges (dg_adj g) \<union> (\<lambda>d. (d, i)) ` set deps \<and>
      dg_nodeMap g' = dg_nodeMap g"
proof -
  show "(\<exists>g'. add_dependencies i seen deps g = Inr g') \<longleftrightarrow>
      distinct deps \<and> set deps \<inter> set seen = {} \<and> set deps \<subseteq> set ids"
    using assms
  proof (induction deps arbitrary: seen g)
    case (Cons d deps)
    show ?case
    proof (cases "d \<in> set seen \<or> d \<notin> set ids")
      case True
      then show ?thesis using adj_known [OF Cons.prems(1)] by auto
    next
      case False
      with Cons.IH [OF add_edge_ok, of g d i "seen @ [d]"] Cons.prems adj_known [OF Cons.prems(1), of d]
      show ?thesis by auto
    qed
  qed simp
  show "add_dependencies i seen deps g = Inr g' \<Longrightarrow>
      graph_ok ids g' \<and> edges (dg_adj g') = edges (dg_adj g) \<union> (\<lambda>d. (d, i)) ` set deps \<and>
      dg_nodeMap g' = dg_nodeMap g"
    using assms
  proof (induction deps arbitrary: seen g)
    case (Cons d deps)
    then have "d \<in> set ids" "add_dependencies i (seen @ [d]) deps (add_edge d i g) = Inr g'"
      using adj_known [OF Cons.prems(2), of d] by (auto split: if_splits)
    with Cons.IH [of "seen @ [d]" "add_edge d i g"] add_edge_ok [OF Cons.prems(2) _ Cons.prems(3), of d]
    show ?case using Cons.prems(3) by auto
  qed simp
qed

definition declared :: "workflow_node list \<Rightarrow> (string \<times> string) set" where
  "declared ns = {(d, wn_id n) | d n ds. n \<in> set ns \<and> wn_dependsOn n = Some ds \<and> d \<in> set ds}"

definition deps_of :: "workflow_node \<Rightarrow> string list" where
  "deps_of n = (case wn_dependsOn n of None \<Rightarrow> [] | Some ds \<Rightarrow> ds)"

lemma declared_Cons: "declared (n # ns) = (\<lambda>d. (d, wn_id n)) ` set (deps_of n) \<union> declared ns"
  by (cases "wn_dependsOn n") (auto simp: declared_def deps_of_def)

lemma declared_Nil: "declared [] = {}"
  by (simp add: declared_def)

lemma explicit_ok:
  assumes "graph_ok ids g" "wn_id ` set ns \<subseteq> set ids"
  shows "(\<exists>g'. addExplicitDependencies ns g = Inr g') \<longleftrightarrow>
      (\<forall>n \<in> set ns. distinct (deps_of n) \<and> set (deps_of n) \<subseteq> set ids)"
    and "addExplicitDependencies ns g = Inr g' \<Longrightarrow>
      graph_ok ids g' \<and> edges (dg_adj g') = edges (dg_adj g) \<union> declared ns \<and> dg_nodeMap g' = dg_nodeMap g"
proof -
  show "(\<exists>g'. addExplicitDependencies ns g = Inr g') \<longleftrightarrow>
      (\<forall>n \<in> set ns. distinct (deps_of n) \<and> set (deps_of n) \<subseteq> set ids)"
    using assms
  proof (induction ns arbitrary: g)
    case (Cons n ns)
    from Cons.prems have i: "wn_id n \<in> set ids" by simp
    show ?case
    proof (cases "add_dependencies (wn_id n) [] (deps_of n) g")
      case (Inl err)
      then show ?thesis
        using add_dependencies_ok(1) [OF Cons.prems(1) i, of "[]" "deps_of n"]
        by (auto simp: deps_of_def [symmetric])
    next
      case (Inr g1)
      from add_dependencies_ok(2) [OF Cons.prems(1) i Inr] Cons.IH [of g1] Cons.prems
      show ?thesis
        using add_dependencies_ok(1) [OF Cons.prems(1) i, of "[]" "deps_of n"] Inr
        by (auto simp: deps_of_def [symmetric])
    qed
  qed simp
  show "addExplicitDependencies ns g = Inr g' \<Longrightarrow>
      graph_ok ids g' \<and> edges (dg_adj g') = edges (dg_adj g) \<union> declared ns \<and> dg_nodeMap g' = dg_nodeMap g"
    using assms
  proof (induction ns arbitrary: g)
    case (Cons n ns)
    from Cons.prems have i: "wn_id n \<in> set ids" by simp
    from Cons.prems(1) obtain g1 where g1: "add_dependencies (wn_id n) [] (deps_of n) g = Inr g1"
      "addExplicitDependencies ns g1 = Inr g'"
      by (auto simp: deps_of_def split: sum.splits)
    from add_dependencies_ok(2) [OF Cons.prems(2) i g1(1)] Cons.IH [OF g1(2)] Cons.prems
    show ?case by (auto simp: declared_Cons)
  qed (simp add: declared_def)
qed

subsection \<open>Implicit sequential dependencies\<close>

text \<open>A node that declares nothing follows the node before it, unless some node depends on it or the
  one before has an empty id.\<close>

definition sequential_pair :: "workflow_node list \<Rightarrow> workflow_node \<times> workflow_node \<Rightarrow> bool" where
  "sequential_pair nodes mn \<longleftrightarrow> wn_dependsOn (snd mn) = None \<and> wn_id (fst mn) \<noteq> [] \<and>
     \<not> hasAnyDependents nodes (wn_id (snd mn))"

definition implicit :: "workflow_node list \<Rightarrow> (string \<times> string) set" where
  "implicit nodes = (\<lambda>mn. (wn_id (fst mn), wn_id (snd mn))) `
     {mn \<in> set (zip nodes (tl nodes)). sequential_pair nodes mn}"

lemma degree_zero_iff:
  assumes "graph_ok ids g" "v \<in> set ids"
  shows "degree_of (dg_inDegree g) v = 0 \<longleftrightarrow> (\<forall>u. (u, v) \<notin> edges (dg_adj g))"
proof -
  have "degree_of (dg_inDegree g) v = 0 \<longleftrightarrow> (\<forall>u \<in> set ids. v \<notin> set (dependents_of (dg_adj g) u))"
    using assms by (simp add: graph_ok_def count_list_0_iff)
  moreover have "(u, v) \<in> edges (dg_adj g) \<Longrightarrow> u \<in> set ids" for u
    using assms by (auto simp: graph_ok_def)
  ultimately show ?thesis by (auto simp: edges_def)
qed

lemma pair_filter:
  "{x. (x = a \<or> x \<in> S) \<and> P x} = (if P a then insert a {x \<in> S. P x} else {x \<in> S. P x})"
  by auto

lemma add_sequential_ok:
  assumes "graph_ok ids g" "wn_id ` set (m # ns) \<subseteq> set ids" "distinct (map wn_id ns)"
    and "\<forall>n \<in> set ns. wn_dependsOn n = None \<longrightarrow> (\<forall>u. (u, wn_id n) \<notin> edges (dg_adj g))"
  shows "graph_ok ids (add_sequential nodes (Some (wn_id m)) ns g) \<and>
    edges (dg_adj (add_sequential nodes (Some (wn_id m)) ns g)) = edges (dg_adj g) \<union>
      (\<lambda>mn. (wn_id (fst mn), wn_id (snd mn))) ` {mn \<in> set (zip (m # ns) ns). sequential_pair nodes mn}"
  using assms
proof (induction ns arbitrary: m g)
  case (Cons n ns)
  show ?case
  proof (cases "sequential_pair nodes (m, n)")
    case True
    have i: "wn_id m \<in> set ids" "wn_id n \<in> set ids" using Cons.prems(2) by auto
    have "degree_of (dg_inDegree g) (wn_id n) = 0"
      using True Cons.prems(4) degree_zero_iff [OF Cons.prems(1) i(2)] by (simp add: sequential_pair_def)
    with True have e: "add_sequential nodes (Some (wn_id m)) (n # ns) g =
        add_sequential nodes (Some (wn_id n)) ns (add_edge (wn_id m) (wn_id n) g)"
      by (simp add: sequential_pair_def)
    have ok: "graph_ok ids (add_edge (wn_id m) (wn_id n) g)" using add_edge_ok [OF Cons.prems(1) i] .
    have "\<forall>n' \<in> set ns. wn_dependsOn n' = None \<longrightarrow>
        (\<forall>u. (u, wn_id n') \<notin> edges (dg_adj (add_edge (wn_id m) (wn_id n) g)))"
      using Cons.prems(3,4) by (auto simp: image_iff)
    with Cons.IH [OF ok, of n] Cons.prems(2,3) True show ?thesis
      unfolding e by (simp add: pair_filter)
  next
    case False
    have i: "wn_id n \<in> set ids" using Cons.prems(2) by auto
    have "wn_dependsOn n = None \<Longrightarrow> degree_of (dg_inDegree g) (wn_id n) = 0"
      using Cons.prems(4) degree_zero_iff [OF Cons.prems(1) i] by simp
    with False have e: "add_sequential nodes (Some (wn_id m)) (n # ns) g = add_sequential nodes (Some (wn_id n)) ns g"
      by (auto simp: sequential_pair_def)
    with Cons.IH [of g n] Cons.prems False show ?thesis unfolding e by (simp add: pair_filter)
  qed
qed simp

lemma declared_into_undeclared:
  "distinct (map wn_id nodes) \<Longrightarrow> n \<in> set nodes \<Longrightarrow> wn_dependsOn n = None \<Longrightarrow> (u, wn_id n) \<notin> declared nodes"
  by (auto simp: declared_def distinct_map inj_on_def)

lemma buildGraph_props:
  assumes "buildGraph nodes = Inr g"
  shows "graph_ok (map wn_id nodes) g \<and> edges (dg_adj g) = declared nodes \<union> implicit nodes"
proof -
  let ?ids = "map wn_id nodes"
  from assms obtain g0 where "register_nodes nodes empty_graph = Inr g0"
    by (auto simp: buildGraph_def split: sum.splits)
  then have reg: "register_nodes nodes empty_graph = Inr (blank_graph nodes)"
    by (simp add: register_nodes_empty)
  with assms obtain g1 where d: "distinct ?ids" and g1: "addExplicitDependencies nodes (blank_graph nodes) = Inr g1"
    and g: "g = add_sequential nodes None nodes g1"
    using register_nodes_empty [of nodes "blank_graph nodes"]
    by (auto simp: buildGraph_def split: sum.splits)
  have ok: "graph_ok ?ids g1" "edges (dg_adj g1) = declared nodes"
    using explicit_ok(2) [OF blank_ok [OF d] _ g1] blank_dependents [of nodes] by (auto simp: edges_def)
  show ?thesis
  proof (cases nodes)
    case Nil
    with ok g show ?thesis by (simp add: implicit_def)
  next
    case (Cons m ns)
    have "\<forall>n \<in> set ns. wn_dependsOn n = None \<longrightarrow> (\<forall>u. (u, wn_id n) \<notin> edges (dg_adj g1))"
      using declared_into_undeclared [OF d] ok(2) Cons by auto
    with add_sequential_ok [OF ok(1), of m ns nodes] d ok(2) g Cons show ?thesis
      by (simp add: implicit_def)
  qed
qed

lemma buildGraph_succeeds:
  "(\<exists>g. buildGraph nodes = Inr g) \<longleftrightarrow> distinct (map wn_id nodes) \<and>
     (\<forall>n \<in> set nodes. distinct (deps_of n) \<and> set (deps_of n) \<subseteq> wn_id ` set nodes)"
proof (cases "distinct (map wn_id nodes)")
  case True
  then have "register_nodes nodes empty_graph = Inr (blank_graph nodes)"
    by (simp add: register_nodes_empty)
  with True explicit_ok(1) [OF blank_ok [OF True], of nodes] show ?thesis
    by (auto simp: buildGraph_def split: sum.splits)
next
  case False
  then show ?thesis using register_nodes_empty [of nodes] by (auto simp: buildGraph_def split: sum.splits)
qed

text \<open>A workflow graph is built exactly when node ids are distinct and every declared dependency
  names a node, once. Its edges are the declared dependencies and, for a node that declares none, one
  from the node before it, unless some node depends on it; and the in-degree of every node is the number
  of edges into it.\<close>

theorem buildGraph_correct:
  "(\<exists>g. buildGraph nodes = Inr g) = (distinct (map wn_id nodes) \<and>
     (\<forall>n \<in> set nodes. distinct (deps_of n) \<and> set (deps_of n) \<subseteq> wn_id ` set nodes))
   \<and> (\<forall>g. buildGraph nodes = Inr g \<longrightarrow>
        edges (dg_adj g) = declared nodes \<union> implicit nodes \<and>
        (\<forall>v \<in> wn_id ` set nodes. degree_of (dg_inDegree g) v =
           (\<Sum>u \<in> wn_id ` set nodes. count_list (dependents_of (dg_adj g) u) v)))"
  using buildGraph_succeeds [of nodes] buildGraph_props [of nodes] by (auto simp: graph_ok_def)

text \<open>Three nodes: the second follows the first, the third declares the first.\<close>

definition abc_nodes :: "workflow_node list" where
  "abc_nodes = [\<lparr>wn_id = ''a'', wn_dependsOn = None\<rparr>, \<lparr>wn_id = ''b'', wn_dependsOn = None\<rparr>,
     \<lparr>wn_id = ''c'', wn_dependsOn = Some [''a'']\<rparr>]"

subsection \<open>Cycle detection is exact\<close>

text \<open>Finished nodes: visited and no longer on the stack. The invariant: the finished nodes are closed
  under edges and none lies on a cycle.\<close>

definition finished :: "dfs_state \<Rightarrow> string set" where
  "finished s = set (fst s) - set (snd s)"

definition dfs_inv :: "(string \<times> string list) list \<Rightarrow> dfs_state \<Rightarrow> bool" where
  "dfs_inv adj s \<longleftrightarrow> set (snd s) \<subseteq> set (fst s) \<and> edges adj `` finished s \<subseteq> finished s \<and>
     (\<forall>x \<in> finished s. (x, x) \<notin> (edges adj)\<^sup>+)"

definition cyclic :: "(string \<times> string list) list \<Rightarrow> bool" where
  "cyclic adj \<longleftrightarrow> (\<exists>x. (x, x) \<in> (edges adj)\<^sup>+)"

lemma closed_trancl: "(x, y) \<in> r\<^sup>+ \<Longrightarrow> r `` S \<subseteq> S \<Longrightarrow> x \<in> S \<Longrightarrow> y \<in> S"
  by (induction rule: trancl_induct) auto

text \<open>A node whose successors are all finished can be finished.\<close>

lemma dfs_inv_finish:
  assumes inv: "dfs_inv adj (vis, stk)" and v: "v \<in> set stk" and succ: "edges adj `` {v} \<subseteq> finished (vis, stk)"
  shows "dfs_inv adj (vis, filter (\<lambda>x. x \<noteq> v) stk)"
proof -
  let ?F = "finished (vis, stk)"
  have vis: "v \<in> set vis" and cl: "edges adj `` ?F \<subseteq> ?F" and ac: "\<forall>x \<in> ?F. (x, x) \<notin> (edges adj)\<^sup>+"
    using inv v by (auto simp: dfs_inv_def)
  have F: "finished (vis, filter (\<lambda>x. x \<noteq> v) stk) = insert v ?F"
    using v vis by (auto simp: finished_def)
  have nv: "v \<notin> ?F" using v by (simp add: finished_def)
  have "(v, v) \<notin> (edges adj)\<^sup>+"
  proof
    assume "(v, v) \<in> (edges adj)\<^sup>+"
    then obtain w where "(v, w) \<in> edges adj" "w = v \<or> (w, v) \<in> (edges adj)\<^sup>+"
      by (metis converse_tranclE)
    with succ closed_trancl [OF _ cl] nv show False by blast
  qed
  with cl ac succ inv show ?thesis unfolding dfs_inv_def F by auto
qed

definition dfs_result :: "(string \<times> string list) list \<Rightarrow> string set \<Rightarrow> string set \<Rightarrow> bool \<Rightarrow>
    (bool \<times> dfs_state) option \<Rightarrow> bool" where
  "dfs_result adj vis' stk' onPath res \<longleftrightarrow>
     (case res of
        None \<Rightarrow> False
      | Some (found, s) \<Rightarrow>
          if found then onPath \<longrightarrow> cyclic adj
          else dfs_inv adj s \<and> set (snd s) = stk' \<and> vis' \<subseteq> set (fst s))"

abbreviation reaches_from :: "(string \<times> string list) list \<Rightarrow> string list \<Rightarrow> string \<Rightarrow> bool" where
  "reaches_from adj stk v \<equiv> (\<forall>u \<in> set stk. (u, v) \<in> (edges adj)\<^sup>*)"

lemma dfs_loop_step:
  assumes V: "finite V" "edges adj \<subseteq> V \<times> V"
    and inv: "dfs_inv adj (vis, stk)" and v: "v \<in> set stk"
    and ns: "n \<in> edges adj `` {v}" "edges adj `` {v} \<subseteq> set (n # ns) \<union> finished (vis, stk)"
    and card: "card (V - set vis) \<le> k"
    and dfs: "n \<notin> set vis \<Longrightarrow> dfs_result adj (insert n (set vis)) (set stk) (reaches_from adj stk n)
        (dfs k adj n (vis, stk))"
    and rest: "\<And>s. dfs_inv adj s \<Longrightarrow> set (snd s) = set stk \<Longrightarrow> set vis \<subseteq> set (fst s) \<Longrightarrow>
        edges adj `` {v} \<subseteq> set ns \<union> finished s \<Longrightarrow>
        dfs_result adj (set vis) (set stk - {v}) (reaches_from adj stk v) (dfs_loop k adj v ns s)"
  shows "dfs_result adj (set vis) (set stk - {v}) (reaches_from adj stk v) (dfs_loop k adj v (n # ns) (vis, stk))"
proof (cases "n \<in> set vis")
  case True
  show ?thesis
  proof (cases "n \<in> set stk")
    case on: True
    have "reaches_from adj stk v \<Longrightarrow> cyclic adj"
      using on ns(1) unfolding cyclic_def by (metis Image_singleton_iff rtrancl_into_trancl2)
    with True on show ?thesis by (auto simp: dfs_result_def)
  next
    case off: False
    with True have "n \<in> finished (vis, stk)" by (simp add: finished_def)
    with rest [of "(vis, stk)"] inv ns True off show ?thesis by auto
  qed
next
  case False
  from dfs [OF False] obtain found s where s: "dfs k adj n (vis, stk) = Some (found, s)"
    "if found then reaches_from adj stk n \<longrightarrow> cyclic adj
     else dfs_inv adj s \<and> set (snd s) = set stk \<and> insert n (set vis) \<subseteq> set (fst s)"
    by (auto simp: dfs_result_def split: option.splits)
  show ?thesis
  proof (cases found)
    case True
    have "reaches_from adj stk v \<Longrightarrow> reaches_from adj stk n"
      using ns(1) by (auto intro: rtrancl_into_rtrancl)
    with True s False show ?thesis by (simp add: dfs_result_def)
  next
    case nf: False
    have "n \<notin> set stk" using False inv by (auto simp: dfs_inv_def)
    then have "n \<in> finished s" "finished (vis, stk) \<subseteq> finished s"
      using nf s(2) by (auto simp: finished_def)
    with rest [of s] nf s ns(2) False show ?thesis by auto
  qed
qed

lemma dfs_result_mono:
  "dfs_result adj vis1 stk' p res \<Longrightarrow> vis2 \<subseteq> vis1 \<Longrightarrow> q \<longrightarrow> p \<Longrightarrow> dfs_result adj vis2 stk' q res"
  by (auto simp: dfs_result_def split: option.splits if_splits)

lemma dfs_correct:
  assumes V: "finite V" "edges adj \<subseteq> V \<times> V"
  shows "dfs_inv adj (vis, stk) \<Longrightarrow> v \<notin> set vis \<Longrightarrow> v \<in> V \<Longrightarrow> card (V - set vis) \<le> k \<Longrightarrow>
      dfs_result adj (insert v (set vis)) (set stk) (reaches_from adj stk v) (dfs k adj v (vis, stk))"
    and "dfs_inv adj (vis, stk) \<Longrightarrow> v \<in> set stk \<Longrightarrow> set ns \<subseteq> edges adj `` {v} \<Longrightarrow>
      edges adj `` {v} \<subseteq> set ns \<union> finished (vis, stk) \<Longrightarrow> card (V - set vis) \<le> k \<Longrightarrow>
      dfs_result adj (set vis) (set stk - {v}) (reaches_from adj stk v) (dfs_loop k adj v ns (vis, stk))"
proof -
  have loop: "dfs_result adj (set vis) (set stk - {v}) (reaches_from adj stk v) (dfs_loop k adj v ns (vis, stk))"
    if D: "\<And>n vis stk. dfs_inv adj (vis, stk) \<Longrightarrow> n \<notin> set vis \<Longrightarrow> n \<in> V \<Longrightarrow> card (V - set vis) \<le> k \<Longrightarrow>
        dfs_result adj (insert n (set vis)) (set stk) (reaches_from adj stk n) (dfs k adj n (vis, stk))"
      and "dfs_inv adj (vis, stk)" "v \<in> set stk" "set ns \<subseteq> edges adj `` {v}"
        "edges adj `` {v} \<subseteq> set ns \<union> finished (vis, stk)" "card (V - set vis) \<le> k"
    for k vis stk v ns
    using that(2-)
  proof (induction ns arbitrary: vis stk)
    case Nil
    then show ?case using dfs_inv_finish [of adj vis stk v] by (auto simp: dfs_result_def)
  next
    case (Cons n ns)
    show ?case
    proof (rule dfs_loop_step [OF V Cons.prems(1,2)])
      show "n \<in> edges adj `` {v}" "edges adj `` {v} \<subseteq> set (n # ns) \<union> finished (vis, stk)"
        "card (V - set vis) \<le> k"
        using Cons.prems by auto
      show "dfs_result adj (insert n (set vis)) (set stk) (reaches_from adj stk n) (dfs k adj n (vis, stk))"
        if "n \<notin> set vis"
        using D [OF Cons.prems(1) that _ Cons.prems(5)] Cons.prems(3) V(2) by auto
      fix s
      assume s: "dfs_inv adj s" "set (snd s) = set stk" "set vis \<subseteq> set (fst s)"
        "edges adj `` {v} \<subseteq> set ns \<union> finished s"
      have "card (V - set (fst s)) \<le> k"
        using Cons.prems(5) card_mono [of "V - set vis" "V - set (fst s)"] V(1) s(3) by fastforce
      with Cons.IH [of "fst s" "snd s"] s Cons.prems(2,3)
      have "dfs_result adj (set (fst s)) (set stk - {v}) (reaches_from adj stk v) (dfs_loop k adj v ns s)"
        by simp
      then show "dfs_result adj (set vis) (set stk - {v}) (reaches_from adj stk v) (dfs_loop k adj v ns s)"
        by (rule dfs_result_mono) (use s(3) in auto)
    qed
  qed
  have main: "dfs_result adj (insert v (set vis)) (set stk) (reaches_from adj stk v) (dfs k adj v (vis, stk))"
    if "dfs_inv adj (vis, stk)" "v \<notin> set vis" "v \<in> V" "card (V - set vis) \<le> k" for k v vis stk
    using that
  proof (induction k arbitrary: v vis stk)
    case 0
    then show ?case using V(1) by auto
  next
    case (Suc k)
    let ?vis = "set_add v vis" and ?stk = "set_add v stk"
    have vs: "v \<notin> set stk" using Suc.prems by (auto simp: dfs_inv_def)
    then have f: "finished (?vis, ?stk) = finished (vis, stk)" using Suc.prems(2) by (auto simp: finished_def)
    have ck: "card (V - set ?vis) \<le> k"
    proof -
      have "V - set ?vis = (V - set vis) - {v}" by auto
      then show ?thesis using Suc.prems(2-4) card_Diff_singleton [of v "V - set vis"] by simp
    qed
    have inv: "dfs_inv adj (?vis, ?stk)" using Suc.prems(1) unfolding dfs_inv_def f by auto
    have "dfs_result adj (set ?vis) (set ?stk - {v}) (reaches_from adj ?stk v)
        (dfs_loop k adj v (dependents_of adj v) (?vis, ?stk))"
      by (rule loop [OF Suc.IH inv _ _ _ ck]) (simp_all add: edges_def subset_iff)
    then have "dfs_result adj (insert v (set vis)) (set stk) (reaches_from adj ?stk v) (dfs (Suc k) adj v (vis, stk))"
      using vs by simp
    then show ?case by (rule dfs_result_mono) auto
  qed
  show "dfs_inv adj (vis, stk) \<Longrightarrow> v \<notin> set vis \<Longrightarrow> v \<in> V \<Longrightarrow> card (V - set vis) \<le> k \<Longrightarrow>
      dfs_result adj (insert v (set vis)) (set stk) (reaches_from adj stk v) (dfs k adj v (vis, stk))"
    by (rule main)
  show "dfs_inv adj (vis, stk) \<Longrightarrow> v \<in> set stk \<Longrightarrow> set ns \<subseteq> edges adj `` {v} \<Longrightarrow>
      edges adj `` {v} \<subseteq> set ns \<union> finished (vis, stk) \<Longrightarrow> card (V - set vis) \<le> k \<Longrightarrow>
      dfs_result adj (set vis) (set stk - {v}) (reaches_from adj stk v) (dfs_loop k adj v ns (vis, stk))"
    by (rule loop [OF main])
qed

lemma cycle_loop_correct:
  assumes V: "finite V" "edges adj \<subseteq> V \<times> V" "card V \<le> k"
  shows "dfs_inv adj (vis, stk) \<Longrightarrow> set stk = {} \<Longrightarrow> wn_id ` set ns \<subseteq> V \<Longrightarrow>
    V \<subseteq> set vis \<union> wn_id ` set ns \<Longrightarrow> cycle_loop k adj ns (vis, stk) = Some (cyclic adj)"
proof (induction ns arbitrary: vis stk)
  case Nil
  then have "\<forall>x \<in> V. (x, x) \<notin> (edges adj)\<^sup>+" by (auto simp: dfs_inv_def finished_def)
  moreover have "(x, x) \<in> (edges adj)\<^sup>+ \<Longrightarrow> x \<in> V" for x
    using V(2) by (meson SigmaD1 subsetD tranclD)
  ultimately show ?case by (auto simp: cyclic_def)
next
  case (Cons n ns)
  show ?case
  proof (cases "wn_id n \<in> set vis")
    case True
    with Cons show ?thesis by auto
  next
    case False
    have "card (V - set vis) \<le> k" using V(1,3) card_mono [of V "V - set vis"] by fastforce
    with dfs_correct(1) [OF V(1,2) Cons.prems(1) False] Cons.prems(2,3)
    have "dfs_result adj (insert (wn_id n) (set vis)) {} True (dfs k adj (wn_id n) (vis, stk))" by simp
    then obtain found s where s: "dfs k adj (wn_id n) (vis, stk) = Some (found, s)"
      "found \<longrightarrow> cyclic adj"
      "\<not> found \<longrightarrow> dfs_inv adj s \<and> set (snd s) = {} \<and> insert (wn_id n) (set vis) \<subseteq> set (fst s)"
      by (auto simp: dfs_result_def split: option.splits if_splits)
    have "\<not> found \<Longrightarrow> V \<subseteq> set (fst s) \<union> wn_id ` set ns" using s(3) Cons.prems(4) by auto
    with Cons.IH [of "fst s" "snd s"] Cons.prems(3) False s show ?thesis by (cases found) auto
  qed
qed

lemma hasCycle_returns:
  assumes e: "edges adj \<subseteq> wn_id ` set nodes \<times> wn_id ` set nodes"
  shows "hasCycle nodes adj = Some (cyclic adj)"
proof -
  have "card (wn_id ` set nodes) \<le> length nodes"
    using card_image_le [of "set nodes" wn_id] card_length [of nodes] by simp
  moreover have "dfs_inv adj ([], [])" by (simp add: dfs_inv_def finished_def)
  ultimately show ?thesis unfolding hasCycle_def using e by (intro cycle_loop_correct) auto
qed

text \<open>C13: Cycle detection terminates and is exact. For every graph whose edges stay among the declared
  nodes, the depth-first search returns, within a recursion depth of the number of nodes, and answers
  that there is a cycle exactly when some node reaches itself along one or more edges.\<close>

theorem hasCycle_exact:
  "edges adj \<subseteq> wn_id ` set nodes \<times> wn_id ` set nodes \<Longrightarrow>
   hasCycle nodes adj = Some (\<exists>x. (x, x) \<in> (edges adj)\<^sup>+)"
  using hasCycle_returns [of adj nodes] by (simp add: cyclic_def)

theorem hasCycle_exact_witness:
  "hasCycle abc_nodes [(''a'', [''b'']), (''b'', [''a'']), (''c'', [])] = Some True"
proof -
  let ?adj = "[(''a'', [''b'']), (''b'', [''a'']), (''c'', [])] :: (string \<times> string list) list"
  have e: "edges ?adj = {(''a'', ''b''), (''b'', ''a'')}"
    by (auto simp: edges_def dependents_of_def split: if_splits)
  have "edges ?adj \<subseteq> wn_id ` set abc_nodes \<times> wn_id ` set abc_nodes" by (simp add: e abc_nodes_def)
  moreover have "(''a'', ''b'') \<in> edges ?adj" "(''b'', ''a'') \<in> edges ?adj" by (simp_all add: e)
  then have "(''a'', ''a'') \<in> (edges ?adj)\<^sup>+" by (rule trancl_into_trancl [OF r_into_trancl])
  then have c: "(\<exists>x. (x, x) \<in> (edges ?adj)\<^sup>+) = True" by blast
  ultimately show ?thesis using hasCycle_exact [of ?adj abc_nodes] unfolding c by blast
qed

subsection \<open>Readiness\<close>

lemma degree_lower: "degree_of (lower_degree i m) v = degree_of m v - (if v = i then 1 else 0)"
  by (auto simp: lower_degree_def degree_set)

lemma keys_lower: "jm_keys (lower_degree i m) = jm_keys m"
proof (cases "degree_of m i > 0")
  case True
  then have "i \<in> set (jm_keys m)"
    by (auto simp: degree_of_def split: option.splits dest: map_of_SomeD) (metis fst_conv imageI map_of_SomeD)
  with True show ?thesis by (simp add: lower_degree_def jsmap_simps)
qed (simp add: lower_degree_def)

lemma degree_fold_lower: "degree_of (fold lower_degree ds m) v = degree_of m v - count_list ds v"
  by (induction ds arbitrary: m) (auto simp: degree_lower)

lemma keys_fold_lower: "jm_keys (fold lower_degree ds m) = jm_keys m"
  by (induction ds arbitrary: m) (auto simp: keys_lower)

definition done_nodes :: "(string \<times> node_status) list \<Rightarrow> string set" where
  "done_nodes states = {i. \<exists>st. jm_get states i = Some st \<and> finished_status st}"

lemma done_nodes_Cons:
  "jm_ok ((i, st) # states) \<Longrightarrow>
   done_nodes ((i, st) # states) = (if finished_status st then insert i (done_nodes states) else done_nodes states)
   \<and> i \<notin> done_nodes states"
  by (auto simp: done_nodes_def jm_ok_def dest!: map_of_SomeD split: if_splits) force+

lemma finite_done: "finite (done_nodes states)"
proof (rule finite_subset)
  show "done_nodes states \<subseteq> set (jm_keys states)"
    by (auto simp: done_nodes_def dest!: map_of_SomeD) force
qed simp

lemma update_keys: "jm_keys (updateInDegreesForCompletedNodes states adj m) = jm_keys m"
  by (induction states adj m rule: updateInDegreesForCompletedNodes.induct) (simp_all add: keys_fold_lower)

lemma update_degree:
  "jm_ok states \<Longrightarrow> degree_of (updateInDegreesForCompletedNodes states adj m) v =
     degree_of m v - (\<Sum>u \<in> done_nodes states. count_list (dependents_of adj u) v)"
proof (induction states adj m rule: updateInDegreesForCompletedNodes.induct)
  case (1 adj m)
  then show ?case by (simp add: done_nodes_def)
next
  case (2 i st states adj m)
  have "jm_ok states" using "2.prems" by (simp add: jm_ok_def)
  with "2.IH" done_nodes_Cons [OF "2.prems"] finite_done [of states] show ?case
    by (simp add: degree_fold_lower)
qed

lemma sum_covers_iff:
  fixes f :: "string \<Rightarrow> nat"
  assumes "finite A" "finite D" "\<And>u. u \<notin> A \<Longrightarrow> f u = 0"
  shows "sum f A \<le> sum f D \<longleftrightarrow> (\<forall>u. u \<notin> D \<longrightarrow> f u = 0)"
proof -
  have "sum f D = sum f (A \<inter> D)"
  proof (rule sum.mono_neutral_right)
    show "\<forall>i \<in> D - A \<inter> D. f i = 0" using assms(3) by blast
  qed (use assms in auto)
  moreover have "sum f A = sum f (A \<inter> D) + sum f (A - D)"
    using assms(1) by (metis Diff_Int2 Diff_disjoint Int_Diff Un_Diff_Int finite_Diff finite_Int inf_commute sum.union_disjoint sum.Int_Diff)
  ultimately have "sum f A \<le> sum f D \<longleftrightarrow> sum f (A - D) = 0" by simp
  also have "\<dots> \<longleftrightarrow> (\<forall>u \<in> A - D. f u = 0)" using assms(1) by simp
  finally show ?thesis using assms(3) by auto
qed

text \<open>A node is ready exactly when its dependencies are done. After building the graph and
  accounting for the recorded node states, the ready nodes are those whose every predecessor is
  completed or skipped and which themselves have no state, are pending, or failed.\<close>

theorem ready_iff_dependencies_done:
  assumes "buildGraph nodes = Inr g" "jm_ok states"
  shows "v \<in> set (getReadyNodes (updateInDegreesForCompletedNodes states (dg_adj g) (dg_inDegree g)) states) \<longleftrightarrow>
    v \<in> wn_id ` set nodes \<and>
    (\<forall>u. (u, v) \<in> declared nodes \<union> implicit nodes \<longrightarrow>
       (\<exists>st. jm_get states u = Some st \<and> (st = NCompleted \<or> st = NSkipped))) \<and>
    (case jm_get states v of None \<Rightarrow> True | Some st \<Rightarrow> st = NPending \<or> st = NFailed)"
proof -
  let ?m = "updateInDegreesForCompletedNodes states (dg_adj g) (dg_inDegree g)"
  let ?c = "\<lambda>u. count_list (dependents_of (dg_adj g) u) v"
  let ?ids = "map wn_id nodes"
  have ok: "graph_ok ?ids g" and e: "edges (dg_adj g) = declared nodes \<union> implicit nodes"
    using buildGraph_props [OF assms(1)] by auto
  have keys: "jm_keys ?m = ?ids" "distinct ?ids" using ok by (auto simp: update_keys graph_ok_def)
  then have jm: "jm_ok ?m" by (simp add: jm_ok_def)
  have mem: "v \<in> set (getReadyNodes ?m states) \<longleftrightarrow> v \<in> set ?ids \<and> degree_of ?m v = 0 \<and>
      (case jm_get states v of None \<Rightarrow> True | Some st \<Rightarrow> st = NPending \<or> st = NFailed)"
  proof -
    have "v \<in> set (getReadyNodes ?m states) \<longleftrightarrow> jm_get ?m v = Some 0 \<and>
      (case jm_get states v of None \<Rightarrow> True | Some st \<Rightarrow> st = NPending \<or> st = NFailed)"
      using jm_get_in_set [OF jm, of v 0] by (force simp: getReadyNodes_def)
    moreover have "jm_get ?m v = Some 0 \<longleftrightarrow> v \<in> set ?ids \<and> degree_of ?m v = 0"
    proof -
      have "jm_get ?m v = None \<longleftrightarrow> v \<notin> set ?ids" using keys(1) by (metis map_of_eq_None_iff set_map)
      then show ?thesis by (cases "jm_get ?m v") (auto simp: degree_of_def)
    qed
    ultimately show ?thesis by auto
  qed
  have zero: "degree_of ?m v = 0 \<longleftrightarrow> (\<forall>u. u \<notin> done_nodes states \<longrightarrow> ?c u = 0)" if v: "v \<in> set ?ids"
  proof -
    have out: "u \<notin> set ?ids \<Longrightarrow> ?c u = 0" for u
      using ok by (auto simp: graph_ok_def edges_def count_list_0_iff)
    have "degree_of ?m v = 0 \<longleftrightarrow> sum ?c (set ?ids) \<le> sum ?c (done_nodes states)"
    proof -
      have "degree_of (dg_inDegree g) v = sum ?c (set ?ids)" using ok v unfolding graph_ok_def by blast
      then show ?thesis using update_degree [OF assms(2), of "dg_adj g" "dg_inDegree g" v] by simp
    qed
    also have "\<dots> \<longleftrightarrow> (\<forall>u. u \<notin> done_nodes states \<longrightarrow> ?c u = 0)"
      by (rule sum_covers_iff) (use out finite_done in auto)
    finally show ?thesis .
  qed
  have "(\<forall>u. u \<notin> done_nodes states \<longrightarrow> ?c u = 0) \<longleftrightarrow>
      (\<forall>u. (u, v) \<in> declared nodes \<union> implicit nodes \<longrightarrow>
       (\<exists>st. jm_get states u = Some st \<and> (st = NCompleted \<or> st = NSkipped)))"
    unfolding e [symmetric] by (auto simp: edges_def done_nodes_def finished_status_def count_list_0_iff)
  with mem zero show ?thesis by auto
qed

end
