(* ===== verification/WorkflowPatch.thy ===== *)
theory WorkflowPatch
  imports Prelude
begin

text \<open>
  Patches of workflow context and node-state records, \<open>workflow/executor/dag/context-patch.ts\<close>. A
  record is an insertion-ordered map from keys to values; \<open>isDeepStrictEqual\<close> of the host is the
  argument \<open>eq\<close>. Cloning is the identity here (HOL values do not alias); its failure on values that
  cannot be cloned is the argument \<open>cloneable\<close>.
\<close>

record 'v record_patch =
  rp_set :: "(string \<times> 'v) list"
  rp_delete :: "string list"

datatype clone_error = NotCloneable string

definition cloneExecutionState :: "('a \<Rightarrow> bool) \<Rightarrow> 'a \<Rightarrow> string \<Rightarrow> clone_error + 'a" where
  "cloneExecutionState cloneable value label = (if cloneable value then Inr value else Inl (NotCloneable label))"

definition createRecordPatch :: "('v \<Rightarrow> 'v \<Rightarrow> bool) \<Rightarrow> (string \<times> 'v) list \<Rightarrow> (string \<times> 'v) list \<Rightarrow>
    'v record_patch" where
  "createRecordPatch eq before after =
     \<lparr>rp_set = fold (\<lambda>(k, v) acc.
         case jm_get before k of
           Some w \<Rightarrow> if eq w v then acc else jm_set k v acc
         | None \<Rightarrow> jm_set k v acc) after [],
      rp_delete = filter (\<lambda>k. jm_get after k = None) (jm_keys before)\<rparr>"

definition createSetContextPatch :: "(string \<times> 'v) list \<Rightarrow> 'v record_patch" where
  "createSetContextPatch values = \<lparr>rp_set = fold (\<lambda>(k, v). jm_set k v) values [], rp_delete = []\<rparr>"

definition merge_one :: "'v record_patch \<Rightarrow> 'v record_patch \<Rightarrow> 'v record_patch" where
  "merge_one p m =
     (let m1 = fold (\<lambda>k q. q\<lparr>rp_set := jm_del k (rp_set q), rp_delete := set_add k (rp_delete q)\<rparr>)
                 (rp_delete p) m
      in fold (\<lambda>(k, v) q. q\<lparr>rp_delete := filter (\<lambda>x. x \<noteq> k) (rp_delete q), rp_set := jm_set k v (rp_set q)\<rparr>)
           (rp_set p) m1)"

definition mergeContextPatches :: "'v record_patch list \<Rightarrow> 'v record_patch" where
  "mergeContextPatches ps = fold merge_one ps (createSetContextPatch [])"

definition applyRecordPatch :: "'v record_patch \<Rightarrow> (string \<times> 'v) list \<Rightarrow> (string \<times> 'v) list" where
  "applyRecordPatch p target = fold (\<lambda>(k, v). jm_set k v) (rp_set p) (fold jm_del (rp_delete p) target)"

subsection \<open>What a patch does to a key\<close>

lemma get_fold_del: "jm_get (fold jm_del ks m) k = (if k \<in> set ks then None else jm_get m k)"
  by (induction ks arbitrary: m) (auto simp: jsmap_simps)

lemma get_fold_set:
  "jm_get (fold (\<lambda>(k, v). jm_set k v) kvs m) k =
     (case jm_get (rev kvs) k of Some v \<Rightarrow> Some v | None \<Rightarrow> jm_get m k)"
  by (induction kvs arbitrary: m) (auto simp: jsmap_simps map_add_def split: option.splits)

text \<open>The effect of a patch on one key: set, deleted or untouched.\<close>

definition effect :: "'v record_patch \<Rightarrow> string \<Rightarrow> 'v option option" where
  "effect p k = (case jm_get (rev (rp_set p)) k of
     Some v \<Rightarrow> Some (Some v)
   | None \<Rightarrow> if k \<in> set (rp_delete p) then Some None else None)"

lemma get_apply:
  "jm_get (applyRecordPatch p m) k = (case effect p k of Some r \<Rightarrow> r | None \<Rightarrow> jm_get m k)"
  by (auto simp: applyRecordPatch_def effect_def get_fold_set get_fold_del split: option.splits)

lemma jm_rev:
  assumes "jm_ok m"
  shows "jm_get (rev m) k = jm_get m k"
proof -
  have "jm_ok (rev m)" using assms by (simp add: jm_ok_def rev_map [symmetric])
  then have "jm_get (rev m) k = Some v \<longleftrightarrow> jm_get m k = Some v" for v
    using jm_get_in_set [OF assms] jm_get_in_set [of "rev m"] by simp
  then show ?thesis by (metis option.exhaust)
qed

lemma fold_patch_ok:
  assumes "jm_ok m"
  shows "jm_ok (fold (\<lambda>(k, v) acc. case jm_get before k of
      Some w \<Rightarrow> if eq w v then acc else jm_set k v acc | None \<Rightarrow> jm_set k v acc) after m)"
  using assms
proof (induction after arbitrary: m)
  case (Cons kv after)
  then show ?case by (cases kv) (auto simp: jm_ok_set split: option.split)
qed simp

lemma get_create_set:
  assumes "jm_ok m"
  shows "jm_ok after \<Longrightarrow> (\<forall>j. jm_get after j = None \<or> jm_get m j = None) \<Longrightarrow>
   jm_get (fold (\<lambda>(k, v) acc. case jm_get before k of
      Some w \<Rightarrow> if eq w v then acc else jm_set k v acc | None \<Rightarrow> jm_set k v acc) after m) k =
   (case jm_get after k of
      Some v \<Rightarrow> (case jm_get before k of Some w \<Rightarrow> if eq w v then jm_get m k else Some v | None \<Rightarrow> Some v)
    | None \<Rightarrow> jm_get m k)"
  using assms
proof (induction after arbitrary: m)
  case (Cons kv after)
  obtain i v where kv: "kv = (i, v)" by (cases kv)
  let ?m1 = "case jm_get before i of Some w \<Rightarrow> if eq w v then m else jm_set i v m | None \<Rightarrow> jm_set i v m"
  have n: "jm_get after i = None" "jm_get m i = None" and ao: "jm_ok after"
    using Cons.prems(1) Cons.prems(2) [rule_format, of i] by (auto simp: kv jm_ok_def map_of_eq_None_iff)
  have d: "\<forall>j. jm_get after j = None \<or> jm_get ?m1 j = None"
    using Cons.prems(2) n by (auto simp: kv jsmap_simps split: option.split if_splits)
  have "jm_ok ?m1" using Cons.prems(3) by (auto split: option.split)
  with Cons.IH [OF ao d] n show ?case by (auto simp: kv jsmap_simps split: option.split)
qed simp

lemma effect_create:
  assumes "jm_ok before" "jm_ok after"
  shows "effect (createRecordPatch eq before after) k =
    (case (jm_get before k, jm_get after k) of
       (None, None) \<Rightarrow> None
     | (Some w, None) \<Rightarrow> Some None
     | (None, Some v) \<Rightarrow> Some (Some v)
     | (Some w, Some v) \<Rightarrow> if eq w v then None else Some (Some v))"
proof -
  have ok: "jm_ok (rp_set (createRecordPatch eq before after))"
    by (simp add: createRecordPatch_def fold_patch_ok)
  have d: "k \<in> set (rp_delete (createRecordPatch eq before after)) \<longleftrightarrow>
      jm_get before k \<noteq> None \<and> jm_get after k = None"
    by (auto simp: createRecordPatch_def map_of_eq_None_iff)
  show ?thesis
    using get_create_set [OF jm_ok_Nil assms(2), where before = before and eq = eq and k = k] d
    unfolding effect_def jm_rev [OF ok]
    by (auto simp: createRecordPatch_def split: option.split)
qed

text \<open>Recording a change and replaying it reproduces it. Applying the patch between two records to
  the first one gives, at every key, the value of the second (up to the deep equality that decided a
  value had not changed) and no other keys.\<close>

theorem patch_reproduces_change:
  assumes "jm_ok before" "jm_ok after"
  shows "rel_option (\<lambda>x y. x = y \<or> eq x y)
    (jm_get (applyRecordPatch (createRecordPatch eq before after) before) k) (jm_get after k)"
  by (auto simp: get_apply effect_create [OF assms] split: option.split)

subsection \<open>Merging patches\<close>

definition patch_ok :: "'v record_patch \<Rightarrow> bool" where
  "patch_ok p \<longleftrightarrow> jm_ok (rp_set p) \<and> (\<forall>k \<in> set (rp_delete p). jm_get (rp_set p) k = None)"

lemma effect_ok:
  "patch_ok p \<Longrightarrow> effect p k = (if k \<in> set (rp_delete p) then Some None else map_option Some (jm_get (rp_set p) k))"
  by (auto simp: effect_def patch_ok_def jm_rev split: option.split)

lemma merge_delete:
  "patch_ok q \<Longrightarrow> patch_ok (q\<lparr>rp_set := jm_del i (rp_set q), rp_delete := set_add i (rp_delete q)\<rparr>) \<and>
   effect (q\<lparr>rp_set := jm_del i (rp_set q), rp_delete := set_add i (rp_delete q)\<rparr>) k =
     (if k = i then Some None else effect q k)"
proof -
  assume q: "patch_ok q"
  let ?q = "q\<lparr>rp_set := jm_del i (rp_set q), rp_delete := set_add i (rp_delete q)\<rparr>"
  have ok: "patch_ok ?q" using q by (auto simp: patch_ok_def jsmap_simps)
  show ?thesis using ok effect_ok [OF ok, of k] effect_ok [OF q, of k] by (auto simp: jsmap_simps)
qed

lemma merge_set:
  "patch_ok q \<Longrightarrow> patch_ok (q\<lparr>rp_delete := filter (\<lambda>x. x \<noteq> i) (rp_delete q), rp_set := jm_set i v (rp_set q)\<rparr>) \<and>
   effect (q\<lparr>rp_delete := filter (\<lambda>x. x \<noteq> i) (rp_delete q), rp_set := jm_set i v (rp_set q)\<rparr>) k =
     (if k = i then Some (Some v) else effect q k)"
proof -
  assume q: "patch_ok q"
  let ?q = "q\<lparr>rp_delete := filter (\<lambda>x. x \<noteq> i) (rp_delete q), rp_set := jm_set i v (rp_set q)\<rparr>"
  have ok: "patch_ok ?q" using q by (auto simp: patch_ok_def jsmap_simps)
  show ?thesis using ok effect_ok [OF ok, of k] effect_ok [OF q, of k] by (auto simp: jsmap_simps)
qed

lemma merge_one_effect:
  assumes "patch_ok m"
  shows "patch_ok (merge_one p m) \<and>
    effect (merge_one p m) k = (case effect p k of Some r \<Rightarrow> Some r | None \<Rightarrow> effect m k)"
proof -
  let ?del = "\<lambda>k q. q\<lparr>rp_set := jm_del k (rp_set q), rp_delete := set_add k (rp_delete q)\<rparr>"
  let ?set = "\<lambda>(k, v) q. q\<lparr>rp_delete := filter (\<lambda>x. x \<noteq> k) (rp_delete q), rp_set := jm_set k v (rp_set q)\<rparr>"
  have d: "patch_ok (fold ?del ds q) \<and> effect (fold ?del ds q) k = (if k \<in> set ds then Some None else effect q k)"
    if "patch_ok q" for ds and q :: "'a record_patch"
    using that by (induction ds arbitrary: q) (auto simp: merge_delete)
  have t: "patch_ok (fold ?set kvs q) \<and>
      effect (fold ?set kvs q) k = (case jm_get (rev kvs) k of Some v \<Rightarrow> Some (Some v) | None \<Rightarrow> effect q k)"
    if "patch_ok q" for kvs and q :: "'a record_patch"
    using that by (induction kvs arbitrary: q) (auto simp: merge_set map_add_def split: option.splits)
  show ?thesis
    using d [OF assms, of "rp_delete p"] t [of "fold ?del (rp_delete p) m" "rp_set p"]
    by (auto simp: merge_one_def Let_def effect_def [of p] split: option.split)
qed

lemma apply_all_cong:
  "(\<And>j. jm_get x j = jm_get y j) \<Longrightarrow> jm_get (fold applyRecordPatch qs x) k = jm_get (fold applyRecordPatch qs y) k"
proof (induction qs arbitrary: x y)
  case (Cons q qs)
  have "jm_get (applyRecordPatch q x) j = jm_get (applyRecordPatch q y) j" for j
    using Cons.prems [of j] by (simp add: get_apply split: option.split)
  from Cons.IH [OF this] show ?case by simp
qed simp

lemma merge_all_effect:
  "patch_ok m \<Longrightarrow> patch_ok (fold merge_one ps m) \<and>
   (\<forall>t k. jm_get (applyRecordPatch (fold merge_one ps m) t) k = jm_get (fold applyRecordPatch ps (applyRecordPatch m t)) k)"
proof (induction ps arbitrary: m)
  case (Cons p ps)
  have ok: "patch_ok (merge_one p m)" using merge_one_effect [OF Cons.prems] by blast
  have "jm_get (applyRecordPatch (merge_one p m) t) j = jm_get (applyRecordPatch p (applyRecordPatch m t)) j" for t j
    using merge_one_effect [OF Cons.prems, of p j] by (auto simp: get_apply split: option.split)
  then have "jm_get (fold applyRecordPatch ps (applyRecordPatch (merge_one p m) t)) k =
      jm_get (fold applyRecordPatch ps (applyRecordPatch p (applyRecordPatch m t))) k" for t k
    by (rule apply_all_cong)
  then show ?case using Cons.IH [OF ok] by simp
qed simp

text \<open>C14: Merging patches is applying them in order. For any patches and any record, the merged patch
  has at every key the effect of applying the patches one after the other, so the last one that touches
  a key wins.\<close>

theorem merge_is_sequential_application:
  "jm_get (applyRecordPatch (mergeContextPatches ps) t) k = jm_get (fold applyRecordPatch ps t) k"
proof -
  have "patch_ok (createSetContextPatch [])" by (simp add: createSetContextPatch_def patch_ok_def)
  moreover have "applyRecordPatch (createSetContextPatch []) t = t"
    by (simp add: applyRecordPatch_def createSetContextPatch_def)
  ultimately show ?thesis
    using merge_all_effect [of "createSetContextPatch []" ps] by (metis mergeContextPatches_def)
qed

end
