(* ===== verification/WorkflowScheduler.thy ===== *)
theory WorkflowScheduler
  imports WorkflowGraph WorkflowPatch
begin

text \<open>
  The scheduling loop of the DAG executor, \<open>executeUnwrapped\<close> in
  \<open>workflow/executor/dag/index.ts\<close>, for graphs of step and wait nodes: which nodes are ready, crash
  recovery of nodes recorded as running, admission of batches, recording of every settled result, the
  order in which context patches are applied, and how a pass ends.

  A node's execution is the argument \<open>exec\<close>: from the node id, its recorded attempt and its snapshot of
  the context to an outcome. Publishing and checkpointing write to a store and return nothing to the loop;
  they are left out, as are abort and loss of ownership, which raise. Composite nodes, which share child
  state, are left out too; for a graph without them the batch is the candidate batch, there is no child
  collision, and an execution changes no node state but its own. A decrement of an in-degree never goes
  below zero here, since a node is released only once (\<open>deg_inv\<close> of the safety theory), so
  the truncated subtraction is the code's.
\<close>

record node_state =
  nd_status :: node_status
  nd_attempt :: nat

type_synonym node_states = "(string \<times> node_state) list"
type_synonym 'v wf_context = "(string \<times> 'v) list"

datatype 'v node_outcome =
    ERejected string
  | EFailed nat string
  | ECompleted nat "'v wf_context" "'v record_patch"
  | ESkipped nat "'v wf_context" "'v record_patch"
  | EParked nat "'v wf_context" "'v record_patch"

record 'v dag_config =
  dc_maxConcurrency :: nat
  dc_isWait :: "string \<Rightarrow> bool"
  dc_maxAttempts :: "string \<Rightarrow> nat"
  dc_shouldPause :: "nat \<Rightarrow> bool"
  dc_deepEqual :: "'v \<Rightarrow> 'v \<Rightarrow> bool"
  dc_exec :: "string \<Rightarrow> nat \<Rightarrow> 'v wf_context \<Rightarrow> 'v node_outcome"

text \<open>\<open>dr_log\<close> records the batches executed, for the theorems.\<close>

record 'v dag_run =
  dr_states :: node_states
  dr_inDegree :: "(string \<times> nat) list"
  dr_ready :: "string list"
  dr_recovery :: "string list"
  dr_context :: "'v wf_context"
  dr_patch :: "'v record_patch"
  dr_log :: "string list list"

datatype batch_outcome = BWaiting string | BFailed string string

datatype dag_end =
    DagInvalid graph_error
  | DagCycle
  | DagExhausted string nat nat
  | DagWaiting string "string list"
  | DagFailed string string
  | DagPaused
  | DagStalled "(string \<times> node_status) list" "string list"
  | DagCompleted

definition statuses :: "node_states \<Rightarrow> (string \<times> node_status) list" where
  "statuses states = map (\<lambda>(i, s). (i, nd_status s)) states"

definition status_of :: "node_states \<Rightarrow> string \<Rightarrow> node_status" where
  "status_of states i = (case jm_get states i of None \<Rightarrow> NPending | Some s \<Rightarrow> nd_status s)"

definition attempt_of :: "node_states \<Rightarrow> string \<Rightarrow> nat" where
  "attempt_of states i = (case jm_get states i of None \<Rightarrow> 0 | Some s \<Rightarrow> nd_attempt s)"

definition getUnfinishedNodeDetails :: "workflow_node list \<Rightarrow> node_states \<Rightarrow> (string \<times> node_status) list" where
  "getUnfinishedNodeDetails nodes states =
     filter (\<lambda>(i, st). \<not> finished_status st) (map (\<lambda>n. (wn_id n, status_of states (wn_id n))) nodes)"

subsection \<open>Crash recovery\<close>

text \<open>The loop over the in-degrees that queues interrupted nodes or finds them exhausted.\<close>

fun recover_nodes :: "'v dag_config \<Rightarrow> node_states \<Rightarrow> (string \<times> nat) list \<Rightarrow>
    string list \<times> string list \<times> string list \<Rightarrow> string list \<times> string list \<times> string list" where
  "recover_nodes cfg states [] acc = acc"
| "recover_nodes cfg states ((i, degree) # ds) (ready, recovery, exhausted) =
     recover_nodes cfg states ds
       (if degree \<noteq> 0 \<or> i \<in> set ready then (ready, recovery, exhausted)
        else if status_of states i \<noteq> NRunning then (ready, recovery, exhausted)
        else if dc_isWait cfg i then (ready, recovery, exhausted)
        else if attempt_of states i > dc_maxAttempts cfg i then (ready, recovery, exhausted @ [i])
        else (ready @ [i], set_add i recovery, exhausted))"

definition fail_exhausted :: "string list \<Rightarrow> node_states \<Rightarrow> node_states" where
  "fail_exhausted ids states =
     fold (\<lambda>i s. jm_set i \<lparr>nd_status = NFailed, nd_attempt = attempt_of s i\<rparr> s) ids states"

subsection \<open>A batch\<close>

definition admit_node :: "string \<Rightarrow> 'v dag_run \<Rightarrow> 'v dag_run" where
  "admit_node i r =
     (let isRecovery = (i \<in> set (dr_recovery r));
          attempt = (if status_of (dr_states r) i = NRunning \<and> \<not> isRecovery
                     then attempt_of (dr_states r) i else attempt_of (dr_states r) i + 1)
      in r\<lparr>dr_recovery := filter (\<lambda>x. x \<noteq> i) (dr_recovery r),
           dr_states := jm_set i \<lparr>nd_status = NRunning, nd_attempt = attempt\<rparr> (dr_states r)\<rparr>)"

definition record_state :: "string \<Rightarrow> node_status \<Rightarrow> nat \<Rightarrow> 'v dag_run \<Rightarrow> 'v dag_run" where
  "record_state i st attempt r =
     r\<lparr>dr_states := jm_set i \<lparr>nd_status = st, nd_attempt = attempt\<rparr> (dr_states r)\<rparr>"

definition apply_node_patch :: "'v dag_config \<Rightarrow> 'v wf_context \<Rightarrow> 'v wf_context \<Rightarrow> 'v record_patch \<Rightarrow>
    'v dag_run \<Rightarrow> 'v dag_run" where
  "apply_node_patch cfg base snapshot patch r =
     (let p = mergeContextPatches [createRecordPatch (dc_deepEqual cfg) base snapshot, patch]
      in r\<lparr>dr_context := applyRecordPatch p (dr_context r),
           dr_patch := mergeContextPatches [dr_patch r, p]\<rparr>)"

definition dec_degree :: "string \<Rightarrow> (string \<times> nat) list \<Rightarrow> (string \<times> nat) list" where
  "dec_degree d m = jm_set d (degree_of m d - 1) m"

definition release_dependents :: "(string \<times> string list) list \<Rightarrow> string \<Rightarrow> 'v dag_run \<Rightarrow> 'v dag_run" where
  "release_dependents adj i r =
     r\<lparr>dr_inDegree := fold dec_degree (dependents_of adj i) (dr_inDegree r)\<rparr>"

definition first_outcome :: "batch_outcome \<Rightarrow> batch_outcome option \<Rightarrow> batch_outcome option" where
  "first_outcome b oc = (case oc of None \<Rightarrow> Some b | Some x \<Rightarrow> Some x)"

text \<open>One settled result, with the states and context the batch started from.\<close>

fun settle_node :: "'v dag_config \<Rightarrow> (string \<times> string list) list \<Rightarrow> node_states \<Rightarrow> 'v wf_context \<Rightarrow>
    string \<Rightarrow> 'v node_outcome \<Rightarrow> 'v dag_run \<times> batch_outcome option \<times> string list \<Rightarrow>
    'v dag_run \<times> batch_outcome option \<times> string list" where
  "settle_node cfg adj base ctx i (ERejected err) (r, oc, waits) =
     (record_state i NFailed (attempt_of base i) r, first_outcome (BFailed i err) oc, waits)"
| "settle_node cfg adj base ctx i (EFailed n err) (r, oc, waits) =
     (record_state i NFailed (max n (attempt_of base i))
        (r\<lparr>dr_patch := mergeContextPatches [dr_patch r, createSetContextPatch []]\<rparr>),
      first_outcome (BFailed i err) oc, waits)"
| "settle_node cfg adj base ctx i (EParked n snap patch) (r, oc, waits) =
     (record_state i NRunning (max n (attempt_of base i)) (apply_node_patch cfg ctx snap patch r),
      first_outcome (BWaiting i) oc, waits @ [i])"
| "settle_node cfg adj base ctx i (ECompleted n snap patch) (r, oc, waits) =
     (release_dependents adj i
        (record_state i NCompleted (max n (attempt_of base i)) (apply_node_patch cfg ctx snap patch r)),
      oc, waits)"
| "settle_node cfg adj base ctx i (ESkipped n snap patch) (r, oc, waits) =
     (release_dependents adj i
        (record_state i NSkipped (max n (attempt_of base i)) (apply_node_patch cfg ctx snap patch r)),
      oc, waits)"

definition run_batch :: "'v dag_config \<Rightarrow> (string \<times> string list) list \<Rightarrow> string list \<Rightarrow> 'v dag_run \<Rightarrow>
    'v dag_run \<times> batch_outcome option \<times> string list" where
  "run_batch cfg adj batch r =
     (let r1 = fold admit_node batch r; base = dr_states r1; ctx = dr_context r1
      in fold (\<lambda>i. settle_node cfg adj base ctx i (dc_exec cfg i (attempt_of base i) ctx)) batch
           (r1\<lparr>dr_log := dr_log r1 @ [batch]\<rparr>, None, []))"

subsection \<open>The loop\<close>

definition requeue :: "'v dag_run \<Rightarrow> 'v dag_run" where
  "requeue r =
     r\<lparr>dr_ready := fold (\<lambda>i q. if i \<in> set q then q else q @ [i])
         (getReadyNodes (dr_inDegree r) (statuses (dr_states r))) (dr_ready r)\<rparr>"

text \<open>A stalled pass names the parked waits, when every unfinished node is one or is pending.\<close>

definition stalled_waits :: "'v dag_config \<Rightarrow> (string \<times> node_status) list \<Rightarrow> string list" where
  "stalled_waits cfg unfinished =
     (if \<forall>(i, st) \<in> set unfinished. st = NPending \<or> st = NRunning \<and> dc_isWait cfg i
      then map fst (filter (\<lambda>(i, st). st = NRunning \<and> dc_isWait cfg i) unfinished) else [])"

definition finish_pass :: "'v dag_config \<Rightarrow> workflow_node list \<Rightarrow> 'v dag_run \<Rightarrow> dag_end" where
  "finish_pass cfg nodes r =
     (let unfinished = getUnfinishedNodeDetails nodes (dr_states r)
      in if unfinished \<noteq> [] then DagStalled unfinished (stalled_waits cfg unfinished) else DagCompleted)"

text \<open>The loop runs a batch per round; fuel bounds the rounds. \<open>schedule_returns\<close> proves that one more
  than the number of nodes is enough.\<close>

fun schedule :: "nat \<Rightarrow> 'v dag_config \<Rightarrow> workflow_node list \<Rightarrow> (string \<times> string list) list \<Rightarrow> 'v dag_run \<Rightarrow>
    (dag_end \<times> 'v dag_run) option" where
  "schedule 0 cfg nodes adj r = None"
| "schedule (Suc k) cfg nodes adj r =
     (if dr_ready r = [] then Some (finish_pass cfg nodes r, r)
      else
        (let batch = take (dc_maxConcurrency cfg) (dr_ready r);
             r0 = r\<lparr>dr_ready := drop (dc_maxConcurrency cfg) (dr_ready r)\<rparr>;
             (r1, oc, waits) = run_batch cfg adj batch r0
         in case oc of
              Some (BWaiting i) \<Rightarrow> Some (DagWaiting i waits, r1)
            | Some (BFailed i err) \<Rightarrow> Some (DagFailed i err, r1)
            | None \<Rightarrow>
                (let r2 = requeue r1
                 in if dr_ready r2 \<noteq> [] \<and> dc_shouldPause cfg (length (dr_log r2)) then Some (DagPaused, r2)
                    else schedule k cfg nodes adj r2)))"

definition start_pass :: "dag_graph \<Rightarrow> node_states \<Rightarrow> 'v wf_context \<Rightarrow> 'v dag_run" where
  "start_pass g states ctx =
     (let inDegree = updateInDegreesForCompletedNodes (statuses states) (dg_adj g) (dg_inDegree g)
      in \<lparr>dr_states = states, dr_inDegree = inDegree,
          dr_ready = getReadyNodes inDegree (statuses states), dr_recovery = [],
          dr_context = ctx, dr_patch = createSetContextPatch [], dr_log = []\<rparr>)"

text \<open>A pass without \<open>startFromNode\<close>, so that recovery and the ready list come from the recorded states.\<close>

definition executeUnwrapped :: "nat \<Rightarrow> 'v dag_config \<Rightarrow> workflow_node list \<Rightarrow> node_states \<Rightarrow> 'v wf_context \<Rightarrow>
    (dag_end \<times> 'v dag_run) option" where
  "executeUnwrapped fuel cfg nodes states ctx =
     (case buildGraph nodes of
        Inl err \<Rightarrow> Some (DagInvalid err, start_pass empty_graph states ctx)
      | Inr g \<Rightarrow>
          (let r = start_pass g states ctx
           in case hasCycle nodes (dg_adj g) of
                None \<Rightarrow> None
              | Some True \<Rightarrow> Some (DagCycle, r)
              | Some False \<Rightarrow>
                  (case recover_nodes cfg states (dr_inDegree r) (dr_ready r, [], []) of
                     (ready, recovery, exhausted) \<Rightarrow>
                       (case exhausted of
                          i # _ \<Rightarrow> Some (DagExhausted i (attempt_of states i) (dc_maxAttempts cfg i),
                              r\<lparr>dr_states := fail_exhausted exhausted states\<rparr>)
                        | [] \<Rightarrow> schedule fuel cfg nodes (dg_adj g)
                              (r\<lparr>dr_ready := ready, dr_recovery := recovery\<rparr>)))))"

end
