(* ===== verification/WorkflowSafety.thy ===== *)
theory WorkflowSafety
  imports WorkflowScheduler
begin

text \<open>
  What the scheduling loop guarantees: it ends, it runs every node at most once and only after its
  dependencies, it admits no more than the concurrency limit, it recovers interrupted nodes within their
  budget, and a clean run of an acyclic graph completes.
\<close>

subsection \<open>Finished nodes and degrees\<close>

definition done_set :: "node_states \<Rightarrow> string set" where
  "done_set states = {i. finished_status (status_of states i)}"

lemma get_statuses: "jm_get (statuses states) i = map_option nd_status (jm_get states i)"
  by (induction states) (auto simp: statuses_def)

lemma statuses_ok: "jm_ok states \<Longrightarrow> jm_ok (statuses states)"
  by (simp add: jm_ok_def statuses_def comp_def case_prod_beta)

lemma done_nodes_statuses: "done_nodes (statuses states) = done_set states"
  by (auto simp: done_nodes_def done_set_def get_statuses status_of_def finished_status_def split: option.splits)

lemma status_set: "status_of (jm_set i s states) j = (if j = i then nd_status s else status_of states j)"
  by (simp add: status_of_def jsmap_simps)

lemma done_set_set:
  "done_set (jm_set i s states) =
     (if finished_status (nd_status s) then insert i (done_set states) else done_set states - {i})"
  by (auto simp: done_set_def status_set)

definition deg_inv :: "string list \<Rightarrow> (string \<times> string list) list \<Rightarrow> string set \<Rightarrow> (string \<times> nat) list \<Rightarrow> bool" where
  "deg_inv ids adj F m \<longleftrightarrow> jm_keys m = ids \<and>
     (\<forall>v \<in> set ids. degree_of m v = (\<Sum>u \<in> set ids - F. count_list (dependents_of adj u) v))"

definition adj_in :: "string list \<Rightarrow> (string \<times> string list) list \<Rightarrow> bool" where
  "adj_in ids adj \<longleftrightarrow> distinct ids \<and> edges adj \<subseteq> set ids \<times> set ids"

lemma deg_zero:
  assumes "deg_inv ids adj F m" "adj_in ids adj" "v \<in> set ids"
  shows "degree_of m v = 0 \<longleftrightarrow> (\<forall>u. (u, v) \<in> edges adj \<longrightarrow> u \<in> F)"
proof -
  have "degree_of m v = 0 \<longleftrightarrow> (\<forall>u \<in> set ids - F. v \<notin> set (dependents_of adj u))"
    using assms by (simp add: deg_inv_def count_list_0_iff)
  moreover have "(u, v) \<in> edges adj \<Longrightarrow> u \<in> set ids" for u using assms(2) by (auto simp: adj_in_def)
  ultimately show ?thesis by (auto simp: edges_def)
qed

lemma degree_dec: "degree_of (fold dec_degree ds m) v = degree_of m v - count_list ds v"
  by (induction ds arbitrary: m) (auto simp: dec_degree_def degree_set)

lemma keys_dec_one: "d \<in> set (jm_keys m) \<Longrightarrow> jm_keys (dec_degree d m) = jm_keys m"
  by (simp add: dec_degree_def jm_keys_set)

lemma keys_dec: "set ds \<subseteq> set (jm_keys m) \<Longrightarrow> jm_keys (fold dec_degree ds m) = jm_keys m"
proof (induction ds arbitrary: m)
  case (Cons d ds)
  have k: "jm_keys (dec_degree d m) = jm_keys m" using Cons.prems by (intro keys_dec_one) simp
  then have "set ds \<subseteq> set (jm_keys (dec_degree d m))" unfolding k using Cons.prems by simp
  from Cons.IH [OF this] k show ?case by simp
qed simp

lemma deg_inv_release:
  assumes d: "deg_inv ids adj F m" and a: "adj_in ids adj" and i: "i \<in> set ids" "i \<notin> F"
  shows "deg_inv ids adj (insert i F) (fold dec_degree (dependents_of adj i) m)"
proof -
  have "set (dependents_of adj i) \<subseteq> set ids" using a by (auto simp: adj_in_def edges_def)
  then have k: "jm_keys (fold dec_degree (dependents_of adj i) m) = ids"
    using d keys_dec [of "dependents_of adj i" m] by (simp add: deg_inv_def)
  have "(\<Sum>u \<in> set ids - F. count_list (dependents_of adj u) v) =
      count_list (dependents_of adj i) v + (\<Sum>u \<in> set ids - insert i F. count_list (dependents_of adj u) v)" for v
  proof -
    have "set ids - insert i F = (set ids - F) - {i}" by auto
    then show ?thesis using i sum.remove [of "set ids - F" i "\<lambda>u. count_list (dependents_of adj u) v"] by simp
  qed
  with k d show ?thesis unfolding deg_inv_def degree_dec by simp
qed

lemma start_degrees:
  assumes "buildGraph nodes = Inr g" "jm_ok states"
  shows "adj_in (map wn_id nodes) (dg_adj g) \<and>
    deg_inv (map wn_id nodes) (dg_adj g) (done_set states)
      (updateInDegreesForCompletedNodes (statuses states) (dg_adj g) (dg_inDegree g))"
proof -
  let ?ids = "map wn_id nodes" and ?F = "done_set states"
  let ?c = "\<lambda>v u. count_list (dependents_of (dg_adj g) u) v"
  have ok: "graph_ok ?ids g" using buildGraph_props [OF assms(1)] by blast
  have out: "u \<notin> set ?ids \<Longrightarrow> ?c v u = 0" for u v
    using ok by (auto simp: graph_ok_def edges_def count_list_0_iff)
  have fin: "finite ?F" using finite_done [of "statuses states"] by (simp add: done_nodes_statuses)
  have split: "sum (?c v) (set ?ids) = sum (?c v) ?F + sum (?c v) (set ?ids - ?F)" for v
  proof -
    have "sum (?c v) ?F = sum (?c v) (set ?ids \<inter> ?F)"
    proof (rule sum.mono_neutral_right)
      show "\<forall>u \<in> ?F - set ?ids \<inter> ?F. ?c v u = 0" using out by blast
    qed (use fin in auto)
    then show ?thesis by (metis List.finite_set sum.Int_Diff)
  qed
  have "degree_of (updateInDegreesForCompletedNodes (statuses states) (dg_adj g) (dg_inDegree g)) v =
      sum (?c v) (set ?ids - ?F)" if "v \<in> set ?ids" for v
  proof -
    have "degree_of (dg_inDegree g) v = sum (?c v) (set ?ids)" using ok that unfolding graph_ok_def by blast
    then show ?thesis
      using split [of v] update_degree [OF statuses_ok [OF assms(2)], of "dg_adj g" "dg_inDegree g" v]
      by (simp add: done_nodes_statuses)
  qed
  then show ?thesis using ok by (simp add: deg_inv_def adj_in_def update_keys graph_ok_def)
qed

lemma ready_nodes_iff:
  assumes "deg_inv ids adj F m" "adj_in ids adj"
  shows "v \<in> set (getReadyNodes m (statuses states)) \<longleftrightarrow> v \<in> set ids \<and>
      (\<forall>u. (u, v) \<in> edges adj \<longrightarrow> u \<in> F) \<and> (status_of states v = NPending \<or> status_of states v = NFailed)"
    and "distinct (getReadyNodes m (statuses states))"
proof -
  have k: "jm_keys m = ids" "distinct ids" using assms by (auto simp: deg_inv_def adj_in_def)
  then have jm: "jm_ok m" by (simp add: jm_ok_def)
  have st: "(case jm_get (statuses states) v of None \<Rightarrow> True | Some st \<Rightarrow> st = NPending \<or> st = NFailed) \<longleftrightarrow>
      status_of states v = NPending \<or> status_of states v = NFailed"
    by (auto simp: get_statuses status_of_def split: option.split)
  have "v \<in> set (getReadyNodes m (statuses states)) \<longleftrightarrow> jm_get m v = Some 0 \<and>
      (status_of states v = NPending \<or> status_of states v = NFailed)"
    unfolding st [symmetric] using jm_get_in_set [OF jm, of v 0] by (force simp: getReadyNodes_def)
  moreover have "jm_get m v = Some 0 \<longleftrightarrow> v \<in> set ids \<and> degree_of m v = 0"
  proof -
    have "jm_get m v = None \<longleftrightarrow> v \<notin> set ids" using k(1) by (metis map_of_eq_None_iff set_map)
    then show ?thesis by (cases "jm_get m v") (auto simp: degree_of_def)
  qed
  ultimately show "v \<in> set (getReadyNodes m (statuses states)) \<longleftrightarrow> v \<in> set ids \<and>
      (\<forall>u. (u, v) \<in> edges adj \<longrightarrow> u \<in> F) \<and> (status_of states v = NPending \<or> status_of states v = NFailed)"
    using deg_zero [OF assms] by auto
  show "distinct (getReadyNodes m (statuses states))"
    unfolding getReadyNodes_def by (rule distinct_map_filter) (simp add: k)
qed

subsection \<open>The effect of a batch\<close>

fun finishes :: "'v node_outcome \<Rightarrow> bool" where
  "finishes (ECompleted _ _ _) = True"
| "finishes (ESkipped _ _ _) = True"
| "finishes _ = False"

lemma settle_node_effect:
  assumes "settle_node cfg adj base ctx i out (r, oc, w) = (r', oc', w')"
  shows "done_set (dr_states r') =
      (if finishes out then insert i (done_set (dr_states r)) else done_set (dr_states r) - {i})"
    and "dr_inDegree r' =
      (if finishes out then fold dec_degree (dependents_of adj i) (dr_inDegree r) else dr_inDegree r)"
    and "oc' = None \<longleftrightarrow> oc = None \<and> finishes out"
    and "dr_log r' = dr_log r" "dr_ready r' = dr_ready r" "dr_recovery r' = dr_recovery r"
    and "j \<noteq> i \<Longrightarrow> status_of (dr_states r') j = status_of (dr_states r) j"
  using assms
  by (cases out; auto simp: record_state_def release_dependents_def apply_node_patch_def Let_def done_set_set
      status_set finished_status_def first_outcome_def split: option.splits)+

lemma admit_fold:
  "done_set (dr_states (fold admit_node batch r)) = done_set (dr_states r) - set batch \<and>
   dr_inDegree (fold admit_node batch r) = dr_inDegree r \<and> dr_log (fold admit_node batch r) = dr_log r \<and>
   dr_ready (fold admit_node batch r) = dr_ready r \<and> dr_context (fold admit_node batch r) = dr_context r \<and>
   (\<forall>j. j \<notin> set batch \<longrightarrow> status_of (dr_states (fold admit_node batch r)) j = status_of (dr_states r) j)"
proof (induction batch arbitrary: r)
  case (Cons i batch)
  have "done_set (dr_states (admit_node i r)) = done_set (dr_states r) - {i}"
    "dr_inDegree (admit_node i r) = dr_inDegree r" "dr_log (admit_node i r) = dr_log r"
    "dr_ready (admit_node i r) = dr_ready r" "dr_context (admit_node i r) = dr_context r"
    "\<And>j. j \<noteq> i \<Longrightarrow> status_of (dr_states (admit_node i r)) j = status_of (dr_states r) j"
    by (simp_all add: admit_node_def Let_def done_set_set status_set finished_status_def)
  with Cons.IH [of "admit_node i r"] show ?case by auto
qed simp

lemma settle_fold:
  assumes "fold (\<lambda>i. settle_node cfg adj base ctx i (f i)) batch (r, oc, w) = (r', oc', w')"
    and "adj_in ids adj" "deg_inv ids adj (done_set (dr_states r)) (dr_inDegree r)"
    and "distinct batch" "set batch \<subseteq> set ids" "set batch \<inter> done_set (dr_states r) = {}"
  shows "done_set (dr_states r') = done_set (dr_states r) \<union> {i \<in> set batch. finishes (f i)} \<and>
    deg_inv ids adj (done_set (dr_states r')) (dr_inDegree r') \<and>
    (oc' = None \<longleftrightarrow> oc = None \<and> (\<forall>i \<in> set batch. finishes (f i))) \<and>
    dr_log r' = dr_log r \<and> dr_ready r' = dr_ready r \<and>
    (\<forall>j. j \<notin> set batch \<longrightarrow> status_of (dr_states r') j = status_of (dr_states r) j)"
  using assms
proof (induction batch arbitrary: r oc w)
  case (Cons i batch)
  obtain r1 oc1 w1 where s1: "settle_node cfg adj base ctx i (f i) (r, oc, w) = (r1, oc1, w1)"
    by (metis prod_cases3)
  note e = settle_node_effect [OF s1]
  let ?F = "done_set (dr_states r)"
  have i: "i \<in> set ids" "i \<notin> ?F" "i \<notin> set batch" using Cons.prems by auto
  have F1: "done_set (dr_states r1) = (if finishes (f i) then insert i ?F else ?F)"
    using e(1) i(2) by auto
  have d1: "deg_inv ids adj (done_set (dr_states r1)) (dr_inDegree r1)"
    using Cons.prems(2,3) i deg_inv_release [OF Cons.prems(3,2) i(1,2)] unfolding F1 e(2) by simp
  have "fold (\<lambda>i. settle_node cfg adj base ctx i (f i)) batch (r1, oc1, w1) = (r', oc', w')"
    using Cons.prems(1) s1 by simp
  from Cons.IH [OF this Cons.prems(2) d1] Cons.prems(4-6) i F1 e(3-7) show ?case by auto
qed simp

lemma run_batch_effect:
  assumes run: "run_batch cfg adj batch r = (r', oc', w')"
    and a: "adj_in ids adj" "deg_inv ids adj (done_set (dr_states r)) (dr_inDegree r)"
    and b: "distinct batch" "set batch \<subseteq> set ids" "set batch \<inter> done_set (dr_states r) = {}"
  shows "deg_inv ids adj (done_set (dr_states r')) (dr_inDegree r') \<and>
    dr_log r' = dr_log r @ [batch] \<and> dr_ready r' = dr_ready r \<and>
    (\<forall>j. j \<notin> set batch \<longrightarrow> status_of (dr_states r') j = status_of (dr_states r) j) \<and>
    (oc' = None \<longrightarrow> done_set (dr_states r') = done_set (dr_states r) \<union> set batch) \<and>
    (oc' = None \<longleftrightarrow> (\<forall>i \<in> set batch. finishes (dc_exec cfg i
       (attempt_of (dr_states (fold admit_node batch r)) i) (dr_context (fold admit_node batch r)))))"
proof -
  let ?r1 = "fold admit_node batch r"
  let ?q = "?r1\<lparr>dr_log := dr_log ?r1 @ [batch]\<rparr>"
  let ?f = "\<lambda>i. dc_exec cfg i (attempt_of (dr_states ?r1) i) (dr_context ?r1)"
  note ad = admit_fold [of batch r]
  have d: "done_set (dr_states ?q) = done_set (dr_states r)" using ad b(3) by auto
  have "fold (\<lambda>i. settle_node cfg adj (dr_states ?r1) (dr_context ?r1) i (?f i)) batch (?q, None, []) = (r', oc', w')"
    using run by (simp add: run_batch_def Let_def)
  from settle_fold [OF this a(1) _ b(1,2)] d a(2) b(3) ad
  have "done_set (dr_states r') = done_set (dr_states r) \<union> {i \<in> set batch. finishes (?f i)} \<and>
    deg_inv ids adj (done_set (dr_states r')) (dr_inDegree r') \<and>
    (oc' = None \<longleftrightarrow> (\<forall>i \<in> set batch. finishes (?f i))) \<and>
    dr_log r' = dr_log r @ [batch] \<and> dr_ready r' = dr_ready r \<and>
    (\<forall>j. j \<notin> set batch \<longrightarrow> status_of (dr_states r') j = status_of (dr_states r) j)"
    by auto
  then show ?thesis by auto
qed

subsection \<open>The loop invariant\<close>

definition order_ok :: "(string \<times> string) set \<Rightarrow> string set \<Rightarrow> string list list \<Rightarrow> bool" where
  "order_ok E F log \<longleftrightarrow>
     (\<forall>k < length log. \<forall>v \<in> set (log ! k). \<forall>u. (u, v) \<in> E \<longrightarrow> u \<in> F \<union> set (concat (take k log)))"

lemma order_ok_snoc:
  "order_ok E F (log @ [b]) \<longleftrightarrow>
     order_ok E F log \<and> (\<forall>v \<in> set b. \<forall>u. (u, v) \<in> E \<longrightarrow> u \<in> F \<union> set (concat log))"
  by (simp add: order_ok_def less_Suc_eq nth_append all_conj_distrib imp_conjL)

text \<open>A node recorded as running may be run again only when it is not a wait and has budget left.\<close>

definition may_rerun :: "'v dag_config \<Rightarrow> node_states \<Rightarrow> string \<Rightarrow> bool" where
  "may_rerun cfg states i \<longleftrightarrow>
     (status_of states i = NRunning \<longrightarrow> \<not> dc_isWait cfg i \<and> attempt_of states i \<le> dc_maxAttempts cfg i)"

definition log_inv :: "'v dag_config \<Rightarrow> string list \<Rightarrow> (string \<times> string list) list \<Rightarrow> node_states \<Rightarrow>
    string list list \<Rightarrow> bool" where
  "log_inv cfg ids adj states log \<longleftrightarrow>
     distinct (concat log) \<and> set (concat log) \<subseteq> set ids - done_set states \<and>
     order_ok (edges adj) (done_set states) log \<and>
     (\<forall>b \<in> set log. length b \<le> dc_maxConcurrency cfg) \<and> (\<forall>v \<in> set (concat log). may_rerun cfg states v)"

text \<open>A node that no pass can start: it was recorded as running and is a parked wait or had unfinished
  dependencies when the pass began.\<close>

definition stuck :: "'v dag_config \<Rightarrow> (string \<times> string list) list \<Rightarrow> node_states \<Rightarrow> string \<Rightarrow> bool" where
  "stuck cfg adj states v \<longleftrightarrow> status_of states v = NRunning \<and>
     (dc_isWait cfg v \<or> (\<exists>u. (u, v) \<in> edges adj \<and> u \<notin> done_set states))"

definition enabled :: "(string \<times> string list) list \<Rightarrow> 'v dag_run \<Rightarrow> string \<Rightarrow> bool" where
  "enabled adj r v \<longleftrightarrow> (\<forall>u. (u, v) \<in> edges adj \<longrightarrow> u \<in> done_set (dr_states r))"

definition loop_inv :: "'v dag_config \<Rightarrow> string list \<Rightarrow> (string \<times> string list) list \<Rightarrow> node_states \<Rightarrow>
    'v dag_run \<Rightarrow> bool" where
  "loop_inv cfg ids adj states r \<longleftrightarrow>
     deg_inv ids adj (done_set (dr_states r)) (dr_inDegree r) \<and>
     log_inv cfg ids adj states (dr_log r) \<and>
     done_set (dr_states r) = done_set states \<union> set (concat (dr_log r)) \<and>
     (\<forall>v. v \<notin> set (concat (dr_log r)) \<longrightarrow> status_of (dr_states r) v = status_of states v) \<and>
     distinct (dr_ready r) \<and>
     (\<forall>v \<in> set (dr_ready r). v \<in> set ids - done_set (dr_states r) \<and> enabled adj r v \<and> may_rerun cfg states v) \<and>
     (\<forall>v \<in> set ids - done_set (dr_states r). enabled adj r v \<longrightarrow> v \<in> set (dr_ready r) \<or> stuck cfg adj states v)"

lemma loop_invD:
  assumes "loop_inv cfg ids adj states r"
  shows "deg_inv ids adj (done_set (dr_states r)) (dr_inDegree r)" "log_inv cfg ids adj states (dr_log r)"
    and "done_set (dr_states r) = done_set states \<union> set (concat (dr_log r))"
    and "v \<notin> set (concat (dr_log r)) \<Longrightarrow> status_of (dr_states r) v = status_of states v"
    and "distinct (dr_ready r)"
    and "v \<in> set (dr_ready r) \<Longrightarrow> v \<in> set ids - done_set (dr_states r) \<and> enabled adj r v \<and> may_rerun cfg states v"
    and "v \<in> set ids - done_set (dr_states r) \<Longrightarrow> enabled adj r v \<Longrightarrow> v \<in> set (dr_ready r) \<or> stuck cfg adj states v"
  using assms unfolding loop_inv_def by blast+

lemma requeue_list:
  "set (fold (\<lambda>i q. if i \<in> set q then q else q @ [i]) xs q) = set q \<union> set xs \<and>
   (distinct q \<longrightarrow> distinct (fold (\<lambda>i q. if i \<in> set q then q else q @ [i]) xs q))"
  by (induction xs arbitrary: q) auto

lemma requeue_simps [simp]:
  "dr_states (requeue r) = dr_states r" "dr_inDegree (requeue r) = dr_inDegree r" "dr_log (requeue r) = dr_log r"
  "enabled adj (requeue r) v = enabled adj r v"
  by (simp_all add: requeue_def enabled_def)

lemma requeue_ready:
  assumes "deg_inv ids adj (done_set (dr_states r)) (dr_inDegree r)" "adj_in ids adj"
  shows "v \<in> set (dr_ready (requeue r)) \<longleftrightarrow> v \<in> set (dr_ready r) \<or>
      v \<in> set ids \<and> enabled adj r v \<and> (status_of (dr_states r) v = NPending \<or> status_of (dr_states r) v = NFailed)"
    and "distinct (dr_ready r) \<Longrightarrow> distinct (dr_ready (requeue r))"
  using requeue_list [of "getReadyNodes (dr_inDegree r) (statuses (dr_states r))" "dr_ready r"]
    ready_nodes_iff(1) [OF assms, of v "dr_states r"]
  by (auto simp: requeue_def enabled_def)

lemma status_cases:
  "i \<in> done_set states \<or> status_of states i = NPending \<or> status_of states i = NFailed \<or> status_of states i = NRunning"
  by (cases "status_of states i") (auto simp: done_set_def finished_status_def)

lemma log_inv_snoc:
  assumes l: "log_inv cfg ids adj states log"
    and b: "distinct b" "length b \<le> dc_maxConcurrency cfg"
    and v: "\<And>v. v \<in> set b \<Longrightarrow> v \<in> set ids - (done_set states \<union> set (concat log)) \<and> may_rerun cfg states v \<and>
      (\<forall>u. (u, v) \<in> edges adj \<longrightarrow> u \<in> done_set states \<union> set (concat log))"
  shows "log_inv cfg ids adj states (log @ [b])"
proof -
  have "distinct (concat log @ b)" using l b(1) v by (auto simp: log_inv_def)
  moreover have "set b \<subseteq> set ids - done_set states" "\<forall>v \<in> set b. may_rerun cfg states v" using v by auto
  moreover have "order_ok (edges adj) (done_set states) (log @ [b])"
    using l v unfolding order_ok_snoc log_inv_def by blast
  ultimately show ?thesis using l b(2) unfolding log_inv_def by auto
qed

lemma loop_inv_requeue:
  assumes a: "adj_in ids adj" and d: "deg_inv ids adj (done_set (dr_states r)) (dr_inDegree r)"
    and l: "log_inv cfg ids adj states (dr_log r)"
    and D: "done_set (dr_states r) = done_set states \<union> set (concat (dr_log r))"
    and st: "\<And>v. v \<notin> set (concat (dr_log r)) \<Longrightarrow> status_of (dr_states r) v = status_of states v"
    and dist: "distinct (dr_ready r)"
    and q: "\<And>v. v \<in> set (dr_ready r) \<Longrightarrow> v \<in> set ids - done_set (dr_states r) \<and> enabled adj r v \<and> may_rerun cfg states v"
    and run: "\<And>v. v \<in> set ids - done_set (dr_states r) \<Longrightarrow> status_of states v = NRunning \<Longrightarrow> enabled adj r v \<Longrightarrow>
      v \<in> set (dr_ready r) \<or> stuck cfg adj states v"
  shows "loop_inv cfg ids adj states (requeue r)"
proof -
  note rq = requeue_ready [OF d a]
  have old: "v \<notin> done_set (dr_states r) \<Longrightarrow> status_of (dr_states r) v = status_of states v" for v
    using st D by auto
  have r1: "v \<in> set ids - done_set (dr_states r) \<and> enabled adj r v \<and> may_rerun cfg states v"
    if v: "v \<in> set (dr_ready (requeue r))" for v
  proof (cases "v \<in> set (dr_ready r)")
    case False
    then have *: "v \<in> set ids" "enabled adj r v"
      and s: "status_of (dr_states r) v = NPending \<or> status_of (dr_states r) v = NFailed" using v rq(1) by auto
    from s have nd: "v \<notin> done_set (dr_states r)" by (auto simp: done_set_def finished_status_def)
    with s old have "may_rerun cfg states v" by (auto simp: may_rerun_def)
    with * nd show ?thesis by simp
  qed (use q in simp)
  have r2: "v \<in> set (dr_ready (requeue r)) \<or> stuck cfg adj states v"
    if v: "v \<in> set ids - done_set (dr_states r)" "enabled adj r v" for v
    using v rq(1) run [OF v(1) _ v(2)] old [of v] status_cases [of v "dr_states r"] by auto
  show ?thesis using d l D st rq(2) [OF dist] r1 r2 unfolding loop_inv_def requeue_simps by blast
qed

lemma batch_step:
  assumes inv: "loop_inv cfg ids adj states r" and a: "adj_in ids adj"
    and run: "run_batch cfg adj (take n (dr_ready r)) (r\<lparr>dr_ready := drop n (dr_ready r)\<rparr>) = (r1, oc, w)"
    and n: "n = dc_maxConcurrency cfg"
  shows "log_inv cfg ids adj states (dr_log r1) \<and>
    (oc = None \<longrightarrow> loop_inv cfg ids adj states (requeue r1) \<and>
       done_set (dr_states r1) = done_set (dr_states r) \<union> set (take n (dr_ready r)))"
proof -
  let ?b = "take n (dr_ready r)" and ?D = "done_set (dr_states r)"
  have sb: "set ?b \<subseteq> set (dr_ready r)" "set (drop n (dr_ready r)) \<subseteq> set (dr_ready r)"
    "set ?b \<inter> set (drop n (dr_ready r)) = {}" "set ?b \<union> set (drop n (dr_ready r)) = set (dr_ready r)"
    using inv set_take_disj_set_drop_if_distinct [of "dr_ready r" n n]
    by (auto simp: loop_inv_def simp flip: set_append dest: in_set_takeD in_set_dropD)
  have b: "distinct ?b" "set ?b \<subseteq> set ids" "set ?b \<inter> ?D = {}" "length ?b \<le> dc_maxConcurrency cfg"
    using inv sb(1) n by (auto simp: loop_inv_def)
  have D: "?D = done_set states \<union> set (concat (dr_log r))" using inv unfolding loop_inv_def by blast
  note e = run_batch_effect [OF run a, simplified, OF _ b(1-3)]
  have d: "deg_inv ids adj ?D (dr_inDegree r)" using inv unfolding loop_inv_def by blast
  have "v \<in> set ids - ?D \<and> may_rerun cfg states v \<and> (\<forall>u. (u, v) \<in> edges adj \<longrightarrow> u \<in> ?D)" if "v \<in> set ?b" for v
    using loop_invD(6) [OF inv, of v] that sb(1) unfolding enabled_def by blast
  then have l: "log_inv cfg ids adj states (dr_log r @ [?b])"
    using inv log_inv_snoc [OF _ b(1,4)] unfolding loop_inv_def D by blast
  show ?thesis
  proof (intro conjI impI)
    show "log_inv cfg ids adj states (dr_log r1)" using e d l by simp
    assume oc: "oc = None"
    show D1: "done_set (dr_states r1) = ?D \<union> set ?b" using e d oc by simp
    have log1: "dr_log r1 = dr_log r @ [?b]" and q1: "dr_ready r1 = drop n (dr_ready r)"
      and s1: "\<And>v. v \<notin> set ?b \<Longrightarrow> status_of (dr_states r1) v = status_of (dr_states r) v" using e d by auto
    have up: "enabled adj r v \<Longrightarrow> enabled adj r1 v" for v unfolding enabled_def D1 by blast
    show "loop_inv cfg ids adj states (requeue r1)"
    proof (rule loop_inv_requeue [OF a])
      show "v \<in> set ids - done_set (dr_states r1) \<and> enabled adj r1 v \<and> may_rerun cfg states v"
        if "v \<in> set (dr_ready r1)" for v
        using inv that sb(2,3) up unfolding q1 D1 loop_inv_def by blast
      show "v \<in> set (dr_ready r1) \<or> stuck cfg adj states v"
        if v: "v \<in> set ids - done_set (dr_states r1)" "status_of states v = NRunning" for v
      proof (cases "enabled adj r v")
        case True
        then have "v \<in> set (dr_ready r) \<or> stuck cfg adj states v" using inv v unfolding loop_inv_def D1 by blast
        then show ?thesis using v(1) sb(4) unfolding q1 D1 by blast
      next
        case False
        then show ?thesis using v(2) D unfolding stuck_def enabled_def by blast
      qed
    qed (use e d l oc D D1 inv s1 log1 q1 in \<open>auto simp: loop_inv_def\<close>)
  qed
qed

subsection \<open>The whole pass\<close>

lemma schedule_round:
  assumes "dr_ready r \<noteq> []"
    and "run_batch cfg adj (take (dc_maxConcurrency cfg) (dr_ready r))
      (r\<lparr>dr_ready := drop (dc_maxConcurrency cfg) (dr_ready r)\<rparr>) = (r1, oc, w)"
  shows "schedule (Suc k) cfg nodes adj r =
    (case oc of
       Some (BWaiting i) \<Rightarrow> Some (DagWaiting i w, r1)
     | Some (BFailed i err) \<Rightarrow> Some (DagFailed i err, r1)
     | None \<Rightarrow> if dr_ready (requeue r1) \<noteq> [] \<and> dc_shouldPause cfg (length (dr_log r1)) then Some (DagPaused, requeue r1)
         else schedule k cfg nodes adj (requeue r1))"
  using assms by (cases oc) (simp_all add: Let_def split: batch_outcome.split)

lemma schedule_log:
  assumes "schedule k cfg nodes adj r = Some (e, r')" "loop_inv cfg ids adj states r" "adj_in ids adj"
  shows "log_inv cfg ids adj states (dr_log r')"
  using assms
proof (induction k arbitrary: r)
  case (Suc k)
  let ?n = "dc_maxConcurrency cfg"
  obtain r1 oc w where run: "run_batch cfg adj (take ?n (dr_ready r)) (r\<lparr>dr_ready := drop ?n (dr_ready r)\<rparr>) = (r1, oc, w)"
    by (metis prod_cases3)
  note st = batch_step [OF Suc.prems(2,3) run refl]
  show ?case
  proof (cases "dr_ready r = []")
    case True
    then show ?thesis using Suc.prems(1) loop_invD(2) [OF Suc.prems(2)] by simp
  next
    case ready: False
    note step = Suc.prems(1) [unfolded schedule_round [OF ready run]]
    show ?thesis
    proof (cases oc)
      case None
      with st have i2: "loop_inv cfg ids adj states (requeue r1)" by simp
      show ?thesis
        using step None st Suc.IH [OF _ i2 Suc.prems(3)] by (simp split: if_splits) (metis requeue_simps(3))
    next
      case (Some b)
      then show ?thesis using step st by (cases b) auto
    qed
  qed
qed simp

lemma schedule_returns:
  assumes "loop_inv cfg ids adj states r" "adj_in ids adj" "1 \<le> dc_maxConcurrency cfg"
    and "card (set ids - done_set (dr_states r)) < k"
  shows "\<exists>e r'. schedule k cfg nodes adj r = Some (e, r')"
  using assms(1,4)
proof (induction k arbitrary: r)
  case (Suc k)
  let ?n = "dc_maxConcurrency cfg" and ?D = "done_set (dr_states r)"
  obtain r1 oc w where run: "run_batch cfg adj (take ?n (dr_ready r)) (r\<lparr>dr_ready := drop ?n (dr_ready r)\<rparr>) = (r1, oc, w)"
    by (metis prod_cases3)
  note st = batch_step [OF Suc.prems(1) assms(2) run refl]
  show ?case
  proof (cases "dr_ready r = [] \<or> oc \<noteq> None")
    case True
    then show ?thesis using run by (auto split: batch_outcome.splits)
  next
    case False
    then obtain v q where q: "dr_ready r = v # q" and oc: "oc = None" by (metis list.exhaust)
    have v: "v \<in> set ids - ?D" using loop_invD(6) [OF Suc.prems(1), of v] q by simp
    have "v \<in> set (take ?n (dr_ready r))" using q assms(3) by (cases ?n) auto
    with st oc v have "set ids - done_set (dr_states r1) \<subset> set ids - ?D" by auto
    then have "card (set ids - done_set (dr_states r1)) < k"
      using Suc.prems(2) psubset_card_mono [of "set ids - ?D"] by (meson List.finite_set finite_Diff less_Suc_eq_le order_less_le_trans)
    then have "\<exists>e r'. schedule k cfg nodes adj (requeue r1) = Some (e, r')"
      using Suc.IH [of "requeue r1"] st oc by simp
    then show ?thesis using run q oc by (auto simp: Let_def)
  qed
qed simp

text \<open>How the loop ends: with nothing ready, on a node that did not finish, or on a pause.\<close>

lemma schedule_ending:
  assumes "schedule k cfg nodes adj r = Some (e, r')" "loop_inv cfg ids adj states r" "adj_in ids adj"
  shows "loop_inv cfg ids adj states r' \<and> dr_ready r' = [] \<and> e = finish_pass cfg nodes r' \<or>
    (\<exists>i w. e = DagWaiting i w) \<and> \<not> (\<forall>i n c. finishes (dc_exec cfg i n c)) \<or>
    (\<exists>i m. e = DagFailed i m) \<and> \<not> (\<forall>i n c. finishes (dc_exec cfg i n c)) \<or>
    e = DagPaused \<and> (\<exists>n. dc_shouldPause cfg n)"
  using assms
proof (induction k arbitrary: r)
  case (Suc k)
  let ?n = "dc_maxConcurrency cfg"
  let ?b = "take ?n (dr_ready r)" and ?q = "r\<lparr>dr_ready := drop ?n (dr_ready r)\<rparr>"
  obtain r1 oc w where run: "run_batch cfg adj ?b ?q = (r1, oc, w)" by (metis prod_cases3)
  note st = batch_step [OF Suc.prems(2,3) run refl] and inv = loop_invD [OF Suc.prems(2)]
  show ?case
  proof (cases "dr_ready r = []")
    case True
    then show ?thesis using Suc.prems by auto
  next
    case ready: False
    note step = Suc.prems(1) [unfolded schedule_round [OF ready run]]
    show ?thesis
    proof (cases oc)
      case None
      with st have i2: "loop_inv cfg ids adj states (requeue r1)" by simp
      from step None Suc.IH [OF _ i2 Suc.prems(3)] show ?thesis by (auto split: if_splits)
    next
      case (Some b)
      have b: "distinct ?b" "set ?b \<subseteq> set ids" "set ?b \<inter> done_set (dr_states ?q) = {}"
        using inv(5) inv(6) by (auto dest: in_set_takeD)
      have "\<not> (\<forall>i n c. finishes (dc_exec cfg i n c))"
        using run_batch_effect [OF run Suc.prems(3) _ b] inv(1) Some by auto
      with step Some show ?thesis by (cases b) auto
    qed
  qed
qed simp

lemma recover_nodes_effect:
  assumes "recover_nodes cfg states ds (q, rc, ex) = (q', rc', ex')"
  shows "set q' = set q \<union> {i. (i, 0) \<in> set ds \<and> status_of states i = NRunning \<and> may_rerun cfg states i}"
    and "distinct q \<Longrightarrow> distinct q'"
    and "ex' = [] \<Longrightarrow> (i, 0) \<in> set ds \<Longrightarrow> status_of states i = NRunning \<Longrightarrow> \<not> dc_isWait cfg i \<Longrightarrow>
      i \<in> set q \<or> attempt_of states i \<le> dc_maxAttempts cfg i"
    and "ex' = [] \<Longrightarrow> ex = []"
    and "i \<in> set ex' \<Longrightarrow> i \<in> set ex \<or> status_of states i = NRunning \<and> dc_maxAttempts cfg i < attempt_of states i"
  using assms
proof (induction ds arbitrary: q rc ex)
  case (Cons d ds)
  obtain i n where d: "d = (i, n)" by (cases d)
  { case 1 then show ?case using Cons.IH(1) unfolding d by (auto simp: may_rerun_def split: if_splits)
  next case 2 then show ?case using Cons.IH(2) [of q] Cons.IH(2) [of "q @ [i]"] unfolding d by (auto split: if_splits)
  next case 3 then show ?case using Cons.IH(3,4) unfolding d by (fastforce split: if_splits)
  next case 4 then show ?case using Cons.IH(4) unfolding d by (fastforce split: if_splits)
  next case 5 then show ?case using Cons.IH(5) unfolding d by (fastforce split: if_splits) }
qed auto

lemma enough_rounds:
  assumes "loop_inv cfg (map wn_id nodes) adj states r" "adj_in (map wn_id nodes) adj" "1 \<le> dc_maxConcurrency cfg"
  shows "\<exists>e r'. schedule (Suc (length nodes)) cfg nodes adj r = Some (e, r')"
proof -
  have "card (set (map wn_id nodes) - done_set (dr_states r)) \<le> length nodes"
    by (metis List.finite_set card_length card_mono Diff_subset le_trans length_map)
  then show ?thesis by (intro schedule_returns [OF assms]) simp
qed

lemma unfinished_empty: "getUnfinishedNodeDetails nodes states = [] \<longleftrightarrow> wn_id ` set nodes \<subseteq> done_set states"
  by (auto simp: getUnfinishedNodeDetails_def filter_empty_conv done_set_def)

text \<open>In an acyclic graph a pass with nothing ready has finished every node, or one of them is stuck.\<close>

lemma stall_has_stuck:
  assumes inv: "loop_inv cfg ids adj states r" and a: "adj_in ids adj" and ac: "\<not> cyclic adj"
    and ready: "dr_ready r = []" and left: "\<not> set ids \<subseteq> done_set (dr_states r)"
  shows "\<exists>v \<in> set ids - done_set (dr_states r). stuck cfg adj states v"
proof -
  let ?U = "set ids - done_set (dr_states r)"
  have "finite (edges adj)" using a finite_subset [of "edges adj" "set ids \<times> set ids"] by (simp add: adj_in_def)
  then have "wf (edges adj)" using ac by (simp add: finite_acyclic_wf acyclic_def cyclic_def)
  moreover obtain x where "x \<in> ?U" using left by auto
  ultimately obtain v where v: "v \<in> ?U" "\<And>u. (u, v) \<in> edges adj \<Longrightarrow> u \<notin> ?U"
    by (meson wfE_min)
  moreover have "(u, v) \<in> edges adj \<Longrightarrow> u \<in> set ids" for u using a by (auto simp: adj_in_def)
  ultimately have "enabled adj r v" by (auto simp: enabled_def)
  with loop_invD(7) [OF inv, of v] v(1) ready show ?thesis by auto
qed

subsection \<open>The start of a pass\<close>

lemma zero_degree:
  assumes "deg_inv ids adj F m" "adj_in ids adj"
  shows "(v, 0) \<in> set m \<longleftrightarrow> v \<in> set ids \<and> (\<forall>u. (u, v) \<in> edges adj \<longrightarrow> u \<in> F)"
proof -
  have k: "jm_keys m = ids" "jm_ok m" using assms by (auto simp: deg_inv_def adj_in_def jm_ok_def)
  have "(v, 0) \<in> set m \<longleftrightarrow> jm_get m v = Some 0" using jm_get_in_set [OF k(2)] by metis
  also have "\<dots> \<longleftrightarrow> v \<in> set ids \<and> degree_of m v = 0"
  proof -
    have "jm_get m v = None \<longleftrightarrow> v \<notin> set ids" using k(1) by (metis map_of_eq_None_iff set_map)
    then show ?thesis by (cases "jm_get m v") (auto simp: degree_of_def)
  qed
  finally show ?thesis using deg_zero [OF assms] by auto
qed

lemma pass_start_inv:
  assumes g: "buildGraph nodes = Inr g" "jm_ok states"
    and rc: "recover_nodes cfg states (dr_inDegree (start_pass g states ctx)) (dr_ready (start_pass g states ctx), [], [])
      = (ready, recovery, [])"
  shows "loop_inv cfg (map wn_id nodes) (dg_adj g) states ((start_pass g states ctx)\<lparr>dr_ready := ready, dr_recovery := recovery\<rparr>)"
proof -
  let ?ids = "map wn_id nodes" and ?r = "start_pass g states ctx"
  have a: "adj_in ?ids (dg_adj g)" and d: "deg_inv ?ids (dg_adj g) (done_set states) (dr_inDegree ?r)"
    using start_degrees [OF g] by (auto simp: start_pass_def Let_def)
  have q: "dr_ready ?r = getReadyNodes (dr_inDegree ?r) (statuses states)" and s: "dr_states ?r = states" "dr_log ?r = []"
    by (simp_all add: start_pass_def Let_def)
  note rd = ready_nodes_iff(1) [OF d a, of _ states, folded q] ready_nodes_iff(2) [OF d a, of states, folded q]
    and z = zero_degree [OF d a]
  have ready: "v \<in> set ready \<longleftrightarrow> v \<in> set ?ids \<and> (\<forall>u. (u, v) \<in> edges (dg_adj g) \<longrightarrow> u \<in> done_set states) \<and>
      (status_of states v = NPending \<or> status_of states v = NFailed \<or> status_of states v = NRunning \<and> may_rerun cfg states v)" for v
    unfolding recover_nodes_effect(1) [OF rc] using rd(1) [of v] z [of v] by auto
  have "distinct ready" using recover_nodes_effect(2) [OF rc] rd(2) by simp
  moreover have "v \<in> set ?ids - done_set states \<and> may_rerun cfg states v" if "v \<in> set ready" for v
    using that ready [of v] by (auto simp: may_rerun_def done_set_def finished_status_def)
  moreover have "v \<in> set ready \<or> stuck cfg (dg_adj g) states v"
    if "v \<in> set ?ids - done_set states" "\<forall>u. (u, v) \<in> edges (dg_adj g) \<longrightarrow> u \<in> done_set states" for v
  proof (cases "status_of states v = NRunning \<and> \<not> dc_isWait cfg v")
    case True
    then have "v \<in> set (dr_ready ?r) \<or> attempt_of states v \<le> dc_maxAttempts cfg v"
      using recover_nodes_effect(3) [OF rc refl, of v] that z [of v] by auto
    then show ?thesis using True rd(1) [of v] ready [of v] that by (auto simp: may_rerun_def)
  next
    case False
    then show ?thesis using ready [of v] that status_cases [of v states] by (auto simp: stuck_def)
  qed
  moreover have "(u, v) \<in> edges (dg_adj g) \<Longrightarrow> u \<in> done_set states" if "v \<in> set ready" for u v
    using that ready [of v] by blast
  ultimately show ?thesis
    using d by (simp add: loop_inv_def log_inv_def order_ok_def enabled_def s)
qed

text \<open>A pass refuses at once, or is the loop from a state that satisfies the invariant.\<close>

lemma pass_cases:
  assumes ok: "jm_ok states"
  obtains (refused) e r where "\<And>fuel. executeUnwrapped fuel cfg nodes states ctx = Some (e, r)" "dr_log r = []"
      "(\<exists>x. buildGraph nodes = Inl x \<and> e = DagInvalid x) \<or>
       (\<exists>g. buildGraph nodes = Inr g \<and> cyclic (dg_adj g) \<and> e = DagCycle)"
  | (exhausted) i js g where "\<And>fuel. executeUnwrapped fuel cfg nodes states ctx =
        Some (DagExhausted i (attempt_of states i) (dc_maxAttempts cfg i),
          (start_pass g states ctx)\<lparr>dr_states := fail_exhausted (i # js) states\<rparr>)"
      "status_of states i = NRunning" "dc_maxAttempts cfg i < attempt_of states i"
  | (run) g r where "\<And>fuel. executeUnwrapped fuel cfg nodes states ctx = schedule fuel cfg nodes (dg_adj g) r"
      "buildGraph nodes = Inr g" "\<not> cyclic (dg_adj g)" "adj_in (map wn_id nodes) (dg_adj g)"
      "loop_inv cfg (map wn_id nodes) (dg_adj g) states r" "dr_states r = states"
proof (cases "buildGraph nodes")
  case (Inl x)
  show ?thesis
    by (rule refused [of "DagInvalid x"]) (auto simp: executeUnwrapped_def start_pass_def Let_def Inl)
next
  case (Inr g)
  let ?r = "start_pass g states ctx"
  have a: "adj_in (map wn_id nodes) (dg_adj g)" using start_degrees [OF Inr ok] by blast
  then have cyc: "hasCycle nodes (dg_adj g) = Some (cyclic (dg_adj g))"
    by (intro hasCycle_returns) (simp add: adj_in_def)
  obtain ready recovery ex where rc: "recover_nodes cfg states (dr_inDegree ?r) (dr_ready ?r, [], []) = (ready, recovery, ex)"
    by (metis prod_cases3)
  show ?thesis
  proof (cases "cyclic (dg_adj g)")
    case True
    show ?thesis
      by (rule refused [of DagCycle]) (use Inr True cyc in \<open>auto simp: executeUnwrapped_def start_pass_def Let_def\<close>)
  next
    case False
    show ?thesis
    proof (cases ex)
      case Nil
      show ?thesis
      proof (rule run [OF _ Inr False a pass_start_inv [OF Inr ok rc [unfolded Nil]]])
        show "dr_states (?r\<lparr>dr_ready := ready, dr_recovery := recovery\<rparr>) = states"
          by (simp add: start_pass_def Let_def)
      qed (use Inr False cyc rc Nil in \<open>simp add: executeUnwrapped_def Let_def\<close>)
    next
      case (Cons i js)
      then have "status_of states i = NRunning \<and> dc_maxAttempts cfg i < attempt_of states i"
        using recover_nodes_effect(5) [OF rc, of i] by simp
      then show ?thesis
        by (intro exhausted [of i js g]) (use Inr False cyc rc Cons in \<open>simp_all add: executeUnwrapped_def Let_def\<close>)
    qed
  qed
qed

subsection \<open>Properties of a pass\<close>

lemma ids_set: "set (map wn_id nodes) = wn_id ` set nodes"
  by simp

lemma status_fail_exhausted:
  "status_of (fail_exhausted ids states) i = (if i \<in> set ids then NFailed else status_of states i)"
  by (induction ids arbitrary: states) (auto simp: fail_exhausted_def status_set)

text \<open>The log of any pass satisfies the log invariant over the edges the workflow declares.\<close>

lemma pass_log:
  assumes "jm_ok states" "executeUnwrapped fuel cfg nodes states ctx = Some (e, r)"
  shows "dr_log r = [] \<or> (\<exists>g. buildGraph nodes = Inr g \<and> edges (dg_adj g) = declared nodes \<union> implicit nodes \<and>
    log_inv cfg (map wn_id nodes) (dg_adj g) states (dr_log r))"
  using assms(1)
proof (cases rule: pass_cases [of states cfg nodes ctx])
  case (run g r0)
  have "edges (dg_adj g) = declared nodes \<union> implicit nodes" using buildGraph_props [OF run(2)] by blast
  moreover have "log_inv cfg (map wn_id nodes) (dg_adj g) states (dr_log r)"
    using assms(2) run schedule_log by metis
  ultimately show ?thesis using run(2) by blast
qed (use assms(2) in \<open>auto simp: start_pass_def Let_def\<close>)

text \<open>A configuration for the witnesses: two nodes at a time, every step completes at once.\<close>

definition quick_config :: "string set \<Rightarrow> nat dag_config" where
  "quick_config waits = \<lparr>dc_maxConcurrency = 2, dc_isWait = (\<lambda>i. i \<in> waits), dc_maxAttempts = (\<lambda>i. 1),
     dc_shouldPause = (\<lambda>n. False), dc_deepEqual = (=),
     dc_exec = (\<lambda>i n c. if i \<in> waits then EParked n c (createSetContextPatch [])
                        else ECompleted n c (createSetContextPatch [(i, n)]))\<rparr>"

text \<open>C10: In a pass of the executor over any workflow, from any recorded states, no node is executed
  twice or when it had already completed or been skipped, every node is executed only after all its
  dependencies, declared and implicit, finished in an earlier batch or an earlier pass, and no batch
  is larger than the concurrency limit.\<close>

theorem schedule_respects_dependencies:
  "jm_ok states \<Longrightarrow> executeUnwrapped fuel cfg nodes states ctx = Some (e, r) \<Longrightarrow>
   distinct (concat (dr_log r)) \<and> set (concat (dr_log r)) \<subseteq> wn_id ` set nodes - done_set states \<and>
   (\<forall>k < length (dr_log r). length (dr_log r ! k) \<le> dc_maxConcurrency cfg \<and>
      (\<forall>v \<in> set (dr_log r ! k). \<forall>u. (u, v) \<in> declared nodes \<union> implicit nodes \<longrightarrow>
         u \<in> done_set states \<union> set (concat (take k (dr_log r)))))"
  using pass_log [of states fuel cfg nodes ctx e r] unfolding log_inv_def order_ok_def ids_set by fastforce

theorem schedule_respects_dependencies_witness:
  "\<exists>r. executeUnwrapped 4 (quick_config {}) abc_nodes [] [] = Some (DagCompleted, r) \<and>
     dr_log r = [[''a''], [''b'', ''c'']] \<and> (''a'', ''c'') \<in> declared abc_nodes \<and> ''a'' \<in> set (concat (take 1 (dr_log r)))"
proof -
  have "map_option (\<lambda>(e, r). (e, dr_log r)) (executeUnwrapped 4 (quick_config {}) abc_nodes [] []) =
      Some (DagCompleted, [[''a''], [''b'', ''c'']])"
    by code_simp
  then obtain r where r: "executeUnwrapped 4 (quick_config {}) abc_nodes [] [] = Some (DagCompleted, r)"
    and l: "dr_log r = [[''a''], [''b'', ''c'']]" by auto
  have d: "(''a'', ''c'') \<in> declared abc_nodes"
    by (simp add: abc_nodes_def declared_Cons declared_Nil deps_of_def)
  have "jm_ok ([] :: node_states)" by (simp add: jm_ok_def)
  from schedule_respects_dependencies [OF this r]
  have "\<forall>k < 2. \<forall>v \<in> set (dr_log r ! k). \<forall>u. (u, v) \<in> declared abc_nodes \<union> implicit abc_nodes \<longrightarrow>
         u \<in> done_set [] \<union> set (concat (take k (dr_log r)))" by (simp add: l)
  from this [rule_format, of 1 "''c''" "''a''"] d
  have "''a'' \<in> done_set [] \<union> set (concat (take 1 (dr_log r)))" by (simp add: l)
  then have "''a'' \<in> set (concat (take 1 (dr_log r)))"
    by (simp add: done_set_def status_of_def finished_status_def l)
  with r l d show ?thesis by blast
qed

text \<open>C12: A pass ends. With a positive concurrency limit the loop returns within one round more than
  there are nodes, whatever the executions answer and whatever states were recorded.\<close>

theorem execution_terminates:
  "jm_ok states \<Longrightarrow> 1 \<le> dc_maxConcurrency cfg \<Longrightarrow>
   \<exists>e r. executeUnwrapped (Suc (length nodes)) cfg nodes states ctx = Some (e, r)"
proof -
  assume ok: "jm_ok states" and n: "1 \<le> dc_maxConcurrency cfg"
  from ok show ?thesis
  proof (cases rule: pass_cases [of states cfg nodes ctx])
    case (run g r)
    then show ?thesis using enough_rounds [OF run(5,4) n] by metis
  qed auto
qed

theorem execution_terminates_witness:
  "\<exists>e r. executeUnwrapped (Suc (length abc_nodes)) (quick_config {''b''}) abc_nodes [] [] = Some (e, r)"
  by (rule execution_terminates) (simp_all add: jm_ok_def quick_config_def)

text \<open>C11: A pass completes the workflow. For an acyclic workflow whose executions all finish and that
  is never paused, when every node recorded as running is not a parked wait, has recovery budget left and
  had its dependencies finished, the pass ends as completed, with every node completed or skipped.\<close>

theorem clean_pass_completes:
  assumes "jm_ok states" "1 \<le> dc_maxConcurrency cfg" "buildGraph nodes = Inr g"
    and "\<And>x. (x, x) \<notin> (edges (dg_adj g))\<^sup>+"
    and "\<And>i n c. finishes (dc_exec cfg i n c)" "\<And>n. \<not> dc_shouldPause cfg n"
    and "\<And>i. status_of states i = NRunning \<Longrightarrow> \<not> dc_isWait cfg i \<and> attempt_of states i \<le> dc_maxAttempts cfg i \<and>
      (\<forall>u. (u, i) \<in> edges (dg_adj g) \<longrightarrow> finished_status (status_of states u))"
  shows "\<exists>r. executeUnwrapped (Suc (length nodes)) cfg nodes states ctx = Some (DagCompleted, r) \<and>
    (\<forall>n \<in> set nodes. finished_status (status_of (dr_states r) (wn_id n)))"
  using assms(1)
proof (cases rule: pass_cases [of states cfg nodes ctx])
  case (run g' r)
  have g: "g' = g" using run(2) assms(3) by simp
  from enough_rounds [OF run(5,4) assms(2)] obtain e r'
    where r': "schedule (Suc (length nodes)) cfg nodes (dg_adj g') r = Some (e, r')" by blast
  then have end_inv: "loop_inv cfg (map wn_id nodes) (dg_adj g') states r'" "dr_ready r' = []" "e = finish_pass cfg nodes r'"
    using schedule_ending [OF r' run(5,4)] assms(5,6) by auto
  have "\<not> stuck cfg (dg_adj g') states v" for v
    using assms(7) [of v] unfolding g stuck_def done_set_def by blast
  with stall_has_stuck [OF end_inv(1) run(4,3) end_inv(2)]
  have all: "wn_id ` set nodes \<subseteq> done_set (dr_states r')" unfolding ids_set by blast
  then have "e = DagCompleted" unfolding end_inv(3) finish_pass_def by (simp add: Let_def unfinished_empty)
  with r' run(1) all show ?thesis by (auto simp: done_set_def)
next
  case (exhausted i js g')
  then show ?thesis using assms(7) [of i] by simp
qed (use assms(3,4) in \<open>auto simp: cyclic_def\<close>)

theorem clean_pass_completes_witness:
  "\<exists>r. executeUnwrapped (Suc (length abc_nodes)) (quick_config {}) abc_nodes
      [(''a'', \<lparr>nd_status = NRunning, nd_attempt = 1\<rparr>)] [] = Some (DagCompleted, r) \<and>
    (\<forall>n \<in> set abc_nodes. finished_status (status_of (dr_states r) (wn_id n)))"
proof -
  let ?s = "[(''a'', \<lparr>nd_status = NRunning, nd_attempt = 1\<rparr>)] :: node_states"
  let ?adj = "[(''a'', [''c'', ''b'']), (''b'', []), (''c'', [])] :: (string \<times> string list) list"
  have "map_sum id dg_adj (buildGraph abc_nodes) = Inr ?adj" by code_simp
  then obtain g where g: "buildGraph abc_nodes = Inr g" and adj: "dg_adj g = ?adj"
    by (cases "buildGraph abc_nodes") auto
  have e: "edges (dg_adj g) = {(''a'', ''b''), (''a'', ''c'')}"
    by (auto simp: adj edges_def dependents_of_def split: if_splits)
  have "(x, y) \<in> (edges (dg_adj g))\<^sup>+ \<Longrightarrow> x = ''a'' \<and> y \<noteq> ''a''" for x y
    by (induction rule: trancl.induct) (auto simp: e)
  then have ac: "(x, x) \<notin> (edges (dg_adj g))\<^sup>+" for x by blast
  show ?thesis
  proof (rule clean_pass_completes [OF _ _ g ac])
    show "\<not> dc_isWait (quick_config {}) i \<and> attempt_of ?s i \<le> dc_maxAttempts (quick_config {}) i \<and>
        (\<forall>u. (u, i) \<in> edges (dg_adj g) \<longrightarrow> finished_status (status_of ?s u))" if "status_of ?s i = NRunning" for i
      using that by (auto simp: e status_of_def attempt_of_def quick_config_def split: if_splits)
  qed (simp_all add: jm_ok_def quick_config_def)
qed

text \<open>A stalled pass is a parked wait. When every node recorded as running had its dependencies
  finished, a pass that ends with nothing to run and nodes unfinished was blocked by a wait node that the
  recorded states show as running; nothing else can strand a workflow.\<close>

theorem stall_means_parked_wait:
  assumes "jm_ok states" "executeUnwrapped fuel cfg nodes states ctx = Some (DagStalled left waits, r)"
    and "\<And>u v. (u, v) \<in> declared nodes \<union> implicit nodes \<Longrightarrow> status_of states v = NRunning \<Longrightarrow>
      finished_status (status_of states u)"
  shows "\<exists>v \<in> wn_id ` set nodes. dc_isWait cfg v \<and> status_of states v = NRunning \<and> (v, NRunning) \<in> set left"
  using assms(1)
proof (cases rule: pass_cases [of states cfg nodes ctx])
  case (run g r0)
  have ends: "loop_inv cfg (map wn_id nodes) (dg_adj g) states r" "dr_ready r = []" "DagStalled left waits = finish_pass cfg nodes r"
    using schedule_ending [OF assms(2) [unfolded run(1)] run(5,4)] by auto
  then have left: "left = getUnfinishedNodeDetails nodes (dr_states r)" "left \<noteq> []"
    by (auto simp: finish_pass_def Let_def split: if_splits)
  then obtain v where v: "v \<in> wn_id ` set nodes - done_set (dr_states r)" "stuck cfg (dg_adj g) states v"
    using stall_has_stuck [OF ends(1) run(4,3) ends(2)] unfinished_empty by auto
  have e: "edges (dg_adj g) = declared nodes \<union> implicit nodes" using buildGraph_props [OF run(2)] by blast
  have w: "status_of states v = NRunning" "dc_isWait cfg v"
    using v(2) assms(3) unfolding stuck_def e done_set_def by blast+
  have "v \<notin> set (concat (dr_log r))" using v(1) loop_invD(3) [OF ends(1)] by blast
  then have "status_of (dr_states r) v = NRunning" using loop_invD(4) [OF ends(1), of v] w(1) by simp
  then have "(v, NRunning) \<in> set left"
    using v(1) unfolding left getUnfinishedNodeDetails_def by (auto simp: finished_status_def)
  with v(1) w show ?thesis by blast
qed (use assms(2) in auto)

text \<open>Crash recovery is bounded. A node executed by a pass although it was recorded as running is
  never a parked wait and was recorded with no more attempts than its budget; when a pass ends because a
  node exhausted its budget, that node was recorded as running with more attempts than its budget, it is
  now failed, and nothing was executed.\<close>

theorem recovery_is_bounded:
  "jm_ok states \<Longrightarrow> executeUnwrapped fuel cfg nodes states ctx = Some (e, r) \<Longrightarrow>
   (\<forall>v \<in> set (concat (dr_log r)). status_of states v = NRunning \<longrightarrow>
      \<not> dc_isWait cfg v \<and> attempt_of states v \<le> dc_maxAttempts cfg v) \<and>
   (\<forall>i a m. e = DagExhausted i a m \<longrightarrow> dr_log r = [] \<and> m < a \<and> a = attempt_of states i \<and>
      status_of states i = NRunning \<and> status_of (dr_states r) i = NFailed)"
proof -
  assume ok: "jm_ok states" and ex: "executeUnwrapped fuel cfg nodes states ctx = Some (e, r)"
  have "v \<in> set (concat (dr_log r)) \<Longrightarrow> may_rerun cfg states v" for v
    using pass_log [OF ok ex] unfolding log_inv_def by fastforce
  moreover from ok have "e = DagExhausted i a m \<Longrightarrow> dr_log r = [] \<and> m < a \<and> a = attempt_of states i \<and>
      status_of states i = NRunning \<and> status_of (dr_states r) i = NFailed" for i a m
  proof (cases rule: pass_cases [of states cfg nodes ctx])
    case (run g r0)
    assume "e = DagExhausted i a m"
    then show ?thesis using schedule_ending [OF ex [unfolded run(1)] run(5,4)] by (auto simp: finish_pass_def Let_def split: if_splits)
  qed (use ex in \<open>auto simp: start_pass_def Let_def status_fail_exhausted\<close>)
  ultimately show ?thesis unfolding may_rerun_def by blast
qed

end
