(* ===== verification/PermitQueue.thy ===== *)
theory PermitQueue
  imports Prelude
begin

text \<open>
  What a first-in first-out semaphore promises, as a locale, and the callers of one: tasks that ask for a
  permit, may give up while they wait, and release when they are done. The lemmas of the locale hold for
  every interleaving of such tasks; the semaphores of \<open>utils/\<close> are its interpretations.
\<close>

datatype permit_answer = Granted | Queued | Refused

datatype 'q permit_event = PCall 'q | PGiveUp nat | PDone nat

text \<open>\<open>pr_calls\<close> lists the tasks that were granted a permit at once or queued, in the order of their
  calls, \<open>pr_grants\<close> the tasks in the order they got a permit, \<open>pr_left\<close> those that gave up and
  \<open>pr_held\<close> those that hold one.\<close>

record 's permit_run =
  pr_sem :: 's
  pr_calls :: "nat list"
  pr_grants :: "nat list"
  pr_left :: "nat list"
  pr_held :: "nat list"

definition new_run :: "'s \<Rightarrow> 's permit_run" where
  "new_run s = \<lparr>pr_sem = s, pr_calls = [], pr_grants = [], pr_left = [], pr_held = []\<rparr>"

text \<open>Tasks have distinct identities; a task gives up only while it waits and releases only a permit it
  holds.\<close>

fun permit_step :: "('q \<Rightarrow> nat) \<Rightarrow> ('q \<Rightarrow> 's \<Rightarrow> 's \<times> permit_answer) \<Rightarrow> (nat \<Rightarrow> 's \<Rightarrow> 's) \<Rightarrow> ('s \<Rightarrow> 's \<times> nat option) \<Rightarrow>
    'q permit_event \<Rightarrow> 's permit_run \<Rightarrow> 's permit_run" where
  "permit_step ident acquire giveup release (PCall q) r =
     (if ident q \<in> set (pr_calls r) then r
      else case acquire q (pr_sem r) of
        (s, Granted) \<Rightarrow> r\<lparr>pr_sem := s, pr_calls := pr_calls r @ [ident q], pr_grants := pr_grants r @ [ident q],
                         pr_held := pr_held r @ [ident q]\<rparr>
      | (s, Queued) \<Rightarrow> r\<lparr>pr_sem := s, pr_calls := pr_calls r @ [ident q]\<rparr>
      | (s, Refused) \<Rightarrow> r\<lparr>pr_sem := s\<rparr>)"
| "permit_step ident acquire giveup release (PGiveUp w) r =
     (if w \<in> set (pr_calls r) \<and> w \<notin> set (pr_grants r) \<and> w \<notin> set (pr_left r)
      then r\<lparr>pr_sem := giveup w (pr_sem r), pr_left := pr_left r @ [w]\<rparr> else r)"
| "permit_step ident acquire giveup release (PDone w) r =
     (if w \<in> set (pr_held r) then
        (case release (pr_sem r) of
           (s, None) \<Rightarrow> r\<lparr>pr_sem := s, pr_held := remove1 w (pr_held r)\<rparr>
         | (s, Some x) \<Rightarrow> r\<lparr>pr_sem := s, pr_held := remove1 w (pr_held r) @ [x], pr_grants := pr_grants r @ [x]\<rparr>)
      else r)"

definition run_permits :: "('q \<Rightarrow> nat) \<Rightarrow> ('q \<Rightarrow> 's \<Rightarrow> 's \<times> permit_answer) \<Rightarrow> (nat \<Rightarrow> 's \<Rightarrow> 's) \<Rightarrow>
    ('s \<Rightarrow> 's \<times> nat option) \<Rightarrow> 'q permit_event list \<Rightarrow> 's \<Rightarrow> 's permit_run" where
  "run_permits ident acquire giveup release es s =
     fold (permit_step ident acquire giveup release) es (new_run s)"

locale permit_queue =
  fixes ok :: "'s \<Rightarrow> bool" and permits :: "'s \<Rightarrow> int" and queue :: "'s \<Rightarrow> nat list"
    and ident :: "'q \<Rightarrow> nat" and acquire :: "'q \<Rightarrow> 's \<Rightarrow> 's \<times> permit_answer"
    and giveup :: "nat \<Rightarrow> 's \<Rightarrow> 's" and release :: "'s \<Rightarrow> 's \<times> nat option"
  assumes acquire_ok: "ok s \<Longrightarrow> ident q \<notin> set (queue s) \<Longrightarrow> ok (fst (acquire q s))"
    and acquire_refused: "snd (acquire q s) = Refused \<Longrightarrow> fst (acquire q s) = s"
    and acquire_granted: "snd (acquire q s) = Granted \<Longrightarrow>
      0 < permits s \<and> permits (fst (acquire q s)) = permits s - 1 \<and> queue (fst (acquire q s)) = queue s"
    and acquire_queued: "snd (acquire q s) = Queued \<Longrightarrow>
      permits s \<le> 0 \<and> permits (fst (acquire q s)) = permits s \<and> queue (fst (acquire q s)) = queue s @ [ident q]"
    and giveup_ok: "ok s \<Longrightarrow> ok (giveup w s)"
    and giveup_queue: "ok s \<Longrightarrow> queue (giveup w s) = filter (\<lambda>x. x \<noteq> w) (queue s) \<and> permits (giveup w s) = permits s"
    and release_ok: "ok s \<Longrightarrow> ok (fst (release s))"
    and release_next: "ok s \<Longrightarrow> queue s = w # ws \<Longrightarrow>
      snd (release s) = Some w \<and> queue (fst (release s)) = ws \<and> permits (fst (release s)) = permits s"
    and release_idle: "ok s \<Longrightarrow> queue s = [] \<Longrightarrow>
      snd (release s) = None \<and> queue (fst (release s)) = [] \<and> permits (fst (release s)) = permits s + 1"
begin

text \<open>Permits are conserved, none is idle while a task waits, and permits are granted in the order of the
  calls that did not give up.\<close>

definition fair_run :: "int \<Rightarrow> 's permit_run \<Rightarrow> bool" where
  "fair_run n r \<longleftrightarrow> ok (pr_sem r) \<and> permits (pr_sem r) + int (length (pr_held r)) = n \<and> 0 \<le> permits (pr_sem r) \<and>
     (queue (pr_sem r) \<noteq> [] \<longrightarrow> permits (pr_sem r) = 0) \<and>
     pr_grants r @ queue (pr_sem r) = filter (\<lambda>w. w \<notin> set (pr_left r)) (pr_calls r) \<and>
     distinct (pr_calls r) \<and> set (pr_left r) \<subseteq> set (pr_calls r)"

lemma fair_queue:
  assumes "fair_run n r" "w \<in> set (queue (pr_sem r))"
  shows "w \<in> set (pr_calls r)"
proof -
  have "w \<in> set (pr_grants r @ queue (pr_sem r))" using assms(2) by simp
  then show ?thesis using assms(1) unfolding fair_run_def by simp
qed

lemma step_call: "fair_run n r \<Longrightarrow> fair_run n (permit_step ident acquire giveup release (PCall q) r)"
proof -
  assume f: "fair_run n r"
  let ?s = "pr_sem r"
  obtain s a where sa: "acquire q ?s = (s, a)" by (cases "acquire q ?s")
  show ?thesis
  proof (cases "ident q \<in> set (pr_calls r)")
    case False
    then have nq: "ident q \<notin> set (queue ?s)" using fair_queue [OF f] by blast
    have ok: "ok s" using f acquire_ok [OF _ nq] sa by (metis fair_run_def fst_conv)
    have "ident q \<notin> set (pr_left r)" using False f by (auto simp: fair_run_def)
    with f False sa ok acquire_refused [of q ?s] acquire_granted [of q ?s] acquire_queued [of q ?s]
    show ?thesis by (cases a) (auto simp: fair_run_def)
  qed (use f in simp)
qed

lemma step_giveup: "fair_run n r \<Longrightarrow> fair_run n (permit_step ident acquire giveup release (PGiveUp w) r)"
proof -
  assume f: "fair_run n r"
  let ?s = "pr_sem r"
  have ok: "ok ?s" using f by (simp add: fair_run_def)
  show ?thesis
  proof (cases "w \<in> set (pr_calls r) \<and> w \<notin> set (pr_grants r) \<and> w \<notin> set (pr_left r)")
    case True
    have "filter (\<lambda>x. x \<noteq> w) (pr_grants r) = pr_grants r" using True by (simp add: filter_id_conv) blast
    then have "pr_grants r @ queue (giveup w ?s) = filter (\<lambda>x. x \<noteq> w) (pr_grants r @ queue ?s)"
      using giveup_queue [OF ok] by simp
    also have "\<dots> = filter (\<lambda>x. x \<noteq> w) (filter (\<lambda>w. w \<notin> set (pr_left r)) (pr_calls r))"
      using f by (simp add: fair_run_def)
    also have "\<dots> = filter (\<lambda>x. x \<noteq> w \<and> x \<notin> set (pr_left r)) (pr_calls r)"
      by (simp add: conj_commute)
    finally show ?thesis using f True giveup_ok [OF ok] giveup_queue [OF ok] by (auto simp: fair_run_def)
  qed (use f in auto)
qed

lemma step_done: "fair_run n r \<Longrightarrow> fair_run n (permit_step ident acquire giveup release (PDone w) r)"
proof -
  assume f: "fair_run n r"
  let ?s = "pr_sem r"
  obtain s x where sx: "release ?s = (s, x)" by (cases "release ?s")
  have ok: "ok ?s" using f by (simp add: fair_run_def)
  note ok' = release_ok [OF ok]
  show ?thesis
  proof (cases "w \<in> set (pr_held r)")
    case True
    have len: "int (length (remove1 w (pr_held r))) = int (length (pr_held r)) - 1"
      using length_pos_if_in_set [OF True] by (simp only: length_remove1 True if_True)
    show ?thesis
    proof (cases "queue ?s")
      case Nil
      with f True ok' sx len release_idle [OF ok] show ?thesis by (auto simp: fair_run_def)
    next
      case (Cons y ys)
      with f True ok' sx len release_next [OF ok Cons] show ?thesis by (auto simp: fair_run_def)
    qed
  qed (use f in simp)
qed

lemma run_fair:
  assumes "ok s" "queue s = []" "permits s = n" "0 \<le> n"
  shows "fair_run n (run_permits ident acquire giveup release es s)"
proof -
  have "fair_run n r \<Longrightarrow> fair_run n (fold (permit_step ident acquire giveup release) es r)" for r
  proof (induction es arbitrary: r)
    case (Cons e es)
    have "fair_run n (permit_step ident acquire giveup release e r)"
      using Cons.prems by (cases e) (simp_all only: step_call step_giveup step_done)
    from Cons.IH [OF this] show ?case by simp
  qed simp
  then show ?thesis using assms by (simp add: run_permits_def new_run_def fair_run_def)
qed

text \<open>The consequence that clients rely on, without the provider's invariant.\<close>

lemma run_conserves:
  assumes "ok s" "queue s = []" "permits s = n" "0 \<le> n"
    and r: "r = run_permits ident acquire giveup release es s"
  shows "permits (pr_sem r) + int (length (pr_held r)) = n \<and> 0 \<le> permits (pr_sem r) \<and>
    (queue (pr_sem r) \<noteq> [] \<longrightarrow> int (length (pr_held r)) = n) \<and>
    pr_grants r @ queue (pr_sem r) = filter (\<lambda>w. w \<notin> set (pr_left r)) (pr_calls r)"
  using run_fair [OF assms(1-4), of es, folded r] by (auto simp: fair_run_def)

end

end
