(* ===== verification/Semaphores.thy ===== *)
theory Semaphores
  imports PermitQueue
begin

text \<open>
  The two semaphores of \<open>utils/\<close> as providers of \<open>permit_queue\<close>.

  \<^item> \<open>utils/semaphore.ts\<close>: \<open>Semaphore\<close>, whose \<open>acquire\<close> waits for a permit, runs an operation and
    releases. A task of the locale is one call of \<open>acquire\<close>: its call is \<open>waitForPermit\<close>, the end of its
    operation is \<open>release\<close>, and giving up is the timer of a positive \<open>acquireTimeoutMs\<close>.
  \<^item> \<open>utils/permit-semaphore.ts\<close>: \<open>PermitSemaphore\<close>, with explicit \<open>tryAcquire\<close> and \<open>release\<close>, a bound on
    the queue, timeouts and abort signals.

  A waiter is identified by a number; in the code it is the waiting record itself. Resolving or rejecting a
  promise is the answer the operation returns.
\<close>

subsection \<open>Semaphore\<close>

record semaphore =
  sem_permits :: int
  sem_maxPermits :: int
  sem_waiting :: "nat list"
  sem_acquireTimeoutMs :: int

definition Semaphore :: "int \<Rightarrow> int option \<Rightarrow> semaphore" where
  "Semaphore maxPermits acquireTimeoutMs =
     \<lparr>sem_permits = maxPermits, sem_maxPermits = maxPermits, sem_waiting = [],
      sem_acquireTimeoutMs = (case acquireTimeoutMs of None \<Rightarrow> 0 | Some ms \<Rightarrow> ms)\<rparr>"

definition waitForPermit :: "nat \<Rightarrow> semaphore \<Rightarrow> semaphore \<times> permit_answer" where
  "waitForPermit task s =
     (if sem_permits s > 0 then (s\<lparr>sem_permits := sem_permits s - 1\<rparr>, Granted)
      else (s\<lparr>sem_waiting := sem_waiting s @ [task]\<rparr>, Queued))"

text \<open>The timer of a waiting task; one exists only for a positive timeout.\<close>

definition acquire_timeout :: "nat \<Rightarrow> semaphore \<Rightarrow> semaphore" where
  "acquire_timeout task s = s\<lparr>sem_waiting := remove1 task (sem_waiting s)\<rparr>"

definition sem_release :: "semaphore \<Rightarrow> semaphore \<times> nat option" where
  "sem_release s =
     (case sem_waiting s of
        [] \<Rightarrow> (s\<lparr>sem_permits := sem_permits s + 1\<rparr>, None)
      | next # ws \<Rightarrow> (s\<lparr>sem_waiting := ws\<rparr>, Some next))"

definition sem_active :: "semaphore \<Rightarrow> int" where
  "sem_active s = sem_maxPermits s - sem_permits s"

definition waitingCount :: "semaphore \<Rightarrow> nat" where
  "waitingCount s = length (sem_waiting s)"

definition getSemaphore :: "string \<Rightarrow> int \<Rightarrow> int option \<Rightarrow> (string \<times> semaphore) list \<Rightarrow>
    (string \<times> semaphore) list \<times> semaphore" where
  "getSemaphore name maxPermits acquireTimeoutMs sems =
     (case jm_get sems name of
        Some s \<Rightarrow> (sems, s)
      | None \<Rightarrow> (let s = Semaphore maxPermits acquireTimeoutMs in (jm_set name s sems, s)))"

interpretation sem: permit_queue "\<lambda>s. distinct (sem_waiting s)" sem_permits sem_waiting id waitForPermit acquire_timeout sem_release
proof -
  have rm: "distinct ws \<Longrightarrow> remove1 w ws = filter (\<lambda>x. x \<noteq> w) ws" for w :: nat and ws
    by (induction ws) (auto intro: filter_id_conv [THEN iffD2, symmetric])
  show "permit_queue (\<lambda>s. distinct (sem_waiting s)) sem_permits sem_waiting id waitForPermit acquire_timeout sem_release"
    by unfold_locales (auto simp: waitForPermit_def acquire_timeout_def sem_release_def rm split: if_splits list.splits)
qed

subsection \<open>PermitSemaphore\<close>

text \<open>The numbers callers may pass: whole ones, \<open>Infinity\<close>, and the rest (fractions and \<open>NaN\<close>).\<close>

datatype number_arg = Whole int | Infinite | Fractional

abbreviation "MAX_SAFE_INTEGER \<equiv> 9007199254740991 :: int"
abbreviation "MAX_TIMER_DELAY_MS \<equiv> 2147483647 :: int"

definition DEFAULT_ACQUIRE_TIMEOUT_MS :: number_arg where
  "DEFAULT_ACQUIRE_TIMEOUT_MS = Whole 100"

definition DEFAULT_PERMIT_SEMAPHORE_MAX_QUEUE_SIZE :: number_arg where
  "DEFAULT_PERMIT_SEMAPHORE_MAX_QUEUE_SIZE = Whole 10000"

datatype permit_error = RangeErr string | AbortErr

fun requireCapacity :: "number_arg \<Rightarrow> string \<Rightarrow> permit_error + int" where
  "requireCapacity (Whole n) name = (if 0 \<le> n \<and> n \<le> MAX_SAFE_INTEGER then Inr n else Inl (RangeErr name))"
| "requireCapacity _ name = Inl (RangeErr name)"

fun requireAcquireTimeout :: "number_arg \<Rightarrow> permit_error + int option" where
  "requireAcquireTimeout Infinite = Inr None"
| "requireAcquireTimeout (Whole n) =
     (if 0 \<le> n \<and> n \<le> MAX_TIMER_DELAY_MS then Inr (Some n) else Inl (RangeErr ''timeoutMs''))"
| "requireAcquireTimeout Fractional = Inl (RangeErr ''timeoutMs'')"

record permit_waiter =
  pw_id :: nat
  pw_settled :: bool

record permit_semaphore =
  ps_permits :: int
  ps_maxPermits :: int
  ps_maxQueueSize :: int
  ps_waitQueue :: "permit_waiter list"

definition PermitSemaphore :: "number_arg \<Rightarrow> number_arg option \<Rightarrow> permit_error + permit_semaphore" where
  "PermitSemaphore permits maxQueueSize =
     (case requireCapacity permits ''Semaphore permits'' of
        Inl err \<Rightarrow> Inl err
      | Inr n \<Rightarrow>
          (case requireCapacity (case maxQueueSize of None \<Rightarrow> DEFAULT_PERMIT_SEMAPHORE_MAX_QUEUE_SIZE | Some q \<Rightarrow> q)
              ''Semaphore maxQueueSize'' of
             Inl err \<Rightarrow> Inl err
           | Inr q \<Rightarrow> Inr \<lparr>ps_permits = n, ps_maxPermits = n, ps_maxQueueSize = q, ps_waitQueue = []\<rparr>))"

text \<open>A call of \<open>tryAcquire\<close>: the identity of its waiter, the timeout, and whether its signal is already
  aborted. It throws, answers, or waits.\<close>

record acquire_call =
  ac_id :: nat
  ac_timeoutMs :: number_arg
  ac_aborted :: bool

datatype acquire_result = Throws permit_error | Answers bool | Waits

definition tryAcquire :: "acquire_call \<Rightarrow> permit_semaphore \<Rightarrow> permit_semaphore \<times> acquire_result" where
  "tryAcquire q s =
     (case requireAcquireTimeout (ac_timeoutMs q) of
        Inl err \<Rightarrow> (s, Throws err)
      | Inr timeout \<Rightarrow>
          if ac_aborted q then (s, Throws AbortErr)
          else if ps_permits s > 0 then (s\<lparr>ps_permits := ps_permits s - 1\<rparr>, Answers True)
          else if timeout = Some 0 \<or> int (length (ps_waitQueue s)) \<ge> ps_maxQueueSize s then (s, Answers False)
          else (s\<lparr>ps_waitQueue := ps_waitQueue s @ [\<lparr>pw_id = ac_id q, pw_settled = False\<rparr>]\<rparr>, Waits))"

text \<open>The timer and the abort listener of a waiter settle it and remove it from the queue.\<close>

definition settle_waiter :: "nat \<Rightarrow> permit_semaphore \<Rightarrow> permit_semaphore" where
  "settle_waiter w s = s\<lparr>ps_waitQueue := filter (\<lambda>x. pw_id x \<noteq> w) (ps_waitQueue s)\<rparr>"

fun release_loop :: "permit_waiter list \<Rightarrow> permit_waiter list \<times> nat option" where
  "release_loop [] = ([], None)"
| "release_loop (w # ws) = (if pw_settled w then release_loop ws else (ws, Some (pw_id w)))"

definition permit_release :: "permit_semaphore \<Rightarrow> permit_semaphore \<times> nat option" where
  "permit_release s =
     (case release_loop (ps_waitQueue s) of
        (ws, Some w) \<Rightarrow> (s\<lparr>ps_waitQueue := ws\<rparr>, Some w)
      | (ws, None) \<Rightarrow> (s\<lparr>ps_waitQueue := ws, ps_permits := ps_permits s + 1\<rparr>, None))"

fun permit_answer_of :: "acquire_result \<Rightarrow> permit_answer" where
  "permit_answer_of (Throws _) = Refused"
| "permit_answer_of (Answers b) = (if b then Granted else Refused)"
| "permit_answer_of Waits = Queued"

definition try_permit :: "acquire_call \<Rightarrow> permit_semaphore \<Rightarrow> permit_semaphore \<times> permit_answer" where
  "try_permit q s = (case tryAcquire q s of (s', a) \<Rightarrow> (s', permit_answer_of a))"

definition ps_queue :: "permit_semaphore \<Rightarrow> nat list" where
  "ps_queue s = map pw_id (ps_waitQueue s)"

text \<open>No waiter of the queue is settled, and the queue keeps its bound.\<close>

definition ps_ok :: "permit_semaphore \<Rightarrow> bool" where
  "ps_ok s \<longleftrightarrow> (\<forall>w \<in> set (ps_waitQueue s). \<not> pw_settled w) \<and> int (length (ps_waitQueue s)) \<le> ps_maxQueueSize s"

lemma try_permit_cases:
  "try_permit q s = (s, Refused) \<or>
   0 < ps_permits s \<and> try_permit q s = (s\<lparr>ps_permits := ps_permits s - 1\<rparr>, Granted) \<or>
   ps_permits s \<le> 0 \<and> int (length (ps_waitQueue s)) < ps_maxQueueSize s \<and>
     try_permit q s = (s\<lparr>ps_waitQueue := ps_waitQueue s @ [\<lparr>pw_id = ac_id q, pw_settled = False\<rparr>]\<rparr>, Queued)"
  by (auto simp: try_permit_def tryAcquire_def not_less not_le split: sum.split)

lemma filter_ids: "map pw_id (filter (\<lambda>x. pw_id x \<noteq> w) ws) = filter (\<lambda>x. x \<noteq> w) (map pw_id ws)"
  by (induction ws) auto

lemma settle_ok: "ps_ok s \<Longrightarrow> ps_ok (settle_waiter w s)"
  using length_filter_le [of "\<lambda>x. pw_id x \<noteq> w" "ps_waitQueue s"]
  by (auto simp: ps_ok_def settle_waiter_def simp del: length_filter_le)

lemma requireCapacity_range: "requireCapacity c name = Inr n \<Longrightarrow> 0 \<le> n"
  by (cases c) (auto split: if_splits)

lemma release_ok:
  assumes "ps_ok s"
  shows "permit_release s = (case ps_waitQueue s of
      [] \<Rightarrow> (s\<lparr>ps_waitQueue := [], ps_permits := ps_permits s + 1\<rparr>, None)
    | w # ws \<Rightarrow> (s\<lparr>ps_waitQueue := ws\<rparr>, Some (pw_id w)))"
  using assms by (cases "ps_waitQueue s") (auto simp: ps_ok_def permit_release_def)

interpretation ps: permit_queue ps_ok ps_permits ps_queue ac_id try_permit settle_waiter permit_release
proof
  fix q s
  show "ps_ok s \<Longrightarrow> ps_ok (fst (try_permit q s))"
    using try_permit_cases [of q s] by (auto simp: ps_ok_def)
  show "snd (try_permit q s) = Refused \<Longrightarrow> fst (try_permit q s) = s"
    "snd (try_permit q s) = Granted \<Longrightarrow> 0 < ps_permits s \<and>
      ps_permits (fst (try_permit q s)) = ps_permits s - 1 \<and> ps_queue (fst (try_permit q s)) = ps_queue s"
    "snd (try_permit q s) = Queued \<Longrightarrow> ps_permits s \<le> 0 \<and>
      ps_permits (fst (try_permit q s)) = ps_permits s \<and> ps_queue (fst (try_permit q s)) = ps_queue s @ [ac_id q]"
    using try_permit_cases [of q s] by (auto simp: ps_queue_def)
  show "ps_ok s \<Longrightarrow> ps_ok (fst (permit_release s))"
    by (cases "ps_waitQueue s") (auto simp: release_ok, auto simp: ps_ok_def)
  show "ps_ok s \<Longrightarrow> ps_ok (settle_waiter w s)" for w by (rule settle_ok)
qed (auto simp: ps_queue_def settle_waiter_def filter_ids release_ok split: list.splits)

subsection \<open>Properties\<close>

text \<open>C15: In every interleaving of tasks of a semaphore with a limit, the operations running are as many
  as the permits taken and never more than the limit; a task waits only while the limit is reached; and
  permits are granted in the order of the calls that did not time out.\<close>

theorem semaphore_limits_and_is_fair:
  "0 \<le> n \<Longrightarrow> r = run_permits id waitForPermit acquire_timeout sem_release es (Semaphore n ms) \<Longrightarrow>
   sem_permits (pr_sem r) + int (length (pr_held r)) = n \<and> int (length (pr_held r)) \<le> n \<and>
   (sem_waiting (pr_sem r) \<noteq> [] \<longrightarrow> int (length (pr_held r)) = n) \<and>
   pr_grants r @ sem_waiting (pr_sem r) = filter (\<lambda>w. w \<notin> set (pr_left r)) (pr_calls r)"
  using sem.run_conserves [of "Semaphore n ms" n r es] by (simp add: Semaphore_def)

text \<open>Two permits, four tasks: the third waits, times out, and the fourth gets the permit of the first.\<close>

theorem semaphore_limits_and_is_fair_witness:
  "pr_grants (run_permits id waitForPermit acquire_timeout sem_release
     [PCall 1, PCall 2, PCall 3, PCall 4, PGiveUp 3, PDone 1] (Semaphore 2 (Some 50))) = [1, 2, 4]"
proof -
  let ?r = "run_permits id waitForPermit acquire_timeout sem_release
     [PCall 1, PCall 2, PCall 3, PCall 4, PGiveUp 3, PDone 1] (Semaphore 2 (Some 50))"
  have "pr_grants ?r @ sem_waiting (pr_sem ?r) = filter (\<lambda>w. w \<notin> set (pr_left ?r)) (pr_calls ?r)"
    using semaphore_limits_and_is_fair [of 2 ?r] by simp
  moreover have "sem_waiting (pr_sem ?r) = []" "pr_left ?r = [3]" "pr_calls ?r = [1, 2, 3, 4]" by code_simp+
  ultimately show ?thesis by simp
qed

text \<open>A permit semaphore that was constructed keeps its capacity in every interleaving of balanced
  callers: permits available and permits held add up to it, no permit is free while a caller waits, the
  queue never exceeds its bound, and permits are granted in the order of the calls that were not aborted
  or timed out.\<close>

theorem permit_semaphore_conserves_capacity:
  "PermitSemaphore (Whole n) qsize = Inr s \<Longrightarrow> r = run_permits ac_id try_permit settle_waiter permit_release es s \<Longrightarrow>
   ps_permits (pr_sem r) + int (length (pr_held r)) = n \<and> 0 \<le> ps_permits (pr_sem r) \<and>
   (ps_waitQueue (pr_sem r) \<noteq> [] \<longrightarrow> int (length (pr_held r)) = n) \<and>
   int (length (ps_waitQueue (pr_sem r))) \<le> ps_maxQueueSize (pr_sem r) \<and>
   pr_grants r @ map pw_id (ps_waitQueue (pr_sem r)) = filter (\<lambda>w. w \<notin> set (pr_left r)) (pr_calls r)"
proof -
  assume new: "PermitSemaphore (Whole n) qsize = Inr s"
    and r: "r = run_permits ac_id try_permit settle_waiter permit_release es s"
  have start: "ps_ok s" "ps_queue s = []" "ps_permits s = n" "0 \<le> n"
    using new requireCapacity_range by (auto simp: PermitSemaphore_def ps_ok_def ps_queue_def split: sum.splits if_splits)
  have "ps_ok (pr_sem r)" using ps.run_fair [OF start, of es, folded r] by (simp add: ps.fair_run_def)
  with ps.run_conserves [OF start r] show ?thesis by (simp add: ps_queue_def ps_ok_def)
qed

end
