(* ===== verification/CircuitBreakers.thy ===== *)
theory CircuitBreakers
  imports Prelude
begin

text \<open>
  The circuit breaker, \<open>utils/circuit-breaker.ts\<close>: the state machine CLOSED, OPEN, HALF_OPEN and the
  registry with its eviction of stale breakers.

  \<open>execute\<close> awaits the operation, so other calls run between its two halves: \<open>execute_begin\<close> admits
  or rejects a call and \<open>execute_end\<close> records how the operation ended. An interleaving of calls is a list
  of these events. The readings of \<open>Date.now()\<close> are arguments; log messages are left out.
\<close>

datatype circuit_state = CLOSED | OPEN | HALF_OPEN

record breaker_options =
  bo_failureThreshold :: "int option"
  bo_resetTimeoutMs :: "int option"
  bo_successThreshold :: "int option"

record breaker =
  cb_state :: circuit_state
  cb_failureCount :: int
  cb_successCount :: int
  cb_lastFailureTime :: int
  cb_halfOpenAttempts :: int
  cb_failureThreshold :: int
  cb_resetTimeoutMs :: int
  cb_successThreshold :: int

abbreviation "DEFAULT_FAILURE_THRESHOLD \<equiv> 5 :: int"
abbreviation "DEFAULT_RESET_TIMEOUT_MS \<equiv> 30000 :: int"
abbreviation "DEFAULT_SUCCESS_THRESHOLD \<equiv> 3 :: int"
abbreviation "MAX_HALF_OPEN_ATTEMPTS \<equiv> 3 :: int"

definition or_default :: "'a option \<Rightarrow> 'a \<Rightarrow> 'a" where
  "or_default x d = (case x of None \<Rightarrow> d | Some v \<Rightarrow> v)"

definition CircuitBreaker :: "breaker_options \<Rightarrow> breaker" where
  "CircuitBreaker opts =
     \<lparr>cb_state = CLOSED, cb_failureCount = 0, cb_successCount = 0, cb_lastFailureTime = 0, cb_halfOpenAttempts = 0,
      cb_failureThreshold = or_default (bo_failureThreshold opts) DEFAULT_FAILURE_THRESHOLD,
      cb_resetTimeoutMs = or_default (bo_resetTimeoutMs opts) DEFAULT_RESET_TIMEOUT_MS,
      cb_successThreshold = or_default (bo_successThreshold opts) DEFAULT_SUCCESS_THRESHOLD\<rparr>"

definition transitionTo :: "circuit_state \<Rightarrow> breaker \<Rightarrow> breaker" where
  "transitionTo newState b =
     (let b1 = b\<lparr>cb_state := newState\<rparr>;
          b2 = (if newState = CLOSED then b1\<lparr>cb_successCount := 0, cb_halfOpenAttempts := 0, cb_failureCount := 0\<rparr>
                else b1)
      in if newState = HALF_OPEN then b2\<lparr>cb_successCount := 0, cb_halfOpenAttempts := 0\<rparr> else b2)"

definition recordSuccess :: "breaker \<Rightarrow> breaker" where
  "recordSuccess b =
     (let b1 = b\<lparr>cb_failureCount := 0\<rparr>
      in if cb_state b1 \<noteq> HALF_OPEN then b1
         else (let b2 = b1\<lparr>cb_successCount := cb_successCount b1 + 1\<rparr>
               in if cb_successCount b2 \<ge> cb_successThreshold b2 then transitionTo CLOSED b2 else b2))"

definition recordFailure :: "int \<Rightarrow> breaker \<Rightarrow> breaker" where
  "recordFailure now b =
     (let b1 = b\<lparr>cb_failureCount := cb_failureCount b + 1, cb_lastFailureTime := now\<rparr>
      in if cb_state b1 = HALF_OPEN then transitionTo OPEN b1
         else if cb_failureCount b1 \<ge> cb_failureThreshold b1 then transitionTo OPEN b1 else b1)"

text \<open>The first half of \<open>execute\<close>: \<open>Some ms\<close> is the \<open>CircuitBreakerOpen\<close> it throws, with the time until the
  next attempt; \<open>None\<close> lets the operation run.\<close>

definition execute_begin :: "int \<Rightarrow> breaker \<Rightarrow> breaker \<times> int option" where
  "execute_begin now b =
     (let remaining = cb_resetTimeoutMs b - (now - cb_lastFailureTime b)
      in if cb_state b = OPEN \<and> remaining > 0 then (b, Some remaining)
         else
           (let b1 = (if cb_state b = OPEN then transitionTo HALF_OPEN b else b)
            in if cb_state b1 = HALF_OPEN then
                 (if cb_halfOpenAttempts b1 \<ge> MAX_HALF_OPEN_ATTEMPTS
                  then ((transitionTo OPEN b1)\<lparr>cb_lastFailureTime := now\<rparr>, Some (cb_resetTimeoutMs b1))
                  else (b1\<lparr>cb_halfOpenAttempts := cb_halfOpenAttempts b1 + 1\<rparr>, None))
               else (b1, None)))"

datatype operation_end = OpSucceeds | OpNeutral | OpFails

definition execute_end :: "int \<Rightarrow> operation_end \<Rightarrow> breaker \<Rightarrow> breaker" where
  "execute_end now how b =
     (case how of
        OpSucceeds \<Rightarrow> recordSuccess b
      | OpNeutral \<Rightarrow>
          (if cb_state b = HALF_OPEN \<and> cb_halfOpenAttempts b > 0
           then b\<lparr>cb_halfOpenAttempts := cb_halfOpenAttempts b - 1\<rparr> else b)
      | OpFails \<Rightarrow> recordFailure now b)"

definition getLastActivityTime :: "int \<Rightarrow> breaker \<Rightarrow> int" where
  "getLastActivityTime now b = (if cb_lastFailureTime b \<noteq> 0 then cb_lastFailureTime b else now)"

definition touch :: "int \<Rightarrow> breaker \<Rightarrow> breaker" where
  "touch now b = (if cb_state b \<noteq> CLOSED \<or> cb_failureCount b \<noteq> 0 then b else b\<lparr>cb_lastFailureTime := now\<rparr>)"

subsection \<open>The registry\<close>

record breaker_entry =
  be_breaker :: breaker
  be_lastUsed :: int

type_synonym breakers = "(string \<times> breaker_entry) list"

abbreviation "MAX_BREAKERS \<equiv> 1000 :: nat"
abbreviation "MIN_EVICTION_AGE_MS \<equiv> 3600000 :: int"

fun evict_loop :: "int \<Rightarrow> nat \<Rightarrow> nat \<Rightarrow> (string \<times> breaker_entry) list \<Rightarrow> breakers \<Rightarrow> breakers" where
  "evict_loop now toEvict evicted [] m = m"
| "evict_loop now toEvict evicted ((name, e) # entries) m =
     (if evicted \<ge> toEvict then m
      else if now - be_lastUsed e < MIN_EVICTION_AGE_MS then evict_loop now toEvict evicted entries m
      else if cb_state (be_breaker e) \<noteq> CLOSED then evict_loop now toEvict evicted entries m
      else evict_loop now toEvict (evicted + 1) entries (jm_del name m))"

definition evictStaleBreakers :: "int \<Rightarrow> breakers \<Rightarrow> breakers" where
  "evictStaleBreakers now m =
     (if length m \<le> MAX_BREAKERS then m
      else evict_loop now (length m - MAX_BREAKERS) 0 (sort_key (\<lambda>(name, e). be_lastUsed e) m) m)"

definition getCircuitBreaker :: "int \<Rightarrow> string \<Rightarrow> breaker_options \<Rightarrow> breakers \<Rightarrow> breakers \<times> breaker" where
  "getCircuitBreaker now name opts m =
     (case jm_get m name of
        Some e \<Rightarrow> (jm_set name (e\<lparr>be_lastUsed := now\<rparr>) m, be_breaker e)
      | None \<Rightarrow>
          (let m1 = evictStaleBreakers now m; b = CircuitBreaker opts
           in (jm_set name \<lparr>be_breaker = b, be_lastUsed = now\<rparr> m1, b)))"

subsection \<open>Interleavings of calls\<close>

datatype breaker_event = Begin int | End int operation_end | Touch int

fun breaker_step :: "breaker_event \<Rightarrow> breaker \<Rightarrow> breaker" where
  "breaker_step (Begin now) b = fst (execute_begin now b)"
| "breaker_step (End now how) b = execute_end now how b"
| "breaker_step (Touch now) b = touch now b"

fun event_time :: "breaker_event \<Rightarrow> int" where
  "event_time (Begin now) = now"
| "event_time (End now _) = now"
| "event_time (Touch now) = now"

text \<open>The calls of an interleaving that were admitted, by their place in it.\<close>

fun admitted :: "breaker_event list \<Rightarrow> breaker \<Rightarrow> bool list" where
  "admitted [] b = []"
| "admitted (Begin now # es) b = (snd (execute_begin now b) = None) # admitted es (breaker_step (Begin now) b)"
| "admitted (e # es) b = admitted es (breaker_step e b)"

definition breaker_ok :: "breaker \<Rightarrow> bool" where
  "breaker_ok b \<longleftrightarrow>
     (cb_state b = CLOSED \<longrightarrow> cb_failureCount b < cb_failureThreshold b \<and> cb_successCount b = 0) \<and>
     (cb_state b = HALF_OPEN \<longrightarrow> cb_successCount b < cb_successThreshold b \<and>
        cb_halfOpenAttempts b \<le> MAX_HALF_OPEN_ATTEMPTS)"

lemmas breaker_defs = execute_begin_def execute_end_def recordSuccess_def recordFailure_def transitionTo_def
  touch_def Let_def

lemma step_fixed:
  "cb_failureThreshold (breaker_step e b) = cb_failureThreshold b"
  "cb_resetTimeoutMs (breaker_step e b) = cb_resetTimeoutMs b"
  "cb_successThreshold (breaker_step e b) = cb_successThreshold b"
  by (cases e; auto simp: breaker_defs split: operation_end.split)+

lemma step_ok:
  assumes "breaker_ok b" "1 \<le> cb_failureThreshold b" "1 \<le> cb_successThreshold b"
  shows "breaker_ok (breaker_step e b)"
  using assms by (cases e) (auto simp: breaker_ok_def breaker_defs split: operation_end.split if_splits)

lemma run_fixed:
  "cb_failureThreshold (fold breaker_step es b) = cb_failureThreshold b"
  "cb_successThreshold (fold breaker_step es b) = cb_successThreshold b"
  by (induction es arbitrary: b) (simp_all add: step_fixed)

lemma run_ok:
  assumes "breaker_ok b" "1 \<le> cb_failureThreshold b" "1 \<le> cb_successThreshold b"
  shows "breaker_ok (fold breaker_step es b)"
  using assms
proof (induction es arbitrary: b)
  case (Cons e es)
  from Cons.IH [OF step_ok [OF Cons.prems]] Cons.prems show ?case by (simp add: step_fixed)
qed simp

lemma open_step:
  assumes "cb_state b = OPEN" "event_time e < l + cb_resetTimeoutMs b" "l \<le> cb_lastFailureTime b" "l \<le> event_time e"
  shows "cb_state (breaker_step e b) = OPEN \<and> l \<le> cb_lastFailureTime (breaker_step e b) \<and>
    (\<forall>now. e = Begin now \<longrightarrow> snd (execute_begin now b) \<noteq> None)"
  using assms by (cases e) (auto simp: breaker_defs split: operation_end.split)

lemma open_run:
  assumes "cb_state b = OPEN" "l \<le> cb_lastFailureTime b"
    and "\<forall>e \<in> set es. l \<le> event_time e \<and> event_time e < l + cb_resetTimeoutMs b"
  shows "True \<notin> set (admitted es b) \<and> cb_state (fold breaker_step es b) = OPEN"
  using assms
proof (induction es arbitrary: b)
  case (Cons e es)
  have st: "cb_state (breaker_step e b) = OPEN \<and> l \<le> cb_lastFailureTime (breaker_step e b) \<and>
      (\<forall>now. e = Begin now \<longrightarrow> snd (execute_begin now b) \<noteq> None)"
    using Cons.prems by (intro open_step) auto
  have "\<forall>x \<in> set es. l \<le> event_time x \<and> event_time x < l + cb_resetTimeoutMs (breaker_step e b)"
    using Cons.prems(3) by (simp add: step_fixed)
  from Cons.IH [OF _ _ this] st show ?case by (cases e) auto
qed simp

text \<open>C16: An open breaker fails fast. Whatever calls begin, end or touch the breaker, in any order, from
  its last failure until the reset timeout has passed, no operation is admitted and the breaker stays
  open.\<close>

theorem open_breaker_fails_fast:
  "cb_state b = OPEN \<Longrightarrow>
   \<forall>e \<in> set es. cb_lastFailureTime b \<le> event_time e \<and> event_time e < cb_lastFailureTime b + cb_resetTimeoutMs b \<Longrightarrow>
   True \<notin> set (admitted es b) \<and> cb_state (fold breaker_step es b) = OPEN"
  by (rule open_run) auto

text \<open>A breaker that opened at time 1000, with the default options.\<close>

definition tripped :: breaker where
  "tripped = (CircuitBreaker \<lparr>bo_failureThreshold = None, bo_resetTimeoutMs = None, bo_successThreshold = None\<rparr>)
     \<lparr>cb_state := OPEN, cb_failureCount := 5, cb_lastFailureTime := 1000\<rparr>"

theorem open_breaker_fails_fast_witness:
  "True \<notin> set (admitted [Begin 1001, End 1002 OpFails, Begin 30999] tripped) \<and>
   cb_state (fold breaker_step [Begin 1001, End 1002 OpFails, Begin 30999] tripped) = OPEN"
  by (rule open_breaker_fails_fast) (simp_all add: tripped_def CircuitBreaker_def or_default_def)

subsection \<open>Calls one after another\<close>

definition call_breaker :: "int \<times> operation_end \<Rightarrow> breaker \<Rightarrow> breaker" where
  "call_breaker c b =
     (case execute_begin (fst c) b of
        (b1, Some _) \<Rightarrow> b1
      | (b1, None) \<Rightarrow> execute_end (fst c) (snd c) b1)"

lemma failing_calls:
  assumes "cb_state b = CLOSED" "0 \<le> cb_failureCount b" "cb_failureCount b + int (length ts) < cb_failureThreshold b"
  shows "cb_state (fold call_breaker (map (\<lambda>t. (t, OpFails)) ts) b) = CLOSED \<and>
    cb_failureCount (fold call_breaker (map (\<lambda>t. (t, OpFails)) ts) b) = cb_failureCount b + int (length ts) \<and>
    cb_failureThreshold (fold call_breaker (map (\<lambda>t. (t, OpFails)) ts) b) = cb_failureThreshold b"
  using assms
proof (induction ts arbitrary: b)
  case (Cons t ts)
  have "cb_state (call_breaker (t, OpFails) b) = CLOSED \<and>
      cb_failureCount (call_breaker (t, OpFails) b) = cb_failureCount b + 1 \<and>
      cb_failureThreshold (call_breaker (t, OpFails) b) = cb_failureThreshold b"
    using Cons.prems by (simp add: call_breaker_def breaker_defs)
  with Cons.IH [of "call_breaker (t, OpFails) b"] Cons.prems show ?case by simp
qed simp

text \<open>The calls of a half-open phase: attempts and successes count together.\<close>

lemma succeeding_calls:
  assumes "cb_state b = HALF_OPEN" "cb_successCount b + int (length ts) < cb_successThreshold b"
    and "cb_halfOpenAttempts b + int (length ts) \<le> MAX_HALF_OPEN_ATTEMPTS"
  shows "fold call_breaker (map (\<lambda>t. (t, OpSucceeds)) ts) b =
    b\<lparr>cb_failureCount := (if ts = [] then cb_failureCount b else 0),
      cb_successCount := cb_successCount b + int (length ts),
      cb_halfOpenAttempts := cb_halfOpenAttempts b + int (length ts)\<rparr>"
  using assms
proof (induction ts arbitrary: b)
  case (Cons t ts)
  have c: "call_breaker (t, OpSucceeds) b = b\<lparr>cb_failureCount := 0, cb_successCount := cb_successCount b + 1,
      cb_halfOpenAttempts := cb_halfOpenAttempts b + 1\<rparr>"
    using Cons.prems by (simp add: call_breaker_def breaker_defs)
  show ?case using Cons.prems Cons.IH [of "call_breaker (t, OpSucceeds) b"] by (simp add: c)
qed simp

lemma trips:
  assumes "1 \<le> cb_failureThreshold b" "cb_state b = CLOSED" "cb_failureCount b = 0"
    and "int (length ts) \<le> cb_failureThreshold b"
  shows "cb_state (fold call_breaker (map (\<lambda>t. (t, OpFails)) ts) b) =
        (if int (length ts) < cb_failureThreshold b then CLOSED else OPEN) \<and>
      cb_failureCount (fold call_breaker (map (\<lambda>t. (t, OpFails)) ts) b) = int (length ts)"
proof (cases "int (length ts) < cb_failureThreshold b")
  case True
  then show ?thesis using failing_calls [of b ts] assms by simp
next
  case False
  then obtain us u where ts: "ts = us @ [u]" using assms by (cases ts rule: rev_cases) auto
  then have "int (length us) < cb_failureThreshold b" "int (length us) + 1 = cb_failureThreshold b"
    using False assms by auto
  then show ?thesis using failing_calls [of b us] assms ts by (simp add: call_breaker_def breaker_defs)
qed

lemma recovers:
  assumes "1 \<le> cb_successThreshold b" "cb_state b = OPEN" "cb_lastFailureTime b + cb_resetTimeoutMs b \<le> t"
    and "cb_successThreshold b \<le> MAX_HALF_OPEN_ATTEMPTS" "int (length (t # ts)) = cb_successThreshold b"
  shows "cb_state (fold call_breaker (map (\<lambda>t. (t, OpSucceeds)) (t # ts)) b) = CLOSED"
proof (cases ts rule: rev_cases)
  case Nil
  then show ?thesis using assms by (simp add: call_breaker_def breaker_defs)
next
  case (snoc us u)
  let ?b = "call_breaker (t, OpSucceeds) b"
  have k: "cb_successThreshold b = int (length us) + 2" using assms(5) snoc by simp
  have b: "?b = b\<lparr>cb_state := HALF_OPEN, cb_failureCount := 0, cb_successCount := 1, cb_halfOpenAttempts := 1\<rparr>"
    using assms k by (simp add: call_breaker_def breaker_defs)
  have "fold call_breaker (map (\<lambda>t. (t, OpSucceeds)) us) ?b =
      b\<lparr>cb_state := HALF_OPEN, cb_failureCount := 0, cb_successCount := 1 + int (length us),
        cb_halfOpenAttempts := 1 + int (length us)\<rparr>"
    using succeeding_calls [of ?b us] assms(4) k by (simp add: b)
  then show ?thesis using assms(4) k by (simp add: snoc call_breaker_def breaker_defs)
qed

text \<open>With a success threshold above the attempts of a half-open phase, successes never reach it.\<close>

definition short_of_success :: "breaker \<Rightarrow> bool" where
  "short_of_success b \<longleftrightarrow> cb_state b = OPEN \<or>
     cb_state b = HALF_OPEN \<and> cb_successCount b \<le> cb_halfOpenAttempts b \<and>
     0 \<le> cb_halfOpenAttempts b \<and> cb_halfOpenAttempts b \<le> MAX_HALF_OPEN_ATTEMPTS"

lemma short_call:
  assumes "short_of_success b" "MAX_HALF_OPEN_ATTEMPTS < cb_successThreshold b"
  shows "short_of_success (call_breaker c b) \<and> cb_successThreshold (call_breaker c b) = cb_successThreshold b"
  using assms by (cases "snd c") (auto simp: short_of_success_def call_breaker_def breaker_defs)

lemma short_calls:
  assumes "short_of_success b" "MAX_HALF_OPEN_ATTEMPTS < cb_successThreshold b"
  shows "short_of_success (fold call_breaker cs b)"
  using assms
proof (induction cs arbitrary: b)
  case (Cons c cs)
  from short_call [OF Cons.prems, of c] Cons.prems(2) Cons.IH [of "call_breaker c b"] show ?case by simp
qed simp

text \<open>A closed breaker opens exactly at its failure threshold: after fewer consecutive failing calls
  it is closed and has counted them, at the threshold it is open. A breaker whose reset timeout has passed
  closes after as many succeeding calls as its success threshold, when that is at most the three attempts
  of a half-open phase.\<close>

theorem breaker_trips_and_recovers:
  "1 \<le> cb_failureThreshold b \<Longrightarrow> 1 \<le> cb_successThreshold b \<Longrightarrow>
   (cb_state b = CLOSED \<and> cb_failureCount b = 0 \<and> int (length ts) \<le> cb_failureThreshold b \<longrightarrow>
      cb_state (fold call_breaker (map (\<lambda>t. (t, OpFails)) ts) b) =
        (if int (length ts) < cb_failureThreshold b then CLOSED else OPEN) \<and>
      cb_failureCount (fold call_breaker (map (\<lambda>t. (t, OpFails)) ts) b) = int (length ts)) \<and>
   (cb_state b = OPEN \<and> cb_lastFailureTime b + cb_resetTimeoutMs b \<le> t \<and>
      cb_successThreshold b \<le> MAX_HALF_OPEN_ATTEMPTS \<and> int (length (t # ts)) = cb_successThreshold b \<longrightarrow>
      cb_state (fold call_breaker (map (\<lambda>t. (t, OpSucceeds)) (t # ts)) b) = CLOSED)"
  using trips [of b ts] recovers [of b t ts] by blast

text \<open>C17: With a success threshold above three, calls made one after another never close an open breaker again, whatever
  they return: the attempts of a half-open phase are counted in total, not those in flight, so the fourth call reopens
  the breaker before the threshold is reached. Calls that overlap can close it: a straggler that began before the breaker
  opened gives a place back when it ends with a neutral error.\<close>

theorem sequential_calls_never_close_high_threshold:
  "cb_state b = OPEN \<Longrightarrow> 3 < cb_successThreshold b \<Longrightarrow> cb_state (fold call_breaker cs b) \<noteq> CLOSED"
  using short_calls [of b cs] by (auto simp: short_of_success_def)

theorem sequential_calls_never_close_high_threshold_witness:
  "cb_state (fold call_breaker (map (\<lambda>t. (t, OpSucceeds)) [31000, 31001, 31002, 31003, 70000])
     (tripped\<lparr>cb_successThreshold := 4\<rparr>)) \<noteq> CLOSED"
  by (rule sequential_calls_never_close_high_threshold) (simp_all add: tripped_def)

text \<open>The straggler in an interleaving: three attempts succeed, it ends, and a fourth attempt is let through.\<close>

definition straggling :: "breaker_event list" where
  "straggling = [Begin 31000, End 31001 OpSucceeds, Begin 31002, End 31003 OpSucceeds, Begin 31004, End 31005 OpSucceeds,
     End 31006 OpNeutral, Begin 31007, End 31008 OpSucceeds]"

lemma overlapping_calls_close_high_threshold:
  "cb_state (fold breaker_step straggling (tripped\<lparr>cb_successThreshold := 4\<rparr>)) = CLOSED"
  by (simp add: straggling_def tripped_def CircuitBreaker_def or_default_def breaker_defs)

text \<open>In every interleaving of calls from a new breaker with positive thresholds, a closed breaker
  has fewer consecutive failures than its threshold, and a half-open one has fewer successes than its
  threshold and at most three attempts.\<close>

lemma breaker_counts_stay_below:
  "b = fold breaker_step es (CircuitBreaker opts) \<Longrightarrow>
   1 \<le> cb_failureThreshold (CircuitBreaker opts) \<Longrightarrow> 1 \<le> cb_successThreshold (CircuitBreaker opts) \<Longrightarrow>
   (cb_state b = CLOSED \<longrightarrow> cb_failureCount b < cb_failureThreshold (CircuitBreaker opts)) \<and>
   (cb_state b = HALF_OPEN \<longrightarrow> cb_successCount b < cb_successThreshold (CircuitBreaker opts) \<and>
      cb_halfOpenAttempts b \<le> MAX_HALF_OPEN_ATTEMPTS)"
proof -
  assume b: "b = fold breaker_step es (CircuitBreaker opts)"
    and t: "1 \<le> cb_failureThreshold (CircuitBreaker opts)" "1 \<le> cb_successThreshold (CircuitBreaker opts)"
  have "breaker_ok (CircuitBreaker opts)" using t by (simp add: breaker_ok_def CircuitBreaker_def)
  from run_ok [OF this t, of es] run_fixed [of es "CircuitBreaker opts"] show ?thesis
    unfolding b breaker_ok_def by simp
qed

end
