(* ===== verification/LruList.thy ===== *)
theory LruList
  imports Prelude
begin

text \<open>
  The doubly linked recency list of the memory cache, \<open>utils/cache/stores/memory/lru-list-manager.ts\<close>
  and \<open>lru-node.ts\<close>. Nodes are objects shared between the list and the cache's map, and the code updates
  their \<open>prev\<close> and \<open>next\<close> fields in place, so the model has a heap of nodes addressed by numbers. The
  predicate \<open>is_list\<close> says which addresses the list holds, in order; the lemmas show that each operation
  is the expected one on that sequence and leaves the contents of all nodes alone.
\<close>

record 'v lru_entry =
  le_value :: 'v
  le_size :: int
  le_expiry :: "int option"
  le_tags :: "string list option"
  le_lastAccessed :: int

record 'v lru_node =
  ln_key :: string
  ln_entry :: "'v lru_entry"
  ln_prev :: "nat option"
  ln_next :: "nat option"

type_synonym 'v node_heap = "nat \<Rightarrow> 'v lru_node"

record 'v lru_list =
  ll_heap :: "'v node_heap"
  ll_head :: "nat option"
  ll_tail :: "nat option"

definition upd_node :: "nat \<Rightarrow> ('v lru_node \<Rightarrow> 'v lru_node) \<Rightarrow> 'v lru_list \<Rightarrow> 'v lru_list" where
  "upd_node a f l = l\<lparr>ll_heap := (ll_heap l)(a := f (ll_heap l a))\<rparr>"

definition touch_node :: "int \<Rightarrow> nat \<Rightarrow> 'v lru_list \<Rightarrow> 'v lru_list" where
  "touch_node now a l = upd_node a (\<lambda>n. n\<lparr>ln_entry := (ln_entry n)\<lparr>le_lastAccessed := now\<rparr>\<rparr>) l"

definition removeNode :: "nat \<Rightarrow> 'v lru_list \<Rightarrow> 'v lru_list" where
  "removeNode a l =
     (let l1 = (case ln_prev (ll_heap l a) of
                  Some p \<Rightarrow> upd_node p (\<lambda>n. n\<lparr>ln_next := ln_next (ll_heap l a)\<rparr>) l
                | None \<Rightarrow> if ll_head l = Some a then l\<lparr>ll_head := ln_next (ll_heap l a)\<rparr> else l)
      in case ln_next (ll_heap l1 a) of
           Some q \<Rightarrow> upd_node q (\<lambda>n. n\<lparr>ln_prev := ln_prev (ll_heap l1 a)\<rparr>) l1
         | None \<Rightarrow> if ll_tail l1 = Some a then l1\<lparr>ll_tail := ln_prev (ll_heap l1 a)\<rparr> else l1)"

definition addToFront :: "int \<Rightarrow> nat \<Rightarrow> 'v lru_list \<Rightarrow> 'v lru_list" where
  "addToFront now a l =
     (let l1 = upd_node a (\<lambda>n. n\<lparr>ln_next := ll_head l, ln_prev := None\<rparr>) l;
          l2 = (case ll_head l1 of
                  Some h \<Rightarrow> upd_node h (\<lambda>n. n\<lparr>ln_prev := Some a\<rparr>) l1
                | None \<Rightarrow> l1\<lparr>ll_tail := Some a\<rparr>)
      in touch_node now a (l2\<lparr>ll_head := Some a\<rparr>))"

definition moveToFront :: "int \<Rightarrow> nat \<Rightarrow> 'v lru_list \<Rightarrow> 'v lru_list" where
  "moveToFront now a l =
     (if ll_head l = Some a then touch_node now a l else addToFront now a (removeNode a l))"

definition clear_list :: "'v lru_list \<Rightarrow> 'v lru_list" where
  "clear_list l = l\<lparr>ll_head := None, ll_tail := None\<rparr>"

subsection \<open>The addresses a list holds\<close>

definition first_of :: "'a list \<Rightarrow> 'a option \<Rightarrow> 'a option" where
  "first_of xs d = (case xs of [] \<Rightarrow> d | x # _ \<Rightarrow> Some x)"

definition last_of :: "'a list \<Rightarrow> 'a option \<Rightarrow> 'a option" where
  "last_of xs d = (if xs = [] then d else Some (last xs))"

lemma first_of_simps [simp]: "first_of [] d = d" "first_of (x # xs) d = Some x"
  "first_of (xs @ ys) d = first_of xs (first_of ys d)"
  by (simp_all add: first_of_def split: list.split)

lemma last_of_simps [simp]: "last_of [] d = d" "last_of (x # xs) d = last_of xs (Some x)" "last_of (xs @ [x]) d = Some x"
  "last_of (xs @ ys) d = last_of ys (last_of xs d)"
  by (simp_all add: last_of_def)

text \<open>\<open>chain H p xs q\<close>: the nodes \<open>xs\<close> are linked in order, with \<open>p\<close> before the first and \<open>q\<close> after
  the last.\<close>

fun chain :: "'v node_heap \<Rightarrow> nat option \<Rightarrow> nat list \<Rightarrow> nat option \<Rightarrow> bool" where
  "chain H p [] q \<longleftrightarrow> True"
| "chain H p (a # as) q \<longleftrightarrow> ln_prev (H a) = p \<and> ln_next (H a) = first_of as q \<and> chain H (Some a) as q"

lemma chain_append: "chain H p (xs @ ys) q \<longleftrightarrow> chain H p xs (first_of ys q) \<and> chain H (last_of xs p) ys q"
  by (induction xs arbitrary: p) auto

lemma chain_cong:
  assumes "\<And>x. x \<in> set xs \<Longrightarrow> ln_prev (H' x) = ln_prev (H x) \<and> ln_next (H' x) = ln_next (H x)"
  shows "chain H' p xs q = chain H p xs q"
  using assms by (induction xs arbitrary: p) auto

lemma chain_set_next:
  assumes "chain H p (us @ [a]) q" "a \<notin> set us" "ln_prev n = ln_prev (H a)" "ln_next n = r"
  shows "chain (H(a := n)) p (us @ [a]) r"
proof -
  have "chain (H(a := n)) p us (Some a) = chain H p us (Some a)" by (rule chain_cong) (use assms(2) in auto)
  then show ?thesis using assms by (simp add: chain_append)
qed

lemma chain_set_prev:
  assumes "chain H p (a # vs) q" "a \<notin> set vs" "ln_next n = ln_next (H a)" "ln_prev n = r"
  shows "chain (H(a := n)) r (a # vs) q"
proof -
  have "chain (H(a := n)) (Some a) vs q = chain H (Some a) vs q" by (rule chain_cong) (use assms(2) in auto)
  then show ?thesis using assms by simp
qed

definition is_list :: "'v lru_list \<Rightarrow> nat list \<Rightarrow> bool" where
  "is_list l xs \<longleftrightarrow> distinct xs \<and> chain (ll_heap l) None xs None \<and>
     ll_head l = first_of xs None \<and> ll_tail l = last_of xs None"

text \<open>What a node holds, without its links and the access time, which nothing reads.\<close>

definition node_data :: "'v lru_list \<Rightarrow> nat \<Rightarrow> string \<times> 'v lru_entry" where
  "node_data l a = (ln_key (ll_heap l a), (ln_entry (ll_heap l a))\<lparr>le_lastAccessed := 0\<rparr>)"

lemma upd_node_simps [simp]:
  "ll_heap (upd_node a f l) = (ll_heap l)(a := f (ll_heap l a))" "ll_head (upd_node a f l) = ll_head l"
  "ll_tail (upd_node a f l) = ll_tail l"
  by (simp_all add: upd_node_def)

lemma touch_node_list [simp]: "is_list (touch_node now a l) xs = is_list l xs"
proof -
  have "chain (ll_heap (touch_node now a l)) None xs None = chain (ll_heap l) None xs None"
    by (rule chain_cong) (simp add: touch_node_def)
  then show ?thesis by (simp add: is_list_def touch_node_def)
qed

lemma touch_node_data [simp]: "node_data (touch_node now a l) x = node_data l x"
  by (simp add: node_data_def touch_node_def)

lemma removeNode_data [simp]: "node_data (removeNode a l) x = node_data l x"
  by (simp add: node_data_def removeNode_def Let_def split: option.split)

lemma addToFront_data [simp]: "node_data (addToFront now a l) x = node_data l x"
  by (simp add: node_data_def addToFront_def touch_node_def Let_def split: option.split)

lemma moveToFront_data [simp]: "node_data (moveToFront now a l) x = node_data l x"
  by (simp add: moveToFront_def)

subsection \<open>The operations on the sequence\<close>

definition link_next :: "nat option \<Rightarrow> nat option \<Rightarrow> 'v node_heap \<Rightarrow> 'v node_heap" where
  "link_next p q H = (case p of None \<Rightarrow> H | Some a \<Rightarrow> H(a := (H a)\<lparr>ln_next := q\<rparr>))"

definition link_prev :: "nat option \<Rightarrow> nat option \<Rightarrow> 'v node_heap \<Rightarrow> 'v node_heap" where
  "link_prev q p H = (case q of None \<Rightarrow> H | Some a \<Rightarrow> H(a := (H a)\<lparr>ln_prev := p\<rparr>))"

lemma chain_unlink:
  assumes d: "distinct (us @ a # vs)" and c: "chain H None (us @ a # vs) None"
  shows "chain (link_prev (first_of vs None) (last_of us None) (link_next (last_of us None) (first_of vs None) H))
    None (us @ vs) None"
proof -
  let ?H1 = "link_next (last_of us None) (first_of vs None) H"
  let ?H2 = "link_prev (first_of vs None) (last_of us None) ?H1"
  have cu: "chain H None us (Some a)" and cv: "chain H (Some a) vs None" using c by (auto simp: chain_append)
  have u1: "chain ?H1 None us (first_of vs None)"
  proof (cases us rule: rev_cases)
    case (snoc us' p)
    then show ?thesis using cu d unfolding link_next_def
      by (auto intro!: chain_set_next [of H None us' p "Some a"])
  qed (simp add: link_next_def)
  have v1: "chain ?H1 (Some a) vs None"
  proof -
    have "chain ?H1 (Some a) vs None = chain H (Some a) vs None"
    proof (rule chain_cong)
      fix x assume "x \<in> set vs"
      then have "x \<notin> set us" using d by auto
      then have "last_of us None \<noteq> Some x" by (auto simp: last_of_def split: if_splits)
      then show "ln_prev (?H1 x) = ln_prev (H x) \<and> ln_next (?H1 x) = ln_next (H x)"
        by (auto simp: link_next_def split: option.split)
    qed
    then show ?thesis using cv by simp
  qed
  have u2: "chain ?H2 None us (first_of vs None)"
  proof -
    have "chain ?H2 None us (first_of vs None) = chain ?H1 None us (first_of vs None)"
      by (rule chain_cong) (use d in \<open>auto simp: link_prev_def first_of_def split: list.splits\<close>)
    then show ?thesis using u1 by simp
  qed
  have "chain ?H2 (last_of us None) vs None"
  proof (cases vs)
    case (Cons q vs')
    have "chain ?H1 (Some a) (q # vs') None" "q \<notin> set vs'" using v1 d Cons by auto
    then have "chain (?H1(q := (?H1 q)\<lparr>ln_prev := last_of us None\<rparr>)) (last_of us None) (q # vs') None"
      by (rule chain_set_prev) simp_all
    then show ?thesis using Cons by (simp add: link_prev_def)
  qed simp
  then show ?thesis using u2 by (simp add: chain_append)
qed

lemma removeNode_split:
  assumes l: "is_list l (us @ a # vs)"
  shows "is_list (removeNode a l) (us @ vs)"
proof -
  let ?H = "ll_heap l" and ?p = "last_of us None" and ?q = "first_of vs None"
  have d: "distinct (us @ a # vs)" and c: "chain ?H None (us @ a # vs) None"
    and ht: "ll_head l = first_of (us @ a # vs) None" "ll_tail l = last_of (us @ a # vs) None"
    using l unfolding is_list_def by blast+
  have pn: "ln_prev (?H a) = ?p" "ln_next (?H a) = ?q" using c by (simp_all add: chain_append)
  have pa: "?p \<noteq> Some a" using d by (auto simp: last_of_def)
  have heap: "ll_heap (removeNode a l) = link_prev ?q ?p (link_next ?p ?q ?H)"
    using pa by (auto simp: removeNode_def pn link_prev_def link_next_def Let_def split: option.split)
  have "ll_head (removeNode a l) = first_of (us @ vs) None"
    using pa ht pn d by (cases us) (auto simp: removeNode_def Let_def split: option.split)
  moreover have "ll_tail (removeNode a l) = last_of (us @ vs) None"
    using pa ht pn d by (cases vs rule: rev_cases) (auto simp: removeNode_def Let_def split: option.split)
  ultimately show ?thesis using chain_unlink [OF d c] d unfolding is_list_def heap by simp
qed

lemma filter_absent: "a \<notin> set xs \<Longrightarrow> filter (\<lambda>x. x \<noteq> a) xs = xs"
  by (induction xs) auto

lemma removeNode_list:
  assumes "is_list l xs" "a \<in> set xs"
  shows "is_list (removeNode a l) (filter (\<lambda>x. x \<noteq> a) xs)"
proof -
  obtain us vs where xs: "xs = us @ a # vs" using assms(2) by (meson split_list)
  then have "a \<notin> set us" "a \<notin> set vs" using assms(1) by (auto simp: is_list_def)
  then have "filter (\<lambda>x. x \<noteq> a) xs = us @ vs" unfolding xs by (simp add: filter_absent)
  then show ?thesis using removeNode_split [of l us a vs] assms(1) by (simp add: xs)
qed

lemma addToFront_list:
  assumes l: "is_list l xs" and a: "a \<notin> set xs"
  shows "is_list (addToFront now a l) (a # xs)"
proof -
  let ?H1 = "(ll_heap l)(a := (ll_heap l a)\<lparr>ln_next := ll_head l, ln_prev := None\<rparr>)"
  have "chain ?H1 None xs None = chain (ll_heap l) None xs None" by (rule chain_cong) (use a in auto)
  then have c1: "chain ?H1 None xs None" using l by (simp add: is_list_def)
  show ?thesis
  proof (cases xs)
    case Nil
    then show ?thesis using l unfolding addToFront_def Let_def touch_node_list by (simp add: is_list_def)
  next
    case (Cons h ys)
    let ?H2 = "?H1(h := (?H1 h)\<lparr>ln_prev := Some a\<rparr>)"
    have "chain ?H2 (Some a) (h # ys) None"
      by (rule chain_set_prev [of ?H1 None]) (use c1 l Cons in \<open>auto simp: is_list_def\<close>)
    then show ?thesis using l a Cons unfolding addToFront_def Let_def touch_node_list by (auto simp: is_list_def)
  qed
qed

lemma moveToFront_list:
  assumes "is_list l xs" "a \<in> set xs"
  shows "is_list (moveToFront now a l) (a # filter (\<lambda>x. x \<noteq> a) xs)"
proof (cases "ll_head l = Some a")
  case True
  then obtain ys where xs: "xs = a # ys" using assms by (cases xs) (auto simp: is_list_def)
  then have "filter (\<lambda>x. x \<noteq> a) xs = ys" using assms(1) by (simp add: is_list_def filter_absent)
  then show ?thesis using assms(1) xs True by (simp add: moveToFront_def)
next
  case False
  then show ?thesis using addToFront_list [OF removeNode_list [OF assms], of a now] by (simp add: moveToFront_def)
qed

lemma clear_list_list: "is_list (clear_list l) []"
  by (simp add: is_list_def clear_list_def)

end
