(* ===== verification/LruCache.thy ===== *)
theory LruCache
  imports LruList
begin

text \<open>
  The memory cache, \<open>LRUCacheAdapter\<close> of \<open>utils/cache/stores/memory/lru-cache-adapter.ts\<close> with its
  \<open>EntryManager\<close> (\<open>entry-manager.ts\<close>) and the list eviction of \<open>EvictionManager\<close>
  (\<open>utils/cache/eviction/eviction-manager.ts\<close>).

  The estimator of sizes is the argument \<open>est\<close>, the option \<open>estimateSizeOf\<close> of the code; its default is not
  modelled. An operation reads the clock once, \<open>now\<close>. \<open>lc_evicted\<close> records the calls of the \<open>onEvict\<close>
  observer, whose exceptions the code catches.
\<close>

record 'v lru_cache =
  lc_list :: "'v lru_list"
  lc_fresh :: nat
  lc_store :: "(string \<times> nat) list"
  lc_tagIndex :: "(string \<times> string list) list"
  lc_currentSize :: int
  lc_maxEntries :: int
  lc_maxSizeBytes :: int
  lc_defaultTtlMs :: "int option"
  lc_evicted :: "(string \<times> 'v) list"

definition or_falsy :: "int option \<Rightarrow> int \<Rightarrow> int" where
  "or_falsy x d = (case x of None \<Rightarrow> d | Some n \<Rightarrow> if n = 0 then d else n)"

definition LRUCacheAdapter :: "int option \<Rightarrow> int option \<Rightarrow> int option \<Rightarrow> 'v lru_cache" where
  "LRUCacheAdapter maxEntries maxSizeBytes ttlMs =
     \<lparr>lc_list = \<lparr>ll_heap = (\<lambda>a. undefined), ll_head = None, ll_tail = None\<rparr>, lc_fresh = 0,
      lc_store = [], lc_tagIndex = [], lc_currentSize = 0,
      lc_maxEntries = or_falsy maxEntries 1000, lc_maxSizeBytes = or_falsy maxSizeBytes (50 * 1024 * 1024),
      lc_defaultTtlMs = ttlMs, lc_evicted = []\<rparr>"

subsection \<open>Entries and tags\<close>

definition calculateExpiry :: "int \<Rightarrow> int option \<Rightarrow> int option \<Rightarrow> int option" where
  "calculateExpiry now ttlMs defaultTtlMs =
     (case ttlMs of
        Some t \<Rightarrow> Some (now + t)
      | None \<Rightarrow> (case defaultTtlMs of Some t \<Rightarrow> Some (now + t) | None \<Rightarrow> None))"

text \<open>An entry of this cache has an expiry and no timestamp.\<close>

definition isExpired :: "'v lru_entry \<Rightarrow> int \<Rightarrow> bool" where
  "isExpired e now = (case le_expiry e of Some x \<Rightarrow> now \<ge> x | None \<Rightarrow> False)"

definition cleanup_tag :: "string \<Rightarrow> string \<Rightarrow> (string \<times> string list) list \<Rightarrow> (string \<times> string list) list" where
  "cleanup_tag key tag T =
     (case jm_get T tag of
        None \<Rightarrow> T
      | Some ks \<Rightarrow>
          (let ks1 = filter (\<lambda>k. k \<noteq> key) ks in if ks1 = [] then jm_del tag T else jm_set tag ks1 T))"

definition cleanupTags :: "string list \<Rightarrow> string \<Rightarrow> (string \<times> string list) list \<Rightarrow> (string \<times> string list) list" where
  "cleanupTags tags key T = fold (cleanup_tag key) tags T"

definition updateTagIndex :: "string list \<Rightarrow> string \<Rightarrow> (string \<times> string list) list \<Rightarrow> (string \<times> string list) list" where
  "updateTagIndex tags key T =
     fold (\<lambda>tag T. jm_set tag (set_add key (case jm_get T tag of None \<Rightarrow> [] | Some ks \<Rightarrow> ks)) T) tags T"

definition entry_of :: "'v lru_cache \<Rightarrow> nat \<Rightarrow> 'v lru_entry" where
  "entry_of c a = ln_entry (ll_heap (lc_list c) a)"

definition new_entry :: "('v \<Rightarrow> int) \<Rightarrow> int \<Rightarrow> 'v \<Rightarrow> int option \<Rightarrow> string list option \<Rightarrow> 'v lru_cache \<Rightarrow> 'v lru_entry" where
  "new_entry est now v ttlMs tags c =
     \<lparr>le_value = v, le_size = est v, le_expiry = calculateExpiry now ttlMs (lc_defaultTtlMs c), le_tags = tags,
      le_lastAccessed = now\<rparr>"

definition updateExistingEntry :: "('v \<Rightarrow> int) \<Rightarrow> int \<Rightarrow> nat \<Rightarrow> 'v \<Rightarrow> int option \<Rightarrow> string list option \<Rightarrow> string \<Rightarrow>
    'v lru_cache \<Rightarrow> 'v lru_cache" where
  "updateExistingEntry est now a v ttlMs tags key c =
     (let old = entry_of c a; e = new_entry est now v ttlMs tags c;
          T = (case le_tags old of None \<Rightarrow> lc_tagIndex c
               | Some ts \<Rightarrow> if ts = [] then lc_tagIndex c else cleanupTags ts key (lc_tagIndex c));
          l = upd_node a (\<lambda>n. n\<lparr>ln_entry := e\<rparr>) (lc_list c)
      in c\<lparr>lc_tagIndex := T, lc_list := moveToFront now a l,
           lc_currentSize := lc_currentSize c + (le_size e - le_size old)\<rparr>)"

definition createNewEntry :: "('v \<Rightarrow> int) \<Rightarrow> int \<Rightarrow> string \<Rightarrow> 'v \<Rightarrow> int option \<Rightarrow> string list option \<Rightarrow>
    'v lru_cache \<Rightarrow> 'v lru_cache" where
  "createNewEntry est now key v ttlMs tags c =
     (let e = new_entry est now v ttlMs tags c; a = lc_fresh c;
          l = upd_node a (\<lambda>_. \<lparr>ln_key = key, ln_entry = e, ln_prev = None, ln_next = None\<rparr>) (lc_list c)
      in c\<lparr>lc_fresh := a + 1, lc_store := jm_set key a (lc_store c), lc_list := addToFront now a l,
           lc_currentSize := lc_currentSize c + le_size e\<rparr>)"

subsection \<open>Removal and eviction\<close>

definition drop_node :: "string \<Rightarrow> nat \<Rightarrow> 'v lru_cache \<Rightarrow> 'v lru_cache" where
  "drop_node key a c =
     (let e = entry_of c a
      in c\<lparr>lc_list := removeNode a (lc_list c), lc_store := jm_del key (lc_store c),
           lc_currentSize := lc_currentSize c - le_size e,
           lc_tagIndex := (case le_tags e of None \<Rightarrow> lc_tagIndex c | Some ts \<Rightarrow> cleanupTags ts key (lc_tagIndex c)),
           lc_evicted := lc_evicted c @ [(key, le_value e)]\<rparr>)"

definition evictLRUFromList :: "'v lru_cache \<Rightarrow> 'v lru_cache" where
  "evictLRUFromList c =
     (case ll_tail (lc_list c) of
        None \<Rightarrow> c
      | Some a \<Rightarrow> drop_node (ln_key (ll_heap (lc_list c) a)) a c)"

definition over_limits :: "'v lru_cache \<Rightarrow> bool" where
  "over_limits c \<longleftrightarrow>
     (int (length (lc_store c)) > lc_maxEntries c \<or> lc_currentSize c > lc_maxSizeBytes c) \<and> ll_tail (lc_list c) \<noteq> None"

text \<open>The loop of \<open>enforceMemoryLimits\<close>. Every round removes an entry, so as many rounds as there are
  entries are enough: \<open>enforce_exits\<close> proves that the condition of the loop is false at the end.\<close>

fun enforce_loop :: "nat \<Rightarrow> 'v lru_cache \<Rightarrow> 'v lru_cache" where
  "enforce_loop 0 c = c"
| "enforce_loop (Suc k) c = (if over_limits c then enforce_loop k (evictLRUFromList c) else c)"

definition enforceMemoryLimits :: "'v lru_cache \<Rightarrow> 'v lru_cache" where
  "enforceMemoryLimits c = enforce_loop (length (lc_store c)) c"

subsection \<open>The operations of the adapter\<close>

definition delete_key :: "string \<Rightarrow> 'v lru_cache \<Rightarrow> 'v lru_cache" where
  "delete_key key c = (case jm_get (lc_store c) key of None \<Rightarrow> c | Some a \<Rightarrow> drop_node key a c)"

definition get_key :: "int \<Rightarrow> string \<Rightarrow> 'v lru_cache \<Rightarrow> 'v lru_cache \<times> 'v option" where
  "get_key now key c =
     (case jm_get (lc_store c) key of
        None \<Rightarrow> (c, None)
      | Some a \<Rightarrow>
          if isExpired (entry_of c a) now then (delete_key key c, None)
          else (c\<lparr>lc_list := moveToFront now a (lc_list c)\<rparr>, Some (le_value (entry_of c a))))"

definition has_key :: "int \<Rightarrow> string \<Rightarrow> 'v lru_cache \<Rightarrow> 'v lru_cache \<times> bool" where
  "has_key now key c =
     (case jm_get (lc_store c) key of
        None \<Rightarrow> (c, False)
      | Some a \<Rightarrow>
          if isExpired (entry_of c a) now then (delete_key key c, False)
          else (c\<lparr>lc_list := moveToFront now a (lc_list c)\<rparr>, True))"

definition set_key :: "('v \<Rightarrow> int) \<Rightarrow> int \<Rightarrow> string \<Rightarrow> 'v \<Rightarrow> int option \<Rightarrow> string list option \<Rightarrow>
    'v lru_cache \<Rightarrow> 'v lru_cache" where
  "set_key est now key v ttlMs tags c =
     (let c1 = (case jm_get (lc_store c) key of
                  Some a \<Rightarrow> updateExistingEntry est now a v ttlMs tags key c
                | None \<Rightarrow> createNewEntry est now key v ttlMs tags c);
          c2 = (case tags of None \<Rightarrow> c1
                | Some ts \<Rightarrow> if ts = [] then c1 else c1\<lparr>lc_tagIndex := updateTagIndex ts key (lc_tagIndex c1)\<rparr>)
      in enforceMemoryLimits c2)"

definition invalidateTag :: "string \<Rightarrow> 'v lru_cache \<Rightarrow> 'v lru_cache \<times> nat" where
  "invalidateTag tag c =
     (case jm_get (lc_tagIndex c) tag of
        None \<Rightarrow> (c, 0)
      | Some ks \<Rightarrow>
          (let c1 = fold delete_key ks c in (c1\<lparr>lc_tagIndex := jm_del tag (lc_tagIndex c1)\<rparr>, length ks)))"

definition clear_cache :: "'v lru_cache \<Rightarrow> 'v lru_cache" where
  "clear_cache c =
     c\<lparr>lc_evicted := lc_evicted c @ map (\<lambda>(k, a). (k, le_value (entry_of c a))) (lc_store c),
       lc_store := [], lc_tagIndex := [], lc_list := clear_list (lc_list c), lc_currentSize := 0\<rparr>"

definition live_nodes :: "int \<Rightarrow> 'v lru_cache \<Rightarrow> (string \<times> nat) list" where
  "live_nodes now c = filter (\<lambda>(k, a). \<not> isExpired (entry_of c a) now) (lc_store c)"

definition cleanupExpired :: "int \<Rightarrow> 'v lru_cache \<Rightarrow> 'v lru_cache \<times> nat" where
  "cleanupExpired now c =
     (let ks = map fst (filter (\<lambda>(k, a). isExpired (entry_of c a) now) (lc_store c))
      in (fold delete_key ks c, length ks))"

definition cache_keys :: "int \<Rightarrow> 'v lru_cache \<Rightarrow> string list" where
  "cache_keys now c = map fst (live_nodes now c)"

definition cache_entries :: "int \<Rightarrow> 'v lru_cache \<Rightarrow> (string \<times> 'v) list" where
  "cache_entries now c = map (\<lambda>(k, a). (k, le_value (entry_of c a))) (live_nodes now c)"

record lru_stats =
  st_entries :: nat
  st_sizeBytes :: int
  st_maxEntries :: int
  st_maxSizeBytes :: int
  st_tags :: nat

definition tags_of :: "'v lru_entry \<Rightarrow> string list" where
  "tags_of e = (case le_tags e of None \<Rightarrow> [] | Some ts \<Rightarrow> ts)"

definition getStats :: "int \<Rightarrow> 'v lru_cache \<Rightarrow> lru_stats" where
  "getStats now c =
     \<lparr>st_entries = length (live_nodes now c),
      st_sizeBytes = sum_list (map (\<lambda>(k, a). le_size (entry_of c a)) (live_nodes now c)),
      st_maxEntries = lc_maxEntries c, st_maxSizeBytes = lc_maxSizeBytes c,
      st_tags = length (fold set_add (concat (map (\<lambda>(k, a). tags_of (entry_of c a)) (live_nodes now c))) [])\<rparr>"

end
