(* ===== verification/LruRefinement.thy ===== *)
theory LruRefinement
  imports LruCache
begin

text \<open>
  The memory cache implements a list of entries in the order of their last use: the most recent first. The
  predicate \<open>rep\<close> relates a cache to that list; every operation of the pointer structure, the map and the tag
  index is the expected operation on the list, with the same result.
\<close>

subsection \<open>The specification\<close>

type_synonym 'v recency = "(string \<times> 'v lru_entry) list"

definition total_size :: "'v recency \<Rightarrow> int" where
  "total_size ys = sum_list (map (\<lambda>(k, e). le_size e) ys)"

definition spec_get :: "int \<Rightarrow> string \<Rightarrow> 'v recency \<Rightarrow> 'v recency \<times> 'v option" where
  "spec_get now k ys =
     (case map_of ys k of
        None \<Rightarrow> (ys, None)
      | Some e \<Rightarrow> if isExpired e now then (AList.delete k ys, None)
          else ((k, e) # AList.delete k ys, Some (le_value e)))"

function spec_trim :: "int \<Rightarrow> int \<Rightarrow> 'v recency \<Rightarrow> 'v recency" where
  "spec_trim maxEntries maxSize ys =
     (if (int (length ys) > maxEntries \<or> total_size ys > maxSize) \<and> ys \<noteq> []
      then spec_trim maxEntries maxSize (butlast ys) else ys)"
  by pat_completeness auto
termination
  by (relation "measure (\<lambda>(_, _, ys). length ys)") auto

definition spec_set :: "int \<Rightarrow> int \<Rightarrow> string \<Rightarrow> 'v lru_entry \<Rightarrow> 'v recency \<Rightarrow> 'v recency" where
  "spec_set maxEntries maxSize k e ys = spec_trim maxEntries maxSize ((k, e) # AList.delete k ys)"

definition spec_invalidate :: "string \<Rightarrow> 'v recency \<Rightarrow> 'v recency \<times> nat" where
  "spec_invalidate tag ys =
     (filter (\<lambda>(k, e). tag \<notin> set (tags_of e)) ys, length (filter (\<lambda>(k, e). tag \<in> set (tags_of e)) ys))"

definition spec_cleanup :: "int \<Rightarrow> 'v recency \<Rightarrow> 'v recency \<times> nat" where
  "spec_cleanup now ys =
     (filter (\<lambda>(k, e). \<not> isExpired e now) ys, length (filter (\<lambda>(k, e). isExpired e now) ys))"

declare spec_trim.simps [simp del]

subsection \<open>The tag index\<close>

definition tagged :: "(string \<times> string list) list \<Rightarrow> string \<Rightarrow> string set" where
  "tagged T t = (case jm_get T t of None \<Rightarrow> {} | Some ks \<Rightarrow> set ks)"

definition tags_wf :: "(string \<times> string list) list \<Rightarrow> bool" where
  "tags_wf T \<longleftrightarrow> jm_ok T \<and> (\<forall>p \<in> set T. snd p \<noteq> [] \<and> distinct (snd p))"

definition carriers :: "'v recency \<Rightarrow> string \<Rightarrow> string set" where
  "carriers ys t = {k. \<exists>e. (k, e) \<in> set ys \<and> t \<in> set (tags_of e)}"

lemma tagged_set: "tagged (jm_set t ks T) u = (if u = t then set ks else tagged T u)"
  by (simp add: tagged_def jsmap_simps)

lemma tagged_del: "tagged (jm_del t T) u = (if u = t then {} else tagged T u)"
  by (simp add: tagged_def jsmap_simps)

lemma tags_wf_set: "tags_wf T \<Longrightarrow> ks \<noteq> [] \<Longrightarrow> distinct ks \<Longrightarrow> tags_wf (jm_set t ks T)"
  unfolding tags_wf_def by (metis jm_ok_set jm_set_in_set snd_conv)

lemma tags_wf_del: "tags_wf T \<Longrightarrow> tags_wf (jm_del t T)"
  by (simp add: tags_wf_def jm_del_ok_iff)

lemma tags_wf_get: "tags_wf T \<Longrightarrow> jm_get T t = Some ks \<Longrightarrow> ks \<noteq> [] \<and> distinct ks"
  unfolding tags_wf_def by (metis map_of_SomeD snd_conv)

lemma cleanup_tag_tagged: "tagged (cleanup_tag k t T) u = (if u = t then tagged T u - {k} else tagged T u)"
proof (cases "jm_get T t")
  case None
  then show ?thesis by (simp add: cleanup_tag_def tagged_def)
next
  case (Some ks)
  then have "tagged T t = set ks" by (simp add: tagged_def)
  moreover have "filter (\<lambda>x. x \<noteq> k) ks = [] \<Longrightarrow> set ks - {k} = {}" by (auto simp: filter_empty_conv)
  moreover have "set (filter (\<lambda>x. x \<noteq> k) ks) = set ks - {k}" by auto
  ultimately show ?thesis using Some by (simp add: cleanup_tag_def Let_def tagged_set tagged_del)
qed

lemma cleanup_tag_wf: "tags_wf T \<Longrightarrow> tags_wf (cleanup_tag k t T)"
  by (auto simp: cleanup_tag_def Let_def tags_wf_del split: option.split intro!: tags_wf_set dest: tags_wf_get)

lemma cleanupTags_tagged: "tagged (cleanupTags ts k T) u = (if u \<in> set ts then tagged T u - {k} else tagged T u)"
  by (induction ts arbitrary: T) (auto simp: cleanupTags_def cleanup_tag_tagged)

lemma cleanupTags_wf: "tags_wf T \<Longrightarrow> tags_wf (cleanupTags ts k T)"
  by (induction ts arbitrary: T) (auto simp: cleanupTags_def cleanup_tag_wf)

lemma updateTagIndex_tagged: "tagged (updateTagIndex ts k T) u = (if u \<in> set ts then insert k (tagged T u) else tagged T u)"
proof (induction ts arbitrary: T)
  case (Cons t ts)
  have "tagged (jm_set t (set_add k (case jm_get T t of None \<Rightarrow> [] | Some ks \<Rightarrow> ks)) T) u =
      (if u = t then insert k (tagged T u) else tagged T u)"
    by (simp add: tagged_set) (simp add: tagged_def split: option.split)
  with Cons.IH show ?case by (auto simp: updateTagIndex_def)
qed (simp add: updateTagIndex_def)

lemma updateTagIndex_wf: "tags_wf T \<Longrightarrow> tags_wf (updateTagIndex ts k T)"
proof (induction ts arbitrary: T)
  case (Cons t ts)
  have "tags_wf (jm_set t (set_add k (case jm_get T t of None \<Rightarrow> [] | Some ks \<Rightarrow> ks)) T)"
    by (rule tags_wf_set [OF Cons.prems])
      (auto simp: set_add_def split: option.splits dest: tags_wf_get [OF Cons.prems])
  from Cons.IH [OF this] show ?case by (simp add: updateTagIndex_def)
qed (simp add: updateTagIndex_def)

definition drop_tags :: "'v lru_entry \<Rightarrow> string \<Rightarrow> (string \<times> string list) list \<Rightarrow> (string \<times> string list) list" where
  "drop_tags e k T = (case le_tags e of None \<Rightarrow> T | Some ts \<Rightarrow> cleanupTags ts k T)"

lemma drop_tags_carriers:
  assumes "tags_wf T" "\<forall>t. tagged T t = carriers ys t" "distinct (map fst ys)" "map_of ys k = Some e'"
    and "tags_of e = tags_of e'"
  shows "tags_wf (drop_tags e k T) \<and> (\<forall>t. tagged (drop_tags e k T) t = carriers (AList.delete k ys) t)"
proof -
  have e: "(k, x) \<in> set ys \<Longrightarrow> x = e'" for x using assms(3,4) by (metis map_of_eq_Some_iff option.inject)
  have "tagged (drop_tags e k T) t = (if t \<in> set (tags_of e) then tagged T t - {k} else tagged T t)" for t
    by (auto simp: drop_tags_def tags_of_def cleanupTags_tagged split: option.splits)
  moreover have "carriers (AList.delete k ys) t = carriers ys t - {k}" for t
    by (auto simp: carriers_def AList.delete_eq)
  moreover have "t \<notin> set (tags_of e) \<Longrightarrow> k \<notin> carriers ys t" for t using e assms(5) by (auto simp: carriers_def)
  ultimately show ?thesis using assms(1,2) by (auto simp: drop_tags_def cleanupTags_wf split: option.splits)
qed

subsection \<open>The representation\<close>

abbreviation node_key :: "'v lru_cache \<Rightarrow> nat \<Rightarrow> string" where
  "node_key c a \<equiv> ln_key (ll_heap (lc_list c) a)"

abbreviation contents :: "'v lru_cache \<Rightarrow> nat list \<Rightarrow> 'v recency" where
  "contents c xs \<equiv> map (node_data (lc_list c)) xs"

text \<open>The addresses \<open>xs\<close> hold the list of the cache; the map names exactly them, by their keys; the tag
  index names exactly the keys that carry a tag; the size counts every entry.\<close>

definition repx :: "'v lru_cache \<Rightarrow> nat list \<Rightarrow> bool" where
  "repx c xs \<longleftrightarrow> is_list (lc_list c) xs \<and> (\<forall>a \<in> set xs. a < lc_fresh c) \<and>
     distinct (map (node_key c) xs) \<and> jm_ok (lc_store c) \<and>
     (\<forall>k a. jm_get (lc_store c) k = Some a \<longleftrightarrow> a \<in> set xs \<and> node_key c a = k) \<and>
     tags_wf (lc_tagIndex c) \<and> (\<forall>t. tagged (lc_tagIndex c) t = carriers (contents c xs) t) \<and>
     lc_currentSize c = total_size (contents c xs)"

definition rep :: "'v lru_cache \<Rightarrow> 'v recency \<Rightarrow> bool" where
  "rep c ys \<longleftrightarrow> (\<exists>xs. repx c xs \<and> ys = contents c xs)"

lemma repxD:
  assumes "repx c xs"
  shows "is_list (lc_list c) xs" "\<And>a. a \<in> set xs \<Longrightarrow> a < lc_fresh c" "distinct (map (node_key c) xs)"
    and "jm_ok (lc_store c)" "\<And>k a. jm_get (lc_store c) k = Some a \<longleftrightarrow> a \<in> set xs \<and> node_key c a = k"
    and "tags_wf (lc_tagIndex c)" "\<forall>t. tagged (lc_tagIndex c) t = carriers (contents c xs) t"
    and "lc_currentSize c = total_size (contents c xs)"
  using assms unfolding repx_def by blast+

lemma fst_contents: "map fst (contents c xs) = map (node_key c) xs"
  by (simp add: node_data_def)

lemma delete_contents:
  assumes "distinct (map (node_key c) xs)" "a \<in> set xs"
  shows "AList.delete (node_key c a) (contents c xs) = contents c (filter (\<lambda>x. x \<noteq> a) xs)"
proof -
  have "x \<in> set xs \<Longrightarrow> node_key c x = node_key c a \<Longrightarrow> x = a" for x
    using assms by (meson distinct_map inj_on_def)
  then have "filter (\<lambda>x. node_key c a \<noteq> node_key c x) xs = filter (\<lambda>x. x \<noteq> a) xs"
    by (intro filter_cong) auto
  then show ?thesis by (simp add: AList.delete_eq filter_map comp_def node_data_def case_prod_beta)
qed

lemma lookup_contents:
  assumes "repx c xs"
  shows "map_of (contents c xs) k = (case jm_get (lc_store c) k of None \<Rightarrow> None | Some a \<Rightarrow> Some (snd (node_data (lc_list c) a)))"
proof (cases "jm_get (lc_store c) k")
  case None
  then have "k \<notin> fst ` set (contents c xs)" using repxD(5) [OF assms, of k] by (fastforce simp: node_data_def)
  then have "map_of (contents c xs) k = None" by (simp only: map_of_eq_None_iff not_False_eq_True)
  then show ?thesis using None by (simp only: option.case)
next
  case (Some a)
  then have a: "a \<in> set xs" "node_key c a = k" using repxD(5) [OF assms] by auto
  then have "(k, snd (node_data (lc_list c) a)) \<in> set (contents c xs)" by (force simp: node_data_def)
  moreover have "distinct (map fst (contents c xs))" using repxD(3) [OF assms] by (simp only: fst_contents)
  ultimately show ?thesis using Some by simp
qed

lemma total_size_delete:
  assumes "map_of ys k = Some e" "distinct (map fst ys)"
  shows "total_size (AList.delete k ys) = total_size ys - le_size e"
  using assms
proof (induction ys)
  case (Cons y ys)
  show ?case
  proof (cases "fst y = k")
    case True
    then have "AList.delete k ys = ys" using Cons.prems(2) by (cases y) (simp add: delete_id)
    then show ?thesis using True Cons.prems by (cases y) (simp add: total_size_def)
  next
    case False
    then show ?thesis using Cons by (cases y) (simp add: total_size_def)
  qed
qed simp

lemma drop_node_alt:
  "drop_node k a c = c\<lparr>lc_list := removeNode a (lc_list c), lc_store := jm_del k (lc_store c),
     lc_currentSize := lc_currentSize c - le_size (entry_of c a), lc_tagIndex := drop_tags (entry_of c a) k (lc_tagIndex c),
     lc_evicted := lc_evicted c @ [(k, le_value (entry_of c a))]\<rparr>"
  by (simp add: drop_node_def drop_tags_def Let_def)

lemma keys_unchanged: "node_data l' x = node_data l x \<Longrightarrow> ln_key (ll_heap l' x) = ln_key (ll_heap l x)"
  by (simp add: node_data_def)

lemma repx_drop:
  assumes r: "repx c xs" and a: "a \<in> set xs" and k: "k = node_key c a"
  shows "repx (drop_node k a c) (filter (\<lambda>x. x \<noteq> a) xs)"
    and "contents (drop_node k a c) (filter (\<lambda>x. x \<noteq> a) xs) = AList.delete k (contents c xs)"
proof -
  let ?c = "drop_node k a c" and ?xs = "filter (\<lambda>x. x \<noteq> a) xs"
  note R = repxD [OF r]
  have data: "node_data (lc_list (drop_node j a c)) x = node_data (lc_list c) x" for j x by (simp add: drop_node_alt)
  note key = keys_unchanged [OF data]
  show con: "contents ?c ?xs = AList.delete k (contents c xs)"
    using delete_contents [OF R(3) a] by (simp add: data k cong: map_cong)
  have dist: "distinct (map fst (contents c xs))" using R(3) by (simp only: fst_contents)
  have store: "jm_get (lc_store c) k = Some a" using R(5) a k by simp
  then have e: "map_of (contents c xs) k = Some (snd (node_data (lc_list c) a))"
    using lookup_contents [OF r, of k] by simp
  have eq: "le_size (snd (node_data (lc_list c) a)) = le_size (entry_of c a)"
    "tags_of (entry_of c a) = tags_of (snd (node_data (lc_list c) a))"
    by (simp_all add: node_data_def entry_of_def tags_of_def)
  have tags: "tags_wf (lc_tagIndex ?c) \<and> (\<forall>t. tagged (lc_tagIndex ?c) t = carriers (contents ?c ?xs) t)"
    using drop_tags_carriers [OF R(6,7) dist e eq(2)] unfolding con by (simp add: drop_node_alt)
  have "is_list (lc_list ?c) ?xs" using removeNode_list [OF R(1) a] by (simp add: drop_node_alt)
  moreover have "distinct (map (node_key ?c) ?xs)" unfolding key using R(3) by (rule distinct_map_filter)
  moreover have "jm_get (lc_store ?c) j = Some b \<longleftrightarrow> b \<in> set ?xs \<and> node_key ?c b = j" for j b
    unfolding key using R(5) [of j b] R(3) a k by (auto simp: drop_node_alt jsmap_simps distinct_map inj_on_def)
  moreover have "lc_currentSize ?c = total_size (contents ?c ?xs)"
    unfolding con using total_size_delete [OF e dist] R(8) eq(1) by (simp add: drop_node_alt)
  moreover have "jm_ok (lc_store ?c)" "\<forall>x \<in> set ?xs. x < lc_fresh ?c" using R(2,4) by (auto simp: drop_node_alt)
  ultimately show "repx ?c ?xs" using tags unfolding repx_def by blast
qed

lemma rep_delete: "rep c ys \<Longrightarrow> rep (delete_key k c) (AList.delete k ys)"
proof -
  assume "rep c ys"
  then obtain xs where r: "repx c xs" and ys: "ys = contents c xs" by (auto simp: rep_def)
  show ?thesis
  proof (cases "jm_get (lc_store c) k")
    case None
    then have "k \<notin> fst ` set ys" using lookup_contents [OF r, of k] unfolding ys by (metis map_of_eq_None_iff option.simps(4))
    then show ?thesis using None \<open>rep c ys\<close> by (simp add: delete_key_def delete_id)
  next
    case (Some a)
    then have a: "a \<in> set xs" "k = node_key c a" using repxD(5) [OF r] by auto
    show ?thesis using repx_drop [OF r a] Some unfolding rep_def delete_key_def ys by (metis option.simps(5))
  qed
qed

text \<open>Putting a node in front, whether it was in the list or is new.\<close>

lemma repx_front:
  assumes r: "repx c xs" and zs: "zs = filter (\<lambda>x. x \<noteq> a) xs" and k: "k \<notin> node_key c ` set zs"
    and l: "is_list (lc_list c') (a # zs)" "\<And>x. x \<in> set zs \<Longrightarrow> node_data (lc_list c') x = node_data (lc_list c) x"
      "node_data (lc_list c') a = (k, e)"
    and st: "jm_ok (lc_store c')" "\<And>j b. jm_get (lc_store c') j = Some b \<longleftrightarrow> (if j = k then b = a else jm_get (lc_store c) j = Some b)"
    and T: "tags_wf (lc_tagIndex c')" "\<And>t. tagged (lc_tagIndex c') t = carriers ((k, e) # contents c zs) t"
    and sz: "lc_currentSize c' = total_size ((k, e) # contents c zs)"
    and fr: "\<And>x. x \<in> set (a # zs) \<Longrightarrow> x < lc_fresh c'"
    and old: "\<And>j. jm_get (lc_store c) j = Some a \<Longrightarrow> j = k"
  shows "repx c' (a # zs) \<and> contents c' (a # zs) = (k, e) # contents c zs"
proof
  note R = repxD [OF r]
  show con: "contents c' (a # zs) = (k, e) # contents c zs" using l(2,3) by simp
  have ka: "node_key c' a = k" using l(3) by (simp add: node_data_def)
  have kz: "node_key c' x = node_key c x" if "x \<in> set zs" for x using keys_unchanged [OF l(2) [OF that]] .
  have m: "map (node_key c') zs = map (node_key c) zs" using kz by simp
  have "distinct (map (node_key c) zs)" unfolding zs using R(3) by (rule distinct_map_filter)
  then have "distinct (map (node_key c') (a # zs))" using k ka unfolding list.map distinct.simps m by simp
  moreover have "jm_get (lc_store c') j = Some b \<longleftrightarrow> b \<in> set (a # zs) \<and> node_key c' b = j" for j b
  proof (cases "j = k")
    case True
    have "b \<in> set zs \<Longrightarrow> node_key c' b \<noteq> k" using k kz by fastforce
    then show ?thesis using True st(2) [of j b] ka by auto
  next
    case False
    have "jm_get (lc_store c') j = Some b \<longleftrightarrow> b \<in> set xs \<and> node_key c b = j" using st(2) [of j b] False R(5) by simp
    also have "\<dots> \<longleftrightarrow> b \<in> set zs \<and> node_key c b = j" using old [of j] R(5) [of j a] False zs by auto
    also have "\<dots> \<longleftrightarrow> b \<in> set (a # zs) \<and> node_key c' b = j" using kz [of b] ka False by auto
    finally show ?thesis .
  qed
  ultimately show "repx c' (a # zs)" using l(1) st(1) T sz fr con unfolding repx_def by metis
qed

lemma repx_absent:
  assumes r: "repx c xs" and a: "a \<in> set xs" "node_key c a = k"
  shows "k \<notin> node_key c ` set (filter (\<lambda>x. x \<noteq> a) xs)"
  using repxD(3) [OF r] a by (auto simp: distinct_map inj_on_def)

lemma carriers_Cons: "carriers ((k, e) # ys) t = (if t \<in> set (tags_of e) then insert k (carriers ys t) else carriers ys t)"
  by (auto simp: carriers_def)

lemma carriers_front:
  assumes "map_of ys k = Some e" "distinct (map fst ys)"
  shows "carriers ((k, e) # AList.delete k ys) t = carriers ys t"
proof -
  have "set ((k, e) # AList.delete k ys) = set ys"
  proof -
    have "(k, x) \<in> set ys \<longleftrightarrow> x = e" for x using assms by (metis map_of_eq_Some_iff option.inject)
    then show ?thesis by (auto simp: AList.delete_eq)
  qed
  then show ?thesis by (simp add: carriers_def)
qed

lemma total_size_Cons: "total_size ((k, e) # ys) = le_size e + total_size ys"
  by (simp add: total_size_def)

lemma rep_move:
  assumes r: "repx c xs" and a: "a \<in> set xs" and k: "k = node_key c a"
  shows "rep (c\<lparr>lc_list := moveToFront now a (lc_list c)\<rparr>)
    ((k, snd (node_data (lc_list c) a)) # AList.delete k (contents c xs))"
proof -
  let ?c = "c\<lparr>lc_list := moveToFront now a (lc_list c)\<rparr>" and ?zs = "filter (\<lambda>x. x \<noteq> a) xs"
  let ?e = "snd (node_data (lc_list c) a)"
  note R = repxD [OF r]
  have store: "jm_get (lc_store c) k = Some a" using R(5) a k by simp
  have del: "AList.delete k (contents c xs) = contents c ?zs" unfolding k by (rule delete_contents [OF R(3) a])
  have e: "map_of (contents c xs) k = Some ?e" using lookup_contents [OF r, of k] store by simp
  have dist: "distinct (map fst (contents c xs))" using R(3) by (simp only: fst_contents)
  have "repx ?c (a # ?zs) \<and> contents ?c (a # ?zs) = (k, ?e) # contents c ?zs"
  proof (rule repx_front [OF r refl])
    show "k \<notin> node_key c ` set ?zs" by (rule repx_absent [OF r a k [symmetric]])
    show "is_list (lc_list ?c) (a # ?zs)" using moveToFront_list [OF R(1) a] by simp
    show "tagged (lc_tagIndex ?c) t = carriers ((k, ?e) # contents c ?zs) t" for t
      using carriers_front [OF e dist, of t] R(7) unfolding del by simp
    show "lc_currentSize ?c = total_size ((k, ?e) # contents c ?zs)"
      using total_size_delete [OF e dist] R(8) unfolding del by (simp add: total_size_Cons)
    show "jm_get (lc_store c) j = Some a \<Longrightarrow> j = k" for j using R(5) [of j a] k by simp
    show "(jm_get (lc_store ?c) j = Some b) = (if j = k then b = a else jm_get (lc_store c) j = Some b)" for j b
      using store by auto
  qed (use R a k in \<open>auto simp: node_data_def moveToFront_data [unfolded node_data_def]\<close>)
  then show ?thesis unfolding rep_def del by metis
qed

subsection \<open>Setting a key\<close>

definition clean :: "'v lru_entry \<Rightarrow> 'v lru_entry" where
  "clean e = e\<lparr>le_lastAccessed := 0\<rparr>"

lemma clean_simps [simp]: "le_value (clean e) = le_value e" "le_size (clean e) = le_size e" "tags_of (clean e) = tags_of e"
  "isExpired (clean e) now = isExpired e now"
  by (simp_all add: clean_def tags_of_def isExpired_def)

lemma node_data_clean: "node_data l a = (ln_key (ll_heap l a), clean (ln_entry (ll_heap l a)))"
  by (simp add: node_data_def clean_def)

lemma upd_node_list: "(\<And>n. ln_prev (f n) = ln_prev n \<and> ln_next (f n) = ln_next n) \<Longrightarrow> is_list (upd_node a f l) xs = is_list l xs"
proof -
  assume f: "\<And>n. ln_prev (f n) = ln_prev n \<and> ln_next (f n) = ln_next n"
  have "chain (ll_heap (upd_node a f l)) None xs None = chain (ll_heap l) None xs None"
    by (rule chain_cong) (simp add: f)
  then show ?thesis by (simp add: is_list_def)
qed

lemma upd_absent_list: "a \<notin> set xs \<Longrightarrow> is_list (upd_node a f l) xs = is_list l xs"
proof -
  assume a: "a \<notin> set xs"
  have "chain (ll_heap (upd_node a f l)) None xs None = chain (ll_heap l) None xs None"
    by (rule chain_cong) (use a in auto)
  then show ?thesis by (simp add: is_list_def)
qed

definition add_tags :: "string list option \<Rightarrow> string \<Rightarrow> (string \<times> string list) list \<Rightarrow> (string \<times> string list) list" where
  "add_tags tags k T = (case tags of None \<Rightarrow> T | Some ts \<Rightarrow> if ts = [] then T else updateTagIndex ts k T)"

lemma add_tags_carriers:
  assumes "tags_wf T" "\<And>t. tagged T t = carriers ys t" "le_tags e = tags"
  shows "tags_wf (add_tags tags k T) \<and> (\<forall>t. tagged (add_tags tags k T) t = carriers ((k, e) # ys) t)"
  using assms by (auto simp: add_tags_def carriers_Cons tags_of_def updateTagIndex_tagged updateTagIndex_wf split: option.splits)

lemma new_entry_simps [simp]: "le_tags (new_entry est now v ttl tags c) = tags" "le_size (new_entry est now v ttl tags c) = est v"
  by (simp_all add: new_entry_def)

text \<open>The state of \<open>set_key\<close> before the limits are enforced.\<close>

definition stored :: "('v \<Rightarrow> int) \<Rightarrow> int \<Rightarrow> string \<Rightarrow> 'v \<Rightarrow> int option \<Rightarrow> string list option \<Rightarrow> 'v lru_cache \<Rightarrow> 'v lru_cache" where
  "stored est now k v ttl tags c =
     (let c1 = (case jm_get (lc_store c) k of
                  Some a \<Rightarrow> updateExistingEntry est now a v ttl tags k c
                | None \<Rightarrow> createNewEntry est now k v ttl tags c)
      in c1\<lparr>lc_tagIndex := add_tags tags k (lc_tagIndex c1)\<rparr>)"

lemma set_key_stored: "set_key est now k v ttl tags c = enforceMemoryLimits (stored est now k v ttl tags c)"
  by (simp add: set_key_def stored_def add_tags_def Let_def split: option.split)

lemma empty_tags: "(case le_tags e of None \<Rightarrow> T | Some ts \<Rightarrow> if ts = [] then T else cleanupTags ts k T) = drop_tags e k T"
  by (simp add: drop_tags_def cleanupTags_def split: option.split)

lemma rep_stored_existing:
  assumes r: "repx c xs" and a: "jm_get (lc_store c) k = Some a"
  shows "rep (stored est now k v ttl tags c)
    ((k, clean (new_entry est now v ttl tags c)) # AList.delete k (contents c xs))"
proof -
  let ?e = "new_entry est now v ttl tags c" and ?c = "stored est now k v ttl tags c" and ?zs = "filter (\<lambda>x. x \<noteq> a) xs"
  let ?l = "upd_node a (\<lambda>n. n\<lparr>ln_entry := ?e\<rparr>) (lc_list c)"
  note R = repxD [OF r]
  have ax: "a \<in> set xs" "node_key c a = k" using a R(5) by auto
  have del: "AList.delete k (contents c xs) = contents c ?zs" using delete_contents [OF R(3) ax(1)] ax(2) by simp
  have old: "map_of (contents c xs) k = Some (snd (node_data (lc_list c) a))" using lookup_contents [OF r, of k] a by simp
  have dist: "distinct (map fst (contents c xs))" using R(3) by (simp only: fst_contents)
  have oe: "tags_of (entry_of c a) = tags_of (snd (node_data (lc_list c) a))"
    "le_size (snd (node_data (lc_list c) a)) = le_size (entry_of c a)" by (simp_all add: node_data_clean entry_of_def)
  have c: "lc_list ?c = moveToFront now a ?l" "lc_store ?c = lc_store c" "lc_fresh ?c = lc_fresh c"
    "lc_tagIndex ?c = add_tags tags k (drop_tags (entry_of c a) k (lc_tagIndex c))"
    "lc_currentSize ?c = lc_currentSize c + (est v - le_size (entry_of c a))"
    by (simp_all add: stored_def a updateExistingEntry_def Let_def empty_tags)
  have drop: "tags_wf (drop_tags (entry_of c a) k (lc_tagIndex c))"
    "\<And>t. tagged (drop_tags (entry_of c a) k (lc_tagIndex c)) t = carriers (contents c ?zs) t"
    using drop_tags_carriers [OF R(6,7) dist old oe(1)] unfolding del by auto
  have tags: "tags_wf (lc_tagIndex ?c)" "\<And>t. tagged (lc_tagIndex ?c) t = carriers ((k, clean ?e) # contents c ?zs) t"
    using add_tags_carriers [OF drop, of "clean ?e" tags k] unfolding c by (auto simp: clean_def)
  have lst: "is_list ?l xs" using R(1) by (simp add: upd_node_list)
  have "repx ?c (a # ?zs) \<and> contents ?c (a # ?zs) = (k, clean ?e) # contents c ?zs"
  proof (rule repx_front [OF r refl])
    show "k \<notin> node_key c ` set ?zs" by (rule repx_absent [OF r ax])
    show "is_list (lc_list ?c) (a # ?zs)" unfolding c by (rule moveToFront_list [OF lst ax(1)])
    show "lc_currentSize ?c = total_size ((k, clean ?e) # contents c ?zs)"
      using total_size_delete [OF old dist] R(8) oe(2) unfolding del by (simp add: total_size_Cons c)
    show "jm_get (lc_store c) j = Some a \<Longrightarrow> j = k" for j using R(5) [of j a] ax by simp
    show "(jm_get (lc_store ?c) j = Some b) = (if j = k then b = a else jm_get (lc_store c) j = Some b)" for j b
      using a by (auto simp: c)
    show "node_data (lc_list ?c) a = (k, clean ?e)" by (simp add: c node_data_clean [of ?l] ax)
    show "x \<in> set ?zs \<Longrightarrow> node_data (lc_list ?c) x = node_data (lc_list c) x" for x
      by (simp add: c node_data_clean [of ?l] node_data_clean [of "lc_list c"])
  qed (use R ax tags in \<open>auto simp: c\<close>)
  then show ?thesis unfolding rep_def del by metis
qed

lemma rep_stored_new:
  assumes r: "repx c xs" and a: "jm_get (lc_store c) k = None"
  shows "rep (stored est now k v ttl tags c)
    ((k, clean (new_entry est now v ttl tags c)) # AList.delete k (contents c xs))"
proof -
  let ?e = "new_entry est now v ttl tags c" and ?c = "stored est now k v ttl tags c" and ?a = "lc_fresh c"
  let ?l = "upd_node ?a (\<lambda>_. \<lparr>ln_key = k, ln_entry = ?e, ln_prev = None, ln_next = None\<rparr>) (lc_list c)"
  note R = repxD [OF r]
  have fresh: "?a \<notin> set xs" using R(2) by fastforce
  then have zs: "xs = filter (\<lambda>x. x \<noteq> ?a) xs" by (simp add: filter_absent)
  have nk: "k \<notin> node_key c ` set xs" using R(5) [of k] a by fastforce
  then have del: "AList.delete k (contents c xs) = contents c xs"
    by (intro delete_id) (force simp: node_data_def)
  have c: "lc_list ?c = addToFront now ?a ?l" "lc_store ?c = jm_set k ?a (lc_store c)" "lc_fresh ?c = ?a + 1"
    "lc_tagIndex ?c = add_tags tags k (lc_tagIndex c)" "lc_currentSize ?c = lc_currentSize c + est v"
    by (simp_all add: stored_def a createNewEntry_def Let_def)
  have tags: "tags_wf (lc_tagIndex ?c)" "\<And>t. tagged (lc_tagIndex ?c) t = carriers ((k, clean ?e) # contents c xs) t"
    using add_tags_carriers [OF R(6), of "contents c xs" "clean ?e" tags k] R(7) unfolding c by (auto simp: clean_def)
  have lst: "is_list ?l xs" using R(1) by (simp add: upd_absent_list [OF fresh])
  have "repx ?c (?a # xs) \<and> contents ?c (?a # xs) = (k, clean ?e) # contents c xs"
  proof (rule repx_front [OF r zs])
    show "k \<notin> node_key c ` set xs" by (rule nk)
    show "is_list (lc_list ?c) (?a # xs)" unfolding c by (rule addToFront_list [OF lst fresh])
    show "jm_get (lc_store c) j = Some ?a \<Longrightarrow> j = k" for j using R(5) [of j ?a] fresh by simp
    show "node_data (lc_list ?c) ?a = (k, clean ?e)" by (simp add: c node_data_clean [of ?l])
    show "x \<in> set xs \<Longrightarrow> node_data (lc_list ?c) x = node_data (lc_list c) x" for x
      using fresh by (auto simp: c node_data_clean [of ?l] node_data_clean [of "lc_list c"])
    show "(jm_get (lc_store ?c) j = Some b) = (if j = k then b = ?a else jm_get (lc_store c) j = Some b)" for j b
      by (auto simp: c jsmap_simps)
    show "x \<in> set (?a # xs) \<Longrightarrow> x < lc_fresh ?c" for x using R(2) [of x] by (auto simp: c)
  qed (use R tags in \<open>auto simp: c total_size_Cons\<close>)
  then show ?thesis unfolding rep_def del by metis
qed

lemma rep_stored:
  "rep c ys \<Longrightarrow> rep (stored est now k v ttl tags c) ((k, clean (new_entry est now v ttl tags c)) # AList.delete k ys)"
  using rep_stored_existing rep_stored_new unfolding rep_def by (metis not_Some_eq)

subsection \<open>Enforcing the limits\<close>

lemma rep_length: "rep c ys \<Longrightarrow> length (lc_store c) = length ys"
proof -
  assume "rep c ys"
  then obtain xs where r: "repx c xs" and ys: "ys = contents c xs" by (auto simp: rep_def)
  note R = repxD [OF r]
  have "k \<in> fst ` set (lc_store c) \<longleftrightarrow> k \<in> node_key c ` set xs" for k
    using R(5) [of k] R(4) map_of_eq_None_iff [of "lc_store c" k] by (metis (no_types, lifting) imageE image_eqI not_Some_eq)
  then have "fst ` set (lc_store c) = node_key c ` set xs" by blast
  then have "set (map fst (lc_store c)) = set (map (node_key c) xs)" by simp
  moreover have "distinct (map fst (lc_store c))" using R(4) by (simp add: jm_ok_def)
  ultimately have "length (map fst (lc_store c)) = length (map (node_key c) xs)"
    using R(3) by (metis distinct_card)
  then show ?thesis by (simp add: ys)
qed

lemma rep_size: "rep c ys \<Longrightarrow> lc_currentSize c = total_size ys"
  by (auto simp: rep_def repx_def)

lemma rep_tail: "rep c ys \<Longrightarrow> ll_tail (lc_list c) = None \<longleftrightarrow> ys = []"
  by (auto simp: rep_def repx_def is_list_def last_of_def split: if_splits)

lemma rep_distinct: "rep c ys \<Longrightarrow> distinct (map fst ys)"
  unfolding rep_def repx_def by (metis fst_contents)

lemma limits_drop [simp]: "lc_maxEntries (drop_node k a c) = lc_maxEntries c" "lc_maxSizeBytes (drop_node k a c) = lc_maxSizeBytes c"
  "lc_defaultTtlMs (drop_node k a c) = lc_defaultTtlMs c"
  by (simp_all add: drop_node_alt)

lemma limits_evict [simp]: "lc_maxEntries (evictLRUFromList c) = lc_maxEntries c"
  "lc_maxSizeBytes (evictLRUFromList c) = lc_maxSizeBytes c" "lc_defaultTtlMs (evictLRUFromList c) = lc_defaultTtlMs c"
  by (simp_all add: evictLRUFromList_def split: option.split)

text \<open>Eviction removes the least recently used entry.\<close>

lemma rep_evict: "rep c ys \<Longrightarrow> ys \<noteq> [] \<Longrightarrow> rep (evictLRUFromList c) (butlast ys)"
proof -
  assume "rep c ys" "ys \<noteq> []"
  then obtain xs where r: "repx c xs" and ys: "ys = contents c xs" "xs \<noteq> []" by (auto simp: rep_def)
  define us a where "us = butlast xs" and "a = last xs"
  have xs: "xs = us @ [a]" using ys(2) by (simp add: us_def a_def)
  note R = repxD [OF r]
  have "a \<notin> set us" using R(1) xs by (simp add: is_list_def)
  then have f: "filter (\<lambda>x. x \<noteq> a) xs = us" by (simp add: xs filter_absent)
  have tail: "ll_tail (lc_list c) = Some a" using R(1) xs by (simp add: is_list_def)
  let ?c = "drop_node (node_key c a) a c"
  have "repx ?c us" using repx_drop(1) [OF r _ refl, of a] f xs by simp
  moreover have "contents ?c us = butlast ys" by (simp add: ys xs drop_node_alt butlast_append map_butlast)
  ultimately show ?thesis using tail unfolding rep_def evictLRUFromList_def by (metis option.simps(5))
qed

lemma rep_enforce:
  "rep c ys \<Longrightarrow> length ys \<le> k \<Longrightarrow>
   rep (enforce_loop k c) (spec_trim (lc_maxEntries c) (lc_maxSizeBytes c) ys) \<and> \<not> over_limits (enforce_loop k c) \<and>
   lc_maxEntries (enforce_loop k c) = lc_maxEntries c \<and> lc_maxSizeBytes (enforce_loop k c) = lc_maxSizeBytes c \<and>
   lc_defaultTtlMs (enforce_loop k c) = lc_defaultTtlMs c"
proof (induction k arbitrary: c ys)
  case 0
  then show ?case by (simp add: spec_trim.simps over_limits_def rep_tail)
next
  case (Suc k)
  have over: "over_limits c \<longleftrightarrow> (int (length ys) > lc_maxEntries c \<or> total_size ys > lc_maxSizeBytes c) \<and> ys \<noteq> []"
    using rep_length [OF Suc.prems(1)] rep_size [OF Suc.prems(1)] rep_tail [OF Suc.prems(1)] by (simp add: over_limits_def)
  show ?case
  proof (cases "over_limits c")
    case True
    then have "ys \<noteq> []" using over by simp
    moreover have "spec_trim (lc_maxEntries c) (lc_maxSizeBytes c) ys = spec_trim (lc_maxEntries c) (lc_maxSizeBytes c) (butlast ys)"
      by (subst spec_trim.simps) (use over True in auto)
    ultimately show ?thesis using Suc.IH [OF rep_evict [OF Suc.prems(1)]] Suc.prems(2) True by simp
  next
    case False
    moreover have "spec_trim (lc_maxEntries c) (lc_maxSizeBytes c) ys = ys"
      by (subst spec_trim.simps) (use over False in auto)
    ultimately show ?thesis using Suc.prems(1) by simp
  qed
qed

lemma rep_set:
  assumes "rep c ys"
  shows "rep (set_key est now k v ttl tags c)
      (spec_set (lc_maxEntries c) (lc_maxSizeBytes c) k (clean (new_entry est now v ttl tags c)) ys)"
    and "\<not> over_limits (set_key est now k v ttl tags c)"
proof -
  let ?c = "stored est now k v ttl tags c"
  have lim: "lc_maxEntries ?c = lc_maxEntries c" "lc_maxSizeBytes ?c = lc_maxSizeBytes c"
    by (simp_all add: stored_def updateExistingEntry_def createNewEntry_def Let_def split: option.split)
  note r = rep_stored [OF assms, of est now k v ttl tags]
  from rep_enforce [OF r, of "length (lc_store ?c)"] rep_length [OF r] lim
  show "rep (set_key est now k v ttl tags c)
      (spec_set (lc_maxEntries c) (lc_maxSizeBytes c) k (clean (new_entry est now v ttl tags c)) ys)"
    "\<not> over_limits (set_key est now k v ttl tags c)"
    by (simp_all add: set_key_stored enforceMemoryLimits_def spec_set_def)
qed

subsection \<open>The other operations\<close>

lemma rep_lookup:
  assumes "rep c ys"
  shows "map_of ys k = (case jm_get (lc_store c) k of None \<Rightarrow> None | Some a \<Rightarrow> Some (clean (entry_of c a)))"
  using assms lookup_contents unfolding rep_def by (fastforce simp: node_data_clean entry_of_def split: option.splits)

lemma rep_front:
  assumes "rep c ys" "jm_get (lc_store c) k = Some a"
  shows "rep (c\<lparr>lc_list := moveToFront now a (lc_list c)\<rparr>) ((k, clean (entry_of c a)) # AList.delete k ys)"
proof -
  obtain xs where r: "repx c xs" and ys: "ys = contents c xs" using assms(1) by (auto simp: rep_def)
  have "a \<in> set xs" "k = node_key c a" using assms(2) repxD(5) [OF r] by auto
  from rep_move [OF r this, of now] show ?thesis by (simp add: ys node_data_clean entry_of_def)
qed

lemma rep_get:
  assumes "rep c ys"
  shows "rep (fst (get_key now k c)) (fst (spec_get now k ys)) \<and> snd (get_key now k c) = snd (spec_get now k ys)"
  using rep_lookup [OF assms, of k] rep_delete [OF assms, of k] rep_front [OF assms, of k _ now] assms
  by (auto simp: get_key_def spec_get_def split: option.splits)

lemma rep_has:
  assumes "rep c ys"
  shows "rep (fst (has_key now k c)) (fst (spec_get now k ys)) \<and> snd (has_key now k c) = (snd (spec_get now k ys) \<noteq> None)"
  using rep_lookup [OF assms, of k] rep_delete [OF assms, of k] rep_front [OF assms, of k _ now] assms
  by (auto simp: has_key_def spec_get_def split: option.splits)

lemma delete_fold: "fold (\<lambda>k. AList.delete k) ks ys = filter (\<lambda>(k, e). k \<notin> set ks) ys"
  by (induction ks arbitrary: ys) (auto simp: AList.delete_eq case_prod_beta intro: filter_cong)

lemma rep_delete_all:
  assumes "rep c ys"
  shows "rep (fold delete_key ks c) (filter (\<lambda>(k, e). k \<notin> set ks) ys)"
proof -
  have "rep (fold delete_key ks c) (fold (\<lambda>k. AList.delete k) ks ys)"
    using assms by (induction ks arbitrary: c ys) (auto intro: rep_delete)
  then show ?thesis by (simp add: delete_fold)
qed

lemma filter_keys:
  assumes "distinct (map fst ys)" "distinct ks" "set ks = {k. \<exists>e. (k, e) \<in> set ys \<and> P e}"
  shows "filter (\<lambda>(k, e). k \<notin> set ks) ys = filter (\<lambda>(k, e). \<not> P e) ys"
    and "length ks = length (filter (\<lambda>(k, e). P e) ys)"
proof -
  have u: "(k, e) \<in> set ys \<Longrightarrow> (k, e') \<in> set ys \<Longrightarrow> e = e'" for k e e' using assms(1) by (metis map_of_eq_Some_iff option.inject)
  show "filter (\<lambda>(k, e). k \<notin> set ks) ys = filter (\<lambda>(k, e). \<not> P e) ys"
    by (rule filter_cong) (use u assms(3) in auto)
  have "set ks = set (map fst (filter (\<lambda>(k, e). P e) ys))" using assms(3) by force
  moreover have "distinct (map fst (filter (\<lambda>(k, e). P e) ys))" using assms(1) by (rule distinct_map_filter)
  ultimately show "length ks = length (filter (\<lambda>(k, e). P e) ys)" using assms(2) by (metis distinct_card length_map)
qed

lemma rep_tags: "rep c ys \<Longrightarrow> tags_wf (lc_tagIndex c) \<and> tagged (lc_tagIndex c) t = carriers ys t"
  by (auto simp: rep_def repx_def)

lemma rep_invalidate:
  assumes r: "rep c ys"
  shows "rep (fst (invalidateTag t c)) (fst (spec_invalidate t ys)) \<and> snd (invalidateTag t c) = snd (spec_invalidate t ys)"
proof -
  have wf: "tags_wf (lc_tagIndex c)" and car: "tagged (lc_tagIndex c) t = carriers ys t"
    using rep_tags [OF r] by auto
  show ?thesis
  proof (cases "jm_get (lc_tagIndex c) t")
    case None
    then have "carriers ys t = {}" using car by (simp add: tagged_def)
    then have "\<forall>(k, e) \<in> set ys. t \<notin> set (tags_of e)" by (auto simp: carriers_def)
    then have "filter (\<lambda>(k, e). t \<notin> set (tags_of e)) ys = ys" "filter (\<lambda>(k, e). t \<in> set (tags_of e)) ys = []"
      by (auto intro!: filter_True filter_False)
    then show ?thesis using None r by (simp add: invalidateTag_def spec_invalidate_def)
  next
    case (Some ks)
    then have ks: "distinct ks" "set ks = {k. \<exists>e. (k, e) \<in> set ys \<and> t \<in> set (tags_of e)}"
      using tags_wf_get [OF wf Some] car by (auto simp: tagged_def carriers_def)
    note f = filter_keys [OF rep_distinct [OF r] ks]
    let ?c = "fold delete_key ks c"
    have rc: "rep ?c (filter (\<lambda>(k, e). t \<notin> set (tags_of e)) ys)" using rep_delete_all [OF r, of ks] f(1) by simp
    have "tagged (lc_tagIndex ?c) t = {}" and wfc: "tags_wf (lc_tagIndex ?c)"
      using rep_tags [OF rc] by (auto simp: carriers_def)
    then have "jm_get (lc_tagIndex ?c) t = None"
      using tags_wf_get [OF wfc, of t] by (cases "jm_get (lc_tagIndex ?c) t") (simp_all add: tagged_def)
    then have "jm_del t (lc_tagIndex ?c) = lc_tagIndex ?c" by (simp add: delete_id map_of_eq_None_iff)
    then show ?thesis using Some rc f(2) by (simp add: invalidateTag_def spec_invalidate_def Let_def)
  qed
qed

lemma rep_cleanup:
  assumes r: "rep c ys"
  shows "rep (fst (cleanupExpired now c)) (fst (spec_cleanup now ys)) \<and> snd (cleanupExpired now c) = snd (spec_cleanup now ys)"
proof -
  let ?ks = "map fst (filter (\<lambda>(k, a). isExpired (entry_of c a) now) (lc_store c))"
  have ok: "jm_ok (lc_store c)" using r by (auto simp: rep_def repx_def)
  then have d: "distinct ?ks" unfolding jm_ok_def by (rule distinct_map_filter)
  have "(k, e) \<in> set ys \<longleftrightarrow> (\<exists>a. (k, a) \<in> set (lc_store c) \<and> e = clean (entry_of c a))" for k e
  proof -
    have "(k, e) \<in> set ys \<longleftrightarrow> map_of ys k = Some e" using rep_distinct [OF r] by simp
    then show ?thesis using rep_lookup [OF r, of k] unfolding jm_get_in_set [OF ok, symmetric] by (auto split: option.splits)
  qed
  then have "set ?ks = {k. \<exists>e. (k, e) \<in> set ys \<and> isExpired e now}" by force
  from filter_keys [OF rep_distinct [OF r] d this] rep_delete_all [OF r, of ?ks] show ?thesis
    by (simp add: cleanupExpired_def spec_cleanup_def Let_def)
qed

lemma rep_clear: "rep c ys \<Longrightarrow> rep (clear_cache c) []"
  by (auto simp: rep_def repx_def clear_cache_def clear_list_list tags_wf_def tagged_def carriers_def total_size_def)

lemma rep_new: "rep (LRUCacheAdapter e s t) []"
  by (simp add: rep_def repx_def LRUCacheAdapter_def is_list_def tags_wf_def tagged_def carriers_def total_size_def)

subsection \<open>Runs of operations\<close>

datatype 'v cache_op = OGet string | OHas string | OSet string 'v "int option" "string list option" | ODelete string
  | OInvalidate string | OCleanup | OClear

datatype 'v cache_result = RValue "'v option" | RBool bool | RCount nat | RDone

text \<open>An operation and the time it runs at.\<close>

fun cache_step :: "('v \<Rightarrow> int) \<Rightarrow> int \<times> 'v cache_op \<Rightarrow> 'v lru_cache \<Rightarrow> 'v lru_cache \<times> 'v cache_result" where
  "cache_step est (now, OGet k) c = (case get_key now k c of (c1, v) \<Rightarrow> (c1, RValue v))"
| "cache_step est (now, OHas k) c = (case has_key now k c of (c1, b) \<Rightarrow> (c1, RBool b))"
| "cache_step est (now, OSet k v ttl tags) c = (set_key est now k v ttl tags c, RDone)"
| "cache_step est (now, ODelete k) c = (delete_key k c, RDone)"
| "cache_step est (now, OInvalidate t) c = (case invalidateTag t c of (c1, n) \<Rightarrow> (c1, RCount n))"
| "cache_step est (now, OCleanup) c = (case cleanupExpired now c of (c1, n) \<Rightarrow> (c1, RCount n))"
| "cache_step est (now, OClear) c = (clear_cache c, RDone)"

definition spec_entry :: "('v \<Rightarrow> int) \<Rightarrow> int option \<Rightarrow> int \<Rightarrow> 'v \<Rightarrow> int option \<Rightarrow> string list option \<Rightarrow> 'v lru_entry" where
  "spec_entry est defaultTtl now v ttl tags =
     \<lparr>le_value = v, le_size = est v, le_expiry = calculateExpiry now ttl defaultTtl, le_tags = tags, le_lastAccessed = 0\<rparr>"

fun spec_step :: "('v \<Rightarrow> int) \<Rightarrow> int \<Rightarrow> int \<Rightarrow> int option \<Rightarrow> int \<times> 'v cache_op \<Rightarrow> 'v recency \<Rightarrow> 'v recency \<times> 'v cache_result" where
  "spec_step est maxE maxS dttl (now, OGet k) ys = (case spec_get now k ys of (ys1, v) \<Rightarrow> (ys1, RValue v))"
| "spec_step est maxE maxS dttl (now, OHas k) ys = (case spec_get now k ys of (ys1, v) \<Rightarrow> (ys1, RBool (v \<noteq> None)))"
| "spec_step est maxE maxS dttl (now, OSet k v ttl tags) ys =
     (spec_set maxE maxS k (spec_entry est dttl now v ttl tags) ys, RDone)"
| "spec_step est maxE maxS dttl (now, ODelete k) ys = (AList.delete k ys, RDone)"
| "spec_step est maxE maxS dttl (now, OInvalidate t) ys = (case spec_invalidate t ys of (ys1, n) \<Rightarrow> (ys1, RCount n))"
| "spec_step est maxE maxS dttl (now, OCleanup) ys = (case spec_cleanup now ys of (ys1, n) \<Rightarrow> (ys1, RCount n))"
| "spec_step est maxE maxS dttl (now, OClear) ys = ([], RDone)"

lemma spec_entry_clean: "clean (new_entry est now v ttl tags c) = spec_entry est (lc_defaultTtlMs c) now v ttl tags"
  by (simp add: clean_def new_entry_def spec_entry_def)

definition config_of :: "'v lru_cache \<Rightarrow> int \<times> int \<times> int option" where
  "config_of c = (lc_maxEntries c, lc_maxSizeBytes c, lc_defaultTtlMs c)"

lemma config_delete [simp]: "config_of (delete_key k c) = config_of c"
  by (simp add: config_of_def delete_key_def split: option.split)

lemma config_delete_all [simp]: "config_of (fold delete_key ks c) = config_of c"
  by (induction ks arbitrary: c) simp_all

lemma config_enforce: "config_of (enforce_loop k c) = config_of c"
  by (induction k arbitrary: c) (simp_all add: config_of_def)

lemma config_update: "config_of (c\<lparr>lc_list := l\<rparr>) = config_of c" "config_of (c\<lparr>lc_tagIndex := T\<rparr>) = config_of c"
  by (simp_all add: config_of_def)

lemma config_clear: "config_of (clear_cache c) = config_of c"
  by (simp add: config_of_def clear_cache_def)

lemma config_set: "config_of (set_key est now k v ttl tags c) = config_of c"
  unfolding set_key_stored enforceMemoryLimits_def config_enforce
  by (simp add: config_of_def stored_def updateExistingEntry_def createNewEntry_def Let_def split: option.split)

lemma config_step: "config_of (fst (cache_step est x c)) = config_of c"
proof (cases "snd x")
  case (OSet k v ttl tags)
  then show ?thesis by (cases x) (simp add: config_set)
qed (cases x; simp add: get_key_def has_key_def invalidateTag_def cleanupExpired_def config_clear Let_def config_update
    split: option.split)+

text \<open>A cache with a given configuration that represents a list.\<close>

definition cache_rep :: "int \<Rightarrow> int \<Rightarrow> int option \<Rightarrow> 'v lru_cache \<Rightarrow> 'v recency \<Rightarrow> bool" where
  "cache_rep maxE maxS dttl c ys \<longleftrightarrow> rep c ys \<and> config_of c = (maxE, maxS, dttl)"

lemma step_rep:
  assumes "rep c ys"
  shows "rep (fst (cache_step est x c)) (fst (spec_step est (lc_maxEntries c) (lc_maxSizeBytes c) (lc_defaultTtlMs c) x ys)) \<and>
    snd (cache_step est x c) = snd (spec_step est (lc_maxEntries c) (lc_maxSizeBytes c) (lc_defaultTtlMs c) x ys)"
proof -
  obtain now op where x: "x = (now, op)" by (cases x)
  show ?thesis
  proof (cases op)
    case (OGet k) then show ?thesis using rep_get [OF assms, of now k] by (simp add: x case_prod_beta)
  next
    case (OHas k) then show ?thesis using rep_has [OF assms, of now k] by (simp add: x case_prod_beta)
  next
    case (OSet k v ttl tags)
    then show ?thesis using rep_set(1) [OF assms, of est now k v ttl tags] by (simp add: x spec_entry_clean)
  next
    case (ODelete k) then show ?thesis using rep_delete [OF assms, of k] by (simp add: x)
  next
    case (OInvalidate t) then show ?thesis using rep_invalidate [OF assms, of t] by (simp add: x case_prod_beta)
  next
    case OCleanup then show ?thesis using rep_cleanup [OF assms, of now] by (simp add: x case_prod_beta)
  next
    case OClear then show ?thesis using rep_clear [OF assms] by (simp add: x)
  qed
qed

interpretation lru: step_refinement "cache_rep maxE maxS dttl" "cache_step est" "spec_step est maxE maxS dttl"
  for maxE maxS dttl est
proof
  fix c :: "'a lru_cache" and ys :: "'a recency" and op
  assume "cache_rep maxE maxS dttl c ys"
  then show "cache_rep maxE maxS dttl (fst (cache_step est op c)) (fst (spec_step est maxE maxS dttl op ys)) \<and>
      snd (cache_step est op c) = snd (spec_step est maxE maxS dttl op ys)"
    using step_rep [of c ys est op] config_step [of est op c] by (simp add: cache_rep_def config_of_def)
qed

lemma cache_rep_new: "cache_rep (or_falsy e 1000) (or_falsy s (50 * 1024 * 1024)) t (LRUCacheAdapter e s t) []"
  using rep_new by (simp add: cache_rep_def config_of_def LRUCacheAdapter_def)

subsection \<open>Limits\<close>

definition bounded :: "int \<Rightarrow> int \<Rightarrow> 'v recency \<Rightarrow> bool" where
  "bounded maxE maxS ys \<longleftrightarrow> int (length ys) \<le> maxE \<and> total_size ys \<le> maxS \<and> (\<forall>y \<in> set ys. 0 \<le> le_size (snd y))"

lemma total_size_filter: "\<forall>y \<in> set ys. 0 \<le> le_size (snd y) \<Longrightarrow> total_size (filter P ys) \<le> total_size ys"
  by (induction ys) (auto simp: total_size_def)

lemma bounded_filter: "bounded maxE maxS ys \<Longrightarrow> bounded maxE maxS (filter P ys)"
  using total_size_filter [of ys P] length_filter_le [of P ys] by (auto simp: bounded_def simp del: length_filter_le)

lemma bounded_delete: "bounded maxE maxS ys \<Longrightarrow> bounded maxE maxS (AList.delete k ys)"
  by (simp add: AList.delete_eq bounded_filter)

lemma bounded_trim:
  assumes "0 \<le> maxE" "0 \<le> maxS" "\<forall>y \<in> set ys. 0 \<le> le_size (snd y)"
  shows "bounded maxE maxS (spec_trim maxE maxS ys)"
  using assms
proof (induction maxE maxS ys rule: spec_trim.induct)
  case (1 maxE maxS ys)
  show ?case
  proof (cases "(int (length ys) > maxE \<or> total_size ys > maxS) \<and> ys \<noteq> []")
    case True
    then show ?thesis using 1 by (subst spec_trim.simps) (auto dest: in_set_butlastD)
  next
    case False
    then have "spec_trim maxE maxS ys = ys" by (subst spec_trim.simps) auto
    then show ?thesis using False 1 by (auto simp: bounded_def total_size_def)
  qed
qed

lemma bounded_get:
  assumes "bounded maxE maxS ys" "distinct (map fst ys)"
  shows "bounded maxE maxS (fst (spec_get now k ys))"
proof (cases "map_of ys k")
  case (Some e)
  have "total_size ((k, e) # AList.delete k ys) = total_size ys"
    using total_size_delete [OF Some assms(2)] by (simp add: total_size_Cons)
  moreover have "length (AList.delete k ys) < length ys"
    using map_of_SomeD [OF Some] by (auto simp: AList.delete_eq intro!: length_filter_less)
  moreover have "(k, e) \<in> set ys" "bounded maxE maxS (AList.delete k ys)"
    using map_of_SomeD [OF Some] bounded_delete [OF assms(1)] by auto
  ultimately show ?thesis using assms(1) Some by (force simp: spec_get_def bounded_def)
qed (use assms(1) in \<open>simp add: spec_get_def\<close>)

lemma bounded_step:
  assumes "bounded maxE maxS ys" "distinct (map fst ys)" "0 \<le> maxE" "0 \<le> maxS" "\<And>v. 0 \<le> est v"
  shows "bounded maxE maxS (fst (spec_step est maxE maxS dttl x ys))"
proof -
  obtain now op where x: "x = (now, op)" by (cases x)
  show ?thesis
  proof (cases op)
    case (OSet k v ttl tags)
    have "\<forall>y \<in> set ((k, spec_entry est dttl now v ttl tags) # AList.delete k ys). 0 \<le> le_size (snd y)"
      using bounded_delete [OF assms(1), of k] assms(5) by (auto simp: bounded_def spec_entry_def)
    from bounded_trim [OF assms(3,4) this] show ?thesis by (simp add: x OSet spec_set_def)
  qed (use assms bounded_get [OF assms(1,2)] bounded_delete [OF assms(1)] bounded_filter [OF assms(1)] in
      \<open>auto simp: x case_prod_beta spec_invalidate_def spec_cleanup_def, auto simp: bounded_def total_size_def\<close>)
qed

lemma bounded_run:
  assumes "cache_rep maxE maxS dttl c ys" "bounded maxE maxS ys" "0 \<le> maxE" "0 \<le> maxS" "\<And>v. 0 \<le> est v"
  shows "bounded maxE maxS (fst (run_ops (spec_step est maxE maxS dttl) ops ys))"
  using assms(1,2)
proof (induction ops arbitrary: c ys)
  case (Cons x ops)
  have "distinct (map fst ys)" using Cons.prems(1) rep_distinct by (auto simp: cache_rep_def)
  then have "bounded maxE maxS (fst (spec_step est maxE maxS dttl x ys))" using Cons.prems(2) assms(3-5) by (intro bounded_step)
  moreover have "cache_rep maxE maxS dttl (fst (cache_step est x c)) (fst (spec_step est maxE maxS dttl x ys))"
    using lru.simulates [OF Cons.prems(1)] by blast
  ultimately have "bounded maxE maxS (fst (run_ops (spec_step est maxE maxS dttl) ops (fst (spec_step est maxE maxS dttl x ys))))"
    by (intro Cons.IH)
  then show ?case by (simp add: Let_def case_prod_beta)
qed simp

lemma rep_store_size:
  assumes "rep c ys"
  shows "sum_list (map (\<lambda>(k, a). le_size (entry_of c a)) (lc_store c)) = total_size ys"
proof -
  obtain xs where r: "repx c xs" and ys: "ys = contents c xs" using assms by (auto simp: rep_def)
  note R = repxD [OF r]
  have in_store: "(k, a) \<in> set (lc_store c) \<longleftrightarrow> a \<in> set xs \<and> node_key c a = k" for k a
    using R(5) [of k a] jm_get_in_set [OF R(4)] by simp
  have "a \<in> snd ` set (lc_store c)" if "a \<in> set xs" for a
    using in_store [of "node_key c a" a] that by (intro image_eqI [of _ _ "(node_key c a, a)"]) simp_all
  moreover have "snd p \<in> set xs" if "p \<in> set (lc_store c)" for p
    using in_store [of "fst p" "snd p"] that by simp
  ultimately have "snd ` set (lc_store c) = set xs" by blast
  moreover have "distinct (map snd (lc_store c))"
  proof -
    have key: "node_key c (snd p) = fst p" if "p \<in> set (lc_store c)" for p
      using in_store [of "fst p" "snd p"] that by simp
    have "inj_on snd (set (lc_store c))"
    proof (rule inj_onI)
      fix p q assume "p \<in> set (lc_store c)" "q \<in> set (lc_store c)" "snd p = snd q"
      then show "p = q" using key [of p] key [of q] by (simp add: prod_eq_iff)
    qed
    moreover have "distinct (lc_store c)" using R(4) by (simp add: jm_ok_def distinct_map)
    ultimately show ?thesis by (simp add: distinct_map)
  qed
  moreover have "distinct xs" using R(1) by (simp add: is_list_def)
  ultimately have "sum_list (map (\<lambda>a. le_size (entry_of c a)) (map snd (lc_store c))) = sum_list (map (\<lambda>a. le_size (entry_of c a)) xs)"
    by (simp only: sum_list_distinct_conv_sum_set set_map)
  then show ?thesis by (simp add: ys total_size_def comp_def case_prod_unfold node_data_clean entry_of_def)
qed

subsection \<open>Properties\<close>

text \<open>C18: The memory cache, with its map, linked list and tag index, answers every sequence of
  operations at any times exactly as a list of entries in the order of their last use: a lookup finds the
  value last set for the key unless it was removed, expired or evicted and makes the entry the most recent;
  setting evicts the least recently used entries until the limits hold; invalidating a tag removes and
  counts exactly the entries that carry it.\<close>

theorem lru_cache_refines_recency_list:
  "snd (run_ops (cache_step est) ops (LRUCacheAdapter maxEntries maxSizeBytes ttlMs)) =
   snd (run_ops (spec_step est (or_falsy maxEntries 1000) (or_falsy maxSizeBytes (50 * 1024 * 1024)) ttlMs) ops [])"
  by (rule lru.run_same_results [OF cache_rep_new])

text \<open>After every sequence of operations the memory cache is within its limits, its size is the sum of
  the sizes of the entries it stores, and its tag index names for every tag exactly the keys whose entries
  carry it, for limits that are not negative and an estimator that is never negative.\<close>

theorem lru_cache_keeps_limits:
  "\<forall>v. 0 \<le> est v \<Longrightarrow> 0 \<le> or_falsy maxEntries 1000 \<Longrightarrow> 0 \<le> or_falsy maxSizeBytes (50 * 1024 * 1024) \<Longrightarrow>
   c = fst (run_ops (cache_step est) ops (LRUCacheAdapter maxEntries maxSizeBytes ttlMs)) \<Longrightarrow>
   int (length (lc_store c)) \<le> or_falsy maxEntries 1000 \<and> lc_currentSize c \<le> or_falsy maxSizeBytes (50 * 1024 * 1024) \<and>
   lc_currentSize c = sum_list (map (\<lambda>(k, a). le_size (entry_of c a)) (lc_store c)) \<and>
   (\<forall>t k. k \<in> set (case jm_get (lc_tagIndex c) t of None \<Rightarrow> [] | Some ks \<Rightarrow> ks) \<longleftrightarrow>
      (\<exists>a. jm_get (lc_store c) k = Some a \<and> t \<in> set (tags_of (entry_of c a))))"
proof -
  assume est: "\<forall>v. 0 \<le> est v" and e: "0 \<le> or_falsy maxEntries 1000" and s: "0 \<le> or_falsy maxSizeBytes (50 * 1024 * 1024)"
    and c: "c = fst (run_ops (cache_step est) ops (LRUCacheAdapter maxEntries maxSizeBytes ttlMs))"
  let ?E = "or_falsy maxEntries 1000" and ?S = "or_falsy maxSizeBytes (50 * 1024 * 1024)"
  define ys where "ys = fst (run_ops (spec_step est ?E ?S ttlMs) ops [])"
  have r: "rep c ys" using lru.run_simulates [OF cache_rep_new] unfolding c ys_def cache_rep_def by blast
  have "bounded ?E ?S ([] :: 'a recency)" using e s by (simp add: bounded_def total_size_def)
  then have b: "bounded ?E ?S ys" unfolding ys_def using est by (intro bounded_run [OF cache_rep_new _ e s]) simp_all
  have "k \<in> set (case jm_get (lc_tagIndex c) t of None \<Rightarrow> [] | Some ks \<Rightarrow> ks) \<longleftrightarrow>
      (\<exists>a. jm_get (lc_store c) k = Some a \<and> t \<in> set (tags_of (entry_of c a)))" for t k
  proof -
    have "k \<in> set (case jm_get (lc_tagIndex c) t of None \<Rightarrow> [] | Some ks \<Rightarrow> ks) \<longleftrightarrow> k \<in> carriers ys t"
      using rep_tags [OF r, of t] by (auto simp: tagged_def split: option.splits)
    also have "\<dots> \<longleftrightarrow> (\<exists>e. map_of ys k = Some e \<and> t \<in> set (tags_of e))"
      using rep_distinct [OF r] by (simp add: carriers_def)
    finally show ?thesis using rep_lookup [OF r, of k] by (auto split: option.splits)
  qed
  then show ?thesis using b rep_length [OF r] rep_size [OF r] rep_store_size [OF r] by (simp add: bounded_def)
qed

end
