(* ===== verification/CodeUnits.thy ===== *)
theory CodeUnits
  imports Prelude "HOL-Library.Word"
begin

text \<open>
  JavaScript strings as lists of UTF-16 code units, and \<open>utils/utf8-byte-length.ts\<close>, which counts the bytes of
  the UTF-8 encoding without producing it.
\<close>

type_synonym code_unit = "16 word"
type_synonym js16 = "code_unit list"

text \<open>The width of the character at the front, and the number of code units it takes.\<close>

fun utf8_width :: "js16 \<Rightarrow> nat \<times> nat" where
  "utf8_width [] = (0, 1)"
| "utf8_width (c # cs) =
     (if c \<le> 0x7f then (1, 1)
      else if c \<le> 0x7ff then (2, 1)
      else if c \<ge> 0xd800 \<and> c \<le> 0xdbff \<and> cs \<noteq> [] then
        (if hd cs \<ge> 0xdc00 \<and> hd cs \<le> 0xdfff then (4, 2) else (3, 1))
      else (3, 1))"

text \<open>\<open>stopAfter\<close> is \<open>None\<close> for infinity.\<close>

function utf8_loop :: "nat option \<Rightarrow> nat \<Rightarrow> js16 \<Rightarrow> nat" where
  "utf8_loop stopAfter bytes [] = bytes"
| "utf8_loop stopAfter bytes (c # cs) =
     (case utf8_width (c # cs) of
        (width, units) \<Rightarrow>
          (case stopAfter of
             Some n \<Rightarrow> if bytes + width > n then n + 1
                       else utf8_loop stopAfter (bytes + width) (drop units (c # cs))
           | None \<Rightarrow> utf8_loop stopAfter (bytes + width) (drop units (c # cs))))"
  by pat_completeness auto
termination
  by (relation "measure (\<lambda>(s, b, v). length v)") (auto split: if_splits)

definition utf8ByteLength :: "js16 \<Rightarrow> nat option \<Rightarrow> nat" where
  "utf8ByteLength v stopAfter = utf8_loop stopAfter 0 v"

subsection \<open>The encoding it measures\<close>

definition is_surrogate :: "code_unit \<Rightarrow> bool" where
  "is_surrogate c \<longleftrightarrow> c \<ge> 0xd800 \<and> c \<le> 0xdfff"

text \<open>The code points of a string; a surrogate without its partner is replaced by U+FFFD.\<close>

fun code_points :: "js16 \<Rightarrow> nat list" where
  "code_points [] = []"
| "code_points [c] = [if is_surrogate c then 0xfffd else unat c]"
| "code_points (c # d # cs) =
     (if c \<ge> 0xd800 \<and> c \<le> 0xdbff \<and> d \<ge> 0xdc00 \<and> d \<le> 0xdfff
      then (0x10000 + (unat c - 0xd800) * 0x400 + (unat d - 0xdc00)) # code_points cs
      else (if is_surrogate c then 0xfffd else unat c) # code_points (d # cs))"

definition utf8_encode :: "nat \<Rightarrow> nat list" where
  "utf8_encode u =
     (if u < 0x80 then [u]
      else if u < 0x800 then [0xc0 + u div 0x40, 0x80 + u mod 0x40]
      else if u < 0x10000 then [0xe0 + u div 0x1000, 0x80 + u div 0x40 mod 0x40, 0x80 + u mod 0x40]
      else [0xf0 + u div 0x40000, 0x80 + u div 0x1000 mod 0x40, 0x80 + u div 0x40 mod 0x40, 0x80 + u mod 0x40])"

definition utf8_bytes :: "js16 \<Rightarrow> nat list" where
  "utf8_bytes v = concat (map utf8_encode (code_points v))"

lemma unat_le: "c \<le> n \<longleftrightarrow> unat c \<le> unat n" for c n :: code_unit
  by (rule word_le_nat_alt)

lemma utf8_bytes_step:
  "length (utf8_bytes (c # cs)) = fst (utf8_width (c # cs)) + length (utf8_bytes (drop (snd (utf8_width (c # cs))) (c # cs)))"
proof (cases cs)
  case Nil
  have "unat c < 0x10000" using unsigned_less [of c] by simp
  with Nil show ?thesis by (auto simp: utf8_bytes_def utf8_encode_def is_surrogate_def unat_le)
next
  case (Cons d ds)
  have "unat c < 0x10000" using unsigned_less [of c] by simp
  then show ?thesis by (auto simp: Cons utf8_bytes_def utf8_encode_def is_surrogate_def unat_le)
qed

declare utf8_width.simps [simp del]

lemma utf8_loop_unbounded: "utf8_loop None b v = b + length (utf8_bytes v)"
proof (induction "None :: nat option" b v rule: utf8_loop.induct)
  case (1 b)
  then show ?case by (simp add: utf8_bytes_def)
next
  case (2 b c cs)
  obtain w u where wu: "utf8_width (c # cs) = (w, u)" by (cases "utf8_width (c # cs)")
  with utf8_bytes_step [of c cs] have "length (utf8_bytes (c # cs)) = w + length (utf8_bytes (drop u (c # cs)))" by simp
  with 2 wu show ?case by simp
qed

lemma utf8_loop_bounded:
  "b \<le> n \<Longrightarrow> utf8_loop (Some n) b v = (if b + length (utf8_bytes v) \<le> n then b + length (utf8_bytes v) else n + 1)"
proof (induction "Some n" b v rule: utf8_loop.induct)
  case (1 b)
  then show ?case by (simp add: utf8_bytes_def)
next
  case (2 b c cs)
  obtain w u where wu: "utf8_width (c # cs) = (w, u)" by (cases "utf8_width (c # cs)")
  with utf8_bytes_step [of c cs] have "length (utf8_bytes (c # cs)) = w + length (utf8_bytes (drop u (c # cs)))" by simp
  with 2 wu show ?case by simp
qed

text \<open>The limit is checked against the number of code units first, which is no more than the number of bytes.\<close>

lemma units_le_bytes: "length v \<le> length (utf8_bytes v)"
proof (induction v rule: code_points.induct)
  case (3 c d cs)
  then show ?case by (auto simp: utf8_bytes_def utf8_encode_def)
qed (auto simp: utf8_bytes_def utf8_encode_def)

end
