(* ===== verification/SegmentCodec.thy ===== *)
theory SegmentCodec
  imports CodeUnits
begin

text \<open>
  The codec for segments of cache keys, \<open>cache/keys/segment-codec.ts\<close>: the literal encoding of an
  arbitrary JavaScript string. A string is a list of UTF-16 code units, words of 16 bits, so unpaired
  surrogates are ordinary values here, as they are for the code. The percent and base64 variants rest on
  \<open>encodeURIComponent\<close>, \<open>TextEncoder\<close> and \<open>btoa\<close> and are not modelled.
\<close>

subsection \<open>Hexadecimal digits\<close>

text \<open>\<open>Number.prototype.toString(16)\<close>, \<open>padStart\<close> and \<open>parseInt(_, 16)\<close> on lowercase digits.\<close>

definition hex_digit :: "nat \<Rightarrow> code_unit" where
  "hex_digit d = (if d < 10 then of_nat (0x30 + d) else of_nat (0x57 + d))"

fun to_hex :: "nat \<Rightarrow> js16" where
  "to_hex n = (if n < 16 then [hex_digit n] else to_hex (n div 16) @ [hex_digit (n mod 16)])"

declare to_hex.simps [simp del]

definition padStart :: "nat \<Rightarrow> code_unit \<Rightarrow> js16 \<Rightarrow> js16" where
  "padStart k c xs = replicate (k - length xs) c @ xs"

definition hex_value :: "code_unit \<Rightarrow> nat" where
  "hex_value c = (if c \<le> 0x39 then unat c - 0x30 else unat c - 0x57)"

definition parse_hex :: "js16 \<Rightarrow> nat" where
  "parse_hex ds = foldl (\<lambda>n d. n * 16 + hex_value d) 0 ds"

definition isLowercaseHexCodeUnit :: "js16 \<Rightarrow> bool" where
  "isLowercaseHexCodeUnit str \<longleftrightarrow> length str = 4 \<and>
     (\<forall>c \<in> set str. c \<ge> 0x30 \<and> c \<le> 0x39 \<or> c \<ge> 0x61 \<and> c \<le> 0x66)"

definition isCacheLiteralCodeUnit :: "code_unit \<Rightarrow> bool" where
  "isCacheLiteralCodeUnit c \<longleftrightarrow>
     c \<ge> 0x30 \<and> c \<le> 0x39 \<or> c \<ge> 0x41 \<and> c \<le> 0x5a \<or> c \<ge> 0x61 \<and> c \<le> 0x7a \<or> c = 0x2d \<or> c = 0x2e \<or> c = 0x2f"

subsection \<open>The codec\<close>

definition encode_unit :: "code_unit \<Rightarrow> js16" where
  "encode_unit c = (if isCacheLiteralCodeUnit c then [c] else 0x5f # padStart 4 0x30 (to_hex (unat c)))"

definition encodeCacheKeyLiteralSegment :: "js16 \<Rightarrow> js16" where
  "encodeCacheKeyLiteralSegment str = [0x73] @ concat (map encode_unit str) @ [0x5f]"

text \<open>The loop of the decoder over the units between the marker and the sentinel.\<close>

function decode_loop :: "js16 \<Rightarrow> js16 option" where
  "decode_loop [] = Some []"
| "decode_loop (c # cs) =
     (if isCacheLiteralCodeUnit c then map_option ((#) c) (decode_loop cs)
      else if c \<noteq> 0x5f \<or> length cs < 4 then None
      else
        (let escaped = take 4 cs; u = of_nat (parse_hex escaped) :: code_unit
         in if \<not> isLowercaseHexCodeUnit escaped then None
            else if isCacheLiteralCodeUnit u then None
            else map_option ((#) u) (decode_loop (drop 4 cs))))"
  by pat_completeness auto
termination
  by (relation "measure length") auto

definition decodeCacheKeyLiteralSegment :: "js16 \<Rightarrow> js16 option" where
  "decodeCacheKeyLiteralSegment encoded =
     (let terminalIndex = int (length encoded) - 1
      in if terminalIndex < 1 \<or> encoded ! 0 \<noteq> 0x73 \<or> last encoded \<noteq> 0x5f then None
         else
           (case decode_loop (butlast (tl encoded)) of
              None \<Rightarrow> None
            | Some decoded \<Rightarrow> if encodeCacheKeyLiteralSegment decoded = encoded then Some decoded else None))"

subsection \<open>Digits\<close>

lemma hex_digit_unat: "d < 16 \<Longrightarrow> unat (hex_digit d) = (if d < 10 then 0x30 + d else 0x57 + d)"
  by (simp add: hex_digit_def unat_of_nat del: of_nat_add of_nat_numeral)

lemma hex_digit_value: "d < 16 \<Longrightarrow> hex_value (hex_digit d) = d"
  by (simp add: hex_value_def word_le_nat_alt hex_digit_unat)

lemma hex_digit_lower: "d < 16 \<Longrightarrow> hex_digit d \<ge> 0x30 \<and> hex_digit d \<le> 0x39 \<or> hex_digit d \<ge> 0x61 \<and> hex_digit d \<le> 0x66"
  by (auto simp: word_le_nat_alt hex_digit_unat)

lemma parse_hex_snoc: "parse_hex (ds @ [d]) = parse_hex ds * 16 + hex_value d"
  by (simp add: parse_hex_def)

lemma parse_to_hex: "parse_hex (to_hex n) = n"
proof (induction n rule: to_hex.induct)
  case (1 n)
  show ?case
  proof (cases "n < 16")
    case True
    then show ?thesis by (simp add: to_hex.simps [of n] parse_hex_def hex_digit_value)
  next
    case False
    then show ?thesis using 1 by (simp add: to_hex.simps [of n] parse_hex_snoc hex_digit_value)
  qed
qed

lemma to_hex_lower: "c \<in> set (to_hex n) \<Longrightarrow> c \<ge> 0x30 \<and> c \<le> 0x39 \<or> c \<ge> 0x61 \<and> c \<le> 0x66"
proof (induction n rule: to_hex.induct)
  case (1 n)
  then show ?case using hex_digit_lower [of n] hex_digit_lower [of "n mod 16"]
    by (cases "n < 16") (auto simp: to_hex.simps [of n])
qed

lemma length_to_hex: "n < 16 ^ Suc k \<Longrightarrow> length (to_hex n) \<le> Suc k"
proof (induction k arbitrary: n)
  case 0
  then show ?case by (simp add: to_hex.simps [of n])
next
  case (Suc k)
  then have "n div 16 < 16 ^ Suc k" by (simp add: less_mult_imp_div_less mult.commute)
  from Suc.IH [OF this] show ?case by (subst to_hex.simps) simp
qed

lemma parse_pad: "parse_hex (replicate k 0x30 @ ds) = parse_hex ds"
proof -
  have "foldl (\<lambda>n d. n * 16 + hex_value d) 0 (replicate k 0x30) = 0"
    by (induction k) (simp_all add: hex_value_def)
  then show ?thesis by (simp add: parse_hex_def)
qed

text \<open>The escape of a code unit: four lowercase digits that parse to it.\<close>

lemma escape_digits:
  fixes c :: code_unit
  defines "ds \<equiv> padStart 4 0x30 (to_hex (unat c))"
  shows "length ds = 4" "isLowercaseHexCodeUnit ds" "of_nat (parse_hex ds) = c"
proof -
  have "unat c < 16 ^ Suc 3" using unsigned_less [of c] by simp
  from length_to_hex [OF this] show len: "length ds = 4" by (simp add: ds_def padStart_def)
  show "isLowercaseHexCodeUnit ds" using len to_hex_lower [of _ "unat c"]
    by (auto simp: isLowercaseHexCodeUnit_def ds_def padStart_def)
  show "of_nat (parse_hex ds) = c" by (simp add: ds_def padStart_def parse_pad parse_to_hex)
qed

lemma underscore_not_literal: "\<not> isCacheLiteralCodeUnit 0x5f"
  by (simp add: isCacheLiteralCodeUnit_def)

lemma decode_encoded: "decode_loop (concat (map encode_unit str)) = Some str"
proof (induction str)
  case (Cons c cs)
  show ?case
  proof (cases "isCacheLiteralCodeUnit c")
    case True
    then show ?thesis using Cons by (simp add: encode_unit_def)
  next
    case False
    let ?ds = "padStart 4 0x30 (to_hex (unat c))"
    have "take 4 (?ds @ xs) = ?ds" "drop 4 (?ds @ xs) = xs" "\<not> length (?ds @ xs) < 4" for xs
      using escape_digits(1) [of c] by simp_all
    then show ?thesis using Cons False escape_digits(2,3) [of c] underscore_not_literal
      by (simp add: encode_unit_def Let_def del: length_append)
  qed
qed simp

lemma encode_alphabet:
  "c \<in> set (encodeCacheKeyLiteralSegment str) \<Longrightarrow> isCacheLiteralCodeUnit c \<or> c = 0x5f"
proof -
  have "x \<in> set (encode_unit u) \<Longrightarrow> isCacheLiteralCodeUnit x \<or> x = 0x5f" for x u
    using escape_digits(2) [of u] by (auto simp: encode_unit_def isLowercaseHexCodeUnit_def isCacheLiteralCodeUnit_def word_le_nat_alt split: if_splits)
  then show "c \<in> set (encodeCacheKeyLiteralSegment str) \<Longrightarrow> ?thesis"
    by (auto simp: encodeCacheKeyLiteralSegment_def isCacheLiteralCodeUnit_def)
qed

text \<open>The literal encoding of cache-key segments loses nothing: a segment decodes to a string exactly
  when it is the encoding of that string, for every string of code units, unpaired surrogates included. An
  encoded segment contains only letters, digits, hyphen, dot, slash and underscore, so no delimiter or glob
  character, and ends with an underscore.\<close>

theorem literal_segment_exact_inverse:
  "(decodeCacheKeyLiteralSegment encoded = Some str) = (encodeCacheKeyLiteralSegment str = encoded) \<and>
   last (encodeCacheKeyLiteralSegment str) = 0x5f \<and> 0x3a \<notin> set (encodeCacheKeyLiteralSegment str) \<and>
   0x2a \<notin> set (encodeCacheKeyLiteralSegment str)"
proof -
  have "decodeCacheKeyLiteralSegment (encodeCacheKeyLiteralSegment str) = Some str"
    using decode_encoded [of str]
    by (simp add: decodeCacheKeyLiteralSegment_def encodeCacheKeyLiteralSegment_def Let_def butlast_append)
  moreover have "decodeCacheKeyLiteralSegment encoded = Some str \<Longrightarrow> encodeCacheKeyLiteralSegment str = encoded"
    by (auto simp: decodeCacheKeyLiteralSegment_def Let_def split: if_splits option.splits)
  moreover have "last (encodeCacheKeyLiteralSegment str) = 0x5f" by (simp add: encodeCacheKeyLiteralSegment_def)
  ultimately show ?thesis using encode_alphabet [of "0x3a" str] encode_alphabet [of "0x2a" str]
    by (auto simp: isCacheLiteralCodeUnit_def)
qed

end
