(* ===== verification/DependencyGraph.thy ===== *)
theory DependencyGraph
  imports Prelude "HOL-Library.Char_ord" "HOL-Library.List_Lexorder"
begin

text \<open>
  The dependency graph for cache invalidation, \<open>cache/dependency-graph.ts\<close>: the class
  \<open>DependencyGraph\<close> with its two maps, the traversals, and the resolution of import specifiers. The builder
  that scans modules and hashes what they depend on, and its invalidation, are in \<open>DependencyCache\<close>.
\<close>

type_synonym dep_map = "(string \<times> string list) list"

definition deps_of :: "dep_map \<Rightarrow> string \<Rightarrow> string list" where
  "deps_of m f = (case jm_get m f of None \<Rightarrow> [] | Some ds \<Rightarrow> ds)"

record module_graph =
  mg_dependencies :: dep_map
  mg_dependents :: dep_map

definition empty_module_graph :: module_graph where
  "empty_module_graph = \<lparr>mg_dependencies = [], mg_dependents = []\<rparr>"

subsection \<open>Changing the graph\<close>

text \<open>\<open>dependents.get(dep)?.delete(filePath)\<close>\<close>

definition drop_dependent :: "string \<Rightarrow> string \<Rightarrow> dep_map \<Rightarrow> dep_map" where
  "drop_dependent f dep m =
     (case jm_get m dep of None \<Rightarrow> m | Some s \<Rightarrow> jm_set dep (filter (\<lambda>x. x \<noteq> f) s) m)"

definition add_dependent :: "string \<Rightarrow> string \<Rightarrow> dep_map \<Rightarrow> dep_map" where
  "add_dependent f dep m = jm_set dep (set_add f (deps_of m dep)) m"

definition addModule :: "string \<Rightarrow> string list \<Rightarrow> module_graph \<Rightarrow> module_graph" where
  "addModule f dependencies g =
     (let nextDeps = set_of_list dependencies;
          old = filter (\<lambda>d. d \<notin> set nextDeps) (deps_of (mg_dependencies g) f);
          m = fold (drop_dependent f) old (mg_dependents g)
      in \<lparr>mg_dependencies = jm_set f nextDeps (mg_dependencies g), mg_dependents = fold (add_dependent f) nextDeps m\<rparr>)"

definition prune_dependent :: "string \<Rightarrow> string \<Rightarrow> dep_map \<Rightarrow> dep_map" where
  "prune_dependent f dep m =
     (case jm_get m dep of
        None \<Rightarrow> m
      | Some s \<Rightarrow> (let s1 = filter (\<lambda>x. x \<noteq> f) s in if s1 = [] then jm_del dep m else jm_set dep s1 m))"

definition removeModule :: "string \<Rightarrow> module_graph \<Rightarrow> module_graph" where
  "removeModule f g =
     \<lparr>mg_dependencies = jm_del f (mg_dependencies g),
      mg_dependents = fold (prune_dependent f) (deps_of (mg_dependencies g) f) (mg_dependents g)\<rparr>"

definition getDirectDependencies :: "string \<Rightarrow> module_graph \<Rightarrow> string list" where
  "getDirectDependencies f g = deps_of (mg_dependencies g) f"

definition getAllModules :: "module_graph \<Rightarrow> string list" where
  "getAllModules g = jm_keys (mg_dependencies g)"

subsection \<open>Traversals\<close>

text \<open>\<open>collectDeps\<close> and \<open>collectDependents\<close> are one function of the map they follow. The first argument
  bounds the depth of the recursion; \<open>collect_fuel\<close> is enough, which \<open>collect_reaches\<close> proves.\<close>

type_synonym walk = "string list \<times> string list"

function collect :: "nat \<Rightarrow> dep_map \<Rightarrow> string \<Rightarrow> walk \<Rightarrow> walk option"
  and collect_loop :: "nat \<Rightarrow> dep_map \<Rightarrow> string list \<Rightarrow> walk \<Rightarrow> walk option" where
  "collect 0 m f w = None"
| "collect (Suc k) m f (visited, path) =
     (if f \<in> set path \<or> f \<in> set visited then Some (visited, path)
      else case collect_loop k m (deps_of m f) (set_add f visited, set_add f path) of
        None \<Rightarrow> None
      | Some (visited1, path1) \<Rightarrow> Some (visited1, filter (\<lambda>x. x \<noteq> f) path1))"
| "collect_loop k m [] w = Some w"
| "collect_loop k m (d # ds) w =
     (case collect k m d w of None \<Rightarrow> None | Some w1 \<Rightarrow> collect_loop k m ds w1)"
  by pat_completeness auto
termination
  by (relation "measures [\<lambda>x. case x of Inl (k, _) \<Rightarrow> k | Inr (k, _) \<Rightarrow> k,
        \<lambda>x. case x of Inl _ \<Rightarrow> 0 | Inr (_, _, ds, _) \<Rightarrow> Suc (length ds)]") auto

definition collect_fuel :: "dep_map \<Rightarrow> nat" where
  "collect_fuel m = length (concat (map snd m)) + 2"

definition closure_of :: "dep_map \<Rightarrow> string \<Rightarrow> string list" where
  "closure_of m f =
     (case collect (collect_fuel m) m f ([], []) of None \<Rightarrow> [] | Some (visited, _) \<Rightarrow> filter (\<lambda>x. x \<noteq> f) visited)"

definition getTransitiveDependencies :: "string \<Rightarrow> module_graph \<Rightarrow> string list" where
  "getTransitiveDependencies f g = closure_of (mg_dependencies g) f"

definition getDependents :: "string \<Rightarrow> module_graph \<Rightarrow> string list" where
  "getDependents f g = closure_of (mg_dependents g) f"

text \<open>\<open>hasTransitiveDependency\<close> stops at the first edge into the target.\<close>

function has_dep :: "nat \<Rightarrow> dep_map \<Rightarrow> string \<Rightarrow> string \<Rightarrow> walk \<Rightarrow> (bool \<times> walk) option"
  and has_dep_loop :: "nat \<Rightarrow> dep_map \<Rightarrow> string \<Rightarrow> string list \<Rightarrow> walk \<Rightarrow> (bool \<times> walk) option" where
  "has_dep 0 m target f w = None"
| "has_dep (Suc k) m target f (visited, path) =
     (if f \<in> set path \<or> f \<in> set visited then Some (False, visited, path)
      else case has_dep_loop k m target (deps_of m f) (set_add f visited, set_add f path) of
        None \<Rightarrow> None
      | Some (found, visited1, path1) \<Rightarrow> Some (found, visited1, filter (\<lambda>x. x \<noteq> f) path1))"
| "has_dep_loop k m target [] w = Some (False, w)"
| "has_dep_loop k m target (d # ds) w =
     (if d = target then Some (True, w)
      else case has_dep k m target d w of
        None \<Rightarrow> None
      | Some (found, w1) \<Rightarrow> if found then Some (True, w1) else has_dep_loop k m target ds w1)"
  by pat_completeness auto
termination
  by (relation "measures [\<lambda>x. case x of Inl (k, _) \<Rightarrow> k | Inr (k, _) \<Rightarrow> k,
        \<lambda>x. case x of Inl _ \<Rightarrow> 0 | Inr (_, _, _, ds, _) \<Rightarrow> Suc (length ds)]") auto

definition hasTransitiveDependency :: "string \<Rightarrow> string \<Rightarrow> module_graph \<Rightarrow> bool" where
  "hasTransitiveDependency f target g =
     (case has_dep (collect_fuel (mg_dependencies g)) (mg_dependencies g) target f ([], []) of
        None \<Rightarrow> False | Some (found, _) \<Rightarrow> found)"

definition wouldCreateCycle :: "string \<Rightarrow> string \<Rightarrow> module_graph \<Rightarrow> bool" where
  "wouldCreateCycle from to g = hasTransitiveDependency to from g"

subsection \<open>Specifiers\<close>

definition filterLocalImports :: "string list \<Rightarrow> string list" where
  "filterLocalImports specifiers =
     filter (\<lambda>s. \<not> starts_with s ''#veryfront/'' \<and>
       (starts_with s ''./'' \<or> starts_with s ''../'' \<or> starts_with s ''@/'' \<or> starts_with s ''file://'')) specifiers"

definition path_parts :: "string \<Rightarrow> string list" where
  "path_parts s = filter (\<lambda>p. p \<noteq> []) (split_on (CHR ''/'') s)"

definition dir_of :: "string \<Rightarrow> string" where
  "dir_of f = (if CHR ''/'' \<in> set f then rev (tl (dropWhile (\<lambda>c. c \<noteq> CHR ''/'') (rev f))) else [])"

definition walk_part :: "string \<Rightarrow> string list \<Rightarrow> string list" where
  "walk_part part parts =
     (if part = ''..'' then butlast parts else if part \<noteq> ''.'' then parts @ [part] else parts)"

definition script_suffixes :: "string list" where
  "script_suffixes = [''.js'', ''.jsx'', ''.ts'', ''.tsx'', ''.cjs'', ''.cjsx'', ''.cts'', ''.ctsx'',
     ''.mjs'', ''.mjsx'', ''.mts'', ''.mtsx'', ''.md'', ''.mdx'']"

definition normalizeExtension :: "string \<Rightarrow> string" where
  "normalizeExtension path =
     (if ends_with path ''.tsx'' \<or> ends_with path ''.jsx'' then take (length path - 4) path @ ''.js''
      else if ends_with path ''.ts'' then take (length path - 3) path @ ''.js'' else path)"

definition normalizeDependencyPath :: "string \<Rightarrow> string \<Rightarrow> string" where
  "normalizeDependencyPath path fromFile =
     (if ends_with fromFile ''.src'' \<and> \<not> ends_with path ''.src'' \<and> (\<exists>s \<in> set script_suffixes. ends_with path s)
      then path @ ''.src'' else normalizeExtension path)"

definition normalizeSpecifierToPath :: "string \<Rightarrow> string \<Rightarrow> string \<Rightarrow> string" where
  "normalizeSpecifierToPath specifier fromFile projectDir =
     (if starts_with specifier ''@/'' then
        normalizeDependencyPath (projectDir @ ''/'' @ drop 2 specifier) fromFile
      else if starts_with specifier ''./'' \<or> starts_with specifier ''../'' then
        normalizeDependencyPath
          (''/'' @ join_with ''/'' (fold walk_part (path_parts specifier) (path_parts (dir_of fromFile)))) fromFile
      else if starts_with specifier ''file://'' then normalizeDependencyPath (drop 7 specifier) fromFile
      else specifier)"

subsection \<open>What a traversal visits\<close>

definition edges :: "dep_map \<Rightarrow> (string \<times> string) set" where
  "edges m = {(f, d). d \<in> set (deps_of m f)}"

lemma edges_iff [simp]: "(f, d) \<in> edges m \<longleftrightarrow> d \<in> set (deps_of m f)"
  by (simp add: edges_def)

lemma edges_image [simp]: "edges m `` {f} = set (deps_of m f)"
  by auto

lemma deps_of_in_values: "d \<in> set (deps_of m f) \<Longrightarrow> d \<in> set (concat (map snd m))"
  by (cases "jm_get m f") (force simp: deps_of_def dest: map_of_SomeD)+

text \<open>Nodes visited during a walk are closed under the edges, up to what was visited before.\<close>

definition walked :: "dep_map \<Rightarrow> string set \<Rightarrow> string set \<Rightarrow> string set \<Rightarrow> bool" where
  "walked m start vis vis' \<longleftrightarrow>
     vis \<union> start \<subseteq> vis' \<and> vis' \<subseteq> vis \<union> (edges m)\<^sup>* `` start \<and>
     (\<forall>x \<in> vis' - vis. set (deps_of m x) \<subseteq> vis')"

lemma walked_empty: "walked m {} vis vis"
  by (simp add: walked_def)

lemma walked_visited: "f \<in> vis \<Longrightarrow> walked m {f} vis vis"
  by (simp add: walked_def)

lemma walked_node: "walked m (set (deps_of m f)) (insert f vis) vis' \<Longrightarrow> walked m {f} vis vis'"
proof -
  assume w: "walked m (set (deps_of m f)) (insert f vis) vis'"
  have "(edges m)\<^sup>* `` set (deps_of m f) \<subseteq> (edges m)\<^sup>* `` {f}"
    by (auto intro: converse_rtrancl_into_rtrancl)
  then show ?thesis using w unfolding walked_def by blast
qed

lemma walked_cons: "walked m {d} vis vis1 \<Longrightarrow> walked m ds vis1 vis2 \<Longrightarrow> walked m (insert d ds) vis vis2"
  unfolding walked_def by blast

lemma walked_from_nothing: "walked m {f} {} vis' \<Longrightarrow> vis' = (edges m)\<^sup>* `` {f}"
proof -
  assume w: "walked m {f} {} vis'"
  have "b \<in> vis'" if "(f, b) \<in> (edges m)\<^sup>*" for b
    using that by induction (use w in \<open>auto simp: walked_def subset_eq\<close>)
  then show ?thesis using w by (auto simp: walked_def)
qed

lemma collect_walks:
  "collect k m f w = Some w' \<Longrightarrow> set (snd w) \<subseteq> set (fst w) \<Longrightarrow>
     set (snd w') = set (snd w) \<and> walked m {f} (set (fst w)) (set (fst w'))"
  "collect_loop k m ds w = Some w' \<Longrightarrow> set (snd w) \<subseteq> set (fst w) \<Longrightarrow>
     set (snd w') = set (snd w) \<and> walked m (set ds) (set (fst w)) (set (fst w'))"
proof (induction k m f w and k m ds w arbitrary: w' and w' rule: collect_collect_loop.induct)
  case (2 k m f visited path)
  show ?case
  proof (cases "f \<in> set path \<or> f \<in> set visited")
    case True
    then show ?thesis using 2 by (auto intro: walked_visited)
  next
    case False
    then obtain w1 where w1: "collect_loop k m (deps_of m f) (set_add f visited, set_add f path) = Some w1"
      and w': "w' = (fst w1, filter (\<lambda>x. x \<noteq> f) (snd w1))"
      using 2(2) by (auto split: option.splits)
    have "set (snd w1) = insert f (set path) \<and> walked m (set (deps_of m f)) (insert f (set visited)) (set (fst w1))"
      using 2(1)[OF False w1] 2(3) by auto
    then show ?thesis using False w' by (auto intro: walked_node)
  qed
next
  case (4 k m d ds w)
  then obtain w1 where w1: "collect k m d w = Some w1" "collect_loop k m ds w1 = Some w'"
    by (auto split: option.splits)
  have a: "set (snd w1) = set (snd w) \<and> walked m {d} (set (fst w)) (set (fst w1))"
    using 4(1)[OF w1(1) 4(4)] .
  moreover have "set (snd w1) \<subseteq> set (fst w1)"
    using a 4(4) by (auto simp: walked_def)
  ultimately show ?case using 4(2)[OF w1(1) w1(2)] walked_cons by auto
qed (auto intro: walked_empty)

lemma card_insert_less: "finite V \<Longrightarrow> f \<in> V \<Longrightarrow> f \<notin> vis \<Longrightarrow> card (V - insert f vis) < card (V - vis)"
  by (rule psubset_card_mono) auto

lemma collect_returns:
  assumes V: "finite V" "\<And>g. set (deps_of m g) \<subseteq> V"
  shows "card (V - set (fst w)) < k \<Longrightarrow> f \<in> V \<Longrightarrow> set (snd w) \<subseteq> set (fst w) \<Longrightarrow> \<exists>w'. collect k m f w = Some w'"
    "card (V - set (fst w)) < k \<Longrightarrow> set ds \<subseteq> V \<Longrightarrow> set (snd w) \<subseteq> set (fst w) \<Longrightarrow>
       \<exists>w'. collect_loop k m ds w = Some w'"
  using V(2)
proof (induction k m f w and k m ds w rule: collect_collect_loop.induct)
  case (2 k m f visited path)
  show ?case
  proof (cases "f \<in> set path \<or> f \<in> set visited")
    case False
    have "card (V - set (fst (set_add f visited, set_add f path))) < k"
      using card_insert_less[OF V(1) 2(3), of "set visited"] False 2(2) by simp
    then show ?thesis using 2(1)[OF False _ 2(5)] 2(4) 2(5) False by (auto split: option.splits)
  qed auto
next
  case (4 k m d ds w)
  obtain w1 where w1: "collect k m d w = Some w1" using 4(1)[OF 4(3) _ 4(5) 4(6)] 4(4) by auto
  have w: "set (snd w1) = set (snd w) \<and> walked m {d} (set (fst w)) (set (fst w1))"
    using collect_walks(1)[OF w1 4(5)] .
  then have "card (V - set (fst w1)) \<le> card (V - set (fst w))"
    using V(1) by (auto simp: walked_def intro!: card_mono)
  moreover have "set (snd w1) \<subseteq> set (fst w1)" using w 4(5) by (auto simp: walked_def)
  ultimately show ?case using 4(2)[OF w1 _ _ _ 4(6)] 4(3,4) w1 by auto
qed auto

lemma collect_fuel_enough:
  "finite (insert f (set (concat (map snd m))))"
  "card (insert f (set (concat (map snd m))) - set []) < collect_fuel m"
proof -
  have "card (set (concat (map snd m))) \<le> length (concat (map snd m))" by (rule card_length)
  then show "card (insert f (set (concat (map snd m))) - set []) < collect_fuel m"
    unfolding collect_fuel_def by (simp add: card_insert_if)
qed simp

lemma collect_reaches:
  "\<exists>visited path. collect (collect_fuel m) m f ([], []) = Some (visited, path) \<and> set visited = (edges m)\<^sup>* `` {f}"
proof -
  define V where "V = insert f (set (concat (map snd m)))"
  have V: "finite V" "\<And>g. set (deps_of m g) \<subseteq> V" "card (V - set []) < collect_fuel m"
    using collect_fuel_enough by (auto simp: V_def dest: deps_of_in_values simp del: set_concat)
  obtain w where w: "collect (collect_fuel m) m f ([], []) = Some w"
    using collect_returns(1)[OF V(1,2), of "([], [])" "collect_fuel m" f] V(3) by (auto simp: V_def)
  show ?thesis
    using collect_walks(1)[OF w] w walked_from_nothing by (cases w) auto
qed

lemma set_closure_of: "set (closure_of m f) = (edges m)\<^sup>* `` {f} - {f}"
proof -
  obtain visited path where "collect (collect_fuel m) m f ([], []) = Some (visited, path)"
    "set visited = (edges m)\<^sup>* `` {f}"
    using collect_reaches by blast
  then show ?thesis by (simp add: closure_of_def set_diff_eq)
qed

lemma has_dep_found:
  "has_dep k m t f w = Some (True, w') \<Longrightarrow> (f, t) \<in> (edges m)\<^sup>+"
  "has_dep_loop k m t ds w = Some (True, w') \<Longrightarrow> \<exists>d \<in> set ds. (d, t) \<in> (edges m)\<^sup>*"
proof (induction k m t f w and k m t ds w arbitrary: w' and w' rule: has_dep_has_dep_loop.induct)
  case (2 k m t f visited path)
  then have not: "\<not> (f \<in> set path \<or> f \<in> set visited)" by auto
  then obtain w1 where "has_dep_loop k m t (deps_of m f) (set_add f visited, set_add f path) = Some (True, w1)"
    using 2(2) by (auto split: option.splits)
  from 2(1)[OF not this] obtain d where "(f, d) \<in> edges m" "(d, t) \<in> (edges m)\<^sup>*" by auto
  then show ?case by (rule rtrancl_into_trancl2)
next
  case (4 k m t d ds w)
  show ?case
  proof (cases "d = t")
    case False
    then obtain found w1 where w1: "has_dep k m t d w = Some (found, w1)"
      "if found then True else has_dep_loop k m t ds w1 = Some (True, w')"
      using 4(3) by (auto split: option.splits if_splits)
    then show ?thesis using 4(1)[OF False, of w1] 4(2)[OF False w1(1) refl, of w'] by (cases found) auto
  qed auto
qed auto

lemma has_dep_not_found:
  "has_dep k m t f w = Some (False, w') \<Longrightarrow> set (snd w) \<subseteq> set (fst w) \<Longrightarrow>
     set (snd w') = set (snd w) \<and> walked m {f} (set (fst w)) (set (fst w')) \<and>
     (\<forall>x \<in> set (fst w') - set (fst w). t \<notin> set (deps_of m x))"
  "has_dep_loop k m t ds w = Some (False, w') \<Longrightarrow> set (snd w) \<subseteq> set (fst w) \<Longrightarrow>
     set (snd w') = set (snd w) \<and> walked m (set ds) (set (fst w)) (set (fst w')) \<and> t \<notin> set ds \<and>
     (\<forall>x \<in> set (fst w') - set (fst w). t \<notin> set (deps_of m x))"
proof (induction k m t f w and k m t ds w arbitrary: w' and w' rule: has_dep_has_dep_loop.induct)
  case (2 k m t f visited path)
  show ?case
  proof (cases "f \<in> set path \<or> f \<in> set visited")
    case True
    then show ?thesis using 2 by (auto intro: walked_visited)
  next
    case False
    then obtain w1 where w1: "has_dep_loop k m t (deps_of m f) (set_add f visited, set_add f path) = Some (False, w1)"
      and w': "w' = (fst w1, filter (\<lambda>x. x \<noteq> f) (snd w1))"
      using 2(2) by (auto split: option.splits)
    have "set (snd w1) = insert f (set path) \<and> walked m (set (deps_of m f)) (insert f (set visited)) (set (fst w1)) \<and>
      t \<notin> set (deps_of m f) \<and> (\<forall>x \<in> set (fst w1) - insert f (set visited). t \<notin> set (deps_of m x))"
      using 2(1)[OF False w1] 2(3) by auto
    then show ?thesis using False w' by (auto intro: walked_node)
  qed
next
  case (4 k m t d ds w)
  then have d: "d \<noteq> t" by auto
  then obtain w1 where w1: "has_dep k m t d w = Some (False, w1)" "has_dep_loop k m t ds w1 = Some (False, w')"
    using 4(3) by (auto split: option.splits if_splits)
  note a = 4(1)[OF d w1(1) 4(4)]
  moreover have "set (snd w1) \<subseteq> set (fst w1)"
    using a 4(4) by (auto simp: walked_def)
  ultimately show ?case using 4(2)[OF d w1(1) refl _ w1(2)] walked_cons d by auto
qed (auto intro: walked_empty)

lemma has_dep_returns:
  assumes V: "finite V" "\<And>g. set (deps_of m g) \<subseteq> V"
  shows "card (V - set (fst w)) < k \<Longrightarrow> f \<in> V \<Longrightarrow> set (snd w) \<subseteq> set (fst w) \<Longrightarrow> has_dep k m t f w \<noteq> None"
    "card (V - set (fst w)) < k \<Longrightarrow> set ds \<subseteq> V \<Longrightarrow> set (snd w) \<subseteq> set (fst w) \<Longrightarrow> has_dep_loop k m t ds w \<noteq> None"
  using V(2)
proof (induction k m t f w and k m t ds w rule: has_dep_has_dep_loop.induct)
  case (2 k m t f visited path)
  show ?case
  proof (cases "f \<in> set path \<or> f \<in> set visited")
    case False
    have "card (V - set (fst (set_add f visited, set_add f path))) < k"
      using card_insert_less[OF V(1) 2(3), of "set visited"] False 2(2) by simp
    then show ?thesis using 2(1)[OF False _ 2(5)] 2(4) 2(5) False by (auto split: option.splits)
  qed auto
next
  case (4 k m t d ds w)
  show ?case
  proof (cases "d = t")
    case False
    then have "has_dep k m t d w \<noteq> None" using 4(1)[OF False 4(3) _ 4(5) 4(6)] 4(4) by auto
    then obtain found w1 where w1: "has_dep k m t d w = Some (found, w1)" by auto
    show ?thesis
    proof (cases found)
      case found: False
      have w: "set (snd w1) = set (snd w) \<and> walked m {d} (set (fst w)) (set (fst w1))"
        using has_dep_not_found(1)[of k m t d w w1] w1 4(5) found by simp
      then have "card (V - set (fst w1)) \<le> card (V - set (fst w))"
        using V(1) by (auto simp: walked_def intro!: card_mono)
      moreover have "set (snd w1) \<subseteq> set (fst w1)" using w 4(5) by (auto simp: walked_def)
      ultimately show ?thesis using 4(2)[OF False w1 refl found _ _ _ 4(6)] 4(3,4) w1 False found by auto
    qed (use w1 False in auto)
  qed auto
qed auto

lemma hasTransitiveDependency_iff:
  "hasTransitiveDependency f t g \<longleftrightarrow> (f, t) \<in> (edges (mg_dependencies g))\<^sup>+"
proof -
  define m where "m = mg_dependencies g"
  define V where "V = insert f (set (concat (map snd m)))"
  have V: "finite V" "\<And>h. set (deps_of m h) \<subseteq> V" "card (V - set []) < collect_fuel m"
    using collect_fuel_enough by (auto simp: V_def dest: deps_of_in_values simp del: set_concat)
  have "has_dep (collect_fuel m) m t f ([], []) \<noteq> None"
    using has_dep_returns(1)[OF V(1,2), of "([], [])" "collect_fuel m" f t] V(3) by (auto simp: V_def)
  then obtain found w where r: "has_dep (collect_fuel m) m t f ([], []) = Some (found, w)" by auto
  have "found \<longleftrightarrow> (f, t) \<in> (edges m)\<^sup>+"
  proof (cases found)
    case True
    then show ?thesis using has_dep_found(1) r by simp
  next
    case False
    have w: "walked m {f} {} (set (fst w))" "\<forall>x \<in> set (fst w). t \<notin> set (deps_of m x)"
      using has_dep_not_found(1)[of "collect_fuel m" m t f "([], [])" w] r False by auto
    have "(f, t) \<notin> (edges m)\<^sup>+"
    proof
      assume "(f, t) \<in> (edges m)\<^sup>+"
      then obtain u where "(f, u) \<in> (edges m)\<^sup>*" "(u, t) \<in> edges m" by (meson tranclD2)
      then show False using w walked_from_nothing[OF w(1)] by auto
    qed
    then show ?thesis using False by simp
  qed
  then show ?thesis using r by (simp add: hasTransitiveDependency_def m_def)
qed

text \<open>Asked before an edge is added to a graph without cycles, \<open>wouldCreateCycle\<close> answers exactly whether the
  edge closes a cycle; the traversal behind it ends on every graph, cyclic or not. The edge from a module to
  itself is the one it does not report.\<close>

theorem wouldCreateCycle_exact:
  assumes "acyclic (edges (mg_dependencies g))"
  shows "wouldCreateCycle from to g \<longleftrightarrow> from \<noteq> to \<and> \<not> acyclic (insert (from, to) (edges (mg_dependencies g)))"
proof -
  have "wouldCreateCycle from to g \<longleftrightarrow> (to, from) \<in> (edges (mg_dependencies g))\<^sup>+"
    by (simp add: wouldCreateCycle_def hasTransitiveDependency_iff)
  also have "\<dots> \<longleftrightarrow> from \<noteq> to \<and> (to, from) \<in> (edges (mg_dependencies g))\<^sup>*"
    using assms by (auto simp: acyclic_def rtrancl_eq_or_trancl)
  finally show ?thesis using assms by simp
qed

subsection \<open>The two maps are inverse to each other\<close>

definition inverse_maps :: "module_graph \<Rightarrow> bool" where
  "inverse_maps g \<longleftrightarrow> edges (mg_dependents g) = (edges (mg_dependencies g))\<inverse>"

lemma inverse_mapsI:
  "(\<And>f d. f \<in> set (deps_of (mg_dependents g) d) \<longleftrightarrow> d \<in> set (deps_of (mg_dependencies g) f)) \<Longrightarrow> inverse_maps g"
  by (auto simp: inverse_maps_def)

lemma inverse_mapsD:
  "inverse_maps g \<Longrightarrow> f \<in> set (deps_of (mg_dependents g) d) \<longleftrightarrow> d \<in> set (deps_of (mg_dependencies g) f)"
  unfolding inverse_maps_def by (metis converse_iff edges_iff)

lemma deps_of_set: "deps_of (jm_set k v m) f = (if f = k then v else deps_of m f)"
  by (simp add: deps_of_def jsmap_simps)

lemma deps_of_del: "deps_of (jm_del k m) f = (if f = k then [] else deps_of m f)"
  by (simp add: deps_of_def jsmap_simps)

lemmas deps_of_simps = deps_of_set deps_of_del

lemma deps_of_drop_dependent:
  "set (deps_of (drop_dependent f dep m) d) = (if d = dep then set (deps_of m d) - {f} else set (deps_of m d))"
  unfolding drop_dependent_def by (auto simp: deps_of_simps split: option.splits) (auto simp: deps_of_def)

lemma deps_of_prune_dependent:
  "set (deps_of (prune_dependent f dep m) d) = (if d = dep then set (deps_of m d) - {f} else set (deps_of m d))"
  unfolding prune_dependent_def
  by (auto simp: deps_of_simps Let_def filter_empty_conv split: option.splits) (auto simp: deps_of_def)

lemma deps_of_add_dependent:
  "set (deps_of (add_dependent f dep m) d) = (if d = dep then insert f (set (deps_of m d)) else set (deps_of m d))"
  by (simp add: add_dependent_def deps_of_set)

lemma deps_of_fold_drop:
  "set (deps_of (fold (drop_dependent f) ds m) d) = (if d \<in> set ds then set (deps_of m d) - {f} else set (deps_of m d))"
  by (induction ds arbitrary: m) (auto simp: deps_of_drop_dependent)

lemma deps_of_fold_prune:
  "set (deps_of (fold (prune_dependent f) ds m) d) = (if d \<in> set ds then set (deps_of m d) - {f} else set (deps_of m d))"
  by (induction ds arbitrary: m) (auto simp: deps_of_prune_dependent)

lemma deps_of_fold_add:
  "set (deps_of (fold (add_dependent f) ds m) d) =
     (if d \<in> set ds then insert f (set (deps_of m d)) else set (deps_of m d))"
  by (induction ds arbitrary: m) (auto simp: deps_of_add_dependent)

lemma addModule_dependencies:
  "deps_of (mg_dependencies (addModule f ds g)) p = (if p = f then set_of_list ds else deps_of (mg_dependencies g) p)"
  by (simp add: addModule_def Let_def deps_of_set)

lemma removeModule_dependencies:
  "deps_of (mg_dependencies (removeModule f g)) p = (if p = f then [] else deps_of (mg_dependencies g) p)"
  by (simp add: removeModule_def deps_of_del)

lemma addModule_inverse: "inverse_maps g \<Longrightarrow> inverse_maps (addModule f ds g)"
  by (rule inverse_mapsI)
    (auto simp: addModule_def Let_def deps_of_fold_add deps_of_fold_drop deps_of_set inverse_mapsD split: if_splits)

lemma removeModule_inverse: "inverse_maps g \<Longrightarrow> inverse_maps (removeModule f g)"
  by (rule inverse_mapsI)
    (auto simp: removeModule_def deps_of_fold_prune deps_of_del inverse_mapsD split: if_splits)

lemma empty_inverse [simp]: "inverse_maps empty_module_graph"
  by (simp add: inverse_maps_def empty_module_graph_def edges_def deps_of_def)

lemma set_getDependents:
  "inverse_maps g \<Longrightarrow> set (getDependents f g) = {p. (p, f) \<in> (edges (mg_dependencies g))\<^sup>*} - {f}"
  by (auto simp: getDependents_def set_closure_of inverse_maps_def rtrancl_converse)

lemma set_getTransitiveDependencies:
  "set (getTransitiveDependencies f g) = (edges (mg_dependencies g))\<^sup>* `` {f} - {f}"
  by (simp add: getTransitiveDependencies_def set_closure_of)

datatype graph_edit = GAdd string "string list" | GRemove string | GClear

fun edit_graph :: "graph_edit \<Rightarrow> module_graph \<Rightarrow> module_graph" where
  "edit_graph (GAdd f ds) g = addModule f ds g"
| "edit_graph (GRemove f) g = removeModule f g"
| "edit_graph GClear g = empty_module_graph"

lemma edit_graph_inverse: "inverse_maps g \<Longrightarrow> inverse_maps (edit_graph e g)"
  by (cases e) (auto intro: addModule_inverse removeModule_inverse)

lemma edits_inverse: "inverse_maps g \<Longrightarrow> inverse_maps (fold edit_graph es g)"
  by (induction es arbitrary: g) (auto intro: edit_graph_inverse)

text \<open>After any sequence of modules added, replaced and removed, the two maps agree: a module is among the
  dependents of a file exactly when the file is among its transitive dependencies, so that following the
  dependents finds every module an edit of the file affects and no other; also when imports form cycles.\<close>

theorem dependents_are_importers:
  "p \<in> set (getDependents f (fold edit_graph es empty_module_graph)) \<longleftrightarrow>
     f \<in> set (getTransitiveDependencies p (fold edit_graph es empty_module_graph))"
  using set_getDependents[OF edits_inverse[OF empty_inverse]]
  by (auto simp: set_getTransitiveDependencies)

lemma collect_distinct:
  "collect k m f w = Some w' \<Longrightarrow> distinct (fst w) \<Longrightarrow> distinct (fst w')"
  "collect_loop k m ds w = Some w' \<Longrightarrow> distinct (fst w) \<Longrightarrow> distinct (fst w')"
  by (induction k m f w and k m ds w arbitrary: w' and w' rule: collect_collect_loop.induct)
    (auto split: option.splits if_splits)

lemma distinct_getTransitiveDependencies: "distinct (getTransitiveDependencies f g)"
  using collect_distinct(1)[of _ "mg_dependencies g" f "([], [])"]
  by (auto simp: getTransitiveDependencies_def closure_of_def split: option.splits)

end
