(* ===== verification/DependencyCache.thy ===== *)
theory DependencyCache
  imports DependencyGraph
begin

text \<open>
  The hash cache of \<open>cache/dependency-graph.ts\<close>: the builder that scans a module and what it imports, the hash of
  a module with its dependencies, and invalidation. A cache that was filled by earlier builds and invalidated
  after every edit gives the hash that a scan from nothing gives.

  Reading a module, hashing and extracting its imports are the fields of \<open>scan_env\<close>; \<open>None\<close> is a rejected
  promise. Builds of a cache are serialized by its queue, so the map of modules in progress is never observed by
  another build and is left out; the dependencies of a module are scanned in order, which is one schedule of the
  code's \<open>Promise.all\<close>.
\<close>

record hash_cache =
  hc_graph :: module_graph
  hc_contentHashes :: "(string \<times> string) list"
  hc_completedModules :: "string list"

definition createDependencyHashCache :: hash_cache where
  "createDependencyHashCache =
     \<lparr>hc_graph = empty_module_graph, hc_contentHashes = [], hc_completedModules = []\<rparr>"

text \<open>What the builder calls: reading a module, hashing, parsing the imports of a content.\<close>

record scan_env =
  se_getContent :: "string \<Rightarrow> string option"
  se_computeHash :: "string \<Rightarrow> string"
  se_extractImports :: "string \<Rightarrow> string list option"
  se_projectDir :: string

definition local_deps :: "scan_env \<Rightarrow> string \<Rightarrow> string list \<Rightarrow> string list" where
  "local_deps E f allImports = map (\<lambda>spec. normalizeSpecifierToPath spec f (se_projectDir E)) (filterLocalImports allImports)"

definition record_module :: "string \<Rightarrow> string list \<Rightarrow> hash_cache \<Rightarrow> hash_cache" where
  "record_module f ds c = c\<lparr>hc_graph := addModule f ds (hc_graph c)\<rparr>"

definition mark_completed :: "string \<Rightarrow> hash_cache \<Rightarrow> hash_cache" where
  "mark_completed f c = c\<lparr>hc_completedModules := set_add f (hc_completedModules c)\<rparr>"

definition record_hash :: "string \<Rightarrow> string \<Rightarrow> hash_cache \<Rightarrow> hash_cache" where
  "record_hash f h c = c\<lparr>hc_contentHashes := jm_set f h (hc_contentHashes c)\<rparr>"

text \<open>The first argument bounds the depth of the recursion, which the code does not; \<open>build_returns\<close> shows that
  more than the number of modules in reach is enough.\<close>

type_synonym build = "hash_cache \<times> string list"

function buildDependencyGraph :: "nat \<Rightarrow> scan_env \<Rightarrow> string \<Rightarrow> build \<Rightarrow> build option"
  and buildDependencyGraphFresh :: "nat \<Rightarrow> scan_env \<Rightarrow> string \<Rightarrow> build \<Rightarrow> build option"
  and build_all :: "nat \<Rightarrow> scan_env \<Rightarrow> string list \<Rightarrow> build \<Rightarrow> build option" where
  "buildDependencyGraph 0 E f b = None"
| "buildDependencyGraph (Suc k) E f (c, visited) =
     (if f \<in> set (hc_completedModules c) then Some (c, visited)
      else if f \<in> set visited then Some (c, visited)
      else buildDependencyGraphFresh k E f (c, set_add f visited))"
| "buildDependencyGraphFresh k E f (c, visited) =
     (case se_getContent E f of
        None \<Rightarrow> Some (record_module f [] c, visited)
      | Some content \<Rightarrow>
          (let c1 = record_hash f (se_computeHash E content) c
           in case se_extractImports E content of
                None \<Rightarrow> Some (mark_completed f (record_module f [] c1), visited)
              | Some allImports \<Rightarrow>
                  (let normalizedDeps = local_deps E f allImports
                   in case build_all k E normalizedDeps (record_module f normalizedDeps c1, visited) of
                        None \<Rightarrow> None
                      | Some (c2, visited2) \<Rightarrow> Some (mark_completed f c2, visited2))))"
| "build_all k E [] b = Some b"
| "build_all k E (d # ds) b =
     (case buildDependencyGraph k E d b of None \<Rightarrow> None | Some b1 \<Rightarrow> build_all k E ds b1)"
  by pat_completeness auto
termination
  by (relation "measures [\<lambda>x. case x of Inl (k, _) \<Rightarrow> k | Inr (Inl (k, _)) \<Rightarrow> k | Inr (Inr (k, _)) \<Rightarrow> k,
        \<lambda>x. case x of Inl _ \<Rightarrow> 0 | Inr (Inl _) \<Rightarrow> 2 | Inr (Inr _) \<Rightarrow> 1,
        \<lambda>x. case x of Inl _ \<Rightarrow> 0 | Inr (Inl _) \<Rightarrow> 0 | Inr (Inr (_, _, ds, _)) \<Rightarrow> length ds]") auto

definition content_hash :: "hash_cache \<Rightarrow> string \<Rightarrow> string" where
  "content_hash c d = (case jm_get (hc_contentHashes c) d of None \<Rightarrow> [] | Some h \<Rightarrow> h)"

definition combine_hashes :: "string list \<Rightarrow> string" where
  "combine_hashes hs = join_with '':'' (filter (\<lambda>h. h \<noteq> []) hs)"

definition computeDepsHash :: "nat \<Rightarrow> scan_env \<Rightarrow> string \<Rightarrow> hash_cache \<Rightarrow> (hash_cache \<times> string) option" where
  "computeDepsHash k E f c =
     (case buildDependencyGraph k E f (c, []) of
        None \<Rightarrow> None
      | Some (c1, _) \<Rightarrow>
          (let deps = sort (f # getTransitiveDependencies f (hc_graph c1))
           in Some (c1, se_computeHash E (combine_hashes (map (content_hash c1) deps)))))"

definition modulesToInvalidate :: "string list \<Rightarrow> hash_cache \<Rightarrow> string list" where
  "modulesToInvalidate changedPaths c =
     fold (\<lambda>p s. fold set_add (getDependents p (hc_graph c)) (set_add p s)) changedPaths []"

definition invalidate_module :: "string \<Rightarrow> hash_cache \<Rightarrow> hash_cache" where
  "invalidate_module f c =
     c\<lparr>hc_completedModules := filter (\<lambda>x. x \<noteq> f) (hc_completedModules c),
       hc_contentHashes := jm_del f (hc_contentHashes c),
       hc_graph := removeModule f (hc_graph c)\<rparr>"

definition invalidateDependencyHashCache :: "string list \<Rightarrow> hash_cache \<Rightarrow> hash_cache \<times> nat" where
  "invalidateDependencyHashCache changedPaths c =
     (let ms = modulesToInvalidate changedPaths c in (fold invalidate_module ms c, length ms))"

subsection \<open>The specification\<close>

text \<open>The modules a module imports, its hash, and the hash of a module with all it depends on, from the files
  alone.\<close>

definition module_imports :: "scan_env \<Rightarrow> string \<Rightarrow> string list" where
  "module_imports E f =
     (case se_getContent E f of
        None \<Rightarrow> []
      | Some content \<Rightarrow> case se_extractImports E content of None \<Rightarrow> [] | Some allImports \<Rightarrow> local_deps E f allImports)"

definition module_hash :: "scan_env \<Rightarrow> string \<Rightarrow> string" where
  "module_hash E f = se_computeHash E (the (se_getContent E f))"

definition import_edges :: "scan_env \<Rightarrow> (string \<times> string) set" where
  "import_edges E = {(f, d). d \<in> set (module_imports E f)}"

definition spec_hash :: "scan_env \<Rightarrow> string \<Rightarrow> string" where
  "spec_hash E f =
     se_computeHash E (combine_hashes (map (module_hash E) (sorted_list_of_set ((import_edges E)\<^sup>* `` {f}))))"

text \<open>A finite set of modules that holds the file and the imports of its members, all of which can be read.\<close>

definition scannable :: "scan_env \<Rightarrow> string set \<Rightarrow> bool" where
  "scannable E U \<longleftrightarrow> finite U \<and> (\<forall>p \<in> U. se_getContent E p \<noteq> None \<and> set (module_imports E p) \<subseteq> U)"

lemma scannableD:
  assumes "scannable E U" "p \<in> U"
  shows "se_getContent E p \<noteq> None" "set (module_imports E p) \<subseteq> U"
  using assms by (auto simp: scannable_def)

subsection \<open>What the cache knows is true of the files\<close>

definition known :: "scan_env \<Rightarrow> hash_cache \<Rightarrow> string \<Rightarrow> bool" where
  "known E c p \<longleftrightarrow> se_getContent E p \<noteq> None \<and> jm_get (hc_contentHashes c) p = Some (module_hash E p) \<and>
     set (deps_of (mg_dependencies (hc_graph c)) p) = set (module_imports E p)"

text \<open>During a build the imports of a completed module are completed or being visited.\<close>

definition coherent :: "scan_env \<Rightarrow> hash_cache \<Rightarrow> string set \<Rightarrow> bool" where
  "coherent E c visited \<longleftrightarrow> inverse_maps (hc_graph c) \<and>
     (\<forall>p \<in> set (hc_completedModules c).
        known E c p \<and> set (module_imports E p) \<subseteq> set (hc_completedModules c) \<union> visited)"

definition same_entry :: "hash_cache \<Rightarrow> hash_cache \<Rightarrow> string \<Rightarrow> bool" where
  "same_entry c c' p \<longleftrightarrow> jm_get (hc_contentHashes c') p = jm_get (hc_contentHashes c) p \<and>
     deps_of (mg_dependencies (hc_graph c')) p = deps_of (mg_dependencies (hc_graph c)) p"

definition grown :: "build \<Rightarrow> build \<Rightarrow> bool" where
  "grown b b' \<longleftrightarrow> set (snd b) \<subseteq> set (snd b') \<and>
     set (hc_completedModules (fst b)) \<subseteq> set (hc_completedModules (fst b')) \<and>
     set (snd b') \<subseteq> set (snd b) \<union> set (hc_completedModules (fst b')) \<and>
     (\<forall>p \<in> set (snd b) \<union> set (hc_completedModules (fst b)). same_entry (fst b) (fst b') p)"

lemma grown_refl [simp]: "grown b b"
  by (simp add: grown_def same_entry_def)

lemma grown_trans: "grown a b \<Longrightarrow> grown b c \<Longrightarrow> grown a c"
proof -
  assume ab: "grown a b" and bc: "grown b c"
  have "same_entry (fst a) (fst c) p" if "p \<in> set (snd a) \<union> set (hc_completedModules (fst a))" for p
  proof -
    have "p \<in> set (snd b) \<union> set (hc_completedModules (fst b))" using ab that by (auto simp: grown_def)
    then show ?thesis using ab bc that by (auto simp: grown_def same_entry_def)
  qed
  then show ?thesis using ab bc unfolding grown_def by blast
qed

lemma known_same: "same_entry c c' p \<Longrightarrow> known E c' p \<longleftrightarrow> known E c p"
  by (simp add: known_def same_entry_def)

lemma mark_completed_simps [simp]:
  "hc_graph (mark_completed f c) = hc_graph c" "hc_contentHashes (mark_completed f c) = hc_contentHashes c"
  "set (hc_completedModules (mark_completed f c)) = insert f (set (hc_completedModules c))"
  by (simp_all add: mark_completed_def)

lemma record_module_simps [simp]:
  "hc_graph (record_module f ds c) = addModule f ds (hc_graph c)"
  "hc_contentHashes (record_module f ds c) = hc_contentHashes c"
  "hc_completedModules (record_module f ds c) = hc_completedModules c"
  by (simp_all add: record_module_def)

lemma record_hash_simps [simp]:
  "hc_graph (record_hash f h c) = hc_graph c" "hc_contentHashes (record_hash f h c) = jm_set f h (hc_contentHashes c)"
  "hc_completedModules (record_hash f h c) = hc_completedModules c"
  by (simp_all add: record_hash_def)

text \<open>Recording a module that is not completed changes nothing else.\<close>

lemma record_fresh:
  assumes "coherent E c visited" "f \<notin> set (hc_completedModules c)"
    and c1_def: "c1 = record_module f ds (record_hash f h c)"
  shows "coherent E c1 (insert f visited)" "p \<noteq> f \<Longrightarrow> same_entry c c1 p"
    "se_getContent E f \<noteq> None \<Longrightarrow> h = module_hash E f \<Longrightarrow> set ds = set (module_imports E f) \<Longrightarrow> known E c1 f"
proof -
  show same: "same_entry c c1 p" if "p \<noteq> f" for p
    using that by (simp add: same_entry_def c1_def jsmap_simps addModule_dependencies)
  have "known E c1 p \<and> set (module_imports E p) \<subseteq> set (hc_completedModules c) \<union> visited"
    if "p \<in> set (hc_completedModules c)" for p
  proof -
    have "p \<noteq> f" using that assms(2) by blast
    then show ?thesis using assms(1) that known_same[OF same] by (auto simp: coherent_def)
  qed
  then show "coherent E c1 (insert f visited)"
    using assms(1) by (auto simp: coherent_def c1_def intro: addModule_inverse)
  show "known E c1 f" if "se_getContent E f \<noteq> None" "h = module_hash E f" "set ds = set (module_imports E f)"
    using that by (simp add: known_def c1_def jsmap_simps addModule_dependencies)
qed

lemma mark_coherent:
  assumes "coherent E c visited" "known E c f" "set (module_imports E f) \<subseteq> set (hc_completedModules c) \<union> visited"
  shows "coherent E (mark_completed f c) visited"
  using assms by (auto simp: coherent_def known_def)

lemma coherent_weaken: "coherent E c vis \<Longrightarrow> vis \<subseteq> vis' \<Longrightarrow> coherent E c vis'"
  by (auto simp: coherent_def)

text \<open>A build keeps the cache coherent, touches no entry of a module that is completed or being visited, and
  completes every module it visits.\<close>

definition built :: "scan_env \<Rightarrow> build \<Rightarrow> string set \<Rightarrow> build \<Rightarrow> bool" where
  "built E b targets b' \<longleftrightarrow> coherent E (fst b') (set (snd b')) \<and> grown b b' \<and>
     targets \<subseteq> set (hc_completedModules (fst b')) \<union> set (snd b')"

lemma built_fresh:
  assumes c: "coherent E c (set visited)" "f \<notin> set (hc_completedModules c)" "f \<notin> set visited"
    and known: "se_getContent E f \<noteq> None" "h = module_hash E f" "set ds = set (module_imports E f)"
    and b: "built E (record_module f ds (record_hash f h c), set_add f visited) (set ds) (c2, visited2)"
  shows "built E (c, visited) {f} (mark_completed f c2, visited2)"
proof -
  define c1 where "c1 = record_module f ds (record_hash f h c)"
  note fresh = record_fresh[OF c(1,2) c1_def]
  have g: "grown (c1, set_add f visited) (c2, visited2)" and c2: "coherent E c2 (set visited2)"
    and ds: "set ds \<subseteq> set (hc_completedModules c2) \<union> set visited2"
    using b by (auto simp: built_def c1_def)
  have done1: "hc_completedModules c1 = hc_completedModules c" by (simp add: c1_def)
  have "same_entry c1 c2 f" using g by (simp add: grown_def)
  then have f: "known E c2 f" using fresh(3)[OF known] by (simp add: known_same)
  have same: "same_entry c c2 p" if "p \<in> set visited \<union> set (hc_completedModules c)" for p
  proof -
    have "p \<noteq> f" using that c by blast
    then have "same_entry c c1 p" "same_entry c1 c2 p"
      using fresh(2) g that done1 by (auto simp: grown_def)
    then show ?thesis by (simp add: same_entry_def)
  qed
  have "grown (c, visited) (mark_completed f c2, visited2)"
    using g same by (auto simp: grown_def done1 same_entry_def)
  then show ?thesis
    using mark_coherent[OF c2 f] ds known(3) by (simp add: built_def)
qed

lemma built_trans:
  assumes "built E b {d} b1" "built E b1 ds b2"
  shows "built E b (insert d ds) b2"
  using assms grown_trans[of b b1 b2] unfolding built_def grown_def by blast

lemma build_keeps:
  assumes U: "scannable E U"
  shows "buildDependencyGraph k E f b = Some b' \<Longrightarrow> f \<in> U \<Longrightarrow> coherent E (fst b) (set (snd b)) \<Longrightarrow> built E b {f} b'"
    "buildDependencyGraphFresh k E f b1 = Some b' \<Longrightarrow> f \<in> U \<Longrightarrow> b1 = (c, set_add f visited) \<Longrightarrow>
       f \<notin> set (hc_completedModules c) \<Longrightarrow> f \<notin> set visited \<Longrightarrow> coherent E c (set visited) \<Longrightarrow>
       built E (c, visited) {f} b'"
    "build_all k E ds b = Some b' \<Longrightarrow> set ds \<subseteq> U \<Longrightarrow> coherent E (fst b) (set (snd b)) \<Longrightarrow> built E b (set ds) b'"
  using U
proof (induction k E f b and k E f b1 and k E ds b arbitrary: b' and b' c visited and b'
    rule: buildDependencyGraph_buildDependencyGraphFresh_build_all.induct)
  case (2 k E f c visited)
  show ?case
  proof (cases "f \<in> set (hc_completedModules c) \<or> f \<in> set visited")
    case True
    then show ?thesis using 2(2-4) by (auto simp: built_def split: if_splits)
  next
    case False
    then show ?thesis using 2(1)[OF _ _ _ 2(3) refl _ _ _ 2(5)] 2(2,4) by auto
  qed
next
  case (3 k E f c1 visited1)
  have eq: "c1 = c" "visited1 = set_add f visited" using 3(4) by auto
  obtain content where content: "se_getContent E f = Some content" using 3(3,8) by (auto simp: scannable_def)
  then have h: "se_computeHash E content = module_hash E f" by (simp add: module_hash_def)
  show ?case
  proof (cases "se_extractImports E content")
    case None
    have b': "b' = (mark_completed f (record_module f [] (record_hash f (module_hash E f) c)), set_add f visited)"
      using 3(2) content None eq h by (simp add: Let_def)
    have imp: "set [] = set (module_imports E f)" using content None by (simp add: module_imports_def)
    have "built E (record_module f [] (record_hash f (module_hash E f) c), set_add f visited) (set [])
      (record_module f [] (record_hash f (module_hash E f) c), set_add f visited)"
      using record_fresh(1)[OF 3(7,5) refl] by (simp add: built_def)
    then show ?thesis unfolding b' using built_fresh[OF 3(7,5,6)] content imp by blast
  next
    case (Some allImports)
    define ds where "ds = local_deps E f allImports"
    define b2 where "b2 = (record_module f ds (record_hash f (module_hash E f) c), set_add f visited)"
    have imp: "set ds = set (module_imports E f)" using content Some by (simp add: module_imports_def ds_def)
    then have sub: "set ds \<subseteq> U" using 3(3,8) by (auto simp: scannable_def)
    obtain c2 visited2 where r: "build_all k E ds b2 = Some (c2, visited2)"
      and b': "b' = (mark_completed f c2, visited2)"
      using 3(2) content Some eq h by (auto simp: Let_def ds_def b2_def split: option.splits)
    have "coherent E (fst b2) (set (snd b2))" using record_fresh(1)[OF 3(7,5) refl] by (simp add: b2_def)
    then have "built E b2 (set ds) (c2, visited2)"
      using 3(1)[OF content refl Some ds_def _ sub _ 3(8)] r eq h by (auto simp: b2_def)
    then show ?thesis unfolding b' b2_def using built_fresh[OF 3(7,5,6)] content imp by blast
  qed
next
  case (5 k E d ds b)
  then obtain b1 where b1: "buildDependencyGraph k E d b = Some b1" "build_all k E ds b1 = Some b'"
    by (auto split: option.splits)
  have a: "built E b {d} b1" using 5(1)[OF b1(1) _ 5(5,6)] 5(4) by simp
  moreover have "built E b1 (set ds) b'" using 5(2)[OF b1(1,2) _ _ 5(6)] 5(4) a by (simp add: built_def)
  ultimately show ?case by (simp add: built_trans)
qed (auto simp: built_def)

lemma build_returns:
  assumes U: "scannable E U"
  shows "card (U - set (snd b)) < k \<Longrightarrow> f \<in> U \<Longrightarrow> coherent E (fst b) (set (snd b)) \<Longrightarrow>
       buildDependencyGraph k E f b \<noteq> None"
    "card (U - set (snd b1)) < k \<Longrightarrow> f \<in> U \<Longrightarrow> b1 = (c, set_add f visited) \<Longrightarrow>
       f \<notin> set (hc_completedModules c) \<Longrightarrow> coherent E c (set visited) \<Longrightarrow> buildDependencyGraphFresh k E f b1 \<noteq> None"
    "card (U - set (snd b)) < k \<Longrightarrow> set ds \<subseteq> U \<Longrightarrow> coherent E (fst b) (set (snd b)) \<Longrightarrow> build_all k E ds b \<noteq> None"
  using U
proof (induction k E f b and k E f b1 and k E ds b arbitrary: and c visited and
    rule: buildDependencyGraph_buildDependencyGraphFresh_build_all.induct)
  case (2 k E f c visited)
  show ?case
  proof (cases "f \<in> set (hc_completedModules c) \<or> f \<in> set visited")
    case False
    have "finite U" using 2(5) by (simp add: scannable_def)
    then have "card (U - set (snd (c, set_add f visited))) < k"
      using card_insert_less[of U f "set visited"] False 2(2,3) by simp
    then show ?thesis using 2(1)[OF _ _ _ 2(3) refl _ _ 2(5)] 2(4) False by auto
  qed auto
next
  case (3 k E f c1 visited1)
  have eq: "c1 = c" "visited1 = set_add f visited" using 3(4) by auto
  obtain content where content: "se_getContent E f = Some content" using 3(3,7) by (auto simp: scannable_def)
  show ?case
  proof (cases "se_extractImports E content")
    case (Some allImports)
    have "module_imports E f = local_deps E f allImports" using content Some by (simp add: module_imports_def)
    then have "set (local_deps E f allImports) \<subseteq> U" using scannableD(2)[OF 3(7,3)] by simp
    then have "build_all k E (local_deps E f allImports)
      (record_module f (local_deps E f allImports) (record_hash f (se_computeHash E content) c1), visited1) \<noteq> None"
      using 3(1)[OF content refl Some refl _ _ _ 3(7)] 3(2) record_fresh(1)[OF 3(6,5) refl] eq by simp
    then show ?thesis using content Some by (auto simp: Let_def)
  qed (use content in simp)
next
  case (5 k E d ds b)
  then obtain b1 where b1: "buildDependencyGraph k E d b = Some b1" by fastforce
  have a: "built E b {d} b1" using build_keeps(1)[OF 5(6) b1 _ 5(5)] 5(4) by simp
  have "finite U" using 5(6) by (simp add: scannable_def)
  then have "card (U - set (snd b1)) \<le> card (U - set (snd b))"
    using a by (intro card_mono) (auto simp: built_def grown_def)
  then show ?case using 5(2)[OF b1 _ _ _ 5(6)] 5(3,4) a b1 by (simp add: built_def)
qed auto

text \<open>What is reached from a completed module in the graph of a coherent cache is what its imports reach.\<close>

lemma coherent_reach:
  assumes c: "coherent E c {}" and f: "f \<in> set (hc_completedModules c)"
  shows "(edges (mg_dependencies (hc_graph c)))\<^sup>* `` {f} = (import_edges E)\<^sup>* `` {f}"
    "(import_edges E)\<^sup>* `` {f} \<subseteq> set (hc_completedModules c)"
proof -
  let ?D = "set (hc_completedModules c)"
  have step: "(p, q) \<in> edges (mg_dependencies (hc_graph c)) \<longleftrightarrow> (p, q) \<in> import_edges E"
    "(p, q) \<in> import_edges E \<Longrightarrow> q \<in> ?D" if "p \<in> ?D" for p q
    using c that by (auto simp: coherent_def known_def import_edges_def)
  have a: "q \<in> ?D \<and> (f, q) \<in> (edges (mg_dependencies (hc_graph c)))\<^sup>*" if "(f, q) \<in> (import_edges E)\<^sup>*" for q
    using that by induction (use f step in \<open>auto intro: rtrancl_into_rtrancl\<close>)
  have b: "q \<in> ?D \<and> (f, q) \<in> (import_edges E)\<^sup>*" if "(f, q) \<in> (edges (mg_dependencies (hc_graph c)))\<^sup>*" for q
    using that by induction (use f step in \<open>auto intro: rtrancl_into_rtrancl\<close>)
  show "(edges (mg_dependencies (hc_graph c)))\<^sup>* `` {f} = (import_edges E)\<^sup>* `` {f}" using a b by blast
  show "(import_edges E)\<^sup>* `` {f} \<subseteq> ?D" using a by blast
qed

lemma coherent_combined:
  assumes c: "coherent E c {}" and f: "f \<in> set (hc_completedModules c)"
  shows "se_computeHash E (combine_hashes (map (content_hash c) (sort (f # getTransitiveDependencies f (hc_graph c))))) =
    spec_hash E f"
proof -
  let ?ds = "f # getTransitiveDependencies f (hc_graph c)"
  have set: "set ?ds = (import_edges E)\<^sup>* `` {f}"
    using coherent_reach(1)[OF assms] by (auto simp: set_getTransitiveDependencies)
  have "distinct ?ds"
    using distinct_getTransitiveDependencies by (auto simp: set_getTransitiveDependencies)
  then have "sort ?ds = sorted_list_of_set ((import_edges E)\<^sup>* `` {f})"
    using set sorted_list_of_set_sort_remdups[of ?ds] by (simp add: distinct_remdups_id)
  moreover have "map (content_hash c) (sort ?ds) = map (module_hash E) (sort ?ds)"
  proof (rule map_cong[OF refl])
    fix d assume "d \<in> set (sort ?ds)"
    then have "d \<in> set ?ds" by (simp only: set_sort)
    then have "d \<in> set (hc_completedModules c)" using coherent_reach(2)[OF assms] set by blast
    then show "content_hash c d = module_hash E d" using c by (auto simp: content_hash_def coherent_def known_def)
  qed
  ultimately show ?thesis unfolding spec_hash_def by metis
qed

lemma computeDepsHash_coherent:
  assumes c: "coherent E c {}" and U: "scannable E U" "f \<in> U" "card U < k"
  shows "\<exists>c'. computeDepsHash k E f c = Some (c', spec_hash E f) \<and> coherent E c' {} \<and>
    f \<in> set (hc_completedModules c')"
proof -
  have pre: "coherent E (fst (c, [])) (set (snd (c, [])))" using c by simp
  obtain c' visited where r: "buildDependencyGraph k E f (c, []) = Some (c', visited)"
    using build_returns(1)[OF U(1) _ U(2) pre, of k] U(3) by auto
  have b: "built E (c, []) {f} (c', visited)" using build_keeps(1)[OF U(1) r U(2) pre] .
  then have "set visited \<subseteq> set (hc_completedModules c')" by (auto simp: built_def grown_def)
  then have c': "coherent E c' {}" "f \<in> set (hc_completedModules c')"
    using b by (auto simp: built_def coherent_def)
  show ?thesis using coherent_combined[OF c'] c' r by (simp add: computeDepsHash_def Let_def)
qed

lemma createDependencyHashCache_coherent: "coherent E createDependencyHashCache {}"
  by (simp add: coherent_def createDependencyHashCache_def)

subsection \<open>Invalidation\<close>

lemma set_modulesToInvalidate:
  assumes "inverse_maps (hc_graph c)"
  shows "set (modulesToInvalidate changed c) =
    {p. \<exists>q \<in> set changed. (p, q) \<in> (edges (mg_dependencies (hc_graph c)))\<^sup>*}"
proof -
  have "set (fold (\<lambda>p s. fold set_add (getDependents p (hc_graph c)) (set_add p s)) qs s) =
    set s \<union> {p. \<exists>q \<in> set qs. (p, q) \<in> (edges (mg_dependencies (hc_graph c)))\<^sup>*}" for qs s
    by (induction qs arbitrary: s) (auto simp: set_getDependents[OF assms])
  then show ?thesis by (simp add: modulesToInvalidate_def)
qed

lemma invalidate_fold:
  "set (hc_completedModules (fold invalidate_module ms c)) = set (hc_completedModules c) - set ms"
  "jm_get (hc_contentHashes (fold invalidate_module ms c)) p =
     (if p \<in> set ms then None else jm_get (hc_contentHashes c) p)"
  "deps_of (mg_dependencies (hc_graph (fold invalidate_module ms c))) p =
     (if p \<in> set ms then [] else deps_of (mg_dependencies (hc_graph c)) p)"
  "inverse_maps (hc_graph c) \<Longrightarrow> inverse_maps (hc_graph (fold invalidate_module ms c))"
  by (induction ms arbitrary: c)
    (auto simp: invalidate_module_def jsmap_simps removeModule_dependencies removeModule_inverse)

definition edited :: "scan_env \<Rightarrow> string list \<Rightarrow> scan_env \<Rightarrow> bool" where
  "edited E changed E' \<longleftrightarrow> se_computeHash E' = se_computeHash E \<and> se_extractImports E' = se_extractImports E \<and>
     se_projectDir E' = se_projectDir E \<and> (\<forall>p. p \<notin> set changed \<longrightarrow> se_getContent E' p = se_getContent E p)"

lemma edited_same:
  assumes "edited E changed E'" "p \<notin> set changed"
  shows "module_imports E' p = module_imports E p" "module_hash E' p = module_hash E p"
    "se_getContent E' p = se_getContent E p"
  using assms by (auto simp: edited_def module_imports_def module_hash_def local_deps_def split: option.split)

lemma invalidate_coherent:
  assumes c: "coherent E c {}" and E': "edited E changed E'"
  shows "coherent E' (fst (invalidateDependencyHashCache changed c)) {}"
proof -
  define ms where "ms = modulesToInvalidate changed c"
  define c' where "c' = fold invalidate_module ms c"
  have inv: "inverse_maps (hc_graph c)" using c by (simp add: coherent_def)
  have ms: "p \<in> set ms \<longleftrightarrow> (\<exists>q \<in> set changed. (p, q) \<in> (edges (mg_dependencies (hc_graph c)))\<^sup>*)" for p
    using set_modulesToInvalidate[OF inv] by (simp add: ms_def)
  note c'_simps = invalidate_fold[where ms = ms and c = c, folded c'_def]
  have "known E' c' p \<and> set (module_imports E' p) \<subseteq> set (hc_completedModules c')"
    if p: "p \<in> set (hc_completedModules c')" for p
  proof -
    have old: "p \<in> set (hc_completedModules c)" "p \<notin> set ms" using p c'_simps(1) by auto
    then have "p \<notin> set changed" using ms by blast
    note same = edited_same[OF E' this]
    have k: "known E c p" "set (module_imports E p) \<subseteq> set (hc_completedModules c)"
      using c old by (auto simp: coherent_def)
    have "q \<notin> set ms" if "q \<in> set (module_imports E p)" for q
    proof
      assume "q \<in> set ms"
      moreover have "(p, q) \<in> edges (mg_dependencies (hc_graph c))" using that k(1) by (simp add: known_def)
      ultimately show False using ms old(2) by (meson converse_rtrancl_into_rtrancl)
    qed
    then show ?thesis using k old(2) same c'_simps by (auto simp: known_def)
  qed
  then have "coherent E' c' {}" using c'_simps(4)[OF inv] by (simp add: coherent_def)
  then show ?thesis by (simp add: invalidateDependencyHashCache_def Let_def ms_def c'_def)
qed

subsection \<open>Histories of a cache\<close>

text \<open>A cache is used by a sequence of builds; between them files change and the cache is told which.\<close>

inductive tracked :: "scan_env \<Rightarrow> hash_cache \<Rightarrow> bool" where
  tracked_new: "tracked E createDependencyHashCache"
| tracked_hash: "tracked E c \<Longrightarrow> scannable E U \<Longrightarrow> f \<in> U \<Longrightarrow> card U < k \<Longrightarrow>
    computeDepsHash k E f c = Some (c', h) \<Longrightarrow> tracked E c'"
| tracked_edit: "tracked E c \<Longrightarrow> edited E changed E' \<Longrightarrow>
    tracked E' (fst (invalidateDependencyHashCache changed c))"

lemma tracked_coherent: "tracked E c \<Longrightarrow> coherent E c {}"
proof (induction rule: tracked.induct)
  case (tracked_hash E c U f k c' h)
  then show ?case using computeDepsHash_coherent[of E c U f k] by auto
qed (auto intro: createDependencyHashCache_coherent invalidate_coherent)

text \<open>C19: After any history of builds and edits, with the changed paths reported to
  \<open>invalidateDependencyHashCache\<close> and every module readable, \<open>computeDepsHash\<close> returns the hash that the files
  themselves determine: the hash of the sorted content hashes of the module and everything it imports, directly
  or not. It is what a new cache gives, so no stale hash and no stale edge survives, import cycles included.
  A recursion deeper than the number of modules is never needed.\<close>

theorem incremental_hash_is_fresh_hash:
  assumes "tracked E c" "scannable E U" "f \<in> U" "card U < k"
  shows "\<exists>c' c''. computeDepsHash k E f c = Some (c', spec_hash E f) \<and>
    computeDepsHash k E f createDependencyHashCache = Some (c'', spec_hash E f)"
  using computeDepsHash_coherent[OF tracked_coherent[OF assms(1)] assms(2-4)]
    computeDepsHash_coherent[OF createDependencyHashCache_coherent assms(2-4)] by blast

definition sample_files :: "string \<Rightarrow> scan_env" where
  "sample_files b = \<lparr>se_getContent = map_of [(''/a.js'', ''A''), (''/b.js'', b)], se_computeHash = (\<lambda>s. CHR ''#'' # s),
     se_extractImports = (\<lambda>s. if s = ''A'' then Some [''./b.ts'', ''react''] else if s = ''B'' then Some [''./a.js''] else Some []),
     se_projectDir = ''/''\<rparr>"

lemma sample_scannable:
  "scannable (sample_files ''B'') {''/a.js'', ''/b.js''}" "scannable (sample_files ''C'') {''/a.js'', ''/b.js''}"
  by (simp_all add: scannable_def sample_files_def module_imports_def local_deps_def) code_simp+

theorem incremental_hash_is_fresh_hash_witness:
  "\<exists>c0 h0 c' c''. computeDepsHash 3 (sample_files ''B'') ''/a.js'' createDependencyHashCache = Some (c0, h0) \<and>
     computeDepsHash 3 (sample_files ''C'') ''/a.js'' (fst (invalidateDependencyHashCache [''/b.js''] c0)) =
       Some (c', spec_hash (sample_files ''C'') ''/a.js'') \<and>
     computeDepsHash 3 (sample_files ''C'') ''/a.js'' createDependencyHashCache =
       Some (c'', spec_hash (sample_files ''C'') ''/a.js'')"
proof -
  have U: "card {''/a.js'', ''/b.js''} < (3::nat)" "''/a.js'' \<in> {''/a.js'', ''/b.js''}" by simp_all
  obtain c0 h0 where c0: "computeDepsHash 3 (sample_files ''B'') ''/a.js'' createDependencyHashCache = Some (c0, h0)"
    using computeDepsHash_coherent[OF createDependencyHashCache_coherent sample_scannable(1) U(2,1)] by blast
  have "edited (sample_files ''B'') [''/b.js''] (sample_files ''C'')" by (simp add: edited_def sample_files_def)
  then have "tracked (sample_files ''C'') (fst (invalidateDependencyHashCache [''/b.js''] c0))"
    using tracked_edit[OF tracked_hash[OF tracked_new sample_scannable(1) U(2,1) c0]] by blast
  from incremental_hash_is_fresh_hash[OF this sample_scannable(2) U(2,1)] show ?thesis using c0 by blast
qed

text \<open>Invalidation forgets exactly the changed modules and those that reach one of them through recorded
  imports; every other completed module, its hash and its edges stay, and the count returned is the number of
  distinct modules named.\<close>

theorem invalidation_is_exact:
  fixes changed :: "string list" and c :: hash_cache
  assumes "tracked E c"
  defines "r \<equiv> invalidateDependencyHashCache changed c"
  defines "hit \<equiv> {p. \<exists>q \<in> set changed. (p, q) \<in> (edges (mg_dependencies (hc_graph c)))\<^sup>*}"
  shows "set (hc_completedModules (fst r)) = set (hc_completedModules c) - hit \<and>
    (p \<notin> hit \<longrightarrow> same_entry c (fst r) p) \<and> snd r = card hit"
proof -
  have inv: "inverse_maps (hc_graph c)" using tracked_coherent[OF assms(1)] by (simp add: coherent_def)
  have hit: "set (modulesToInvalidate changed c) = hit" using set_modulesToInvalidate[OF inv] by (simp add: hit_def)
  have "distinct (fold (\<lambda>p s. fold set_add (getDependents p (hc_graph c)) (set_add p s)) qs s)" if "distinct s" for qs s
    using that by (induction qs arbitrary: s) auto
  then have "distinct (modulesToInvalidate changed c)" by (simp add: modulesToInvalidate_def)
  then have "length (modulesToInvalidate changed c) = card hit" using distinct_card hit by fastforce
  then show ?thesis using hit
    by (simp add: r_def invalidateDependencyHashCache_def Let_def invalidate_fold same_entry_def)
qed

subsection \<open>A read that fails\<close>

text \<open>A module that cannot be read is not marked as completed, but the module that imports it is. The next
  \<open>computeDepsHash\<close> of the importer, with any files, then answers from the cache without reading anything and
  leaves the cache as it is: the failed dependency is not scanned again until it is invalidated.\<close>

theorem failed_read_is_not_retried:
  assumes "f \<notin> set (hc_completedModules c)" "d \<notin> set (hc_completedModules c)" "d \<noteq> f" "1 < k"
    and "se_getContent E f = Some content" "se_extractImports E content = Some allImports"
    and "local_deps E f allImports = [d]" "se_getContent E d = None"
  shows "\<exists>c' h. computeDepsHash k E f c = Some (c', h) \<and> d \<notin> set (hc_completedModules c') \<and>
    d \<in> set (deps_of (mg_dependencies (hc_graph c')) f) \<and>
    (\<forall>E' n. se_computeHash E' = se_computeHash E \<longrightarrow> 0 < n \<longrightarrow> computeDepsHash n E' f c' = Some (c', h))"
proof -
  obtain j where k: "k = Suc (Suc j)" using assms(4) by (metis One_nat_def less_imp_Suc_add add_Suc)
  define c' where "c' = mark_completed f (record_module d [] (record_module f [d] (record_hash f (se_computeHash E content) c)))"
  have build: "buildDependencyGraph k E f (c, []) = Some (c', [f, d])"
    using assms by (simp add: k Let_def c'_def set_add_def)
  have f: "f \<in> set (hc_completedModules c')" by (simp add: c'_def)
  have again: "buildDependencyGraph n E' f (c', []) = Some (c', [])" if "0 < n" for n E'
    using that f by (cases n) auto
  have "d \<notin> set (hc_completedModules c')" "d \<in> set (deps_of (mg_dependencies (hc_graph c')) f)"
    using assms by (auto simp: c'_def addModule_dependencies set_of_list_def set_add_def)
  then show ?thesis using build again by (auto simp: computeDepsHash_def Let_def)
qed

end
