(* ===== verification/Semver.thy ===== *)
theory Semver
  imports Prelude "HOL-Library.Char_ord" "HOL-Library.List_Lexorder"
begin

text \<open>
  Versions and npm ranges, \<open>platform/compat/semver.ts\<close>: recognising versions, numeric order and increment of
  digit strings of any length, precedence of versions, and the evaluation of ranges.

  Each regular expression of the code is written as the scan it performs: every one of them has at most one way
  to consume a text, so taking the longest run of a character class is what its matcher does.
\<close>

subsection \<open>Recognising versions\<close>

definition digit :: "char \<Rightarrow> bool" where
  "digit c \<longleftrightarrow> (48::nat) \<le> of_char c \<and> (of_char c :: nat) \<le> 57"

definition alpha :: "char \<Rightarrow> bool" where
  "alpha c \<longleftrightarrow> (65 \<le> (of_char c :: nat) \<and> (of_char c :: nat) \<le> 90) \<or> (97 \<le> (of_char c :: nat) \<and> (of_char c :: nat) \<le> 122)"

definition id_char :: "char \<Rightarrow> bool" where
  "id_char c \<longleftrightarrow> digit c \<or> alpha c \<or> c = CHR ''-''"

definition numeric :: "string \<Rightarrow> bool" where
  "numeric s \<longleftrightarrow> s \<noteq> [] \<and> list_all digit s"

definition numeric_identifier :: "string \<Rightarrow> bool" where
  "numeric_identifier s \<longleftrightarrow> numeric s \<and> (s = ''0'' \<or> hd s \<noteq> CHR ''0'')"

definition prerelease_identifier :: "string \<Rightarrow> bool" where
  "prerelease_identifier s \<longleftrightarrow> numeric_identifier s \<or> (list_all id_char s \<and> list_ex (\<lambda>c. \<not> digit c) s)"

definition build_identifier :: "string \<Rightarrow> bool" where
  "build_identifier s \<longleftrightarrow> s \<noteq> [] \<and> list_all id_char s"

text \<open>The text after a run of digits accepted by \<open>ok\<close> and, for the first two components, a dot.\<close>

definition after_digits :: "(string \<Rightarrow> bool) \<Rightarrow> string \<Rightarrow> string option" where
  "after_digits ok s = (if ok (takeWhile digit s) then Some (dropWhile digit s) else None)"

definition after_dot :: "string \<Rightarrow> string option" where
  "after_dot s = (case s of c # r \<Rightarrow> if c = CHR ''.'' then Some r else None | [] \<Rightarrow> None)"

definition after_core :: "(string \<Rightarrow> bool) \<Rightarrow> string \<Rightarrow> string option" where
  "after_core ok s =
     Option.bind (after_digits ok s) (\<lambda>r1. Option.bind (after_dot r1) (\<lambda>r2.
     Option.bind (after_digits ok r2) (\<lambda>r3. Option.bind (after_dot r3) (\<lambda>r4. after_digits ok r4))))"

text \<open>The rest of a version: at most one pre-release part and then at most one build part.\<close>

definition tail_ok :: "(char \<Rightarrow> bool) \<Rightarrow> (string \<Rightarrow> bool) \<Rightarrow> (string \<Rightarrow> bool) \<Rightarrow> string \<Rightarrow> bool" where
  "tail_ok body pre build s =
     (let r = (case s of c # t \<Rightarrow> if c = CHR ''-'' then (if pre (takeWhile body t) then Some (dropWhile body t) else None)
                          else Some s
               | [] \<Rightarrow> Some [])
      in case r of None \<Rightarrow> False | Some [] \<Rightarrow> True | Some (c # b) \<Rightarrow> c = CHR ''+'' \<and> build b)"

definition version_char :: "char \<Rightarrow> bool" where
  "version_char c \<longleftrightarrow> id_char c \<or> c = CHR ''.''"

definition isExactSemver :: "string \<Rightarrow> bool" where
  "isExactSemver s =
     (case after_core numeric_identifier (if starts_with s ''v'' then tl s else s) of
        None \<Rightarrow> False
      | Some r \<Rightarrow> tail_ok version_char (\<lambda>p. list_all prerelease_identifier (split_on (CHR ''.'') p))
                    (\<lambda>b. list_all build_identifier (split_on (CHR ''.'') b)) r)"

definition EXACT_VERSION :: "string \<Rightarrow> bool" where
  "EXACT_VERSION s =
     (case after_core numeric s of
        None \<Rightarrow> False
      | Some r \<Rightarrow> tail_ok version_char (\<lambda>p. p \<noteq> []) (\<lambda>b. b \<noteq> [] \<and> list_all version_char b) r)"

subsection \<open>Operators\<close>

definition RANGE_OPERATORS :: "string list" where
  "RANGE_OPERATORS = [''<='', ''>='', ''~>'', ''^'', ''~'', ''='', ''v'', ''<'', ''>'']"

definition OPERATORS_NAMING_NO_FETCHABLE_VERSION :: "string list" where
  "OPERATORS_NAMING_NO_FETCHABLE_VERSION = [''<'', ''>'']"

definition range_operator :: "string \<Rightarrow> string option" where
  "range_operator trimmed = find (\<lambda>candidate. starts_with trimmed candidate) RANGE_OPERATORS"

fun v_digit :: "string \<Rightarrow> bool" where
  "v_digit (v # d # _) = (v = CHR ''v'' \<and> digit d)"
| "v_digit _ = False"

fun boundAfterOperator :: "string \<Rightarrow> string option \<Rightarrow> string" where
  "boundAfterOperator trimmed None = trimmed"
| "boundAfterOperator trimmed (Some operator) =
     (let bound = trim_start (drop (length operator) trimmed)
      in if operator \<noteq> ''v'' \<and> v_digit bound then drop 1 bound else bound)"

definition scheme_char :: "char \<Rightarrow> bool" where
  "scheme_char c \<longleftrightarrow> alpha c \<or> digit c \<or> c \<in> {CHR ''+'', CHR ''.'', CHR ''-''}"

fun URL_SCHEME :: "string \<Rightarrow> bool" where
  "URL_SCHEME [] = False"
| "URL_SCHEME (c # s) = (alpha c \<and> starts_with (dropWhile scheme_char s) '':'')"

text \<open>\<open>None\<close> is an argument that is not a string.\<close>

fun exactVersionNamedByRange :: "string option \<Rightarrow> string option" where
  "exactVersionNamedByRange None = None"
| "exactVersionNamedByRange (Some rng) =
     (let trimmed = js_trim rng; operator = range_operator trimmed
      in if URL_SCHEME trimmed then None
         else if \<exists>op \<in> set OPERATORS_NAMING_NO_FETCHABLE_VERSION. operator = Some op then None
         else let candidate = boundAfterOperator trimmed operator
              in if EXACT_VERSION candidate then Some candidate else None)"

subsection \<open>Digit strings\<close>

text \<open>\<open>replace(/^0+(?=\d)/, "")\<close>: zeros are dropped while a digit follows.\<close>

fun strip_zeros :: "string \<Rightarrow> string" where
  "strip_zeros (z # d # s) = (if z = CHR ''0'' \<and> digit d then strip_zeros (d # s) else z # d # s)"
| "strip_zeros s = s"

definition normalizeDigits :: "string \<Rightarrow> string" where
  "normalizeDigits digits = (let trimmed = strip_zeros digits in if trimmed = [] then ''0'' else trimmed)"

definition compareDigits :: "string \<Rightarrow> string \<Rightarrow> int" where
  "compareDigits left right =
     (let a = normalizeDigits left; b = normalizeDigits right
      in if length a \<noteq> length b then (if length a < length b then -1 else 1)
         else if a = b then 0
         else if a < b then -1 else 1)"

definition digit_value :: "char \<Rightarrow> nat" where
  "digit_value c = of_char c - 48"

text \<open>The loop of \<open>incrementDigits\<close> runs from the last digit to the first; here over the reversed digits.\<close>

fun increment_loop :: "string \<Rightarrow> string" where
  "increment_loop [] = ''1''"
| "increment_loop (d # ds) =
     (if d \<noteq> CHR ''9'' then digit_char (digit_value d + 1) # ds else CHR ''0'' # increment_loop ds)"

definition incrementDigits :: "string \<Rightarrow> string" where
  "incrementDigits digits = rev (increment_loop (rev (normalizeDigits digits)))"

subsection \<open>Bounds\<close>

definition wildcard :: "string \<Rightarrow> bool" where
  "wildcard s \<longleftrightarrow> s \<in> {''x'', ''X'', ''*''}"

text \<open>\<open>PARTIAL_VERSION\<close>: one to three parts, each digits or a wildcard.\<close>

definition PARTIAL_VERSION :: "string \<Rightarrow> string list option" where
  "PARTIAL_VERSION s =
     (let parts = split_on (CHR ''.'') s
      in if length parts \<le> 3 \<and> list_all (\<lambda>p. numeric p \<or> wildcard p) parts then Some parts else None)"

definition core_text :: "string \<Rightarrow> string" where
  "core_text s = takeWhile (\<lambda>c. c \<noteq> CHR ''-'' \<and> c \<noteq> CHR ''+'') s"

definition boundParts :: "string \<Rightarrow> string list option" where
  "boundParts bound =
     (let core = (if EXACT_VERSION bound then core_text bound else bound)
      in case PARTIAL_VERSION core of
           None \<Rightarrow> None
         | Some groups \<Rightarrow> Some (map normalizeDigits (takeWhile numeric groups)))"

text \<open>A version core is a list of three digit strings.\<close>

definition part_at :: "string list \<Rightarrow> nat \<Rightarrow> string" where
  "part_at parts i = (if i < length parts then parts ! i else ''0'')"

definition padded :: "string list \<Rightarrow> string list" where
  "padded parts = [part_at parts 0, part_at parts 1, part_at parts 2]"

definition nextAfter :: "string list \<Rightarrow> string list" where
  "nextAfter parts = padded (butlast parts @ [incrementDigits (last parts)])"

definition caretCeiling :: "string list \<Rightarrow> string list" where
  "caretCeiling parts =
     (let zeros = length (takeWhile (\<lambda>p. normalizeDigits p = ''0'') parts)
      in nextAfter (take (if zeros = length parts then length parts else zeros + 1) parts))"

definition tildeCeiling :: "string list \<Rightarrow> string list" where
  "tildeCeiling parts = nextAfter (if length parts = 3 then take 2 parts else parts)"

definition ZERO_CORE :: "string list" where
  "ZERO_CORE = [''0'', ''0'', ''0'']"

definition coreOf :: "string \<Rightarrow> string list" where
  "coreOf version = padded (map normalizeDigits (split_on (CHR ''.'') (core_text version)))"

definition prereleaseOf :: "string \<Rightarrow> string list option" where
  "prereleaseOf version =
     (let withoutBuild = takeWhile (\<lambda>c. c \<noteq> CHR ''+'') version
      in case dropWhile (\<lambda>c. c \<noteq> CHR ''-'') withoutBuild of
           [] \<Rightarrow> None
         | _ # pre \<Rightarrow> Some (split_on (CHR ''.'') pre))"

subsection \<open>Precedence\<close>

record version_key =
  vk_core :: "string list"
  vk_pre :: "string list option"

definition compare_strings :: "string \<Rightarrow> string \<Rightarrow> int" where
  "compare_strings a b = (if a < b then -1 else 1)"

fun comparePrereleaseIdentifiers :: "string option \<Rightarrow> string option \<Rightarrow> int" where
  "comparePrereleaseIdentifiers None _ = -1"
| "comparePrereleaseIdentifiers (Some a) None = 1"
| "comparePrereleaseIdentifiers (Some a) (Some b) =
     (if a = b then 0
      else if numeric a \<and> numeric b then compareDigits a b
      else if numeric a \<noteq> numeric b then (if numeric a then -1 else 1)
      else compare_strings a b)"

text \<open>The loop over the indices of the longer list; past its end \<open>left[index]\<close> is undefined.\<close>

fun prerelease_loop :: "string list \<Rightarrow> string list \<Rightarrow> int" where
  "prerelease_loop [] [] = 0"
| "prerelease_loop (a # as) [] =
     (let order = comparePrereleaseIdentifiers (Some a) None in if order \<noteq> 0 then order else prerelease_loop as [])"
| "prerelease_loop [] (b # bs) =
     (let order = comparePrereleaseIdentifiers None (Some b) in if order \<noteq> 0 then order else prerelease_loop [] bs)"
| "prerelease_loop (a # as) (b # bs) =
     (let order = comparePrereleaseIdentifiers (Some a) (Some b) in if order \<noteq> 0 then order else prerelease_loop as bs)"

fun comparePrereleases :: "string list option \<Rightarrow> string list option \<Rightarrow> int" where
  "comparePrereleases (Some left) (Some right) = prerelease_loop left right"
| "comparePrereleases None None = 0"
| "comparePrereleases None (Some _) = 1"
| "comparePrereleases (Some _) None = -1"

fun core_loop :: "nat \<Rightarrow> nat \<Rightarrow> string list \<Rightarrow> string list \<Rightarrow> int" where
  "core_loop 0 i left right = 0"
| "core_loop (Suc n) i left right =
     (let order = compareDigits (part_at left i) (part_at right i)
      in if order \<noteq> 0 then order else core_loop n (Suc i) left right)"

definition compareCores :: "string list \<Rightarrow> string list \<Rightarrow> int" where
  "compareCores left right = core_loop 3 0 left right"

definition compareVersions :: "version_key \<Rightarrow> version_key \<Rightarrow> int" where
  "compareVersions left right =
     (let order = compareCores (vk_core left) (vk_core right)
      in if order \<noteq> 0 then order else comparePrereleases (vk_pre left) (vk_pre right))"

subsection \<open>Comparators\<close>

definition ANY_RELEASE_COMPARATOR :: "string \<Rightarrow> bool" where
  "ANY_RELEASE_COMPARATOR s \<longleftrightarrow> starts_with s ''>='' \<and>
     (let r = dropWhile js_ws (drop 2 s);
          parts = split_on (CHR ''.'') (if starts_with r ''v'' then tl r else r)
      in length parts \<le> 3 \<and> list_all (\<lambda>p. p = ''0'' \<or> wildcard p) parts)"

definition boundAdmitsVersion ::
  "string option \<Rightarrow> string list \<Rightarrow> bool \<Rightarrow> version_key \<Rightarrow> version_key \<Rightarrow> bool" where
  "boundAdmitsVersion operator parts full wanted lower =
     (let order = compareVersions wanted lower;
          lowerDropped = (vk_pre lower = None \<and> compareCores (vk_core lower) ZERO_CORE = 0);
          below = (\<lambda>ceiling. compareCores (vk_core wanted) ceiling < 0);
          atLeast = (\<lambda>boundary. compareVersions wanted \<lparr>vk_core = boundary, vk_pre = None\<rparr> \<ge> 0)
      in if operator = Some ''^'' then (lowerDropped \<or> order \<ge> 0) \<and> below (caretCeiling parts)
         else if operator = Some ''~'' \<or> operator = Some ''~>'' then (lowerDropped \<or> order \<ge> 0) \<and> below (tildeCeiling parts)
         else if operator = Some ''>='' then (if full then order \<ge> 0 else atLeast (padded parts))
         else if operator = Some ''>'' then (if full then order > 0 else atLeast (nextAfter parts))
         else if operator = Some ''<='' then (if full then order \<le> 0 else below (nextAfter parts))
         else if operator = Some ''<'' then (if full then order < 0 else below (padded parts))
         else (if full then order = 0 else (lowerDropped \<or> atLeast (padded parts)) \<and> below (nextAfter parts)))"

definition comparatorAdmitsVersion :: "string \<Rightarrow> string \<Rightarrow> bool \<Rightarrow> bool option" where
  "comparatorAdmitsVersion rng version prereleaseAdmitted =
     (let trimmed = js_trim rng
      in if URL_SCHEME trimmed \<or> \<not> EXACT_VERSION version then None
         else
           let operator = range_operator trimmed;
               bound = boundAfterOperator trimmed operator;
               wanted = \<lparr>vk_core = coreOf version, vk_pre = prereleaseOf version\<rparr>;
               anyRelease = ANY_RELEASE_COMPARATOR trimmed
           in case (if anyRelease then Some [] else boundParts bound) of
                None \<Rightarrow> None
              | Some parts \<Rightarrow>
                  if length parts = 0 then
                    (if \<not> anyRelease \<and> (operator = Some ''>'' \<or> operator = Some ''<'') then Some False
                     else Some (vk_pre wanted = None \<or> prereleaseAdmitted))
                  else
                    let full = (length parts = 3);
                        lower = \<lparr>vk_core = padded parts, vk_pre = (if full then prereleaseOf bound else None)\<rparr>
                    in if vk_pre wanted \<noteq> None \<and> \<not> prereleaseAdmitted \<and>
                          (vk_pre lower = None \<or> compareCores (vk_core wanted) (vk_core lower) \<noteq> 0)
                       then Some False
                       else Some (boundAdmitsVersion operator parts full wanted lower))"

definition isAnyReleaseComparator :: "string \<Rightarrow> bool" where
  "isAnyReleaseComparator comparator =
     (let trimmed = js_trim comparator; operator = range_operator trimmed
      in if ANY_RELEASE_COMPARATOR trimmed then True
         else if operator = Some ''>'' \<or> operator = Some ''<'' then False
         else boundParts (boundAfterOperator trimmed operator) = Some [])"

subsection \<open>Ranges\<close>

text \<open>The replacement \<open>/(<=|>=|~>|[<>=^~])\s+/g\<close> by its group: blanks after an operator are dropped.\<close>

definition spaced_operator :: "string \<Rightarrow> string option" where
  "spaced_operator s =
     find (\<lambda>op. starts_with s op \<and> (case drop (length op) s of c # _ \<Rightarrow> js_ws c | [] \<Rightarrow> False))
       [''<='', ''>='', ''~>'', ''<'', ''>'', ''='', ''^'', ''~'']"

function drop_operator_blanks :: "string \<Rightarrow> string" where
  "drop_operator_blanks [] = []"
| "drop_operator_blanks (c # s) =
     (case spaced_operator (c # s) of
        Some op \<Rightarrow> op @ drop_operator_blanks (dropWhile js_ws (drop (length op) (c # s)))
      | None \<Rightarrow> c # drop_operator_blanks s)"
  by pat_completeness auto
termination
proof (relation "measure length", goal_cases)
  case (3 c s op)
  then have "op \<noteq> []" by (auto simp: spaced_operator_def find_Some_iff split: if_splits)
  then have "length (drop (length op) (c # s)) < length (c # s)" by (cases op) simp_all
  then have "length (dropWhile js_ws (drop (length op) (c # s))) < length (c # s)"
    by (rule le_less_trans[OF length_dropWhile_le])
  then show ?case by simp
qed simp_all

text \<open>\<open>/^(\S+)\s+-\s+(\S+)$/\<close>\<close>

definition hyphen_range :: "string \<Rightarrow> (string \<times> string) option" where
  "hyphen_range s =
     (let a = takeWhile (\<lambda>c. \<not> js_ws c) s; r = dropWhile (\<lambda>c. \<not> js_ws c) s
      in case dropWhile js_ws r of
           [] \<Rightarrow> None
         | c # t \<Rightarrow>
             (let b = dropWhile js_ws t
              in if a \<noteq> [] \<and> c = CHR ''-'' \<and> t \<noteq> [] \<and> js_ws (hd t) \<and> b \<noteq> [] \<and> list_all (\<lambda>x. \<not> js_ws x) b
                 then Some (a, b) else None))"

function split_blanks :: "string \<Rightarrow> string list" where
  "split_blanks s =
     (case dropWhile (\<lambda>c. \<not> js_ws c) s of
        [] \<Rightarrow> [s]
      | c # r \<Rightarrow> takeWhile (\<lambda>c. \<not> js_ws c) s # split_blanks (dropWhile js_ws r))"
  by pat_completeness auto
termination
proof (relation "measure length")
  fix s r :: string and c
  assume s: "dropWhile (\<lambda>c. \<not> js_ws c) s = c # r"
  have "length (dropWhile js_ws r) < length (c # r)" using length_dropWhile_le[of js_ws r] by simp
  also have "\<dots> \<le> length s" using length_dropWhile_le[of "\<lambda>c. \<not> js_ws c" s] s by simp
  finally show "(dropWhile js_ws r, s) \<in> measure length" by simp
qed simp

declare split_blanks.simps [simp del]

fun split_or :: "string \<Rightarrow> string list" where
  "split_or (a # b # s) =
     (if a = CHR ''|'' \<and> b = CHR ''|'' then [] # split_or s
      else case split_or (b # s) of p # ps \<Rightarrow> (a # p) # ps | [] \<Rightarrow> [[a]])"
| "split_or s = [s]"

definition comparatorsOf :: "string \<Rightarrow> string list" where
  "comparatorsOf alternative =
     (let cs = drop_operator_blanks (js_trim alternative)
      in if cs = [] then [''*'']
         else case hyphen_range cs of
                Some (a, b) \<Rightarrow> [''>='' @ a, ''<='' @ b]
              | None \<Rightarrow> split_blanks cs)"

definition namesPrereleaseOnCore :: "string \<Rightarrow> string \<Rightarrow> bool" where
  "namesPrereleaseOnCore comparator version =
     (let trimmed = js_trim comparator;
          bound = boundAfterOperator trimmed (range_operator trimmed)
      in if \<not> EXACT_VERSION bound \<or> prereleaseOf bound = None then False
         else compareCores (coreOf bound) (coreOf version) = 0)"

text \<open>The comparators of one alternative; \<open>None\<close> is the early return of \<open>null\<close>.\<close>

fun comparators_hold :: "string \<Rightarrow> bool \<Rightarrow> string list \<Rightarrow> bool \<Rightarrow> bool option" where
  "comparators_hold version admitted [] holds = Some holds"
| "comparators_hold version admitted (c # cs) holds =
     (case comparatorAdmitsVersion c version admitted of
        None \<Rightarrow> None
      | Some verdict \<Rightarrow> comparators_hold version admitted cs (if \<not> verdict then False else holds))"

fun alternatives_loop :: "string \<Rightarrow> string list list \<Rightarrow> bool \<Rightarrow> bool \<Rightarrow> (bool \<times> bool) option" where
  "alternatives_loop version [] admitted universal = Some (admitted, universal)"
| "alternatives_loop version (comparators # alternatives) admitted universal =
     (let prereleaseAdmitted = list_ex (\<lambda>c. namesPrereleaseOnCore c version) comparators
      in case comparators_hold version prereleaseAdmitted comparators True of
           None \<Rightarrow> None
         | Some holds \<Rightarrow>
             alternatives_loop version alternatives (if holds then True else admitted)
               (if list_all isAnyReleaseComparator comparators then True else universal))"

definition rangeAdmitsVersion :: "string \<Rightarrow> string \<Rightarrow> bool option" where
  "rangeAdmitsVersion rng version =
     (let trimmed = js_trim rng
      in if URL_SCHEME trimmed then None
         else case alternatives_loop version (map comparatorsOf (split_or trimmed)) False False of
                None \<Rightarrow> None
              | Some (admitted, universal) \<Rightarrow>
                  if universal then comparatorAdmitsVersion ''*'' version False else Some admitted)"

definition versionAdmission :: "string \<Rightarrow> string \<Rightarrow> bool option" where
  "versionAdmission version declaration =
     (if \<not> isExactSemver version then Some False
      else rangeAdmitsVersion declaration (if starts_with version ''v'' then tl version else version))"

definition satisfies :: "string \<Rightarrow> string \<Rightarrow> bool" where
  "satisfies version declaration \<longleftrightarrow> versionAdmission version declaration = Some True"

end
