(* ===== verification/SemverOrder.thy ===== *)
theory SemverOrder
  imports Semver "HOL-Library.Product_Lexorder"
begin

text \<open>
  The arithmetic of digit strings and the precedence of versions. The comparison of the code is the comparison
  of a linearly ordered key: three numbers and the pre-release identifiers, in which numbers come before words,
  a shorter list before its extensions, and any pre-release before the release.
\<close>

subsection \<open>The number a digit string denotes\<close>

fun digits_number :: "string \<Rightarrow> nat" where
  "digits_number [] = 0"
| "digits_number (c # s) = digit_value c * 10 ^ length s + digits_number s"

lemma digit_value_less: "digit c \<Longrightarrow> digit_value c < 10"
  by (auto simp: digit_def digit_value_def)

lemma digit_value_mono: "digit c \<Longrightarrow> digit d \<Longrightarrow> c < d \<longleftrightarrow> digit_value c < digit_value d"
  by (auto simp: digit_def digit_value_def less_char_def)

lemma digit_value_inj: "digit c \<Longrightarrow> digit d \<Longrightarrow> digit_value c = digit_value d \<Longrightarrow> c = d"
  using digit_value_mono[of c d] digit_value_mono[of d c] by (metis less_irrefl linorder_neqE)

lemma digit_value_zero: "digit c \<Longrightarrow> digit_value c = 0 \<longleftrightarrow> c = CHR ''0''"
  using digit_value_inj[of c "CHR ''0''"] by (auto simp: digit_def digit_value_def)

lemma place_less:
  fixes a b x n :: nat
  assumes "x < n" "a < b"
  shows "a * n + x < b * n"
proof -
  have "a * n + x < Suc a * n" using assms(1) by simp
  also have "\<dots> \<le> b * n" using assms(2) by (intro mult_le_mono1) simp
  finally show ?thesis .
qed

lemma place_less_iff:
  fixes a b x y n :: nat
  assumes "x < n" "y < n"
  shows "a * n + x < b * n + y \<longleftrightarrow> a < b \<or> a = b \<and> x < y"
  using place_less[of x n a b] place_less[of y n b a] assms by (cases a b rule: linorder_cases) auto

lemma digits_number_bound: "list_all digit s \<Longrightarrow> digits_number s < 10 ^ length s"
proof (induction s)
  case (Cons c s)
  then show ?case using place_less[of "digits_number s" "10 ^ length s" "digit_value c" 10] digit_value_less[of c] by auto
qed simp

lemma digits_number_append: "digits_number (s @ t) = digits_number s * 10 ^ length t + digits_number t"
  by (induction s) (auto simp: power_add algebra_simps)

lemma digits_number_less:
  "list_all digit s \<Longrightarrow> list_all digit t \<Longrightarrow> length s = length t \<Longrightarrow> digits_number s < digits_number t \<longleftrightarrow> s < t"
proof (induction s arbitrary: t)
  case (Cons c s)
  then obtain d u where t: "t = d # u" by (cases t) auto
  with Cons have "digits_number (c # s) < digits_number t \<longleftrightarrow>
    digit_value c < digit_value d \<or> digit_value c = digit_value d \<and> digits_number s < digits_number u"
    using place_less_iff[of "digits_number s" "10 ^ length u" "digits_number u" "digit_value c" "digit_value d"]
      digits_number_bound[of s] digits_number_bound[of u] by simp
  then show ?case using Cons t digit_value_mono[of c d] digit_value_inj[of c d] by auto
qed simp

lemma strip_zeros_number: "list_all digit s \<Longrightarrow> digits_number (strip_zeros s) = digits_number s"
  by (induction s rule: strip_zeros.induct) (auto simp: digit_value_def)

lemma strip_zeros_digits: "list_all digit s \<Longrightarrow> list_all digit (strip_zeros s)"
  by (induction s rule: strip_zeros.induct) auto

lemma strip_zeros_shape: "list_all digit s \<Longrightarrow> length (strip_zeros s) \<le> 1 \<or> hd (strip_zeros s) \<noteq> CHR ''0''"
  by (induction s rule: strip_zeros.induct) auto

lemma normalizeDigits_number: "list_all digit s \<Longrightarrow> digits_number (normalizeDigits s) = digits_number s"
  using strip_zeros_number[of s] by (auto simp: normalizeDigits_def Let_def digit_value_def)

lemma normalizeDigits_numeric: "list_all digit s \<Longrightarrow> numeric (normalizeDigits s)"
  using strip_zeros_digits[of s] by (auto simp: normalizeDigits_def Let_def numeric_def digit_def)

lemma normalizeDigits_shape: "list_all digit s \<Longrightarrow> length (normalizeDigits s) = 1 \<or> hd (normalizeDigits s) \<noteq> CHR ''0''"
  using strip_zeros_shape[of s] by (cases "strip_zeros s") (auto simp: normalizeDigits_def Let_def)

lemma leading_digit_bound:
  assumes "numeric s" "hd s \<noteq> CHR ''0''"
  shows "10 ^ (length s - 1) \<le> digits_number s"
proof -
  obtain c t where s: "s = c # t" using assms(1) by (cases s) (auto simp: numeric_def)
  have "0 < digit_value c" using assms s digit_value_zero[of c] by (auto simp: numeric_def)
  then show ?thesis using s by (simp add: trans_le_add1)
qed

lemma shorter_is_smaller:
  assumes a: "numeric a" and b: "numeric b" "length b = 1 \<or> hd b \<noteq> CHR ''0''" and l: "length a < length b"
  shows "digits_number a < digits_number b"
proof -
  have "0 < length a" using a by (cases a) (auto simp: numeric_def)
  then have "hd b \<noteq> CHR ''0''" using b l by auto
  then have "10 ^ (length b - 1) \<le> digits_number b" using leading_digit_bound b(1) by blast
  moreover have "digits_number a < 10 ^ length a" using a digits_number_bound by (simp add: numeric_def)
  moreover have "(10::nat) ^ length a \<le> 10 ^ (length b - 1)" using l by (intro power_increasing) auto
  ultimately show ?thesis by linarith
qed

definition cmp :: "'a::linorder \<Rightarrow> 'a \<Rightarrow> int" where
  "cmp x y = (if x < y then -1 else if x = y then 0 else 1)"

lemma cmp_simps: "cmp x y < 0 \<longleftrightarrow> x < y" "cmp x y = 0 \<longleftrightarrow> x = y" "0 \<le> cmp x y \<longleftrightarrow> y \<le> x" "0 < cmp x y \<longleftrightarrow> y < x"
  "cmp x y \<le> 0 \<longleftrightarrow> x \<le> y"
  by (auto simp: cmp_def)

lemma compareDigits_number:
  assumes "list_all digit a" "list_all digit b"
  shows "compareDigits a b = cmp (digits_number a) (digits_number b)"
proof -
  define x where "x = normalizeDigits a"
  define y where "y = normalizeDigits b"
  have x: "numeric x" "length x = 1 \<or> hd x \<noteq> CHR ''0''" "digits_number x = digits_number a"
    using assms normalizeDigits_numeric normalizeDigits_shape normalizeDigits_number by (auto simp: x_def)
  have y: "numeric y" "length y = 1 \<or> hd y \<noteq> CHR ''0''" "digits_number y = digits_number b"
    using assms normalizeDigits_numeric normalizeDigits_shape normalizeDigits_number by (auto simp: y_def)
  have "compareDigits a b = (if length x \<noteq> length y then (if length x < length y then -1 else 1)
      else if x = y then 0 else if x < y then -1 else 1)"
    by (simp add: compareDigits_def x_def y_def Let_def)
  also have "\<dots> = cmp (digits_number x) (digits_number y)"
  proof (cases "length x" "length y" rule: linorder_cases)
    case equal
    have "list_all digit x" "list_all digit y" using x y by (auto simp: numeric_def)
    then have "digits_number x < digits_number y \<longleftrightarrow> x < y" "digits_number y < digits_number x \<longleftrightarrow> y < x"
      using digits_number_less equal by auto
    then show ?thesis using equal by (auto simp: cmp_def)
  qed (use shorter_is_smaller[OF x(1) y(1,2)] shorter_is_smaller[OF y(1) x(1,2)] in \<open>auto simp: cmp_def\<close>)
  finally show ?thesis using x y by simp
qed

lemma digit_char_value: "d < 10 \<Longrightarrow> digit (digit_char d) \<and> digit_value (digit_char d) = d"
  by (simp add: digit_def digit_value_def digit_char_def)

lemma increment_loop_number:
  "list_all digit ds \<Longrightarrow> list_all digit (increment_loop ds) \<and>
     digits_number (rev (increment_loop ds)) = digits_number (rev ds) + 1"
proof (induction ds)
  case (Cons d ds)
  show ?case
  proof (cases "d = CHR ''9''")
    case True
    then show ?thesis using Cons by (auto simp: digits_number_append digit_value_def digit_def)
  next
    case False
    then have "digit_value d + 1 < 10"
      using Cons.prems digit_value_less[of d] digit_value_inj[of d "CHR ''9''"] by (force simp: digit_def digit_value_def)
    then show ?thesis using False Cons.prems digit_char_value by (simp add: digits_number_append)
  qed
qed (simp add: digit_def digit_value_def)

lemma incrementDigits_number:
  assumes "list_all digit s"
  shows "numeric (incrementDigits s)" "digits_number (incrementDigits s) = digits_number s + 1"
proof -
  have d: "list_all digit (rev (normalizeDigits s))"
    using normalizeDigits_numeric[OF assms] by (simp add: numeric_def)
  have "increment_loop ds \<noteq> []" for ds by (cases ds) auto
  then show "numeric (incrementDigits s)"
    using increment_loop_number[OF d] by (simp add: incrementDigits_def numeric_def)
  show "digits_number (incrementDigits s) = digits_number s + 1"
    using increment_loop_number[OF d] normalizeDigits_number[OF assms] by (simp add: incrementDigits_def)
qed

subsection \<open>Precedence\<close>

datatype pre_id = PNumber nat | PWord string

datatype stage = Prerelease "pre_id list" | Release

text \<open>Both are ordered through an injective key into products of ordered types.\<close>

fun id_rank :: "pre_id \<Rightarrow> bool \<times> nat \<times> string" where
  "id_rank (PNumber n) = (False, n, [])"
| "id_rank (PWord w) = (True, 0, w)"

lemma id_rank_inj: "id_rank x = id_rank y \<Longrightarrow> x = y"
  by (cases x; cases y) simp_all

instantiation pre_id :: linorder
begin

definition less_eq_pre_id :: "pre_id \<Rightarrow> pre_id \<Rightarrow> bool" where
  "x \<le> y \<longleftrightarrow> id_rank x \<le> id_rank y"

definition less_pre_id :: "pre_id \<Rightarrow> pre_id \<Rightarrow> bool" where
  "x < y \<longleftrightarrow> id_rank x < id_rank y"

instance
  by (standard; unfold less_eq_pre_id_def less_pre_id_def)
    (rule less_le_not_le, rule order_refl, erule (1) order_trans, rule id_rank_inj, erule (1) order_antisym, rule linear)

end

fun stage_rank :: "stage \<Rightarrow> bool \<times> pre_id list" where
  "stage_rank (Prerelease ids) = (False, ids)"
| "stage_rank Release = (True, [])"

lemma stage_rank_inj: "stage_rank x = stage_rank y \<Longrightarrow> x = y"
  by (cases x; cases y) simp_all

instantiation stage :: linorder
begin

definition less_eq_stage :: "stage \<Rightarrow> stage \<Rightarrow> bool" where
  "s \<le> t \<longleftrightarrow> stage_rank s \<le> stage_rank t"

definition less_stage :: "stage \<Rightarrow> stage \<Rightarrow> bool" where
  "s < t \<longleftrightarrow> stage_rank s < stage_rank t"

instance
  by (standard; unfold less_eq_stage_def less_stage_def)
    (rule less_le_not_le, rule order_refl, erule (1) order_trans, rule stage_rank_inj, erule (1) order_antisym, rule linear)

end

lemma less_simps [simp]:
  "PNumber a < PNumber b \<longleftrightarrow> a < b" "PWord s < PWord t \<longleftrightarrow> s < t" "PNumber a < PWord t" "\<not> PWord s < PNumber b"
  "Prerelease p < Prerelease q \<longleftrightarrow> p < q" "Prerelease p < Release" "\<not> Release < x"
  by (auto simp: less_pre_id_def less_stage_def; cases x; simp)+

definition pre_id_of :: "string \<Rightarrow> pre_id" where
  "pre_id_of s = (if numeric s then PNumber (digits_number s) else PWord s)"

definition stage_of :: "string list option \<Rightarrow> stage" where
  "stage_of pre = (case pre of None \<Rightarrow> Release | Some ids \<Rightarrow> Prerelease (map pre_id_of ids))"

definition core_number :: "string list \<Rightarrow> nat \<times> nat \<times> nat" where
  "core_number core = (digits_number (part_at core 0), digits_number (part_at core 1), digits_number (part_at core 2))"

definition precedence :: "version_key \<Rightarrow> (nat \<times> nat \<times> nat) \<times> stage" where
  "precedence v = (core_number (vk_core v), stage_of (vk_pre v))"

definition digit_core :: "string list \<Rightarrow> bool" where
  "digit_core core \<longleftrightarrow> list_all (list_all digit) core"

lemma part_at_digits: "digit_core core \<Longrightarrow> list_all digit (part_at core i)"
  by (auto simp: digit_core_def part_at_def list_all_length digit_def)

lemma compareCores_number:
  assumes "digit_core a" "digit_core b"
  shows "compareCores a b = cmp (core_number a) (core_number b)"
  using compareDigits_number[OF part_at_digits[OF assms(1)] part_at_digits[OF assms(2)]]
  by (simp add: compareCores_def core_number_def numeral_3_eq_3 Let_def cmp_def numeral_2_eq_2)

lemma compare_identifiers:
  "comparePrereleaseIdentifiers (Some a) (Some b) = cmp (pre_id_of a) (pre_id_of b)"
proof (cases "numeric a \<and> numeric b")
  case True
  then have "compareDigits a b = cmp (digits_number a) (digits_number b)"
    by (intro compareDigits_number) (auto simp: numeric_def)
  then show ?thesis using True by (auto simp: pre_id_of_def cmp_def)
qed (auto simp: pre_id_of_def cmp_def compare_strings_def)

lemma prerelease_loop_list: "prerelease_loop as bs = cmp (map pre_id_of as) (map pre_id_of bs)"
proof (induction as bs rule: prerelease_loop.induct)
  case (4 a as b bs)
  then show ?case using compare_identifiers[of a b]
    by (auto simp: Let_def cmp_def simp del: comparePrereleaseIdentifiers.simps split: if_splits)
qed (simp_all add: cmp_def)

lemma comparePrereleases_stage: "comparePrereleases a b = cmp (stage_of a) (stage_of b)"
  by (cases a; cases b) (auto simp: stage_of_def prerelease_loop_list cmp_def)

lemma compareVersions_cmp:
  assumes "digit_core (vk_core a)" "digit_core (vk_core b)"
  shows "compareVersions a b = cmp (precedence a) (precedence b)"
  using compareCores_number[OF assms] comparePrereleases_stage[of "vk_pre a" "vk_pre b"]
  by (auto simp: compareVersions_def Let_def precedence_def cmp_def)

end
