(* ===== verification/SemverRanges.thy ===== *)
theory SemverRanges
  imports SemverOrder
begin

text \<open>
  What ranges admit: the meaning of caret and tilde, the rule for pre-releases, and that the version a range
  names is one it admits.
\<close>

subsection \<open>The shape of an exact version\<close>

lemma digit_not_special:
  assumes "digit c"
  shows "c \<noteq> CHR ''.''" "c \<noteq> CHR ''-''" "c \<noteq> CHR ''+''" "c \<noteq> CHR ''v''" "\<not> alpha c" "\<not> js_ws c" "c \<noteq> CHR ''|''"
  using assms by (auto simp: digit_def alpha_def js_ws_def)

lemma after_core_shape:
  assumes "after_core numeric s = Some t"
  shows "\<exists>a b c. numeric a \<and> numeric b \<and> numeric c \<and> s = a @ CHR ''.'' # b @ CHR ''.'' # c @ t"
proof -
  have digits: "\<exists>a. numeric a \<and> s = a @ r" if "after_digits numeric s = Some r" for s r
    using that by (intro exI[of _ "takeWhile digit s"]) (auto simp: after_digits_def split: if_splits)
  have dot: "s = CHR ''.'' # r" if "after_dot s = Some r" for s r
    using that by (auto simp: after_dot_def split: list.splits if_splits)
  obtain r1 r2 r3 r4 where r: "after_digits numeric s = Some r1" "after_dot r1 = Some r2"
    "after_digits numeric r2 = Some r3" "after_dot r3 = Some r4" "after_digits numeric r4 = Some t"
    using assms by (auto simp: after_core_def bind_eq_Some_conv)
  then show ?thesis using digits[OF r(1)] digits[OF r(3)] digits[OF r(5)] dot[OF r(2)] dot[OF r(4)] by auto
qed

lemma tail_ok_shape:
  assumes "tail_ok version_char pre build t" "\<And>b. build b \<Longrightarrow> list_all version_char b"
  shows "(t = [] \<or> hd t = CHR ''-'' \<or> hd t = CHR ''+'') \<and> list_all (\<lambda>c. version_char c \<or> c = CHR ''+'') t"
proof (cases t)
  case (Cons c r)
  show ?thesis
  proof (cases "c = CHR ''-''")
    case True
    have "dropWhile version_char r = [] \<or> (\<exists>b. dropWhile version_char r = CHR ''+'' # b \<and> list_all version_char b)"
    proof (cases "dropWhile version_char r")
      case (Cons d b)
      then have "d = CHR ''+'' \<and> build b" using assms(1) \<open>t = c # r\<close> True by (simp add: tail_ok_def split: if_splits)
      then show ?thesis using assms(2) Cons by simp
    qed simp
    moreover have "list_all version_char (takeWhile version_char r)" by (auto simp: list_all_iff dest: set_takeWhileD)
    moreover have "set r = set (takeWhile version_char r) \<union> set (dropWhile version_char r)"
      by (metis set_append takeWhile_dropWhile_id)
    ultimately have "list_all (\<lambda>c. version_char c \<or> c = CHR ''+'') r"
      by (auto simp: list_all_iff)
    then show ?thesis using Cons True by (auto simp: version_char_def id_char_def)
  next
    case False
    then have "c = CHR ''+'' \<and> build r" using assms(1) Cons by (simp add: tail_ok_def)
    then show ?thesis using assms(2)[of r] Cons by (auto simp: list_all_iff)
  qed
qed simp

lemma EXACT_VERSION_shape:
  assumes "EXACT_VERSION s"
  obtains a b c t where "numeric a" "numeric b" "numeric c" "s = a @ CHR ''.'' # b @ CHR ''.'' # c @ t"
    "t = [] \<or> hd t = CHR ''-'' \<or> hd t = CHR ''+''" "list_all (\<lambda>c. version_char c \<or> c = CHR ''+'') t"
proof -
  obtain t where t: "after_core numeric s = Some t"
    "tail_ok version_char (\<lambda>p. p \<noteq> []) (\<lambda>b. b \<noteq> [] \<and> list_all version_char b) t"
    using assms by (auto simp: EXACT_VERSION_def split: option.splits)
  show thesis using after_core_shape[OF t(1)] tail_ok_shape[OF t(2)] that by blast
qed

lemma numeric_chars:
  "numeric a \<Longrightarrow> CHR ''.'' \<notin> set a" "numeric a \<Longrightarrow> x \<in> set a \<Longrightarrow> x \<noteq> CHR ''-'' \<and> x \<noteq> CHR ''+''"
  by (metis digit_not_special(1) list_all_iff numeric_def, metis digit_not_special(2,3) list_all_iff numeric_def)

lemma core_text_shape:
  assumes "numeric a" "numeric b" "numeric c" "t = [] \<or> hd t = CHR ''-'' \<or> hd t = CHR ''+''"
  shows "core_text (a @ CHR ''.'' # b @ CHR ''.'' # c @ t) = a @ CHR ''.'' # b @ CHR ''.'' # c"
proof -
  have "takeWhile (\<lambda>c. c \<noteq> CHR ''-'' \<and> c \<noteq> CHR ''+'') t = []" using assms(4) by (cases t) auto
  then show ?thesis using numeric_chars(2) assms(1-3)
    by (simp add: core_text_def takeWhile_append2 takeWhile_append)
qed

lemma split_core:
  assumes "numeric a" "numeric b" "numeric c"
  shows "split_on (CHR ''.'') (a @ CHR ''.'' # b @ CHR ''.'' # c) = [a, b, c]"
  using assms numeric_chars(1) by (simp add: split_on_append split_on_none)

lemma exact_core:
  assumes "EXACT_VERSION s"
  shows "\<exists>a b c. numeric a \<and> numeric b \<and> numeric c \<and> coreOf s = [normalizeDigits a, normalizeDigits b, normalizeDigits c] \<and>
    boundParts s = Some [normalizeDigits a, normalizeDigits b, normalizeDigits c]"
proof -
  obtain a b c t where s: "numeric a" "numeric b" "numeric c" "s = a @ CHR ''.'' # b @ CHR ''.'' # c @ t"
    "t = [] \<or> hd t = CHR ''-'' \<or> hd t = CHR ''+''"
    using EXACT_VERSION_shape[OF assms] by metis
  then have core: "split_on (CHR ''.'') (core_text s) = [a, b, c]" by (simp add: core_text_shape split_core)
  have "coreOf s = [normalizeDigits a, normalizeDigits b, normalizeDigits c]"
    by (simp add: coreOf_def core padded_def part_at_def)
  moreover have "boundParts s = Some [normalizeDigits a, normalizeDigits b, normalizeDigits c]"
    using assms s(1-3) core by (simp add: boundParts_def PARTIAL_VERSION_def Let_def)
  ultimately show ?thesis using s(1-3) by blast
qed

lemma numeric_normalize: "numeric a \<Longrightarrow> numeric (normalizeDigits a)"
  by (simp add: numeric_def normalizeDigits_numeric[unfolded numeric_def])

lemma exact_core_parts:
  assumes "EXACT_VERSION s"
  obtains p q r where "numeric p" "numeric q" "numeric r" "coreOf s = [p, q, r]" "boundParts s = Some [p, q, r]"
  using exact_core[OF assms] numeric_normalize by blast

lemma exact_digit_core: "EXACT_VERSION s \<Longrightarrow> digit_core (coreOf s)"
  by (erule exact_core_parts) (simp add: digit_core_def numeric_def)

lemma padded_full: "padded [p, q, r] = [p, q, r]"
  by (simp add: padded_def part_at_def)

subsection \<open>Ceilings\<close>

lemma numeric_digits: "numeric a \<Longrightarrow> list_all digit a"
  by (simp add: numeric_def)

lemma zero_digits: "numeric p \<Longrightarrow> normalizeDigits p = ''0'' \<longleftrightarrow> digits_number p = 0"
proof -
  assume p: "numeric p"
  define n where "n = normalizeDigits p"
  have n: "numeric n" "length n = 1 \<or> hd n \<noteq> CHR ''0''" "digits_number n = digits_number p"
    unfolding n_def using p numeric_normalize normalizeDigits_shape normalizeDigits_number numeric_digits by blast+
  obtain c t where ct: "n = c # t" "digit c" using n(1) by (cases n) (auto simp: numeric_def)
  have "n = ''0''" if "digits_number n = 0"
    using that n(2) ct digit_value_zero[of c] by auto
  moreover have "digits_number n = 0" if "n = ''0''" using that by (simp add: digit_value_def)
  ultimately show ?thesis using n(3) by (auto simp: n_def)
qed

lemma core_number_parts:
  "core_number [p, q, r] = (digits_number p, digits_number q, digits_number r)"
  by (simp add: core_number_def part_at_def)

lemma caret_ceiling_number:
  assumes "numeric p" "numeric q" "numeric r"
  shows "digit_core (caretCeiling [p, q, r])"
    "core_number (caretCeiling [p, q, r]) =
      (if digits_number p \<noteq> 0 then (digits_number p + 1, 0, 0)
       else if digits_number q \<noteq> 0 then (0, digits_number q + 1, 0) else (0, 0, digits_number r + 1))"
  using assms incrementDigits_number[OF numeric_digits] numeric_digits
  by (auto simp: caretCeiling_def nextAfter_def zero_digits digit_core_def padded_def part_at_def core_number_def
      digit_value_def digit_def Let_def)

lemma tilde_ceiling_number:
  assumes "numeric p" "numeric q" "numeric r"
  shows "digit_core (tildeCeiling [p, q, r])"
    "core_number (tildeCeiling [p, q, r]) = (digits_number p, digits_number q + 1, 0)"
  using assms incrementDigits_number[OF numeric_digits] numeric_digits
  by (auto simp: tildeCeiling_def nextAfter_def digit_core_def padded_def part_at_def core_number_def
      digit_value_def digit_def)

subsection \<open>A range of one comparator\<close>

text \<open>Texts without blanks and bars are their own only comparator.\<close>

definition plain :: "string \<Rightarrow> bool" where
  "plain s \<longleftrightarrow> s \<noteq> [] \<and> list_all (\<lambda>c. \<not> js_ws c \<and> c \<noteq> CHR ''|'') s"

lemma plain_trim: "list_all (\<lambda>c. \<not> js_ws c) s \<Longrightarrow> js_trim s = s \<and> trim_start s = s"
proof -
  assume s: "list_all (\<lambda>c. \<not> js_ws c) s"
  have "dropWhile js_ws t = t" if "list_all (\<lambda>c. \<not> js_ws c) t" for t using that by (cases t) auto
  from this[OF s] this[of "rev s"] s show ?thesis by (simp add: js_trim_def trim_start_def trim_end_def)
qed

lemma plain_ws: "plain s \<Longrightarrow> list_all (\<lambda>c. \<not> js_ws c) s"
  by (auto simp: plain_def list_all_iff)

lemma no_blanks_operator:
  assumes "list_all (\<lambda>c. \<not> js_ws c) s"
  shows "spaced_operator s = None"
proof -
  have "\<not> (case drop n s of c # _ \<Rightarrow> js_ws c | [] \<Rightarrow> False)" for n
    using assms in_set_dropD[of _ n s] by (cases "drop n s") (auto simp: list_all_iff)
  then show ?thesis by (simp add: spaced_operator_def)
qed

lemma no_blanks_kept: "list_all (\<lambda>c. \<not> js_ws c) s \<Longrightarrow> drop_operator_blanks s = s"
proof (induction s)
  case (Cons c s)
  then show ?case using no_blanks_operator[of "c # s"] by simp
qed simp

lemma no_bars_kept: "CHR ''|'' \<notin> set s \<Longrightarrow> split_or s = [s]"
  by (induction s rule: split_or.induct) auto

lemma no_blanks_split:
  assumes "list_all (\<lambda>c. \<not> js_ws c) s"
  shows "split_blanks s = [s]" "hyphen_range s = None"
proof -
  have e: "dropWhile (\<lambda>c. \<not> js_ws c) s = []" using assms by (simp add: list_all_iff)
  show "split_blanks s = [s]" by (subst split_blanks.simps) (simp only: e list.case)
  show "hyphen_range s = None" by (simp only: hyphen_range_def e Let_def dropWhile.simps list.case)
qed

lemma plain_comparators: "plain s \<Longrightarrow> map comparatorsOf (split_or s) = [[s]]"
proof -
  assume s: "plain s"
  note ws = plain_ws[OF s]
  have "CHR ''|'' \<notin> set s" "s \<noteq> []" using s by (auto simp: plain_def list_all_iff)
  then show ?thesis
    using plain_trim[OF ws] no_blanks_kept[OF ws] no_blanks_split[OF ws] no_bars_kept by (simp add: comparatorsOf_def)
qed

lemma plain_range:
  assumes "plain s" "\<not> URL_SCHEME s" "comparatorAdmitsVersion s v (namesPrereleaseOnCore s v) = Some b"
  shows "rangeAdmitsVersion s v = (if isAnyReleaseComparator s then comparatorAdmitsVersion ''*'' v False else Some b)"
  using assms plain_comparators[OF assms(1)] plain_trim[OF plain_ws[OF assms(1)]]
  by (auto simp: rangeAdmitsVersion_def Let_def)

text \<open>An operator in front of an exact version.\<close>

lemma version_char_plain: "version_char c \<or> c = CHR ''+'' \<Longrightarrow> \<not> js_ws c \<and> c \<noteq> CHR ''|''"
  by (auto simp: version_char_def id_char_def digit_def alpha_def js_ws_def)

lemma exact_plain:
  assumes "EXACT_VERSION b"
  shows "plain b" "digit (hd b)" "b \<noteq> []"
proof -
  obtain p q r t where b: "numeric p" "numeric q" "numeric r" "b = p @ CHR ''.'' # q @ CHR ''.'' # r @ t"
    "list_all (\<lambda>c. version_char c \<or> c = CHR ''+'') t"
    using EXACT_VERSION_shape[OF assms] by metis
  have d: "x \<in> set p \<union> set q \<union> set r \<Longrightarrow> \<not> js_ws x \<and> x \<noteq> CHR ''|''" for x
    using b(1-3) digit_not_special(6,7)[of x] by (auto simp: numeric_def list_all_iff)
  have t: "x \<in> set t \<Longrightarrow> \<not> js_ws x \<and> x \<noteq> CHR ''|''" for x
    using b(5) version_char_plain[of x] by (auto simp: list_all_iff)
  show "plain b" using d t by (auto simp: b(4) plain_def list_all_iff js_ws_def)
  show "digit (hd b)" "b \<noteq> []" using b(1,4) by (cases p; auto simp: numeric_def)+
qed

lemma digit_head_operator:
  assumes "b \<noteq> []" "digit (hd b)"
  shows "range_operator b = None" "\<not> v_digit b" "\<not> URL_SCHEME b" "\<not> ANY_RELEASE_COMPARATOR b"
proof -
  obtain d s where b: "b = d # s" "digit d" using assms by (cases b) auto
  then show "range_operator b = None" "\<not> v_digit b" "\<not> URL_SCHEME b" "\<not> ANY_RELEASE_COMPARATOR b"
    by (auto simp: range_operator_def RANGE_OPERATORS_def digit_def alpha_def ANY_RELEASE_COMPARATOR_def prefix_Cons
        simp del: v_digit.simps) (cases s; simp add: digit_def)+
qed

definition version_of :: "string \<Rightarrow> version_key" where
  "version_of v = \<lparr>vk_core = coreOf v, vk_pre = prereleaseOf v\<rparr>"

lemma version_of_simps [simp]: "vk_core (version_of v) = coreOf v" "vk_pre (version_of v) = prereleaseOf v"
  by (simp_all add: version_of_def)

definition release_number :: "string \<Rightarrow> nat \<times> nat \<times> nat" where
  "release_number v = core_number (coreOf v)"

lemma compareCores_exact:
  "EXACT_VERSION v \<Longrightarrow> EXACT_VERSION b \<Longrightarrow> compareCores (coreOf v) (coreOf b) = cmp (release_number v) (release_number b)"
  by (simp add: compareCores_number exact_digit_core release_number_def)

lemma compareVersions_exact:
  "EXACT_VERSION v \<Longrightarrow> EXACT_VERSION b \<Longrightarrow>
     compareVersions (version_of v) (version_of b) = cmp (precedence (version_of v)) (precedence (version_of b))"
  by (simp add: compareVersions_cmp exact_digit_core)

lemma comparator_exact:
  assumes "js_trim s = t" "\<not> URL_SCHEME t" "\<not> ANY_RELEASE_COMPARATOR t"
    and b: "boundAfterOperator t (range_operator t) = b" "EXACT_VERSION b" and v: "EXACT_VERSION v"
  shows "comparatorAdmitsVersion s v admitted =
    Some ((prereleaseOf v \<noteq> None \<and> \<not> admitted \<longrightarrow> prereleaseOf b \<noteq> None \<and> release_number v = release_number b) \<and>
      boundAdmitsVersion (range_operator t) (coreOf b) True (version_of v) (version_of b))"
proof -
  obtain p q r where parts: "coreOf b = [p, q, r]" "boundParts b = Some [p, q, r]"
    using exact_core_parts[OF b(2)] by metis
  have "compareCores (coreOf v) [p, q, r] = 0 \<longleftrightarrow> release_number v = release_number b"
    using compareCores_exact[OF v b(2)] parts by (simp add: cmp_simps)
  then show ?thesis
    using assms parts padded_full by (auto simp: comparatorAdmitsVersion_def Let_def version_of_def)
qed

lemma names_prerelease_exact:
  assumes "js_trim s = t" "boundAfterOperator t (range_operator t) = b" "EXACT_VERSION b" "EXACT_VERSION v"
  shows "namesPrereleaseOnCore s v \<longleftrightarrow> prereleaseOf b \<noteq> None \<and> release_number v = release_number b"
  using assms compareCores_exact[OF assms(3,4)] by (auto simp: namesPrereleaseOnCore_def Let_def cmp_simps)

lemma star_comparator:
  "EXACT_VERSION v \<Longrightarrow> comparatorAdmitsVersion ''*'' v False = Some (prereleaseOf v = None)"
proof -
  have e: "js_trim ''*'' = ''*''" "URL_SCHEME ''*'' = False" "range_operator ''*'' = None"
    "ANY_RELEASE_COMPARATOR ''*'' = False" "boundParts ''*'' = Some []" by code_simp+
  assume "EXACT_VERSION v"
  then show ?thesis by (simp add: comparatorAdmitsVersion_def Let_def e)
qed

subsection \<open>Caret and tilde\<close>

lemma operator_then_exact:
  assumes b: "EXACT_VERSION b" and c: "c \<in> {CHR ''^'', CHR ''~''}"
  shows "range_operator (c # b) = Some [c]" "boundAfterOperator (c # b) (range_operator (c # b)) = b"
    "\<not> URL_SCHEME (c # b)" "\<not> ANY_RELEASE_COMPARATOR (c # b)" "plain (c # b)"
proof -
  have d: "hd b \<noteq> CHR ''>''" "b \<noteq> []" using exact_plain[OF b] by (auto simp: digit_def)
  then have "\<not> prefix ''>'' b" by (cases b) auto
  then show op: "range_operator (c # b) = Some [c]" using c by (auto simp: range_operator_def RANGE_OPERATORS_def)
  have "trim_start b = b" using plain_trim[OF plain_ws[OF exact_plain(1)[OF b]]] by simp
  then show "boundAfterOperator (c # b) (range_operator (c # b)) = b"
    using digit_head_operator(2)[OF exact_plain(3)[OF b] exact_plain(2)[OF b]] c op by (auto simp: Let_def)
  show "\<not> URL_SCHEME (c # b)" "\<not> ANY_RELEASE_COMPARATOR (c # b)"
    using c by (auto simp: alpha_def ANY_RELEASE_COMPARATOR_def)
  show "plain (c # b)" using exact_plain(1)[OF b] c by (auto simp: plain_def js_ws_def)
qed

lemma one_comparator_range:
  assumes b: "EXACT_VERSION b" and v: "EXACT_VERSION v" and c: "c \<in> {CHR ''^'', CHR ''~''}"
  shows "rangeAdmitsVersion (c # b) v =
    Some ((prereleaseOf v \<noteq> None \<longrightarrow> prereleaseOf b \<noteq> None \<and> release_number v = release_number b) \<and>
      boundAdmitsVersion (Some [c]) (coreOf b) True (version_of v) (version_of b))"
proof -
  note op = operator_then_exact[OF b c]
  have trim: "js_trim (c # b) = c # b" using plain_trim[OF plain_ws[OF op(5)]] by simp
  obtain p q r where "boundParts b = Some [p, q, r]" using exact_core_parts[OF b] by metis
  then have "\<not> isAnyReleaseComparator (c # b)" using op trim by (simp add: isAnyReleaseComparator_def Let_def)
  moreover note names_prerelease_exact[OF trim op(2) b v]
  ultimately show ?thesis
    using plain_range[OF op(5,3) comparator_exact[OF trim op(3,4,2) b v]] op(1) by auto
qed

lemma bound_admits_caret:
  assumes b: "EXACT_VERSION b" and v: "EXACT_VERSION v"
  shows "boundAdmitsVersion (Some ''^'') (coreOf b) True (version_of v) (version_of b) \<longleftrightarrow>
      (precedence (version_of b) \<le> precedence (version_of v) \<or> prereleaseOf b = None \<and> release_number b = (0, 0, 0)) \<and>
      release_number v < core_number (caretCeiling (coreOf b))"
    "boundAdmitsVersion (Some ''~'') (coreOf b) True (version_of v) (version_of b) \<longleftrightarrow>
      (precedence (version_of b) \<le> precedence (version_of v) \<or> prereleaseOf b = None \<and> release_number b = (0, 0, 0)) \<and>
      release_number v < core_number (tildeCeiling (coreOf b))"
proof -
  obtain p q r where parts: "numeric p" "numeric q" "numeric r" "coreOf b = [p, q, r]" using exact_core_parts[OF b] by metis
  have zero: "compareCores (coreOf b) ZERO_CORE = 0 \<longleftrightarrow> release_number b = (0, 0, 0)"
    using compareCores_number[OF exact_digit_core[OF b], of ZERO_CORE]
    by (simp add: cmp_simps release_number_def ZERO_CORE_def digit_core_def digit_def core_number_parts digit_value_def)
  have ceil: "compareCores (coreOf v) x < 0 \<longleftrightarrow> release_number v < core_number x" if "digit_core x" for x
    using compareCores_number[OF exact_digit_core[OF v] that] by (simp add: cmp_simps release_number_def)
  note order = compareVersions_exact[OF v b]
  show "boundAdmitsVersion (Some ''^'') (coreOf b) True (version_of v) (version_of b) \<longleftrightarrow>
      (precedence (version_of b) \<le> precedence (version_of v) \<or> prereleaseOf b = None \<and> release_number b = (0, 0, 0)) \<and>
      release_number v < core_number (caretCeiling (coreOf b))"
    using ceil[OF caret_ceiling_number(1)[OF parts(1-3)]] zero order parts(4)
    by (auto simp: boundAdmitsVersion_def Let_def cmp_simps)
  show "boundAdmitsVersion (Some ''~'') (coreOf b) True (version_of v) (version_of b) \<longleftrightarrow>
      (precedence (version_of b) \<le> precedence (version_of v) \<or> prereleaseOf b = None \<and> release_number b = (0, 0, 0)) \<and>
      release_number v < core_number (tildeCeiling (coreOf b))"
    using ceil[OF tilde_ceiling_number(1)[OF parts(1-3)]] zero order parts(4)
    by (auto simp: boundAdmitsVersion_def Let_def cmp_simps)
qed

lemma precedence_release_le: "precedence (version_of b) \<le> precedence (version_of v) \<Longrightarrow> release_number b \<le> release_number v"
  by (auto simp: precedence_def release_number_def)

lemma zero_release_least: "(0, 0, 0) \<le> (x :: nat \<times> nat \<times> nat)"
  by (cases x) (auto simp: less_eq_prod_def)

text \<open>A pre-release that the rule for pre-releases lets through is not below a release that names zero.\<close>

lemma dropped_bound_reached:
  assumes "prereleaseOf b = None" "release_number b = (0, 0, 0)"
    "prereleaseOf v \<noteq> None \<longrightarrow> prereleaseOf b \<noteq> None \<and> release_number v = release_number b"
  shows "precedence (version_of b) \<le> precedence (version_of v)"
proof -
  have "prereleaseOf v = None" using assms(1,3) by blast
  then show ?thesis
    using assms zero_release_least[of "release_number v"]
    by (auto simp: precedence_def less_eq_prod_def release_number_def stage_of_def)
qed

text \<open>For an exact version written after a caret or a tilde, the range admits exactly the versions that are
  not below it in precedence and agree with it where they must: for the caret on the components up to the first
  that is not zero, for the tilde on major and minor. A pre-release is admitted only of the very release that
  the range names a pre-release of. Components have any number of digits.\<close>

theorem caret_and_tilde_ranges:
  assumes "EXACT_VERSION b" "EXACT_VERSION v" "release_number b = (major, minor, patch)" "release_number v = (x, y, z)"
  shows "rangeAdmitsVersion (CHR ''^'' # b) v =
      Some ((prereleaseOf v \<noteq> None \<longrightarrow> prereleaseOf b \<noteq> None \<and> release_number v = release_number b) \<and>
        precedence (version_of b) \<le> precedence (version_of v) \<and>
        x = major \<and> (major = 0 \<longrightarrow> y = minor \<and> (minor = 0 \<longrightarrow> z = patch))) \<and>
    rangeAdmitsVersion (CHR ''~'' # b) v =
      Some ((prereleaseOf v \<noteq> None \<longrightarrow> prereleaseOf b \<noteq> None \<and> release_number v = release_number b) \<and>
        precedence (version_of b) \<le> precedence (version_of v) \<and> x = major \<and> y = minor)"
proof -
  obtain p q r where parts: "numeric p" "numeric q" "numeric r" "coreOf b = [p, q, r]"
    using exact_core_parts[OF assms(1)] by metis
  have n: "digits_number p = major" "digits_number q = minor" "digits_number r = patch"
    using assms(3) parts(4) by (simp_all add: release_number_def core_number_parts)
  note ceilings = caret_ceiling_number(2)[OF parts(1-3), folded parts(4)] tilde_ceiling_number(2)[OF parts(1-3), folded parts(4)]
  have le: "(major, minor, patch) \<le> (x, y, z)" if "precedence (version_of b) \<le> precedence (version_of v)"
    using precedence_release_le[OF that] assms(3,4) by simp
  have caret: "(x, y, z) < core_number (caretCeiling (coreOf b)) \<longleftrightarrow>
      x = major \<and> (major = 0 \<longrightarrow> y = minor \<and> (minor = 0 \<longrightarrow> z = patch))" if "(major, minor, patch) \<le> (x, y, z)"
    using that unfolding ceilings n by (auto simp: less_eq_prod_def less_prod_def split: if_splits)
  have tilde: "(x, y, z) < core_number (tildeCeiling (coreOf b)) \<longleftrightarrow> x = major \<and> y = minor" if "(major, minor, patch) \<le> (x, y, z)"
    using that unfolding ceilings n by (auto simp: less_eq_prod_def less_prod_def)
  have ops: "[CHR ''^''] = ''^''" "[CHR ''~''] = ''~''" by simp_all
  show ?thesis
    using one_comparator_range[OF assms(1,2), of "CHR ''^''"] one_comparator_range[OF assms(1,2), of "CHR ''~''"]
      bound_admits_caret[OF assms(1,2)] dropped_bound_reached[of b v] le caret tilde assms(4) by auto
qed

subsection \<open>Pre-releases\<close>

lemma split_on_chars: "x \<in> set s \<Longrightarrow> x \<noteq> c \<Longrightarrow> \<exists>p \<in> set (split_on c s). x \<in> set p"
proof (induction s)
  case (Cons a s)
  obtain p ps where s: "split_on c s = p # ps" by (cases "split_on c s") auto
  show ?case
  proof (cases "x = a")
    case True
    then show ?thesis using Cons.prems s by auto
  next
    case False
    then have "\<exists>q \<in> set (split_on c s). x \<in> set q" using Cons by auto
    then show ?thesis using s by auto
  qed
qed simp

lemma prerelease_needs_dash: "CHR ''-'' \<notin> set v \<Longrightarrow> prereleaseOf v = None"
proof -
  assume "CHR ''-'' \<notin> set v"
  then have "\<forall>x \<in> set (takeWhile (\<lambda>c. c \<noteq> CHR ''+'') v). x \<noteq> CHR ''-''" using set_takeWhileD by metis
  then have "dropWhile (\<lambda>c. c \<noteq> CHR ''-'') (takeWhile (\<lambda>c. c \<noteq> CHR ''+'') v) = []" by simp
  then show ?thesis unfolding prereleaseOf_def Let_def by (simp only: list.case)
qed

lemma partial_no_dash: "PARTIAL_VERSION s \<noteq> None \<Longrightarrow> CHR ''-'' \<notin> set s"
proof
  assume s: "PARTIAL_VERSION s \<noteq> None" and d: "CHR ''-'' \<in> set s"
  then obtain p where p: "p \<in> set (split_on (CHR ''.'') s)" "CHR ''-'' \<in> set p"
    using split_on_chars[OF d, of "CHR ''.''"] by auto
  then have "numeric p \<or> wildcard p" using s by (auto simp: PARTIAL_VERSION_def Let_def list_all_iff split: if_splits)
  then show False using p(2) numeric_chars(2)[of p "CHR ''-''"] by (auto simp: wildcard_def)
qed

text \<open>A bound with a pre-release is written as an exact version.\<close>

lemma prerelease_bound_exact:
  assumes "boundParts b \<noteq> None" "prereleaseOf b \<noteq> None"
  shows "EXACT_VERSION b"
proof (rule ccontr)
  assume "\<not> EXACT_VERSION b"
  then have "PARTIAL_VERSION b \<noteq> None" using assms(1) by (auto simp: boundParts_def Let_def split: option.splits)
  then show False using prerelease_needs_dash[of b] assms(2) partial_no_dash by blast
qed

lemma comparator_names_prerelease:
  assumes c: "comparatorAdmitsVersion c v False = Some True" and v: "prereleaseOf v \<noteq> None"
  shows "namesPrereleaseOnCore c v"
proof -
  define t where "t = js_trim c"
  define b where "b = boundAfterOperator t (range_operator t)"
  have exact: "EXACT_VERSION v" using c by (auto simp: comparatorAdmitsVersion_def Let_def split: if_splits)
  have any: "\<not> ANY_RELEASE_COMPARATOR t"
    using c v by (auto simp: comparatorAdmitsVersion_def Let_def t_def split: if_splits)
  then obtain parts where parts: "boundParts b = Some parts" "length parts = 3" "prereleaseOf b \<noteq> None"
    using c v by (auto simp: comparatorAdmitsVersion_def Let_def t_def b_def split: if_splits option.splits)
  then have b: "EXACT_VERSION b" using prerelease_bound_exact by auto
  obtain p q r where pqr: "coreOf b = [p, q, r]" "boundParts b = Some [p, q, r]" using exact_core_parts[OF b] by metis
  have "compareCores (coreOf v) (coreOf b) = 0"
    using c v any parts pqr padded_full
    by (auto simp: comparatorAdmitsVersion_def Let_def t_def b_def split: if_splits)
  then have "release_number v = release_number b" using compareCores_exact[OF exact b] by (simp add: cmp_simps)
  then show ?thesis using names_prerelease_exact[OF _ _ b exact] parts(3) by (auto simp: t_def b_def)
qed

lemma comparators_hold_all:
  "comparators_hold v adm cs holds = Some True \<Longrightarrow> holds \<and> (\<forall>c \<in> set cs. comparatorAdmitsVersion c v adm = Some True)"
  by (induction cs arbitrary: holds) (auto split: option.splits if_splits)

lemma alternatives_admit:
  "alternatives_loop v alts admitted universal = Some (True, universal') \<Longrightarrow> admitted \<or>
     (\<exists>cs \<in> set alts. comparators_hold v (list_ex (\<lambda>c. namesPrereleaseOnCore c v) cs) cs True = Some True)"
  by (induction alts arbitrary: admitted universal) (fastforce simp: Let_def split: option.splits if_splits)+

lemma alternatives_universal:
  "alternatives_loop v alts admitted universal = Some (admitted', universal') \<Longrightarrow>
     universal' \<longleftrightarrow> universal \<or> (\<exists>cs \<in> set alts. list_all isAnyReleaseComparator cs)"
  by (induction alts arbitrary: admitted universal) (auto simp: Let_def split: option.splits if_splits)

lemma split_blanks_not_Nil: "split_blanks s \<noteq> []"
  by (subst split_blanks.simps) (auto split: list.split)

lemma comparatorsOf_not_Nil: "comparatorsOf a \<noteq> []"
  by (auto simp: comparatorsOf_def Let_def split_blanks_not_Nil split: option.split)

text \<open>A range admits a pre-release only if one of its alternatives has a comparator that names a pre-release
  of the same release, and none of its alternatives admits every release: one such alternative makes the whole
  range mean every release, and no pre-release.\<close>

theorem prerelease_needs_a_name:
  assumes "rangeAdmitsVersion rng v = Some True" "prereleaseOf v \<noteq> None"
  shows "(\<exists>a \<in> set (split_or (js_trim rng)). \<exists>c \<in> set (comparatorsOf a). namesPrereleaseOnCore c v) \<and>
    (\<forall>a \<in> set (split_or (js_trim rng)). \<exists>c \<in> set (comparatorsOf a). \<not> isAnyReleaseComparator c)"
proof -
  define alts where "alts = map comparatorsOf (split_or (js_trim rng))"
  obtain admitted universal where loop: "alternatives_loop v alts False False = Some (admitted, universal)"
    and res: "(if universal then comparatorAdmitsVersion ''*'' v False else Some admitted) = Some True"
    using assms(1) by (auto simp: rangeAdmitsVersion_def Let_def alts_def split: if_splits option.splits)
  have "\<not> universal"
  proof
    assume "universal"
    then have star: "comparatorAdmitsVersion ''*'' v False = Some True" using res by simp
    then have "EXACT_VERSION v" by (auto simp: comparatorAdmitsVersion_def Let_def split: if_splits)
    then show False using star star_comparator assms(2) by simp
  qed
  then have "admitted" and any: "\<forall>cs \<in> set alts. \<not> list_all isAnyReleaseComparator cs"
    using res alternatives_universal[OF loop] by auto
  then obtain cs where cs: "cs \<in> set alts"
    "comparators_hold v (list_ex (\<lambda>c. namesPrereleaseOnCore c v) cs) cs True = Some True"
    using alternatives_admit[of v alts False False universal] loop by auto
  have "list_ex (\<lambda>c. namesPrereleaseOnCore c v) cs"
  proof (rule ccontr)
    assume none: "\<not> list_ex (\<lambda>c. namesPrereleaseOnCore c v) cs"
    have "cs \<noteq> []" using cs(1) comparatorsOf_not_Nil by (auto simp: alts_def)
    then have "comparatorAdmitsVersion (hd cs) v False = Some True" using comparators_hold_all[OF cs(2)] none by auto
    then have "namesPrereleaseOnCore (hd cs) v" using comparator_names_prerelease assms(2) by blast
    then show False using none \<open>cs \<noteq> []\<close> by (auto simp: list_ex_iff)
  qed
  then show ?thesis using cs(1) any by (auto simp: alts_def list_ex_iff list_all_iff)
qed

subsection \<open>The version a range names\<close>

lemma set_dropWhile_keeps: "x \<in> set s \<Longrightarrow> \<not> P x \<Longrightarrow> x \<in> set (dropWhile P s)"
  by (induction s) auto

lemma any_release_no_dash:
  assumes "ANY_RELEASE_COMPARATOR t"
  shows "CHR ''-'' \<notin> set t"
proof
  assume d: "CHR ''-'' \<in> set t"
  obtain w where t: "t = ''>='' @ w" using assms by (auto simp: ANY_RELEASE_COMPARATOR_def prefix_def)
  define r where "r = dropWhile js_ws w"
  define u where "u = (if starts_with r ''v'' then tl r else r)"
  have "CHR ''-'' \<in> set w" using d t by simp
  then have "CHR ''-'' \<in> set r" unfolding r_def by (rule set_dropWhile_keeps) (simp add: js_ws_def)
  then have "CHR ''-'' \<in> set u" by (cases r) (auto simp: u_def)
  then obtain p where p: "p \<in> set (split_on (CHR ''.'') u)" "CHR ''-'' \<in> set p"
    using split_on_chars[of "CHR ''-''" u "CHR ''.''"] by auto
  have "list_all (\<lambda>p. p = ''0'' \<or> wildcard p) (split_on (CHR ''.'') u)"
    using assms by (auto simp: ANY_RELEASE_COMPARATOR_def Let_def u_def r_def t split: if_splits)
  then have "p = ''0'' \<or> wildcard p" using p(1) by (auto simp: list_all_iff)
  then show False using p(2) by (auto simp: wildcard_def)
qed

lemma bound_chars: "x \<in> set (boundAfterOperator t opr) \<Longrightarrow> x \<in> set t"
  by (cases opr) (auto simp: Let_def trim_start_def dest!: in_set_dropD set_dropWhileD split: if_splits)

lemma own_bound_admits:
  assumes v: "EXACT_VERSION v" and op: "opr \<notin> {Some ''<'', Some ''>''}"
  shows "boundAdmitsVersion opr (coreOf v) True (version_of v) (version_of v)"
proof -
  obtain p q r where parts: "numeric p" "numeric q" "numeric r" "coreOf v = [p, q, r]" using exact_core_parts[OF v] by metis
  have same: "compareVersions (version_of v) (version_of v) = 0" using compareVersions_exact[OF v v] by (simp add: cmp_simps)
  have "compareCores [p, q, r] (caretCeiling [p, q, r]) < 0" "compareCores [p, q, r] (tildeCeiling [p, q, r]) < 0"
    using compareCores_number[OF _ caret_ceiling_number(1)[OF parts(1-3)], of "[p, q, r]"]
      compareCores_number[OF _ tilde_ceiling_number(1)[OF parts(1-3)], of "[p, q, r]"] parts(1-3)
    by (auto simp: cmp_simps caret_ceiling_number tilde_ceiling_number core_number_parts digit_core_def numeric_def)
  then show ?thesis using op same parts(4) by (auto simp: boundAdmitsVersion_def Let_def)
qed

lemma named_version_shape:
  assumes "exactVersionNamedByRange (Some rng) = Some v"
  shows "\<not> URL_SCHEME (js_trim rng)" "range_operator (js_trim rng) \<notin> {Some ''<'', Some ''>''}" "EXACT_VERSION v"
    "boundAfterOperator (js_trim rng) (range_operator (js_trim rng)) = v"
  using assms by (auto simp: Let_def OPERATORS_NAMING_NO_FETCHABLE_VERSION_def split: if_splits)

lemma any_release_names_release:
  assumes "exactVersionNamedByRange (Some rng) = Some v" "ANY_RELEASE_COMPARATOR (js_trim rng)"
  shows "prereleaseOf v = None"
proof (rule prerelease_needs_dash)
  show "CHR ''-'' \<notin> set v"
    using any_release_no_dash[OF assms(2)] bound_chars named_version_shape(4)[OF assms(1)] by blast
qed

lemma named_version_comparator:
  assumes "exactVersionNamedByRange (Some rng) = Some v"
  shows "comparatorAdmitsVersion rng v admitted = Some True"
proof -
  note shape = named_version_shape[OF assms]
  show ?thesis
  proof (cases "ANY_RELEASE_COMPARATOR (js_trim rng)")
    case True
    then show ?thesis using any_release_names_release[OF assms] shape by (simp add: comparatorAdmitsVersion_def Let_def)
  next
    case False
    then show ?thesis
      using comparator_exact[OF refl shape(1) False shape(4,3,3)] own_bound_admits[OF shape(3,2)] by simp
  qed
qed

lemma any_release_comparator_names_release:
  assumes "exactVersionNamedByRange (Some rng) = Some v" "isAnyReleaseComparator rng"
  shows "prereleaseOf v = None"
proof (cases "ANY_RELEASE_COMPARATOR (js_trim rng)")
  case True
  then show ?thesis using any_release_names_release[OF assms(1)] by blast
next
  case False
  then have "boundParts v = Some []"
    using assms(2) named_version_shape(4)[OF assms(1)] by (auto simp: isAnyReleaseComparator_def Let_def split: if_splits)
  then show ?thesis using exact_core_parts[OF named_version_shape(3)[OF assms(1)]] by auto
qed

text \<open>When \<open>exactVersionNamedByRange\<close> reduces a range to one version, that version is one the range admits: by
  its comparator, and, for a range written without blanks, by the evaluation of the whole range, however many
  digits its components have.\<close>

theorem named_version_is_admitted:
  assumes "exactVersionNamedByRange (Some rng) = Some v"
  shows "comparatorAdmitsVersion rng v False = Some True \<and> (plain (js_trim rng) \<longrightarrow> rangeAdmitsVersion rng v = Some True)"
proof (intro conjI impI)
  show "comparatorAdmitsVersion rng v False = Some True" using named_version_comparator[OF assms] .
  assume plain: "plain (js_trim rng)"
  define t where "t = js_trim rng"
  have t: "plain t" "js_trim t = t" using plain plain_trim[OF plain_ws] by (auto simp: t_def)
  have named: "exactVersionNamedByRange (Some t) = Some v" using assms t(2) by (simp add: t_def)
  note shape = named_version_shape[OF named, unfolded t(2)]
  have "rangeAdmitsVersion t v = Some True"
    using plain_range[OF t(1) shape(1) named_version_comparator[OF named]] any_release_comparator_names_release[OF named]
      star_comparator[OF shape(3)] by auto
  then show "rangeAdmitsVersion rng v = Some True" using t(2) by (simp add: rangeAdmitsVersion_def t_def)
qed

text \<open>On exact versions \<open>compareVersions\<close> is the comparison of a linear order: by major, minor and patch as
  numbers, then by the pre-release identifiers, numbers before words and a list before its extensions, every
  pre-release before the release; build metadata does not count. \<open>compareDigits\<close> and \<open>incrementDigits\<close> compute
  on the numbers their digits denote, without a bound on the number of digits.\<close>

theorem version_precedence_is_linear:
  assumes "EXACT_VERSION v" "EXACT_VERSION w" "numeric a" "numeric b"
  shows "compareVersions (version_of v) (version_of w) = cmp (precedence (version_of v)) (precedence (version_of w)) \<and>
    compareDigits a b = cmp (digits_number a) (digits_number b) \<and>
    numeric (incrementDigits a) \<and> digits_number (incrementDigits a) = digits_number a + 1"
  using compareVersions_exact[OF assms(1,2)] compareDigits_number[OF numeric_digits[OF assms(3)] numeric_digits[OF assms(4)]]
    incrementDigits_number[OF numeric_digits[OF assms(3)]] by blast

end
