(* ===== verification/GlobMatcher.thy ===== *)
theory GlobMatcher
  imports Prelude
begin

text \<open>
  The glob matcher, \<open>utils/glob-matcher.ts\<close>: a pattern is compiled to tokens and matched by a search that
  remembers the outcome for every pair of positions. The search decides the language of the pattern, given
  without tokens, positions or memory.
\<close>

subsection \<open>Compiling a pattern\<close>

datatype glob_token =
  GLiteral string | GAnySegmentCharacter | GAnySegmentCharacters | GAnyCharacters | GDirectoryGlobstar

definition appendLiteral :: "glob_token list \<Rightarrow> string \<Rightarrow> glob_token list" where
  "appendLiteral tokens str =
     (if tokens = [] then [GLiteral str]
      else case last tokens of
        GLiteral previous \<Rightarrow> butlast tokens @ [GLiteral (previous @ str)]
      | _ \<Rightarrow> tokens @ [GLiteral str])"

text \<open>The loop over the pattern, at the text that is left.\<close>

fun compile_loop :: "string \<Rightarrow> glob_token list \<Rightarrow> glob_token list" where
  "compile_loop [] tokens = tokens"
| "compile_loop (c # rest) tokens =
     (if c = CHR ''*'' then
        (case rest of
           d # rest2 \<Rightarrow>
             if d = CHR ''*'' then
               (case rest2 of
                  e # rest3 \<Rightarrow>
                    if e = CHR ''/'' then compile_loop rest3 (tokens @ [GDirectoryGlobstar])
                    else compile_loop rest2 (tokens @ [GAnyCharacters])
                | [] \<Rightarrow> compile_loop rest2 (tokens @ [GAnyCharacters]))
             else compile_loop rest (tokens @ [GAnySegmentCharacters])
         | [] \<Rightarrow> compile_loop rest (tokens @ [GAnySegmentCharacters]))
      else if c = CHR ''?'' then compile_loop rest (tokens @ [GAnySegmentCharacter])
      else compile_loop rest (appendLiteral tokens [c]))"

definition compileGlobTokens :: "string \<Rightarrow> glob_token list" where
  "compileGlobTokens pattern = compile_loop pattern []"

subsection \<open>Matching\<close>

text \<open>\<open>indexOf("/", start)\<close>; \<open>None\<close> is -1.\<close>

definition nextSlashIndex :: "string \<Rightarrow> nat \<Rightarrow> nat option" where
  "nextSlashIndex str start =
     (let before = takeWhile (\<lambda>c. c \<noteq> CHR ''/'') (drop start str)
      in if start + length before < length str then Some (start + length before) else None)"

definition stringHasPrefixAt :: "string \<Rightarrow> string \<Rightarrow> nat \<Rightarrow> bool" where
  "stringHasPrefixAt str pre position = prefix pre (drop position str)"

lemma nextSlashIndex_less: "nextSlashIndex str i = Some j \<Longrightarrow> j < length str"
  by (auto simp: nextSlashIndex_def Let_def split: if_splits)

type_synonym memo = "nat \<times> nat \<Rightarrow> bool option"

definition remember :: "nat \<Rightarrow> nat \<Rightarrow> bool \<times> memo \<Rightarrow> bool \<times> memo" where
  "remember i j r = (fst r, (snd r)((i, j) \<mapsto> fst r))"

function matchesFrom :: "glob_token list \<Rightarrow> string \<Rightarrow> nat \<Rightarrow> nat \<Rightarrow> memo \<Rightarrow> bool \<times> memo" where
  "matchesFrom tokens str i j memo =
     (case memo (i, j) of
        Some cached \<Rightarrow> (cached, memo)
      | None \<Rightarrow>
          remember i j
            (if i \<ge> length tokens then (j = length str, memo)
             else case tokens ! i of
               GLiteral l \<Rightarrow>
                 if stringHasPrefixAt str l j then matchesFrom tokens str (i + 1) (j + length l) memo else (False, memo)
             | GAnySegmentCharacter \<Rightarrow>
                 if j < length str \<and> str ! j \<noteq> CHR ''/'' then matchesFrom tokens str (i + 1) (j + 1) memo
                 else (False, memo)
             | GAnySegmentCharacters \<Rightarrow>
                 (let r = matchesFrom tokens str (i + 1) j memo
                  in if fst r then r
                     else if j < length str \<and> str ! j \<noteq> CHR ''/'' then matchesFrom tokens str i (j + 1) (snd r)
                     else r)
             | GAnyCharacters \<Rightarrow>
                 (let r = matchesFrom tokens str (i + 1) j memo
                  in if fst r then r
                     else if j < length str then matchesFrom tokens str i (j + 1) (snd r) else r)
             | GDirectoryGlobstar \<Rightarrow>
                 (let r = matchesFrom tokens str (i + 1) j memo
                  in if fst r then r
                     else case nextSlashIndex str j of
                       None \<Rightarrow> r
                     | Some slash \<Rightarrow> if slash > j then matchesFrom tokens str i (slash + 1) (snd r) else r)))"
  by pat_completeness auto
termination
  by (relation "measures [\<lambda>(tokens, str, i, j, memo). length tokens - i, \<lambda>(tokens, str, i, j, memo). length str + 1 - j]")
    (auto dest: nextSlashIndex_less)

declare matchesFrom.simps [simp del]

definition globMatches :: "string \<Rightarrow> string \<Rightarrow> bool" where
  "globMatches pattern str = fst (matchesFrom (compileGlobTokens pattern) str 0 0 (\<lambda>_. None))"

subsection \<open>The language of a pattern\<close>

text \<open>Any number of directories, each a name that is not empty and its slash.\<close>

inductive directories :: "string \<Rightarrow> bool" where
  no_directory: "directories []"
| a_directory: "u \<noteq> [] \<Longrightarrow> CHR ''/'' \<notin> set u \<Longrightarrow> directories r \<Longrightarrow> directories (u @ CHR ''/'' # r)"

inductive_cases directories_cases: "directories s"

text \<open>What may stand for the next token, and the rest of the pattern.\<close>

fun denotes :: "glob_token \<Rightarrow> string \<Rightarrow> bool" where
  "denotes (GLiteral l) u = (u = l)"
| "denotes GAnySegmentCharacter u = (\<exists>c. u = [c] \<and> c \<noteq> CHR ''/'')"
| "denotes GAnySegmentCharacters u = (CHR ''/'' \<notin> set u)"
| "denotes GAnyCharacters u = True"
| "denotes GDirectoryGlobstar u = directories u"

fun token_language :: "glob_token list \<Rightarrow> string \<Rightarrow> bool" where
  "token_language [] s = (s = [])"
| "token_language (t # ts) s = (\<exists>u r. s = u @ r \<and> denotes t u \<and> token_language ts r)"

fun glob_language :: "string \<Rightarrow> string \<Rightarrow> bool" where
  "glob_language [] s = (s = [])"
| "glob_language (c # p) s =
     (if c = CHR ''*'' then
        (if prefix ''*/'' p then \<exists>u r. s = u @ r \<and> directories u \<and> glob_language (drop 2 p) r
         else if prefix ''*'' p then \<exists>u r. s = u @ r \<and> glob_language (drop 1 p) r
         else \<exists>u r. s = u @ r \<and> CHR ''/'' \<notin> set u \<and> glob_language p r)
      else if c = CHR ''?'' then \<exists>d r. s = d # r \<and> d \<noteq> CHR ''/'' \<and> glob_language p r
      else \<exists>r. s = c # r \<and> glob_language p r)"

lemma token_language_append:
  "token_language (ts @ us) s \<longleftrightarrow> (\<exists>a b. s = a @ b \<and> token_language ts a \<and> token_language us b)"
proof (induction ts arbitrary: s)
  case (Cons t ts)
  show ?case
  proof
    assume "token_language ((t # ts) @ us) s"
    then obtain u r a b where "s = u @ r" "denotes t u" "r = a @ b" "token_language ts a" "token_language us b"
      using Cons by auto
    then have "s = (u @ a) @ b \<and> token_language (t # ts) (u @ a) \<and> token_language us b" by auto
    then show "\<exists>a b. s = a @ b \<and> token_language (t # ts) a \<and> token_language us b" by blast
  next
    assume "\<exists>a b. s = a @ b \<and> token_language (t # ts) a \<and> token_language us b"
    then obtain u r b where "s = (u @ r) @ b" "denotes t u" "token_language ts r" "token_language us b" by auto
    then have "s = u @ (r @ b) \<and> denotes t u \<and> token_language (ts @ us) (r @ b)" using Cons by auto
    then show "token_language ((t # ts) @ us) s" by (simp only: append_Cons token_language.simps) blast
  qed
qed simp

lemma appendLiteral_language:
  "token_language (appendLiteral ts l) s \<longleftrightarrow> (\<exists>a. s = a @ l \<and> token_language ts a)"
proof (cases "\<exists>ps q. ts = ps @ [GLiteral q]")
  case True
  then obtain ps q where ts: "ts = ps @ [GLiteral q]" by blast
  then have "appendLiteral ts l = ps @ [GLiteral (q @ l)]" by (simp add: appendLiteral_def)
  then show ?thesis using ts by (auto simp: token_language_append)
next
  case False
  then have "appendLiteral ts l = ts @ [GLiteral l]"
    by (cases ts rule: rev_cases) (auto simp: appendLiteral_def split: glob_token.splits)
  then show ?thesis by (simp add: token_language_append)
qed

lemma compile_loop_language:
  "token_language (compile_loop p ts) s \<longleftrightarrow> (\<exists>a b. s = a @ b \<and> token_language ts a \<and> glob_language p b)"
proof (induction p arbitrary: ts s rule: length_induct)
  case (1 p)
  have IH: "token_language (compile_loop q us) s \<longleftrightarrow> (\<exists>a b. s = a @ b \<and> token_language us a \<and> glob_language q b)"
    if "length q < length p" for q us s using 1 that by blast
  have step: "token_language (compile_loop q (ts @ [t])) s \<longleftrightarrow>
      (\<exists>a b. s = a @ b \<and> token_language ts a \<and> (\<exists>u r. b = u @ r \<and> denotes t u \<and> glob_language q r))"
    if "length q < length p" for q t s
    using IH[OF that, of "ts @ [t]" s] by (auto simp: token_language_append) (metis append.assoc)+
  show ?case
  proof (cases p)
    case (Cons c q)
    consider (dir) r where "c = CHR ''*''" "q = CHR ''*'' # CHR ''/'' # r"
      | (any) r where "c = CHR ''*''" "q = CHR ''*'' # r" "\<not> prefix ''/'' r"
      | (seg) "c = CHR ''*''" "\<not> prefix ''*'' q" | (one) "c = CHR ''?''" | (lit) "c \<noteq> CHR ''*''" "c \<noteq> CHR ''?''"
      by (cases q; cases "tl q"; cases "c = CHR ''*''"; cases "c = CHR ''?''"; cases "hd q = CHR ''*''"; cases "hd (tl q) = CHR ''/''") auto
    then show ?thesis
    proof cases
      case dir
      then show ?thesis using step[of r GDirectoryGlobstar s] Cons by simp
    next
      case any
      then have "compile_loop p ts = compile_loop r (ts @ [GAnyCharacters])" using Cons by (cases r) auto
      then show ?thesis using step[of r GAnyCharacters s] Cons any by (cases r) auto
    next
      case seg
      then have "compile_loop p ts = compile_loop q (ts @ [GAnySegmentCharacters])" using Cons by (cases q) auto
      then show ?thesis using step[of q GAnySegmentCharacters s] Cons seg by (cases q) auto
    next
      case one
      have "(\<exists>u r. b = u @ r \<and> denotes GAnySegmentCharacter u \<and> glob_language q r) \<longleftrightarrow> glob_language p b" for b
        using Cons one by (cases b) (auto simp: append_eq_Cons_conv intro: exI[of _ "[hd b]"])
      then show ?thesis using step[of q GAnySegmentCharacter s] Cons one by simp
    next
      case lit
      then show ?thesis using IH[of q "appendLiteral ts [c]" s] Cons
        by (auto simp: appendLiteral_language) (metis append.assoc append_Cons append_Nil)+
    qed
  qed simp
qed

lemma compile_language: "token_language (compileGlobTokens p) s \<longleftrightarrow> glob_language p s"
  using compile_loop_language[of p "[]" s] by (simp add: compileGlobTokens_def)

subsection \<open>The search decides the language\<close>

text \<open>How a token that stands for any number of characters is unrolled.\<close>

lemma split_first:
  "(\<exists>u r. s = u @ r \<and> P u \<and> Q r) \<longleftrightarrow> P [] \<and> Q s \<or> s \<noteq> [] \<and> (\<exists>u r. tl s = u @ r \<and> P (hd s # u) \<and> Q r)"
proof
  assume "\<exists>u r. s = u @ r \<and> P u \<and> Q r"
  then obtain u r where "s = u @ r" "P u" "Q r" by blast
  then show "P [] \<and> Q s \<or> s \<noteq> [] \<and> (\<exists>u r. tl s = u @ r \<and> P (hd s # u) \<and> Q r)" by (cases u) auto
next
  assume "P [] \<and> Q s \<or> s \<noteq> [] \<and> (\<exists>u r. tl s = u @ r \<and> P (hd s # u) \<and> Q r)"
  then show "\<exists>u r. s = u @ r \<and> P u \<and> Q r"
  proof
    assume "s \<noteq> [] \<and> (\<exists>u r. tl s = u @ r \<and> P (hd s # u) \<and> Q r)"
    then obtain u r where "s = (hd s # u) @ r" "P (hd s # u)" "Q r" by (metis append_Cons list.exhaust_sel)
    then show ?thesis by blast
  qed auto
qed

lemma one_unrolled:
  "token_language (GAnySegmentCharacter # ts) s \<longleftrightarrow> s \<noteq> [] \<and> hd s \<noteq> CHR ''/'' \<and> token_language ts (tl s)"
  unfolding token_language.simps(2) by (subst split_first) (simp; metis)

lemma segment_unrolled:
  "token_language (GAnySegmentCharacters # ts) s \<longleftrightarrow>
     token_language ts s \<or> s \<noteq> [] \<and> hd s \<noteq> CHR ''/'' \<and> token_language (GAnySegmentCharacters # ts) (tl s)"
  unfolding token_language.simps(2) by (subst split_first) (simp; metis)

lemma any_unrolled:
  "token_language (GAnyCharacters # ts) s \<longleftrightarrow>
     token_language ts s \<or> s \<noteq> [] \<and> token_language (GAnyCharacters # ts) (tl s)"
  unfolding token_language.simps(2) by (subst split_first) (simp; metis)

lemma directory_unrolled:
  "token_language (GDirectoryGlobstar # ts) s \<longleftrightarrow> token_language ts s \<or>
     (\<exists>u r. s = u @ CHR ''/'' # r \<and> u \<noteq> [] \<and> CHR ''/'' \<notin> set u \<and> token_language (GDirectoryGlobstar # ts) r)"
proof
  assume "token_language (GDirectoryGlobstar # ts) s"
  then obtain d r where d: "s = d @ r" "directories d" "token_language ts r" by auto
  from d(2) show "token_language ts s \<or>
     (\<exists>u r. s = u @ CHR ''/'' # r \<and> u \<noteq> [] \<and> CHR ''/'' \<notin> set u \<and> token_language (GDirectoryGlobstar # ts) r)"
  proof cases
    case (a_directory u e)
    then have "s = u @ CHR ''/'' # (e @ r) \<and> u \<noteq> [] \<and> CHR ''/'' \<notin> set u \<and> token_language (GDirectoryGlobstar # ts) (e @ r)"
      using d by auto
    then show ?thesis by blast
  qed (use d in simp)
next
  assume "token_language ts s \<or>
     (\<exists>u r. s = u @ CHR ''/'' # r \<and> u \<noteq> [] \<and> CHR ''/'' \<notin> set u \<and> token_language (GDirectoryGlobstar # ts) r)"
  then show "token_language (GDirectoryGlobstar # ts) s"
  proof
    assume "token_language ts s"
    then show ?thesis using no_directory by (auto intro: exI[of _ "[]"])
  next
    assume "\<exists>u r. s = u @ CHR ''/'' # r \<and> u \<noteq> [] \<and> CHR ''/'' \<notin> set u \<and> token_language (GDirectoryGlobstar # ts) r"
    then obtain u d r where d: "s = u @ CHR ''/'' # d @ r" "u \<noteq> []" "CHR ''/'' \<notin> set u" "directories d" "token_language ts r" by auto
    then have "s = (u @ CHR ''/'' # d) @ r \<and> directories (u @ CHR ''/'' # d)" using a_directory by simp
    then show ?thesis using d(5) by (metis denotes.simps(5) token_language.simps(2))
  qed
qed

lemma slash_split:
  "(case nextSlashIndex str j of None \<Rightarrow> CHR ''/'' \<notin> set (drop j str)
    | Some k \<Rightarrow> j \<le> k \<and> k < length str \<and> (\<exists>u. drop j str = u @ CHR ''/'' # drop (k + 1) str \<and> CHR ''/'' \<notin> set u \<and> length u = k - j))"
proof -
  define u where "u = takeWhile (\<lambda>c. c \<noteq> CHR ''/'') (drop j str)"
  define t where "t = dropWhile (\<lambda>c. c \<noteq> CHR ''/'') (drop j str)"
  have ut: "drop j str = u @ t" unfolding u_def t_def by (rule takeWhile_dropWhile_id[symmetric])
  have u: "CHR ''/'' \<notin> set u"
    using set_takeWhileD[of "CHR ''/''" "\<lambda>c. c \<noteq> CHR ''/''" "drop j str"] by (auto simp: u_def)
  have len: "length str - j = length u + length t" using arg_cong[OF ut, of length] by simp
  have nx: "nextSlashIndex str j = (if j + length u < length str then Some (j + length u) else None)"
    by (simp add: nextSlashIndex_def u_def)
  show ?thesis
  proof (cases t)
    case Nil
    then show ?thesis using nx len u ut by auto
  next
    case (Cons c r)
    have "c = CHR ''/''" using Cons by (simp add: t_def dropWhile_eq_Cons_conv)
    moreover have "drop (j + length u + 1) str = drop (length u + 1) (drop j str)" by (simp add: add.commute)
    then have "drop (j + length u + 1) str = r" using ut Cons by simp
    moreover have "j + length u < length str" using len Cons by simp
    ultimately show ?thesis using nx ut u Cons by auto
  qed
qed

lemma first_slash_unique:
  "u @ CHR ''/'' # r = v @ CHR ''/'' # s \<Longrightarrow> CHR ''/'' \<notin> set u \<Longrightarrow> CHR ''/'' \<notin> set v \<Longrightarrow> u = v \<and> r = s"
proof (induction u arbitrary: v)
  case Nil
  then show ?case by (cases v) auto
next
  case (Cons a u)
  then show ?case by (cases v) auto
qed

definition memo_ok :: "glob_token list \<Rightarrow> string \<Rightarrow> memo \<Rightarrow> bool" where
  "memo_ok tokens str memo \<longleftrightarrow>
     (\<forall>i j b. memo (i, j) = Some b \<longrightarrow> b = token_language (drop i tokens) (drop j str))"

definition decided :: "glob_token list \<Rightarrow> string \<Rightarrow> nat \<Rightarrow> nat \<Rightarrow> bool \<times> memo \<Rightarrow> bool" where
  "decided tokens str i j r \<longleftrightarrow> fst r = token_language (drop i tokens) (drop j str) \<and> memo_ok tokens str (snd r)"

lemma decided_remember: "decided tokens str i j r \<Longrightarrow> decided tokens str i j (remember i j r)"
  by (auto simp: decided_def memo_ok_def remember_def)

lemma drop_token: "i < length tokens \<Longrightarrow> drop i tokens = tokens ! i # drop (i + 1) tokens"
  by (simp add: Cons_nth_drop_Suc)

lemma drop_char: "j < length str \<Longrightarrow> drop j str = str ! j # drop (j + 1) str"
  by (simp add: Cons_nth_drop_Suc)

lemma decided_literal:
  assumes "i < length tokens" "tokens ! i = GLiteral l" "memo_ok tokens str memo"
    "stringHasPrefixAt str l j \<Longrightarrow> decided tokens str (i + 1) (j + length l) r"
  shows "decided tokens str i j (if stringHasPrefixAt str l j then r else (False, memo))"
proof (cases "stringHasPrefixAt str l j")
  case True
  then obtain t where t: "drop j str = l @ t" by (auto simp: stringHasPrefixAt_def prefix_def)
  have "drop (j + length l) str = drop (length l) (drop j str)" by (simp add: add.commute)
  also have "\<dots> = t" using t by simp
  finally have "drop (j + length l) str = t" .
  then show ?thesis using assms True t drop_token[OF assms(1)] by (simp add: decided_def)
next
  case False
  then show ?thesis using assms drop_token[OF assms(1)] by (auto simp: decided_def stringHasPrefixAt_def)
qed

lemma decided_one:
  assumes "i < length tokens" "tokens ! i = GAnySegmentCharacter" "memo_ok tokens str memo"
    "j < length str \<and> str ! j \<noteq> CHR ''/'' \<Longrightarrow> decided tokens str (i + 1) (j + 1) r"
  shows "decided tokens str i j (if j < length str \<and> str ! j \<noteq> CHR ''/'' then r else (False, memo))"
proof -
  note unroll = one_unrolled[of "drop (i + 1) tokens" "drop j str", folded assms(2), folded drop_token[OF assms(1)]]
  show ?thesis
  proof (cases "j < length str")
    case True
    then show ?thesis using assms(3,4) unroll drop_char[OF True] by (auto simp: decided_def)
  qed (use assms(3) unroll in \<open>auto simp: decided_def\<close>)
qed

lemma decided_segment:
  assumes "i < length tokens" "tokens ! i = GAnySegmentCharacters" "decided tokens str (i + 1) j r"
    "\<not> fst r \<and> j < length str \<and> str ! j \<noteq> CHR ''/'' \<longrightarrow> decided tokens str i (j + 1) r2"
  shows "decided tokens str i j
    (if fst r then r else if j < length str \<and> str ! j \<noteq> CHR ''/'' then r2 else r)"
proof -
  note unroll = segment_unrolled[of "drop (i + 1) tokens" "drop j str", folded assms(2), folded drop_token[OF assms(1)]]
  show ?thesis
  proof (cases "j < length str")
    case True
    then show ?thesis using assms(3,4) unroll drop_char[OF True] by (auto simp: decided_def)
  qed (use assms(3) unroll in \<open>auto simp: decided_def\<close>)
qed

lemma decided_any:
  assumes "i < length tokens" "tokens ! i = GAnyCharacters" "decided tokens str (i + 1) j r"
    "\<not> fst r \<and> j < length str \<longrightarrow> decided tokens str i (j + 1) r2"
  shows "decided tokens str i j (if fst r then r else if j < length str then r2 else r)"
proof -
  note unroll = any_unrolled[of "drop (i + 1) tokens" "drop j str", folded assms(2), folded drop_token[OF assms(1)]]
  show ?thesis
  proof (cases "j < length str")
    case True
    then show ?thesis using assms(3,4) unroll drop_char[OF True] by (auto simp: decided_def)
  qed (use assms(3) unroll in \<open>auto simp: decided_def\<close>)
qed

lemma decided_directory:
  assumes "i < length tokens" "tokens ! i = GDirectoryGlobstar" "decided tokens str (i + 1) j r"
    "\<forall>k. \<not> fst r \<and> nextSlashIndex str j = Some k \<and> k > j \<longrightarrow> decided tokens str i (k + 1) (r2 k)"
  shows "decided tokens str i j (if fst r then r
    else case nextSlashIndex str j of None \<Rightarrow> r | Some k \<Rightarrow> if k > j then r2 k else r)"
proof -
  note unroll = directory_unrolled[of "drop (i + 1) tokens" "drop j str", folded assms(2), folded drop_token[OF assms(1)]]
  show ?thesis
  proof (cases "nextSlashIndex str j")
    case None
    then have "CHR ''/'' \<notin> set (drop j str)" using slash_split[where str = str and j = j] by simp
    then have "token_language (drop i tokens) (drop j str) = token_language (drop (i + 1) tokens) (drop j str)"
      using unroll by auto
    then show ?thesis using assms(3) None by (auto simp: decided_def)
  next
    case (Some k)
    then obtain u where u: "drop j str = u @ CHR ''/'' # drop (k + 1) str" "CHR ''/'' \<notin> set u" "length u = k - j" "j \<le> k"
      using slash_split[where str = str and j = j] by auto
    have "(\<exists>v t. drop j str = v @ CHR ''/'' # t \<and> v \<noteq> [] \<and> CHR ''/'' \<notin> set v \<and> token_language (drop i tokens) t) \<longleftrightarrow>
      k > j \<and> token_language (drop i tokens) (drop (k + 1) str)"
    proof
      assume "\<exists>v t. drop j str = v @ CHR ''/'' # t \<and> v \<noteq> [] \<and> CHR ''/'' \<notin> set v \<and> token_language (drop i tokens) t"
      then obtain v t where v: "drop j str = v @ CHR ''/'' # t" "v \<noteq> []" "CHR ''/'' \<notin> set v" "token_language (drop i tokens) t"
        by blast
      then have "u = v \<and> drop (k + 1) str = t" using first_slash_unique[of u _ v t] u(1,2) by metis
      then show "k > j \<and> token_language (drop i tokens) (drop (k + 1) str)" using v u(3,4) by (cases v) auto
    next
      assume "k > j \<and> token_language (drop i tokens) (drop (k + 1) str)"
      then show "\<exists>v t. drop j str = v @ CHR ''/'' # t \<and> v \<noteq> [] \<and> CHR ''/'' \<notin> set v \<and> token_language (drop i tokens) t"
        using u by (intro exI[of _ u] exI[of _ "drop (k + 1) str"]) auto
    qed
    then have "token_language (drop i tokens) (drop j str) \<longleftrightarrow> token_language (drop (i + 1) tokens) (drop j str) \<or>
      k > j \<and> token_language (drop i tokens) (drop (k + 1) str)" using unroll by simp
    then show ?thesis using assms(3,4) Some by (auto simp: decided_def)
  qed
qed

lemma prefix_length: "stringHasPrefixAt str l j \<Longrightarrow> j \<le> length str \<Longrightarrow> j + length l \<le> length str"
  using prefix_length_le[of l "drop j str"] by (simp add: stringHasPrefixAt_def)

lemma decided_memo: "decided tokens str i j r \<Longrightarrow> memo_ok tokens str (snd r)"
  by (simp add: decided_def)

lemma matchesFrom_decides:
  "memo_ok tokens str memo \<Longrightarrow> j \<le> length str \<Longrightarrow> decided tokens str i j (matchesFrom tokens str i j memo)"
proof (induction tokens str i j memo rule: matchesFrom.induct)
  case (1 tokens str i j memo)
  note IH = "1.IH" and ok = "1.prems"(1) and j = "1.prems"(2)
  show ?case
  proof (cases "memo (i, j)")
    case (Some b)
    then show ?thesis using ok by (auto simp: matchesFrom.simps[of tokens str i j memo] decided_def memo_ok_def)
  next
    case None
    show ?thesis
    proof (cases "length tokens \<le> i")
      case True
      then have "decided tokens str i j (j = length str, memo)" using ok j by (auto simp: decided_def)
      then show ?thesis using None True by (simp add: matchesFrom.simps[of tokens str i j memo] decided_remember)
    next
      case False
      then have i: "i < length tokens" by simp
      show ?thesis
      proof (cases "tokens ! i")
        case (GLiteral l)
        note decided_literal[OF i GLiteral ok IH(1)[OF None False GLiteral _ ok prefix_length]]
        then show ?thesis using None False GLiteral j
          by (simp add: matchesFrom.simps[of tokens str i j memo] decided_remember)
      next
        case GAnySegmentCharacter
        have "decided tokens str (i + 1) (j + 1) (matchesFrom tokens str (i + 1) (j + 1) memo)"
          if "j < length str \<and> str ! j \<noteq> CHR ''/''" using IH(2)[OF None False GAnySegmentCharacter that ok] that by simp
        note decided_one[OF i GAnySegmentCharacter ok this]
        then show ?thesis using None False GAnySegmentCharacter
          by (simp add: matchesFrom.simps[of tokens str i j memo] decided_remember)
      next
        case GAnySegmentCharacters
        define r where "r = matchesFrom tokens str (i + 1) j memo"
        note first = IH(3)[OF None False GAnySegmentCharacters ok j, folded r_def]
        have "\<not> fst r \<and> j < length str \<and> str ! j \<noteq> CHR ''/'' \<longrightarrow>
            decided tokens str i (j + 1) (matchesFrom tokens str i (j + 1) (snd r))"
          using IH(4)[OF None False GAnySegmentCharacters r_def _ _ decided_memo[OF first]] by simp
        note decided_remember[OF decided_segment[OF i GAnySegmentCharacters first this]]
        then show ?thesis
          by (subst matchesFrom.simps) (simp only: None False GAnySegmentCharacters option.case glob_token.case if_False Let_def r_def)
      next
        case GAnyCharacters
        define r where "r = matchesFrom tokens str (i + 1) j memo"
        note first = IH(5)[OF None False GAnyCharacters ok j, folded r_def]
        have "\<not> fst r \<and> j < length str \<longrightarrow> decided tokens str i (j + 1) (matchesFrom tokens str i (j + 1) (snd r))"
          using IH(6)[OF None False GAnyCharacters r_def _ _ decided_memo[OF first]] by simp
        note decided_remember[OF decided_any[OF i GAnyCharacters first this]]
        then show ?thesis
          by (subst matchesFrom.simps) (simp only: None False GAnyCharacters option.case glob_token.case if_False Let_def r_def)
      next
        case GDirectoryGlobstar
        define r where "r = matchesFrom tokens str (i + 1) j memo"
        note first = IH(7)[OF None False GDirectoryGlobstar ok j, folded r_def]
        have "\<forall>k. \<not> fst r \<and> nextSlashIndex str j = Some k \<and> k > j \<longrightarrow>
            decided tokens str i (k + 1) (matchesFrom tokens str i (k + 1) (snd r))"
          using IH(8)[OF None False GDirectoryGlobstar r_def _ _ _ decided_memo[OF first]] nextSlashIndex_less
          by (simp add: Suc_le_eq)
        note decided_remember[OF decided_directory[OF i GDirectoryGlobstar first this]]
        then show ?thesis
          by (subst matchesFrom.simps) (simp only: None False GDirectoryGlobstar option.case glob_token.case if_False Let_def r_def)
      qed
    qed
  qed
qed

text \<open>C20: The glob matcher accepts exactly the texts of the pattern's language: \<open>**/\<close> stands for any number of
  directories with names, \<open>**\<close> for any text, \<open>*\<close> for any text without a slash, \<open>?\<close> for one character other
  than a slash, and any other character for itself. Merging literals into tokens and remembering outcomes change
  nothing, and the search ends for every pattern and text.\<close>

theorem globMatches_decides_language: "globMatches pattern str \<longleftrightarrow> glob_language pattern str"
proof -
  have "memo_ok (compileGlobTokens pattern) str (\<lambda>_. None)" by (simp add: memo_ok_def)
  from matchesFrom_decides[OF this, of 0 0] show ?thesis
    by (simp add: decided_def globMatches_def compile_language)
qed

end
