(* ===== verification/RequestBatcher.thy ===== *)
theory RequestBatcher
  imports Prelude
begin

text \<open>
  The batching of cache reads within one request, \<open>cache/request-cache-batcher.ts\<close>: reads of the same key share
  one promise, reads of different keys are collected and fetched together, and a value written during the request
  supersedes reads that are under way.

  A read is a promise that passes through stages: it waits in the queue, is fetched with its batch, is resolved
  or rejected by the answer of the backend, delivers its result in a reaction of its promise, and clears itself
  from the pending reads in a second reaction. Between any two of these, other code of the request runs. A run is
  a list of these events; the backend's answer is part of the event. Every call of one context uses the same
  backend, as the callers do.
\<close>

definition MAX_BATCH_SIZE :: nat where
  "MAX_BATCH_SIZE = 100"

datatype read_stage = Waiting | Fetching | Resolved "string option" | Rejected | Delivered "string option option" | Cleared "string option option"

record pending_read =
  pr_key :: string
  pr_version :: nat
  pr_stage :: read_stage

text \<open>\<open>rc_reads\<close> are the promises made so far, named by their position; \<open>rc_batches\<close> the batches a backend has
  not answered; \<open>rc_fetched\<close> the keys asked of the backend, in order.\<close>

record request_context =
  rc_cache :: "(string \<times> string option) list"
  rc_pending :: "(string \<times> nat) list"
  rc_mutationVersions :: "(string \<times> nat) list"
  rc_batchQueue :: "nat list"
  rc_batchTimer :: bool
  rc_reads :: "pending_read list"
  rc_batches :: "nat list list"
  rc_fetched :: "string list"

definition runWithCacheBatching :: request_context where
  "runWithCacheBatching =
     \<lparr>rc_cache = [], rc_pending = [], rc_mutationVersions = [], rc_batchQueue = [], rc_batchTimer = False,
      rc_reads = [], rc_batches = [], rc_fetched = []\<rparr>"

definition version_of_key :: "request_context \<Rightarrow> string \<Rightarrow> nat" where
  "version_of_key ctx key = (case jm_get (rc_mutationVersions ctx) key of None \<Rightarrow> 0 | Some n \<Rightarrow> n)"

definition cached_value :: "request_context \<Rightarrow> string \<Rightarrow> string option" where
  "cached_value ctx key = (case jm_get (rc_cache ctx) key of None \<Rightarrow> None | Some v \<Rightarrow> v)"

definition key_of :: "request_context \<Rightarrow> nat \<Rightarrow> string" where
  "key_of ctx i = pr_key (rc_reads ctx ! i)"

definition move_read :: "nat \<Rightarrow> read_stage \<Rightarrow> pending_read list \<Rightarrow> pending_read list" where
  "move_read i st rs = rs[i := (rs ! i)\<lparr>pr_stage := st\<rparr>]"

definition move_reads :: "nat list \<Rightarrow> read_stage \<Rightarrow> pending_read list \<Rightarrow> pending_read list" where
  "move_reads is st rs = fold (\<lambda>i. move_read i st) is rs"

definition uniqueKeys :: "request_context \<Rightarrow> string list" where
  "uniqueKeys ctx = set_of_list (map (key_of ctx) (rc_batchQueue ctx))"

definition flushBatch :: "request_context \<Rightarrow> request_context" where
  "flushBatch ctx =
     (if rc_batchQueue ctx = [] then ctx
      else ctx\<lparr>rc_batchQueue := [], rc_batchTimer := False,
        rc_reads := move_reads (rc_batchQueue ctx) Fetching (rc_reads ctx),
        rc_batches := rc_batches ctx @ [rc_batchQueue ctx],
        rc_fetched := rc_fetched ctx @ uniqueKeys ctx\<rparr>)"

datatype read_answer = Known "string option" | Promised nat

definition getCachedWithBatching :: "string \<Rightarrow> request_context \<Rightarrow> request_context \<times> read_answer" where
  "getCachedWithBatching key ctx =
     (case jm_get (rc_cache ctx) key of
        Some v \<Rightarrow> (ctx, Known v)
      | None \<Rightarrow>
          (case jm_get (rc_pending ctx) key of
             Some i \<Rightarrow> (ctx, Promised i)
           | None \<Rightarrow>
               (let i = length (rc_reads ctx);
                    r = \<lparr>pr_key = key, pr_version = version_of_key ctx key, pr_stage = Waiting\<rparr>;
                    ctx1 = ctx\<lparr>rc_reads := rc_reads ctx @ [r], rc_batchQueue := rc_batchQueue ctx @ [i]\<rparr>;
                    ctx2 = (if length (rc_batchQueue ctx1) \<ge> MAX_BATCH_SIZE then flushBatch ctx1
                            else ctx1\<lparr>rc_batchTimer := True\<rparr>)
                in (ctx2\<lparr>rc_pending := jm_set key i (rc_pending ctx2)\<rparr>, Promised i))))"

definition timer_fires :: "request_context \<Rightarrow> request_context" where
  "timer_fires ctx = (if rc_batchTimer ctx then flushBatch (ctx\<lparr>rc_batchTimer := False\<rparr>) else ctx)"

text \<open>The answer to a batch: the values of its keys, or \<open>None\<close> for an error.\<close>

fun answer_stage :: "(string \<times> string option) list option \<Rightarrow> string \<Rightarrow> read_stage" where
  "answer_stage None key = Rejected"
| "answer_stage (Some results) key = Resolved (case jm_get results key of None \<Rightarrow> None | Some v \<Rightarrow> v)"

definition batch_answered :: "nat \<Rightarrow> (string \<times> string option) list option \<Rightarrow> request_context \<Rightarrow> request_context" where
  "batch_answered b results ctx =
     (if b < length (rc_batches ctx) then
        ctx\<lparr>rc_reads := fold (\<lambda>i rs. move_read i (answer_stage results (key_of ctx i)) rs) (rc_batches ctx ! b) (rc_reads ctx),
            rc_batches := take b (rc_batches ctx) @ drop (b + 1) (rc_batches ctx)\<rparr>
      else ctx)"

text \<open>The reaction that decides the result of a read.\<close>

definition deliver :: "nat \<Rightarrow> request_context \<Rightarrow> request_context" where
  "deliver i ctx =
     (if i < length (rc_reads ctx) then
        (case pr_stage (rc_reads ctx ! i) of
           Resolved result \<Rightarrow>
             (if version_of_key ctx (key_of ctx i) \<noteq> pr_version (rc_reads ctx ! i)
              then ctx\<lparr>rc_reads := move_read i (Delivered (Some (cached_value ctx (key_of ctx i)))) (rc_reads ctx)\<rparr>
              else ctx\<lparr>rc_cache := jm_set (key_of ctx i) result (rc_cache ctx),
                       rc_reads := move_read i (Delivered (Some result)) (rc_reads ctx)\<rparr>)
         | Rejected \<Rightarrow> ctx\<lparr>rc_reads := move_read i (Delivered None) (rc_reads ctx)\<rparr>
         | _ \<Rightarrow> ctx)
      else ctx)"

definition clearPendingRead :: "nat \<Rightarrow> request_context \<Rightarrow> request_context" where
  "clearPendingRead i ctx =
     (if i < length (rc_reads ctx) then
        (case pr_stage (rc_reads ctx ! i) of
           Delivered result \<Rightarrow>
             ctx\<lparr>rc_pending := (if jm_get (rc_pending ctx) (key_of ctx i) = Some i
                                 then jm_del (key_of ctx i) (rc_pending ctx) else rc_pending ctx),
                 rc_reads := move_read i (Cleared result) (rc_reads ctx)\<rparr>
         | _ \<Rightarrow> ctx)
      else ctx)"

definition setInRequestCache :: "string \<Rightarrow> string option \<Rightarrow> request_context \<Rightarrow> request_context" where
  "setInRequestCache key v ctx =
     ctx\<lparr>rc_mutationVersions := jm_set key (version_of_key ctx key + 1) (rc_mutationVersions ctx),
         rc_cache := jm_set key v (rc_cache ctx)\<rparr>"

datatype batch_event =
    BGet string | BSet string "string option" | BTimer | BAnswer nat "(string \<times> string option) list option"
  | BDeliver nat | BClear nat

fun batch_step :: "batch_event \<Rightarrow> request_context \<Rightarrow> request_context" where
  "batch_step (BGet key) ctx = fst (getCachedWithBatching key ctx)"
| "batch_step (BSet key v) ctx = setInRequestCache key v ctx"
| "batch_step BTimer ctx = timer_fires ctx"
| "batch_step (BAnswer b results) ctx = batch_answered b results ctx"
| "batch_step (BDeliver i) ctx = deliver i ctx"
| "batch_step (BClear i) ctx = clearPendingRead i ctx"

definition batch_run :: "batch_event list \<Rightarrow> request_context" where
  "batch_run es = fold batch_step es runWithCacheBatching"

subsection \<open>Moving reads through their stages\<close>

definition reads_at :: "pending_read list \<Rightarrow> nat \<Rightarrow> read_stage \<Rightarrow> bool" where
  "reads_at rs i st \<longleftrightarrow> i < length rs \<and> pr_stage (rs ! i) = st"

lemma move_read_simps [simp]:
  "length (move_read i st rs) = length rs"
  "pr_key (move_read i st rs ! j) = pr_key (rs ! j)"
  "pr_version (move_read i st rs ! j) = pr_version (rs ! j)"
  by (cases "i < length rs"; simp add: move_read_def nth_list_update list_update_beyond)+

lemma move_read_stage:
  "i < length rs \<Longrightarrow> pr_stage (move_read i st rs ! j) = (if j = i then st else pr_stage (rs ! j))"
  by (simp add: move_read_def nth_list_update)

lemma fold_moves_simps [simp]:
  "length (fold (\<lambda>i. move_read i (st i)) is rs) = length rs"
  "pr_key (fold (\<lambda>i. move_read i (st i)) is rs ! j) = pr_key (rs ! j)"
  "pr_version (fold (\<lambda>i. move_read i (st i)) is rs ! j) = pr_version (rs ! j)"
  by (induction "is" arbitrary: rs) auto

lemma fold_moves_stage:
  "\<forall>i \<in> set is. i < length rs \<Longrightarrow>
     pr_stage (fold (\<lambda>i. move_read i (st i)) is rs ! j) = (if j \<in> set is then st j else pr_stage (rs ! j))"
  by (induction "is" arbitrary: rs) (auto simp: move_read_stage)

subsection \<open>The invariant\<close>

text \<open>The reads that wait are those in the queue, the reads being fetched those of the unanswered batches.\<close>

definition queue_ok :: "nat list \<Rightarrow> nat list list \<Rightarrow> pending_read list \<Rightarrow> bool" where
  "queue_ok q bs rs \<longleftrightarrow> (\<forall>i. i \<in> set q \<longleftrightarrow> reads_at rs i Waiting) \<and>
     (\<forall>i. i \<in> set (concat bs) \<longleftrightarrow> reads_at rs i Fetching) \<and> distinct q \<and> distinct (concat bs)"

text \<open>Every read that has not cleared itself is the pending read of its key.\<close>

definition pending_ok :: "(string \<times> nat) list \<Rightarrow> pending_read list \<Rightarrow> bool" where
  "pending_ok p rs \<longleftrightarrow> (\<forall>i < length rs. (\<forall>r. pr_stage (rs ! i) \<noteq> Cleared r) \<longrightarrow> jm_get p (pr_key (rs ! i)) = Some i)"

text \<open>Reads begin only for keys that were never set; a key that was set or read is in the cache.\<close>

definition cache_ok :: "(string \<times> string option) list \<Rightarrow> (string \<times> nat) list \<Rightarrow> pending_read list \<Rightarrow> bool" where
  "cache_ok c vs rs \<longleftrightarrow> (\<forall>i < length rs. pr_version (rs ! i) = 0) \<and>
     (\<forall>k. jm_get vs k \<noteq> None \<longrightarrow> jm_get c k \<noteq> None) \<and> (\<forall>k. jm_get vs k \<noteq> Some 0) \<and>
     (\<forall>i < length rs. \<forall>v. pr_stage (rs ! i) \<in> {Delivered (Some v), Cleared (Some v)} \<longrightarrow> jm_get c (pr_key (rs ! i)) \<noteq> None)"

text \<open>Of two reads of a key the earlier one has failed.\<close>

definition one_flight :: "pending_read list \<Rightarrow> bool" where
  "one_flight rs \<longleftrightarrow> (\<forall>i j. i < j \<and> j < length rs \<and> pr_key (rs ! i) = pr_key (rs ! j) \<longrightarrow> pr_stage (rs ! i) = Cleared None)"

definition timer_ok :: "request_context \<Rightarrow> bool" where
  "timer_ok ctx \<longleftrightarrow> (rc_batchQueue ctx \<noteq> [] \<longrightarrow> rc_batchTimer ctx \<and> length (rc_batchQueue ctx) < MAX_BATCH_SIZE)"

definition batch_inv :: "request_context \<Rightarrow> bool" where
  "batch_inv ctx \<longleftrightarrow> queue_ok (rc_batchQueue ctx) (rc_batches ctx) (rc_reads ctx) \<and>
     pending_ok (rc_pending ctx) (rc_reads ctx) \<and> one_flight (rc_reads ctx) \<and>
     cache_ok (rc_cache ctx) (rc_mutationVersions ctx) (rc_reads ctx)"

lemmas batch_inv_defs = batch_inv_def queue_ok_def pending_ok_def one_flight_def cache_ok_def reads_at_def

lemma queue_ok_move:
  assumes "queue_ok q bs rs" "i < length rs" "pr_stage (rs ! i) \<notin> {Waiting, Fetching}" "st \<notin> {Waiting, Fetching}"
  shows "queue_ok q bs (move_read i st rs)"
proof -
  have "reads_at (move_read i st rs) j x \<longleftrightarrow> reads_at rs j x" if "x \<in> {Waiting, Fetching}" for j x
    using that assms(2-4) by (auto simp: reads_at_def move_read_stage)
  then show ?thesis using assms(1) by (simp add: queue_ok_def)
qed

lemma one_flight_move:
  assumes "one_flight rs" "i < length rs" "\<forall>r. pr_stage (rs ! i) \<noteq> Cleared r"
  shows "one_flight (move_read i st rs)"
  using assms by (auto simp: one_flight_def move_read_stage)

lemma one_flight_moves:
  assumes "one_flight rs" "\<forall>i \<in> set is. i < length rs \<and> (\<forall>r. pr_stage (rs ! i) \<noteq> Cleared r)"
  shows "one_flight (fold (\<lambda>i. move_read i (st i)) is rs)"
proof -
  have "\<forall>i \<in> set is. i < length rs" using assms(2) by blast
  then show ?thesis using assms by (auto simp: one_flight_def fold_moves_stage)
qed

lemma pending_ok_moves:
  assumes "pending_ok p rs" "\<forall>i \<in> set is. i < length rs \<and> (\<forall>r. pr_stage (rs ! i) \<noteq> Cleared r)"
  shows "pending_ok p (fold (\<lambda>i. move_read i (st i)) is rs)"
proof -
  have "\<forall>i \<in> set is. i < length rs" using assms(2) by blast
  then show ?thesis using assms by (auto simp: pending_ok_def fold_moves_stage)
qed

lemma cache_ok_moves:
  assumes "cache_ok c vs rs" "\<forall>i \<in> set is. i < length rs" "\<forall>i \<in> set is. \<forall>v. st i \<noteq> Delivered (Some v) \<and> st i \<noteq> Cleared (Some v)"
  shows "cache_ok c vs (fold (\<lambda>i. move_read i (st i)) is rs)"
  using assms by (auto simp: cache_ok_def fold_moves_stage)

lemma queue_disjoint: "queue_ok q bs rs \<Longrightarrow> set q \<inter> set (concat bs) = {}"
proof -
  assume "queue_ok q bs rs"
  then have "i \<in> set q \<Longrightarrow> pr_stage (rs ! i) = Waiting" "i \<in> set (concat bs) \<Longrightarrow> pr_stage (rs ! i) = Fetching" for i
    unfolding queue_ok_def reads_at_def by blast+
  then show ?thesis by fastforce
qed

lemma queue_ok_flush:
  assumes "queue_ok q bs rs"
  shows "queue_ok [] (bs @ [q]) (move_reads q Fetching rs)"
proof -
  have q: "\<forall>i \<in> set q. i < length rs" using assms by (simp add: queue_ok_def reads_at_def)
  have "reads_at (move_reads q Fetching rs) i st \<longleftrightarrow> (if i \<in> set q then st = Fetching else reads_at rs i st)" for i st
    using q by (auto simp: reads_at_def move_reads_def fold_moves_stage[OF q])
  then show ?thesis using assms queue_disjoint[OF assms] by (auto simp: queue_ok_def)
qed

lemma inv_flush: "batch_inv ctx \<Longrightarrow> batch_inv (flushBatch ctx)"
proof (cases "rc_batchQueue ctx = []")
  case False
  assume inv: "batch_inv ctx"
  let ?q = "rc_batchQueue ctx" and ?rs = "rc_reads ctx"
  have q: "\<forall>i \<in> set ?q. i < length ?rs \<and> (\<forall>r. pr_stage (?rs ! i) \<noteq> Cleared r)" "\<forall>i \<in> set ?q. i < length ?rs"
    using inv by (auto simp: batch_inv_defs)
  have "queue_ok [] (rc_batches ctx @ [?q]) (move_reads ?q Fetching ?rs)"
    using inv queue_ok_flush by (simp add: batch_inv_def)
  then show ?thesis
    using inv False one_flight_moves[OF _ q(1), of "\<lambda>_. Fetching"] pending_ok_moves[OF _ q(1), of _ "\<lambda>_. Fetching"]
      cache_ok_moves[OF _ q(2), of _ _ "\<lambda>_. Fetching"]
    by (simp add: batch_inv_def flushBatch_def move_reads_def)
qed (simp add: flushBatch_def)

text \<open>A new read: its key is neither cached nor pending.\<close>

lemma inv_new_read:
  assumes inv: "batch_inv ctx" and new: "jm_get (rc_cache ctx) key = None" "jm_get (rc_pending ctx) key = None"
  shows "batch_inv (ctx\<lparr>rc_reads := rc_reads ctx @ [\<lparr>pr_key = key, pr_version = version_of_key ctx key, pr_stage = Waiting\<rparr>],
    rc_batchQueue := rc_batchQueue ctx @ [length (rc_reads ctx)],
    rc_pending := jm_set key (length (rc_reads ctx)) (rc_pending ctx)\<rparr>)"
proof -
  let ?r = "\<lparr>pr_key = key, pr_version = version_of_key ctx key, pr_stage = Waiting\<rparr>"
  let ?rs = "rc_reads ctx"
  have v: "version_of_key ctx key = 0" using inv new(1) by (auto simp: batch_inv_def cache_ok_def version_of_key_def split: option.split)
  have earlier: "pr_stage (?rs ! i) = Cleared None" if "i < length ?rs" "pr_key (?rs ! i) = key" for i
  proof (cases "pr_stage (?rs ! i)")
    case (Cleared r)
    then show ?thesis using inv new(1) that by (cases r) (auto simp: batch_inv_def cache_ok_def)
  qed (use inv new(2) that in \<open>auto simp: batch_inv_def pending_ok_def\<close>)
  have nth: "(?rs @ [?r]) ! i = (if i < length ?rs then ?rs ! i else ?r)" if "i < Suc (length ?rs)" for i
    using that by (auto simp: nth_append less_Suc_eq)
  have at: "reads_at (?rs @ [?r]) i st \<longleftrightarrow> (if i = length ?rs then st = Waiting else reads_at ?rs i st)" for i st
    by (auto simp: reads_at_def nth_append)
  have "queue_ok (rc_batchQueue ctx @ [length ?rs]) (rc_batches ctx) (?rs @ [?r])"
    using inv by (auto simp: batch_inv_def queue_ok_def at) (auto simp: reads_at_def)
  moreover have "pending_ok (jm_set key (length ?rs) (rc_pending ctx)) (?rs @ [?r])"
    using inv earlier by (auto simp: batch_inv_def pending_ok_def jsmap_simps nth less_Suc_eq)
  moreover have "one_flight (?rs @ [?r])"
    using inv earlier by (auto simp: batch_inv_def one_flight_def nth less_Suc_eq nth_append)
  moreover have "cache_ok (rc_cache ctx) (rc_mutationVersions ctx) (?rs @ [?r])"
    using inv v by (auto simp: batch_inv_def cache_ok_def nth_append less_Suc_eq)
  ultimately show ?thesis by (simp add: batch_inv_def)
qed

lemma flush_pending: "flushBatch (ctx\<lparr>rc_pending := p\<rparr>) = (flushBatch ctx)\<lparr>rc_pending := p\<rparr>"
  by (simp add: flushBatch_def uniqueKeys_def key_of_def[abs_def])

lemma flush_keeps [simp]: "rc_pending (flushBatch ctx) = rc_pending ctx" "rc_batchQueue (flushBatch ctx) = []"
  by (auto simp: flushBatch_def)

lemma inv_timer_irrelevant [simp]: "batch_inv (ctx\<lparr>rc_batchTimer := t\<rparr>) = batch_inv ctx"
  by (simp add: batch_inv_def)

lemma inv_timer_pending [simp]:
  "batch_inv (ctx\<lparr>rc_batchTimer := t, rc_pending := p\<rparr>) = batch_inv (ctx\<lparr>rc_pending := p\<rparr>)"
  by (simp add: batch_inv_def)

lemma inv_get: "batch_inv ctx \<Longrightarrow> batch_inv (fst (getCachedWithBatching key ctx))"
proof -
  assume inv: "batch_inv ctx"
  show ?thesis
  proof (cases "jm_get (rc_cache ctx) key = None \<and> jm_get (rc_pending ctx) key = None")
    case True
    define ctx1 where "ctx1 = ctx\<lparr>rc_reads := rc_reads ctx @ [\<lparr>pr_key = key, pr_version = version_of_key ctx key, pr_stage = Waiting\<rparr>],
      rc_batchQueue := rc_batchQueue ctx @ [length (rc_reads ctx)]\<rparr>"
    define p where "p = jm_set key (length (rc_reads ctx)) (rc_pending ctx)"
    have "batch_inv (ctx1\<lparr>rc_pending := p\<rparr>)" using inv_new_read[OF inv] True by (simp add: ctx1_def p_def)
    moreover have "rc_pending ctx1 = rc_pending ctx" by (simp add: ctx1_def)
    moreover have "fst (getCachedWithBatching key ctx) =
        (let ctx2 = (if length (rc_batchQueue ctx1) \<ge> MAX_BATCH_SIZE then flushBatch ctx1 else ctx1\<lparr>rc_batchTimer := True\<rparr>)
         in ctx2\<lparr>rc_pending := jm_set key (length (rc_reads ctx)) (rc_pending ctx2)\<rparr>)"
      using True by (simp add: getCachedWithBatching_def Let_def ctx1_def)
    ultimately show ?thesis
      using inv_flush[of "ctx1\<lparr>rc_pending := p\<rparr>"]
      by (simp add: Let_def flush_pending p_def)
  qed (use inv in \<open>auto simp: getCachedWithBatching_def split: option.splits\<close>)
qed

lemma timer_get: "timer_ok ctx \<Longrightarrow> timer_ok (fst (getCachedWithBatching key ctx))"
  by (auto simp: timer_ok_def getCachedWithBatching_def Let_def split: option.splits)

lemma inv_timer: "batch_inv ctx \<Longrightarrow> batch_inv (timer_fires ctx)"
  by (simp add: timer_fires_def inv_flush)

lemma answer_stage_plain: "answer_stage results k \<noteq> Waiting" "answer_stage results k \<noteq> Fetching"
  "answer_stage results k \<noteq> Delivered d" "answer_stage results k \<noteq> Cleared d"
  by (cases results; simp)+

lemma inv_answer: "batch_inv ctx \<Longrightarrow> batch_inv (batch_answered b results ctx)"
proof (cases "b < length (rc_batches ctx)")
  case True
  assume inv: "batch_inv ctx"
  define bs rs where "bs = rc_batches ctx" and "rs = rc_reads ctx"
  define st where "st = (\<lambda>i. answer_stage results (key_of ctx i))"
  define rs' where "rs' = fold (\<lambda>i. move_read i (st i)) (bs ! b) rs"
  have split: "bs = take b bs @ [bs ! b] @ drop (b + 1) bs" using True by (simp add: bs_def id_take_nth_drop)
  have conc: "concat bs = concat (take b bs) @ bs ! b @ concat (drop (b + 1) bs)" by (subst split) simp
  have q: "queue_ok (rc_batchQueue ctx) bs rs" using inv by (simp add: batch_inv_def bs_def rs_def)
  have fetching: "\<forall>i \<in> set (bs ! b). reads_at rs i Fetching" using q unfolding queue_ok_def conc by auto
  then have idx: "\<forall>i \<in> set (bs ! b). i < length rs \<and> (\<forall>r. pr_stage (rs ! i) \<noteq> Cleared r)" "\<forall>i \<in> set (bs ! b). i < length rs"
    by (auto simp: reads_at_def)
  have at: "reads_at rs' i x \<longleftrightarrow> (if i \<in> set (bs ! b) then x = st i else reads_at rs i x)" for i x
    using fold_moves_stage[OF idx(2), of st i] idx(2) by (auto simp: reads_at_def rs'_def)
  have d: "distinct (concat bs)" using q by (simp add: queue_ok_def)
  have ne: "Waiting \<noteq> st i" "Fetching \<noteq> st i" for i unfolding st_def using answer_stage_plain(1,2) by metis+
  have "queue_ok (rc_batchQueue ctx) (take b bs @ drop (b + 1) bs) rs'"
    unfolding queue_ok_def at
  proof (intro conjI allI)
    fix i
    show "i \<in> set (rc_batchQueue ctx) \<longleftrightarrow> (if i \<in> set (bs ! b) then Waiting = st i else reads_at rs i Waiting)"
      using q queue_disjoint[OF q] conc ne(1) by (auto simp: queue_ok_def)
    show "i \<in> set (concat (take b bs @ drop (b + 1) bs)) \<longleftrightarrow>
        (if i \<in> set (bs ! b) then Fetching = st i else reads_at rs i Fetching)"
      using q d ne(2) unfolding queue_ok_def conc by (auto simp del: set_concat)
  qed (use q d conc in \<open>auto simp: queue_ok_def\<close>)
  moreover have "pending_ok (rc_pending ctx) rs'" "one_flight rs'" "cache_ok (rc_cache ctx) (rc_mutationVersions ctx) rs'"
    using inv pending_ok_moves[OF _ idx(1)] one_flight_moves[OF _ idx(1)] cache_ok_moves[OF _ idx(2), of _ _ st] answer_stage_plain(3,4)
    by (auto simp: batch_inv_def rs_def rs'_def st_def)
  ultimately show ?thesis using True by (simp add: batch_inv_def batch_answered_def bs_def rs_def rs'_def st_def)
qed (simp add: batch_answered_def)

lemma cache_ok_deliver:
  assumes "cache_ok c vs rs" "i < length rs" "\<And>v. r = Some v \<Longrightarrow> jm_get c (pr_key (rs ! i)) \<noteq> None"
  shows "cache_ok c vs (move_read i (Delivered r) rs)"
  using assms by (auto simp: cache_ok_def move_read_stage)

lemma cache_ok_set: "cache_ok c vs rs \<Longrightarrow> cache_ok (jm_set k v c) vs rs"
  by (auto simp: cache_ok_def jsmap_simps)

lemma pending_ok_deliver:
  "pending_ok p rs \<Longrightarrow> i < length rs \<Longrightarrow> \<forall>r. pr_stage (rs ! i) \<noteq> Cleared r \<Longrightarrow> pending_ok p (move_read i (Delivered d) rs)"
  by (auto simp: pending_ok_def move_read_stage)

lemma inv_deliver: "batch_inv ctx \<Longrightarrow> batch_inv (deliver i ctx)"
proof -
  assume inv: "batch_inv ctx"
  let ?rs = "rc_reads ctx"
  have parts: "queue_ok (rc_batchQueue ctx) (rc_batches ctx) ?rs" "pending_ok (rc_pending ctx) ?rs" "one_flight ?rs"
    "cache_ok (rc_cache ctx) (rc_mutationVersions ctx) ?rs" using inv by (simp_all add: batch_inv_def)
  have moved: "batch_inv (ctx\<lparr>rc_cache := c, rc_reads := move_read i (Delivered d) ?rs\<rparr>)"
    if "i < length ?rs" "pr_stage (?rs ! i) \<in> {Resolved x, Rejected}" "cache_ok c (rc_mutationVersions ctx) ?rs"
      "\<And>v. d = Some v \<Longrightarrow> jm_get c (key_of ctx i) \<noteq> None" for c d x
    using that queue_ok_move[OF parts(1) that(1)] pending_ok_deliver[OF parts(2) that(1)] one_flight_move[OF parts(3) that(1)]
      cache_ok_deliver[OF that(3,1)] by (auto simp: batch_inv_def key_of_def)
  show ?thesis
  proof (cases "i < length ?rs")
    case True
    show ?thesis
    proof (cases "pr_stage (?rs ! i)")
      case (Resolved result)
      have "jm_get (rc_cache ctx) (key_of ctx i) \<noteq> None" if "version_of_key ctx (key_of ctx i) \<noteq> pr_version (?rs ! i)"
        using that parts(4) True by (auto simp: cache_ok_def version_of_key_def split: option.splits)
      then show ?thesis
        using moved[OF True, of result "rc_cache ctx" "Some (cached_value ctx (key_of ctx i))"] parts(4) True Resolved
          moved[OF True, of result "jm_set (key_of ctx i) result (rc_cache ctx)" "Some result"] cache_ok_set[OF parts(4)]
        by (simp add: deliver_def jsmap_simps)
    next
      case Rejected
      then show ?thesis using moved[OF True, of undefined "rc_cache ctx" None] parts(4) True by (simp add: deliver_def)
    qed (use inv True in \<open>simp_all add: deliver_def\<close>)
  qed (use inv in \<open>simp add: deliver_def\<close>)
qed

lemma inv_clear: "batch_inv ctx \<Longrightarrow> batch_inv (clearPendingRead i ctx)"
proof -
  assume inv: "batch_inv ctx"
  let ?rs = "rc_reads ctx"
  show ?thesis
  proof (cases "i < length ?rs \<and> (\<exists>d. pr_stage (?rs ! i) = Delivered d)")
    case True
    then obtain d where i: "i < length ?rs" "pr_stage (?rs ! i) = Delivered d" by blast
    have pend: "pending_ok (rc_pending ctx) ?rs" using inv by (simp add: batch_inv_def)
    then have own: "jm_get (rc_pending ctx) (key_of ctx i) = Some i" using i by (simp add: pending_ok_def key_of_def)
    have other: "pr_key (?rs ! j) \<noteq> key_of ctx i" if "jm_get (rc_pending ctx) (pr_key (?rs ! j)) = Some j" "j \<noteq> i" for j
      using own that by auto
    have "pending_ok (jm_del (key_of ctx i) (rc_pending ctx)) (move_read i (Cleared d) ?rs)"
      using pend other i(1) by (auto simp: pending_ok_def move_read_stage jsmap_simps)
    moreover have "cache_ok (rc_cache ctx) (rc_mutationVersions ctx) (move_read i (Cleared d) ?rs)"
      using inv i by (auto simp: batch_inv_def cache_ok_def move_read_stage)
    ultimately show ?thesis
      using inv i own queue_ok_move[OF _ i(1), of _ _ "Cleared d"] one_flight_move[OF _ i(1), of "Cleared d"]
      by (simp add: batch_inv_def clearPendingRead_def)
  next
    case False
    then have "clearPendingRead i ctx = ctx" by (auto simp: clearPendingRead_def split: read_stage.splits)
    then show ?thesis using inv by simp
  qed
qed

lemma inv_set: "batch_inv ctx \<Longrightarrow> batch_inv (setInRequestCache key v ctx)"
  by (auto simp: batch_inv_def setInRequestCache_def cache_ok_def jsmap_simps)

lemma inv_step: "batch_inv ctx \<Longrightarrow> batch_inv (batch_step e ctx)"
  by (cases e) (auto intro: inv_get inv_set inv_timer inv_answer inv_deliver inv_clear)

lemma inv_fold: "batch_inv ctx \<Longrightarrow> batch_inv (fold batch_step es ctx)"
  by (induction es arbitrary: ctx) (auto intro: inv_step)

lemma inv_run: "batch_inv (batch_run es)"
  unfolding batch_run_def by (rule inv_fold) (auto simp: runWithCacheBatching_def batch_inv_defs)

lemma timer_step: "timer_ok ctx \<Longrightarrow> timer_ok (batch_step e ctx)"
proof (cases e)
  case (BGet key)
  then show "timer_ok ctx \<Longrightarrow> ?thesis" using timer_get by simp
qed (auto simp: timer_ok_def setInRequestCache_def timer_fires_def batch_answered_def deliver_def clearPendingRead_def
      split: read_stage.splits)

lemma timer_run: "timer_ok (batch_run es)"
proof -
  have "timer_ok ctx \<Longrightarrow> timer_ok (fold batch_step es ctx)" for ctx
    by (induction es arbitrary: ctx) (auto intro: timer_step)
  then show ?thesis by (simp add: batch_run_def timer_ok_def runWithCacheBatching_def)
qed

subsection \<open>Writes of the request\<close>

fun last_set :: "batch_event list \<Rightarrow> string \<Rightarrow> string option option" where
  "last_set [] key = None"
| "last_set (e # es) key =
     (case last_set es key of
        Some v \<Rightarrow> Some v
      | None \<Rightarrow> (case e of BSet k v \<Rightarrow> if k = key then Some v else None | _ \<Rightarrow> None))"

definition written :: "request_context \<Rightarrow> string \<Rightarrow> string option \<Rightarrow> bool" where
  "written ctx key v \<longleftrightarrow> version_of_key ctx key \<noteq> 0 \<and> jm_get (rc_cache ctx) key = Some v"

lemma flush_cache [simp]: "rc_cache (flushBatch ctx) = rc_cache ctx" "rc_mutationVersions (flushBatch ctx) = rc_mutationVersions ctx"
  by (auto simp: flushBatch_def)

lemma get_cache: "rc_cache (fst (getCachedWithBatching k ctx)) = rc_cache ctx"
  "rc_mutationVersions (fst (getCachedWithBatching k ctx)) = rc_mutationVersions ctx"
  by (auto simp: getCachedWithBatching_def Let_def split: option.split)

lemma written_step:
  assumes "batch_inv ctx" "written ctx key v"
  shows "written (batch_step e ctx) key (case e of BSet k w \<Rightarrow> if k = key then w else v | _ \<Rightarrow> v)"
proof (cases e)
  case (BDeliver i)
  have "pr_version (rc_reads ctx ! i) = 0" if "i < length (rc_reads ctx)" using assms(1) that by (simp add: batch_inv_def cache_ok_def)
  then show ?thesis using BDeliver assms(2)
    by (auto simp: written_def deliver_def version_of_key_def jsmap_simps split: read_stage.split)
qed (use assms(2) in \<open>auto simp: written_def version_of_key_def get_cache setInRequestCache_def jsmap_simps timer_fires_def
      batch_answered_def clearPendingRead_def split: read_stage.split\<close>)

lemma written_fold:
  assumes "batch_inv ctx" "written ctx key v"
  shows "written (fold batch_step es ctx) key (case last_set es key of None \<Rightarrow> v | Some w \<Rightarrow> w)"
  using assms
proof (induction es arbitrary: ctx v)
  case (Cons e es)
  from Cons.IH[OF inv_step[OF Cons.prems(1)] written_step[OF Cons.prems], of e]
  show ?case by (auto split: option.splits batch_event.splits if_splits)
qed simp

lemma set_written: "written (setInRequestCache key v ctx) key v"
  by (simp add: written_def setInRequestCache_def version_of_key_def jsmap_simps)

lemma last_set_written:
  "batch_inv ctx \<Longrightarrow> last_set es key = Some v \<Longrightarrow> written (fold batch_step es ctx) key v"
proof (induction es arbitrary: ctx)
  case (Cons e es)
  show ?case
  proof (cases "last_set es key")
    case None
    then have e: "e = BSet key v" using Cons.prems(2) by (auto split: batch_event.splits if_splits)
    have "written (batch_step e ctx) key v" using e set_written by simp
    from written_fold[OF inv_step[OF Cons.prems(1)] this, of es] show ?thesis using None by simp
  next
    case (Some w)
    then show ?thesis using Cons.IH[OF inv_step[OF Cons.prems(1)]] Cons.prems(2) by simp
  qed
qed simp

lemma batch_initial_inv: "batch_inv runWithCacheBatching"
  using inv_run[of "[]"] by (simp add: batch_run_def)

text \<open>C21: Once a request has written a key, in every interleaving of reads, batches, answers and reactions it only
  sees its own last write: a read that begins later answers it at once, and a read that was under way delivers
  it instead of what the backend answered and does not disturb the cache.\<close>

theorem request_sees_its_writes:
  assumes "last_set es key = Some v"
  shows "getCachedWithBatching key (batch_run es) = (batch_run es, Known v) \<and>
    (\<forall>i < length (rc_reads (batch_run es)). \<forall>r. key_of (batch_run es) i = key \<and>
       pr_stage (rc_reads (batch_run es) ! i) = Resolved r \<longrightarrow>
       pr_stage (rc_reads (batch_run (es @ [BDeliver i])) ! i) = Delivered (Some v) \<and>
       jm_get (rc_cache (batch_run (es @ [BDeliver i]))) key = Some v)"
proof -
  define ctx where "ctx = batch_run es"
  have inv: "batch_inv ctx" by (simp add: ctx_def inv_run)
  have w: "written ctx key v" using last_set_written[OF batch_initial_inv assms] by (simp add: ctx_def batch_run_def)
  have "pr_stage (rc_reads (deliver i ctx) ! i) = Delivered (Some v) \<and> jm_get (rc_cache (deliver i ctx)) key = Some v"
    if "i < length (rc_reads ctx)" "key_of ctx i = key" "pr_stage (rc_reads ctx ! i) = Resolved r" for i r
  proof -
    have "pr_version (rc_reads ctx ! i) = 0" using inv that(1) by (simp add: batch_inv_def cache_ok_def)
    then show ?thesis using that w by (simp add: deliver_def written_def cached_value_def move_read_stage)
  qed
  moreover have "batch_run (es @ [BDeliver i]) = deliver i ctx" for i by (simp add: batch_run_def ctx_def)
  moreover have "getCachedWithBatching key ctx = (ctx, Known v)" using w by (simp add: getCachedWithBatching_def written_def)
  ultimately show ?thesis by (simp add: ctx_def)
qed

theorem request_sees_its_writes_witness:
  "getCachedWithBatching ''k'' (batch_run [BGet ''k'', BTimer, BSet ''k'' (Some ''new''), BAnswer 0 (Some [(''k'', Some ''old'')])]) =
     (batch_run [BGet ''k'', BTimer, BSet ''k'' (Some ''new''), BAnswer 0 (Some [(''k'', Some ''old'')])], Known (Some ''new''))"
proof -
  have "last_set [BGet ''k'', BTimer, BSet ''k'' (Some ''new''), BAnswer 0 (Some [(''k'', Some ''old'')])] ''k'' = Some (Some ''new'')"
    by simp
  from request_sees_its_writes[OF this] show ?thesis by blast
qed

subsection \<open>Fetching a key once\<close>

text \<open>The keys asked of the backend are those of the reads that have left the queue.\<close>

definition fetched_ok :: "request_context \<Rightarrow> bool" where
  "fetched_ok ctx \<longleftrightarrow> (\<forall>i < length (rc_reads ctx). pr_stage (rc_reads ctx ! i) \<notin> {Rejected, Delivered None, Cleared None}) \<and>
     set (rc_fetched ctx) = {key_of ctx i |i. i < length (rc_reads ctx) \<and> pr_stage (rc_reads ctx ! i) \<noteq> Waiting} \<and>
     distinct (rc_fetched ctx)"

lemma one_flightD:
  "batch_inv ctx \<Longrightarrow> i < j \<Longrightarrow> j < length (rc_reads ctx) \<Longrightarrow> key_of ctx i = key_of ctx j \<Longrightarrow>
     pr_stage (rc_reads ctx ! i) = Cleared None"
  unfolding batch_inv_def one_flight_def key_of_def by blast

lemma keys_distinct:
  assumes "batch_inv ctx" "fetched_ok ctx" "i < length (rc_reads ctx)" "j < length (rc_reads ctx)" "key_of ctx i = key_of ctx j"
  shows "i = j"
proof (rule ccontr)
  assume "i \<noteq> j"
  then have "pr_stage (rc_reads ctx ! i) = Cleared None \<or> pr_stage (rc_reads ctx ! j) = Cleared None"
    using one_flightD[OF assms(1), of i j] one_flightD[OF assms(1), of j i] assms(3-5) by (cases i j rule: linorder_cases) auto
  then show False using assms(2-4) by (auto simp: fetched_ok_def)
qed

lemma fetched_flush: "batch_inv ctx \<Longrightarrow> fetched_ok ctx \<Longrightarrow> fetched_ok (flushBatch ctx)"
proof (cases "rc_batchQueue ctx = []")
  case False
  assume inv: "batch_inv ctx" and ok: "fetched_ok ctx"
  define rs q where "rs = rc_reads ctx" and "q = rc_batchQueue ctx"
  define rs' where "rs' = move_reads q Fetching rs"
  have q: "i \<in> set q \<longleftrightarrow> i < length rs \<and> pr_stage (rs ! i) = Waiting" for i
    using inv by (simp add: batch_inv_def queue_ok_def reads_at_def rs_def q_def)
  then have idx: "\<forall>i \<in> set q. i < length rs" by blast
  have st: "pr_stage (rs' ! i) = (if i \<in> set q then Fetching else pr_stage (rs ! i))" "length rs' = length rs"
    "pr_key (rs' ! i) = pr_key (rs ! i)" for i
    using fold_moves_stage[OF idx] by (simp_all add: rs'_def move_reads_def)
  have new: "set (uniqueKeys ctx) = {pr_key (rs ! i) |i. i \<in> set q}"
    by (auto simp: uniqueKeys_def key_of_def rs_def q_def)
  have old: "set (rc_fetched ctx) = {pr_key (rs ! i) |i. i < length rs \<and> pr_stage (rs ! i) \<noteq> Waiting}"
    using ok by (simp add: fetched_ok_def key_of_def rs_def)
  have "set (rc_fetched ctx) \<inter> set (uniqueKeys ctx) = {}"
  proof (rule ccontr)
    assume "set (rc_fetched ctx) \<inter> set (uniqueKeys ctx) \<noteq> {}"
    then obtain i j where ij: "i < length rs" "pr_stage (rs ! i) \<noteq> Waiting" "j \<in> set q" "pr_key (rs ! i) = pr_key (rs ! j)"
      using old new by auto
    then have "i = j" using keys_distinct[OF inv ok, of i j] q by (simp add: key_of_def rs_def)
    then show False using ij q by blast
  qed
  then have "distinct (rc_fetched ctx @ uniqueKeys ctx)" using ok by (auto simp: fetched_ok_def uniqueKeys_def)
  moreover have "set (rc_fetched ctx @ uniqueKeys ctx) = {pr_key (rs' ! i) |i. i < length rs' \<and> pr_stage (rs' ! i) \<noteq> Waiting}"
    using old new q st by auto
  moreover have "\<forall>i < length rs'. pr_stage (rs' ! i) \<notin> {Rejected, Delivered None, Cleared None}"
    using ok st by (auto simp: fetched_ok_def rs_def)
  ultimately show ?thesis using False
    by (simp add: fetched_ok_def flushBatch_def key_of_def rs_def q_def rs'_def)
qed (simp add: flushBatch_def)

lemma fetched_same:
  assumes "fetched_ok ctx" "rc_fetched ctx' = rc_fetched ctx" "length (rc_reads ctx') = length (rc_reads ctx)"
    "\<And>i. i < length (rc_reads ctx) \<Longrightarrow> pr_key (rc_reads ctx' ! i) = pr_key (rc_reads ctx ! i) \<and>
      (pr_stage (rc_reads ctx' ! i) = Waiting \<longleftrightarrow> pr_stage (rc_reads ctx ! i) = Waiting) \<and>
      pr_stage (rc_reads ctx' ! i) \<notin> {Rejected, Delivered None, Cleared None}"
  shows "fetched_ok ctx'"
proof -
  have "{key_of ctx' i |i. i < length (rc_reads ctx') \<and> pr_stage (rc_reads ctx' ! i) \<noteq> Waiting} =
    {key_of ctx i |i. i < length (rc_reads ctx) \<and> pr_stage (rc_reads ctx ! i) \<noteq> Waiting}"
    using assms(3,4) by (auto simp: key_of_def) metis+
  then show ?thesis using assms by (simp add: fetched_ok_def)
qed

lemma fetched_get:
  assumes inv: "batch_inv ctx" and ok: "fetched_ok ctx"
  shows "fetched_ok (fst (getCachedWithBatching key ctx))"
proof (cases "jm_get (rc_cache ctx) key = None \<and> jm_get (rc_pending ctx) key = None")
  case True
  define ctx1 where "ctx1 = ctx\<lparr>rc_reads := rc_reads ctx @ [\<lparr>pr_key = key, pr_version = version_of_key ctx key, pr_stage = Waiting\<rparr>],
    rc_batchQueue := rc_batchQueue ctx @ [length (rc_reads ctx)]\<rparr>"
  define p where "p = jm_set key (length (rc_reads ctx)) (rc_pending ctx)"
  have inv1: "batch_inv (ctx1\<lparr>rc_pending := p\<rparr>)" using inv_new_read[OF inv] True by (simp add: ctx1_def p_def)
  have "{key_of ctx1 i |i. i < length (rc_reads ctx1) \<and> pr_stage (rc_reads ctx1 ! i) \<noteq> Waiting} =
      {key_of ctx i |i. i < length (rc_reads ctx) \<and> pr_stage (rc_reads ctx ! i) \<noteq> Waiting}"
    by (auto simp: ctx1_def key_of_def nth_append less_Suc_eq)
  then have "fetched_ok ctx1" using ok by (auto simp: fetched_ok_def ctx1_def nth_append less_Suc_eq)
  then have ok1: "fetched_ok (ctx1\<lparr>rc_pending := p\<rparr>)" by (simp add: fetched_ok_def key_of_def)
  then have "fetched_ok (flushBatch (ctx1\<lparr>rc_pending := p\<rparr>))" using fetched_flush inv1 by blast
  moreover have "fetched_ok (ctx1\<lparr>rc_batchTimer := True, rc_pending := p\<rparr>)" using ok1 by (simp add: fetched_ok_def key_of_def)
  moreover have "rc_pending ctx1 = rc_pending ctx" by (simp add: ctx1_def)
  moreover have "fst (getCachedWithBatching key ctx) =
        (let ctx2 = (if length (rc_batchQueue ctx1) \<ge> MAX_BATCH_SIZE then flushBatch ctx1 else ctx1\<lparr>rc_batchTimer := True\<rparr>)
         in ctx2\<lparr>rc_pending := jm_set key (length (rc_reads ctx)) (rc_pending ctx2)\<rparr>)"
    using True by (simp add: getCachedWithBatching_def Let_def ctx1_def)
  ultimately show ?thesis by (simp add: Let_def flush_pending p_def)
qed (use ok in \<open>auto simp: getCachedWithBatching_def split: option.splits\<close>)

lemma fetched_deliver: "fetched_ok ctx \<Longrightarrow> fetched_ok (deliver i ctx)"
proof (rule fetched_same)
  assume ok: "fetched_ok ctx"
  show "rc_fetched (deliver i ctx) = rc_fetched ctx" "length (rc_reads (deliver i ctx)) = length (rc_reads ctx)"
    by (auto simp: deliver_def split: read_stage.split)
  fix j
  assume "j < length (rc_reads ctx)"
  then show "pr_key (rc_reads (deliver i ctx) ! j) = pr_key (rc_reads ctx ! j) \<and>
      (pr_stage (rc_reads (deliver i ctx) ! j) = Waiting \<longleftrightarrow> pr_stage (rc_reads ctx ! j) = Waiting) \<and>
      pr_stage (rc_reads (deliver i ctx) ! j) \<notin> {Rejected, Delivered None, Cleared None}"
    using ok by (auto simp: deliver_def fetched_ok_def move_read_stage split: read_stage.splits)
qed

lemma fetched_clear: "fetched_ok ctx \<Longrightarrow> fetched_ok (clearPendingRead i ctx)"
proof (rule fetched_same)
  assume ok: "fetched_ok ctx"
  show "rc_fetched (clearPendingRead i ctx) = rc_fetched ctx" "length (rc_reads (clearPendingRead i ctx)) = length (rc_reads ctx)"
    by (auto simp: clearPendingRead_def split: read_stage.split)
  fix j
  assume "j < length (rc_reads ctx)"
  then show "pr_key (rc_reads (clearPendingRead i ctx) ! j) = pr_key (rc_reads ctx ! j) \<and>
      (pr_stage (rc_reads (clearPendingRead i ctx) ! j) = Waiting \<longleftrightarrow> pr_stage (rc_reads ctx ! j) = Waiting) \<and>
      pr_stage (rc_reads (clearPendingRead i ctx) ! j) \<notin> {Rejected, Delivered None, Cleared None}"
    using ok by (auto simp: clearPendingRead_def fetched_ok_def move_read_stage split: read_stage.splits)
qed

lemma fetched_answer:
  assumes inv: "batch_inv ctx" and ok: "fetched_ok ctx"
  shows "fetched_ok (batch_answered b (Some results) ctx)"
proof (cases "b < length (rc_batches ctx)")
  case True
  let ?is = "rc_batches ctx ! b" and ?rs = "rc_reads ctx"
  have "set ?is \<subseteq> set (concat (rc_batches ctx))" using nth_mem[OF True] by auto
  then have f: "\<forall>i \<in> set ?is. i < length ?rs \<and> pr_stage (?rs ! i) = Fetching"
    using inv unfolding batch_inv_def queue_ok_def reads_at_def by blast
  then have idx: "\<forall>i \<in> set ?is. i < length ?rs" by blast
  show ?thesis
  proof (rule fetched_same[OF ok])
    fix j
    assume "j < length ?rs"
    then show "pr_key (rc_reads (batch_answered b (Some results) ctx) ! j) = pr_key (?rs ! j) \<and>
      (pr_stage (rc_reads (batch_answered b (Some results) ctx) ! j) = Waiting \<longleftrightarrow> pr_stage (?rs ! j) = Waiting) \<and>
      pr_stage (rc_reads (batch_answered b (Some results) ctx) ! j) \<notin> {Rejected, Delivered None, Cleared None}"
      using ok True f fold_moves_stage[OF idx, of "\<lambda>i. answer_stage (Some results) (key_of ctx i)" j]
      by (auto simp: batch_answered_def fetched_ok_def simp del: answer_stage.simps) simp_all
  qed (simp_all add: batch_answered_def True)
qed (use ok in \<open>simp add: batch_answered_def\<close>)

lemma fetched_step:
  assumes "batch_inv ctx" "fetched_ok ctx" "\<And>b. e \<noteq> BAnswer b None"
  shows "fetched_ok (batch_step e ctx)"
proof (cases e)
  case (BAnswer b results)
  then show ?thesis using assms fetched_answer by (cases results) auto
next
  case (BTimer)
  have "fetched_ok (ctx\<lparr>rc_batchTimer := False\<rparr>)" using assms(2) by (simp add: fetched_ok_def key_of_def)
  then show ?thesis using BTimer assms fetched_flush[of "ctx\<lparr>rc_batchTimer := False\<rparr>"] by (simp add: timer_fires_def)
next
  case (BSet k v)
  then show ?thesis using assms(2) by (simp add: setInRequestCache_def fetched_ok_def key_of_def)
qed (use assms fetched_get fetched_deliver fetched_clear in simp_all)

lemma fetched_fold:
  "batch_inv ctx \<Longrightarrow> fetched_ok ctx \<Longrightarrow> (\<And>b. BAnswer b None \<notin> set es) \<Longrightarrow> fetched_ok (fold batch_step es ctx)"
proof (induction es arbitrary: ctx)
  case (Cons e es)
  have "\<And>b. e \<noteq> BAnswer b None" using Cons.prems(3) by (metis list.set_intros(1))
  then have "fetched_ok (batch_step e ctx)" by (rule fetched_step[OF Cons.prems(1,2)])
  then show ?case using Cons.IH[OF inv_step[OF Cons.prems(1)]] Cons.prems(3) by simp
qed simp

text \<open>Reads are neither doubled nor lost. In every interleaving, a key is asked of the backend at most once
  per request as long as no batch fails; with failures, of two reads of a key the earlier one has failed. A read
  that waits is in the queue, the timer is set and the queue is shorter than a full batch; a read being fetched
  belongs to a batch that awaits its answer; and when the timer fires nothing waits any more.\<close>

theorem reads_fetched_once_and_not_lost:
  fixes es :: "batch_event list"
  defines "ctx \<equiv> batch_run es"
  shows "((\<forall>b. BAnswer b None \<notin> set es) \<longrightarrow> distinct (rc_fetched ctx)) \<and>
    (\<forall>i j. i < j \<and> j < length (rc_reads ctx) \<and> key_of ctx i = key_of ctx j \<longrightarrow> pr_stage (rc_reads ctx ! i) = Cleared None) \<and>
    (\<forall>i < length (rc_reads ctx).
       (pr_stage (rc_reads ctx ! i) = Waiting \<longrightarrow>
          i \<in> set (rc_batchQueue ctx) \<and> rc_batchTimer ctx \<and> length (rc_batchQueue ctx) < MAX_BATCH_SIZE) \<and>
       (pr_stage (rc_reads ctx ! i) = Fetching \<longrightarrow> (\<exists>batch \<in> set (rc_batches ctx). i \<in> set batch)) \<and>
       pr_stage (rc_reads (timer_fires ctx) ! i) \<noteq> Waiting)"
proof (intro conjI allI impI)
  have inv: "batch_inv ctx" and timer: "timer_ok ctx" by (simp_all add: ctx_def inv_run timer_run)
  show "distinct (rc_fetched ctx)" if "\<forall>b. BAnswer b None \<notin> set es"
    using fetched_fold[OF batch_initial_inv, of es] that
    by (auto simp: ctx_def batch_run_def fetched_ok_def runWithCacheBatching_def)
  show "pr_stage (rc_reads ctx ! i) = Cleared None" if "i < j \<and> j < length (rc_reads ctx) \<and> key_of ctx i = key_of ctx j" for i j
    using one_flightD[OF inv] that by blast
  fix i assume i: "i < length (rc_reads ctx)"
  have q: "j \<in> set (rc_batchQueue ctx) \<longleftrightarrow> j < length (rc_reads ctx) \<and> pr_stage (rc_reads ctx ! j) = Waiting" for j
    using inv by (simp add: batch_inv_def queue_ok_def reads_at_def)
  show "\<exists>batch \<in> set (rc_batches ctx). i \<in> set batch" if "pr_stage (rc_reads ctx ! i) = Fetching"
    using inv i that by (simp add: batch_inv_def queue_ok_def reads_at_def)
  show queued: "i \<in> set (rc_batchQueue ctx)" if "pr_stage (rc_reads ctx ! i) = Waiting" using q i that by blast
  show "rc_batchTimer ctx" "length (rc_batchQueue ctx) < MAX_BATCH_SIZE" if "pr_stage (rc_reads ctx ! i) = Waiting"
    using queued[OF that] timer by (auto simp: timer_ok_def)
  have idx: "\<forall>j \<in> set (rc_batchQueue ctx). j < length (rc_reads ctx)" using q by blast
  show "pr_stage (rc_reads (timer_fires ctx) ! i) \<noteq> Waiting"
    using fold_moves_stage[OF idx, of "\<lambda>_. Fetching" i] q[of i] i timer
    by (auto simp: timer_fires_def flushBatch_def move_reads_def timer_ok_def)
qed

end
