(* ===== verification/CacheTtl.thy ===== *)
theory CacheTtl
  imports Complex_Main Prelude
begin

text \<open>
  The lifetimes of cache entries, \<open>cache/backends/ttl.ts\<close>. A number of JavaScript is a rational, an infinity or
  \<open>NaN\<close>; the rounding of its arithmetic is left out. Times are in milliseconds, lifetimes in seconds.
\<close>

datatype js_number = NaN | PlusInfinity | MinusInfinity | Num rat

datatype range_error = RangeError

definition MAX_CACHE_TTL_SECONDS :: rat where
  "MAX_CACHE_TTL_SECONDS = 2147483647"

definition MAX_CACHE_TTL_MILLISECONDS :: rat where
  "MAX_CACHE_TTL_MILLISECONDS = MAX_CACHE_TTL_SECONDS * 1000"

definition DEFAULT_CACHE_TTL_SECONDS :: rat where
  "DEFAULT_CACHE_TTL_SECONDS = 300"

fun check_ttl :: "js_number \<Rightarrow> range_error + rat option" where
  "check_ttl (Num q) = (if q > MAX_CACHE_TTL_SECONDS then Inl RangeError else Inr (Some q))"
| "check_ttl _ = Inl RangeError"

definition resolveCacheTtlSeconds :: "js_number option \<Rightarrow> js_number option \<Rightarrow> range_error + rat option" where
  "resolveCacheTtlSeconds ttlSeconds defaultTtlSeconds =
     (case (case ttlSeconds of None \<Rightarrow> defaultTtlSeconds | Some t \<Rightarrow> Some t) of
        None \<Rightarrow> Inr None
      | Some resolved \<Rightarrow> check_ttl resolved)"

definition resolveIntegerCacheTtlSeconds :: "js_number option \<Rightarrow> js_number option \<Rightarrow> range_error + rat option" where
  "resolveIntegerCacheTtlSeconds ttlSeconds defaultTtlSeconds =
     (case resolveCacheTtlSeconds ttlSeconds defaultTtlSeconds of
        Inl e \<Rightarrow> Inl e
      | Inr None \<Rightarrow> Inr None
      | Inr (Some q) \<Rightarrow> Inr (Some (if q > 0 then of_int \<lceil>q\<rceil> else q)))"

definition expiresImmediately :: "rat option \<Rightarrow> bool" where
  "expiresImmediately ttlSeconds \<longleftrightarrow> (case ttlSeconds of None \<Rightarrow> False | Some q \<Rightarrow> q \<le> 0)"

fun cacheTtlMillisecondsToSeconds :: "js_number \<Rightarrow> range_error + int" where
  "cacheTtlMillisecondsToSeconds (Num q) =
     (if q \<le> 0 \<or> q > MAX_CACHE_TTL_MILLISECONDS then Inl RangeError else Inr \<lceil>q / 1000\<rceil>)"
| "cacheTtlMillisecondsToSeconds _ = Inl RangeError"

definition MAX_SAFE_INTEGER :: rat where
  "MAX_SAFE_INTEGER = 9007199254740991"

fun requirePositiveIntegerCacheTtlSeconds :: "js_number \<Rightarrow> range_error + int" where
  "requirePositiveIntegerCacheTtlSeconds (Num q) =
     (if q \<noteq> of_int \<lfloor>q\<rfloor> \<or> \<bar>q\<bar> > MAX_SAFE_INTEGER \<or> q \<le> 0 \<or> q > MAX_CACHE_TTL_SECONDS then Inl RangeError
      else Inr \<lfloor>q\<rfloor>)"
| "requirePositiveIntegerCacheTtlSeconds _ = Inl RangeError"

lemma resolve_default [simp]:
  "resolveCacheTtlSeconds None (Some (Num DEFAULT_CACHE_TTL_SECONDS)) = Inr (Some 300)"
  by (simp add: resolveCacheTtlSeconds_def DEFAULT_CACHE_TTL_SECONDS_def MAX_CACHE_TTL_SECONDS_def)

lemma check_ttl_Inr: "check_ttl t = Inr r \<longleftrightarrow> (\<exists>q. t = Num q \<and> q \<le> MAX_CACHE_TTL_SECONDS \<and> r = Some q)"
  by (cases t) auto

lemma resolved_within_bound:
  "resolveCacheTtlSeconds t d = Inr (Some q) \<Longrightarrow> q \<le> MAX_CACHE_TTL_SECONDS"
  by (auto simp: resolveCacheTtlSeconds_def check_ttl_Inr split: option.splits)

text \<open>Rounding to whole seconds never shortens a lifetime, lengthens it by less than a second, stays within the
  bound and keeps what expires at once.\<close>

lemma integer_ttl_rounds_up:
  assumes "resolveCacheTtlSeconds t d = Inr (Some q)"
  shows "\<exists>r. resolveIntegerCacheTtlSeconds t d = Inr (Some r) \<and> q \<le> r \<and> r < q + 1 \<and> r \<le> MAX_CACHE_TTL_SECONDS \<and>
    (expiresImmediately (Some r) \<longleftrightarrow> expiresImmediately (Some q))"
proof -
  have b: "q \<le> MAX_CACHE_TTL_SECONDS" using assms by (rule resolved_within_bound)
  then have "\<lceil>q\<rceil> \<le> 2147483647" by (simp add: ceiling_le_iff MAX_CACHE_TTL_SECONDS_def)
  then have "(of_int \<lceil>q\<rceil> :: rat) \<le> of_int 2147483647" by (simp only: of_int_le_iff)
  moreover have "q \<le> of_int \<lceil>q\<rceil>" "of_int \<lceil>q\<rceil> < q + 1" by linarith+
  ultimately show ?thesis using assms b
    by (auto simp: resolveIntegerCacheTtlSeconds_def expiresImmediately_def MAX_CACHE_TTL_SECONDS_def)
qed

lemma milliseconds_round_up:
  assumes "cacheTtlMillisecondsToSeconds (Num q) = Inr s"
  shows "q \<le> 1000 * of_int s \<and> 1000 * of_int s < q + 1000 \<and> 1 \<le> s \<and> of_int s \<le> MAX_CACHE_TTL_SECONDS"
proof -
  from assms have s: "s = \<lceil>q / 1000\<rceil>" "0 < q" "q \<le> MAX_CACHE_TTL_MILLISECONDS" by (auto split: if_splits)
  have "q / 1000 \<le> of_int s" "of_int s < q / 1000 + 1" using s(1) by linarith+
  moreover have "s \<le> 2147483647"
    using s unfolding s(1) ceiling_le_iff by (simp add: MAX_CACHE_TTL_MILLISECONDS_def MAX_CACHE_TTL_SECONDS_def)
  then have "(of_int s :: rat) \<le> of_int 2147483647" by (simp only: of_int_le_iff)
  moreover have "1 \<le> s" using s(2) unfolding s(1) by (simp add: le_ceiling_iff)
  ultimately show ?thesis by (simp add: MAX_CACHE_TTL_SECONDS_def)
qed

end
