(* ===== verification/MultiTier.thy ===== *)
theory MultiTier
  imports CacheTtl
begin

text \<open>
  The multi-tier cache, \<open>cache/multi-tier.ts\<close>: up to three tiers, read in order, with a backfill of the tiers above
  the one that answered. A tier is a record of its operations over a state of its own; an operation takes the
  time, and its promise may be rejected. Reads of one call are atomic here; a backfill is a job that asks the source
  for the remaining lifetime and writes in a later step, so other operations can come between, as they can when
  backfills are not awaited. Logging and tracing are left out.
\<close>

subsection \<open>Tiers\<close>

text \<open>\<open>None\<close> as the outer result of a read is a rejected promise. A write is fulfilled, rejected or never settles.\<close>

datatype set_outcome = SetFulfilled | SetRejected | SetPending

record ('s, 'v) tier =
  tier_name :: string
  tier_get :: "rat \<Rightarrow> string \<Rightarrow> 's \<Rightarrow> 's \<times> 'v option option"
  tier_set :: "rat \<Rightarrow> string \<Rightarrow> 'v \<Rightarrow> rat \<Rightarrow> 's \<Rightarrow> 's \<times> set_outcome"
  tier_ttl :: "(rat \<Rightarrow> string \<Rightarrow> 's \<Rightarrow> 's \<times> js_number option option) option"
  tier_delete :: "(string \<Rightarrow> 's \<Rightarrow> 's \<times> bool) option"
  tier_getBatch :: "(rat \<Rightarrow> string list \<Rightarrow> 's \<Rightarrow> 's \<times> (string \<times> 'v option) list option) option"

record ('a, 'b, 'c, 'v) multi_tier_config =
  cf_l1 :: "('a, 'v) tier option"
  cf_l2 :: "('b, 'v) tier option"
  cf_l3 :: "('c, 'v) tier option"
  cf_defaultTtlSeconds :: rat
  cf_backfillOnHit :: bool
  cf_asyncBackfill :: bool

record cache_stats =
  cs_gets :: nat
  cs_l1Hits :: nat
  cs_l2Hits :: nat
  cs_l3Hits :: nat
  cs_misses :: nat
  cs_sets :: nat
  cs_backfills :: nat

definition zero_stats :: cache_stats where
  "zero_stats = \<lparr>cs_gets = 0, cs_l1Hits = 0, cs_l2Hits = 0, cs_l3Hits = 0, cs_misses = 0, cs_sets = 0, cs_backfills = 0\<rparr>"

datatype lower_tier = FromL2 | FromL3

text \<open>A backfill that waits for its source to answer, or has the answer. A hit in L2 fills L1, a hit in L3 fills
  both.\<close>

datatype ttl_stage = AwaitingTtl | TtlAnswered "js_number option option"

record 'v backfill_job =
  bj_key :: string
  bj_value :: 'v
  bj_source :: lower_tier
  bj_stage :: ttl_stage

record ('a, 'b, 'c, 'v) multi_tier =
  ms_l1 :: 'a
  ms_l2 :: 'b
  ms_l3 :: 'c
  ms_stats :: cache_stats
  ms_jobs :: "'v backfill_job list"

definition newMultiTierCache :: "'a \<Rightarrow> 'b \<Rightarrow> 'c \<Rightarrow> ('a, 'b, 'c, 'v) multi_tier" where
  "newMultiTierCache a b c = \<lparr>ms_l1 = a, ms_l2 = b, ms_l3 = c, ms_stats = zero_stats, ms_jobs = []\<rparr>"

subsection \<open>Backfill\<close>

definition set_if :: "('s, 'v) tier option \<Rightarrow> rat \<Rightarrow> string \<Rightarrow> 'v \<Rightarrow> rat \<Rightarrow> 's \<Rightarrow> 's" where
  "set_if t now key v ttl s = (case t of None \<Rightarrow> s | Some t \<Rightarrow> fst (tier_set t now key v ttl s))"

text \<open>The writes at the end of \<open>backfill\<close>; a rejected write is logged.\<close>

definition backfill_writes :: "('a, 'b, 'c, 'v) multi_tier_config \<Rightarrow> rat \<Rightarrow> string \<Rightarrow> 'v \<Rightarrow> lower_tier \<Rightarrow> rat \<Rightarrow>
    ('a, 'b, 'c, 'v) multi_tier \<Rightarrow> ('a, 'b, 'c, 'v) multi_tier" where
  "backfill_writes c now key v source ttl st =
     (let st1 = st\<lparr>ms_l1 := set_if (cf_l1 c) now key v ttl (ms_l1 st)\<rparr>
      in if source = FromL3 then st1\<lparr>ms_l2 := set_if (cf_l2 c) now key v ttl (ms_l2 st)\<rparr> else st1)"

definition reports_ttl :: "('a, 'b, 'c, 'v) multi_tier_config \<Rightarrow> lower_tier \<Rightarrow> bool" where
  "reports_ttl c source =
     (case source of
        FromL2 \<Rightarrow> (case cf_l2 c of None \<Rightarrow> False | Some t \<Rightarrow> tier_ttl t \<noteq> None)
      | FromL3 \<Rightarrow> (case cf_l3 c of None \<Rightarrow> False | Some t \<Rightarrow> tier_ttl t \<noteq> None))"

text \<open>The part of \<open>backfill\<close> that runs at once.\<close>

definition backfill :: "('a, 'b, 'c, 'v) multi_tier_config \<Rightarrow> rat \<Rightarrow> string \<Rightarrow> 'v \<Rightarrow> lower_tier \<Rightarrow>
    ('a, 'b, 'c, 'v) multi_tier \<Rightarrow> ('a, 'b, 'c, 'v) multi_tier" where
  "backfill c now key v source st =
     (if \<not> cf_backfillOnHit c then st
      else
        (let st1 = st\<lparr>ms_stats := (ms_stats st)\<lparr>cs_backfills := cs_backfills (ms_stats st) + 1\<rparr>\<rparr>
         in if reports_ttl c source
            then st1\<lparr>ms_jobs := ms_jobs st1 @
                   [\<lparr>bj_key = key, bj_value = v, bj_source = source, bj_stage = AwaitingTtl\<rparr>]\<rparr>
            else backfill_writes c now key v source (cf_defaultTtlSeconds c) st1))"

text \<open>The source answers the question for the remaining lifetime.\<close>

definition ask_ttl :: "('s, 'v) tier option \<Rightarrow> rat \<Rightarrow> string \<Rightarrow> 's \<Rightarrow> 's \<times> js_number option option" where
  "ask_ttl t now key s =
     (case t of None \<Rightarrow> (s, None)
      | Some t \<Rightarrow> (case tier_ttl t of None \<Rightarrow> (s, None) | Some f \<Rightarrow> f now key s))"

definition job_answered :: "('a, 'b, 'c, 'v) multi_tier_config \<Rightarrow> rat \<Rightarrow> nat \<Rightarrow>
    ('a, 'b, 'c, 'v) multi_tier \<Rightarrow> ('a, 'b, 'c, 'v) multi_tier" where
  "job_answered c now i st =
     (if i < length (ms_jobs st) \<and> bj_stage (ms_jobs st ! i) = AwaitingTtl then
        (let j = ms_jobs st ! i
         in case bj_source j of
              FromL2 \<Rightarrow> (case ask_ttl (cf_l2 c) now (bj_key j) (ms_l2 st) of (s, r) \<Rightarrow>
                st\<lparr>ms_l2 := s, ms_jobs := (ms_jobs st)[i := j\<lparr>bj_stage := TtlAnswered r\<rparr>]\<rparr>)
            | FromL3 \<Rightarrow> (case ask_ttl (cf_l3 c) now (bj_key j) (ms_l3 st) of (s, r) \<Rightarrow>
                st\<lparr>ms_l3 := s, ms_jobs := (ms_jobs st)[i := j\<lparr>bj_stage := TtlAnswered r\<rparr>]\<rparr>))
      else st)"

text \<open>The lifetime of a backfilled entry; \<open>None\<close> when nothing is written.\<close>

fun backfill_ttl :: "rat \<Rightarrow> js_number option option \<Rightarrow> rat option" where
  "backfill_ttl d (Some (Some (Num q))) = (if q \<le> 0 then None else Some (min q d))"
| "backfill_ttl d (Some (Some PlusInfinity)) = Some d"
| "backfill_ttl d _ = None"

text \<open>The rest of \<open>backfill\<close> once the answer is there.\<close>

definition job_continues :: "('a, 'b, 'c, 'v) multi_tier_config \<Rightarrow> rat \<Rightarrow> nat \<Rightarrow>
    ('a, 'b, 'c, 'v) multi_tier \<Rightarrow> ('a, 'b, 'c, 'v) multi_tier" where
  "job_continues c now i st =
     (if i < length (ms_jobs st) then
        (let j = ms_jobs st ! i; st1 = st\<lparr>ms_jobs := take i (ms_jobs st) @ drop (Suc i) (ms_jobs st)\<rparr>
         in case bj_stage j of
              AwaitingTtl \<Rightarrow> st
            | TtlAnswered r \<Rightarrow>
                (case backfill_ttl (cf_defaultTtlSeconds c) r of
                   None \<Rightarrow> st1
                 | Some ttl \<Rightarrow> backfill_writes c now (bj_key j) (bj_value j) (bj_source j) ttl st1))
      else st)"

text \<open>All jobs to their end, as awaited backfills run.\<close>

definition finish_jobs :: "('a, 'b, 'c, 'v) multi_tier_config \<Rightarrow> rat \<Rightarrow>
    ('a, 'b, 'c, 'v) multi_tier \<Rightarrow> ('a, 'b, 'c, 'v) multi_tier" where
  "finish_jobs c now st = ((\<lambda>st. job_continues c now 0 (job_answered c now 0 st)) ^^ length (ms_jobs st)) st"

subsection \<open>Reading one key\<close>

text \<open>\<open>getFromTier\<close> without its counter: a rejected read is a miss.\<close>

definition getFromTier :: "('s, 'v) tier option \<Rightarrow> rat \<Rightarrow> string \<Rightarrow> 's \<Rightarrow> 's \<times> 'v option" where
  "getFromTier t now key s =
     (case t of None \<Rightarrow> (s, None)
      | Some t \<Rightarrow> (case tier_get t now key s of (s1, r) \<Rightarrow> (s1, case r of None \<Rightarrow> None | Some v \<Rightarrow> v)))"

definition mt_get :: "('a, 'b, 'c, 'v) multi_tier_config \<Rightarrow> rat \<Rightarrow> string \<Rightarrow>
    ('a, 'b, 'c, 'v) multi_tier \<Rightarrow> ('a, 'b, 'c, 'v) multi_tier \<times> 'v option" where
  "mt_get c now key st =
     (let st0 = st\<lparr>ms_stats := (ms_stats st)\<lparr>cs_gets := cs_gets (ms_stats st) + 1\<rparr>\<rparr>
      in case getFromTier (cf_l1 c) now key (ms_l1 st0) of
           (a, Some v) \<Rightarrow> (st0\<lparr>ms_l1 := a, ms_stats := (ms_stats st0)\<lparr>cs_l1Hits := cs_l1Hits (ms_stats st0) + 1\<rparr>\<rparr>, Some v)
         | (a, None) \<Rightarrow>
             (let st1 = st0\<lparr>ms_l1 := a\<rparr>
              in case getFromTier (cf_l2 c) now key (ms_l2 st1) of
                   (b, Some v) \<Rightarrow>
                     (backfill c now key v FromL2
                        (st1\<lparr>ms_l2 := b, ms_stats := (ms_stats st1)\<lparr>cs_l2Hits := cs_l2Hits (ms_stats st1) + 1\<rparr>\<rparr>), Some v)
                 | (b, None) \<Rightarrow>
                     (let st2 = st1\<lparr>ms_l2 := b\<rparr>
                      in case getFromTier (cf_l3 c) now key (ms_l3 st2) of
                           (s, Some v) \<Rightarrow>
                             (backfill c now key v FromL3
                                (st2\<lparr>ms_l3 := s, ms_stats := (ms_stats st2)\<lparr>cs_l3Hits := cs_l3Hits (ms_stats st2) + 1\<rparr>\<rparr>), Some v)
                         | (s, None) \<Rightarrow>
                             (st2\<lparr>ms_l3 := s, ms_stats := (ms_stats st2)\<lparr>cs_misses := cs_misses (ms_stats st2) + 1\<rparr>\<rparr>, None))))"

subsection \<open>Writing and deleting\<close>

definition outcome_of :: "('s, 'v) tier option \<Rightarrow> rat \<Rightarrow> string \<Rightarrow> 'v \<Rightarrow> rat \<Rightarrow> 's \<Rightarrow> set_outcome" where
  "outcome_of t now key v ttl s = (case t of None \<Rightarrow> SetFulfilled | Some t \<Rightarrow> snd (tier_set t now key v ttl s))"

text \<open>The per-pod tiers are written first, their rejections swallowed; the write of L3 decides the outcome. When the
  per-pod writes are awaited and one never settles, L3 is not reached.\<close>

definition mt_set :: "('a, 'b, 'c, 'v) multi_tier_config \<Rightarrow> rat \<Rightarrow> string \<Rightarrow> 'v \<Rightarrow> rat option \<Rightarrow>
    ('a, 'b, 'c, 'v) multi_tier \<Rightarrow> ('a, 'b, 'c, 'v) multi_tier \<times> set_outcome" where
  "mt_set c now key v ttlSeconds st =
     (let ttl = (case ttlSeconds of None \<Rightarrow> cf_defaultTtlSeconds c | Some t \<Rightarrow> t);
          st1 = st\<lparr>ms_stats := (ms_stats st)\<lparr>cs_sets := cs_sets (ms_stats st) + 1\<rparr>,
                   ms_l1 := set_if (cf_l1 c) now key v ttl (ms_l1 st),
                   ms_l2 := set_if (cf_l2 c) now key v ttl (ms_l2 st)\<rparr>;
          perPodPending = (outcome_of (cf_l1 c) now key v ttl (ms_l1 st) = SetPending \<or>
                           outcome_of (cf_l2 c) now key v ttl (ms_l2 st) = SetPending)
      in if \<not> cf_asyncBackfill c \<and> perPodPending then (st1, SetPending)
         else (st1\<lparr>ms_l3 := set_if (cf_l3 c) now key v ttl (ms_l3 st)\<rparr>,
               outcome_of (cf_l3 c) now key v ttl (ms_l3 st)))"

definition delete_if :: "('s, 'v) tier option \<Rightarrow> string \<Rightarrow> 's \<Rightarrow> 's \<times> string list" where
  "delete_if t key s =
     (case t of None \<Rightarrow> (s, [])
      | Some t \<Rightarrow>
          (case tier_delete t of None \<Rightarrow> (s, [])
           | Some d \<Rightarrow> (case d key s of (s1, ok) \<Rightarrow> (s1, if ok then [] else [tier_name t]))))"

text \<open>The names of the tiers that failed; the call throws when there are any.\<close>

definition mt_delete :: "('a, 'b, 'c, 'v) multi_tier_config \<Rightarrow> string \<Rightarrow>
    ('a, 'b, 'c, 'v) multi_tier \<Rightarrow> ('a, 'b, 'c, 'v) multi_tier \<times> string list" where
  "mt_delete c key st =
     (case delete_if (cf_l1 c) key (ms_l1 st) of (a, f1) \<Rightarrow>
        (case delete_if (cf_l2 c) key (ms_l2 st) of (b, f2) \<Rightarrow>
           (case delete_if (cf_l3 c) key (ms_l3 st) of (s, f3) \<Rightarrow>
              (st\<lparr>ms_l1 := a, ms_l2 := b, ms_l3 := s\<rparr>, f1 @ f2 @ f3))))"

text \<open>\<open>computed\<close> is what the callback gives, \<open>None\<close> if it is rejected. The result is \<open>None\<close> when the call
  does not return a value.\<close>

definition getOrCompute :: "('a, 'b, 'c, 'v) multi_tier_config \<Rightarrow> rat \<Rightarrow> string \<Rightarrow> 'v option \<Rightarrow> rat option \<Rightarrow>
    ('a, 'b, 'c, 'v) multi_tier \<Rightarrow> ('a, 'b, 'c, 'v) multi_tier \<times> 'v option" where
  "getOrCompute c now key computed ttlSeconds st =
     (case mt_get c now key st of
        (st1, Some v) \<Rightarrow> (st1, Some v)
      | (st1, None) \<Rightarrow>
          (case computed of
             None \<Rightarrow> (st1, None)
           | Some v \<Rightarrow> (case mt_set c now key v ttlSeconds st1 of (st2, r) \<Rightarrow>
                          (st2, if r = SetFulfilled then Some v else None))))"

subsection \<open>Reading a batch\<close>

text \<open>Reading the keys one by one; one rejection rejects the whole.\<close>

fun individual_reads :: "('s, 'v) tier \<Rightarrow> rat \<Rightarrow> string list \<Rightarrow> 's \<Rightarrow> 's \<times> (string \<times> 'v option) list option" where
  "individual_reads t now [] s = (s, Some [])"
| "individual_reads t now (k # ks) s =
     (case tier_get t now k s of (s1, r) \<Rightarrow>
        (case individual_reads t now ks s1 of (s2, rs) \<Rightarrow>
           (s2, case (r, rs) of (Some v, Some xs) \<Rightarrow> Some ((k, v) # xs) | _ \<Rightarrow> None)))"

text \<open>\<open>new Map(results)\<close>: a later entry of a key replaces an earlier one.\<close>

definition individualGets :: "('s, 'v) tier \<Rightarrow> rat \<Rightarrow> string list \<Rightarrow> 's \<Rightarrow> 's \<times> (string \<times> 'v option) list option" where
  "individualGets t now ks s =
     (case individual_reads t now ks s of (s1, rs) \<Rightarrow> (s1, map_option (\<lambda>xs. fold (\<lambda>(k, v). jm_set k v) xs []) rs))"

definition batch_of :: "('s, 'v) tier \<Rightarrow> rat \<Rightarrow> string list \<Rightarrow> 's \<Rightarrow> 's \<times> (string \<times> 'v option) list option" where
  "batch_of t now ks s = (case tier_getBatch t of None \<Rightarrow> individualGets t now ks s | Some g \<Rightarrow> g now ks s)"

text \<open>The hits of a tier's answer, and the results with them.\<close>

definition batch_hits :: "(string \<times> 'v option) list option \<Rightarrow> (string \<times> 'v) list" where
  "batch_hits rs = (case rs of None \<Rightarrow> [] | Some xs \<Rightarrow> concat (map (\<lambda>(k, v). case v of None \<Rightarrow> [] | Some x \<Rightarrow> [(k, x)]) xs))"

definition add_hits :: "(string \<times> 'v) list \<Rightarrow> (string \<times> 'v option) list \<Rightarrow> (string \<times> 'v option) list" where
  "add_hits hits results = fold (\<lambda>(k, v). jm_set k (Some v)) hits results"

definition still_missing :: "(string \<times> 'v option) list \<Rightarrow> string list \<Rightarrow> string list" where
  "still_missing results ks = filter (\<lambda>k. case jm_get results k of None \<Rightarrow> True | Some v \<Rightarrow> v = None) ks"

definition getBatchFromTier :: "('s, 'v) tier option \<Rightarrow> rat \<Rightarrow> string list \<Rightarrow> 's \<Rightarrow> 's \<times> (string \<times> 'v) list" where
  "getBatchFromTier t now ks s =
     (case t of None \<Rightarrow> (s, [])
      | Some t \<Rightarrow> if ks = [] then (s, []) else (case batch_of t now ks s of (s1, rs) \<Rightarrow> (s1, batch_hits rs)))"

definition backfill_all :: "('a, 'b, 'c, 'v) multi_tier_config \<Rightarrow> rat \<Rightarrow> lower_tier \<Rightarrow> (string \<times> 'v) list \<Rightarrow>
    ('a, 'b, 'c, 'v) multi_tier \<Rightarrow> ('a, 'b, 'c, 'v) multi_tier" where
  "backfill_all c now source hits st = fold (\<lambda>(k, v). backfill c now k v source) hits st"

text \<open>The keys L3 answered with a miss, and those without a result at the end.\<close>

definition l3_answer :: "('c, 'v) tier option \<Rightarrow> rat \<Rightarrow> string list \<Rightarrow> 'c \<Rightarrow> 'c \<times> (string \<times> 'v option) list option" where
  "l3_answer t now ks s =
     (case t of None \<Rightarrow> (s, None) | Some t \<Rightarrow> if ks = [] then (s, None) else batch_of t now ks s)"

fun fill_l3 :: "(string \<times> 'v option) list \<Rightarrow> (string \<times> 'v option) list \<Rightarrow> (string \<times> 'v option) list" where
  "fill_l3 [] results = results"
| "fill_l3 ((k, v) # xs) results = fill_l3 xs (jm_set k v results)"

definition fill_missing :: "string list \<Rightarrow> (string \<times> 'v option) list \<Rightarrow> (string \<times> 'v option) list \<times> nat" where
  "fill_missing ks results =
     fold (\<lambda>k (rs, n). if jm_get rs k = None then (jm_set k None rs, Suc n) else (rs, n)) ks (results, 0)"

definition count_stats :: "(cache_stats \<Rightarrow> cache_stats) \<Rightarrow> ('a, 'b, 'c, 'v) multi_tier \<Rightarrow> ('a, 'b, 'c, 'v) multi_tier" where
  "count_stats f st = st\<lparr>ms_stats := f (ms_stats st)\<rparr>"

definition mt_getBatch :: "('a, 'b, 'c, 'v) multi_tier_config \<Rightarrow> rat \<Rightarrow> string list \<Rightarrow>
    ('a, 'b, 'c, 'v) multi_tier \<Rightarrow> ('a, 'b, 'c, 'v) multi_tier \<times> (string \<times> 'v option) list" where
  "mt_getBatch c now ks st =
     (case getBatchFromTier (cf_l1 c) now ks (ms_l1 st) of (a, h1) \<Rightarrow>
        (let st1 = count_stats (\<lambda>s. s\<lparr>cs_l1Hits := cs_l1Hits s + length h1\<rparr>) (st\<lparr>ms_l1 := a\<rparr>);
             r1 = add_hits h1 [];
             ks1 = (if cf_l1 c = None then ks else still_missing r1 ks)
         in case getBatchFromTier (cf_l2 c) now ks1 (ms_l2 st1) of (b, h2) \<Rightarrow>
              (let st2 = backfill_all c now FromL2 h2
                           (count_stats (\<lambda>s. s\<lparr>cs_l2Hits := cs_l2Hits s + length h2\<rparr>) (st1\<lparr>ms_l2 := b\<rparr>));
                   r2 = add_hits h2 r1;
                   ks2 = (if cf_l2 c = None then ks1 else still_missing r2 ks1)
               in case l3_answer (cf_l3 c) now ks2 (ms_l3 st2) of (s, answer) \<Rightarrow>
                    (let xs = (case answer of None \<Rightarrow> [] | Some xs \<Rightarrow> xs);
                         h3 = batch_hits answer;
                         st3 = backfill_all c now FromL3 h3
                                 (count_stats (\<lambda>t. t\<lparr>cs_l3Hits := cs_l3Hits t + length h3,
                                    cs_misses := cs_misses t + (length xs - length h3)\<rparr>) (st2\<lparr>ms_l3 := s\<rparr>))
                     in case fill_missing ks2 (fill_l3 xs r2) of (results, n) \<Rightarrow>
                          (count_stats (\<lambda>t. t\<lparr>cs_misses := cs_misses t + n\<rparr>) st3, results)))))"

subsection \<open>Statistics\<close>

definition hitRate :: "('a, 'b, 'c, 'v) multi_tier \<Rightarrow> rat" where
  "hitRate st =
     (let s = ms_stats st; totalHits = cs_l1Hits s + cs_l2Hits s + cs_l3Hits s
      in if cs_gets s > 0 then of_nat totalHits / of_nat (cs_gets s) else 0)"

definition resetStats :: "('a, 'b, 'c, 'v) multi_tier \<Rightarrow> ('a, 'b, 'c, 'v) multi_tier" where
  "resetStats st = st\<lparr>ms_stats := zero_stats\<rparr>"

end
