(* ===== verification/CacheGlob.thy ===== *)
theory CacheGlob
  imports Prelude
begin

text \<open>
  The glob of the cache backends, \<open>cache/backends/glob.ts\<close>: a loop over two positions that remembers the last star
  it passed and resumes after it when it gets stuck. Its result is compared with the language of the pattern.
\<close>

definition MAX_CACHE_GLOB_WILDCARDS :: nat where
  "MAX_CACHE_GLOB_WILDCARDS = 64"

text \<open>\<open>pattern[i]\<close>, which is undefined past the end.\<close>

definition char_at :: "string \<Rightarrow> nat \<Rightarrow> char option" where
  "char_at s i = (if i < length s then Some (s ! i) else None)"

text \<open>The first loop, from positions \<open>i\<close> in the pattern and \<open>j\<close> in the value. \<open>star\<close> is \<open>None\<close> for the index
  -1. The result is the position in the pattern when the value is used up, \<open>None\<close> for \<open>return false\<close>.\<close>

definition star_ok :: "nat \<Rightarrow> nat \<Rightarrow> nat option \<Rightarrow> nat \<Rightarrow> bool" where
  "star_ok i j star sv \<longleftrightarrow> (case star of None \<Rightarrow> True | Some s \<Rightarrow> s < i \<and> sv \<le> j)"

function glob_loop :: "string \<Rightarrow> string \<Rightarrow> nat \<Rightarrow> nat \<Rightarrow> nat option \<Rightarrow> nat \<Rightarrow> nat option" where
  "glob_loop p v i j star sv =
     (if j < length v then
        (if char_at p i = Some CHR ''?'' \<or> char_at p i = Some (v ! j) then glob_loop p v (i + 1) (j + 1) star sv
         else if char_at p i = Some CHR ''*'' then glob_loop p v (i + 1) j (Some i) j
         else (case star of Some s \<Rightarrow> glob_loop p v (s + 1) (sv + 1) star (sv + 1) | None \<Rightarrow> None))
      else Some i)"
  by pat_completeness auto
termination
  by (relation "measures [\<lambda>(p, v, i, j, star, sv). if star_ok i j star sv then 0 else 1,
      \<lambda>(p, v, i, j, star, sv). if star = None then Suc (length v) else length v - sv,
      \<lambda>(p, v, i, j, star, sv). length v - j, \<lambda>(p, v, i, j, star, sv). length p - i]")
    (auto simp: star_ok_def char_at_def split: option.splits if_splits)

declare glob_loop.simps [simp del]

text \<open>The second loop, over the stars at the end of the pattern.\<close>

function skip_stars :: "string \<Rightarrow> nat \<Rightarrow> nat" where
  "skip_stars p i = (if char_at p i = Some CHR ''*'' then skip_stars p (i + 1) else i)"
  by pat_completeness auto
termination
  by (relation "measure (\<lambda>(p, i). length p - i)") (auto simp: char_at_def split: if_splits)

declare skip_stars.simps [simp del]

definition matchesGlob :: "string \<Rightarrow> string \<Rightarrow> bool" where
  "matchesGlob p v =
     (case glob_loop p v 0 0 None 0 of None \<Rightarrow> False | Some i \<Rightarrow> skip_stars p i = length p)"

text \<open>A compiled glob is its pattern.\<close>

definition wildcardCount :: "string \<Rightarrow> nat" where
  "wildcardCount p = length (filter (\<lambda>c. c = CHR ''*'' \<or> c = CHR ''?'') p)"

definition compileCacheGlob :: "string \<Rightarrow> string option" where
  "compileCacheGlob p = (if wildcardCount p > MAX_CACHE_GLOB_WILDCARDS then None else Some p)"

subsection \<open>The language of a pattern\<close>

fun cache_glob_language :: "string \<Rightarrow> string \<Rightarrow> bool" where
  "cache_glob_language [] v = (v = [])"
| "cache_glob_language (c # p) v =
     (if c = CHR ''*'' then (\<exists>k \<le> length v. cache_glob_language p (drop k v))
      else v \<noteq> [] \<and> (c = CHR ''?'' \<or> c = hd v) \<and> cache_glob_language p (tl v))"

lemma char_at_drop: "char_at p i = Some c \<longleftrightarrow> i < length p \<and> drop i p = c # drop (Suc i) p"
  by (auto simp: char_at_def Cons_nth_drop_Suc nth_via_drop split: if_splits)

lemma char_at_None: "char_at p i = None \<longleftrightarrow> length p \<le> i"
  by (auto simp: char_at_def)

lemma skip_stars_end: "skip_stars p i = length p \<longleftrightarrow> i \<le> length p \<and> (\<forall>c \<in> set (drop i p). c = CHR ''*'')"
proof (induction p i rule: skip_stars.induct)
  case (1 p i)
  show ?case
  proof (cases "char_at p i = Some CHR ''*''")
    case True
    then have "i < length p" "drop i p = CHR ''*'' # drop (Suc i) p" by (simp_all add: char_at_drop)
    with 1 True show ?thesis by (subst skip_stars.simps) auto
  next
    case False
    show ?thesis
    proof (cases "i < length p")
      case True
      then have "drop i p = p ! i # drop (Suc i) p" by (simp add: Cons_nth_drop_Suc)
      with False True show ?thesis by (subst skip_stars.simps) (auto simp: char_at_def)
    next
      case False': False
      with False show ?thesis by (subst skip_stars.simps) auto
    qed
  qed
qed

lemma language_stars: "\<forall>c \<in> set p. c = CHR ''*'' \<Longrightarrow> cache_glob_language p v \<longleftrightarrow> p \<noteq> [] \<or> v = []"
proof (induction p arbitrary: v)
  case (Cons c p)
  then show ?case by (auto intro: exI [of _ "length v"])
qed simp

lemma language_empty_value: "cache_glob_language p [] \<longleftrightarrow> (\<forall>c \<in> set p. c = CHR ''*'')"
  by (induction p) auto

lemma language_star_skip: "cache_glob_language (CHR ''*'' # p) v \<longleftrightarrow> cache_glob_language p v \<or> (\<exists>k. 0 < k \<and> k \<le> length v \<and> cache_glob_language p (drop k v))"
  by (auto, metis drop0 neq0_conv)

lemma language_star_suffix:
  "cache_glob_language (CHR ''*'' # p) (drop j v) \<longleftrightarrow> (if j \<le> length v then \<exists>k. j \<le> k \<and> k \<le> length v \<and> cache_glob_language p (drop k v) else cache_glob_language p [])"
proof (cases "j \<le> length v")
  case True
  have "(\<exists>k \<le> length v - j. cache_glob_language p (drop k (drop j v))) \<longleftrightarrow> (\<exists>k. j \<le> k \<and> k \<le> length v \<and> cache_glob_language p (drop k v))"
    (is "?l \<longleftrightarrow> ?r")
  proof
    assume ?l
    then obtain k where "k \<le> length v - j" "cache_glob_language p (drop (k + j) v)" by auto
    with True show ?r by (intro exI [of _ "k + j"]) auto
  next
    assume ?r
    then obtain k where "j \<le> k" "k \<le> length v" "cache_glob_language p (drop k v)" by auto
    then show ?l by (intro exI [of _ "k - j"]) auto
  qed
  with True show ?thesis by simp
qed simp

text \<open>A segment without a star takes as many characters as it has.\<close>

lemma language_segment:
  "CHR ''*'' \<notin> set q \<Longrightarrow> cache_glob_language (q @ p) v \<Longrightarrow> length q \<le> length v \<and> cache_glob_language p (drop (length q) v)"
proof (induction q arbitrary: v)
  case (Cons c q)
  then obtain x xs where "v = x # xs" by (cases v) auto
  with Cons show ?case by auto
qed simp

subsection \<open>The loop against the language\<close>

definition loop_accepts :: "string \<Rightarrow> nat option \<Rightarrow> bool" where
  "loop_accepts p r \<longleftrightarrow> (case r of None \<Rightarrow> False | Some i \<Rightarrow> skip_stars p i = length p)"

text \<open>What remains to be tried by resuming after the last star.\<close>

definition resumes :: "string \<Rightarrow> string \<Rightarrow> nat option \<Rightarrow> nat \<Rightarrow> bool" where
  "resumes p v star sv \<longleftrightarrow>
     (case star of None \<Rightarrow> False
      | Some s \<Rightarrow> \<exists>k. sv < k \<and> k \<le> length v \<and> cache_glob_language (drop (Suc s) p) (drop k v))"

definition segment_ok :: "string \<Rightarrow> nat \<Rightarrow> nat \<Rightarrow> nat option \<Rightarrow> nat \<Rightarrow> bool" where
  "segment_ok p i j star sv \<longleftrightarrow>
     (case star of None \<Rightarrow> True
      | Some s \<Rightarrow> s < length p \<and> (\<exists>q. drop (Suc s) p = q @ drop i p \<and> CHR ''*'' \<notin> set q \<and> length q = j - sv \<and> sv \<le> j))"

definition matches_here :: "string \<Rightarrow> string \<Rightarrow> nat \<Rightarrow> nat \<Rightarrow> bool" where
  "matches_here p v i j \<longleftrightarrow> char_at p i = Some CHR ''?'' \<or> char_at p i = Some (v ! j)"

lemma loop_ends: "\<not> j < length v \<Longrightarrow> glob_loop p v i j star sv = Some i"
  by (simp add: glob_loop.simps)

lemma loop_matches:
  "j < length v \<Longrightarrow> matches_here p v i j \<Longrightarrow> glob_loop p v i j star sv = glob_loop p v (Suc i) (Suc j) star sv"
  by (subst glob_loop.simps) (simp add: matches_here_def)

lemma loop_stars:
  "j < length v \<Longrightarrow> \<not> matches_here p v i j \<Longrightarrow> char_at p i = Some CHR ''*'' \<Longrightarrow>
   glob_loop p v i j star sv = glob_loop p v (Suc i) j (Some i) j"
  by (subst glob_loop.simps) (simp add: matches_here_def)

lemma loop_stuck:
  "j < length v \<Longrightarrow> \<not> matches_here p v i j \<Longrightarrow> char_at p i \<noteq> Some CHR ''*'' \<Longrightarrow>
   glob_loop p v i j star sv =
     (case star of Some s \<Rightarrow> glob_loop p v (Suc s) (Suc sv) star (Suc sv) | None \<Rightarrow> None)"
  by (subst glob_loop.simps) (simp add: matches_here_def cong: option.case_cong)

lemmas loop_equations = loop_ends loop_matches loop_stars loop_stuck

lemma loop_induct [case_names ends matches stars stuck]:
  assumes "\<And>i j star sv. \<not> j < length v \<Longrightarrow> P i j star sv"
    and "\<And>i j star sv. j < length v \<Longrightarrow> matches_here p v i j \<Longrightarrow> P (Suc i) (Suc j) star sv \<Longrightarrow> P i j star sv"
    and "\<And>i j star sv. j < length v \<Longrightarrow> \<not> matches_here p v i j \<Longrightarrow> char_at p i = Some CHR ''*'' \<Longrightarrow>
       P (Suc i) j (Some i) j \<Longrightarrow> P i j star sv"
    and "\<And>i j star sv. j < length v \<Longrightarrow> \<not> matches_here p v i j \<Longrightarrow> char_at p i \<noteq> Some CHR ''*'' \<Longrightarrow>
       (\<And>s. star = Some s \<Longrightarrow> P (Suc s) (Suc sv) star (Suc sv)) \<Longrightarrow> P i j star sv"
  shows "P i j star sv"
proof -
  have "p' = p \<Longrightarrow> v' = v \<Longrightarrow> P i j star sv" for p' v'
  proof (induction p' v' i j star sv rule: glob_loop.induct)
    case (1 p' v' i j star sv)
    then show ?case
      using assms(1) [of j i star sv] assms(2) [of j i star sv] assms(3) [of j i star sv] assms(4) [of j i star sv]
      unfolding matches_here_def Suc_eq_plus1 by fast
  qed
  then show ?thesis by simp
qed

lemma resumes_Some_iff:
  "sv < length v \<Longrightarrow> resumes p v (Some s) sv \<longleftrightarrow>
     cache_glob_language (drop (Suc s) p) (drop (Suc sv) v) \<or> resumes p v (Some s) (Suc sv)"
  unfolding resumes_def by (auto simp: Suc_le_eq) (metis Suc_lessI Suc_lessD)+

lemma match_step:
  assumes "j < length v" "char_at p i = Some c" "c \<noteq> CHR ''*''"
  shows "cache_glob_language (drop i p) (drop j v) \<longleftrightarrow>
     (c = CHR ''?'' \<or> c = v ! j) \<and> cache_glob_language (drop (Suc i) p) (drop (Suc j) v)"
proof -
  have p: "drop i p = c # drop (Suc i) p" using assms(2) by (simp add: char_at_drop)
  have "drop j v = v ! j # drop (Suc j) v" using assms(1) by (simp add: Cons_nth_drop_Suc)
  then show ?thesis unfolding p using assms(3) by simp
qed

lemma stuck_step:
  assumes "j < length v" "\<not> matches_here p v i j"
    "char_at p i \<noteq> Some CHR ''*''"
  shows "\<not> cache_glob_language (drop i p) (drop j v)"
proof (cases "char_at p i")
  case None
  then have "drop i p = []" by (simp add: char_at_None)
  with assms(1) show ?thesis by simp
next
  case (Some c)
  with assms match_step [OF assms(1) Some] show ?thesis by (auto simp: matches_here_def)
qed

text \<open>What the loop accepts is in the language, whatever the value.\<close>

lemma glob_loop_sound:
  "loop_accepts p (glob_loop p v i j star sv) \<Longrightarrow> star = None \<or> sv \<le> j \<Longrightarrow>
   cache_glob_language (drop i p) (drop j v) \<or> resumes p v star sv"
proof (induction i j star sv rule: loop_induct [where p = p and v = v])
  case (ends i j star sv)
  then show ?case by (auto simp: loop_ends loop_accepts_def skip_stars_end language_empty_value)
next
  case (matches i j star sv)
  then have ih: "cache_glob_language (drop (Suc i) p) (drop (Suc j) v) \<or> resumes p v star sv"
    by (auto simp: loop_matches)
  from matches(2) obtain c where c: "char_at p i = Some c" "c = CHR ''?'' \<or> c = v ! j"
    by (auto simp: matches_here_def)
  have "cache_glob_language (drop i p) (drop j v)" if l: "cache_glob_language (drop (Suc i) p) (drop (Suc j) v)"
  proof (cases "c = CHR ''*''")
    case True
    with c(1) have p: "drop i p = CHR ''*'' # drop (Suc i) p" by (simp add: char_at_drop)
    have "\<exists>k. j \<le> k \<and> k \<le> length v \<and> cache_glob_language (drop (Suc i) p) (drop k v)"
      using l matches(1) by (intro exI [of _ "Suc j"]) simp
    with matches(1) show ?thesis unfolding p language_star_suffix by simp
  next
    case False
    from match_step [OF matches(1) c(1) False] c(2) l show ?thesis by simp
  qed
  with ih show ?case by blast
next
  case (stars i j star sv)
  then have ih: "cache_glob_language (drop (Suc i) p) (drop j v) \<or> resumes p v (Some i) j"
    by (simp add: loop_stars)
  from stars have p: "drop i p = CHR ''*'' # drop (Suc i) p" by (simp add: char_at_drop)
  from ih have "\<exists>k. j \<le> k \<and> k \<le> length v \<and> cache_glob_language (drop (Suc i) p) (drop k v)"
    using stars(1) unfolding resumes_def by (auto intro: less_imp_le)
  with stars(1) have "cache_glob_language (drop i p) (drop j v)" unfolding p language_star_suffix by simp
  then show ?case ..
next
  case (stuck i j star sv)
  then obtain s where s: "star = Some s" by (auto simp: loop_stuck loop_accepts_def split: option.splits)
  with stuck have "cache_glob_language (drop (Suc s) p) (drop (Suc sv) v) \<or> resumes p v (Some s) (Suc sv)"
    by (simp add: loop_stuck)
  moreover have "sv < length v" using stuck s by simp
  ultimately show ?case unfolding s by (simp add: resumes_Some_iff)
qed

text \<open>A value without a star of its own is accepted when it is in the language: only the last star passed need
  be remembered, since what precedes a later star can always be matched as early as it was.\<close>

lemma resumes_segment:
  assumes "segment_ok p i j (Some s) sv" "resumes p v (Some s) sv"
  shows "\<exists>k. j < k \<and> k \<le> length v \<and> cache_glob_language (drop i p) (drop k v)"
proof -
  from assms obtain q k where q: "drop (Suc s) p = q @ drop i p" "CHR ''*'' \<notin> set q" "length q = j - sv" "sv \<le> j"
    and k: "sv < k" "k \<le> length v" "cache_glob_language (q @ drop i p) (drop k v)"
    by (auto simp: segment_ok_def resumes_def)
  from language_segment [OF q(2) k(3)] q k show ?thesis by (intro exI [of _ "length q + k"]) auto
qed

lemma glob_loop_complete:
  "cache_glob_language (drop i p) (drop j v) \<or> resumes p v star sv \<Longrightarrow> CHR ''*'' \<notin> set v \<Longrightarrow> i \<le> length p \<Longrightarrow>
   segment_ok p i j star sv \<Longrightarrow> loop_accepts p (glob_loop p v i j star sv)"
proof (induction i j star sv rule: loop_induct [where p = p and v = v])
  case (ends i j star sv)
  have "\<not> resumes p v star sv"
  proof
    assume r: "resumes p v star sv"
    then obtain s where s: "star = Some s" by (cases star) (auto simp: resumes_def)
    from resumes_segment [OF ends(5) [unfolded s] r [unfolded s]] ends(1) show False by auto
  qed
  with ends show ?case by (simp add: loop_ends loop_accepts_def skip_stars_end language_empty_value)
next
  case (matches i j star sv)
  from matches(2) obtain c where c: "char_at p i = Some c" "c = CHR ''?'' \<or> c = v ! j"
    by (auto simp: matches_here_def)
  with matches(1) \<open>CHR ''*'' \<notin> set v\<close> have ns: "c \<noteq> CHR ''*''" using nth_mem by fastforce
  from c(1) have p: "i < length p" "drop i p = c # drop (Suc i) p" by (simp_all add: char_at_drop)
  have "segment_ok p (Suc i) (Suc j) star sv"
  proof (cases star)
    case (Some s)
    with matches(7) obtain q where "s < length p" "drop (Suc s) p = q @ c # drop (Suc i) p" "CHR ''*'' \<notin> set q"
      "length q = j - sv" "sv \<le> j"
      unfolding segment_ok_def p(2) by auto
    then show ?thesis unfolding Some segment_ok_def using ns
      by (auto intro!: exI [of _ "q @ [c]"] simp: Suc_diff_le)
  qed (simp add: segment_ok_def)
  with matches match_step [OF matches(1) c(1) ns] p(1) c(2) show ?case by (auto simp: loop_matches)
next
  case (stars i j star sv)
  then have p: "i < length p" "drop i p = CHR ''*'' # drop (Suc i) p" by (simp_all add: char_at_drop)
  have "cache_glob_language (drop i p) (drop j v)"
  proof (cases "cache_glob_language (drop i p) (drop j v)")
    case False
    with stars(5) obtain s where s: "star = Some s" "resumes p v (Some s) sv"
      by (cases star) (auto simp: resumes_def)
    from resumes_segment [OF stars(8) [unfolded s(1)] s(2)] obtain k
      where "j < k" "k \<le> length v" "cache_glob_language (drop i p) (drop k v)" by blast
    then show ?thesis using stars(1) unfolding p(2) language_star_suffix
      by (auto intro: le_trans less_imp_le)
  qed
  then have "cache_glob_language (drop (Suc i) p) (drop j v) \<or> resumes p v (Some i) j"
    using stars(1) unfolding p(2) language_star_suffix resumes_def by (auto simp: le_less)
  with stars p(1) show ?case by (simp add: loop_stars segment_ok_def)
next
  case (stuck i j star sv)
  then obtain s where s: "star = Some s" "resumes p v (Some s) sv"
    using stuck_step by (cases star) (auto simp: resumes_def)
  have sv: "sv < length v" "i \<le> length p" using s stuck by (auto simp: resumes_def)
  have "Suc s \<le> length p" using stuck s by (simp add: segment_ok_def)
  with stuck s sv show ?case by (simp add: loop_stuck resumes_Some_iff segment_ok_def)
qed

text \<open>What a glob accepts is in its language; a value that holds no star of its own is accepted exactly when
  it is in the language.\<close>

lemma matchesGlob_sound: "matchesGlob p v \<Longrightarrow> cache_glob_language p v"
  using glob_loop_sound [of p v 0 0 None 0] by (simp add: matchesGlob_def loop_accepts_def resumes_def)

lemma matchesGlob_complete: "CHR ''*'' \<notin> set v \<Longrightarrow> cache_glob_language p v \<Longrightarrow> matchesGlob p v"
  using glob_loop_complete [of 0 p 0 v None 0]
  by (simp add: matchesGlob_def loop_accepts_def segment_ok_def)

text \<open>A prefix followed by a star, the pattern invalidation by prefix uses.\<close>

lemma language_prefix_star:
  "CHR ''*'' \<notin> set q \<Longrightarrow> CHR ''?'' \<notin> set q \<Longrightarrow> cache_glob_language (q @ ''*'') v \<longleftrightarrow> prefix q v"
proof (induction q arbitrary: v)
  case Nil
  then show ?case by (auto intro: exI [of _ "length v"])
next
  case (Cons c q)
  then show ?case by (cases v) auto
qed

subsection \<open>Property\<close>

text \<open>C22: What a compiled glob of the cache accepts is in the language of its pattern (\<open>*\<close> any text, \<open>?\<close> one
  character), and a value without a star is accepted exactly when it is in the language; the loop that remembers
  one star and resumes after it loses nothing. A value with a star may be lost: the pattern \<open>*\<close>, whose language is
  everything, rejects the value \<open>*a\<close>, because a star of the pattern that meets a star of the value is taken as an
  ordinary character.\<close>

theorem cache_glob_decides_language:
  assumes "compileCacheGlob pattern = Some g"
  shows "(if CHR ''*'' \<in> set v then matchesGlob g v \<longrightarrow> cache_glob_language pattern v
          else matchesGlob g v \<longleftrightarrow> cache_glob_language pattern v) \<and>
    cache_glob_language ''*'' ''*a'' \<and> \<not> matchesGlob ''*'' ''*a''"
proof -
  from assms have g: "g = pattern" by (simp add: compileCacheGlob_def split: if_splits)
  have "\<not> matchesGlob ''*'' ''*a''"
    by (simp add: matchesGlob_def glob_loop.simps char_at_def)
  moreover have "cache_glob_language ''*'' ''*a''" by (auto intro: exI [of _ 2])
  ultimately show ?thesis using matchesGlob_sound [of pattern v] matchesGlob_complete [of v pattern]
    by (cases "CHR ''*'' \<in> set v") (auto simp: g simp del: cache_glob_language.simps)
qed

theorem cache_glob_decides_language_witness:
  "matchesGlob ''a*c?'' ''abcbcd'' \<longleftrightarrow> cache_glob_language ''a*c?'' ''abcbcd''"
  using cache_glob_decides_language [of "''a*c?''" "''a*c?''" "''abcbcd''"]
  by (simp add: compileCacheGlob_def wildcardCount_def MAX_CACHE_GLOB_WILDCARDS_def)

end
