(* ===== verification/MemoryBackend.thy ===== *)
theory MemoryBackend
  imports CacheGlob CacheTtl CodeUnits
begin

text \<open>
  The in-memory cache backend, \<open>cache/backends/memory.ts\<close>, with the batch results of \<open>cache/batch-results.ts\<close> and
  the bounded reads of \<open>cache/bounded-read.ts\<close>: entries expire, are evicted in the order they were written, and
  are deleted by glob. The clock is an argument \<open>now\<close>, in milliseconds. The eviction loop of \<open>set\<close> may not end,
  so what contains it gives \<open>None\<close> when it does not return.
\<close>

record memory_entry =
  me_value :: js16
  me_expiresAt :: rat
  me_sizeBytes :: int

record memory_cache =
  mb_store :: "(string \<times> memory_entry) list"
  mb_globCache :: "(string \<times> string) list"
  mb_maxEntries :: int
  mb_maxSizeBytes :: int
  mb_currentSizeBytes :: int

definition MAX_GLOB_CACHE_SIZE :: nat where
  "MAX_GLOB_CACHE_SIZE = 100"

definition newMemoryCacheBackend :: "int \<Rightarrow> int \<Rightarrow> memory_cache" where
  "newMemoryCacheBackend maxEntries maxSizeBytes =
     \<lparr>mb_store = [], mb_globCache = [], mb_maxEntries = maxEntries, mb_maxSizeBytes = maxSizeBytes,
      mb_currentSizeBytes = 0\<rparr>"

definition estimateSize :: "string \<Rightarrow> js16 \<Rightarrow> int" where
  "estimateSize key value = int (length key + length value)"

subsection \<open>Reading\<close>

text \<open>Removing an entry with its size: \<open>del\<close>, and the branches of the other operations that drop an entry.\<close>

definition mb_del :: "string \<Rightarrow> memory_cache \<Rightarrow> memory_cache" where
  "mb_del key st =
     (case jm_get (mb_store st) key of
        None \<Rightarrow> st
      | Some entry \<Rightarrow> st\<lparr>mb_currentSizeBytes := mb_currentSizeBytes st - me_sizeBytes entry,
                        mb_store := jm_del key (mb_store st)\<rparr>)"

definition mb_get :: "rat \<Rightarrow> string \<Rightarrow> memory_cache \<Rightarrow> memory_cache \<times> js16 option" where
  "mb_get now key st =
     (case jm_get (mb_store st) key of
        None \<Rightarrow> (st, None)
      | Some entry \<Rightarrow> if now > me_expiresAt entry then (mb_del key st, None) else (st, Some (me_value entry)))"

datatype bounded_read_error = InvalidLimit | ValueTooLarge nat

fun assertCacheReadMaximumBytes :: "js_number \<Rightarrow> bounded_read_error + nat" where
  "assertCacheReadMaximumBytes (Num q) =
     (if q \<noteq> of_int \<lfloor>q\<rfloor> \<or> \<bar>q\<bar> > MAX_SAFE_INTEGER \<or> q < 0 then Inl InvalidLimit else Inr (nat \<lfloor>q\<rfloor>))"
| "assertCacheReadMaximumBytes _ = Inl InvalidLimit"

definition assertCacheValueWithinLimit :: "js16 \<Rightarrow> nat \<Rightarrow> bounded_read_error + nat" where
  "assertCacheValueWithinLimit value maximum =
     (if length value > maximum then Inl (ValueTooLarge maximum)
      else let byteLength = utf8ByteLength value (Some maximum)
           in if byteLength > maximum then Inl (ValueTooLarge maximum) else Inr byteLength)"

definition mb_getWithinLimit :: "rat \<Rightarrow> string \<Rightarrow> js_number \<Rightarrow> memory_cache \<Rightarrow>
    memory_cache \<times> (bounded_read_error + js16 option)" where
  "mb_getWithinLimit now key maximumBytes st =
     (case assertCacheReadMaximumBytes maximumBytes of
        Inl e \<Rightarrow> (st, Inl e)
      | Inr maximum \<Rightarrow>
          (case mb_get now key st of
             (st1, None) \<Rightarrow> (st1, Inr None)
           | (st1, Some value) \<Rightarrow>
               (case assertCacheValueWithinLimit value maximum of
                  Inl e \<Rightarrow> (st1, Inl e) | Inr _ \<Rightarrow> (st1, Inr (Some value)))))"

definition mb_getRemainingTtlSeconds :: "rat \<Rightarrow> string \<Rightarrow> memory_cache \<Rightarrow> memory_cache \<times> rat option" where
  "mb_getRemainingTtlSeconds now key st =
     (case jm_get (mb_store st) key of
        None \<Rightarrow> (st, None)
      | Some entry \<Rightarrow>
          (let remainingMs = me_expiresAt entry - now
           in if remainingMs \<le> 0 then (mb_del key st, None) else (st, Some (remainingMs / 1000))))"

text \<open>\<open>buildBatchResults\<close> with a resolver that may change a state.\<close>

fun buildBatchResults :: "('s \<Rightarrow> string \<Rightarrow> 's \<times> 'v option) \<Rightarrow> string list \<Rightarrow> (string \<times> 'v option) list \<Rightarrow> 's \<Rightarrow>
    's \<times> (string \<times> 'v option) list" where
  "buildBatchResults resolve [] results st = (st, results)"
| "buildBatchResults resolve (key # keys) results st =
     (case resolve st key of (st1, v) \<Rightarrow> buildBatchResults resolve keys (jm_set key v results) st1)"

definition mb_getBatch :: "rat \<Rightarrow> string list \<Rightarrow> memory_cache \<Rightarrow> memory_cache \<times> (string \<times> js16 option) list" where
  "mb_getBatch now keys st = buildBatchResults (\<lambda>st key. mb_get now key st) keys [] st"

subsection \<open>Writing\<close>

text \<open>\<open>if (!oldest) return\<close>: an empty store, or an oldest key that is the empty string.\<close>

definition evictOldest :: "memory_cache \<Rightarrow> memory_cache" where
  "evictOldest st =
     (case jm_keys (mb_store st) of
        [] \<Rightarrow> st
      | oldest # _ \<Rightarrow> if oldest = [] then st else mb_del oldest st)"

definition mb_over_limits :: "int \<Rightarrow> memory_cache \<Rightarrow> bool" where
  "mb_over_limits entrySize st \<longleftrightarrow> mb_store st \<noteq> [] \<and>
     (int (length (mb_store st)) \<ge> mb_maxEntries st \<or> mb_currentSizeBytes st + entrySize > mb_maxSizeBytes st)"

partial_function (option) evict_while :: "int \<Rightarrow> memory_cache \<Rightarrow> memory_cache option" where
  "evict_while entrySize st =
     (if mb_over_limits entrySize st then evict_while entrySize (evictOldest st) else Some st)"

definition mb_insert :: "rat \<Rightarrow> string \<Rightarrow> js16 \<Rightarrow> rat \<Rightarrow> memory_cache \<Rightarrow> memory_cache" where
  "mb_insert now key value ttl st =
     st\<lparr>mb_currentSizeBytes := mb_currentSizeBytes st + estimateSize key value,
        mb_store := jm_set key \<lparr>me_value = value, me_expiresAt = now + ttl * 1000,
                                 me_sizeBytes = estimateSize key value\<rparr> (mb_store st)\<rparr>"

text \<open>One write whose lifetime is resolved.\<close>

definition mb_write :: "rat \<Rightarrow> string \<Rightarrow> js16 \<Rightarrow> rat option \<Rightarrow> memory_cache \<Rightarrow> memory_cache option" where
  "mb_write now key value ttl st =
     (if expiresImmediately ttl then Some (mb_del key st)
      else if estimateSize key value > mb_maxSizeBytes st then Some st
      else map_option (mb_insert now key value (case ttl of None \<Rightarrow> DEFAULT_CACHE_TTL_SECONDS | Some t \<Rightarrow> t))
             (evict_while (estimateSize key value) (mb_del key st)))"

definition mb_set :: "rat \<Rightarrow> string \<Rightarrow> js16 \<Rightarrow> js_number option \<Rightarrow> memory_cache \<Rightarrow>
    (memory_cache \<times> range_error option) option" where
  "mb_set now key value ttlSeconds st =
     (case resolveCacheTtlSeconds ttlSeconds (Some (Num DEFAULT_CACHE_TTL_SECONDS)) of
        Inl e \<Rightarrow> Some (st, Some e)
      | Inr ttl \<Rightarrow> map_option (\<lambda>st1. (st1, None)) (mb_write now key value ttl st))"

text \<open>A batch stops at the first lifetime that is rejected; what it wrote before stays.\<close>

fun mb_setBatch :: "rat \<Rightarrow> (string \<times> js16 \<times> js_number option) list \<Rightarrow> memory_cache \<Rightarrow>
    (memory_cache \<times> range_error option) option" where
  "mb_setBatch now [] st = Some (st, None)"
| "mb_setBatch now ((key, value, ttlSeconds) # entries) st =
     (case resolveCacheTtlSeconds ttlSeconds (Some (Num DEFAULT_CACHE_TTL_SECONDS)) of
        Inl e \<Rightarrow> Some (st, Some e)
      | Inr ttl \<Rightarrow> Option.bind (mb_write now key value ttl st) (mb_setBatch now entries))"

subsection \<open>Deleting\<close>

definition remember_glob :: "string \<Rightarrow> string \<Rightarrow> (string \<times> string) list \<Rightarrow> (string \<times> string) list" where
  "remember_glob pattern g cache =
     jm_set pattern g
       (if length cache \<ge> MAX_GLOB_CACHE_SIZE
        then (case jm_keys cache of [] \<Rightarrow> cache | firstKey # _ \<Rightarrow> if firstKey = [] then cache else jm_del firstKey cache)
        else cache)"

definition delete_matching :: "string \<Rightarrow> memory_cache \<Rightarrow> memory_cache \<times> nat" where
  "delete_matching g st =
     (let hits = filter (matchesGlob g) (jm_keys (mb_store st))
      in (fold mb_del hits st, length hits))"

definition mb_delByPattern :: "string \<Rightarrow> memory_cache \<Rightarrow> memory_cache \<times> nat" where
  "mb_delByPattern pattern st =
     (case jm_get (mb_globCache st) pattern of
        Some g \<Rightarrow> delete_matching g st
      | None \<Rightarrow>
          (case compileCacheGlob pattern of
             None \<Rightarrow> (st, 0)
           | Some g \<Rightarrow> delete_matching g (st\<lparr>mb_globCache := remember_glob pattern g (mb_globCache st)\<rparr>)))"

definition mb_clear :: "memory_cache \<Rightarrow> memory_cache" where
  "mb_clear st = st\<lparr>mb_store := [], mb_globCache := [], mb_currentSizeBytes := 0\<rparr>"

definition mb_size :: "memory_cache \<Rightarrow> nat" where
  "mb_size st = length (mb_store st)"

definition mb_sizeBytes :: "memory_cache \<Rightarrow> int" where
  "mb_sizeBytes st = mb_currentSizeBytes st"

subsection \<open>Runs\<close>

datatype mb_op =
    OGet rat string | OGetWithin rat string js_number | OTtl rat string | OGetBatch rat "string list"
  | OSet rat string js16 "js_number option" | OSetBatch rat "(string \<times> js16 \<times> js_number option) list"
  | ODel string | ODelByPattern string | OClear

fun mb_step :: "mb_op \<Rightarrow> memory_cache \<Rightarrow> memory_cache option" where
  "mb_step (OGet now key) st = Some (fst (mb_get now key st))"
| "mb_step (OGetWithin now key n) st = Some (fst (mb_getWithinLimit now key n st))"
| "mb_step (OTtl now key) st = Some (fst (mb_getRemainingTtlSeconds now key st))"
| "mb_step (OGetBatch now keys) st = Some (fst (mb_getBatch now keys st))"
| "mb_step (OSet now key value ttl) st = map_option fst (mb_set now key value ttl st)"
| "mb_step (OSetBatch now entries) st = map_option fst (mb_setBatch now entries st)"
| "mb_step (ODel key) st = Some (mb_del key st)"
| "mb_step (ODelByPattern pattern) st = Some (fst (mb_delByPattern pattern st))"
| "mb_step OClear st = Some (mb_clear st)"

fun mb_run :: "mb_op list \<Rightarrow> memory_cache \<Rightarrow> memory_cache option" where
  "mb_run [] st = Some st"
| "mb_run (op # ops) st = Option.bind (mb_step op st) (mb_run ops)"

end
