(* ===== verification/CacheRepository.thy ===== *)
theory CacheRepository
  imports MultiTier MemoryBackend
begin

text \<open>
  The cache repositories, \<open>repositories/cache/cache-repository.ts\<close>: a memory store with a fixed number of entries,
  used by the repository in memory and as the first tier of the multi-tier repository, whose third tier adapts a
  cache backend. Keys are scoped by project, environment and version.
\<close>

subsection \<open>The memory store\<close>

record 'v timed_entry =
  te_value :: 'v
  te_expiresAt :: rat

type_synonym 'v timed_store = "(string \<times> 'v timed_entry) list"

definition store_get :: "rat \<Rightarrow> string \<Rightarrow> 'v timed_store \<Rightarrow> 'v timed_store \<times> 'v option" where
  "store_get now key s =
     (case jm_get s key of
        None \<Rightarrow> (s, None)
      | Some e \<Rightarrow> if now > te_expiresAt e then (jm_del key s, None) else (s, Some (te_value e)))"

definition store_ttl :: "rat \<Rightarrow> string \<Rightarrow> 'v timed_store \<Rightarrow> 'v timed_store \<times> rat option" where
  "store_ttl now key s =
     (case jm_get s key of
        None \<Rightarrow> (s, None)
      | Some e \<Rightarrow> (let remainingMs = te_expiresAt e - now
                   in if remainingMs \<le> 0 then (jm_del key s, None) else (s, Some (remainingMs / 1000))))"

text \<open>A new key at capacity replaces the oldest, unless that is the empty string.\<close>

definition store_make_room :: "int \<Rightarrow> string \<Rightarrow> 'v timed_store \<Rightarrow> 'v timed_store" where
  "store_make_room maxEntries key s =
     (if int (length s) \<ge> maxEntries \<and> jm_get s key = None
      then (case jm_keys s of [] \<Rightarrow> s | oldest # _ \<Rightarrow> if oldest = [] then s else jm_del oldest s)
      else s)"

definition store_set :: "int \<Rightarrow> rat \<Rightarrow> string \<Rightarrow> 'v \<Rightarrow> rat \<Rightarrow> 'v timed_store \<Rightarrow> 'v timed_store" where
  "store_set maxEntries now key v ttlSeconds s =
     jm_set key \<lparr>te_value = v, te_expiresAt = now + ttlSeconds * 1000\<rparr> (store_make_room maxEntries key s)"

definition store_deleteByPrefix :: "string \<Rightarrow> 'v timed_store \<Rightarrow> 'v timed_store" where
  "store_deleteByPrefix p s = filter (\<lambda>(k, e). \<not> starts_with k p) s"

subsection \<open>Tiers\<close>

text \<open>\<open>MemoryTier\<close>\<close>

definition memoryTier :: "int \<Rightarrow> ('v timed_store, 'v) tier" where
  "memoryTier maxEntries =
     \<lparr>tier_name = ''l1-memory'',
      tier_get = (\<lambda>now key s. case store_get now key s of (s1, r) \<Rightarrow> (s1, Some r)),
      tier_set = (\<lambda>now key v ttl s. (store_set maxEntries now key v ttl s, SetFulfilled)),
      tier_ttl = Some (\<lambda>now key s. case store_ttl now key s of (s1, r) \<Rightarrow> (s1, Some (map_option Num r))),
      tier_delete = Some (\<lambda>key s. (jm_del key s, True)),
      tier_getBatch = None\<rparr>"

text \<open>\<open>BackendTierAdapter\<close> around the memory backend. A write that does not return never settles.\<close>

definition adapt_set :: "rat \<Rightarrow> string \<Rightarrow> js16 \<Rightarrow> rat \<Rightarrow> memory_cache \<Rightarrow> memory_cache \<times> set_outcome" where
  "adapt_set now key v ttl st =
     (case mb_set now key v (Some (Num ttl)) st of
        None \<Rightarrow> (st, SetPending)
      | Some (st1, None) \<Rightarrow> (st1, SetFulfilled)
      | Some (st1, Some e) \<Rightarrow> (st1, SetRejected))"

definition backendTier :: "(memory_cache, js16) tier" where
  "backendTier =
     \<lparr>tier_name = ''l3-distributed'',
      tier_get = (\<lambda>now key st. case mb_get now key st of (st1, r) \<Rightarrow> (st1, Some r)),
      tier_set = adapt_set,
      tier_ttl = Some (\<lambda>now key st. case mb_getRemainingTtlSeconds now key st of (st1, r) \<Rightarrow> (st1, Some (map_option Num r))),
      tier_delete = Some (\<lambda>key st. (mb_del key st, True)),
      tier_getBatch = None\<rparr>"

subsection \<open>Scoped keys\<close>

record repository_context =
  rx_projectId :: string
  rx_environment :: string
  rx_versionId :: string

definition scope_prefix :: "repository_context \<Rightarrow> string" where
  "scope_prefix x = rx_projectId x @ '':'' @ rx_environment x @ '':'' @ rx_versionId x @ '':''"

definition buildScopedKey :: "repository_context \<Rightarrow> string \<Rightarrow> string" where
  "buildScopedKey x key = scope_prefix x @ key"

subsection \<open>The repository in memory\<close>

record repository_stats =
  rp_gets :: nat
  rp_hits :: nat
  rp_misses :: nat
  rp_sets :: nat
  rp_deletes :: nat

record 'v memory_repository =
  mr_store :: "'v timed_store"
  mr_stats :: repository_stats
  mr_maxEntries :: int
  mr_defaultTtlSeconds :: rat

definition mr_get :: "repository_context \<Rightarrow> rat \<Rightarrow> string \<Rightarrow> 'v memory_repository \<Rightarrow> 'v memory_repository \<times> 'v option" where
  "mr_get x now key r =
     (case store_get now (buildScopedKey x key) (mr_store r) of
        (s, Some v) \<Rightarrow> (r\<lparr>mr_store := s, mr_stats := (mr_stats r)\<lparr>rp_gets := rp_gets (mr_stats r) + 1, rp_hits := rp_hits (mr_stats r) + 1\<rparr>\<rparr>, Some v)
      | (s, None) \<Rightarrow> (r\<lparr>mr_store := s, mr_stats := (mr_stats r)\<lparr>rp_gets := rp_gets (mr_stats r) + 1, rp_misses := rp_misses (mr_stats r) + 1\<rparr>\<rparr>, None))"

definition mr_hitRate :: "'v memory_repository \<Rightarrow> rat" where
  "mr_hitRate r = (if rp_gets (mr_stats r) = 0 then 0 else of_nat (rp_hits (mr_stats r)) / of_nat (rp_gets (mr_stats r)))"

definition mr_set :: "repository_context \<Rightarrow> rat \<Rightarrow> string \<Rightarrow> 'v \<Rightarrow> rat option \<Rightarrow> 'v memory_repository \<Rightarrow> 'v memory_repository" where
  "mr_set x now key v ttlSeconds r =
     r\<lparr>mr_store := store_set (mr_maxEntries r) now (buildScopedKey x key) v
          (case ttlSeconds of None \<Rightarrow> mr_defaultTtlSeconds r | Some t \<Rightarrow> t) (mr_store r),
       mr_stats := (mr_stats r)\<lparr>rp_sets := rp_sets (mr_stats r) + 1\<rparr>\<rparr>"

definition mr_delete :: "repository_context \<Rightarrow> string \<Rightarrow> 'v memory_repository \<Rightarrow> 'v memory_repository" where
  "mr_delete x key r =
     r\<lparr>mr_store := jm_del (buildScopedKey x key) (mr_store r),
       mr_stats := (mr_stats r)\<lparr>rp_deletes := rp_deletes (mr_stats r) + 1\<rparr>\<rparr>"

definition mr_drop_prefix :: "string \<Rightarrow> 'v memory_repository \<Rightarrow> 'v memory_repository \<times> nat" where
  "mr_drop_prefix p r =
     (let deleted = length (filter (\<lambda>k. starts_with k p) (jm_keys (mr_store r)))
      in (r\<lparr>mr_store := store_deleteByPrefix p (mr_store r),
            mr_stats := (mr_stats r)\<lparr>rp_deletes := rp_deletes (mr_stats r) + deleted\<rparr>\<rparr>, deleted))"

definition mr_deleteByPrefix :: "repository_context \<Rightarrow> string \<Rightarrow> 'v memory_repository \<Rightarrow> 'v memory_repository \<times> nat" where
  "mr_deleteByPrefix x p r = mr_drop_prefix (buildScopedKey x p) r"

definition mr_has :: "repository_context \<Rightarrow> rat \<Rightarrow> string \<Rightarrow> 'v memory_repository \<Rightarrow> 'v memory_repository \<times> bool" where
  "mr_has x now key r =
     (case store_get now (buildScopedKey x key) (mr_store r) of (s, v) \<Rightarrow> (r\<lparr>mr_store := s\<rparr>, v \<noteq> None))"

definition mr_clear :: "repository_context \<Rightarrow> 'v memory_repository \<Rightarrow> 'v memory_repository" where
  "mr_clear x r = fst (mr_drop_prefix (scope_prefix x) r)"

subsection \<open>The multi-tier repository over a memory backend\<close>

type_synonym tiered = "(js16 timed_store, unit, memory_cache, js16) multi_tier"

definition tiered_config :: "int \<Rightarrow> rat \<Rightarrow> (js16 timed_store, unit, memory_cache, js16) multi_tier_config" where
  "tiered_config maxL1Entries defaultTtlSeconds =
     \<lparr>cf_l1 = Some (memoryTier maxL1Entries), cf_l2 = None, cf_l3 = Some backendTier,
      cf_defaultTtlSeconds = defaultTtlSeconds, cf_backfillOnHit = True, cf_asyncBackfill = True\<rparr>"

definition tr_get :: "int \<Rightarrow> rat \<Rightarrow> repository_context \<Rightarrow> rat \<Rightarrow> string \<Rightarrow> tiered \<Rightarrow> tiered \<times> js16 option" where
  "tr_get n d x now key st = mt_get (tiered_config n d) now (buildScopedKey x key) st"

definition tr_set :: "int \<Rightarrow> rat \<Rightarrow> repository_context \<Rightarrow> rat \<Rightarrow> string \<Rightarrow> js16 \<Rightarrow> rat option \<Rightarrow> tiered \<Rightarrow> tiered \<times> set_outcome" where
  "tr_set n d x now key v ttl st = mt_set (tiered_config n d) now (buildScopedKey x key) v ttl st"

definition tr_delete :: "int \<Rightarrow> rat \<Rightarrow> repository_context \<Rightarrow> string \<Rightarrow> tiered \<Rightarrow> tiered \<times> string list" where
  "tr_delete n d x key st = mt_delete (tiered_config n d) (buildScopedKey x key) st"

definition tr_has :: "int \<Rightarrow> rat \<Rightarrow> repository_context \<Rightarrow> rat \<Rightarrow> string \<Rightarrow> tiered \<Rightarrow> tiered \<times> bool" where
  "tr_has n d x now key st = (case tr_get n d x now key st of (st1, v) \<Rightarrow> (st1, v \<noteq> None))"

text \<open>The first wipe of the first tier, the deletion at the backend, and the second wipe.\<close>

definition wipe_l1 :: "string \<Rightarrow> tiered \<Rightarrow> tiered" where
  "wipe_l1 p st = st\<lparr>ms_l1 := store_deleteByPrefix p (ms_l1 st)\<rparr>"

definition delete_l3 :: "string \<Rightarrow> tiered \<Rightarrow> tiered \<times> nat" where
  "delete_l3 p st = (case mb_delByPattern (p @ ''*'') (ms_l3 st) of (s, n) \<Rightarrow> (st\<lparr>ms_l3 := s\<rparr>, n))"

definition tr_drop_prefix :: "string \<Rightarrow> tiered \<Rightarrow> tiered \<times> nat" where
  "tr_drop_prefix p st = (case delete_l3 p (wipe_l1 p st) of (st1, n) \<Rightarrow> (wipe_l1 p st1, n))"

definition tr_deleteByPrefix :: "repository_context \<Rightarrow> string \<Rightarrow> tiered \<Rightarrow> tiered \<times> nat" where
  "tr_deleteByPrefix x p st = tr_drop_prefix (buildScopedKey x p) st"

definition tr_clear :: "repository_context \<Rightarrow> tiered \<Rightarrow> tiered" where
  "tr_clear x st = fst (tr_drop_prefix (scope_prefix x) st)"

end
