(* ===== verification/MultiTierSafety.thy ===== *)
theory MultiTierSafety
  imports MultiTier
begin

text \<open>
  What the multi-tier cache may rely on, as a locale over one tier that may be absent, and what follows for the
  cache: as long as every operation is finished before the next begins, no tier holds anything but the last write of
  a key, and nothing outlives that write.
\<close>

subsection \<open>The contract of a tier\<close>

text \<open>\<open>view\<close> is what the tier can give back, with the time it expires; \<open>fits\<close> are the writes it accepts.\<close>

locale sound_tier =
  fixes t :: "('s, 'v) tier option"
    and ok :: "'s \<Rightarrow> bool"
    and view :: "'s \<Rightarrow> string \<Rightarrow> ('v \<times> rat) option"
    and fits :: "string \<Rightarrow> 'v \<Rightarrow> rat \<Rightarrow> bool"
  assumes get_law: "ok s \<Longrightarrow> getFromTier t now k s = (s', r) \<Longrightarrow>
      ok s' \<and> view s' \<subseteq>\<^sub>m view s \<and> (\<forall>v. r = Some v \<longrightarrow> (\<exists>e. view s k = Some (v, e) \<and> now \<le> e))"
    and set_law: "ok s \<Longrightarrow> fits k v ttl \<Longrightarrow>
      ok (set_if t now k v ttl s) \<and> view (set_if t now k v ttl s) \<subseteq>\<^sub>m (view s)(k \<mapsto> (v, now + ttl * 1000)) \<and>
      outcome_of t now k v ttl s = SetFulfilled"
    and ttl_law: "ok s \<Longrightarrow> ask_ttl t now k s = (s', answer) \<Longrightarrow>
      ok s' \<and> view s' \<subseteq>\<^sub>m view s \<and>
      (\<forall>n. answer = Some (Some n) \<longrightarrow> (\<exists>v e. view s k = Some (v, e) \<and> n = Num ((e - now) / 1000)))"
    and ttl_supported: "t = Some u \<Longrightarrow> tier_ttl u \<noteq> None"
    and delete_law: "ok s \<Longrightarrow>
      ok (fst (delete_if t k s)) \<and> view (fst (delete_if t k s)) \<subseteq>\<^sub>m (view s)(k := None) \<and> snd (delete_if t k s) = []"
    and batch_law: "ok s \<Longrightarrow> getBatchFromTier t now ks s = (s', hits) \<Longrightarrow>
      ok s' \<and> view s' \<subseteq>\<^sub>m view s \<and> (\<forall>(k, v) \<in> set hits. \<exists>e. view s k = Some (v, e) \<and> now \<le> e)"

text \<open>A tier that is not configured.\<close>

interpretation no_tier: sound_tier "None :: ('s, 'v) tier option" "\<lambda>_. True" "\<lambda>_. Map.empty" fits for fits
  by unfold_locales
    (auto simp: getFromTier_def set_if_def outcome_of_def ask_ttl_def delete_if_def getBatchFromTier_def)

text \<open>A tier without a batch operation satisfies the law of batches when it satisfies the law of reads.\<close>

lemma individual_reads_law:
  assumes get: "\<And>s s' k r. ok s \<Longrightarrow> tier_get u now k s = (s', r) \<Longrightarrow>
      ok s' \<and> view s' \<subseteq>\<^sub>m view s \<and> (\<forall>v. r = Some (Some v) \<longrightarrow> (\<exists>e. view s k = Some (v, e) \<and> now \<le> e))"
  shows "ok s \<Longrightarrow> individual_reads u now ks s = (s', rs) \<Longrightarrow>
    ok s' \<and> view s' \<subseteq>\<^sub>m view s \<and> (\<forall>xs k v. rs = Some xs \<longrightarrow> (k, Some v) \<in> set xs \<longrightarrow> (\<exists>e. view s k = Some (v, e) \<and> now \<le> e))"
proof (induction ks arbitrary: s s' rs)
  case (Cons k ks)
  obtain s1 r where 1: "tier_get u now k s = (s1, r)" by (cases "tier_get u now k s")
  obtain s2 rs2 where 2: "individual_reads u now ks s1 = (s2, rs2)" by (cases "individual_reads u now ks s1")
  note g = get [OF Cons.prems(1) 1]
  note i = Cons.IH [OF conjunct1 [OF g] 2]
  have lift: "view s1 j = Some x \<Longrightarrow> view s j = Some x" for j x
    using g by (auto simp: map_le_def dom_def)
  from Cons.prems(2) 1 2 have e: "s' = s2" "rs = (case (r, rs2) of (Some v, Some xs) \<Rightarrow> Some ((k, v) # xs) | _ \<Rightarrow> None)"
    by auto
  have "view s2 \<subseteq>\<^sub>m view s" using g i map_le_trans by blast
  with g i lift show ?case unfolding e by (fastforce split: option.splits)
qed auto

lemma fold_set_in:
  "(k, x) \<in> set (fold (\<lambda>(k, v). jm_set k v) xs m) \<Longrightarrow> (k, x) \<in> set xs \<or> (k, x) \<in> set m"
  by (induction xs arbitrary: m) (auto dest!: jm_set_in_set)

lemma batch_hits_in: "(k, v) \<in> set (batch_hits rs) \<longleftrightarrow> (\<exists>xs. rs = Some xs \<and> (k, Some v) \<in> set xs)"
  by (auto simp: batch_hits_def split: option.splits)

lemma batch_law_from_get:
  assumes get: "\<And>s s' k r. ok s \<Longrightarrow> tier_get u now k s = (s', r) \<Longrightarrow>
      ok s' \<and> view s' \<subseteq>\<^sub>m view s \<and> (\<forall>v. r = Some (Some v) \<longrightarrow> (\<exists>e. view s k = Some (v, e) \<and> now \<le> e))"
    and "tier_getBatch u = None" "ok s" "getBatchFromTier (Some u) now ks s = (s', hits)"
  shows "ok s' \<and> view s' \<subseteq>\<^sub>m view s \<and> (\<forall>(k, v) \<in> set hits. \<exists>e. view s k = Some (v, e) \<and> now \<le> e)"
proof (cases "ks = []")
  case False
  obtain s1 rs where i: "individual_reads u now ks s = (s1, rs)" by (cases "individual_reads u now ks s")
  from False assms(2,4) i have e: "s' = s1" "hits = batch_hits (map_option (\<lambda>xs. fold (\<lambda>(k, v). jm_set k v) xs []) rs)"
    by (auto simp: getBatchFromTier_def batch_of_def individualGets_def)
  from individual_reads_law [of ok u now view, OF get assms(3) i] show ?thesis
    unfolding e by (auto simp: batch_hits_in dest!: fold_set_in)
qed (use assms in \<open>auto simp: getBatchFromTier_def\<close>)

lemma l3_answer_is_batch:
  "l3_answer t now ks s = (s', a) \<Longrightarrow> getBatchFromTier t now ks s = (s', batch_hits a)"
  by (auto simp: l3_answer_def getBatchFromTier_def batch_hits_def split: option.splits if_splits prod.splits)

subsection \<open>Coherence\<close>

text \<open>Every entry is the last write of its key, and expires no later than that write.\<close>

definition below :: "(string \<Rightarrow> ('v \<times> rat) option) \<Rightarrow> (string \<Rightarrow> ('v \<times> rat) option) \<Rightarrow> bool" where
  "below V sp \<longleftrightarrow> (\<forall>k v e. V k = Some (v, e) \<longrightarrow> (\<exists>e'. sp k = Some (v, e') \<and> e \<le> e'))"

lemma below_le: "V' \<subseteq>\<^sub>m V \<Longrightarrow> below V sp \<Longrightarrow> below V' sp"
  unfolding below_def map_le_def dom_def by (metis (mono_tags, lifting) mem_Collect_eq option.distinct(1))

lemma below_update: "V' \<subseteq>\<^sub>m V(k := x) \<Longrightarrow> below V sp \<Longrightarrow> below V' (sp(k := x))"
  by (rule below_le, assumption) (auto simp: below_def)

lemma below_refill:
  "V' \<subseteq>\<^sub>m V(k \<mapsto> (v, e)) \<Longrightarrow> below V sp \<Longrightarrow> sp k = Some (v, e') \<Longrightarrow> e \<le> e' \<Longrightarrow> below V' sp"
  by (rule below_le, assumption) (auto simp: below_def)

lemma below_at: "below V sp \<Longrightarrow> V k = Some (w, e) \<Longrightarrow> sp k = Some (v, e') \<Longrightarrow> w = v \<and> e \<le> e'"
  by (fastforce simp: below_def)

definition tiers_coherent :: "('a \<Rightarrow> bool) \<Rightarrow> ('a \<Rightarrow> string \<Rightarrow> ('v \<times> rat) option) \<Rightarrow>
    ('b \<Rightarrow> bool) \<Rightarrow> ('b \<Rightarrow> string \<Rightarrow> ('v \<times> rat) option) \<Rightarrow> ('c \<Rightarrow> bool) \<Rightarrow> ('c \<Rightarrow> string \<Rightarrow> ('v \<times> rat) option) \<Rightarrow>
    (string \<Rightarrow> 'v \<Rightarrow> bool) \<Rightarrow> (string \<Rightarrow> ('v \<times> rat) option) \<Rightarrow> ('a, 'b, 'c, 'v) multi_tier \<Rightarrow> bool" where
  "tiers_coherent ok1 view1 ok2 view2 ok3 view3 refillable sp st \<longleftrightarrow>
     ok1 (ms_l1 st) \<and> ok2 (ms_l2 st) \<and> ok3 (ms_l3 st) \<and>
     below (view1 (ms_l1 st)) sp \<and> below (view2 (ms_l2 st)) sp \<and> below (view3 (ms_l3 st)) sp \<and>
     (\<forall>k v e. sp k = Some (v, e) \<longrightarrow> refillable k v)"

text \<open>Jobs that have not asked yet, each for the last write of its key.\<close>

definition jobs_current :: "(string \<Rightarrow> ('v \<times> rat) option) \<Rightarrow> 'v backfill_job list \<Rightarrow> bool" where
  "jobs_current sp js \<longleftrightarrow> (\<forall>j \<in> set js. bj_stage j = AwaitingTtl \<and> (\<exists>e. sp (bj_key j) = Some (bj_value j, e)))"

text \<open>The four ways a read ends.\<close>

lemma mt_get_hit1:
  "getFromTier (cf_l1 c) now k (ms_l1 st) = (a, Some v) \<Longrightarrow>
   \<exists>stats. mt_get c now k st = (st\<lparr>ms_l1 := a, ms_stats := stats\<rparr>, Some v)"
  by (auto simp: mt_get_def Let_def)

lemma mt_get_hit2:
  "getFromTier (cf_l1 c) now k (ms_l1 st) = (a, None) \<Longrightarrow> getFromTier (cf_l2 c) now k (ms_l2 st) = (b, Some v) \<Longrightarrow>
   \<exists>stats. mt_get c now k st = (backfill c now k v FromL2 (st\<lparr>ms_l1 := a, ms_l2 := b, ms_stats := stats\<rparr>), Some v)"
  by (auto simp: mt_get_def Let_def)

lemma mt_get_hit3:
  "getFromTier (cf_l1 c) now k (ms_l1 st) = (a, None) \<Longrightarrow> getFromTier (cf_l2 c) now k (ms_l2 st) = (b, None) \<Longrightarrow>
   getFromTier (cf_l3 c) now k (ms_l3 st) = (s, Some v) \<Longrightarrow>
   \<exists>stats. mt_get c now k st =
     (backfill c now k v FromL3 (st\<lparr>ms_l1 := a, ms_l2 := b, ms_l3 := s, ms_stats := stats\<rparr>), Some v)"
  by (auto simp: mt_get_def Let_def)

lemma mt_get_miss:
  "getFromTier (cf_l1 c) now k (ms_l1 st) = (a, None) \<Longrightarrow> getFromTier (cf_l2 c) now k (ms_l2 st) = (b, None) \<Longrightarrow>
   getFromTier (cf_l3 c) now k (ms_l3 st) = (s, None) \<Longrightarrow>
   \<exists>stats. mt_get c now k st = (st\<lparr>ms_l1 := a, ms_l2 := b, ms_l3 := s, ms_stats := stats\<rparr>, None)"
  by (auto simp: mt_get_def Let_def)

text \<open>The results of a batch are hits of some tier, and every key has one.\<close>

lemma add_hits_get:
  "jm_get (add_hits hits rs) k = Some (Some v) \<Longrightarrow> (k, v) \<in> set hits \<or> jm_get rs k = Some (Some v)"
proof (induction hits arbitrary: rs)
  case (Cons x hits)
  from Cons.prems have "jm_get (add_hits hits (jm_set (fst x) (Some (snd x)) rs)) k = Some (Some v)"
    by (simp add: add_hits_def case_prod_beta)
  from Cons.IH [OF this] show ?case by (cases x) (auto simp: jsmap_simps split: if_splits)
qed (simp add: add_hits_def)

lemma fill_l3_get:
  "jm_get (fill_l3 xs rs) k = Some (Some v) \<Longrightarrow> (k, Some v) \<in> set xs \<or> jm_get rs k = Some (Some v)"
  by (induction xs rs rule: fill_l3.induct) (auto simp: jsmap_simps split: if_splits)

lemma fill_missing_get:
  "jm_get (fst (fill_missing ks rs)) k =
     (case jm_get rs k of Some v \<Rightarrow> Some v | None \<Rightarrow> if k \<in> set ks then Some None else None)"
proof -
  let ?f = "\<lambda>k (rs, n). if jm_get rs k = None then (jm_set k None rs, Suc n) else (rs, n)"
  have "jm_get (fst (fold ?f ks (rs, n))) k =
     (case jm_get rs k of Some v \<Rightarrow> Some v | None \<Rightarrow> if k \<in> set ks then Some None else None)" for n
    by (induction ks arbitrary: rs n) (auto simp: jsmap_simps split: option.splits)
  then show ?thesis by (simp add: fill_missing_def)
qed

lemma count_stats_tiers [simp]:
  "ms_l1 (count_stats f st) = ms_l1 st" "ms_l2 (count_stats f st) = ms_l2 st" "ms_l3 (count_stats f st) = ms_l3 st"
  "ms_jobs (count_stats f st) = ms_jobs st"
  by (simp_all add: count_stats_def)

locale sound_tiers =
  l1: sound_tier "cf_l1 c" ok1 view1 fits + l2: sound_tier "cf_l2 c" ok2 view2 fits + l3: sound_tier "cf_l3 c" ok3 view3 fits
  for c :: "('a, 'b, 'c, 'v) multi_tier_config" and ok1 view1 ok2 view2 ok3 view3 fits +
  assumes fits_shorter: "fits k v ttl \<Longrightarrow> ttl' \<le> ttl \<Longrightarrow> fits k v ttl'"
begin

abbreviation refillable :: "string \<Rightarrow> 'v \<Rightarrow> bool" where
  "refillable k v \<equiv> fits k v (cf_defaultTtlSeconds c)"

abbreviation coherent :: "(string \<Rightarrow> ('v \<times> rat) option) \<Rightarrow> ('a, 'b, 'c, 'v) multi_tier \<Rightarrow> bool" where
  "coherent \<equiv> tiers_coherent ok1 view1 ok2 view2 ok3 view3 refillable"

lemmas coherent_def = tiers_coherent_def [of ok1 view1 ok2 view2 ok3 view3 refillable]

lemma coherent_writes:
  assumes "coherent sp st" "fits k v ttl" "sp k = Some (v, e)" "now + ttl * 1000 \<le> e"
  shows "coherent sp (backfill_writes c now k v source ttl st)"
  using assms l1.set_law [of "ms_l1 st" k v ttl now] l2.set_law [of "ms_l2 st" k v ttl now]
  by (auto simp: coherent_def backfill_writes_def Let_def intro: below_refill)

lemma coherent_answer:
  assumes "coherent sp st" "ms_jobs st = j # js" "bj_stage j = AwaitingTtl" "sp (bj_key j) = Some (bj_value j, e)"
  shows "\<exists>r. coherent sp (job_answered c now 0 st) \<and> ms_jobs (job_answered c now 0 st) = j\<lparr>bj_stage := TtlAnswered r\<rparr> # js \<and>
    (\<forall>n. r = Some (Some n) \<longrightarrow> (\<exists>e'. n = Num ((e' - now) / 1000) \<and> e' \<le> e))"
proof (cases "bj_source j")
  case FromL2
  obtain s r where a: "ask_ttl (cf_l2 c) now (bj_key j) (ms_l2 st) = (s, r)"
    by (cases "ask_ttl (cf_l2 c) now (bj_key j) (ms_l2 st)")
  from assms(1) have b: "ok2 (ms_l2 st)" "below (view2 (ms_l2 st)) sp" by (auto simp: coherent_def)
  note law = l2.ttl_law [OF b(1) a]
  have "coherent sp (job_answered c now 0 st)" using assms law
    by (auto simp: coherent_def job_answered_def FromL2 a Let_def intro: below_le)
  with law below_at [OF b(2) _ assms(4)] show ?thesis
    by (intro exI [of _ r]) (auto simp: job_answered_def assms FromL2 a Let_def)
next
  case FromL3
  obtain s r where a: "ask_ttl (cf_l3 c) now (bj_key j) (ms_l3 st) = (s, r)"
    by (cases "ask_ttl (cf_l3 c) now (bj_key j) (ms_l3 st)")
  from assms(1) have b: "ok3 (ms_l3 st)" "below (view3 (ms_l3 st)) sp" by (auto simp: coherent_def)
  note law = l3.ttl_law [OF b(1) a]
  have "coherent sp (job_answered c now 0 st)" using assms law
    by (auto simp: coherent_def job_answered_def FromL3 a Let_def intro: below_le)
  with law below_at [OF b(2) _ assms(4)] show ?thesis
    by (intro exI [of _ r]) (auto simp: job_answered_def assms FromL3 a Let_def)
qed

lemma finish_one:
  assumes "coherent sp st" "ms_jobs st = j # js" "bj_stage j = AwaitingTtl" "sp (bj_key j) = Some (bj_value j, e)"
  shows "coherent sp (job_continues c now 0 (job_answered c now 0 st)) \<and>
    ms_jobs (job_continues c now 0 (job_answered c now 0 st)) = js"
proof -
  from coherent_answer [OF assms] obtain r where
    co: "coherent sp (job_answered c now 0 st)" and jobs: "ms_jobs (job_answered c now 0 st) = j\<lparr>bj_stage := TtlAnswered r\<rparr> # js"
    and ans: "\<forall>n. r = Some (Some n) \<longrightarrow> (\<exists>e'. n = Num ((e' - now) / 1000) \<and> e' \<le> e)" by blast
  let ?d = "cf_defaultTtlSeconds c" and ?st = "(job_answered c now 0 st)\<lparr>ms_jobs := js\<rparr>"
  have co': "coherent sp ?st" using co by (simp add: coherent_def)
  show ?thesis
  proof (cases "backfill_ttl ?d r")
    case None
    with co' jobs show ?thesis by (simp add: job_continues_def Let_def)
  next
    case (Some ttl)
    with ans obtain q e' where "q * 1000 = e' - now" "ttl = min q ?d" and e': "e' \<le> e"
      by (cases "(?d, r)" rule: backfill_ttl.cases) (auto split: if_splits)
    moreover from this have "ttl \<le> q" and d: "ttl \<le> ?d" by simp_all
    ultimately have "now + ttl * 1000 \<le> e" by linarith
    moreover have "fits (bj_key j) (bj_value j) ttl"
      using fits_shorter [OF _ d] co' assms(4) by (auto simp: coherent_def)
    ultimately have "coherent sp (backfill_writes c now (bj_key j) (bj_value j) (bj_source j) ttl ?st)"
      using coherent_writes co' assms(4) by blast
    with Some jobs show ?thesis by (simp add: job_continues_def Let_def backfill_writes_def)
  qed
qed

lemma coherent_finish:
  assumes "coherent sp st" "jobs_current sp (ms_jobs st)"
  shows "coherent sp (finish_jobs c now st) \<and> ms_jobs (finish_jobs c now st) = []"
proof -
  let ?f = "\<lambda>st. job_continues c now 0 (job_answered c now 0 st)"
  have "coherent sp ((?f ^^ length js) st) \<and> ms_jobs ((?f ^^ length js) st) = []"
    if "coherent sp st" "ms_jobs st = js" "jobs_current sp js" for js st
    using that
  proof (induction js arbitrary: st)
    case (Cons j js)
    then obtain e where "bj_stage j = AwaitingTtl" "sp (bj_key j) = Some (bj_value j, e)" by (auto simp: jobs_current_def)
    from finish_one [OF Cons.prems(1,2) this] Cons.IH [of "?f st"] Cons.prems(3)
    show ?case by (simp add: funpow_Suc_right jobs_current_def del: funpow.simps)
  qed simp
  with assms show ?thesis by (simp add: finish_jobs_def)
qed

text \<open>Reads. A hit of a lower tier leaves a job, since that tier reports lifetimes.\<close>

lemma backfill_job:
  assumes "coherent sp st" "reports_ttl c source" "sp k = Some (v, e)" "jobs_current sp (ms_jobs st)"
  shows "coherent sp (backfill c now k v source st) \<and> jobs_current sp (ms_jobs (backfill c now k v source st))"
  using assms by (auto simp: coherent_def backfill_def Let_def jobs_current_def)

lemma hit_reports:
  "getFromTier (cf_l2 c) now k s2 = (b, Some v) \<Longrightarrow> reports_ttl c FromL2"
  "getFromTier (cf_l3 c) now k s3 = (a, Some v) \<Longrightarrow> reports_ttl c FromL3"
  using l2.ttl_supported l3.ttl_supported by (auto simp: getFromTier_def reports_ttl_def split: option.splits)

lemma coherent_get:
  assumes "coherent sp st" "ms_jobs st = []" "mt_get c now k st = (st', r)"
  shows "coherent sp st' \<and> jobs_current sp (ms_jobs st') \<and> (\<forall>v. r = Some v \<longrightarrow> (\<exists>e. sp k = Some (v, e) \<and> now \<le> e))"
proof -
  obtain a r1 where 1: "getFromTier (cf_l1 c) now k (ms_l1 st) = (a, r1)" by fastforce
  obtain b r2 where 2: "getFromTier (cf_l2 c) now k (ms_l2 st) = (b, r2)" by fastforce
  obtain s r3 where 3: "getFromTier (cf_l3 c) now k (ms_l3 st) = (s, r3)" by fastforce
  from assms(1) have o: "ok1 (ms_l1 st)" "ok2 (ms_l2 st)" "ok3 (ms_l3 st)" and be: "below (view1 (ms_l1 st)) sp"
    "below (view2 (ms_l2 st)) sp" "below (view3 (ms_l3 st)) sp" by (auto simp: coherent_def)
  note g = l1.get_law [OF o(1) 1] l2.get_law [OF o(2) 2] l3.get_law [OF o(3) 3]
  have hit: "\<exists>e. sp k = Some (v, e) \<and> now \<le> e" if "below V sp" "\<exists>e. V k = Some (v, e) \<and> now \<le> e" for V v
    using that by (fastforce simp: below_def)
  have co: "coherent sp st''" if "ms_l1 st'' = a" "ms_l2 st'' \<in> {ms_l2 st, b}" "ms_l3 st'' \<in> {ms_l3 st, s}" for st''
    using that g o be assms(1) by (auto simp: coherent_def intro: below_le)
  have none: "jobs_current sp []" by (simp add: jobs_current_def)
  consider (h1) v where "r1 = Some v" | (h2) v where "r1 = None" "r2 = Some v" | (h3) v where "r1 = None" "r2 = None" "r3 = Some v"
    | (miss) "r1 = None" "r2 = None" "r3 = None" by (cases r1; cases r2; cases r3) auto
  then show ?thesis
  proof cases
    case h1
    with mt_get_hit1 [OF 1 [unfolded h1]] assms(3) obtain stats where e: "st' = st\<lparr>ms_l1 := a, ms_stats := stats\<rparr>" "r = Some v"
      by auto
    show ?thesis using co [of st'] none assms(2) hit [OF be(1)] g(1) h1 by (simp add: e)
  next
    case h2
    with mt_get_hit2 [OF 1 [unfolded h2] 2 [unfolded h2]] assms(3) obtain stats where
      e: "st' = backfill c now k v FromL2 (st\<lparr>ms_l1 := a, ms_l2 := b, ms_stats := stats\<rparr>)" "r = Some v" by auto
    from hit [OF be(2)] g(2) h2 obtain ex where x: "sp k = Some (v, ex)" "now \<le> ex" by blast
    show ?thesis unfolding e
      using backfill_job [OF co [of "st\<lparr>ms_l1 := a, ms_l2 := b, ms_stats := stats\<rparr>"] hit_reports(1) [OF 2 [unfolded h2]] x(1)]
        none assms(2) x by simp
  next
    case h3
    with mt_get_hit3 [OF 1 [unfolded h3] 2 [unfolded h3] 3 [unfolded h3]] assms(3) obtain stats where
      e: "st' = backfill c now k v FromL3 (st\<lparr>ms_l1 := a, ms_l2 := b, ms_l3 := s, ms_stats := stats\<rparr>)" "r = Some v" by auto
    from hit [OF be(3)] g(3) h3 obtain ex where x: "sp k = Some (v, ex)" "now \<le> ex" by blast
    show ?thesis unfolding e
      using backfill_job [OF co [of "st\<lparr>ms_l1 := a, ms_l2 := b, ms_l3 := s, ms_stats := stats\<rparr>"] hit_reports(2) [OF 3 [unfolded h3]] x(1)]
        none assms(2) x by simp
  next
    case miss
    with mt_get_miss [OF 1 [unfolded miss] 2 [unfolded miss] 3 [unfolded miss]] assms(3) obtain stats where
      e: "st' = st\<lparr>ms_l1 := a, ms_l2 := b, ms_l3 := s, ms_stats := stats\<rparr>" "r = None" by auto
    show ?thesis using co [of st'] none assms(2) by (simp add: e)
  qed
qed

lemma backfill_all_jobs:
  assumes "coherent sp st" "jobs_current sp (ms_jobs st)" "hits \<noteq> [] \<Longrightarrow> reports_ttl c source"
    "\<forall>(k, v) \<in> set hits. \<exists>e. sp k = Some (v, e)"
  shows "coherent sp (backfill_all c now source hits st) \<and> jobs_current sp (ms_jobs (backfill_all c now source hits st))"
  using assms
proof (induction hits arbitrary: st)
  case (Cons x hits)
  obtain k v where x: "x = (k, v)" by (cases x)
  with Cons.prems(4) obtain e where e: "sp k = Some (v, e)" by auto
  from Cons.prems(3) have rep: "reports_ttl c source" by simp
  from backfill_job [OF Cons.prems(1) rep e Cons.prems(2)] Cons.IH [of "backfill c now k v source st"] Cons.prems rep
  show ?case by (simp add: backfill_all_def x)
qed (simp add: backfill_all_def)

lemma batch_reports:
  "getBatchFromTier (cf_l2 c) now ks s2 = (b, h) \<Longrightarrow> h \<noteq> [] \<Longrightarrow> reports_ttl c FromL2"
  "getBatchFromTier (cf_l3 c) now ks s3 = (a, h') \<Longrightarrow> h' \<noteq> [] \<Longrightarrow> reports_ttl c FromL3"
  using l2.ttl_supported l3.ttl_supported by (auto simp: getBatchFromTier_def reports_ttl_def split: option.splits)

lemma coherent_batch:
  assumes "coherent sp st" "ms_jobs st = []" "mt_getBatch c now ks st = (st', results)"
  shows "coherent sp st' \<and> jobs_current sp (ms_jobs st') \<and>
    (\<forall>k v. jm_get results k = Some (Some v) \<longrightarrow> (\<exists>e. sp k = Some (v, e) \<and> now \<le> e))"
proof -
  have hit: "\<forall>(k, v) \<in> set h. \<exists>e. sp k = Some (v, e) \<and> now \<le> e"
    if "below V sp" "\<forall>(k, v) \<in> set h. \<exists>e. V k = Some (v, e) \<and> now \<le> e" for V h
    using that by (fastforce simp: below_def)
  from assms(1) have o: "ok1 (ms_l1 st)" "ok2 (ms_l2 st)" "ok3 (ms_l3 st)" and be: "below (view1 (ms_l1 st)) sp"
    "below (view2 (ms_l2 st)) sp" "below (view3 (ms_l3 st)) sp" by (auto simp: coherent_def)
  obtain a h1 where 1: "getBatchFromTier (cf_l1 c) now ks (ms_l1 st) = (a, h1)" by fastforce
  note g1 = l1.batch_law [OF o(1) 1]
  define r1 where "r1 = add_hits h1 []"
  define ks1 where "ks1 = (if cf_l1 c = None then ks else still_missing r1 ks)"
  obtain b h2 where 2: "getBatchFromTier (cf_l2 c) now ks1 (ms_l2 st) = (b, h2)" by fastforce
  note g2 = l2.batch_law [OF o(2) 2]
  define st1 where "st1 = count_stats (\<lambda>s. s\<lparr>cs_l1Hits := cs_l1Hits s + length h1\<rparr>) (st\<lparr>ms_l1 := a\<rparr>)"
  define st2a where "st2a = count_stats (\<lambda>s. s\<lparr>cs_l2Hits := cs_l2Hits s + length h2\<rparr>) (st1\<lparr>ms_l2 := b\<rparr>)"
  define st2 where "st2 = backfill_all c now FromL2 h2 st2a"
  define r2 where "r2 = add_hits h2 r1"
  define ks2 where "ks2 = (if cf_l2 c = None then ks1 else still_missing r2 ks1)"
  have "coherent sp st2a" using assms(1) g1 g2
    by (auto simp: coherent_def st2a_def st1_def intro: below_le)
  moreover have "ms_jobs st2a = []" using assms(2) by (simp add: st2a_def st1_def)
  ultimately have s2: "coherent sp st2 \<and> jobs_current sp (ms_jobs st2)"
    unfolding st2_def using hit [OF be(2), of h2] g2 batch_reports(1) [OF 2]
    by (intro backfill_all_jobs) (force simp: jobs_current_def)+
  then have o3: "ok3 (ms_l3 st2)" "below (view3 (ms_l3 st2)) sp" by (auto simp: coherent_def)
  obtain s ans where 3: "l3_answer (cf_l3 c) now ks2 (ms_l3 st2) = (s, ans)" by fastforce
  note b3 = l3_answer_is_batch [OF 3]
  note g3 = l3.batch_law [OF o3(1) b3]
  define xs where "xs = (case ans of None \<Rightarrow> [] | Some xs \<Rightarrow> xs)"
  define st3a where "st3a = count_stats (\<lambda>t. t\<lparr>cs_l3Hits := cs_l3Hits t + length (batch_hits ans),
      cs_misses := cs_misses t + (length xs - length (batch_hits ans))\<rparr>) (st2\<lparr>ms_l3 := s\<rparr>)"
  have "coherent sp st3a \<and> jobs_current sp (ms_jobs st3a)" using s2 g3
    by (auto simp: coherent_def st3a_def intro: below_le)
  then have s3: "coherent sp (backfill_all c now FromL3 (batch_hits ans) st3a) \<and>
      jobs_current sp (ms_jobs (backfill_all c now FromL3 (batch_hits ans) st3a))"
    using hit [OF o3(2), of "batch_hits ans"] g3 batch_reports(2) [OF b3] by (intro backfill_all_jobs) force+
  define n where "n = snd (fill_missing ks2 (fill_l3 xs r2))"
  have res: "st' = count_stats (\<lambda>t. t\<lparr>cs_misses := cs_misses t + n\<rparr>) (backfill_all c now FromL3 (batch_hits ans) st3a)"
      "results = fst (fill_missing ks2 (fill_l3 xs r2))"
    using assms(3) 1 2 [unfolded ks1_def r1_def] 3 [unfolded ks2_def ks1_def r2_def r1_def st2_def st2a_def st1_def]
    by (auto simp: mt_getBatch_def Let_def st1_def st2a_def st2_def r1_def r2_def ks1_def ks2_def xs_def st3a_def n_def split: prod.splits)
  have "\<exists>e. sp k = Some (v, e) \<and> now \<le> e" if v: "jm_get results k = Some (Some v)" for k v
  proof -
    from v have "jm_get (fill_l3 xs r2) k = Some (Some v)"
      unfolding res(2) fill_missing_get by (auto split: option.splits if_splits)
    then consider "(k, Some v) \<in> set xs" | "(k, v) \<in> set h2" | "(k, v) \<in> set h1"
      using fill_l3_get [of xs r2 k v] add_hits_get [of h2 r1 k v] add_hits_get [of h1 "[]" k v]
      unfolding r2_def r1_def by auto
    then show ?thesis
    proof cases
      case 1
      then have "(k, v) \<in> set (batch_hits ans)" by (auto simp: xs_def batch_hits_in split: option.splits)
      with hit [OF o3(2)] g3 show ?thesis by blast
    qed (use hit [OF be(1)] hit [OF be(2)] g1 g2 in blast)+
  qed
  with s3 show ?thesis by (simp add: res(1) coherent_def)
qed

text \<open>Writes and deletions.\<close>

lemma coherent_set:
  assumes "coherent sp st" "fits k v ttl" "refillable k v" "mt_set c now k v topt st = (st', r)"
    "ttl = (case topt of None \<Rightarrow> cf_defaultTtlSeconds c | Some t \<Rightarrow> t)"
  shows "coherent (sp(k \<mapsto> (v, now + ttl * 1000))) st' \<and> r = SetFulfilled \<and> ms_jobs st' = ms_jobs st"
  using assms l1.set_law [of "ms_l1 st" k v ttl now] l2.set_law [of "ms_l2 st" k v ttl now] l3.set_law [of "ms_l3 st" k v ttl now]
  by (auto simp: coherent_def mt_set_def Let_def intro: below_update)

lemma coherent_delete:
  assumes "coherent sp st" "mt_delete c k st = (st', failed)"
  shows "coherent (sp(k := None)) st' \<and> failed = [] \<and> ms_jobs st' = ms_jobs st"
  using assms l1.delete_law [of "ms_l1 st" k] l2.delete_law [of "ms_l2 st" k] l3.delete_law [of "ms_l3 st" k]
  by (auto simp: coherent_def mt_delete_def split: prod.splits intro: below_update)

end

end
