(* ===== verification/MemoryBackendSafety.thy ===== *)
theory MemoryBackendSafety
  imports MemoryBackend
begin

text \<open>
  What holds of the in-memory cache backend after any sequence of operations: its counters are exact and within
  its limits, it serves nothing but the last write of a key, and its eviction loop ends unless the oldest key is
  the empty string.
\<close>

subsection \<open>The invariant\<close>

definition mb_total :: "(string \<times> memory_entry) list \<Rightarrow> int" where
  "mb_total m = sum_list (map (\<lambda>(k, e). me_sizeBytes e) m)"

definition mb_ok :: "memory_cache \<Rightarrow> bool" where
  "mb_ok st \<longleftrightarrow> jm_ok (mb_store st) \<and> mb_currentSizeBytes st = mb_total (mb_store st) \<and>
     (\<forall>(k, e) \<in> set (mb_store st). me_sizeBytes e = estimateSize k (me_value e)) \<and>
     jm_ok (mb_globCache st) \<and> (\<forall>(p, g) \<in> set (mb_globCache st). compileCacheGlob p = Some g)"

definition mb_within :: "memory_cache \<Rightarrow> bool" where
  "mb_within st \<longleftrightarrow> int (length (mb_store st)) \<le> max 1 (mb_maxEntries st) \<and>
     mb_currentSizeBytes st \<le> max 0 (mb_maxSizeBytes st)"

definition same_limits :: "memory_cache \<Rightarrow> memory_cache \<Rightarrow> bool" where
  "same_limits st st' \<longleftrightarrow> mb_maxEntries st' = mb_maxEntries st \<and> mb_maxSizeBytes st' = mb_maxSizeBytes st"

text \<open>The contents a reader can see, with their expiry.\<close>

definition mb_contents :: "memory_cache \<Rightarrow> string \<Rightarrow> (js16 \<times> rat) option" where
  "mb_contents st k = map_option (\<lambda>e. (me_value e, me_expiresAt e)) (jm_get (mb_store st) k)"

text \<open>A step that only loses entries.\<close>

definition shrinks :: "memory_cache \<Rightarrow> memory_cache \<Rightarrow> bool" where
  "shrinks st st' \<longleftrightarrow> same_limits st st' \<and> mb_contents st' \<subseteq>\<^sub>m mb_contents st \<and>
     length (mb_store st') \<le> length (mb_store st) \<and> (mb_ok st \<longrightarrow> mb_ok st' \<and> mb_currentSizeBytes st' \<le> mb_currentSizeBytes st)"

lemma shrinks_refl [simp, intro]: "shrinks st st"
  by (simp add: shrinks_def same_limits_def)

lemma shrinks_trans [trans]: "shrinks a b \<Longrightarrow> shrinks b c \<Longrightarrow> shrinks a c"
  unfolding shrinks_def same_limits_def by (auto intro: map_le_trans)

lemma mb_store_del [simp]: "mb_store (mb_del k st) = jm_del k (mb_store st)"
  by (auto simp: mb_del_def delete_id map_of_eq_None_iff split: option.splits)

lemma mb_del_same [simp]:
  "mb_globCache (mb_del k st) = mb_globCache st" "mb_maxEntries (mb_del k st) = mb_maxEntries st"
  "mb_maxSizeBytes (mb_del k st) = mb_maxSizeBytes st"
  by (auto simp: mb_del_def split: option.splits)

lemma total_size_del:
  "jm_ok m \<Longrightarrow> mb_total (jm_del k m) = mb_total m - (case jm_get m k of None \<Rightarrow> 0 | Some e \<Rightarrow> me_sizeBytes e)"
proof (induction m)
  case (Cons x m)
  obtain j e where x: "x = (j, e)" by (cases x)
  with Cons.prems have "jm_ok m" "j \<notin> fst ` set m" by (auto simp: jm_ok_def)
  then have "k = j \<Longrightarrow> jm_del k m = m" by (simp add: delete_id)
  with Cons \<open>jm_ok m\<close> show ?case by (auto simp: x mb_total_def)
qed (simp add: mb_total_def)

lemma total_size_nonneg: "mb_ok st \<Longrightarrow> 0 \<le> mb_total (mb_store st)"
  unfolding mb_ok_def mb_total_def estimateSize_def
  by (intro sum_list_nonneg) fastforce

lemma contents_del: "mb_contents (mb_del k st) = (mb_contents st)(k := None)"
  by (auto simp: mb_contents_def jsmap_simps fun_eq_iff)

lemma mb_ok_del: "mb_ok st \<Longrightarrow> mb_ok (mb_del k st)"
  by (auto simp: mb_ok_def jm_del_ok_iff total_size_del) (auto simp: mb_del_def split: option.splits)

lemma del_size: "mb_ok st \<Longrightarrow> mb_currentSizeBytes (mb_del k st) \<le> mb_currentSizeBytes st"
proof -
  assume a: "mb_ok st"
  have "0 \<le> me_sizeBytes e" if "jm_get (mb_store st) k = Some e" for e
    using a map_of_SomeD [OF that] by (auto simp: mb_ok_def estimateSize_def)
  then show ?thesis by (auto simp: mb_del_def split: option.splits)
qed

lemma shrinks_del [simp, intro]: "shrinks st (mb_del k st)"
  unfolding shrinks_def same_limits_def
  by (auto simp: contents_del map_le_def mb_ok_del del_size length_delete_le split: if_splits)

lemma shrinks_within: "shrinks st st' \<Longrightarrow> mb_ok st \<Longrightarrow> mb_within st \<Longrightarrow> mb_within st'"
  unfolding shrinks_def same_limits_def mb_within_def by auto

subsection \<open>Reads and deletions lose entries at most\<close>

lemma shrinks_fold_del: "shrinks st (fold mb_del ks st)"
  by (induction ks arbitrary: st) (auto intro: shrinks_trans)

lemma contents_fold_del: "mb_contents (fold mb_del ks st) k = (if k \<in> set ks then None else mb_contents st k)"
  by (induction ks arbitrary: st) (auto simp: contents_del)

lemma shrinks_get: "shrinks st (fst (mb_get now key st))"
  by (auto simp: mb_get_def split: option.splits)

lemma shrinks_getWithin: "shrinks st (fst (mb_getWithinLimit now key n st))"
  using shrinks_get [of st now key]
  by (auto simp: mb_getWithinLimit_def split: sum.splits prod.splits option.splits)

lemma shrinks_ttl: "shrinks st (fst (mb_getRemainingTtlSeconds now key st))"
  by (auto simp: mb_getRemainingTtlSeconds_def Let_def split: option.splits)

lemma shrinks_batch:
  "shrinks st (fst (buildBatchResults (\<lambda>st key. mb_get now key st) keys results st))"
proof (induction keys arbitrary: results st)
  case (Cons key keys)
  show ?case using shrinks_trans [OF shrinks_get [of st now key] Cons] by (simp add: case_prod_beta)
qed simp

lemma shrinks_getBatch: "shrinks st (fst (mb_getBatch now keys st))"
  by (simp add: mb_getBatch_def shrinks_batch)

lemma mb_ok_remember:
  "jm_ok cache \<Longrightarrow> (\<forall>(p, g) \<in> set cache. compileCacheGlob p = Some g) \<Longrightarrow> compileCacheGlob pattern = Some g \<Longrightarrow>
   jm_ok (remember_glob pattern g cache) \<and> (\<forall>(p, g) \<in> set (remember_glob pattern g cache). compileCacheGlob p = Some g)"
  unfolding remember_glob_def
  by (auto simp: jm_del_ok_iff split: list.splits dest!: jm_set_in_set)

lemma shrinks_matching: "shrinks st (fst (delete_matching g st))"
  by (simp add: delete_matching_def Let_def shrinks_fold_del)

lemma shrinks_delByPattern: "shrinks st (fst (mb_delByPattern pattern st))"
proof (cases "jm_get (mb_globCache st) pattern")
  case None
  show ?thesis
  proof (cases "compileCacheGlob pattern")
    case (Some g)
    have "shrinks st (st\<lparr>mb_globCache := remember_glob pattern g (mb_globCache st)\<rparr>)"
      using mb_ok_remember [OF _ _ Some]
      by (auto simp: shrinks_def same_limits_def mb_contents_def mb_ok_def map_le_def)
    from shrinks_trans [OF this shrinks_matching] show ?thesis using None Some by (simp add: mb_delByPattern_def)
  qed (simp add: mb_delByPattern_def None)
qed (simp add: mb_delByPattern_def shrinks_matching)

lemma shrinks_clear: "shrinks st (mb_clear st)"
  unfolding shrinks_def same_limits_def
  using total_size_nonneg [of st]
  by (auto simp: mb_clear_def mb_contents_def map_le_def mb_ok_def mb_total_def)

subsection \<open>Eviction\<close>

lemma shrinks_evictOldest: "shrinks st (evictOldest st)"
  by (auto simp: evictOldest_def split: list.splits)

lemma evict_while_result: "evict_while n st = Some st' \<Longrightarrow> shrinks st st' \<and> \<not> mb_over_limits n st'"
proof (rule evict_while.raw_induct [where P = "\<lambda>n st st'. shrinks st st' \<and> \<not> mb_over_limits n st'"])
  fix f n st st'
  assume ih: "\<And>n st st'. f n st = Some st' \<Longrightarrow> shrinks st st' \<and> \<not> mb_over_limits n st'"
    and eq: "(if mb_over_limits n st then f n (evictOldest st) else Some st) = Some st'"
  show "shrinks st st' \<and> \<not> mb_over_limits n st'"
  proof (cases "mb_over_limits n st")
    case True
    with eq ih [of n "evictOldest st" st'] show ?thesis using shrinks_trans [OF shrinks_evictOldest] by auto
  qed (use eq in auto)
qed

lemma keys_del_subset: "set (jm_keys (jm_del k m)) \<subseteq> set (jm_keys m)"
  by (auto simp: AList.delete_eq)

text \<open>Every round removes the oldest entry, unless its key is the empty string.\<close>

lemma evict_while_returns: "[] \<notin> set (jm_keys (mb_store st)) \<Longrightarrow> \<exists>st'. evict_while n st = Some st'"
proof (induction "length (mb_store st)" arbitrary: st rule: less_induct)
  case less
  show ?case
  proof (cases "mb_over_limits n st")
    case True
    then obtain k e m where m: "mb_store st = (k, e) # m" by (cases "mb_store st") (auto simp: mb_over_limits_def)
    with less.prems have e: "evictOldest st = mb_del k st" by (auto simp: evictOldest_def)
    have "length (mb_store (evictOldest st)) < length (mb_store st)"
      unfolding e mb_store_del m by (simp add: le_imp_less_Suc length_delete_le)
    moreover have "[] \<notin> set (jm_keys (mb_store (evictOldest st)))"
      using less.prems keys_del_subset [of k "mb_store st"] unfolding e by auto
    ultimately obtain st' where "evict_while n (evictOldest st) = Some st'" using less.hyps by blast
    with True show ?thesis by (subst evict_while.simps) simp
  qed (subst evict_while.simps, simp)
qed

text \<open>With an oldest key that is the empty string the loop changes nothing and does not end.\<close>

lemma evict_while_stuck:
  assumes "mb_over_limits n st" "mb_store st = ([], e) # m"
  shows "evict_while n st = None"
proof (rule ccontr)
  assume "evict_while n st \<noteq> None"
  then obtain r where r: "evict_while n st = Some r" by blast
  have stuck: "evictOldest st = st" using assms(2) by (simp add: evictOldest_def)
  have "n = n \<longrightarrow> st = st \<longrightarrow> False"
  proof (rule evict_while.raw_induct [where P = "\<lambda>n' s r. n' = n \<longrightarrow> s = st \<longrightarrow> False", OF _ r])
    fix f n' s r'
    assume ih: "\<And>n' s r. f n' s = Some r \<Longrightarrow> n' = n \<longrightarrow> s = st \<longrightarrow> False"
      and eq: "(if mb_over_limits n' s then f n' (evictOldest s) else Some s) = Some r'"
    show "n' = n \<longrightarrow> s = st \<longrightarrow> False" using ih [of n st r'] eq assms(1) stuck by auto
  qed
  then show False by simp
qed

subsection \<open>Writes\<close>

lemma total_size_set: "k \<notin> set (jm_keys m) \<Longrightarrow> mb_total (jm_set k e m) = mb_total m + me_sizeBytes e"
  by (induction m) (auto simp: mb_total_def)

lemma length_set: "k \<notin> set (jm_keys m) \<Longrightarrow> length (jm_set k e m) = Suc (length m)"
  by (induction m) auto

lemma not_in_deleted: "k \<notin> set (jm_keys (jm_del k m))"
  by (auto simp: AList.delete_eq)

lemma contents_None: "mb_contents st k = None \<longleftrightarrow> k \<notin> set (jm_keys (mb_store st))"
  by (simp add: mb_contents_def map_of_eq_None_iff)

lemma shrinks_absent: "shrinks st st' \<Longrightarrow> mb_contents st k = None \<Longrightarrow> mb_contents st' k = None"
  unfolding shrinks_def map_le_def by (metis domIff)

lemma contents_insert:
  "mb_contents (mb_insert now key value ttl st) = (mb_contents st)(key \<mapsto> (value, now + ttl * 1000))"
  by (auto simp: mb_contents_def mb_insert_def jsmap_simps fun_eq_iff)

text \<open>A write that returns: nothing else appears, and the key holds the new value, the old one or none.\<close>

lemma mb_write_result:
  assumes w: "mb_write now key value ttl st = Some st'" and ok: "mb_ok st" "mb_within st"
  shows "same_limits st st' \<and> mb_ok st' \<and> mb_within st' \<and>
    mb_contents st' \<subseteq>\<^sub>m
      (if expiresImmediately ttl then (mb_contents st)(key := None)
       else if estimateSize key value > mb_maxSizeBytes st then mb_contents st
       else (mb_contents st)(key \<mapsto> (value, now + (case ttl of None \<Rightarrow> DEFAULT_CACHE_TTL_SECONDS | Some t \<Rightarrow> t) * 1000)))"
proof -
  consider (expired) "expiresImmediately ttl" | (large) "\<not> expiresImmediately ttl" "estimateSize key value > mb_maxSizeBytes st"
    | (stored) "\<not> expiresImmediately ttl" "\<not> estimateSize key value > mb_maxSizeBytes st" by blast
  then show ?thesis
  proof cases
    case expired
    with w have "st' = mb_del key st" by (simp add: mb_write_def)
    with expired ok shrinks_within [OF shrinks_del ok] show ?thesis by (simp add: mb_ok_del contents_del same_limits_def)
  next
    case large
    with w ok show ?thesis by (auto simp: mb_write_def same_limits_def)
  next
    case stored
    let ?t = "case ttl of None \<Rightarrow> DEFAULT_CACHE_TTL_SECONDS | Some t \<Rightarrow> t"
    from w stored obtain s where s: "evict_while (estimateSize key value) (mb_del key st) = Some s"
        and st': "st' = mb_insert now key value ?t s"
      by (auto simp: mb_write_def)
    from evict_while_result [OF s] have sh: "shrinks (mb_del key st) s" and lim: "\<not> mb_over_limits (estimateSize key value) s"
      by auto
    from shrinks_trans [OF shrinks_del sh] have sh': "shrinks st s" .
    have absent: "key \<notin> set (jm_keys (mb_store s))"
      using shrinks_absent [OF sh, of key] by (simp add: contents_del contents_None)
    from sh' ok have sok: "mb_ok s" and same: "mb_maxEntries s = mb_maxEntries st" "mb_maxSizeBytes s = mb_maxSizeBytes st"
      by (auto simp: shrinks_def same_limits_def)
    have "mb_ok st'" using sok absent
      by (auto simp: st' mb_ok_def mb_insert_def total_size_set dest!: jm_set_in_set)
    moreover have "mb_within st'"
    proof (cases "mb_store s = []")
      case True
      with sok have "mb_currentSizeBytes s = 0" by (simp add: mb_ok_def mb_total_def)
      with True stored(2) same show ?thesis by (simp add: st' mb_within_def mb_insert_def)
    next
      case False
      with lim same show ?thesis by (simp add: st' mb_within_def mb_insert_def mb_over_limits_def length_set [OF absent] le_max_iff_disj)
    qed
    moreover have "mb_contents st' \<subseteq>\<^sub>m (mb_contents st)(key \<mapsto> (value, now + ?t * 1000))"
      using sh' unfolding st' contents_insert shrinks_def map_le_def by auto
    ultimately show ?thesis using stored same by (simp add: same_limits_def st' mb_insert_def)
  qed
qed

lemma mb_write_returns: "[] \<notin> set (jm_keys (mb_store st)) \<Longrightarrow> \<exists>st'. mb_write now key value ttl st = Some st'"
  using evict_while_returns [of "mb_del key st" "estimateSize key value"] keys_del_subset [of key "mb_store st"]
  by (auto simp: mb_write_def)

subsection \<open>Runs against the last write of every key\<close>

text \<open>A cache without limits that never forgets: for every key the last admissible write and its expiry.\<close>

type_synonym last_writes = "string \<Rightarrow> (js16 \<times> rat) option"

definition last_write :: "int \<Rightarrow> rat \<Rightarrow> string \<Rightarrow> js16 \<Rightarrow> rat option \<Rightarrow> last_writes \<Rightarrow> last_writes" where
  "last_write maxSize now key value ttl sp =
     (if expiresImmediately ttl then sp(key := None)
      else if estimateSize key value > maxSize then sp
      else sp(key \<mapsto> (value, now + (case ttl of None \<Rightarrow> DEFAULT_CACHE_TTL_SECONDS | Some t \<Rightarrow> t) * 1000)))"

fun last_batch :: "int \<Rightarrow> rat \<Rightarrow> (string \<times> js16 \<times> js_number option) list \<Rightarrow> last_writes \<Rightarrow> last_writes" where
  "last_batch maxSize now [] sp = sp"
| "last_batch maxSize now ((key, value, t) # es) sp =
     (case resolveCacheTtlSeconds t (Some (Num DEFAULT_CACHE_TTL_SECONDS)) of
        Inl _ \<Rightarrow> sp | Inr ttl \<Rightarrow> last_batch maxSize now es (last_write maxSize now key value ttl sp))"

fun last_step :: "int \<Rightarrow> mb_op \<Rightarrow> last_writes \<Rightarrow> last_writes" where
  "last_step maxSize (OSet now key value t) sp = last_batch maxSize now [(key, value, t)] sp"
| "last_step maxSize (OSetBatch now es) sp = last_batch maxSize now es sp"
| "last_step maxSize (ODel key) sp = sp(key := None)"
| "last_step maxSize (ODelByPattern p) sp =
     (if compileCacheGlob p = None then sp else (\<lambda>k. if matchesGlob p k then None else sp k))"
| "last_step maxSize OClear sp = Map.empty"
| "last_step maxSize _ sp = sp"

definition mb_good :: "int \<Rightarrow> int \<Rightarrow> memory_cache \<Rightarrow> last_writes \<Rightarrow> bool" where
  "mb_good maxEntries maxSize st sp \<longleftrightarrow> mb_maxEntries st = maxEntries \<and> mb_maxSizeBytes st = maxSize \<and>
     mb_ok st \<and> mb_within st \<and> mb_contents st \<subseteq>\<^sub>m sp"

lemma good_shrinks: "mb_good n m st sp \<Longrightarrow> shrinks st st' \<Longrightarrow> mb_contents st' \<subseteq>\<^sub>m sp' \<Longrightarrow> mb_good n m st' sp'"
  using shrinks_within [of st st'] by (auto simp: mb_good_def shrinks_def same_limits_def)

lemma good_keeps: "mb_good n m st sp \<Longrightarrow> shrinks st st' \<Longrightarrow> mb_good n m st' sp"
  by (rule good_shrinks, assumption+) (auto simp: mb_good_def shrinks_def intro: map_le_trans)

lemma map_le_upd: "f \<subseteq>\<^sub>m g \<Longrightarrow> f(k := x) \<subseteq>\<^sub>m g(k := x)"
  by (auto simp: map_le_def)

lemma good_write:
  assumes "mb_good n m st sp" "mb_write now key value ttl st = Some st'"
  shows "mb_good n m st' (last_write m now key value ttl sp)"
proof -
  from assms(1) have g: "mb_ok st" "mb_within st" "mb_maxEntries st = n" "mb_maxSizeBytes st = m" "mb_contents st \<subseteq>\<^sub>m sp"
    by (auto simp: mb_good_def)
  from mb_write_result [OF assms(2) g(1,2)] g show ?thesis
    by (auto simp: mb_good_def same_limits_def last_write_def intro: map_le_trans map_le_upd split: if_splits)
qed

lemma good_batch:
  "mb_good n m st sp \<Longrightarrow> mb_setBatch now es st = Some (st', e) \<Longrightarrow> mb_good n m st' (last_batch m now es sp)"
proof (induction es arbitrary: st sp)
  case (Cons x es)
  obtain key v t where x: "x = (key, v, t)" by (cases x)
  show ?case
  proof (cases "resolveCacheTtlSeconds t (Some (Num DEFAULT_CACHE_TTL_SECONDS))")
    case (Inr ttl)
    with Cons.prems x obtain s where "mb_write now key v ttl st = Some s" "mb_setBatch now es s = Some (st', e)"
      by (auto simp: bind_eq_Some_conv)
    with Cons.IH [OF good_write [OF Cons.prems(1)]] Inr x show ?thesis by simp
  qed (use Cons.prems x in auto)
qed auto

lemma set_is_batch: "mb_set now key value t st = mb_setBatch now [(key, value, t)] st"
  by (auto simp: mb_set_def map_option_case split: sum.splits option.splits)

lemma contents_delByPattern:
  assumes "mb_ok st"
  shows "mb_contents (fst (mb_delByPattern p st)) =
    (if compileCacheGlob p = None then mb_contents st else (\<lambda>k. if matchesGlob p k then None else mb_contents st k))"
proof -
  have m: "mb_contents (fst (delete_matching g s)) = (\<lambda>k. if matchesGlob g k then None else mb_contents s k)" for g s
    by (auto simp: delete_matching_def Let_def contents_fold_del contents_None fun_eq_iff)
  have c: "compileCacheGlob p = Some g \<Longrightarrow> g = p" for g by (simp add: compileCacheGlob_def split: if_splits)
  show ?thesis
  proof (cases "jm_get (mb_globCache st) p")
    case (Some g)
    with assms have "compileCacheGlob p = Some g" by (auto simp: mb_ok_def dest!: map_of_SomeD)
    with Some c show ?thesis by (simp add: mb_delByPattern_def m)
  next
    case None
    then show ?thesis using c
      by (auto simp: mb_delByPattern_def m mb_contents_def split: option.splits)
  qed
qed

lemma good_step:
  assumes "mb_good n m st sp" "mb_step op st = Some st'"
  shows "mb_good n m st' (last_step m op sp)"
proof (cases op)
  case (ODelByPattern p)
  with assms have st': "st' = fst (mb_delByPattern p st)" and ok: "mb_ok st" and le: "mb_contents st \<subseteq>\<^sub>m sp"
    by (auto simp: mb_good_def)
  have "mb_contents st' \<subseteq>\<^sub>m last_step m op sp"
    using le by (auto simp: st' contents_delByPattern [OF ok] ODelByPattern map_le_def)
  with assms(1) shrinks_delByPattern [of st p] show ?thesis unfolding st' by (rule good_shrinks)
next
  case (ODel key)
  with assms have "st' = mb_del key st" "mb_contents st \<subseteq>\<^sub>m sp" by (auto simp: mb_good_def)
  with assms(1) ODel show ?thesis
    by (auto intro!: good_shrinks [OF assms(1)] simp: contents_del map_le_def)
next
  case (OSet now key v t)
  with assms obtain e where "mb_setBatch now [(key, v, t)] st = Some (st', e)" by (auto simp: set_is_batch)
  from good_batch [OF assms(1) this] OSet show ?thesis by simp
next
  case OClear
  with assms show ?thesis
    using good_shrinks [OF assms(1) shrinks_clear, of Map.empty]
    by (auto simp: mb_contents_def mb_clear_def map_le_def dom_def)
qed (use assms good_batch [OF assms(1)] good_keeps [OF assms(1)] shrinks_get shrinks_getWithin shrinks_ttl shrinks_getBatch
     in \<open>auto simp: set_is_batch\<close>)

lemma good_run:
  "mb_good n m st sp \<Longrightarrow> mb_run ops st = Some st' \<Longrightarrow> mb_good n m st' (fold (last_step m) ops sp)"
  by (induction ops arbitrary: st sp) (auto simp: bind_eq_Some_conv dest: good_step)

lemma good_new: "mb_good n m (newMemoryCacheBackend n m) Map.empty"
  by (simp add: mb_good_def newMemoryCacheBackend_def mb_ok_def mb_within_def mb_total_def mb_contents_def map_le_def)

lemmas good_from_new = good_run [OF good_new]

subsection \<open>Runs that return\<close>

fun op_keys :: "mb_op \<Rightarrow> string set" where
  "op_keys (OSet now key value t) = {key}"
| "op_keys (OSetBatch now es) = set (map fst es)"
| "op_keys _ = {}"

lemma keys_of_contents: "k \<in> set (jm_keys (mb_store st)) \<longleftrightarrow> k \<in> dom (mb_contents st)"
  using contents_None [of st k] by (auto simp: dom_def)

lemma shrinks_dom: "shrinks st st' \<Longrightarrow> dom (mb_contents st') \<subseteq> dom (mb_contents st)"
  by (simp add: shrinks_def map_le_implies_dom_le)

lemma write_dom:
  assumes "mb_write now key value ttl st = Some st'"
  shows "dom (mb_contents st') \<subseteq> insert key (dom (mb_contents st))"
proof (cases "expiresImmediately ttl \<or> estimateSize key value > mb_maxSizeBytes st")
  case True
  with assms show ?thesis by (auto simp: mb_write_def contents_del split: if_splits)
next
  case False
  with assms obtain s t where "evict_while (estimateSize key value) (mb_del key st) = Some s" "st' = mb_insert now key value t s"
    by (auto simp: mb_write_def)
  with shrinks_dom [OF shrinks_trans [OF shrinks_del]] evict_while_result show ?thesis
    by (fastforce simp: contents_insert)
qed

lemma batch_returns:
  "[] \<notin> dom (mb_contents st) \<Longrightarrow> [] \<notin> set (map fst es) \<Longrightarrow>
   \<exists>st' e. mb_setBatch now es st = Some (st', e) \<and> [] \<notin> dom (mb_contents st')"
proof (induction es arbitrary: st)
  case (Cons x es)
  obtain key v t where x: "x = (key, v, t)" by (cases x)
  show ?case
  proof (cases "resolveCacheTtlSeconds t (Some (Num DEFAULT_CACHE_TTL_SECONDS))")
    case (Inr ttl)
    from mb_write_returns [of st now key v ttl] Cons.prems(1) obtain s where s: "mb_write now key v ttl st = Some s"
      using keys_of_contents by blast
    from write_dom [OF s] Cons.prems x have "[] \<notin> dom (mb_contents s)" by auto
    from Cons.IH [OF this] Cons.prems s Inr x show ?thesis by simp
  qed (use Cons.prems x in auto)
qed auto

lemma step_returns:
  assumes "[] \<notin> dom (mb_contents st)" "[] \<notin> op_keys op"
  shows "\<exists>st'. mb_step op st = Some st' \<and> [] \<notin> dom (mb_contents st')"
proof -
  have sh: "shrinks st st' \<Longrightarrow> [] \<notin> dom (mb_contents st')" for st' using shrinks_dom assms(1) by blast
  show ?thesis
  proof (cases op)
    case (OSet now key v t)
    from batch_returns [OF assms(1), of "[(key, v, t)]" now] assms(2) OSet show ?thesis
      unfolding OSet mb_step.simps set_is_batch by fastforce
  next
    case (OSetBatch now es)
    from batch_returns [OF assms(1), of es now] assms(2) OSetBatch show ?thesis by fastforce
  qed (use sh shrinks_get shrinks_getWithin shrinks_ttl shrinks_getBatch shrinks_delByPattern shrinks_clear shrinks_del in auto)
qed

lemma run_returns:
  "[] \<notin> dom (mb_contents st) \<Longrightarrow> (\<forall>op \<in> set ops. [] \<notin> op_keys op) \<Longrightarrow> \<exists>st'. mb_run ops st = Some st'"
proof (induction ops arbitrary: st)
  case (Cons op ops)
  from step_returns [OF Cons.prems(1), of op] Cons.prems(2) obtain s
    where "mb_step op st = Some s" "[] \<notin> dom (mb_contents s)" by auto
  with Cons.IH [of s] Cons.prems(2) show ?case by simp
qed simp

lemma hang_example:
  assumes "int (length v) \<le> m" "estimateSize k w \<le> m" "k \<noteq> []" "n \<le> 1"
  shows "mb_run [OSet t [] v None, OSet u k w None] (newMemoryCacheBackend n m) = None"
proof -
  let ?e = "\<lparr>me_value = v, me_expiresAt = t + 300000, me_sizeBytes = int (length v)\<rparr>"
  let ?s = "(newMemoryCacheBackend n m)\<lparr>mb_currentSizeBytes := int (length v), mb_store := [([], ?e)]\<rparr>"
  have first: "mb_set t [] v None (newMemoryCacheBackend n m) = Some (?s, None)"
    using assms(1)
    by (simp add: mb_set_def mb_write_def expiresImmediately_def estimateSize_def newMemoryCacheBackend_def mb_del_def
        evict_while.simps mb_over_limits_def mb_insert_def)
  have stuck: "evict_while (estimateSize k w) ?s = None"
    by (rule evict_while_stuck) (use assms(4) in \<open>simp_all add: mb_over_limits_def newMemoryCacheBackend_def\<close>)
  have "mb_del k ?s = ?s" using assms(3) by (simp add: mb_del_def)
  with stuck have second: "mb_set u k w None ?s = None"
    using assms(2) by (simp add: mb_set_def mb_write_def expiresImmediately_def newMemoryCacheBackend_def)
  show ?thesis by (simp add: first second)
qed

subsection \<open>Properties\<close>

text \<open>C23: After any sequence of operations the memory backend holds each key once, its size counter is the exact
  sum of the lengths of the keys and values it holds, and it is within its limits: at most \<open>maxEntries\<close> entries
  (one, if the limit is lower) and at most \<open>maxSizeBytes\<close>.\<close>

theorem memory_backend_keeps_limits:
  "mb_run ops (newMemoryCacheBackend n m) = Some st \<Longrightarrow>
   distinct (jm_keys (mb_store st)) \<and>
   mb_sizeBytes st = sum_list (map (\<lambda>(k, e). int (length k) + int (length (me_value e))) (mb_store st)) \<and>
   mb_sizeBytes st \<le> max 0 m \<and> int (mb_size st) \<le> max 1 n"
proof -
  assume "mb_run ops (newMemoryCacheBackend n m) = Some st"
  from good_from_new [OF this] have g: "mb_ok st" "mb_within st" "mb_maxEntries st = n" "mb_maxSizeBytes st = m"
    by (auto simp: mb_good_def)
  then have "mb_total (mb_store st) = sum_list (map (\<lambda>(k, e). int (length k) + int (length (me_value e))) (mb_store st))"
    unfolding mb_total_def mb_ok_def by (intro arg_cong [where f = sum_list] map_cong) (auto simp: estimateSize_def)
  with g show ?thesis by (simp add: mb_ok_def mb_within_def jm_ok_def mb_sizeBytes_def mb_size_def)
qed

theorem memory_backend_keeps_limits_witness:
  "\<exists>st. mb_run [OSet 0 ''a'' [1, 2] None, OSet 5 ''b'' [3] None] (newMemoryCacheBackend 1 9) = Some st \<and> mb_sizeBytes st = 2 \<and>
     int (mb_size st) \<le> max 1 1"
proof -
  have run: "mb_run [OSet 0 ''a'' [1, 2] None, OSet 5 ''b'' [3] None] (newMemoryCacheBackend 1 9) =
    Some \<lparr>mb_store = [(''b'', \<lparr>me_value = [3], me_expiresAt = 300005, me_sizeBytes = 2\<rparr>)], mb_globCache = [],
       mb_maxEntries = 1, mb_maxSizeBytes = 9, mb_currentSizeBytes = 2\<rparr>"
    by (simp add: mb_set_def mb_write_def expiresImmediately_def estimateSize_def newMemoryCacheBackend_def mb_del_def
        evict_while.simps mb_over_limits_def mb_insert_def evictOldest_def)
  from memory_backend_keeps_limits [OF run] run show ?thesis by (simp add: mb_sizeBytes_def)
qed

text \<open>C24: A read of the memory backend gives nothing but the last admissible write of its key, and only until that
  write expires, after any sequence of writes, batches, deletions, deletions by pattern and reads. A write with a
  lifetime of zero or less counts as a deletion, a write beyond the size limit and one with an invalid lifetime do
  not take effect.\<close>

theorem memory_backend_serves_last_write:
  assumes "mb_run ops (newMemoryCacheBackend n m) = Some st" "snd (mb_get now key st) = Some v"
  shows "\<exists>expiry. fold (last_step m) ops Map.empty key = Some (v, expiry) \<and> now \<le> expiry"
proof -
  from good_from_new [OF assms(1)] have "mb_contents st \<subseteq>\<^sub>m fold (last_step m) ops Map.empty" by (simp add: mb_good_def)
  moreover from assms(2) obtain e where "mb_contents st key = Some (v, e)" "now \<le> e"
    by (auto simp: mb_get_def mb_contents_def split: option.splits if_splits)
  ultimately show ?thesis by (force simp: map_le_def)
qed

theorem memory_backend_serves_last_write_witness:
  "\<exists>expiry. fold (last_step 9) [OSet 0 ''a'' [1] None, OSet 5 ''a'' [2] None] Map.empty ''a'' = Some ([2], expiry) \<and>
     300004 \<le> expiry"
proof -
  have run: "mb_run [OSet 0 ''a'' [1] None, OSet 5 ''a'' [2] None] (newMemoryCacheBackend 4 9) =
    Some \<lparr>mb_store = [(''a'', \<lparr>me_value = [2], me_expiresAt = 300005, me_sizeBytes = 2\<rparr>)], mb_globCache = [],
       mb_maxEntries = 4, mb_maxSizeBytes = 9, mb_currentSizeBytes = 2\<rparr>"
    by (simp add: mb_set_def mb_write_def expiresImmediately_def estimateSize_def newMemoryCacheBackend_def mb_del_def
        evict_while.simps mb_over_limits_def mb_insert_def)
  show ?thesis by (rule memory_backend_serves_last_write [OF run]) (simp add: mb_get_def)
qed

text \<open>C25: Every sequence of operations returns when no write has the empty key. With the empty key as the oldest
  entry the eviction loop of the next write that needs room never ends: two writes into a backend of one entry
  suffice.\<close>

theorem memory_backend_returns_unless_empty_key:
  "((\<forall>op \<in> set ops. [] \<notin> op_keys op) \<longrightarrow> (\<exists>st. mb_run ops (newMemoryCacheBackend n m) = Some st)) \<and>
   (int (length v) \<le> m \<and> estimateSize k w \<le> m \<and> k \<noteq> [] \<longrightarrow>
    mb_run [OSet t [] v None, OSet u k w None] (newMemoryCacheBackend 1 m) = None)"
proof -
  have e: "[] \<notin> dom (mb_contents (newMemoryCacheBackend n m))"
    by (simp add: mb_contents_def newMemoryCacheBackend_def dom_def)
  show ?thesis using run_returns [OF e] hang_example [of v m k w 1 t u] by blast
qed

theorem memory_backend_returns_unless_empty_key_witness:
  "(\<exists>st. mb_run [OSet 0 ''a'' [1] None, OGet 3 ''a''] (newMemoryCacheBackend 1 5) = Some st) \<and>
   mb_run [OSet 0 [] [1] None, OSet 3 ''b'' [2] None] (newMemoryCacheBackend 1 5) = None"
  using memory_backend_returns_unless_empty_key [of "[OSet 0 ''a'' [1] None, OGet 3 ''a'']" 1 5 "[1]" "''b''" "[2]" 0 3]
  by (simp add: estimateSize_def)

text \<open>A bounded read gives the value an ordinary read gives when its UTF-8 encoding has at most the given number
  of bytes, and fails otherwise; the two checks on the length and on the counted bytes amount to that one. An
  invalid limit fails without touching the cache.\<close>

theorem bounded_read_is_exact:
  "mb_getWithinLimit now key limit st =
     (case assertCacheReadMaximumBytes limit of
        Inl e \<Rightarrow> (st, Inl e)
      | Inr n \<Rightarrow> (fst (mb_get now key st),
          case snd (mb_get now key st) of
            None \<Rightarrow> Inr None
          | Some v \<Rightarrow> if length (utf8_bytes v) \<le> n then Inr (Some v) else Inl (ValueTooLarge n)))"
proof (cases "assertCacheReadMaximumBytes limit")
  case (Inr n)
  have "assertCacheValueWithinLimit v n =
    (if length (utf8_bytes v) \<le> n then Inr (length (utf8_bytes v)) else Inl (ValueTooLarge n))" for v
    using units_le_bytes [of v] by (auto simp: assertCacheValueWithinLimit_def utf8ByteLength_def utf8_loop_bounded Let_def)
  with Inr show ?thesis by (auto simp: mb_getWithinLimit_def split: prod.splits option.splits)
qed (simp add: mb_getWithinLimit_def)

text \<open>Deleting by a pattern that is a prefix and a star, as invalidation by prefix does.\<close>

lemma delete_by_prefix_exact:
  assumes "mb_ok st" "CHR ''*'' \<notin> set q" "CHR ''?'' \<notin> set q" "\<forall>k \<in> dom (mb_contents st). CHR ''*'' \<notin> set k"
  shows "mb_contents (fst (mb_delByPattern (q @ ''*'') st)) = (\<lambda>k. if prefix q k then None else mb_contents st k)"
proof -
  have "filter (\<lambda>c. c = CHR ''*'' \<or> c = CHR ''?'') q = []" using assms(2,3) by (auto simp: filter_empty_conv)
  then have c: "compileCacheGlob (q @ ''*'') \<noteq> None"
    by (simp add: compileCacheGlob_def wildcardCount_def MAX_CACHE_GLOB_WILDCARDS_def)
  have "mb_contents st k = None \<or> (matchesGlob (q @ ''*'') k \<longleftrightarrow> prefix q k)" for k
    using assms(4) language_prefix_star [OF assms(2,3), of k] matchesGlob_sound [of "q @ ''*''" k] matchesGlob_complete [of k "q @ ''*''"] by blast
  then have "(if matchesGlob (q @ ''*'') k then None else mb_contents st k) = (if prefix q k then None else mb_contents st k)" for k
    by (metis (full_types))
  then show ?thesis unfolding contents_delByPattern [OF assms(1)] using c by auto
qed

end
