(* ===== verification/RepositorySafety.thy ===== *)
theory RepositorySafety
  imports CacheRepository MultiTierSafety MemoryBackendSafety
begin

text \<open>
  The multi-tier repository over a memory backend: both of its tiers satisfy the contract of \<open>MultiTierSafety\<close>, so
  a repository whose operations do not overlap serves nothing but the last write of a key. When a backfill is still
  under way it may overwrite a newer value.
\<close>

subsection \<open>The tiers\<close>

definition store_view :: "'v timed_store \<Rightarrow> string \<Rightarrow> ('v \<times> rat) option" where
  "store_view s k = map_option (\<lambda>e. (te_value e, te_expiresAt e)) (jm_get s k)"

text \<open>The writes a memory backend of \<open>m\<close> bytes accepts.\<close>

definition backend_fits :: "int \<Rightarrow> string \<Rightarrow> js16 \<Rightarrow> rat \<Rightarrow> bool" where
  "backend_fits m k v ttl \<longleftrightarrow> k \<noteq> [] \<and> estimateSize k v \<le> m \<and> ttl \<le> MAX_CACHE_TTL_SECONDS"

definition backend_ok :: "int \<Rightarrow> memory_cache \<Rightarrow> bool" where
  "backend_ok m st \<longleftrightarrow> mb_ok st \<and> mb_within st \<and> mb_maxSizeBytes st = m \<and> [] \<notin> dom (mb_contents st)"

lemma store_view_del: "store_view (jm_del k s) = (store_view s)(k := None)"
  by (auto simp: store_view_def jsmap_simps fun_eq_iff)

lemma store_view_make_room: "store_view (store_make_room n k s) \<subseteq>\<^sub>m store_view s"
  by (auto simp: store_make_room_def store_view_del map_le_def split: list.splits)

lemma store_view_set:
  "store_view (store_set n now k v ttl s) \<subseteq>\<^sub>m (store_view s)(k \<mapsto> (v, now + ttl * 1000))"
proof -
  have "store_view (store_set n now k v ttl s) = (store_view (store_make_room n k s))(k \<mapsto> (v, now + ttl * 1000))"
    by (auto simp: store_set_def store_view_def jsmap_simps fun_eq_iff)
  then show ?thesis using map_le_upd [OF store_view_make_room] by simp
qed

lemma memory_get_law:
  "tier_get (memoryTier n) now k s = (s', r) \<Longrightarrow>
   True \<and> store_view s' \<subseteq>\<^sub>m store_view s \<and> (\<forall>v. r = Some (Some v) \<longrightarrow> (\<exists>e. store_view s k = Some (v, e) \<and> now \<le> e))"
  by (auto simp: memoryTier_def store_get_def store_view_del map_le_def store_view_def split: option.splits if_splits)

interpretation memory_tier: sound_tier "Some (memoryTier n)" "\<lambda>_. True" store_view fits for n fits
proof
  show "True \<and> store_view s' \<subseteq>\<^sub>m store_view s \<and> (\<forall>(k, v) \<in> set hits. \<exists>e. store_view s k = Some (v, e) \<and> now \<le> e)"
    if "getBatchFromTier (Some (memoryTier n)) now ks s = (s', hits)" for s now ks s' hits
    by (rule batch_law_from_get [of "\<lambda>_. True" "memoryTier n", OF memory_get_law _ _ that]) (simp_all add: memoryTier_def)
  show "True \<and> store_view s' \<subseteq>\<^sub>m store_view s \<and> (\<forall>v. r = Some v \<longrightarrow> (\<exists>e. store_view s k = Some (v, e) \<and> now \<le> e))"
    if "getFromTier (Some (memoryTier n)) now k s = (s', r)" for s now k s' r
    using that memory_get_law [of n now k s] by (auto simp: getFromTier_def split: prod.splits option.splits)
  show "True \<and> store_view s' \<subseteq>\<^sub>m store_view s \<and>
      (\<forall>x. answer = Some (Some x) \<longrightarrow> (\<exists>v e. store_view s k = Some (v, e) \<and> x = Num ((e - now) / 1000)))"
    if "ask_ttl (Some (memoryTier n)) now k s = (s', answer)" for s now k s' answer
    using that
    by (auto simp: ask_ttl_def memoryTier_def store_ttl_def Let_def store_view_del map_le_def store_view_def
        split: option.splits if_splits)
qed (simp_all add: set_if_def outcome_of_def delete_if_def memoryTier_def store_view_set store_view_del)

lemma backend_shrinks: "backend_ok m st \<Longrightarrow> shrinks st st' \<Longrightarrow> backend_ok m st' \<and> mb_contents st' \<subseteq>\<^sub>m mb_contents st"
  using shrinks_within [of st st'] shrinks_dom [of st st'] unfolding backend_ok_def
  by (auto simp: shrinks_def same_limits_def)

lemma backend_get_law:
  assumes "backend_ok m st" "tier_get backendTier now k st = (st', r)"
  shows "backend_ok m st' \<and> mb_contents st' \<subseteq>\<^sub>m mb_contents st \<and>
    (\<forall>v. r = Some (Some v) \<longrightarrow> (\<exists>e. mb_contents st k = Some (v, e) \<and> now \<le> e))"
proof -
  from assms(2) have "st' = fst (mb_get now k st)" and r: "r = Some (snd (mb_get now k st))"
    by (auto simp: backendTier_def split: prod.splits)
  with backend_shrinks [OF assms(1) shrinks_get] show ?thesis
    by (auto simp: mb_get_def mb_contents_def split: option.splits if_splits)
qed

lemma backend_set_law:
  assumes "backend_ok m st" "backend_fits m k v ttl"
  shows "\<exists>st'. adapt_set now k v ttl st = (st', SetFulfilled) \<and> backend_ok m st' \<and>
    mb_contents st' \<subseteq>\<^sub>m (mb_contents st)(k \<mapsto> (v, now + ttl * 1000))"
proof -
  from assms have g: "mb_ok st" "mb_within st" "mb_maxSizeBytes st = m" "[] \<notin> dom (mb_contents st)"
    and f: "k \<noteq> []" "estimateSize k v \<le> m" "ttl \<le> MAX_CACHE_TTL_SECONDS" by (auto simp: backend_ok_def backend_fits_def)
  from mb_write_returns [of st now k v "Some ttl"] g(4) obtain st' where w: "mb_write now k v (Some ttl) st = Some st'"
    using keys_of_contents by blast
  note res = mb_write_result [OF w g(1,2)]
  have "mb_set now k v (Some (Num ttl)) st = Some (st', None)" using f(3) w
    by (simp add: mb_set_def resolveCacheTtlSeconds_def)
  then have a: "adapt_set now k v ttl st = (st', SetFulfilled)" by (simp add: adapt_set_def)
  have "[] \<notin> dom (mb_contents st')" using write_dom [OF w] g(4) f(1) by auto
  moreover have "mb_contents st' \<subseteq>\<^sub>m (mb_contents st)(k \<mapsto> (v, now + ttl * 1000))"
    using res f(2) g(3) by (auto simp: map_le_def split: if_splits)
  ultimately show ?thesis using a res g(3) by (auto simp: backend_ok_def same_limits_def)
qed

interpretation backend_tier: sound_tier "Some backendTier" "backend_ok m" mb_contents "backend_fits m" for m
proof
  fix s now k s'
  assume ok: "backend_ok m s"
  show "backend_ok m s' \<and> mb_contents s' \<subseteq>\<^sub>m mb_contents s \<and> (\<forall>(k, v) \<in> set hits. \<exists>e. mb_contents s k = Some (v, e) \<and> now \<le> e)"
    if "getBatchFromTier (Some backendTier) now ks s = (s', hits)" for ks hits
    by (rule batch_law_from_get [of "backend_ok m" backendTier, OF backend_get_law _ ok that]) (simp_all add: backendTier_def)
  show "backend_ok m s' \<and> mb_contents s' \<subseteq>\<^sub>m mb_contents s \<and> (\<forall>v. r = Some v \<longrightarrow> (\<exists>e. mb_contents s k = Some (v, e) \<and> now \<le> e))"
    if "getFromTier (Some backendTier) now k s = (s', r)" for r
    using that backend_get_law [OF ok, of now k] by (auto simp: getFromTier_def split: prod.splits option.splits)
  show "backend_ok m s' \<and> mb_contents s' \<subseteq>\<^sub>m mb_contents s \<and>
      (\<forall>x. answer = Some (Some x) \<longrightarrow> (\<exists>v e. mb_contents s k = Some (v, e) \<and> x = Num ((e - now) / 1000)))"
    if "ask_ttl (Some backendTier) now k s = (s', answer)" for answer
    using that backend_shrinks [OF ok shrinks_ttl [of s now k]]
    by (auto simp: ask_ttl_def backendTier_def mb_getRemainingTtlSeconds_def Let_def mb_contents_def
        split: option.splits if_splits prod.splits)
  show "backend_ok m (set_if (Some backendTier) now k v ttl s) \<and>
      mb_contents (set_if (Some backendTier) now k v ttl s) \<subseteq>\<^sub>m (mb_contents s)(k \<mapsto> (v, now + ttl * 1000)) \<and>
      outcome_of (Some backendTier) now k v ttl s = SetFulfilled"
    if "backend_fits m k v ttl" for v ttl
    using backend_set_law [OF ok that, of now] by (auto simp: set_if_def outcome_of_def backendTier_def)
  show "backend_ok m (fst (delete_if (Some backendTier) k s)) \<and>
      mb_contents (fst (delete_if (Some backendTier) k s)) \<subseteq>\<^sub>m (mb_contents s)(k := None) \<and>
      snd (delete_if (Some backendTier) k s) = []"
    using backend_shrinks [OF ok shrinks_del [of s k]] by (simp add: delete_if_def backendTier_def contents_del)
qed (auto simp: backendTier_def)

interpretation tiered: sound_tiers "tiered_config n d" "\<lambda>_. True" store_view "\<lambda>_. True" "\<lambda>_. Map.empty"
    "backend_ok m" mb_contents "backend_fits m" for n d m
proof -
  have "sound_tiers_axioms (backend_fits m)" by unfold_locales (auto simp: backend_fits_def)
  then show "sound_tiers (tiered_config n d) (\<lambda>_. True) store_view (\<lambda>_. True) (\<lambda>_. Map.empty)
      (backend_ok m) mb_contents (backend_fits m)"
    unfolding sound_tiers_def
    by (simp add: tiered_config_def memory_tier.sound_tier_axioms no_tier.sound_tier_axioms backend_tier.sound_tier_axioms)
qed

subsection \<open>Runs of the repository\<close>

datatype repository_op =
  RGet rat string | RSet rat string js16 "rat option" | RDelete string | RDeleteByPrefix string | RClear

text \<open>One operation, with the backfills it started finished before the next.\<close>

fun repository_step :: "int \<Rightarrow> rat \<Rightarrow> repository_context \<Rightarrow> repository_op \<Rightarrow> tiered \<Rightarrow> tiered" where
  "repository_step n d x (RGet now key) st = finish_jobs (tiered_config n d) now (fst (tr_get n d x now key st))"
| "repository_step n d x (RSet now key v ttl) st = fst (tr_set n d x now key v ttl st)"
| "repository_step n d x (RDelete key) st = fst (tr_delete n d x key st)"
| "repository_step n d x (RDeleteByPrefix p) st = fst (tr_deleteByPrefix x p st)"
| "repository_step n d x RClear st = tr_clear x st"

text \<open>The last write of every scoped key, with the time it expires.\<close>

fun repository_last :: "rat \<Rightarrow> repository_context \<Rightarrow> repository_op \<Rightarrow> last_writes \<Rightarrow> last_writes" where
  "repository_last d x (RGet now key) sp = sp"
| "repository_last d x (RSet now key v ttl) sp =
     sp(buildScopedKey x key \<mapsto> (v, now + (case ttl of None \<Rightarrow> d | Some t \<Rightarrow> t) * 1000))"
| "repository_last d x (RDelete key) sp = sp(buildScopedKey x key := None)"
| "repository_last d x (RDeleteByPrefix p) sp = (\<lambda>k. if starts_with k (buildScopedKey x p) then None else sp k)"
| "repository_last d x RClear sp = (\<lambda>k. if starts_with k (scope_prefix x) then None else sp k)"

definition no_wildcards :: "string \<Rightarrow> bool" where
  "no_wildcards s \<longleftrightarrow> CHR ''*'' \<notin> set s \<and> CHR ''?'' \<notin> set s"

text \<open>Writes the backend accepts, and keys and prefixes without wildcards.\<close>

fun repository_op_ok :: "int \<Rightarrow> rat \<Rightarrow> repository_context \<Rightarrow> repository_op \<Rightarrow> bool" where
  "repository_op_ok m d x (RSet now key v ttl) \<longleftrightarrow> no_wildcards key \<and> estimateSize (buildScopedKey x key) v \<le> m \<and>
     (case ttl of None \<Rightarrow> True | Some t \<Rightarrow> t \<le> MAX_CACHE_TTL_SECONDS)"
| "repository_op_ok m d x (RDeleteByPrefix p) \<longleftrightarrow> no_wildcards p"
| "repository_op_ok m d x _ \<longleftrightarrow> True"

abbreviation tiered_ok :: "int \<Rightarrow> rat \<Rightarrow> last_writes \<Rightarrow> tiered \<Rightarrow> bool" where
  "tiered_ok m d \<equiv> tiers_coherent (\<lambda>_. True) store_view (\<lambda>_. True) (\<lambda>_. Map.empty) (backend_ok m) mb_contents
     (\<lambda>k v. backend_fits m k v d)"

definition repository_inv :: "int \<Rightarrow> int \<Rightarrow> rat \<Rightarrow> last_writes \<Rightarrow> tiered \<Rightarrow> bool" where
  "repository_inv m n d sp st \<longleftrightarrow> tiered_ok m d sp st \<and> ms_jobs st = [] \<and> (\<forall>k \<in> dom sp. CHR ''*'' \<notin> set k)"

lemma inv_parts:
  "repository_inv m n d sp st \<Longrightarrow> tiered_ok m d sp st" "repository_inv m n d sp st \<Longrightarrow> ms_jobs st = []"
  "repository_inv m n d sp st \<Longrightarrow> k \<in> dom sp \<Longrightarrow> CHR ''*'' \<notin> set k"
  by (simp_all add: repository_inv_def)

lemma default_ttl [simp]: "cf_defaultTtlSeconds (tiered_config n d) = d"
  by (simp add: tiered_config_def)

lemmas tiered_facts =
  tiered.coherent_get [where n = n and d = d, unfolded default_ttl] tiered.coherent_finish [where n = n and d = d, unfolded default_ttl]
  tiered.coherent_set [where n = n and d = d, unfolded default_ttl] tiered.coherent_delete [where n = n and d = d, unfolded default_ttl] for n d

lemma scoped_key_nonempty [simp]: "buildScopedKey x key \<noteq> []"
  by (simp add: buildScopedKey_def scope_prefix_def)

lemma no_wildcards_append: "no_wildcards (s @ t) \<longleftrightarrow> no_wildcards s \<and> no_wildcards t"
  by (auto simp: no_wildcards_def)

lemma store_view_prefix: "store_view (store_deleteByPrefix p s) = (\<lambda>k. if starts_with k p then None else store_view s k)"
proof -
  have "jm_get (store_deleteByPrefix p s) k = (if starts_with k p then None else jm_get s k)" for k
    unfolding store_deleteByPrefix_def by (induction s) auto
  then show ?thesis by (auto simp: store_view_def fun_eq_iff)
qed

lemma wipe_twice [simp]: "store_deleteByPrefix p (store_deleteByPrefix p s) = store_deleteByPrefix p s"
  by (simp add: store_deleteByPrefix_def)

lemma below_empty [simp]: "below Map.empty sp"
  by (simp add: below_def)

lemma below_cut: "below V sp \<Longrightarrow> below (\<lambda>k. if P k then None else V k) (\<lambda>k. if P k then None else sp k)"
  by (simp add: below_def)

lemma inv_drop_prefix:
  assumes "repository_inv m n d sp st" "no_wildcards p"
  shows "repository_inv m n d (\<lambda>k. if starts_with k p then None else sp k) (fst (tr_drop_prefix p st))"
proof -
  let ?cut = "\<lambda>f k. if starts_with k p then None else f k"
  from assms(1) have ok: "backend_ok m (ms_l3 st)" and b1: "below (store_view (ms_l1 st)) sp" and b3: "below (mb_contents (ms_l3 st)) sp"
    and star: "\<forall>k \<in> dom sp. CHR ''*'' \<notin> set k" and fit: "\<forall>k v e. sp k = Some (v, e) \<longrightarrow> backend_fits m k v d"
    by (auto simp: repository_inv_def tiers_coherent_def)
  have "\<forall>k \<in> dom (mb_contents (ms_l3 st)). CHR ''*'' \<notin> set k"
    using b3 star by (fastforce simp: below_def)
  from delete_by_prefix_exact [OF _ _ _ this, of p] ok assms(2)
  have c: "mb_contents (fst (mb_delByPattern (p @ ''*'') (ms_l3 st))) = ?cut (mb_contents (ms_l3 st))"
    by (simp add: backend_ok_def no_wildcards_def)
  have "backend_ok m (fst (mb_delByPattern (p @ ''*'') (ms_l3 st)))" using backend_shrinks [OF ok shrinks_delByPattern] by blast
  moreover note below_cut [OF b1, of "\<lambda>k. starts_with k p"] below_cut [OF b3, of "\<lambda>k. starts_with k p"]
  moreover obtain s3 deleted where del: "mb_delByPattern (p @ ''*'') (ms_l3 st) = (s3, deleted)" by fastforce
  ultimately show ?thesis using assms(1) star fit c
    by (auto simp: repository_inv_def tiers_coherent_def tr_drop_prefix_def delete_l3_def wipe_l1_def store_view_prefix del
        dom_def split: if_splits)
qed

lemma repository_inv_step:
  assumes "repository_inv m n d sp st" "no_wildcards (scope_prefix x)" "d \<le> MAX_CACHE_TTL_SECONDS" "repository_op_ok m d x op"
  shows "repository_inv m n d (repository_last d x op sp) (repository_step n d x op st)"
proof (cases op)
  case (RGet now key)
  obtain st1 r where g: "mt_get (tiered_config n d) now (buildScopedKey x key) st = (st1, r)" by fastforce
  note got = tiered_facts(1) [OF inv_parts(1,2) [OF assms(1)] g]
  from tiered_facts(2) [OF conjunct1 [OF got] conjunct1 [OF conjunct2 [OF got]], of n now] assms(1) RGet g show ?thesis
    by (simp add: repository_inv_def tr_get_def)
next
  case (RSet now key v ttl)
  obtain st1 r where g: "mt_set (tiered_config n d) now (buildScopedKey x key) v ttl st = (st1, r)" by fastforce
  let ?t = "case ttl of None \<Rightarrow> d | Some t \<Rightarrow> t" and ?k = "buildScopedKey x key"
  from assms(2,4) RSet have "no_wildcards ?k" by (simp add: buildScopedKey_def no_wildcards_append)
  moreover from assms RSet have "backend_fits m ?k v ?t" "backend_fits m ?k v d"
    by (auto simp: backend_fits_def split: option.splits)
  ultimately show ?thesis using tiered_facts(3) [OF inv_parts(1) [OF assms(1)] _ _ g refl] assms(1) RSet g
    by (auto simp: repository_inv_def tr_set_def no_wildcards_def)
next
  case (RDelete key)
  obtain st1 r where g: "mt_delete (tiered_config n d) (buildScopedKey x key) st = (st1, r)" by fastforce
  from tiered_facts(4) [OF inv_parts(1) [OF assms(1)] g] assms(1) RDelete g show ?thesis
    by (auto simp: repository_inv_def tr_delete_def)
next
  case (RDeleteByPrefix p)
  with inv_drop_prefix [OF assms(1), of "buildScopedKey x p"] assms(2,4) show ?thesis
    by (simp add: tr_deleteByPrefix_def buildScopedKey_def no_wildcards_append)
next
  case RClear
  with inv_drop_prefix [OF assms(1,2)] show ?thesis by (simp add: tr_clear_def)
qed

lemma repository_inv_run:
  "repository_inv m n d sp st \<Longrightarrow> no_wildcards (scope_prefix x) \<Longrightarrow> d \<le> MAX_CACHE_TTL_SECONDS \<Longrightarrow>
   \<forall>op \<in> set ops. repository_op_ok m d x op \<Longrightarrow>
   repository_inv m n d (fold (repository_last d x) ops sp) (fold (repository_step n d x) ops st)"
  by (induction ops arbitrary: sp st) (auto dest: repository_inv_step)

definition new_repository :: "int \<Rightarrow> int \<Rightarrow> tiered" where
  "new_repository maxEntries m = newMultiTierCache [] () (newMemoryCacheBackend maxEntries m)"

lemma inv_new: "repository_inv m n d Map.empty (new_repository maxEntries m)"
  using good_new [of maxEntries m]
  by (auto simp: repository_inv_def tiers_coherent_def new_repository_def newMultiTierCache_def below_def store_view_def
      backend_ok_def mb_good_def newMemoryCacheBackend_def mb_contents_def dom_def)

text \<open>C26: A multi-tier repository over a memory backend, used by operations that do not overlap and with every backfill
  finished before the next operation, gives back nothing but the last write of a key and only until that write expires:
  the first tier never holds a value that was overwritten, deleted or deleted by prefix, and a backfill never extends a
  lifetime. The writes must fit the backend, and keys, prefixes and the scope must not contain the wildcards of
  the backend's patterns. What happens when a write overtakes a backfill is the next theorem.\<close>

theorem repository_serves_last_write:
  assumes "no_wildcards (scope_prefix x)" "d \<le> MAX_CACHE_TTL_SECONDS" "\<forall>op \<in> set ops. repository_op_ok m d x op"
    and "snd (tr_get n d x now key (fold (repository_step n d x) ops (new_repository maxEntries m))) = Some v"
  shows "\<exists>expiry. fold (repository_last d x) ops Map.empty (buildScopedKey x key) = Some (v, expiry) \<and> now \<le> expiry"
proof -
  let ?st = "fold (repository_step n d x) ops (new_repository maxEntries m)"
  note inv = repository_inv_run [OF inv_new assms(1-3), of n maxEntries]
  obtain st1 r where g: "mt_get (tiered_config n d) now (buildScopedKey x key) ?st = (st1, r)" by fastforce
  with assms(4) have "r = Some v" by (simp add: tr_get_def)
  with tiered_facts(1) [OF inv_parts(1,2) [OF inv] g] show ?thesis by simp
qed

definition demo_context :: repository_context where
  "demo_context = \<lparr>rx_projectId = ''p'', rx_environment = ''e'', rx_versionId = ''v''\<rparr>"

theorem repository_serves_last_write_witness:
  "\<exists>expiry. fold (repository_last 300 demo_context) [RSet 0 ''a'' [7] None, RSet 1 ''b'' [8] None]
     Map.empty (buildScopedKey demo_context ''a'') = Some ([7], expiry) \<and> 3 \<le> expiry"
proof (rule repository_serves_last_write [where n = 1 and m = 50 and maxEntries = 9])
  show "no_wildcards (scope_prefix demo_context)" by code_simp
  show "(300 :: rat) \<le> MAX_CACHE_TTL_SECONDS" by code_simp
  show "\<forall>op \<in> set [RSet 0 ''a'' [7] None, RSet 1 ''b'' [8] None]. repository_op_ok 50 300 demo_context op"
    by code_simp
  show "snd (tr_get 1 300 demo_context 3 ''a'' (fold (repository_step 1 300 demo_context)
    [RSet 0 ''a'' [7] None, RSet 1 ''b'' [8] None] (new_repository 9 50))) = Some [7]"
    by (simp add: new_repository_def newMultiTierCache_def newMemoryCacheBackend_def tr_get_def tr_set_def mt_get_def mt_set_def
        Let_def getFromTier_def tiered_config_def memoryTier_def backendTier_def store_get_def store_ttl_def store_set_def
        store_make_room_def mb_get_def mb_set_def mb_write_def mb_del_def mb_insert_def evict_while.simps mb_over_limits_def
        estimateSize_def expiresImmediately_def set_if_def outcome_of_def adapt_set_def backfill_def reports_ttl_def
        buildScopedKey_def scope_prefix_def demo_context_def zero_stats_def resolveCacheTtlSeconds_def MAX_CACHE_TTL_SECONDS_def)
qed

text \<open>C27: A backfill that is still under way overwrites a newer value. A read that finds a value in the third tier
  starts a backfill; if a write of the key is fulfilled after the source has answered and before the backfill
  writes, then the third tier holds the new value and the first tier the old one, and reads give the old value.\<close>

theorem late_backfill_overwrites_newer_write:
  fixes st0 :: tiered
  assumes "ms_l1 st0 = []" "ms_jobs st0 = []" "backend_ok m (ms_l3 st0)"
    and "mb_contents (ms_l3 st0) (buildScopedKey x key) = Some (v, e)" "now < e" "0 < d"
    and "backend_fits m (buildScopedKey x key) w ttl"
    and "st1 = job_answered (tiered_config n d) now 0 (fst (tr_get n d x now key st0))"
    and "st2 = job_continues (tiered_config n d) now 0 (fst (tr_set n d x now key w (Some ttl) st1))"
  shows "snd (tr_get n d x now key st0) = Some v \<and> snd (tr_set n d x now key w (Some ttl) st1) = SetFulfilled \<and>
    mb_contents (ms_l3 st2) (buildScopedKey x key) \<in> {Some (w, now + ttl * 1000), None} \<and>
    snd (tr_get n d x now key st2) = Some v"
proof -
  let ?k = "buildScopedKey x key" and ?c = "tiered_config n d"
  from assms(4) obtain en where en: "jm_get (mb_store (ms_l3 st0)) ?k = Some en" "me_value en = v" "me_expiresAt en = e"
    by (auto simp: mb_contents_def)
  let ?j = "\<lparr>bj_key = ?k, bj_value = v, bj_source = FromL3, bj_stage = AwaitingTtl\<rparr>"
  obtain stats where g: "tr_get n d x now key st0 = (st0\<lparr>ms_stats := stats, ms_jobs := [?j]\<rparr>, Some v)"
    using assms(1,2,5) en
    by (cases st0) (auto simp: tr_get_def mt_get_def Let_def getFromTier_def tiered_config_def memoryTier_def store_get_def
        backendTier_def mb_get_def backfill_def reports_ttl_def)
  then have s1: "st1 = st0\<lparr>ms_stats := stats, ms_jobs := [?j\<lparr>bj_stage := TtlAnswered (Some (Some (Num ((e - now) / 1000))))\<rparr>]\<rparr>"
    using assms(5) en
    by (simp add: assms(8) job_answered_def Let_def ask_ttl_def tiered_config_def backendTier_def mb_getRemainingTtlSeconds_def)
  from backend_set_law [OF assms(3,7), of now] obtain b where b: "adapt_set now ?k w ttl (ms_l3 st0) = (b, SetFulfilled)"
    "mb_contents b \<subseteq>\<^sub>m (mb_contents (ms_l3 st0))(?k \<mapsto> (w, now + ttl * 1000))" by blast
  have l1: "store_set n now ?k w ttl [] = [(?k, \<lparr>te_value = w, te_expiresAt = now + ttl * 1000\<rparr>)]"
    by (simp add: store_set_def store_make_room_def)
  obtain stats' where set: "tr_set n d x now key w (Some ttl) st1 =
    (st1\<lparr>ms_stats := stats', ms_l1 := [(?k, \<lparr>te_value = w, te_expiresAt = now + ttl * 1000\<rparr>)], ms_l3 := b\<rparr>, SetFulfilled)"
    using assms(1) b(1) l1
    by (cases st0) (auto simp: tr_set_def mt_set_def Let_def set_if_def outcome_of_def tiered_config_def memoryTier_def backendTier_def s1)
  let ?t = "min ((e - now) / 1000) d"
  have s2: "ms_l1 st2 = [(?k, \<lparr>te_value = v, te_expiresAt = now + ?t * 1000\<rparr>)] \<and> ms_l3 st2 = b"
    using assms(5) unfolding assms(9) set fst_conv
    by (simp add: s1 job_continues_def Let_def backfill_writes_def set_if_def tiered_config_def memoryTier_def
        store_set_def store_make_room_def)
  have t: "(?t < 0) = False" using assms(5,6) by (simp add: min_def)
  have "snd (tr_get n d x now key st2) = Some v"
    using s2 by (simp add: t tr_get_def mt_get_def Let_def getFromTier_def tiered_config_def memoryTier_def store_get_def not_less)
  moreover have "mb_contents (ms_l3 st2) ?k \<in> {Some (w, now + ttl * 1000), None}"
    using s2 b(2) by (auto simp: map_le_def dom_def split: if_splits)
  ultimately show ?thesis using g set by simp
qed

theorem late_backfill_overwrites_newer_write_witness:
  "\<exists>st0 :: tiered. \<exists>st1 st2. snd (tr_get 5 300 demo_context 0 ''a'' st0) = Some [7] \<and>
     snd (tr_set 5 300 demo_context 0 ''a'' [8] (Some 60) st1) = SetFulfilled \<and>
     snd (tr_get 5 300 demo_context 0 ''a'' st2) = Some [7]"
proof -
  let ?st0 = "(new_repository 9 50)\<lparr>ms_l3 := \<lparr>mb_store = [(''p:e:v:a'', \<lparr>me_value = [7], me_expiresAt = 9000, me_sizeBytes = 8\<rparr>)],
      mb_globCache = [], mb_maxEntries = 9, mb_maxSizeBytes = 50, mb_currentSizeBytes = 8\<rparr>\<rparr>"
  have ok: "backend_ok 50 (ms_l3 ?st0)"
    by (simp add: backend_ok_def mb_ok_def mb_within_def mb_total_def estimateSize_def mb_contents_def dom_def jm_ok_def)
  have "mb_contents (ms_l3 ?st0) (buildScopedKey demo_context ''a'') = Some ([7], 9000)"
    "backend_fits 50 (buildScopedKey demo_context ''a'') [8] 60"
    by (simp_all add: mb_contents_def buildScopedKey_def scope_prefix_def demo_context_def backend_fits_def estimateSize_def
        MAX_CACHE_TTL_SECONDS_def)
  from late_backfill_overwrites_newer_write [OF _ _ ok this(1) _ _ this(2) refl refl, of 0 300 5]
  show ?thesis by (auto simp: new_repository_def newMultiTierCache_def)
qed

end
