(* ===== verification/Singleflight.thy ===== *)
theory Singleflight
  imports CacheTtl
begin

text \<open>
  Shared operations with one leader per key, \<open>utils/singleflight.ts\<close>. A call joins the operation in flight for its
  key or starts one; an operation's promise settles in one step, hands its result to the waiting callers in a
  reaction, and leaves the map in a second reaction; a caller may detach by its signal at any time. Everything
  between two of these steps is a step of some other call, so a run is a list of events in any order. Entries and
  callers are named by their position.
\<close>

text \<open>A result is an error or a value.\<close>

record ('v, 'e) flight =
  fl_key :: string
  fl_followers :: nat
  fl_waiterCount :: nat
  fl_waiters :: "nat list"
  fl_aborted :: bool
  fl_settled :: bool
  fl_outcome :: "('e + 'v) option"
  fl_settlement :: "('e + 'v) option"
  fl_cleaned :: bool
  fl_cancelWhenUnobserved :: bool
  fl_staleTimer :: bool

record ('v, 'e) caller =
  cl_flight :: nat
  cl_hasSignal :: bool
  cl_result :: "('e + 'v) option"
  cl_counted :: bool

record ('v, 'e) singleflight =
  sf_inflight :: "(string \<times> nat) list"
  sf_flights :: "('v, 'e) flight list"
  sf_callers :: "('v, 'e) caller list"

definition newSingleflight :: "('v, 'e) singleflight" where
  "newSingleflight = \<lparr>sf_inflight = [], sf_flights = [], sf_callers = []\<rparr>"

subsection \<open>Waiting and detaching\<close>

definition upd_flight :: "nat \<Rightarrow> (('v, 'e) flight \<Rightarrow> ('v, 'e) flight) \<Rightarrow> ('v, 'e) singleflight \<Rightarrow> ('v, 'e) singleflight" where
  "upd_flight i f s = s\<lparr>sf_flights := (sf_flights s)[i := f (sf_flights s ! i)]\<rparr>"

definition upd_caller :: "nat \<Rightarrow> (('v, 'e) caller \<Rightarrow> ('v, 'e) caller) \<Rightarrow> ('v, 'e) singleflight \<Rightarrow> ('v, 'e) singleflight" where
  "upd_caller c f s = s\<lparr>sf_callers := (sf_callers s)[c := f (sf_callers s ! c)]\<rparr>"

text \<open>\<open>if (this.inflight.get(key) === entry) this.inflight.delete(key)\<close>\<close>

definition drop_inflight :: "nat \<Rightarrow> ('v, 'e) singleflight \<Rightarrow> ('v, 'e) singleflight" where
  "drop_inflight i s =
     (let key = fl_key (sf_flights s ! i)
      in if jm_get (sf_inflight s) key = Some i then s\<lparr>sf_inflight := jm_del key (sf_inflight s)\<rparr> else s)"

definition clear_timer :: "nat \<Rightarrow> ('v, 'e) singleflight \<Rightarrow> ('v, 'e) singleflight" where
  "clear_timer i s = upd_flight i (\<lambda>f. f\<lparr>fl_staleTimer := False\<rparr>) s"

text \<open>\<open>release\<close>: the last caller that leaves an unsettled operation cancels it, if asked to.\<close>

definition release_waiter :: "nat \<Rightarrow> ('v, 'e) singleflight \<Rightarrow> ('v, 'e) singleflight" where
  "release_waiter i s =
     (let s1 = upd_flight i (\<lambda>f. f\<lparr>fl_waiterCount := fl_waiterCount f - 1\<rparr>) s; f = sf_flights s1 ! i
      in if fl_waiterCount f = 0 \<and> fl_cancelWhenUnobserved f \<and> \<not> fl_settled f \<and> \<not> fl_aborted f
         then clear_timer i (drop_inflight i (upd_flight i (\<lambda>f. f\<lparr>fl_aborted := True\<rparr>) s1))
         else s1)"

text \<open>\<open>finish\<close>: detach, release, settle the caller's promise.\<close>

definition finish_caller :: "nat \<Rightarrow> 'e + 'v \<Rightarrow> ('v, 'e) singleflight \<Rightarrow> ('v, 'e) singleflight" where
  "finish_caller c r s =
     (if cl_result (sf_callers s ! c) \<noteq> None then s
      else
        (let i = cl_flight (sf_callers s ! c)
         in upd_caller c (\<lambda>x. x\<lparr>cl_result := Some r\<rparr>)
              (release_waiter i (upd_flight i (\<lambda>f. f\<lparr>fl_waiters := removeAll c (fl_waiters f)\<rparr>) s))))"

text \<open>\<open>waitForEntry\<close> for a new caller.\<close>

definition waitForEntry :: "nat \<Rightarrow> bool \<Rightarrow> bool \<Rightarrow> ('v, 'e) singleflight \<Rightarrow> ('v, 'e) singleflight" where
  "waitForEntry i hasSignal counted s =
     (let c = length (sf_callers s);
          s1 = upd_flight i (\<lambda>f. f\<lparr>fl_waiterCount := fl_waiterCount f + 1\<rparr>)
                 (s\<lparr>sf_callers := sf_callers s @ [\<lparr>cl_flight = i, cl_hasSignal = hasSignal, cl_result = None, cl_counted = counted\<rparr>]\<rparr>)
      in case fl_settlement (sf_flights s1 ! i) of
           Some r \<Rightarrow> finish_caller c r s1
         | None \<Rightarrow> upd_flight i (\<lambda>f. f\<lparr>fl_waiters := fl_waiters f @ [c]\<rparr>) s1)"

subsection \<open>Calling\<close>

record flight_options =
  fo_staleAfterMs :: "js_number option"
  fo_maxFollowers :: "js_number option"
  fo_hasSignal :: bool
  fo_signalAborted :: bool
  fo_cancelWhenUnobserved :: bool

datatype call_error = StaleAfterRange | MaxFollowersRange | CallAborted | FollowerLimit

fun js_le_zero :: "js_number \<Rightarrow> bool" where
  "js_le_zero (Num q) = (q \<le> 0)"
| "js_le_zero MinusInfinity = True"
| "js_le_zero _ = False"

fun js_natural :: "js_number \<Rightarrow> bool" where
  "js_natural (Num q) = (q = of_int \<lfloor>q\<rfloor> \<and> 0 \<le> q)"
| "js_natural _ = False"

fun js_at_most :: "js_number \<Rightarrow> nat \<Rightarrow> bool" where
  "js_at_most (Num q) n = (q \<le> of_nat n)"
| "js_at_most MinusInfinity n = True"
| "js_at_most _ n = False"

definition check_options :: "flight_options \<Rightarrow> call_error option" where
  "check_options opts =
     (if (case fo_staleAfterMs opts of None \<Rightarrow> False | Some t \<Rightarrow> js_le_zero t) then Some StaleAfterRange
      else if (case fo_maxFollowers opts of None \<Rightarrow> False | Some n \<Rightarrow> \<not> js_natural n) then Some MaxFollowersRange
      else if fo_hasSignal opts \<and> fo_signalAborted opts then Some CallAborted
      else None)"

text \<open>Joining the operation in flight.\<close>

definition join_flight :: "nat \<Rightarrow> flight_options \<Rightarrow> ('v, 'e) singleflight \<Rightarrow> ('v, 'e) singleflight \<times> call_error option" where
  "join_flight i opts s =
     (if (case fo_maxFollowers opts of None \<Rightarrow> False | Some n \<Rightarrow> js_at_most n (fl_followers (sf_flights s ! i)))
      then (s, Some FollowerLimit)
      else
        (waitForEntry i (fo_hasSignal opts) True
           (upd_flight i (\<lambda>f. f\<lparr>fl_cancelWhenUnobserved := fl_cancelWhenUnobserved f \<or> fo_cancelWhenUnobserved opts,
                              fl_followers := fl_followers f + 1\<rparr>) s), None))"

text \<open>Starting an operation. \<open>thrown\<close> is an error the operation throws at once; otherwise its promise is pending.\<close>

definition start_flight :: "string \<Rightarrow> flight_options \<Rightarrow> 'e option \<Rightarrow> ('v, 'e) singleflight \<Rightarrow> ('v, 'e) singleflight" where
  "start_flight key opts thrown s =
     (let i = length (sf_flights s);
          f = \<lparr>fl_key = key, fl_followers = 0, fl_waiterCount = 0, fl_waiters = [], fl_aborted = False,
               fl_settled = (thrown \<noteq> None), fl_outcome = map_option Inl thrown, fl_settlement = None, fl_cleaned = False,
               fl_cancelWhenUnobserved = fo_cancelWhenUnobserved opts, fl_staleTimer = (fo_staleAfterMs opts \<noteq> None)\<rparr>
      in waitForEntry i (fo_hasSignal opts) False
           (s\<lparr>sf_flights := sf_flights s @ [f], sf_inflight := jm_set key i (sf_inflight s)\<rparr>))"

definition sf_do :: "string \<Rightarrow> flight_options \<Rightarrow> 'e option \<Rightarrow> ('v, 'e) singleflight \<Rightarrow> ('v, 'e) singleflight \<times> call_error option" where
  "sf_do key opts thrown s =
     (case check_options opts of
        Some e \<Rightarrow> (s, Some e)
      | None \<Rightarrow>
          (case jm_get (sf_inflight s) key of
             Some i \<Rightarrow> join_flight i opts s
           | None \<Rightarrow> (start_flight key opts thrown s, None)))"

subsection \<open>What happens to an operation\<close>

text \<open>The promise of the operation settles.\<close>

definition operation_settles :: "nat \<Rightarrow> 'e + 'v \<Rightarrow> ('v, 'e) singleflight \<Rightarrow> ('v, 'e) singleflight" where
  "operation_settles i r s =
     (if i < length (sf_flights s) \<and> fl_outcome (sf_flights s ! i) = None
      then upd_flight i (\<lambda>f. f\<lparr>fl_settled := True, fl_outcome := Some r\<rparr>) s
      else s)"

text \<open>The first reaction: \<open>settleWaiters\<close>.\<close>

definition settleWaiters :: "nat \<Rightarrow> ('v, 'e) singleflight \<Rightarrow> ('v, 'e) singleflight" where
  "settleWaiters i s =
     (if i < length (sf_flights s) \<and> fl_settlement (sf_flights s ! i) = None then
        (case fl_outcome (sf_flights s ! i) of
           None \<Rightarrow> s
         | Some r \<Rightarrow>
             fold (\<lambda>c. finish_caller c r) (fl_waiters (sf_flights s ! i))
               (upd_flight i (\<lambda>f. f\<lparr>fl_settlement := Some r, fl_waiters := []\<rparr>) s))
      else s)"

text \<open>The second reaction: \<open>cleanup\<close>, after the first.\<close>

definition cleanup_flight :: "nat \<Rightarrow> ('v, 'e) singleflight \<Rightarrow> ('v, 'e) singleflight" where
  "cleanup_flight i s =
     (if i < length (sf_flights s) \<and> fl_settlement (sf_flights s ! i) \<noteq> None \<and> \<not> fl_cleaned (sf_flights s ! i)
      then upd_flight i (\<lambda>f. f\<lparr>fl_cleaned := True\<rparr>) (drop_inflight i (clear_timer i s))
      else s)"

text \<open>The signal of a caller is aborted.\<close>

definition caller_aborts :: "nat \<Rightarrow> 'e \<Rightarrow> ('v, 'e) singleflight \<Rightarrow> ('v, 'e) singleflight" where
  "caller_aborts c reason s =
     (if c < length (sf_callers s) \<and> cl_hasSignal (sf_callers s ! c) then finish_caller c (Inl reason) s else s)"

text \<open>A follower whose wait is over runs its \<open>finally\<close>.\<close>

definition follower_leaves :: "nat \<Rightarrow> ('v, 'e) singleflight \<Rightarrow> ('v, 'e) singleflight" where
  "follower_leaves c s =
     (if c < length (sf_callers s) \<and> cl_result (sf_callers s ! c) \<noteq> None \<and> cl_counted (sf_callers s ! c)
      then upd_caller c (\<lambda>x. x\<lparr>cl_counted := False\<rparr>)
             (upd_flight (cl_flight (sf_callers s ! c)) (\<lambda>f. f\<lparr>fl_followers := fl_followers f - 1\<rparr>) s)
      else s)"

definition stale_timer_fires :: "nat \<Rightarrow> ('v, 'e) singleflight \<Rightarrow> ('v, 'e) singleflight" where
  "stale_timer_fires i s =
     (if i < length (sf_flights s) \<and> fl_staleTimer (sf_flights s ! i) then drop_inflight i (clear_timer i s) else s)"

definition sf_has :: "string \<Rightarrow> ('v, 'e) singleflight \<Rightarrow> bool" where
  "sf_has key s \<longleftrightarrow> jm_get (sf_inflight s) key \<noteq> None"

definition sf_forget :: "string \<Rightarrow> ('v, 'e) singleflight \<Rightarrow> ('v, 'e) singleflight \<times> bool" where
  "sf_forget key s =
     (case jm_get (sf_inflight s) key of
        None \<Rightarrow> (s, False)
      | Some i \<Rightarrow> ((clear_timer i s)\<lparr>sf_inflight := jm_del key (sf_inflight s)\<rparr>, True))"

definition sf_size :: "('v, 'e) singleflight \<Rightarrow> nat" where
  "sf_size s = length (sf_inflight s)"

subsection \<open>Runs\<close>

datatype ('v, 'e) flight_event =
    Call string flight_options "'e option" | OperationSettles nat "'e + 'v" | SettleWaiters nat | Cleanup nat
  | CallerAborts nat 'e | FollowerLeaves nat | StaleTimer nat | Forget string

fun flight_step :: "('v, 'e) flight_event \<Rightarrow> ('v, 'e) singleflight \<Rightarrow> ('v, 'e) singleflight" where
  "flight_step (Call key opts thrown) s = fst (sf_do key opts thrown s)"
| "flight_step (OperationSettles i r) s = operation_settles i r s"
| "flight_step (SettleWaiters i) s = settleWaiters i s"
| "flight_step (Cleanup i) s = cleanup_flight i s"
| "flight_step (CallerAborts c reason) s = caller_aborts c reason s"
| "flight_step (FollowerLeaves c) s = follower_leaves c s"
| "flight_step (StaleTimer i) s = stale_timer_fires i s"
| "flight_step (Forget key) s = fst (sf_forget key s)"

definition flight_run :: "('v, 'e) flight_event list \<Rightarrow> ('v, 'e) singleflight" where
  "flight_run evs = fold flight_step evs newSingleflight"

end
