(* ===== verification/SingleflightSafety.thy ===== *)
theory SingleflightSafety
  imports Singleflight
begin

text \<open>
  What holds of shared operations in every interleaving: the counts of waiting callers and of followers are exact,
  callers get the result of the operation they joined, an operation is cancelled exactly when its last caller left
  and cancellation was asked for, and without evictions there is one operation in flight per key.
\<close>

subsection \<open>The effect of finishing a caller\<close>

definition waiting :: "('v, 'e) singleflight \<Rightarrow> nat \<Rightarrow> nat set" where
  "waiting s i = {c. c < length (sf_callers s) \<and> cl_flight (sf_callers s ! c) = i \<and> cl_result (sf_callers s ! c) = None}"

definition counted :: "('v, 'e) singleflight \<Rightarrow> nat \<Rightarrow> nat set" where
  "counted s i = {c. c < length (sf_callers s) \<and> cl_flight (sf_callers s ! c) = i \<and> cl_counted (sf_callers s ! c)}"

lemma finite_waiting [simp]: "finite (waiting s i)" and finite_counted [simp]: "finite (counted s i)"
  by (simp_all add: waiting_def counted_def)

text \<open>Whether the last waiter leaves an operation that is to be cancelled.\<close>

definition cancels :: "('v, 'e) flight \<Rightarrow> bool" where
  "cancels f \<longleftrightarrow> fl_waiterCount f - 1 = 0 \<and> fl_cancelWhenUnobserved f \<and> \<not> fl_settled f \<and> \<not> fl_aborted f"

definition left_flight :: "nat \<Rightarrow> ('v, 'e) flight \<Rightarrow> ('v, 'e) flight" where
  "left_flight c f =
     (let g = f\<lparr>fl_waiters := removeAll c (fl_waiters f), fl_waiterCount := fl_waiterCount f - 1\<rparr>
      in if cancels f then g\<lparr>fl_aborted := True, fl_staleTimer := False\<rparr> else g)"

lemma left_flight_simps [simp]:
  "fl_key (left_flight c f) = fl_key f" "fl_followers (left_flight c f) = fl_followers f"
  "fl_waiterCount (left_flight c f) = fl_waiterCount f - 1" "fl_waiters (left_flight c f) = removeAll c (fl_waiters f)"
  "fl_aborted (left_flight c f) \<longleftrightarrow> fl_aborted f \<or> cancels f" "fl_settled (left_flight c f) = fl_settled f"
  "fl_outcome (left_flight c f) = fl_outcome f" "fl_settlement (left_flight c f) = fl_settlement f"
  "fl_cleaned (left_flight c f) = fl_cleaned f" "fl_cancelWhenUnobserved (left_flight c f) = fl_cancelWhenUnobserved f"
  by (simp_all add: left_flight_def Let_def)

lemma finish_caller_eq:
  assumes "c < length (sf_callers s)" "cl_result (sf_callers s ! c) = None" "cl_flight (sf_callers s ! c) = i"
    "i < length (sf_flights s)"
  shows "sf_callers (finish_caller c r s) = (sf_callers s)[c := (sf_callers s ! c)\<lparr>cl_result := Some r\<rparr>]"
    and "sf_flights (finish_caller c r s) = (sf_flights s)[i := left_flight c (sf_flights s ! i)]"
    and "sf_inflight (finish_caller c r s) =
      (if cancels (sf_flights s ! i) \<and> jm_get (sf_inflight s) (fl_key (sf_flights s ! i)) = Some i
       then jm_del (fl_key (sf_flights s ! i)) (sf_inflight s) else sf_inflight s)"
  using assms
  by (auto simp: finish_caller_def Let_def release_waiter_def upd_flight_def upd_caller_def drop_inflight_def clear_timer_def
      cancels_def left_flight_def)

lemma finish_caller_done: "cl_result (sf_callers s ! c) \<noteq> None \<Longrightarrow> finish_caller c r s = s"
  by (simp add: finish_caller_def)

subsection \<open>The invariant\<close>

text \<open>A flight against the callers \<open>W\<close> that wait for it and the followers \<open>C\<close> that count.\<close>

definition counts_fit :: "nat \<Rightarrow> nat \<Rightarrow> nat list \<Rightarrow> ('e + 'v) option \<Rightarrow> ('e + 'v) option \<Rightarrow> bool \<Rightarrow> bool \<Rightarrow> bool \<Rightarrow> bool \<Rightarrow>
    nat set \<Rightarrow> nat set \<Rightarrow> bool" where
  "counts_fit n m ws settlement outcome settled cleaned aborted cancel W C \<longleftrightarrow>
     n = card W \<and> m = card C \<and>
     (settlement = None \<longrightarrow> set ws = W \<and> distinct ws) \<and>
     (settlement \<noteq> None \<longrightarrow> W = {} \<and> outcome = settlement) \<and>
     (settled \<longleftrightarrow> outcome \<noteq> None) \<and> (cleaned \<longrightarrow> settlement \<noteq> None) \<and>
     (W \<noteq> {} \<or> \<not> cancel \<longrightarrow> \<not> aborted) \<and>
     (W = {} \<and> cancel \<and> \<not> settled \<longrightarrow> aborted)"

definition flight_fits :: "('v, 'e) flight \<Rightarrow> nat set \<Rightarrow> nat set \<Rightarrow> bool" where
  "flight_fits f W C \<longleftrightarrow>
     counts_fit (fl_waiterCount f) (fl_followers f) (fl_waiters f) (fl_settlement f) (fl_outcome f) (fl_settled f)
       (fl_cleaned f) (fl_aborted f) (fl_cancelWhenUnobserved f) W C"

text \<open>A caller that waits means an operation without a settlement, not cancelled.\<close>

lemma counts_waiting:
  "counts_fit n m ws st ou sd cl ab can W C \<Longrightarrow> c \<in> W \<Longrightarrow>
   st = None \<and> n = card W \<and> \<not> ab \<and> m = card C \<and> set ws = W \<and> distinct ws \<and> sd = (ou \<noteq> None) \<and> \<not> cl"
  by (auto simp: counts_fit_def)

lemma counts_left:
  assumes "counts_fit n m ws st ou sd cl ab can W C" "c \<in> W" "finite W"
  shows "counts_fit (n - 1) m (removeAll c ws) st ou sd cl (n - 1 = 0 \<and> can \<and> \<not> sd) can (W - {c}) C"
proof -
  have "card W - 1 = 0 \<longleftrightarrow> W - {c} = {}" using assms(2,3) by (metis card_0_eq finite_Diff card_Diff_singleton)
  with counts_waiting [OF assms(1,2)] assms show ?thesis
    unfolding counts_fit_def by (simp only: set_removeAll card_Diff_singleton distinct_removeAll) blast
qed

lemma counts_settles:
  "counts_fit n m ws st None sd cl ab can W C \<Longrightarrow> counts_fit n m ws st (Some r) True cl ab can W C"
  by (cases st) (simp_all add: counts_fit_def)

lemma counts_cleaned:
  "counts_fit n m ws st ou sd cl ab can W C \<Longrightarrow> st \<noteq> None \<Longrightarrow> counts_fit n m ws st ou sd True ab can W C"
  by (auto simp: counts_fit_def)

lemma counts_leaves:
  "counts_fit n m ws st ou sd cl ab can W C \<Longrightarrow> c \<in> C \<Longrightarrow> finite C \<Longrightarrow>
   counts_fit n (m - 1) ws st ou sd cl ab can W (C - {c})"
  by (auto simp: counts_fit_def)

lemma fits_left:
  assumes "flight_fits f W C" "c \<in> W" "finite W"
  shows "flight_fits (left_flight c f) (W - {c}) C"
proof -
  have "\<not> fl_aborted f" using counts_waiting [OF assms(1) [unfolded flight_fits_def] assms(2)] by simp
  with counts_left [OF assms(1) [unfolded flight_fits_def] assms(2,3)] show ?thesis
    by (simp add: flight_fits_def cancels_def)
qed

lemma fits_settles: "flight_fits f W C \<Longrightarrow> fl_outcome f = None \<Longrightarrow> flight_fits (f\<lparr>fl_settled := True, fl_outcome := Some r\<rparr>) W C"
  by (simp add: flight_fits_def counts_settles)

lemma fits_timer: "flight_fits f W C \<Longrightarrow> flight_fits (f\<lparr>fl_staleTimer := b\<rparr>) W C"
  by (simp add: flight_fits_def)

lemma fits_cleaned: "flight_fits f W C \<Longrightarrow> fl_settlement f \<noteq> None \<Longrightarrow> flight_fits (f\<lparr>fl_cleaned := True\<rparr>) W C"
  by (simp add: flight_fits_def counts_cleaned)

lemma fits_leaves:
  "flight_fits f W C \<Longrightarrow> c \<in> C \<Longrightarrow> finite C \<Longrightarrow> flight_fits (f\<lparr>fl_followers := fl_followers f - 1\<rparr>) W (C - {c})"
  using counts_leaves by (simp add: flight_fits_def)

definition flight_ok :: "('v, 'e) singleflight \<Rightarrow> nat \<Rightarrow> bool" where
  "flight_ok s i \<longleftrightarrow> flight_fits (sf_flights s ! i) (waiting s i) (counted s i)"

text \<open>What a caller was given, against the outcome of its operation.\<close>

definition result_fits :: "bool \<Rightarrow> ('e + 'v) option \<Rightarrow> ('e + 'v) option \<Rightarrow> bool" where
  "result_fits hasSignal outcome r \<longleftrightarrow>
     (case r of
        None \<Rightarrow> True
      | Some (Inr v) \<Rightarrow> outcome = Some (Inr v)
      | Some (Inl e) \<Rightarrow> hasSignal \<or> outcome = Some (Inl e))"

definition caller_ok :: "('v, 'e) singleflight \<Rightarrow> nat \<Rightarrow> bool" where
  "caller_ok s c \<longleftrightarrow>
     (let x = sf_callers s ! c
      in cl_flight x < length (sf_flights s) \<and>
         result_fits (cl_hasSignal x) (fl_outcome (sf_flights s ! cl_flight x)) (cl_result x))"

definition map_entries_ok :: "('v, 'e) singleflight \<Rightarrow> bool" where
  "map_entries_ok s \<longleftrightarrow> jm_ok (sf_inflight s) \<and>
     (\<forall>key i. jm_get (sf_inflight s) key = Some i \<longrightarrow>
        i < length (sf_flights s) \<and> fl_key (sf_flights s ! i) = key \<and>
        \<not> fl_cleaned (sf_flights s ! i) \<and> \<not> fl_aborted (sf_flights s ! i))"

definition sf_ok :: "('v, 'e) singleflight \<Rightarrow> bool" where
  "sf_ok s \<longleftrightarrow> map_entries_ok s \<and> (\<forall>c < length (sf_callers s). caller_ok s c) \<and> (\<forall>i < length (sf_flights s). flight_ok s i)"

lemma waiting_finish:
  assumes "c < length (sf_callers s)" "cl_result (sf_callers s ! c) = None" "cl_flight (sf_callers s ! c) = i"
    "i < length (sf_flights s)"
  shows "waiting (finish_caller c r s) j = waiting s j - {c}" "counted (finish_caller c r s) j = counted s j"
  using assms by (auto simp: waiting_def counted_def finish_caller_eq(1) [OF assms] nth_list_update)

text \<open>An abort, or an operation's result, settles one caller.\<close>

lemma ok_finish:
  assumes ok: "sf_ok s" and c: "c < length (sf_callers s)"
    and r: "result_fits (cl_hasSignal (sf_callers s ! c)) (fl_outcome (sf_flights s ! cl_flight (sf_callers s ! c))) (Some r)"
  shows "sf_ok (finish_caller c r s)"
proof (cases "cl_result (sf_callers s ! c)")
  case None
  define i where "i = cl_flight (sf_callers s ! c)"
  from ok c have i: "i < length (sf_flights s)" by (auto simp: sf_ok_def caller_ok_def i_def Let_def)
  note eq = finish_caller_eq [OF c None i_def [symmetric] i]
  note w = waiting_finish [OF c None i_def [symmetric] i]
  from ok i have fo: "flight_ok s i" by (simp add: sf_ok_def)
  have inw: "c \<in> waiting s i" using c None by (simp add: waiting_def i_def)
  have "flight_ok (finish_caller c r s) j" if j: "j < length (sf_flights s)" for j
  proof (cases "j = i")
    case True
    with fits_left [OF fo [unfolded flight_ok_def] inw] i show ?thesis by (simp add: flight_ok_def w eq(2))
  next
    case False
    moreover have "c \<notin> waiting s j" using False by (simp add: waiting_def i_def)
    ultimately show ?thesis using ok j unfolding sf_ok_def flight_ok_def w eq(2) by simp
  qed
  moreover have "caller_ok (finish_caller c r s) d" if "d < length (sf_callers s)" for d
  proof -
    from ok that have "caller_ok s d" by (simp add: sf_ok_def)
    moreover have "fl_outcome (sf_flights (finish_caller c r s) ! k) = fl_outcome (sf_flights s ! k)" for k
      using i by (cases "k = i") (auto simp: eq(2))
    ultimately show ?thesis using r by (cases "d = c") (simp_all add: caller_ok_def Let_def eq(1) eq(2) [symmetric] that c, simp_all add: eq(2))
  qed
  moreover have "map_entries_ok (finish_caller c r s)"
    using ok i by (auto simp: sf_ok_def map_entries_ok_def eq jsmap_simps nth_list_update left_flight_def)
  ultimately show ?thesis by (simp add: sf_ok_def eq)
qed (simp add: finish_caller_done ok)

subsection \<open>Changes of one operation\<close>

lemma upd_flight_simps [simp]:
  "sf_callers (upd_flight i g s) = sf_callers s" "sf_inflight (upd_flight i g s) = sf_inflight s"
  "sf_flights (upd_flight i g s) = (sf_flights s)[i := g (sf_flights s ! i)]"
  "waiting (upd_flight i g s) = waiting s" "counted (upd_flight i g s) = counted s"
  by (simp_all add: upd_flight_def waiting_def counted_def fun_eq_iff)

lemma ok_parts:
  "sf_ok s \<Longrightarrow> map_entries_ok s" "sf_ok s \<Longrightarrow> c < length (sf_callers s) \<Longrightarrow> caller_ok s c"
  "sf_ok s \<Longrightarrow> i < length (sf_flights s) \<Longrightarrow> flight_fits (sf_flights s ! i) (waiting s i) (counted s i)"
  by (simp_all add: sf_ok_def flight_ok_def)

lemma map_entriesI:
  "jm_ok (sf_inflight s) \<Longrightarrow>
   (\<And>key i. jm_get (sf_inflight s) key = Some i \<Longrightarrow>
      i < length (sf_flights s) \<and> fl_key (sf_flights s ! i) = key \<and>
      \<not> fl_cleaned (sf_flights s ! i) \<and> \<not> fl_aborted (sf_flights s ! i)) \<Longrightarrow> map_entries_ok s"
  by (simp add: map_entries_ok_def)

lemma entry_ok:
  assumes "map_entries_ok s" "jm_get (sf_inflight s) key = Some i"
  shows "i < length (sf_flights s)" "fl_key (sf_flights s ! i) = key" "\<not> fl_cleaned (sf_flights s ! i)"
    "\<not> fl_aborted (sf_flights s ! i)"
  using assms by (auto simp: map_entries_ok_def)

lemma entries_distinct: "map_entries_ok s \<Longrightarrow> jm_ok (sf_inflight s)"
  by (simp add: map_entries_ok_def)

lemma ok_upd_flight:
  assumes ok: "sf_ok s" and i: "i < length (sf_flights s)"
    and fits: "flight_fits (g (sf_flights s ! i)) (waiting s i) (counted s i)"
    and same: "fl_key (g (sf_flights s ! i)) = fl_key (sf_flights s ! i)"
      "fl_cleaned (g (sf_flights s ! i)) = fl_cleaned (sf_flights s ! i)"
      "fl_aborted (g (sf_flights s ! i)) = fl_aborted (sf_flights s ! i)"
    and out: "fl_outcome (sf_flights s ! i) = None \<or> fl_outcome (g (sf_flights s ! i)) = fl_outcome (sf_flights s ! i)"
  shows "sf_ok (upd_flight i g s)"
proof -
  have "flight_ok (upd_flight i g s) j" if "j < length (sf_flights s)" for j
    using ok fits that i by (cases "j = i") (auto simp: sf_ok_def flight_ok_def)
  moreover have "caller_ok (upd_flight i g s) c" if c: "c < length (sf_callers s)" for c
  proof -
    from ok c have co: "caller_ok s c" by (simp add: sf_ok_def)
    show ?thesis
    proof (cases "cl_flight (sf_callers s ! c) = i")
      case True
      with co out i show ?thesis
        by (auto simp: caller_ok_def Let_def result_fits_def split: option.splits sum.splits)
    qed (use co in \<open>auto simp: caller_ok_def Let_def\<close>)
  qed
  moreover have "map_entries_ok (upd_flight i g s)"
  proof (rule map_entriesI)
    fix key j assume "jm_get (sf_inflight (upd_flight i g s)) key = Some j"
    then have "jm_get (sf_inflight s) key = Some j" by simp
    from entry_ok [OF ok_parts(1) [OF ok] this] same i show "j < length (sf_flights (upd_flight i g s)) \<and>
      fl_key (sf_flights (upd_flight i g s) ! j) = key \<and> \<not> fl_cleaned (sf_flights (upd_flight i g s) ! j) \<and>
      \<not> fl_aborted (sf_flights (upd_flight i g s) ! j)" by (cases "j = i") auto
  qed (use entries_distinct [OF ok_parts(1) [OF ok]] in simp)
  ultimately show ?thesis by (simp add: sf_ok_def)
qed

lemma ok_operation_settles: "sf_ok s \<Longrightarrow> sf_ok (operation_settles i r s)"
  unfolding operation_settles_def
  by (auto intro!: ok_upd_flight fits_settles dest: ok_parts(3))

lemma ok_clear_timer: "sf_ok s \<Longrightarrow> i < length (sf_flights s) \<Longrightarrow> sf_ok (clear_timer i s)"
  unfolding clear_timer_def
  by (rule ok_upd_flight) (auto intro: fits_timer dest: ok_parts(3))

lemma ok_inflight:
  "sf_ok s \<Longrightarrow> map_entries_ok (s\<lparr>sf_inflight := m\<rparr>) \<Longrightarrow> sf_ok (s\<lparr>sf_inflight := m\<rparr>)"
  by (simp add: sf_ok_def caller_ok_def flight_ok_def waiting_def counted_def)

lemma ok_drop_key: "sf_ok s \<Longrightarrow> sf_ok (s\<lparr>sf_inflight := jm_del key (sf_inflight s)\<rparr>)"
proof (rule ok_inflight, assumption, rule map_entriesI)
  assume ok: "sf_ok s"
  fix k i assume "jm_get (sf_inflight (s\<lparr>sf_inflight := jm_del key (sf_inflight s)\<rparr>)) k = Some i"
  then have "jm_get (sf_inflight s) k = Some i" by (simp add: jsmap_simps split: if_splits)
  from entry_ok [OF ok_parts(1) [OF ok] this] show "i < length (sf_flights (s\<lparr>sf_inflight := jm_del key (sf_inflight s)\<rparr>)) \<and>
    fl_key (sf_flights (s\<lparr>sf_inflight := jm_del key (sf_inflight s)\<rparr>) ! i) = k \<and>
    \<not> fl_cleaned (sf_flights (s\<lparr>sf_inflight := jm_del key (sf_inflight s)\<rparr>) ! i) \<and>
    \<not> fl_aborted (sf_flights (s\<lparr>sf_inflight := jm_del key (sf_inflight s)\<rparr>) ! i)" by simp
qed (use entries_distinct [OF ok_parts(1)] in auto)

lemma ok_drop: "sf_ok s \<Longrightarrow> sf_ok (drop_inflight i s)"
  by (simp add: drop_inflight_def Let_def ok_drop_key)

lemma drop_inflight_same [simp]:
  "sf_callers (drop_inflight i s) = sf_callers s" "sf_flights (drop_inflight i s) = sf_flights s"
  "waiting (drop_inflight i s) = waiting s" "counted (drop_inflight i s) = counted s"
  by (simp_all add: drop_inflight_def Let_def waiting_def counted_def fun_eq_iff)

lemma dropped: "sf_ok s \<Longrightarrow> jm_get (sf_inflight (drop_inflight i s)) key \<noteq> Some i"
  using entry_ok(2) [OF ok_parts(1), of s key i] by (auto simp: drop_inflight_def Let_def jsmap_simps)

lemma ok_cleanup: "sf_ok s \<Longrightarrow> sf_ok (cleanup_flight i s)"
proof (cases "i < length (sf_flights s) \<and> fl_settlement (sf_flights s ! i) \<noteq> None \<and> \<not> fl_cleaned (sf_flights s ! i)")
  case True
  assume ok: "sf_ok s"
  define s1 where "s1 = drop_inflight i (clear_timer i s)"
  have ok1: "sf_ok s1" and len: "i < length (sf_flights s1)" and set1: "fl_settlement (sf_flights s1 ! i) \<noteq> None"
    using ok_drop [OF ok_clear_timer [OF ok]] True by (auto simp: s1_def clear_timer_def)
  have gone: "jm_get (sf_inflight s1) key \<noteq> Some i" for key
    using dropped [OF ok_clear_timer [OF ok]] True by (simp add: s1_def)
  let ?s2 = "upd_flight i (\<lambda>f. f\<lparr>fl_cleaned := True\<rparr>) s1"
  have "map_entries_ok ?s2"
  proof (rule map_entriesI)
    fix key j assume "jm_get (sf_inflight ?s2) key = Some j"
    then have e: "jm_get (sf_inflight s1) key = Some j" by simp
    with gone have "j \<noteq> i" by auto
    with entry_ok [OF ok_parts(1) [OF ok1] e] show "j < length (sf_flights ?s2) \<and> fl_key (sf_flights ?s2 ! j) = key \<and>
      \<not> fl_cleaned (sf_flights ?s2 ! j) \<and> \<not> fl_aborted (sf_flights ?s2 ! j)" by simp
  qed (use entries_distinct [OF ok_parts(1) [OF ok1]] in simp)
  moreover have "caller_ok ?s2 c" if "c < length (sf_callers s1)" for c
  proof -
    have "fl_outcome (sf_flights ?s2 ! k) = fl_outcome (sf_flights s1 ! k)" for k using len by (cases "k = i") auto
    with ok_parts(2) [OF ok1 that] show ?thesis by (simp add: caller_ok_def Let_def)
  qed
  moreover have "flight_ok ?s2 j" if "j < length (sf_flights s1)" for j
    using ok_parts(3) [OF ok1 that] fits_cleaned len set1 unfolding flight_ok_def by (cases "j = i") auto
  ultimately have "sf_ok ?s2" by (simp add: sf_ok_def)
  with True show ?thesis by (simp add: cleanup_flight_def s1_def)
next
  case False
  then show "sf_ok s \<Longrightarrow> ?thesis" unfolding cleanup_flight_def by (simp only: if_False)
qed

lemma ok_stale: "sf_ok s \<Longrightarrow> sf_ok (stale_timer_fires i s)"
  by (simp add: stale_timer_fires_def ok_drop ok_clear_timer)

lemma ok_forget: "sf_ok s \<Longrightarrow> sf_ok (fst (sf_forget key s))"
proof (cases "jm_get (sf_inflight s) key")
  case (Some i)
  assume ok: "sf_ok s"
  with Some have "i < length (sf_flights s)" by (auto simp: sf_ok_def map_entries_ok_def)
  from ok_drop_key [OF ok_clear_timer [OF ok this], of key] Some show ?thesis
    by (simp add: sf_forget_def clear_timer_def)
qed (simp add: sf_forget_def)

lemma ok_abort: "sf_ok s \<Longrightarrow> sf_ok (caller_aborts c reason s)"
  by (auto simp: caller_aborts_def result_fits_def intro: ok_finish)

lemma ok_leave: "sf_ok s \<Longrightarrow> sf_ok (follower_leaves c s)"
proof (cases "c < length (sf_callers s) \<and> cl_result (sf_callers s ! c) \<noteq> None \<and> cl_counted (sf_callers s ! c)")
  case True
  assume ok: "sf_ok s"
  define i where "i = cl_flight (sf_callers s ! c)"
  have i: "i < length (sf_flights s)" using ok True by (auto simp: sf_ok_def caller_ok_def Let_def i_def)
  let ?s = "follower_leaves c s"
  have eq: "sf_callers ?s = (sf_callers s)[c := (sf_callers s ! c)\<lparr>cl_counted := False\<rparr>]"
    "sf_flights ?s = (sf_flights s)[i := (sf_flights s ! i)\<lparr>fl_followers := fl_followers (sf_flights s ! i) - 1\<rparr>]"
    "sf_inflight ?s = sf_inflight s"
    using True by (simp_all add: follower_leaves_def upd_caller_def i_def)
  have w: "waiting ?s j = waiting s j" "counted ?s j = counted s j - {c}" for j
    using True by (auto simp: waiting_def counted_def eq(1) nth_list_update)
  have inc: "c \<in> counted s i" using True by (simp add: counted_def i_def)
  have "flight_ok ?s j" if j: "j < length (sf_flights s)" for j
  proof (cases "j = i")
    case True
    with fits_leaves [OF ok_parts(3) [OF ok i] inc] i show ?thesis unfolding flight_ok_def w eq(2) by simp
  next
    case False
    then have "c \<notin> counted s j" by (simp add: counted_def i_def)
    with ok_parts(3) [OF ok j] False show ?thesis unfolding flight_ok_def w eq(2) by simp
  qed
  moreover have "caller_ok ?s d" if d: "d < length (sf_callers s)" for d
  proof -
    have "fl_outcome (sf_flights ?s ! k) = fl_outcome (sf_flights s ! k)" for k
      using i by (cases "k = i") (auto simp: eq(2))
    moreover note ok_parts(2) [OF ok d]
    moreover have "cl_flight (sf_callers ?s ! d) = cl_flight (sf_callers s ! d) \<and>
        cl_hasSignal (sf_callers ?s ! d) = cl_hasSignal (sf_callers s ! d) \<and> cl_result (sf_callers ?s ! d) = cl_result (sf_callers s ! d)"
      using d by (cases "d = c") (simp_all add: eq(1))
    ultimately show ?thesis by (simp add: caller_ok_def Let_def, simp add: eq(2))
  qed
  moreover have "map_entries_ok ?s"
  proof (rule map_entriesI)
    fix key j assume "jm_get (sf_inflight ?s) key = Some j"
    then have "jm_get (sf_inflight s) key = Some j" by (simp add: eq)
    from entry_ok [OF ok_parts(1) [OF ok] this] i show "j < length (sf_flights ?s) \<and> fl_key (sf_flights ?s ! j) = key \<and>
      \<not> fl_cleaned (sf_flights ?s ! j) \<and> \<not> fl_aborted (sf_flights ?s ! j)" unfolding eq by (cases "j = i") auto
  qed (use entries_distinct [OF ok_parts(1) [OF ok]] eq in simp)
  ultimately show ?thesis by (simp add: sf_ok_def eq)
qed (auto simp: follower_leaves_def)

subsection \<open>Settling the waiting callers\<close>

lemma sf_equalityI:
  "sf_callers a = sf_callers b \<Longrightarrow> sf_flights a = sf_flights b \<Longrightarrow> sf_inflight a = sf_inflight b \<Longrightarrow> a = b"
  for a b :: "('v, 'e) singleflight"
  by (rule singleflight.equality) simp_all

definition mark_settled :: "'e + 'v \<Rightarrow> ('v, 'e) flight \<Rightarrow> ('v, 'e) flight" where
  "mark_settled r f = f\<lparr>fl_settlement := Some r, fl_waiters := []\<rparr>"

lemma left_marked: "left_flight c (mark_settled r f) = mark_settled r (left_flight c f)" "cancels (mark_settled r f) = cancels f"
    "fl_key (mark_settled r f) = fl_key f"
  by (simp_all add: left_flight_def mark_settled_def cancels_def Let_def)

lemma finish_marked:
  assumes "c < length (sf_callers s)" "cl_flight (sf_callers s ! c) = i" "i < length (sf_flights s)"
  shows "finish_caller c q (upd_flight i (mark_settled r) s) = upd_flight i (mark_settled r) (finish_caller c q s)"
proof (cases "cl_result (sf_callers s ! c)")
  case None
  have len: "c < length (sf_callers (upd_flight i (mark_settled r) s))"
    "cl_result (sf_callers (upd_flight i (mark_settled r) s) ! c) = None"
    "cl_flight (sf_callers (upd_flight i (mark_settled r) s) ! c) = i"
    "i < length (sf_flights (upd_flight i (mark_settled r) s))" using assms None by simp_all
  show ?thesis
    by (rule sf_equalityI)
      (simp_all add: finish_caller_eq [OF assms(1) None assms(2,3)] finish_caller_eq [OF len] assms(3) left_marked)
qed (simp add: finish_caller_done)

lemma finish_keeps:
  assumes "sf_ok s" "c < length (sf_callers s)"
  shows "length (sf_callers (finish_caller c r s)) = length (sf_callers s)"
    "length (sf_flights (finish_caller c r s)) = length (sf_flights s)"
    "cl_flight (sf_callers (finish_caller c r s) ! d) = cl_flight (sf_callers s ! d)"
    "cl_hasSignal (sf_callers (finish_caller c r s) ! d) = cl_hasSignal (sf_callers s ! d)"
    "fl_outcome (sf_flights (finish_caller c r s) ! j) = fl_outcome (sf_flights s ! j)"
    "waiting (finish_caller c r s) j = waiting s j - {c}"
    "fl_settlement (sf_flights (finish_caller c r s) ! j) = fl_settlement (sf_flights s ! j)"
    "fl_key (sf_flights (finish_caller c r s) ! j) = fl_key (sf_flights s ! j)"
proof -
  let ?i = "cl_flight (sf_callers s ! c)"
  have i: "?i < length (sf_flights s)" using ok_parts(2) [OF assms] by (simp add: caller_ok_def Let_def)
  have out: "cl_result (sf_callers s ! c) \<noteq> None \<Longrightarrow> c \<notin> waiting s j" by (simp add: waiting_def)
  note eq = finish_caller_eq [OF assms(2) _ refl i] and w = waiting_finish [OF assms(2) _ refl i]
  show "length (sf_callers (finish_caller c r s)) = length (sf_callers s)"
    "length (sf_flights (finish_caller c r s)) = length (sf_flights s)"
    by (cases "cl_result (sf_callers s ! c)"; simp add: eq finish_caller_done)+
  show "cl_flight (sf_callers (finish_caller c r s) ! d) = cl_flight (sf_callers s ! d)"
    "cl_hasSignal (sf_callers (finish_caller c r s) ! d) = cl_hasSignal (sf_callers s ! d)"
    using assms(2) by (cases "cl_result (sf_callers s ! c)"; cases "d = c"; simp add: eq finish_caller_done)+
  show "fl_outcome (sf_flights (finish_caller c r s) ! j) = fl_outcome (sf_flights s ! j)"
    "fl_settlement (sf_flights (finish_caller c r s) ! j) = fl_settlement (sf_flights s ! j)"
    "fl_key (sf_flights (finish_caller c r s) ! j) = fl_key (sf_flights s ! j)"
    using i by (cases "cl_result (sf_callers s ! c)"; cases "j = ?i"; simp add: eq finish_caller_done)+
  show "waiting (finish_caller c r s) j = waiting s j - {c}"
    using out by (cases "cl_result (sf_callers s ! c)"; simp add: w finish_caller_done)
qed

lemma fold_finish_marked:
  "sf_ok s \<Longrightarrow> set cs \<subseteq> waiting s i \<Longrightarrow> i < length (sf_flights s) \<Longrightarrow> fl_outcome (sf_flights s ! i) = Some r \<Longrightarrow>
   distinct cs \<Longrightarrow>
   fold (\<lambda>c. finish_caller c r) cs (upd_flight i (mark_settled r) s) =
     upd_flight i (mark_settled r) (fold (\<lambda>c. finish_caller c r) cs s) \<and>
   sf_ok (fold (\<lambda>c. finish_caller c r) cs s) \<and>
   waiting (fold (\<lambda>c. finish_caller c r) cs s) i = waiting s i - set cs \<and>
   length (sf_flights (fold (\<lambda>c. finish_caller c r) cs s)) = length (sf_flights s) \<and>
   fl_outcome (sf_flights (fold (\<lambda>c. finish_caller c r) cs s) ! i) = Some r \<and>
   length (sf_callers (fold (\<lambda>c. finish_caller c r) cs s)) = length (sf_callers s)"
proof (induction cs arbitrary: s)
  case (Cons c cs)
  from Cons.prems(2) have c: "c < length (sf_callers s)" "cl_flight (sf_callers s ! c) = i" by (auto simp: waiting_def)
  have "sf_ok (finish_caller c r s)"
    using c Cons.prems(4) by (intro ok_finish [OF Cons.prems(1)]) (auto simp: result_fits_def split: sum.splits)
  with Cons.IH [of "finish_caller c r s"] Cons.prems finish_marked [OF c Cons.prems(3)] show ?case
    by (auto simp: finish_keeps [OF Cons.prems(1) c(1)])
qed simp

lemma ok_settleWaiters: "sf_ok s \<Longrightarrow> sf_ok (settleWaiters i s)"
proof (cases "i < length (sf_flights s) \<and> fl_settlement (sf_flights s ! i) = None \<and> fl_outcome (sf_flights s ! i) \<noteq> None")
  case True
  assume ok: "sf_ok s"
  from True obtain r where r: "fl_outcome (sf_flights s ! i) = Some r" by auto
  from True ok_parts(3) [OF ok, of i] have ws: "set (fl_waiters (sf_flights s ! i)) = waiting s i"
    "distinct (fl_waiters (sf_flights s ! i))" by (simp_all add: flight_fits_def counts_fit_def)
  let ?t = "fold (\<lambda>c. finish_caller c r) (fl_waiters (sf_flights s ! i)) s"
  from fold_finish_marked [OF ok _ _ r ws(2)] ws(1) True
  have t: "fold (\<lambda>c. finish_caller c r) (fl_waiters (sf_flights s ! i)) (upd_flight i (mark_settled r) s) =
      upd_flight i (mark_settled r) ?t" "sf_ok ?t" "waiting ?t i = {}" "i < length (sf_flights ?t)"
      "fl_outcome (sf_flights ?t ! i) = Some r" by auto
  have "flight_fits (mark_settled r (sf_flights ?t ! i)) (waiting ?t i) (counted ?t i)"
    using ok_parts(3) [OF t(2,4)] t(3,5) by (simp add: flight_fits_def mark_settled_def) (simp add: counts_fit_def)
  then have "sf_ok (upd_flight i (mark_settled r) ?t)"
    by (intro ok_upd_flight [OF t(2,4)]) (simp_all add: mark_settled_def)
  moreover have "settleWaiters i s = upd_flight i (mark_settled r) ?t"
    using True r t(1) by (simp add: settleWaiters_def mark_settled_def [abs_def])
  ultimately show ?thesis by simp
next
  case False
  then show "sf_ok s \<Longrightarrow> ?thesis" by (auto simp: settleWaiters_def split: option.split)
qed

subsection \<open>Calls\<close>

lemma sets_appended:
  assumes "sf_callers t = sf_callers s @ [x]" "c = length (sf_callers s)"
  shows "waiting t j = waiting s j \<union> (if cl_flight x = j \<and> cl_result x = None then {c} else {})"
    "counted t j = counted s j \<union> (if cl_flight x = j \<and> cl_counted x then {c} else {})"
  using assms by (auto simp: waiting_def counted_def nth_append less_Suc_eq)

lemma ok_append_caller:
  assumes ok: "sf_ok s" and i: "i < length (sf_flights s)" and x: "cl_flight x = i"
    and res: "result_fits (cl_hasSignal x) (fl_outcome (sf_flights s ! i)) (cl_result x)"
    and same: "fl_key g = fl_key (sf_flights s ! i)" "fl_cleaned g = fl_cleaned (sf_flights s ! i)"
      "fl_aborted g = fl_aborted (sf_flights s ! i)" "fl_outcome g = fl_outcome (sf_flights s ! i)"
    and t: "sf_callers t = sf_callers s @ [x]" "sf_flights t = (sf_flights s)[i := g]" "sf_inflight t = sf_inflight s"
    and fits: "flight_fits g (waiting t i) (counted t i)"
  shows "sf_ok t"
proof -
  have out: "fl_outcome (sf_flights t ! k) = fl_outcome (sf_flights s ! k)" for k
    using i same by (cases "k = i") (auto simp: t)
  have "flight_ok t j" if "j < length (sf_flights s)" for j
    using ok_parts(3) [OF ok that] fits x sets_appended [OF t(1) refl] i
    by (cases "j = i") (auto simp: flight_ok_def t(2))
  moreover have "caller_ok t d" if "d < length (sf_callers t)" for d
  proof (cases "d < length (sf_callers s)")
    case True
    with ok_parts(2) [OF ok True] show ?thesis by (simp add: caller_ok_def Let_def out t(1) nth_append) (simp add: t(2))
  next
    case False
    with that have "sf_callers t ! d = x" by (simp add: t(1) less_Suc_eq)
    with res x i show ?thesis by (simp add: caller_ok_def Let_def out) (simp add: t(2))
  qed
  moreover have "map_entries_ok t"
  proof (rule map_entriesI)
    fix key j assume "jm_get (sf_inflight t) key = Some j"
    then have "jm_get (sf_inflight s) key = Some j" by (simp add: t)
    from entry_ok [OF ok_parts(1) [OF ok] this] same i show "j < length (sf_flights t) \<and>
      fl_key (sf_flights t ! j) = key \<and> \<not> fl_cleaned (sf_flights t ! j) \<and> \<not> fl_aborted (sf_flights t ! j)"
      unfolding t by (cases "j = i") auto
  qed (use entries_distinct [OF ok_parts(1) [OF ok]] t in simp)
  ultimately show ?thesis by (simp add: sf_ok_def t(2))
qed

text \<open>A call that asks for cancellation or not, and that counts as a follower or not, starts to wait.\<close>

definition wait_flight :: "nat \<Rightarrow> bool \<Rightarrow> bool \<Rightarrow> bool \<Rightarrow> ('v, 'e) singleflight \<Rightarrow> ('v, 'e) singleflight" where
  "wait_flight i cancel b hasSignal s =
     waitForEntry i hasSignal b
       (upd_flight i (\<lambda>f. f\<lparr>fl_cancelWhenUnobserved := fl_cancelWhenUnobserved f \<or> cancel,
                          fl_followers := fl_followers f + (if b then 1 else 0)\<rparr>) s)"

lemma counts_waits:
  "counts_fit n m ws None ou sd cl False can W C \<Longrightarrow> c \<notin> W \<Longrightarrow> c \<notin> C \<Longrightarrow> finite W \<Longrightarrow> finite C \<Longrightarrow>
   counts_fit (Suc n) (m + (if b then 1 else 0)) (ws @ [c]) None ou sd cl False (can \<or> can') (insert c W) (C \<union> (if b then {c} else {}))"
  by (auto simp: counts_fit_def)

lemma counts_late:
  "counts_fit n m ws (Some r) ou sd cl False can W C \<Longrightarrow> c \<notin> C \<Longrightarrow> finite C \<Longrightarrow>
   counts_fit n (m + (if b then 1 else 0)) ws' (Some r) ou sd cl False (can \<or> can') W (C \<union> (if b then {c} else {})) \<and> ou = Some r \<and> sd"
  by (auto simp: counts_fit_def)

lemma ok_wait:
  assumes ok: "sf_ok s" and i: "i < length (sf_flights s)" and live: "\<not> fl_aborted (sf_flights s ! i)"
  shows "sf_ok (wait_flight i cancel b sig s)"
proof -
  let ?c = "length (sf_callers s)" and ?f = "sf_flights s ! i" and ?t = "wait_flight i cancel b sig s"
  have fresh: "?c \<notin> waiting s i" "?c \<notin> counted s i" by (simp_all add: waiting_def counted_def)
  have fit: "counts_fit (fl_waiterCount ?f) (fl_followers ?f) (fl_waiters ?f) (fl_settlement ?f) (fl_outcome ?f) (fl_settled ?f)
      (fl_cleaned ?f) False (fl_cancelWhenUnobserved ?f) (waiting s i) (counted s i)"
    using ok_parts(3) [OF ok i] live by (simp add: flight_fits_def)
  define g where "g = ?f\<lparr>fl_cancelWhenUnobserved := fl_cancelWhenUnobserved ?f \<or> cancel,
                          fl_followers := fl_followers ?f + (if b then 1 else 0)\<rparr>"
  show ?thesis
  proof (cases "fl_settlement ?f")
    case None
    define h where "h = g\<lparr>fl_waiterCount := Suc (fl_waiterCount ?f), fl_waiters := fl_waiters ?f @ [?c]\<rparr>"
    define x :: "('a, 'b) caller" where "x = \<lparr>cl_flight = i, cl_hasSignal = sig, cl_result = None, cl_counted = b\<rparr>"
    have t: "sf_callers ?t = sf_callers s @ [x]" "sf_flights ?t = (sf_flights s)[i := h]" "sf_inflight ?t = sf_inflight s"
      using None i by (simp_all add: wait_flight_def waitForEntry_def Let_def upd_flight_def h_def g_def x_def)
    have "flight_fits h (waiting ?t i) (counted ?t i)"
      using counts_waits [of _ _ _ _ _ _ _ _ _ ?c b cancel, OF fit [unfolded None] fresh finite_waiting finite_counted] live None
      by (simp add: flight_fits_def sets_appended [OF t(1) refl] h_def g_def x_def)
    then show ?thesis
      by (intro ok_append_caller [OF ok i _ _ _ _ _ _ t]) (simp_all add: x_def h_def g_def result_fits_def)
  next
    case (Some r)
    from counts_late [of _ _ _ r _ _ _ _ _ _ ?c b, OF fit [unfolded Some] fresh(2) finite_counted]
    have late: "fl_outcome ?f = Some r" "fl_settled ?f" by simp_all
    define x :: "('a, 'b) caller" where "x = \<lparr>cl_flight = i, cl_hasSignal = sig, cl_result = Some r, cl_counted = b\<rparr>"
    define h where "h = g\<lparr>fl_waiters := removeAll ?c (fl_waiters ?f)\<rparr>"
    have t: "sf_callers ?t = sf_callers s @ [x]" "sf_flights ?t = (sf_flights s)[i := h]" "sf_inflight ?t = sf_inflight s"
      using Some i late
      by (simp_all add: wait_flight_def waitForEntry_def Let_def upd_flight_def upd_caller_def h_def g_def x_def
          finish_caller_def release_waiter_def)
    have "flight_fits h (waiting ?t i) (counted ?t i)"
      using counts_late [of _ _ _ r _ _ _ _ _ _ ?c b "removeAll ?c (fl_waiters ?f)" cancel,
          OF fit [unfolded Some] fresh(2) finite_counted] live Some late
      by (simp add: flight_fits_def sets_appended [OF t(1) refl] h_def g_def x_def)
    then show ?thesis
      using late by (intro ok_append_caller [OF ok i _ _ _ _ _ _ t])
        (auto simp: x_def h_def g_def result_fits_def split: sum.splits)
  qed
qed

text \<open>A new operation, before its first caller waits and asks for anything.\<close>

definition new_flight :: "string \<Rightarrow> bool \<Rightarrow> 'e option \<Rightarrow> ('v, 'e) flight" where
  "new_flight key timer thrown =
     \<lparr>fl_key = key, fl_followers = 0, fl_waiterCount = 0, fl_waiters = [], fl_aborted = False,
      fl_settled = (thrown \<noteq> None), fl_outcome = map_option Inl thrown, fl_settlement = None, fl_cleaned = False,
      fl_cancelWhenUnobserved = False, fl_staleTimer = timer\<rparr>"

definition with_flight :: "string \<Rightarrow> ('v, 'e) flight \<Rightarrow> ('v, 'e) singleflight \<Rightarrow> ('v, 'e) singleflight" where
  "with_flight key f s =
     s\<lparr>sf_flights := sf_flights s @ [f], sf_inflight := jm_set key (length (sf_flights s)) (sf_inflight s)\<rparr>"

lemma ok_new_flight:
  assumes ok: "sf_ok s"
  shows "sf_ok (with_flight key (new_flight key timer thrown) s)" (is "sf_ok ?t")
proof -
  let ?n = "length (sf_flights s)"
  obtain f :: "('a, 'b) flight" where f: "f = new_flight key timer thrown" "fl_key f = key" "\<not> fl_cleaned f" "\<not> fl_aborted f" "flight_fits f {} {}"
    by (simp add: flight_fits_def counts_fit_def new_flight_def)
  have t: "sf_callers ?t = sf_callers s" "sf_flights ?t = sf_flights s @ [f]"
    "sf_inflight ?t = jm_set key ?n (sf_inflight s)" "waiting ?t = waiting s" "counted ?t = counted s"
    by (simp_all add: with_flight_def waiting_def counted_def fun_eq_iff f(1))
  have none: "waiting s ?n = {}" "counted s ?n = {}"
    using ok by (auto simp: sf_ok_def caller_ok_def Let_def waiting_def counted_def)
  have "flight_ok ?t j" if "j < length (sf_flights ?t)" for j
    using that ok_parts(3) [OF ok, of j] none
    f(5) by (auto simp: flight_ok_def t nth_append less_Suc_eq)
  moreover have "caller_ok ?t d" if "d < length (sf_callers s)" for d
    using ok_parts(2) [OF ok that] by (simp add: caller_ok_def Let_def t nth_append)
  moreover have "map_entries_ok ?t"
  proof (rule map_entriesI)
    fix k j assume "jm_get (sf_inflight ?t) k = Some j"
    then have "k = key \<and> j = ?n \<or> jm_get (sf_inflight s) k = Some j"
      by (simp add: t jsmap_simps split: if_splits)
    then show "j < length (sf_flights ?t) \<and> fl_key (sf_flights ?t ! j) = k \<and> \<not> fl_cleaned (sf_flights ?t ! j) \<and>
      \<not> fl_aborted (sf_flights ?t ! j)"
      using entry_ok [OF ok_parts(1) [OF ok], of k j] f(2-4) by (auto simp: t nth_append)
  qed (use entries_distinct [OF ok_parts(1) [OF ok]] t in auto)
  ultimately show ?thesis by (simp add: sf_ok_def t(1))
qed

lemma swap_inflight: "s\<lparr>sf_inflight := m, sf_flights := fs\<rparr> = s\<lparr>sf_flights := fs, sf_inflight := m\<rparr>"
  by simp

lemma start_flight_eq:
  "start_flight key opts thrown s =
     wait_flight (length (sf_flights s)) (fo_cancelWhenUnobserved opts) False (fo_hasSignal opts)
       (with_flight key (new_flight key (fo_staleAfterMs opts \<noteq> None) thrown) s)"
  by (simp add: start_flight_def wait_flight_def with_flight_def new_flight_def Let_def upd_flight_def swap_inflight)

lemma join_flight_eq:
  "join_flight i opts s = (s, Some FollowerLimit) \<or>
   join_flight i opts s = (wait_flight i (fo_cancelWhenUnobserved opts) True (fo_hasSignal opts) s, None)"
  by (simp add: join_flight_def wait_flight_def)

lemma ok_do: "sf_ok s \<Longrightarrow> sf_ok (fst (sf_do key opts thrown s))"
proof (cases "jm_get (sf_inflight s) key")
  case None
  assume ok: "sf_ok s"
  have "sf_ok (start_flight key opts thrown s)"
    unfolding start_flight_eq
    by (rule ok_wait [OF ok_new_flight [OF ok]]) (simp_all add: with_flight_def new_flight_def nth_append)
  with ok None show ?thesis by (simp add: sf_do_def split: option.split)
next
  case (Some i)
  assume ok: "sf_ok s"
  from entry_ok [OF ok_parts(1) [OF ok] Some] have "sf_ok (fst (join_flight i opts s))"
    using join_flight_eq [of i opts s] ok ok_wait [OF ok] by auto
  with ok Some show ?thesis by (simp add: sf_do_def split: option.split)
qed

lemma ok_step: "sf_ok s \<Longrightarrow> sf_ok (flight_step ev s)"
  by (cases ev) (simp_all add: ok_do ok_operation_settles ok_settleWaiters ok_cleanup ok_abort ok_leave ok_stale ok_forget)

lemma ok_empty: "sf_ok newSingleflight"
  by (simp add: sf_ok_def newSingleflight_def map_entries_ok_def jsmap_simps)

lemma ok_run: "sf_ok (flight_run evs)"
proof -
  have "sf_ok s \<Longrightarrow> sf_ok (fold flight_step evs s)" for s
    by (induction evs arbitrary: s) (simp_all add: ok_step)
  from this [OF ok_empty] show ?thesis by (simp add: flight_run_def)
qed

subsection \<open>One operation per key\<close>

definition live :: "string \<Rightarrow> ('v, 'e) singleflight \<Rightarrow> nat \<Rightarrow> bool" where
  "live key s i \<longleftrightarrow> i < length (sf_flights s) \<and> fl_key (sf_flights s ! i) = key \<and>
     \<not> fl_cleaned (sf_flights s ! i) \<and> \<not> fl_aborted (sf_flights s ! i)"

definition registered :: "string \<Rightarrow> ('v, 'e) singleflight \<Rightarrow> bool" where
  "registered key s \<longleftrightarrow> (\<forall>i. live key s i \<longrightarrow> jm_get (sf_inflight s) key = Some i)"

lemma registered_step:
  "registered key s \<Longrightarrow> (\<And>j. live key t j \<Longrightarrow> live key s j) \<Longrightarrow>
   jm_get (sf_inflight t) key = jm_get (sf_inflight s) key \<or> (\<exists>i. jm_get (sf_inflight s) key = Some i \<and> \<not> live key t i) \<Longrightarrow>
   registered key t"
  unfolding registered_def by (metis option.inject)

text \<open>Changes of an operation that do not bring it back to life.\<close>

lemma registered_upd:
  assumes "registered key s"
    "fl_key (g (sf_flights s ! i)) = fl_key (sf_flights s ! i)"
    "fl_cleaned (sf_flights s ! i) \<Longrightarrow> fl_cleaned (g (sf_flights s ! i))"
    "fl_aborted (sf_flights s ! i) \<Longrightarrow> fl_aborted (g (sf_flights s ! i))"
  shows "registered key (upd_flight i g s)"
proof (rule registered_step [OF assms(1)])
  show "live key s j" if "live key (upd_flight i g s) j" for j
    using that assms(2-4) by (cases "j = i") (auto simp: live_def)
qed simp

lemma registered_upd_caller [simp]: "registered key (upd_caller c h s) = registered key s"
  by (simp add: registered_def live_def upd_caller_def)

text \<open>An operation that is cancelled or cleaned up leaves the map.\<close>

lemma registered_drop:
  assumes reg: "registered key s"
    and dead: "i < length (sf_flights s) \<Longrightarrow> fl_cleaned (sf_flights s ! i) \<or> fl_aborted (sf_flights s ! i)"
  shows "registered key (drop_inflight i s)"
proof (rule registered_step [OF reg])
  have lv: "live key (drop_inflight i s) j = live key s j" for j by (simp add: live_def)
  show "live key s j" if "live key (drop_inflight i s) j" for j using that lv by simp
  from dead have "\<not> live key s i" by (auto simp: live_def)
  then show "jm_get (sf_inflight (drop_inflight i s)) key = jm_get (sf_inflight s) key \<or>
      (\<exists>k. jm_get (sf_inflight s) key = Some k \<and> \<not> live key (drop_inflight i s) k)"
    unfolding lv by (auto simp: drop_inflight_def Let_def jsmap_simps live_def)
qed


lemma registered_timer: "registered key s \<Longrightarrow> registered key (clear_timer i s)"
  unfolding clear_timer_def by (rule registered_upd) simp_all

lemma registered_release: "registered key s \<Longrightarrow> registered key (release_waiter i s)"
  unfolding release_waiter_def Let_def
  by (auto intro!: registered_timer registered_drop registered_upd)

lemma registered_finish: "registered key s \<Longrightarrow> registered key (finish_caller c r s)"
  unfolding finish_caller_def Let_def by (auto intro!: registered_release registered_upd)

lemma registered_settleWaiters: "registered key s \<Longrightarrow> registered key (settleWaiters i s)"
proof -
  have "registered key s \<Longrightarrow> registered key (fold (\<lambda>c. finish_caller c r) cs s)" for r cs and s :: "('a, 'b) singleflight"
    by (induction cs arbitrary: s) (simp_all add: registered_finish)
  note this [OF registered_upd]
  then show "registered key s \<Longrightarrow> ?thesis"
    unfolding settleWaiters_def by (simp split: option.split)
qed

lemma drop_upd:
  "(\<And>f. fl_key (g f) = fl_key f) \<Longrightarrow> upd_flight i g (drop_inflight i s) = drop_inflight i (upd_flight i g s)"
  by (cases "i < length (sf_flights s)") (auto simp: drop_inflight_def Let_def upd_flight_def list_update_beyond)

lemma registered_cleanup: "registered key s \<Longrightarrow> registered key (cleanup_flight i s)"
  unfolding cleanup_flight_def drop_upd [of "\<lambda>f. f\<lparr>fl_cleaned := True\<rparr>", simplified]
  by (auto intro!: registered_drop registered_upd registered_timer simp: clear_timer_def)

lemma registered_wait:
  assumes "registered key s" "sf_ok s" "i < length (sf_flights s)" "\<not> fl_aborted (sf_flights s ! i)"
  shows "registered key (wait_flight i cancel b sig s)"
proof -
  have app: "registered key (s\<lparr>sf_callers := cs\<rparr>) = registered key s" for cs and s :: "('a, 'b) singleflight"
    by (simp add: registered_def live_def)
  show ?thesis using assms(1)
    unfolding wait_flight_def waitForEntry_def Let_def
    by (auto intro!: registered_finish registered_upd simp: app split: option.split)
qed


lemma registered_new:
  assumes "registered key s" "jm_get (sf_inflight s) k = None" "fl_key f = k"
  shows "registered key (with_flight k f s)"
proof -
  have "\<not> live k s i" if "k = key" for i using assms that by (auto simp: registered_def)
  with assms show ?thesis
    by (auto simp: registered_def live_def with_flight_def jsmap_simps nth_append less_Suc_eq split: if_splits)
qed

lemma registered_do: "registered key s \<Longrightarrow> sf_ok s \<Longrightarrow> registered key (fst (sf_do k opts thrown s))"
proof (cases "jm_get (sf_inflight s) k")
  case None
  assume *: "registered key s" "sf_ok s"
  have "registered key (start_flight k opts thrown s)"
    unfolding start_flight_eq
    by (rule registered_wait [OF registered_new [OF *(1) None] ok_new_flight [OF *(2)]])
      (simp_all add: with_flight_def new_flight_def nth_append)
  with * None show ?thesis by (simp add: sf_do_def split: option.split)
next
  case (Some i)
  assume *: "registered key s" "sf_ok s"
  from entry_ok [OF ok_parts(1) [OF *(2)] Some] have "registered key (fst (join_flight i opts s))"
    using join_flight_eq [of i opts s] * registered_wait [OF *] by auto
  with * Some show ?thesis by (simp add: sf_do_def split: option.split)
qed

text \<open>A key that is not forgotten keeps its operation, as long as no timer evicts it.\<close>

fun evicts :: "string \<Rightarrow> ('v, 'e) flight_event \<Rightarrow> bool" where
  "evicts key (StaleTimer i) = True"
| "evicts key (Forget k) = (k = key)"
| "evicts key _ = False"

lemma registered_forget: "registered key s \<Longrightarrow> k \<noteq> key \<Longrightarrow> registered key (fst (sf_forget k s))"
proof (cases "jm_get (sf_inflight s) k")
  case (Some i)
  assume reg: "registered key s" and k: "k \<noteq> key"
  have "live key ((clear_timer i s)\<lparr>sf_inflight := m\<rparr>) j = live key (clear_timer i s) j" for m j by (simp add: live_def)
  with registered_timer [OF reg, of i] k have "registered key ((clear_timer i s)\<lparr>sf_inflight := jm_del k (sf_inflight s)\<rparr>)"
    by (simp add: registered_def jsmap_simps clear_timer_def)
  with Some show ?thesis by (simp add: sf_forget_def)
qed (simp add: sf_forget_def)

lemma registered_flight_step: "registered key s \<Longrightarrow> sf_ok s \<Longrightarrow> \<not> evicts key ev \<Longrightarrow> registered key (flight_step ev s)"
  by (cases ev)
    (auto simp: registered_do registered_settleWaiters registered_cleanup registered_forget
      operation_settles_def caller_aborts_def follower_leaves_def intro!: registered_upd registered_finish)

lemma registered_run: "\<forall>ev \<in> set evs. \<not> evicts key ev \<Longrightarrow> registered key (flight_run evs)"
proof -
  have "\<forall>ev \<in> set evs. \<not> evicts key ev \<Longrightarrow> registered key s \<Longrightarrow> sf_ok s \<Longrightarrow> registered key (fold flight_step evs s)" for s
    by (induction evs arbitrary: s) (simp_all add: registered_flight_step ok_step)
  from this [of newSingleflight] show "\<forall>ev \<in> set evs. \<not> evicts key ev \<Longrightarrow> ?thesis"
    using ok_empty by (simp add: flight_run_def) (simp add: registered_def live_def newSingleflight_def)
qed

subsection \<open>Properties\<close>

text \<open>C28: In every run, whatever the order of calls, results, reactions, aborts and evictions, the count of waiting callers
  of an operation and its count of followers are exact; once its result was handed out nobody waits for it; it is
  cancelled only when a caller asked for that and nobody waits any more, and then it is unless it had settled; and a
  caller that was answered got the outcome of the operation it joined, or the error of its own signal.\<close>

theorem shared_operation_accounts:
  assumes "s = flight_run evs" "i < length (sf_flights s)" "f = sf_flights s ! i"
  shows "fl_waiterCount f = card (waiting s i) \<and> fl_followers f = card (counted s i) \<and>
    (fl_settlement f \<noteq> None \<longrightarrow> waiting s i = {}) \<and>
    (fl_aborted f \<longrightarrow> waiting s i = {} \<and> fl_cancelWhenUnobserved f) \<and>
    (waiting s i = {} \<and> fl_cancelWhenUnobserved f \<and> \<not> fl_settled f \<longrightarrow> fl_aborted f) \<and>
    (\<forall>c < length (sf_callers s). \<forall>r. cl_flight (sf_callers s ! c) = i \<and> cl_result (sf_callers s ! c) = Some r \<longrightarrow>
       fl_outcome f = Some r \<or> (cl_hasSignal (sf_callers s ! c) \<and> (\<exists>e. r = Inl e)))"
proof -
  have ok: "sf_ok s" by (simp add: assms ok_run)
  from ok_parts(3) [OF ok assms(2)] have fit: "flight_fits f (waiting s i) (counted s i)" by (simp add: assms(3))
  have "fl_outcome f = Some r \<or> (cl_hasSignal (sf_callers s ! c) \<and> (\<exists>e. r = Inl e))"
    if "c < length (sf_callers s)" "cl_flight (sf_callers s ! c) = i" "cl_result (sf_callers s ! c) = Some r" for c r
    using ok_parts(2) [OF ok that(1)] that(2,3)
    by (auto simp: caller_ok_def Let_def result_fits_def assms(3) split: sum.splits)
  with fit show ?thesis unfolding flight_fits_def counts_fit_def by blast
qed

text \<open>C29: As long as a key is not forgotten and no stale timer fires, it has at most one operation in flight: two that are
  neither cancelled nor cleaned up are the same, so concurrent callers of a key share one execution.\<close>

theorem one_operation_per_key:
  assumes "s = flight_run evs" "\<forall>ev \<in> set evs. \<not> evicts key ev" "live key s i" "live key s j"
  shows "i = j"
proof -
  from registered_run [OF assms(2)] assms(1) have "registered key s" by simp
  with assms(3,4) have "Some i = Some j" unfolding registered_def by metis
  then show ?thesis by simp
qed

text \<open>Two callers share an operation; one leaves by its signal, the other gets the value.\<close>

definition observed_call :: flight_options where
  "observed_call = \<lparr>fo_staleAfterMs = None, fo_maxFollowers = None, fo_hasSignal = True, fo_signalAborted = False,
     fo_cancelWhenUnobserved = True\<rparr>"

definition shared_events :: "(nat, nat) flight_event list" where
  "shared_events =
     [Call ''a'' observed_call None, Call ''a'' observed_call None, CallerAborts 0 7, OperationSettles 0 (Inr 5), SettleWaiters 0]"

lemmas flight_eval = flight_run_def shared_events_def observed_call_def newSingleflight_def sf_do_def check_options_def
  start_flight_def join_flight_def waitForEntry_def finish_caller_def release_waiter_def clear_timer_def drop_inflight_def
  upd_flight_def upd_caller_def caller_aborts_def operation_settles_def settleWaiters_def cleanup_flight_def

lemma shared_events_run:
  "flight_run shared_events =
     \<lparr>sf_inflight = [(''a'', 0)],
      sf_flights = [\<lparr>fl_key = ''a'', fl_followers = 1, fl_waiterCount = 0, fl_waiters = [], fl_aborted = False, fl_settled = True,
        fl_outcome = Some (Inr 5), fl_settlement = Some (Inr 5), fl_cleaned = False, fl_cancelWhenUnobserved = True,
        fl_staleTimer = False\<rparr>],
      sf_callers = [\<lparr>cl_flight = 0, cl_hasSignal = True, cl_result = Some (Inl 7), cl_counted = False\<rparr>,
        \<lparr>cl_flight = 0, cl_hasSignal = True, cl_result = Some (Inr 5), cl_counted = True\<rparr>]\<rparr>"
  by (simp add: flight_eval Let_def)

theorem shared_operation_accounts_witness:
  "fl_waiterCount (sf_flights (flight_run shared_events) ! 0) = card (waiting (flight_run shared_events) 0)"
  using shared_operation_accounts [OF refl _ refl, of 0 shared_events] by (simp add: shared_events_run)

theorem one_operation_per_key_witness:
  "live ''a'' (flight_run shared_events) 0 \<and> \<not> live ''a'' (flight_run shared_events) 1"
proof -
  have "live ''a'' (flight_run shared_events) 0" by (simp add: live_def shared_events_run)
  moreover have "\<forall>ev \<in> set shared_events. \<not> evicts ''a'' ev" by (simp add: shared_events_def)
  ultimately show ?thesis using one_operation_per_key [OF refl] by (metis zero_neq_one)
qed

end
