(* ===== verification/RetryPolicy.thy ===== *)
theory RetryPolicy
  imports CacheTtl
begin

text \<open>
  The retry policy of workflow nodes: \<open>workflow/executor/retry-policy.ts\<close>, the validation of a retry configuration
  and of numeric durations in \<open>workflow/types.ts\<close>, the codes of \<open>observability/telemetry-error.ts\<close> that count as
  transient and the timer range of \<open>utils/timer.ts\<close>. Delays are in milliseconds; the rounding of floating-point
  numbers is left out.
\<close>

subsection \<open>Numbers\<close>

definition MAX_TIMER_DELAY_MS :: rat where
  "MAX_TIMER_DELAY_MS = 2147483647"

fun isSafeInteger :: "js_number \<Rightarrow> bool" where
  "isSafeInteger (Num q) = (q = of_int \<lfloor>q\<rfloor> \<and> \<bar>q\<bar> \<le> MAX_SAFE_INTEGER)"
| "isSafeInteger _ = False"

fun js_less :: "js_number \<Rightarrow> rat \<Rightarrow> bool" where
  "js_less (Num q) b = (q < b)"
| "js_less MinusInfinity b = True"
| "js_less _ b = False"

fun js_greater :: "js_number \<Rightarrow> rat \<Rightarrow> bool" where
  "js_greater (Num q) b = (q > b)"
| "js_greater PlusInfinity b = True"
| "js_greater _ b = False"

text \<open>\<open>normalizeTimerDurationMs\<close>, the check of \<open>sleep\<close>.\<close>

fun normalizeTimerDurationMs :: "js_number \<Rightarrow> range_error + int" where
  "normalizeTimerDurationMs (Num q) =
     (if q < 0 then Inl RangeError
      else if of_int \<lceil>q\<rceil> > MAX_TIMER_DELAY_MS then Inl RangeError
      else Inr \<lceil>q\<rceil>)"
| "normalizeTimerDurationMs _ = Inl RangeError"

subsection \<open>Validation\<close>

datatype invalid_argument =
    DurationNegative | DurationNotSafe | DurationTooLong | DurationZero
  | NotPlainRecord | NotOwnData
  | MaxAttemptsNotPositive | MaxAttemptsTooMany
  | DelayNotNumber | DelayNegative | DelayNotSafe | DelayTooLong | InitialAboveMax
  | RetryIfNotFunction | BadBackoff

definition validateNumericDuration :: "js_number \<Rightarrow> invalid_argument + js_number" where
  "validateNumericDuration d =
     (if js_less d 0 then Inl DurationNegative
      else if \<not> isSafeInteger d then Inl DurationNotSafe
      else if js_greater d MAX_TIMER_DELAY_MS then Inl DurationTooLong
      else Inr d)"

definition parsePositiveDuration :: "js_number \<Rightarrow> invalid_argument + js_number" where
  "parsePositiveDuration d =
     (case validateNumericDuration d of
        Inl e \<Rightarrow> Inl e
      | Inr m \<Rightarrow> if m = Num 0 then Inl DurationZero else Inr m)"

text \<open>A field of an object that nothing was checked of: absent, undefined, a number, a string, a function, or anything
  else. A field that is inherited or an accessor is \<open>NotData\<close>.\<close>

datatype js_field = JAbsent | JUndefined | JNumber js_number | JString string | JFunction | JOther | NotData

record raw_retry =
  rr_maxAttempts :: js_field
  rr_initialDelay :: js_field
  rr_maxDelay :: js_field
  rr_backoff :: js_field
  rr_retryIf :: js_field

definition inspectRetryConfig :: "raw_retry option \<Rightarrow> invalid_argument + raw_retry" where
  "inspectRetryConfig config =
     (case config of
        None \<Rightarrow> Inl NotPlainRecord
      | Some r \<Rightarrow>
          if NotData \<in> {rr_maxAttempts r, rr_initialDelay r, rr_maxDelay r, rr_backoff r, rr_retryIf r}
          then Inl NotOwnData else Inr r)"

fun validateRetryDelay :: "js_field \<Rightarrow> invalid_argument option" where
  "validateRetryDelay JAbsent = None"
| "validateRetryDelay JUndefined = None"
| "validateRetryDelay (JNumber d) =
     (if js_less d 0 then Some DelayNegative
      else if \<not> isSafeInteger d then Some DelayNotSafe
      else if js_greater d MAX_TIMER_DELAY_MS then Some DelayTooLong
      else None)"
| "validateRetryDelay _ = Some DelayNotNumber"

definition MAX_WORKFLOW_RETRY_ATTEMPTS :: rat where
  "MAX_WORKFLOW_RETRY_ATTEMPTS = 100"

fun validate_attempts :: "js_field \<Rightarrow> invalid_argument option" where
  "validate_attempts JAbsent = None"
| "validate_attempts JUndefined = None"
| "validate_attempts (JNumber n) =
     (if \<not> isSafeInteger n \<or> js_less n 1 then Some MaxAttemptsNotPositive
      else if js_greater n MAX_WORKFLOW_RETRY_ATTEMPTS then Some MaxAttemptsTooMany
      else None)"
| "validate_attempts _ = Some MaxAttemptsNotPositive"

fun delays_crossed :: "js_field \<Rightarrow> js_field \<Rightarrow> bool" where
  "delays_crossed (JNumber (Num i)) (JNumber (Num m)) = (i > m)"
| "delays_crossed _ _ = False"

definition VALID_BACKOFF_STRATEGIES :: "string list" where
  "VALID_BACKOFF_STRATEGIES = [''fixed'', ''linear'', ''exponential'']"

fun valid_backoff :: "js_field \<Rightarrow> bool" where
  "valid_backoff JAbsent = True"
| "valid_backoff JUndefined = True"
| "valid_backoff (JString s) = (s \<in> set VALID_BACKOFF_STRATEGIES)"
| "valid_backoff _ = False"

definition validateRetryConfig :: "raw_retry option \<Rightarrow> invalid_argument option" where
  "validateRetryConfig config =
     (case inspectRetryConfig config of
        Inl e \<Rightarrow> Some e
      | Inr r \<Rightarrow>
          (case validate_attempts (rr_maxAttempts r) of Some e \<Rightarrow> Some e | None \<Rightarrow>
          (case validateRetryDelay (rr_initialDelay r) of Some e \<Rightarrow> Some e | None \<Rightarrow>
          (case validateRetryDelay (rr_maxDelay r) of Some e \<Rightarrow> Some e | None \<Rightarrow>
           if delays_crossed (rr_initialDelay r) (rr_maxDelay r) then Some InitialAboveMax
           else if rr_retryIf r \<notin> {JAbsent, JUndefined, JFunction} then Some RetryIfNotFunction
           else if valid_backoff (rr_backoff r) then None
           else Some BadBackoff))))"

subsection \<open>Which errors are retried\<close>

record workflow_error =
  we_isVeryfront :: bool
  we_status :: js_field
  we_code :: js_field
  we_message :: js_field
  we_slug :: js_field
  we_ownershipLost :: bool

definition RETRYABLE_STATUSES :: "rat set" where
  "RETRYABLE_STATUSES = {408, 425, 429, 500, 502, 503, 504}"

definition transient_codes :: "string list" where
  "transient_codes = [''ECONNRESET'', ''ECONNREFUSED'', ''ETIMEDOUT'', ''EPIPE'', ''EAI_AGAIN'', ''ENOTFOUND'']"

definition word_char :: "char \<Rightarrow> bool" where
  "word_char c \<longleftrightarrow> (let n = of_char c :: nat in (48 \<le> n \<and> n \<le> 57) \<or> (65 \<le> n \<and> n \<le> 90) \<or> n = 95 \<or> (97 \<le> n \<and> n \<le> 122))"

text \<open>A code at the front of the text, followed by a word boundary.\<close>

definition code_here :: "string \<Rightarrow> bool" where
  "code_here text \<longleftrightarrow>
     (\<exists>c \<in> set transient_codes. take (length c) text = c \<and>
        (drop (length c) text = [] \<or> \<not> word_char (hd (drop (length c) text))))"

text \<open>\<open>boundary\<close> tells whether the position is at a word boundary on its left.\<close>

fun code_search :: "bool \<Rightarrow> string \<Rightarrow> bool" where
  "code_search boundary [] = False"
| "code_search boundary (x # xs) = ((boundary \<and> code_here (x # xs)) \<or> code_search (\<not> word_char x) xs)"

definition hasTransientErrorCode :: "string \<Rightarrow> bool" where
  "hasTransientErrorCode text = code_search True text"

text \<open>\<open>retryIf\<close> gives \<open>None\<close> when it throws.\<close>

definition isRetryableWorkflowError :: "workflow_error \<Rightarrow> (workflow_error \<Rightarrow> bool option) option \<Rightarrow> bool" where
  "isRetryableWorkflowError err retryIf =
     (case retryIf of
        Some f \<Rightarrow> f err = Some True
      | None \<Rightarrow>
          if we_isVeryfront err then
            (case we_status err of JNumber (Num q) \<Rightarrow> q \<in> RETRYABLE_STATUSES | _ \<Rightarrow> False)
          else
            hasTransientErrorCode
              (case we_code err of
                 JString code \<Rightarrow> code
               | _ \<Rightarrow> (case we_message err of JString message \<Rightarrow> message | _ \<Rightarrow> [])))"

subsection \<open>The delay before the next attempt\<close>

definition DEFAULT_RETRY_INITIAL_DELAY_MS :: rat where
  "DEFAULT_RETRY_INITIAL_DELAY_MS = 1000"

definition DEFAULT_RETRY_MAX_DELAY_MS :: rat where
  "DEFAULT_RETRY_MAX_DELAY_MS = 30000"

datatype backoff = Fixed | Linear | Exponential

record retry_config =
  rc_maxAttempts :: "nat option"
  rc_initialDelay :: "rat option"
  rc_maxDelay :: "rat option"
  rc_backoff :: "backoff option"
  rc_retryIf :: "(workflow_error \<Rightarrow> bool option) option"

definition initial_delay :: "retry_config option \<Rightarrow> rat" where
  "initial_delay config =
     (case Option.bind config rc_initialDelay of None \<Rightarrow> DEFAULT_RETRY_INITIAL_DELAY_MS | Some d \<Rightarrow> d)"

definition max_delay :: "retry_config option \<Rightarrow> rat" where
  "max_delay config = (case Option.bind config rc_maxDelay of None \<Rightarrow> DEFAULT_RETRY_MAX_DELAY_MS | Some d \<Rightarrow> d)"

definition base_delay :: "nat \<Rightarrow> retry_config option \<Rightarrow> rat" where
  "base_delay attempt config =
     (case Option.bind config rc_backoff of
        Some Exponential \<Rightarrow> initial_delay config * 2 ^ (attempt - 1)
      | Some Linear \<Rightarrow> initial_delay config * of_nat attempt
      | _ \<Rightarrow> initial_delay config)"

text \<open>\<open>rnd\<close> is the number drawn from \<open>Math.random\<close>.\<close>

definition calculateRetryDelay :: "nat \<Rightarrow> rat \<Rightarrow> retry_config option \<Rightarrow> int" where
  "calculateRetryDelay attempt rnd config =
     (let baseDelay = base_delay attempt config;
          jitter = baseDelay * (1/10) * (rnd * 2 - 1)
      in \<lfloor>min (baseDelay + jitter) (max_delay config)\<rfloor>)"

text \<open>The configuration that a record of fields is, once it is valid.\<close>

fun field_rat :: "js_field \<Rightarrow> rat option" where
  "field_rat (JNumber (Num q)) = Some q"
| "field_rat _ = None"

fun field_backoff :: "js_field \<Rightarrow> backoff option" where
  "field_backoff (JString s) =
     (if s = ''exponential'' then Some Exponential else if s = ''linear'' then Some Linear else Some Fixed)"
| "field_backoff _ = None"

definition retry_config_of :: "raw_retry \<Rightarrow> (workflow_error \<Rightarrow> bool option) \<Rightarrow> retry_config" where
  "retry_config_of r f =
     \<lparr>rc_maxAttempts = map_option (\<lambda>q. nat \<lfloor>q\<rfloor>) (field_rat (rr_maxAttempts r)),
      rc_initialDelay = field_rat (rr_initialDelay r),
      rc_maxDelay = field_rat (rr_maxDelay r),
      rc_backoff = field_backoff (rr_backoff r),
      rc_retryIf = (if rr_retryIf r = JFunction then Some f else None)\<rparr>"

subsection \<open>Its range\<close>

lemma validated_delay: "validateRetryDelay f = None \<Longrightarrow> field_rat f = Some q \<Longrightarrow> 0 \<le> q \<and> q \<le> MAX_TIMER_DELAY_MS"
  by (cases f rule: field_rat.cases) (auto split: if_splits)

lemma validated_fields:
  "validateRetryConfig (Some r) = None \<Longrightarrow>
   validateRetryDelay (rr_initialDelay r) = None \<and> validateRetryDelay (rr_maxDelay r) = None \<and>
   validate_attempts (rr_maxAttempts r) = None"
  by (auto simp: validateRetryConfig_def split: sum.splits option.splits if_splits)
    (auto simp: inspectRetryConfig_def split: if_splits)

definition retry_in_range :: "retry_config option \<Rightarrow> bool" where
  "retry_in_range config \<longleftrightarrow> 0 \<le> initial_delay config \<and> 0 \<le> max_delay config \<and> max_delay config \<le> MAX_TIMER_DELAY_MS"

lemma validated_attempts:
  "validate_attempts f = None \<Longrightarrow> field_rat f = Some q \<Longrightarrow> 1 \<le> nat \<lfloor>q\<rfloor> \<and> nat \<lfloor>q\<rfloor> \<le> 100"
  by (cases f rule: field_rat.cases) (auto simp: MAX_WORKFLOW_RETRY_ATTEMPTS_def le_floor_iff le_nat_iff floor_le_iff split: if_splits)

lemma validated_in_range:
  "validateRetryConfig (Some r) = None \<Longrightarrow> retry_in_range (Some (retry_config_of r f))"
  using validated_fields [of r] validated_delay [of "rr_initialDelay r"] validated_delay [of "rr_maxDelay r"]
  by (auto simp: retry_in_range_def initial_delay_def max_delay_def retry_config_of_def MAX_TIMER_DELAY_MS_def
      DEFAULT_RETRY_INITIAL_DELAY_MS_def DEFAULT_RETRY_MAX_DELAY_MS_def split: option.split)

lemma base_nonneg: "0 \<le> initial_delay config \<Longrightarrow> 0 \<le> base_delay attempt config"
  by (simp add: base_delay_def split: option.split backoff.split)

lemma delay_bounds:
  assumes "retry_in_range config" "0 \<le> rnd" "rnd < 1"
  shows "0 \<le> calculateRetryDelay attempt rnd config"
    "of_int (calculateRetryDelay attempt rnd config) \<le> max_delay config"
    "of_int (calculateRetryDelay attempt rnd config) \<le> base_delay attempt config * (11/10)"
    "min (base_delay attempt config * (9/10)) (max_delay config) < of_int (calculateRetryDelay attempt rnd config) + 1"
proof -
  define b where "b = base_delay attempt config"
  define j where "j = b * (1/10) * (rnd * 2 - 1)"
  have b: "0 \<le> b" using assms(1) by (simp add: b_def retry_in_range_def base_nonneg)
  have "b * (rnd * 2 - 1) \<le> b * 1" "b * (- 1) \<le> b * (rnd * 2 - 1)"
    using b assms(2,3) by (intro mult_left_mono; simp)+
  then have j: "j \<le> b / 10" "- b / 10 \<le> j" by (simp_all add: j_def)
  have d: "calculateRetryDelay attempt rnd config = \<lfloor>min (b + j) (max_delay config)\<rfloor>"
    by (simp add: calculateRetryDelay_def Let_def b_def j_def)
  have "0 \<le> b + j" using b j by simp
  then show "0 \<le> calculateRetryDelay attempt rnd config"
    using assms(1) by (simp add: d retry_in_range_def)
  have "of_int \<lfloor>min (b + j) (max_delay config)\<rfloor> \<le> min (b + j) (max_delay config)" by (rule of_int_floor_le)
  then show "of_int (calculateRetryDelay attempt rnd config) \<le> max_delay config"
    "of_int (calculateRetryDelay attempt rnd config) \<le> base_delay attempt config * (11/10)"
    using j by (simp_all add: d b_def [symmetric])
  have "min (b + j) (max_delay config) < of_int \<lfloor>min (b + j) (max_delay config)\<rfloor> + 1" by linarith
  then show "min (base_delay attempt config * (9/10)) (max_delay config) < of_int (calculateRetryDelay attempt rnd config) + 1"
    using j by (simp add: d b_def [symmetric] min_def split: if_splits)
qed

text \<open>A delay of a valid configuration is one that \<open>sleep\<close> takes.\<close>

lemma delay_sleepable:
  assumes "retry_in_range config" "0 \<le> rnd" "rnd < 1"
  shows "normalizeTimerDurationMs (Num (of_int (calculateRetryDelay attempt rnd config))) =
    Inr (calculateRetryDelay attempt rnd config)"
  using delay_bounds(1,2) [OF assms, of attempt] assms(1) by (simp add: retry_in_range_def)

text \<open>With a validated configuration the delay before the next attempt lies within a tenth of the backoff that was
  asked for, up to the rounding down to a millisecond, never exceeds the maximal delay, and is one that the timer
  accepts.\<close>

theorem retry_delay_follows_policy:
  assumes "validateRetryConfig (Some r) = None" "0 \<le> rnd" "rnd < 1" "config = Some (retry_config_of r f)"
  shows "of_int (calculateRetryDelay attempt rnd config) \<le> min (max_delay config) (base_delay attempt config * (11/10)) \<and>
    min (base_delay attempt config * (9/10)) (max_delay config) < of_int (calculateRetryDelay attempt rnd config) + 1 \<and>
    normalizeTimerDurationMs (Num (of_int (calculateRetryDelay attempt rnd config))) =
      Inr (calculateRetryDelay attempt rnd config)"
  using delay_bounds(2-4) [OF _ assms(2,3)] delay_sleepable [OF _ assms(2,3)] validated_in_range [OF assms(1)]
  unfolding assms(4) by simp

definition sample_retry :: raw_retry where
  "sample_retry = \<lparr>rr_maxAttempts = JNumber (Num 3), rr_initialDelay = JNumber (Num 100), rr_maxDelay = JNumber (Num 1000),
     rr_backoff = JString ''exponential'', rr_retryIf = JAbsent\<rparr>"

lemma sample_retry_valid: "validateRetryConfig (Some sample_retry) = None"
  by (simp add: sample_retry_def validateRetryConfig_def inspectRetryConfig_def MAX_SAFE_INTEGER_def MAX_TIMER_DELAY_MS_def
      MAX_WORKFLOW_RETRY_ATTEMPTS_def VALID_BACKOFF_STRATEGIES_def)

subsection \<open>Transient codes\<close>

lemma code_here_iff:
  "code_here text \<longleftrightarrow> (\<exists>c \<in> set transient_codes. \<exists>rest. text = c @ rest \<and> (rest = [] \<or> \<not> word_char (hd rest)))"
  unfolding code_here_def by (intro bex_cong refl iffI) (metis append_take_drop_id, force)

lemma code_search_iff:
  "code_search boundary str \<longleftrightarrow>
     (\<exists>pre post. str = pre @ post \<and> code_here post \<and> (if pre = [] then boundary else \<not> word_char (last pre)))"
proof (induction str arbitrary: boundary)
  case Nil
  have "\<not> code_here []" by (simp add: code_here_def transient_codes_def)
  then show ?case by simp
next
  case (Cons x xs)
  show ?case (is "_ \<longleftrightarrow> (\<exists>pre post. ?P pre post)")
  proof
    assume "code_search boundary (x # xs)"
    then consider "boundary" "code_here (x # xs)" | "code_search (\<not> word_char x) xs" by auto
    then show "\<exists>pre post. ?P pre post"
    proof cases
      case 1
      then have "?P [] (x # xs)" by simp
      then show ?thesis by blast
    next
      case 2
      with Cons.IH obtain pre post where "xs = pre @ post" "code_here post"
        "if pre = [] then \<not> word_char x else \<not> word_char (last pre)" by blast
      then have "?P (x # pre) post" by (simp split: if_splits)
      then show ?thesis by blast
    qed
  next
    assume "\<exists>pre post. ?P pre post"
    then obtain pre post where p: "?P pre post" by blast
    show "code_search boundary (x # xs)"
    proof (cases pre)
      case Nil
      with p have "post = x # xs" by simp
      with p Nil show ?thesis by simp
    next
      case (Cons y pre')
      with p have "xs = pre' @ post" "code_here post" "if pre' = [] then \<not> word_char x else \<not> word_char (last pre')"
        by (auto split: if_splits)
      then have "code_search (\<not> word_char x) xs" unfolding Cons.IH by blast
      then show ?thesis by simp
    qed
  qed
qed

text \<open>A text names a transient error exactly when one of the codes stands in it as a word of its own; text such as
  the number of a status or the word timeout does not count.\<close>

lemma transient_code_is_a_word:
  "hasTransientErrorCode text \<longleftrightarrow>
     (\<exists>pre c rest. text = pre @ c @ rest \<and> c \<in> set transient_codes \<and>
        (pre = [] \<or> \<not> word_char (last pre)) \<and> (rest = [] \<or> \<not> word_char (hd rest)))"
  (is "_ \<longleftrightarrow> ?isolated")
proof
  assume "hasTransientErrorCode text"
  then obtain pre post where "text = pre @ post" "code_here post" "pre = [] \<or> \<not> word_char (last pre)"
    unfolding hasTransientErrorCode_def code_search_iff by (metis (full_types))
  then show ?isolated unfolding code_here_iff by blast
next
  assume ?isolated
  then obtain pre c rest where *: "text = pre @ c @ rest" "c \<in> set transient_codes" "pre = [] \<or> \<not> word_char (last pre)"
    "rest = [] \<or> \<not> word_char (hd rest)" by blast
  then have "code_here (c @ rest)" unfolding code_here_iff by blast
  with * show "hasTransientErrorCode text" unfolding hasTransientErrorCode_def code_search_iff by (metis (full_types))
qed

end
