(* ===== verification/NodeAttempts.thy ===== *)
theory NodeAttempts
  imports RetryPolicy WorkflowGraph
begin

text \<open>
  The attempts of a workflow node: the fence around one attempt, \<open>executeWithTimeout\<close> of
  \<open>workflow/executor/step-executor.ts\<close> and \<open>executeAttempt\<close> of \<open>workflow/executor/dag/composite-node-execution.ts\<close>,
  and the two retry loops over it, \<open>executeAttempts\<close> of steps and \<open>executeCompositeNodeWithPolicy\<close>. The operation of
  an attempt, its timers, the abort signal of the run and the resumptions of awaits are events, in any order; an
  error is a record of \<open>RetryPolicy\<close>. A step that \<open>runAgentNode\<close> wraps is left out.
\<close>

subsection \<open>The fence around one attempt\<close>

text \<open>\<open>OpSettled\<close> is the promise of the operation, \<open>OpFenced\<close> the reaction that checks the abort signal.\<close>

datatype ('v, 'e) operation = OpRunning | OpSettled "'e + 'v" | OpFenced "'e + 'v"

datatype ('v, 'e) stage = Racing | InGrace 'e "bool option" | Over "'e + 'v" bool

record ('v, 'e) attempt =
  at_operation :: "('v, 'e) operation"
  at_aborted :: "'e option"
  at_race :: "('e + 'v) option"
  at_stage :: "('v, 'e) stage"

text \<open>An attempt begins with the abort signal of the run forwarded to it.\<close>

definition begin_attempt :: "'e option \<Rightarrow> ('v, 'e) attempt" where
  "begin_attempt parent =
     \<lparr>at_operation = OpRunning, at_aborted = parent, at_race = map_option Inl parent, at_stage = Racing\<rparr>"

definition stage_over :: "('v, 'e) attempt \<Rightarrow> bool" where
  "stage_over a \<longleftrightarrow> (case at_stage a of Over r nc \<Rightarrow> True | _ \<Rightarrow> False)"

text \<open>\<open>attemptController.abort(reason)\<close>, until the listeners and the timer are removed.\<close>

definition abort_attempt :: "'e \<Rightarrow> ('v, 'e) attempt \<Rightarrow> ('v, 'e) attempt" where
  "abort_attempt reason a =
     (if stage_over a \<or> at_aborted a \<noteq> None then a
      else a\<lparr>at_aborted := Some reason, at_race := (case at_race a of None \<Rightarrow> Some (Inl reason) | Some r \<Rightarrow> Some r)\<rparr>)"

definition operation_result :: "'e + 'v \<Rightarrow> ('v, 'e) attempt \<Rightarrow> ('v, 'e) attempt" where
  "operation_result r a = (if at_operation a = OpRunning then a\<lparr>at_operation := OpSettled r\<rparr> else a)"

text \<open>\<open>fencedOperation\<close> and the two races that wait for it.\<close>

definition fence_reacts :: "('v, 'e) attempt \<Rightarrow> ('v, 'e) attempt" where
  "fence_reacts a =
     (case at_operation a of
        OpSettled r \<Rightarrow>
          (let fenced = (case r of Inl e \<Rightarrow> Inl e
                         | Inr v \<Rightarrow> (case at_aborted a of Some reason \<Rightarrow> Inl reason | None \<Rightarrow> Inr v))
           in a\<lparr>at_operation := OpFenced fenced,
                at_race := (case at_race a of None \<Rightarrow> Some fenced | Some x \<Rightarrow> Some x),
                at_stage := (case at_stage a of InGrace e None \<Rightarrow> InGrace e (Some True) | st \<Rightarrow> st)\<rparr>)
      | _ \<Rightarrow> a)"

definition grace_expires :: "('v, 'e) attempt \<Rightarrow> ('v, 'e) attempt" where
  "grace_expires a =
     (case at_stage a of InGrace e None \<Rightarrow> a\<lparr>at_stage := InGrace e (Some False)\<rparr> | _ \<Rightarrow> a)"

text \<open>The await of the race or of the grace period resumes. The flag of \<open>Over\<close> tells that the error was added to
  \<open>nonCooperativeErrors\<close>.\<close>

definition is_fenced :: "('v, 'e) attempt \<Rightarrow> bool" where
  "is_fenced a \<longleftrightarrow> (case at_operation a of OpFenced r \<Rightarrow> True | _ \<Rightarrow> False)"

definition await_resumes :: "('v, 'e) attempt \<Rightarrow> ('v, 'e) attempt" where
  "await_resumes a =
     (case at_stage a of
        Racing \<Rightarrow>
          (case at_race a of
             None \<Rightarrow> a
           | Some (Inr v) \<Rightarrow> a\<lparr>at_stage := Over (Inr v) False\<rparr>
           | Some (Inl e) \<Rightarrow>
               (if at_aborted a \<noteq> None then a\<lparr>at_stage := InGrace e (if is_fenced a then Some True else None)\<rparr>
                else a\<lparr>at_stage := Over (Inl e) False\<rparr>))
      | InGrace e (Some settled) \<Rightarrow> a\<lparr>at_stage := Over (Inl e) (\<not> settled)\<rparr>
      | _ \<Rightarrow> a)"

datatype ('v, 'e) attempt_event =
    OperationSettles "'e + 'v" | FenceReacts | TimerFires 'e | GraceExpires | AwaitResumes

fun attempt_step :: "('v, 'e) attempt_event \<Rightarrow> ('v, 'e) attempt \<Rightarrow> ('v, 'e) attempt" where
  "attempt_step (OperationSettles r) a = operation_result r a"
| "attempt_step FenceReacts a = fence_reacts a"
| "attempt_step (TimerFires timeoutError) a = abort_attempt timeoutError a"
| "attempt_step GraceExpires a = grace_expires a"
| "attempt_step AwaitResumes a = await_resumes a"

text \<open>The operation of an attempt may still have effects until its promise settles.\<close>

definition op_active :: "('v, 'e) attempt \<Rightarrow> bool" where
  "op_active a \<longleftrightarrow> at_operation a = OpRunning"

subsection \<open>The retry loop of a step\<close>

record step_node =
  sn_isStep :: bool
  sn_hasAgent :: bool
  sn_hasTool :: bool
  sn_retry :: "raw_retry option option"
  sn_retryIf :: "workflow_error \<Rightarrow> bool option"
  sn_timeout :: "js_number option"

datatype step_error = NotAStep | AgentOrTool | StepInvalid invalid_argument

definition DEFAULT_STEP_TIMEOUT_MS :: js_number where
  "DEFAULT_STEP_TIMEOUT_MS = Num 300000"

definition DEFAULT_RETRY :: retry_config where
  "DEFAULT_RETRY = \<lparr>rc_maxAttempts = Some 1, rc_initialDelay = Some DEFAULT_RETRY_INITIAL_DELAY_MS,
     rc_maxDelay = Some DEFAULT_RETRY_MAX_DELAY_MS, rc_backoff = Some Exponential, rc_retryIf = None\<rparr>"

text \<open>\<open>{ ...DEFAULT_RETRY, ...config.retry }\<close>: a field that is present replaces the default, even by undefined.\<close>

definition spread_field :: "js_field \<Rightarrow> 'a option \<Rightarrow> 'a option \<Rightarrow> 'a option" where
  "spread_field f standard given = (if f = JAbsent then standard else given)"

definition spread_retry :: "raw_retry option \<Rightarrow> (workflow_error \<Rightarrow> bool option) \<Rightarrow> retry_config" where
  "spread_retry retry f =
     (case retry of
        None \<Rightarrow> DEFAULT_RETRY
      | Some r \<Rightarrow>
          (let c = retry_config_of r f
           in \<lparr>rc_maxAttempts = spread_field (rr_maxAttempts r) (rc_maxAttempts DEFAULT_RETRY) (rc_maxAttempts c),
               rc_initialDelay = spread_field (rr_initialDelay r) (rc_initialDelay DEFAULT_RETRY) (rc_initialDelay c),
               rc_maxDelay = spread_field (rr_maxDelay r) (rc_maxDelay DEFAULT_RETRY) (rc_maxDelay c),
               rc_backoff = spread_field (rr_backoff r) (rc_backoff DEFAULT_RETRY) (rc_backoff c),
               rc_retryIf = rc_retryIf c\<rparr>))"

definition max_attempts :: "retry_config option \<Rightarrow> nat" where
  "max_attempts config = (case Option.bind config rc_maxAttempts of None \<Rightarrow> 1 | Some n \<Rightarrow> n)"

definition prepare_step :: "step_node \<Rightarrow> js_number option \<Rightarrow> step_error + retry_config" where
  "prepare_step node defaultTimeout =
     (if \<not> sn_isStep node then Inl NotAStep
      else if sn_hasAgent node = sn_hasTool node then Inl AgentOrTool
      else
        (case (case sn_retry node of None \<Rightarrow> None | Some r \<Rightarrow> validateRetryConfig r) of
           Some e \<Rightarrow> Inl (StepInvalid e)
         | None \<Rightarrow>
             (case parsePositiveDuration (case sn_timeout node of
                  None \<Rightarrow> (case defaultTimeout of None \<Rightarrow> DEFAULT_STEP_TIMEOUT_MS | Some t \<Rightarrow> t) | Some t \<Rightarrow> t) of
                Inl e \<Rightarrow> Inl (StepInvalid e)
              | Inr timeout \<Rightarrow> Inr (spread_retry (Option.bind (sn_retry node) id) (sn_retryIf node)))))"

datatype 'v step_end =
    StepSucceeded 'v | StepFailed "workflow_error option" | StepThrew workflow_error | SleepRejected

datatype 'v step_phase = Resolving | Announcing | Running | Sleeping workflow_error | Finished "'v step_end"

record 'v step_run =
  st_retry :: retry_config
  st_attempt :: nat
  st_parent :: "workflow_error option"
  st_attempts :: "('v, workflow_error) attempt list"
  st_phase :: "'v step_phase"

definition st_max :: "'v step_run \<Rightarrow> nat" where
  "st_max s = max_attempts (Some (st_retry s))"

text \<open>The top of the loop.\<close>

definition enter_attempt :: "workflow_error option \<Rightarrow> 'v step_run \<Rightarrow> 'v step_run" where
  "enter_attempt lastError s =
     (if st_attempt s > st_max s then s\<lparr>st_phase := Finished (StepFailed lastError)\<rparr>
      else (case st_parent s of
              Some reason \<Rightarrow> s\<lparr>st_phase := Finished (StepThrew reason)\<rparr>
            | None \<Rightarrow> s\<lparr>st_phase := Resolving\<rparr>))"

definition start_step :: "retry_config \<Rightarrow> workflow_error option \<Rightarrow> 'v step_run" where
  "start_step retry parent =
     enter_attempt None \<lparr>st_retry = retry, st_attempt = 1, st_parent = parent, st_attempts = [], st_phase = Resolving\<rparr>"

text \<open>The handler of errors. \<open>final\<close> is set when the operation was completed or is not cooperative, \<open>rnd\<close> is the number
  drawn for the jitter and \<open>hook\<close> what \<open>onStepError\<close> throws.\<close>

definition step_caught :: "workflow_error \<Rightarrow> bool \<Rightarrow> rat \<Rightarrow> workflow_error option \<Rightarrow> 'v step_run \<Rightarrow> 'v step_run" where
  "step_caught e final rnd hook s =
     s\<lparr>st_phase :=
         (case st_parent s of
            Some reason \<Rightarrow> Finished (StepThrew reason)
          | None \<Rightarrow>
              if \<not> final \<and> st_attempt s < st_max s \<and> isRetryableWorkflowError e (rc_retryIf (st_retry s)) then
                (case normalizeTimerDurationMs (Num (of_int (calculateRetryDelay (st_attempt s) rnd (Some (st_retry s))))) of
                   Inl _ \<Rightarrow> Finished SleepRejected
                 | Inr _ \<Rightarrow> Sleeping e)
              else
                (case hook of Some x \<Rightarrow> Finished (StepThrew x) | None \<Rightarrow> Finished (StepFailed (Some e))))\<rparr>"

text \<open>\<open>failure\<close> is what resolving the input or \<open>onStepStart\<close> throws.\<close>

definition input_resolved :: "workflow_error option \<Rightarrow> rat \<Rightarrow> workflow_error option \<Rightarrow> 'v step_run \<Rightarrow> 'v step_run" where
  "input_resolved failure rnd hook s =
     (if st_phase s \<noteq> Resolving then s
      else (case failure of
              Some e \<Rightarrow> step_caught e False rnd hook s
            | None \<Rightarrow>
                (case st_parent s of
                   Some reason \<Rightarrow> step_caught reason False rnd hook s
                 | None \<Rightarrow> s\<lparr>st_phase := Announcing\<rparr>)))"

definition step_announced :: "workflow_error option \<Rightarrow> rat \<Rightarrow> workflow_error option \<Rightarrow> 'v step_run \<Rightarrow> 'v step_run" where
  "step_announced failure rnd hook s =
     (if st_phase s \<noteq> Announcing then s
      else (case failure of
              Some e \<Rightarrow> step_caught e False rnd hook s
            | None \<Rightarrow> s\<lparr>st_attempts := st_attempts s @ [begin_attempt (st_parent s)], st_phase := Running\<rparr>))"

text \<open>\<open>completeHook\<close> is what \<open>onStepComplete\<close> throws.\<close>

definition attempt_returned :: "workflow_error option \<Rightarrow> rat \<Rightarrow> workflow_error option \<Rightarrow> 'v step_run \<Rightarrow> 'v step_run" where
  "attempt_returned completeHook rnd hook s =
     (if st_phase s \<noteq> Running then s
      else
        (case at_stage (last (st_attempts s)) of
           Over (Inr v) nc \<Rightarrow>
             (case st_parent s of
                Some reason \<Rightarrow> step_caught reason False rnd hook s
              | None \<Rightarrow>
                  (case completeHook of
                     Some e \<Rightarrow> step_caught e True rnd hook s
                   | None \<Rightarrow> s\<lparr>st_phase := Finished (StepSucceeded v)\<rparr>))
         | Over (Inl e) nc \<Rightarrow> step_caught e nc rnd hook s
         | _ \<Rightarrow> s))"

definition map_attempt :: "nat \<Rightarrow> ('a \<Rightarrow> 'a) \<Rightarrow> 'a list \<Rightarrow> 'a list" where
  "map_attempt k f xs = (if k < length xs then xs[k := f (xs ! k)] else xs)"

definition map_last :: "('a \<Rightarrow> 'a) \<Rightarrow> 'a list \<Rightarrow> 'a list" where
  "map_last f xs = map_attempt (length xs - 1) f xs"

definition step_parent_aborts :: "workflow_error \<Rightarrow> 'v step_run \<Rightarrow> 'v step_run" where
  "step_parent_aborts reason s =
     (if st_parent s \<noteq> None then s
      else
        (let s1 = s\<lparr>st_parent := Some reason\<rparr>
         in case st_phase s of
              Running \<Rightarrow> s1\<lparr>st_attempts := map_last (abort_attempt reason) (st_attempts s)\<rparr>
            | Sleeping e \<Rightarrow> s1\<lparr>st_phase := Finished (StepThrew reason)\<rparr>
            | _ \<Rightarrow> s1))"

definition sleep_over :: "'v step_run \<Rightarrow> 'v step_run" where
  "sleep_over s =
     (case st_phase s of
        Sleeping e \<Rightarrow> enter_attempt (Some e) (s\<lparr>st_attempt := st_attempt s + 1\<rparr>)
      | _ \<Rightarrow> s)"

datatype 'v step_event =
    InputResolved "workflow_error option" rat "workflow_error option"
  | StepAnnounced "workflow_error option" rat "workflow_error option"
  | AttemptEvent nat "('v, workflow_error) attempt_event"
  | AttemptReturned "workflow_error option" rat "workflow_error option"
  | ParentAborts workflow_error
  | SleepOver

fun step_step :: "'v step_event \<Rightarrow> 'v step_run \<Rightarrow> 'v step_run" where
  "step_step (InputResolved failure rnd hook) s = input_resolved failure rnd hook s"
| "step_step (StepAnnounced failure rnd hook) s = step_announced failure rnd hook s"
| "step_step (AttemptEvent k ev) s = s\<lparr>st_attempts := map_attempt k (attempt_step ev) (st_attempts s)\<rparr>"
| "step_step (AttemptReturned completeHook rnd hook) s = attempt_returned completeHook rnd hook s"
| "step_step (ParentAborts reason) s = step_parent_aborts reason s"
| "step_step SleepOver s = sleep_over s"

definition step_run :: "retry_config \<Rightarrow> workflow_error option \<Rightarrow> 'v step_event list \<Rightarrow> 'v step_run" where
  "step_run retry parent evs = fold step_step evs (start_step retry parent)"

subsection \<open>The retry loop of a composite node\<close>

definition isOwnershipLossError :: "workflow_error \<Rightarrow> bool" where
  "isOwnershipLossError e \<longleftrightarrow> we_slug e = JString ''orchestration-error'' \<and> we_ownershipLost e"

record 'p node_result =
  nr_status :: node_status
  nr_error :: "string option"
  nr_attempt :: nat
  nr_rest :: 'p

datatype 'p composite_end =
    CompositeReturned "'p node_result"
  | CompositeFailed nat workflow_error
  | CompositeThrew workflow_error
  | CompositeSleepRejected
  | CompositeExhausted

datatype 'p composite_phase = CompositeRunning | CompositeSleeping | CompositeFinished "'p composite_end"

record 'p composite_run =
  cn_id :: string
  cn_retry :: "retry_config option"
  cn_timed :: bool
  cn_attempt :: nat
  cn_parent :: "workflow_error option"
  cn_attempts :: "('p node_result, workflow_error) attempt list"
  cn_phase :: "'p composite_phase"

definition plain_error :: "string \<Rightarrow> workflow_error" where
  "plain_error message = \<lparr>we_isVeryfront = False, we_status = JAbsent, we_code = JAbsent, we_message = JString message,
     we_slug = JAbsent, we_ownershipLost = False\<rparr>"

definition result_error :: "string \<Rightarrow> 'p node_result \<Rightarrow> workflow_error" where
  "result_error i r =
     plain_error (case nr_error r of Some e \<Rightarrow> e | None \<Rightarrow> ''Composite node '' @ [CHR 0x22] @ i @ [CHR 0x22] @ '' failed'')"

definition withAttempt :: "nat \<Rightarrow> 'p node_result \<Rightarrow> 'p node_result" where
  "withAttempt attempt r = r\<lparr>nr_attempt := attempt\<rparr>"

definition cn_max :: "'p composite_run \<Rightarrow> nat" where
  "cn_max s = max_attempts (cn_retry s)"

definition enter_composite :: "'p composite_run \<Rightarrow> 'p composite_run" where
  "enter_composite s =
     (if cn_attempt s > cn_max s then s\<lparr>cn_phase := CompositeFinished CompositeExhausted\<rparr>
      else (case cn_parent s of
              Some reason \<Rightarrow> s\<lparr>cn_phase := CompositeFinished (CompositeThrew reason)\<rparr>
            | None \<Rightarrow> s\<lparr>cn_attempts := cn_attempts s @ [begin_attempt None], cn_phase := CompositeRunning\<rparr>))"

definition prepare_composite :: "raw_retry option option \<Rightarrow> (workflow_error \<Rightarrow> bool option) \<Rightarrow> js_number option \<Rightarrow>
    invalid_argument + retry_config option \<times> bool" where
  "prepare_composite retry f timeout =
     (case (case retry of None \<Rightarrow> None | Some r \<Rightarrow> validateRetryConfig r) of
        Some e \<Rightarrow> Inl e
      | None \<Rightarrow>
          (let config = map_option (\<lambda>r. retry_config_of r f) (Option.bind retry id)
           in case timeout of
                None \<Rightarrow> Inr (config, False)
              | Some t \<Rightarrow> (case validateNumericDuration t of Inl e \<Rightarrow> Inl e | Inr _ \<Rightarrow> Inr (config, True))))"

definition start_composite :: "string \<Rightarrow> retry_config option \<Rightarrow> bool \<Rightarrow> workflow_error option \<Rightarrow> 'p composite_run" where
  "start_composite i retry timed parent =
     enter_composite \<lparr>cn_id = i, cn_retry = retry, cn_timed = timed, cn_attempt = 1, cn_parent = parent, cn_attempts = [],
       cn_phase = CompositeSleeping\<rparr>"

definition composite_retries :: "workflow_error \<Rightarrow> 'p composite_run \<Rightarrow> bool" where
  "composite_retries e s \<longleftrightarrow> isRetryableWorkflowError e (Option.bind (cn_retry s) rc_retryIf)"

text \<open>Sleeping before the next attempt; \<open>other\<close> is what happens when \<open>sleep\<close> throws.\<close>

definition composite_sleep :: "rat \<Rightarrow> 'p composite_run \<Rightarrow> 'p composite_run \<Rightarrow> 'p composite_run" where
  "composite_sleep rnd other s =
     (case normalizeTimerDurationMs (Num (of_int (calculateRetryDelay (cn_attempt s) rnd (cn_retry s)))) of
        Inl _ \<Rightarrow> other
      | Inr _ \<Rightarrow> s\<lparr>cn_phase := CompositeSleeping\<rparr>)"

definition composite_caught :: "workflow_error \<Rightarrow> bool \<Rightarrow> rat \<Rightarrow> 'p composite_run \<Rightarrow> 'p composite_run" where
  "composite_caught e nonCooperative rnd s =
     (case cn_parent s of
        Some reason \<Rightarrow> s\<lparr>cn_phase := CompositeFinished (CompositeThrew reason)\<rparr>
      | None \<Rightarrow>
          if isOwnershipLossError e then s\<lparr>cn_phase := CompositeFinished (CompositeThrew e)\<rparr>
          else if cn_attempt s < cn_max s \<and> \<not> nonCooperative \<and> composite_retries e s
          then composite_sleep rnd (s\<lparr>cn_phase := CompositeFinished CompositeSleepRejected\<rparr>) s
          else s\<lparr>cn_phase := CompositeFinished (CompositeFailed (cn_attempt s) e)\<rparr>)"

definition sleep_error :: workflow_error where
  "sleep_error = plain_error ''Sleep duration must be finite and between 0 and 2147483647 milliseconds''"

text \<open>An aborted signal makes the \<open>sleep\<close> of a failed result throw, which the handler passes on.\<close>

definition composite_returned :: "rat \<Rightarrow> rat \<Rightarrow> 'p composite_run \<Rightarrow> 'p composite_run" where
  "composite_returned rnd rnd' s =
     (if cn_phase s \<noteq> CompositeRunning then s
      else
        (case at_stage (last (cn_attempts s)) of
           Over (Inr result) nc \<Rightarrow>
             (let r = withAttempt (cn_attempt s) result; e = result_error (cn_id s) r
              in if nr_status r \<noteq> NFailed \<or> cn_attempt s = cn_max s \<or> \<not> composite_retries e s
                 then s\<lparr>cn_phase := CompositeFinished (CompositeReturned r)\<rparr>
                 else
                   (let other = composite_caught sleep_error False rnd' s
                    in if cn_parent s \<noteq> None then other else composite_sleep rnd other s))
         | Over (Inl e) nc \<Rightarrow> composite_caught e nc rnd s
         | _ \<Rightarrow> s))"

definition composite_parent_aborts :: "workflow_error \<Rightarrow> 'p composite_run \<Rightarrow> 'p composite_run" where
  "composite_parent_aborts reason s =
     (if cn_parent s \<noteq> None then s
      else
        (let s1 = s\<lparr>cn_parent := Some reason\<rparr>
         in case cn_phase s of
              CompositeRunning \<Rightarrow> s1\<lparr>cn_attempts := map_last (abort_attempt reason) (cn_attempts s)\<rparr>
            | CompositeSleeping \<Rightarrow> s1\<lparr>cn_phase := CompositeFinished (CompositeThrew reason)\<rparr>
            | CompositeFinished e \<Rightarrow> s1))"

datatype 'p composite_event =
    CompositeAttemptEvent nat "('p node_result, workflow_error) attempt_event"
  | CompositeAttemptReturned rat rat
  | CompositeParentAborts workflow_error
  | CompositeSleepOver

definition is_timer :: "('v, 'e) attempt_event \<Rightarrow> bool" where
  "is_timer ev \<longleftrightarrow> (case ev of TimerFires e \<Rightarrow> True | _ \<Rightarrow> False)"

fun composite_step :: "'p composite_event \<Rightarrow> 'p composite_run \<Rightarrow> 'p composite_run" where
  "composite_step (CompositeAttemptEvent k ev) s =
     (if is_timer ev \<and> \<not> cn_timed s then s
      else s\<lparr>cn_attempts := map_attempt k (attempt_step ev) (cn_attempts s)\<rparr>)"
| "composite_step (CompositeAttemptReturned rnd rnd') s = composite_returned rnd rnd' s"
| "composite_step (CompositeParentAborts reason) s = composite_parent_aborts reason s"
| "composite_step CompositeSleepOver s =
     (if cn_phase s = CompositeSleeping then enter_composite (s\<lparr>cn_attempt := cn_attempt s + 1\<rparr>) else s)"

definition composite_run :: "string \<Rightarrow> retry_config option \<Rightarrow> bool \<Rightarrow> workflow_error option \<Rightarrow> 'p composite_event list \<Rightarrow>
    'p composite_run" where
  "composite_run i retry timed parent evs = fold composite_step evs (start_composite i retry timed parent)"

end
