(* ===== verification/AttemptSafety.thy ===== *)
theory AttemptSafety
  imports NodeAttempts
begin

text \<open>
  What holds of the attempts of a node in every order of events. The locale \<open>retry_loop\<close> is what a loop over
  attempts promises: it starts one only when the one before it is over and was cooperative. Both loops interpret it.
\<close>

subsection \<open>One attempt\<close>

definition attempt_ok :: "('v, 'e) attempt \<Rightarrow> bool" where
  "attempt_ok a \<longleftrightarrow>
     (\<forall>v. at_race a = Some (Inr v) \<longrightarrow> at_operation a = OpFenced (Inr v)) \<and>
     (if at_aborted a = None then at_race a \<noteq> None \<longrightarrow> is_fenced a else at_race a \<noteq> None) \<and>
     (case at_stage a of
        Racing \<Rightarrow> True
      | InGrace e st \<Rightarrow> at_aborted a \<noteq> None \<and> (st = Some True \<longrightarrow> is_fenced a) \<and> (is_fenced a \<longrightarrow> st \<noteq> None)
      | Over r nc \<Rightarrow> (\<not> nc \<longrightarrow> is_fenced a) \<and> (\<forall>v. r = Inr v \<longrightarrow> at_operation a = OpFenced (Inr v)))"

lemma begin_ok: "attempt_ok (begin_attempt p)"
  by (cases p) (simp_all add: attempt_ok_def begin_attempt_def)

lemma fenced_not_active: "is_fenced a \<Longrightarrow> \<not> op_active a"
  by (auto simp: is_fenced_def op_active_def)

lemma is_fenced_simps [simp]:
  "at_operation a = OpFenced r \<Longrightarrow> is_fenced a" "at_operation a = OpRunning \<Longrightarrow> \<not> is_fenced a"
  "at_operation a = OpSettled r \<Longrightarrow> \<not> is_fenced a"
  by (simp_all add: is_fenced_def)

lemma is_fenced_upd [simp]:
  "is_fenced (a\<lparr>at_aborted := x\<rparr>) = is_fenced a" "is_fenced (a\<lparr>at_race := y\<rparr>) = is_fenced a"
  "is_fenced (a\<lparr>at_stage := z\<rparr>) = is_fenced a" "is_fenced (a\<lparr>at_operation := OpFenced r\<rparr>)"
  "\<not> is_fenced (a\<lparr>at_operation := OpSettled r\<rparr>)"
  by (simp_all add: is_fenced_def)

lemma ok_abort_attempt: "attempt_ok a \<Longrightarrow> attempt_ok (abort_attempt reason a)"
  by (auto simp: abort_attempt_def attempt_ok_def stage_over_def split: stage.splits option.splits if_splits)

lemma ok_operation_result: "attempt_ok a \<Longrightarrow> attempt_ok (operation_result r a)"
  by (auto simp: operation_result_def attempt_ok_def split: stage.splits option.splits if_splits)

lemma ok_fence_reacts: "attempt_ok a \<Longrightarrow> attempt_ok (fence_reacts a)"
  by (auto simp: fence_reacts_def attempt_ok_def Let_def split: operation.splits stage.splits option.splits sum.splits if_splits)

lemma ok_grace: "attempt_ok a \<Longrightarrow> attempt_ok (grace_expires a)"
  by (auto simp: grace_expires_def attempt_ok_def split: stage.splits option.splits if_splits)

lemma ok_resumes: "attempt_ok a \<Longrightarrow> attempt_ok (await_resumes a)"
  by (auto simp: await_resumes_def attempt_ok_def split: stage.splits option.splits sum.splits if_splits)

lemma ok_attempt_step: "attempt_ok a \<Longrightarrow> attempt_ok (attempt_step ev a)"
  by (cases ev) (simp_all add: ok_operation_result ok_fence_reacts ok_abort_attempt ok_grace ok_resumes)

text \<open>An operation that is over stays over.\<close>

lemma stays_inactive: "\<not> op_active a \<Longrightarrow> \<not> op_active (attempt_step ev a)" "\<not> op_active a \<Longrightarrow> \<not> op_active (abort_attempt e a)"
  by (cases ev) (auto simp: op_active_def operation_result_def fence_reacts_def abort_attempt_def grace_expires_def
      await_resumes_def Let_def split: operation.splits stage.splits option.splits sum.splits)

subsection \<open>A loop over attempts\<close>

definition attempt_change :: "(('v, 'e) attempt \<Rightarrow> ('v, 'e) attempt) \<Rightarrow> bool" where
  "attempt_change f \<longleftrightarrow> (\<exists>ev. f = attempt_step ev) \<or> (\<exists>e. f = abort_attempt e)"

text \<open>An attempt after which another may start: its error is not one of an operation that would not stop.\<close>

definition retriable :: "('v, 'e) attempt \<Rightarrow> bool" where
  "retriable a \<longleftrightarrow> (\<exists>r nc. at_stage a = Over r nc \<and> (nc \<longrightarrow> (\<exists>v. r = Inr v)))"

definition loop_effect :: "('v, 'e) attempt list \<Rightarrow> bool \<Rightarrow> ('v, 'e) attempt list \<Rightarrow> bool \<Rightarrow> bool" where
  "loop_effect as b as' b' \<longleftrightarrow>
     (as' = as \<and> (b' \<longrightarrow> b \<or> retriable (last as))) \<or>
     (\<exists>k f. as' = map_attempt k f as \<and> attempt_change f \<and> (b' \<longrightarrow> b)) \<or>
     (b \<and> \<not> b' \<and> (\<exists>p. as' = as @ [begin_attempt p]))"

definition loop_inv :: "('v, 'e) attempt list \<Rightarrow> bool \<Rightarrow> bool" where
  "loop_inv as b \<longleftrightarrow>
     (\<forall>a \<in> set as. attempt_ok a) \<and> (\<forall>k. Suc k < length as \<longrightarrow> \<not> op_active (as ! k)) \<and>
     (b \<longrightarrow> as \<noteq> [] \<longrightarrow> \<not> op_active (last as))"

lemma retriable_inactive: "attempt_ok a \<Longrightarrow> retriable a \<Longrightarrow> \<not> op_active a"
  by (auto simp: retriable_def attempt_ok_def op_active_def is_fenced_def)

lemma change_inactive: "attempt_change f \<Longrightarrow> \<not> op_active a \<Longrightarrow> \<not> op_active (f a)"
  and change_ok: "attempt_change f \<Longrightarrow> attempt_ok a \<Longrightarrow> attempt_ok (f a)"
  by (auto simp: attempt_change_def stays_inactive ok_attempt_step ok_abort_attempt)

lemma map_attempt_simps [simp]:
  "length (map_attempt k f xs) = length xs" "(map_attempt k f xs = []) = (xs = [])"
  by (simp_all add: map_attempt_def)

lemma map_attempt_nth: "i < length xs \<Longrightarrow> map_attempt k f xs ! i = (if i = k then f (xs ! i) else xs ! i)"
  by (auto simp: map_attempt_def)

lemma loop_inv_step:
  assumes inv: "loop_inv as b" and eff: "loop_effect as b as' b'"
  shows "loop_inv as' b'"
proof -
  consider "as' = as" "b' \<longrightarrow> b \<or> retriable (last as)"
    | k f where "as' = map_attempt k f as" "attempt_change f" "b' \<longrightarrow> b"
    | p where "b" "\<not> b'" "as' = as @ [begin_attempt p]"
    using eff by (auto simp: loop_effect_def)
  then show ?thesis
  proof cases
    case 1
    then show ?thesis using inv retriable_inactive [of "last as"] by (auto simp: loop_inv_def)
  next
    case 2
    have nth: "\<not> op_active (as ! i) \<Longrightarrow> i < length as \<Longrightarrow> \<not> op_active (as' ! i)" for i
      using change_inactive [OF 2(2)] by (auto simp: 2(1) map_attempt_nth)
    have "attempt_ok a" if "a \<in> set as'" for a
      using that inv change_ok [OF 2(2)] by (auto simp: in_set_conv_nth 2(1) map_attempt_nth loop_inv_def) (metis nth_mem)+
    moreover have len: "length as' = length as" by (simp add: 2(1))
    moreover have "as' \<noteq> [] \<Longrightarrow> b' \<Longrightarrow> \<not> op_active (last as')"
      using inv nth [of "length as - 1"] 2(3) len by (cases "as = []") (auto simp: loop_inv_def last_conv_nth)
    ultimately show ?thesis using inv nth by (auto simp: loop_inv_def)
  next
    case 3
    then show ?thesis using inv
      by (auto simp: loop_inv_def begin_ok nth_append last_conv_nth less_Suc_eq)
        (metis One_nat_def diff_Suc_1)
  qed
qed

locale retry_loop =
  fixes attempts :: "'s \<Rightarrow> ('v, 'e) attempt list"
    and between :: "'s \<Rightarrow> bool"
    and step :: "'ev \<Rightarrow> 's \<Rightarrow> 's"
  assumes effect: "loop_effect (attempts s) (between s) (attempts (step ev s)) (between (step ev s))"
begin

lemma run_inv: "loop_inv (attempts s) (between s) \<Longrightarrow> loop_inv (attempts (fold step evs s)) (between (fold step evs s))"
  by (induction evs arbitrary: s) (simp_all add: loop_inv_step [OF _ effect])

lemma isolated:
  "loop_inv (attempts s) (between s) \<Longrightarrow> Suc k < length (attempts (fold step evs s)) \<Longrightarrow>
   \<not> op_active (attempts (fold step evs s) ! k)"
  using run_inv [of s evs] by (simp add: loop_inv_def)

lemma all_ok: "loop_inv (attempts s) (between s) \<Longrightarrow> a \<in> set (attempts (fold step evs s)) \<Longrightarrow> attempt_ok a"
  using run_inv [of s evs] by (simp add: loop_inv_def)

end

subsection \<open>Steps\<close>

definition step_between :: "'v step_run \<Rightarrow> bool" where
  "step_between s \<longleftrightarrow> (case st_phase s of Running \<Rightarrow> False | Finished e \<Rightarrow> False | _ \<Rightarrow> True)"

lemma enter_attempt_fields [simp]:
  "st_attempts (enter_attempt l s) = st_attempts s" "st_max (enter_attempt l s) = st_max s"
  "st_attempt (enter_attempt l s) = st_attempt s" "st_parent (enter_attempt l s) = st_parent s"
  by (simp_all add: enter_attempt_def st_max_def split: option.split)

lemma step_caught_fields [simp]:
  "st_attempts (step_caught e final rnd hook s) = st_attempts s" "st_max (step_caught e final rnd hook s) = st_max s"
  "st_attempt (step_caught e final rnd hook s) = st_attempt s" "st_parent (step_caught e final rnd hook s) = st_parent s"
  by (simp_all add: step_caught_def st_max_def)

text \<open>Where the handler of errors may go.\<close>

lemma step_caught_phase:
  "(\<exists>x. st_phase (step_caught e final rnd hook s) = Finished x \<and> (\<forall>v. x \<noteq> StepSucceeded v)) \<or>
   (st_phase (step_caught e final rnd hook s) = Sleeping e \<and> \<not> final \<and> st_attempt s < st_max s \<and> st_parent s = None)"
  by (simp add: step_caught_def split: option.split sum.split)

lemma step_caught_not_running: "st_phase (step_caught e final rnd hook s) \<noteq> Running"
  using step_caught_phase [of e final rnd hook s] by auto

lemma step_caught_between: "step_between (step_caught e final rnd hook s) \<Longrightarrow> \<not> final \<and> st_parent s = None"
  using step_caught_phase [of e final rnd hook s] by (auto simp: step_between_def)

lemma effect_same: "as' = as \<Longrightarrow> (b' \<Longrightarrow> b) \<Longrightarrow> loop_effect as b as' b'"
  by (auto simp: loop_effect_def)

lemma effect_retry: "(b' \<Longrightarrow> retriable (last as)) \<Longrightarrow> loop_effect as b as b'"
  by (auto simp: loop_effect_def)

lemma effect_change: "attempt_change f \<Longrightarrow> (b' \<Longrightarrow> b) \<Longrightarrow> loop_effect as b (map_attempt k f as) b'"
  by (auto simp: loop_effect_def)

lemma effect_begin: "b \<Longrightarrow> \<not> b' \<Longrightarrow> loop_effect as b (as @ [begin_attempt p]) b'"
  by (auto simp: loop_effect_def)

lemma changes [simp]: "attempt_change (attempt_step ev)" "attempt_change (abort_attempt e)"
  by (auto simp: attempt_change_def)

lemma effect_returned:
  "loop_effect (st_attempts s) (step_between s) (st_attempts (attempt_returned ch rnd hook s)) (step_between (attempt_returned ch rnd hook s))"
proof (cases "st_phase s = Running")
  case True
  have "st_attempts (attempt_returned ch rnd hook s) = st_attempts s"
    using True by (auto simp: attempt_returned_def split: stage.split sum.split option.split)
  moreover have "step_between (attempt_returned ch rnd hook s) \<Longrightarrow> retriable (last (st_attempts s))"
    using True by (auto simp: attempt_returned_def retriable_def step_between_def [of s] dest: step_caught_between
        split: stage.splits sum.splits option.splits)
  ultimately show ?thesis by (metis effect_retry)
qed (auto simp: attempt_returned_def intro: effect_same)


interpretation st: retry_loop st_attempts step_between step_step
proof
  fix s :: "'a step_run" and ev
  show "loop_effect (st_attempts s) (step_between s) (st_attempts (step_step ev s)) (step_between (step_step ev s))"
  proof (cases ev)
    case (InputResolved failure rnd hook)
    then show ?thesis
      by (auto simp: input_resolved_def step_between_def [of s] intro!: effect_same split: option.split)
  next
    case (StepAnnounced failure rnd hook)
    then show ?thesis
      by (auto simp: step_announced_def step_between_def intro!: effect_same effect_begin split: option.split)
  next
    case (AttemptEvent k e)
    then show ?thesis by (auto simp: step_between_def intro!: effect_change)
  next
    case (AttemptReturned ch rnd hook)
    then show ?thesis by (simp add: effect_returned)
  next
    case (ParentAborts reason)
    then show ?thesis
      by (cases "st_phase s") (simp_all add: step_parent_aborts_def Let_def step_between_def map_last_def effect_change effect_same)
  next
    case SleepOver
    then show ?thesis
      by (auto simp: sleep_over_def step_between_def [of s] intro!: effect_same split: step_phase.split)
  qed
qed

lemma start_step_inv: "loop_inv (st_attempts (start_step retry parent)) (step_between (start_step retry parent))"
  by (simp add: start_step_def loop_inv_def)

text \<open>The number of the attempt.\<close>

definition step_counts :: "'v step_run \<Rightarrow> bool" where
  "step_counts s \<longleftrightarrow> st_attempt s \<le> st_max s \<and> length (st_attempts s) \<le> st_attempt s \<and>
     (st_phase s = Resolving \<or> st_phase s = Announcing \<longrightarrow> length (st_attempts s) < st_attempt s) \<and>
     (\<forall>e. st_phase s = Sleeping e \<longrightarrow> st_attempt s < st_max s) \<and>
     (st_phase s = Running \<longrightarrow> st_attempts s \<noteq> [])"

lemma counts_caught: "step_counts s \<Longrightarrow> step_counts (step_caught e final rnd hook s)"
  using step_caught_phase [of e final rnd hook s] by (auto simp: step_counts_def)

lemma counts_enter:
  "st_attempt s \<le> st_max s \<Longrightarrow> length (st_attempts s) < st_attempt s \<Longrightarrow> step_counts (enter_attempt l s)"
  by (auto simp: step_counts_def) (auto simp: enter_attempt_def st_max_def split: option.splits)

lemma st_max_upd [simp]:
  "st_max (s\<lparr>st_phase := p\<rparr>) = st_max s" "st_max (s\<lparr>st_attempt := n\<rparr>) = st_max s"
  "st_max (s\<lparr>st_attempts := as\<rparr>) = st_max s" "st_max (s\<lparr>st_parent := q\<rparr>) = st_max s"
  by (simp_all add: st_max_def)

lemma counts_step: "step_counts s \<Longrightarrow> step_counts (step_step ev s)"
proof (cases ev)
  case (AttemptReturned ch rnd hook)
  then show "step_counts s \<Longrightarrow> ?thesis"
    by (auto simp: attempt_returned_def counts_caught split: stage.split sum.split option.split) (simp add: step_counts_def)
next
  case SleepOver
  then show "step_counts s \<Longrightarrow> ?thesis"
    by (auto simp: sleep_over_def split: step_phase.split intro!: counts_enter) (auto simp: step_counts_def)
qed (auto simp: input_resolved_def step_announced_def step_parent_aborts_def Let_def counts_caught map_last_def split: option.split step_phase.split,
     auto simp: step_counts_def)

lemma start_counts: "1 \<le> max_attempts (Some retry) \<Longrightarrow> step_counts (start_step retry parent)"
  unfolding start_step_def by (rule counts_enter) (simp_all add: st_max_def)

lemma step_max_step: "st_max (step_step ev s) = st_max s"
  by (cases ev) (auto simp: input_resolved_def step_announced_def attempt_returned_def step_parent_aborts_def Let_def sleep_over_def
      split: option.split stage.split sum.split step_phase.split)

lemma step_run_max: "st_max (step_run retry parent evs) = max_attempts (Some retry)"
proof -
  have "st_max (fold step_step evs s) = st_max s" for s :: "'a step_run"
    by (induction evs arbitrary: s) (simp_all add: step_max_step)
  then show ?thesis by (simp add: step_run_def start_step_def) (simp add: st_max_def)
qed

lemma counts_run: "1 \<le> max_attempts (Some retry) \<Longrightarrow> step_counts (step_run retry parent evs)"
proof -
  have "step_counts s \<Longrightarrow> step_counts (fold step_step evs s)" for s :: "'a step_run"
    by (induction evs arbitrary: s) (simp_all add: counts_step)
  then show "1 \<le> max_attempts (Some retry) \<Longrightarrow> ?thesis" by (simp add: step_run_def start_counts)
qed


text \<open>A step that succeeded gives what its operation gave.\<close>

definition step_end_ok :: "'v step_run \<Rightarrow> bool" where
  "step_end_ok s \<longleftrightarrow> (\<forall>v. st_phase s = Finished (StepSucceeded v) \<longrightarrow> at_operation (last (st_attempts s)) = OpFenced (Inr v))"

lemma end_ok_caught: "step_end_ok (step_caught e final rnd hook s)"
  using step_caught_phase [of e final rnd hook s] by (auto simp: step_end_ok_def)

lemma end_ok_enter: "step_end_ok (enter_attempt l s)"
  by (simp add: step_end_ok_def enter_attempt_def split: option.split)

lemma fenced_stays:
  "at_operation a = OpFenced r \<Longrightarrow> at_operation (attempt_step ev a) = OpFenced r"
  "at_operation a = OpFenced r \<Longrightarrow> at_operation (abort_attempt e a) = OpFenced r"
  by (cases ev) (auto simp: operation_result_def fence_reacts_def abort_attempt_def grace_expires_def await_resumes_def
      split: stage.split option.split sum.split)

lemma change_fenced: "attempt_change f \<Longrightarrow> at_operation a = OpFenced r \<Longrightarrow> at_operation (f a) = OpFenced r"
  by (auto simp: attempt_change_def fenced_stays)

lemma end_ok_change:
  assumes "step_end_ok s" "attempt_change f" "st_phase s' = st_phase s" "st_attempts s' = map_attempt k f (st_attempts s)"
  shows "step_end_ok s'"
proof (cases "st_attempts s = []")
  case False
  with assms change_fenced [OF assms(2)] show ?thesis by (auto simp: step_end_ok_def last_conv_nth map_attempt_nth)
qed (use assms in \<open>auto simp: step_end_ok_def map_attempt_def\<close>)

lemma end_ok_step:
  assumes "step_end_ok s" "step_counts s" "\<forall>a \<in> set (st_attempts s). attempt_ok a"
  shows "step_end_ok (step_step ev s)"
proof (cases ev)
  case (AttemptEvent k e)
  then show ?thesis by (intro end_ok_change [OF assms(1) changes(1)]) simp_all
next
  case (AttemptReturned ch rnd hook)
  show ?thesis
  proof (cases "st_phase s = Running")
    case True
    then have "attempt_ok (last (st_attempts s))" using assms(2,3) by (simp add: step_counts_def)
    with True AttemptReturned show ?thesis
      by (auto simp: attempt_returned_def end_ok_caught step_end_ok_def [of s] attempt_ok_def split: stage.splits sum.splits option.splits)
        (auto simp: step_end_ok_def)
  qed (use AttemptReturned assms(1) in \<open>simp add: attempt_returned_def\<close>)
next
  case (ParentAborts reason)
  with assms(1) show ?thesis
    by (cases "st_phase s") (auto simp: step_parent_aborts_def Let_def step_end_ok_def)
next
  case SleepOver
  with assms(1) show ?thesis by (simp add: sleep_over_def end_ok_enter split: step_phase.split)
qed (use assms(1) in \<open>auto simp: input_resolved_def step_announced_def end_ok_caught split: option.split, auto simp: step_end_ok_def\<close>)

lemma end_ok_run: "1 \<le> max_attempts (Some retry) \<Longrightarrow> step_end_ok (step_run retry parent evs)"
proof (induction evs rule: rev_induct)
  case Nil
  then show ?case by (simp add: step_run_def start_step_def end_ok_enter)
next
  case (snoc ev evs)
  moreover have "attempt_ok a" if "a \<in> set (st_attempts (step_run retry parent evs))" for a
    using that st.all_ok [OF start_step_inv] by (simp add: step_run_def)
  moreover have "step_run retry parent (evs @ [ev]) = step_step ev (step_run retry parent evs)" by (simp add: step_run_def)
  ultimately show ?case using end_ok_step counts_run by (metis (no_types, lifting))
qed

subsection \<open>Composite nodes\<close>

definition composite_between :: "'p composite_run \<Rightarrow> bool" where
  "composite_between s \<longleftrightarrow> cn_phase s = CompositeSleeping"

lemma cn_max_upd [simp]:
  "cn_max (s\<lparr>cn_phase := p\<rparr>) = cn_max s" "cn_max (s\<lparr>cn_attempt := n\<rparr>) = cn_max s"
  "cn_max (s\<lparr>cn_attempts := as\<rparr>) = cn_max s" "cn_max (s\<lparr>cn_parent := q\<rparr>) = cn_max s"
  by (simp_all add: cn_max_def)

text \<open>The handler of errors changes the phase: to an end, or to a sleep before another attempt.\<close>

definition rests :: "bool \<Rightarrow> 'p composite_run \<Rightarrow> 'p composite_run \<Rightarrow> bool" where
  "rests allowed s s' \<longleftrightarrow>
     (\<exists>x. s' = s\<lparr>cn_phase := CompositeFinished x\<rparr> \<and> (\<forall>r. x \<noteq> CompositeReturned r)) \<or>
     (s' = s\<lparr>cn_phase := CompositeSleeping\<rparr> \<and> allowed \<and> cn_attempt s < cn_max s \<and> cn_parent s = None)"

lemma rests_caught: "rests (\<not> nc) s (composite_caught e nc rnd s)"
  by (auto simp: rests_def composite_caught_def composite_sleep_def split: option.split sum.split)

lemma returned_cases:
  assumes "cn_phase s = CompositeRunning" "at_stage (last (cn_attempts s)) = Over res nc" "cn_attempt s \<le> cn_max s"
  shows "(\<exists>result. res = Inr result \<and> composite_returned rnd rnd' s =
      s\<lparr>cn_phase := CompositeFinished (CompositeReturned (withAttempt (cn_attempt s) result))\<rparr>) \<or>
    rests (\<not> nc \<or> (\<exists>v. res = Inr v)) s (composite_returned rnd rnd' s)"
proof (cases res)
  case (Inl e)
  have "rests (\<not> nc) s (composite_caught e nc rnd s)" by (rule rests_caught)
  with assms Inl show ?thesis by (auto simp: composite_returned_def rests_def)
next
  case (Inr result)
  have c: "rests (\<not> False) s (composite_caught sleep_error False rnd' s)" by (rule rests_caught)
  show ?thesis
    using assms Inr c
    by (auto simp: composite_returned_def Let_def composite_sleep_def split: sum.split) (auto simp: rests_def)
qed

lemma returned_idle:
  "cn_phase s \<noteq> CompositeRunning \<or> (\<forall>r nc. at_stage (last (cn_attempts s)) \<noteq> Over r nc) \<Longrightarrow> composite_returned rnd rnd' s = s"
  by (auto simp: composite_returned_def split: stage.split)

lemma enter_composite_effect:
  "composite_between s \<Longrightarrow>
   loop_effect (cn_attempts s) True (cn_attempts (enter_composite s)) (composite_between (enter_composite s))"
  by (auto simp: enter_composite_def composite_between_def intro!: effect_same effect_begin split: option.split)

lemma effect_composite_returned:
  "loop_effect (cn_attempts s) (composite_between s) (cn_attempts (composite_returned rnd rnd' s))
     (composite_between (composite_returned rnd rnd' s))"
proof (cases "cn_phase s = CompositeRunning \<and> (\<exists>r nc. at_stage (last (cn_attempts s)) = Over r nc)")
  case True
  then obtain r nc where r: "at_stage (last (cn_attempts s)) = Over r nc" by blast
  have as: "cn_attempts (composite_returned rnd rnd' s) = cn_attempts s"
    using True r rests_caught [of False s sleep_error rnd']
    by (auto simp: composite_returned_def composite_caught_def composite_sleep_def Let_def split: sum.split option.split)
  have "composite_between (composite_returned rnd rnd' s) \<Longrightarrow> nc \<Longrightarrow> \<exists>v. r = Inr v"
  proof (cases r)
    case (Inl e)
    assume "composite_between (composite_returned rnd rnd' s)" nc
    moreover have "composite_returned rnd rnd' s = composite_caught e nc rnd s"
      using True r Inl by (simp add: composite_returned_def)
    ultimately show ?thesis using rests_caught [of nc s e rnd] by (auto simp: composite_between_def rests_def)
  qed simp
  then have "composite_between (composite_returned rnd rnd' s) \<Longrightarrow> retriable (last (cn_attempts s))"
    using r by (auto simp: retriable_def)
  then show ?thesis unfolding as by (rule effect_retry)
qed (simp add: returned_idle effect_same)

interpretation cn: retry_loop cn_attempts composite_between composite_step
proof
  fix s :: "'a composite_run" and ev
  show "loop_effect (cn_attempts s) (composite_between s) (cn_attempts (composite_step ev s)) (composite_between (composite_step ev s))"
  proof (cases ev)
    case (CompositeAttemptEvent k e)
    then show ?thesis by (auto simp: composite_between_def intro!: effect_same effect_change)
  next
    case (CompositeAttemptReturned rnd rnd')
    then show ?thesis by (simp add: effect_composite_returned)
  next
    case (CompositeParentAborts reason)
    then show ?thesis
      by (cases "cn_phase s")
        (simp_all add: composite_parent_aborts_def Let_def composite_between_def map_last_def effect_change effect_same)
  next
    case CompositeSleepOver
    have "loop_effect (cn_attempts s) True (cn_attempts (enter_composite (s\<lparr>cn_attempt := Suc (cn_attempt s)\<rparr>)))
        (composite_between (enter_composite (s\<lparr>cn_attempt := Suc (cn_attempt s)\<rparr>)))" if "composite_between s"
      using enter_composite_effect [of "s\<lparr>cn_attempt := Suc (cn_attempt s)\<rparr>"] that by (simp add: composite_between_def)
    with CompositeSleepOver show ?thesis by (auto simp: composite_between_def effect_same)
  qed
qed

lemma start_composite_inv:
  "loop_inv (cn_attempts (start_composite i retry timed parent)) (composite_between (start_composite i retry timed parent))"
  by (simp add: start_composite_def enter_composite_def loop_inv_def begin_ok composite_between_def split: option.split)

definition composite_counts :: "'p composite_run \<Rightarrow> bool" where
  "composite_counts s \<longleftrightarrow> cn_attempt s \<le> cn_max s \<and> length (cn_attempts s) \<le> cn_attempt s \<and>
     (cn_phase s = CompositeSleeping \<longrightarrow> cn_attempt s < cn_max s) \<and>
     (cn_phase s = CompositeRunning \<longrightarrow> cn_attempts s \<noteq> []) \<and>
     (\<forall>r. cn_phase s = CompositeFinished (CompositeReturned r) \<longrightarrow>
        cn_attempts s \<noteq> [] \<and> (\<exists>x. at_operation (last (cn_attempts s)) = OpFenced (Inr x) \<and> r = withAttempt (cn_attempt s) x))"

lemma counts_rests: "composite_counts s \<Longrightarrow> rests b s s' \<Longrightarrow> composite_counts s'"
  by (auto simp: rests_def composite_counts_def)

lemma counts_enter_composite:
  "cn_attempt s \<le> cn_max s \<Longrightarrow> length (cn_attempts s) < cn_attempt s \<Longrightarrow> composite_counts (enter_composite s)"
  by (auto simp: composite_counts_def enter_composite_def split: option.split)

lemma last_map_attempt:
  "as \<noteq> [] \<Longrightarrow> attempt_change f \<Longrightarrow> at_operation (last as) = OpFenced r \<Longrightarrow> at_operation (last (map_attempt k f as)) = OpFenced r"
  using change_fenced [of f "last as" r] by (auto simp: last_conv_nth map_attempt_nth)

lemma counts_map_attempt:
  "composite_counts s \<Longrightarrow> attempt_change f \<Longrightarrow> composite_counts (s\<lparr>cn_attempts := map_attempt k f (cn_attempts s)\<rparr>)"
  using last_map_attempt by (fastforce simp: composite_counts_def)

lemma composite_counts_step:
  assumes inv: "composite_counts s" and ok: "\<forall>a \<in> set (cn_attempts s). attempt_ok a"
  shows "composite_counts (composite_step ev s)"
proof (cases ev)
  case (CompositeAttemptEvent k e)
  with inv show ?thesis by (simp add: counts_map_attempt)
next
  case (CompositeAttemptReturned rnd rnd')
  show ?thesis
  proof (cases "cn_phase s = CompositeRunning \<and> (\<exists>r nc. at_stage (last (cn_attempts s)) = Over r nc)")
    case True
    then obtain r nc where r: "at_stage (last (cn_attempts s)) = Over r nc" by blast
    have ne: "cn_attempts s \<noteq> []" "cn_attempt s \<le> cn_max s" using inv True by (auto simp: composite_counts_def)
    then have "attempt_ok (last (cn_attempts s))" using ok by simp
    then have "r = Inr v \<Longrightarrow> at_operation (last (cn_attempts s)) = OpFenced (Inr v)" for v
      using r by (simp add: attempt_ok_def)
    then have "composite_counts (s\<lparr>cn_phase := CompositeFinished (CompositeReturned (withAttempt (cn_attempt s) v))\<rparr>)"
      if "r = Inr v" for v using inv ne that by (auto simp: composite_counts_def)
    with returned_cases [OF _ r ne(2), of rnd rnd'] True counts_rests [OF inv] show ?thesis
      unfolding CompositeAttemptReturned by auto
  qed (simp add: CompositeAttemptReturned returned_idle inv)
next
  case (CompositeParentAborts reason)
  show ?thesis
  proof (cases "cn_phase s = CompositeRunning")
    case True
    have "composite_counts (s\<lparr>cn_attempts := map_attempt (length (cn_attempts s) - 1) (abort_attempt reason) (cn_attempts s)\<rparr>)"
      by (rule counts_map_attempt [OF inv]) simp
    with True CompositeParentAborts inv show ?thesis
      by (auto simp: composite_parent_aborts_def Let_def map_last_def composite_counts_def)
  next
    case False
    with CompositeParentAborts inv show ?thesis
      by (cases "cn_phase s") (auto simp: composite_parent_aborts_def Let_def composite_counts_def)
  qed
next
  case CompositeSleepOver
  have "composite_counts (enter_composite (s\<lparr>cn_attempt := Suc (cn_attempt s)\<rparr>))" if "cn_phase s = CompositeSleeping"
    by (rule counts_enter_composite) (use inv that in \<open>auto simp: composite_counts_def\<close>)
  with CompositeSleepOver inv show ?thesis by simp
qed

lemma composite_max_step: "cn_max (composite_step ev s) = cn_max s"
proof (cases ev)
  case (CompositeAttemptReturned rnd rnd')
  then show ?thesis
    by (auto simp: composite_returned_def composite_caught_def composite_sleep_def Let_def split: option.split stage.split sum.split)
qed (auto simp: composite_parent_aborts_def enter_composite_def Let_def split: option.split composite_phase.split)

lemma composite_run_max: "cn_max (composite_run i retry timed parent evs) = max_attempts retry"
proof -
  have "cn_max (fold composite_step evs s) = cn_max s" for s :: "'a composite_run"
    by (induction evs arbitrary: s) (simp_all add: composite_max_step)
  then show ?thesis
    by (simp add: composite_run_def start_composite_def) (simp add: enter_composite_def cn_max_def split: option.split)
qed

lemma composite_counts_run:
  "1 \<le> max_attempts retry \<Longrightarrow> composite_counts (composite_run i retry timed parent evs)"
proof (induction evs rule: rev_induct)
  case Nil
  then show ?case
    by (simp add: composite_run_def start_composite_def) (rule counts_enter_composite; simp add: cn_max_def)
next
  case (snoc ev evs)
  moreover have "\<forall>a \<in> set (cn_attempts (composite_run i retry timed parent evs)). attempt_ok a"
    using cn.all_ok [OF start_composite_inv] by (auto simp: composite_run_def)
  ultimately show ?case using composite_counts_step by (simp add: composite_run_def)
qed

subsection \<open>Every step returns\<close>

fun op_rank :: "('v, 'e) operation \<Rightarrow> nat" where
  "op_rank OpRunning = 2"
| "op_rank (OpSettled r) = 1"
| "op_rank (OpFenced r) = 0"

fun stage_rank :: "('v, 'e) stage \<Rightarrow> nat" where
  "stage_rank Racing = 3"
| "stage_rank (InGrace e None) = 2"
| "stage_rank (InGrace e (Some b)) = 1"
| "stage_rank (Over r nc) = 0"

definition attempt_rank :: "('v, 'e) attempt \<Rightarrow> nat" where
  "attempt_rank a = op_rank (at_operation a) + stage_rank (at_stage a) + (if at_aborted a = None then 1 else 0)"

fun phase_rank :: "'v step_phase \<Rightarrow> nat" where
  "phase_rank Resolving = 10"
| "phase_rank Announcing = 9"
| "phase_rank Running = 2"
| "phase_rank (Sleeping e) = 1"
| "phase_rank (Finished e) = 0"

text \<open>A bound on the number of events that still change the run of a step.\<close>

definition step_rank :: "'v step_run \<Rightarrow> nat" where
  "step_rank s = (st_max s - st_attempt s) * 11 + phase_rank (st_phase s) +
     sum_list (map attempt_rank (st_attempts s)) + (if st_parent s = None then 1 else 0)"

lemma rank_abort: "abort_attempt e a \<noteq> a \<Longrightarrow> attempt_rank (abort_attempt e a) < attempt_rank a"
  by (auto simp: abort_attempt_def attempt_rank_def split: if_splits)

lemma rank_attempt_step: "attempt_step ev a \<noteq> a \<Longrightarrow> attempt_rank (attempt_step ev a) < attempt_rank a"
proof (cases ev)
  case FenceReacts
  have "stage_rank (case st of InGrace e None \<Rightarrow> InGrace e (Some True) | st \<Rightarrow> st) \<le> stage_rank st" for st :: "('a, 'b) stage"
    by (cases st rule: stage_rank.cases) simp_all
  with FenceReacts show "attempt_step ev a \<noteq> a \<Longrightarrow> ?thesis"
    by (auto simp: fence_reacts_def attempt_rank_def Let_def less_Suc_eq_le add_mono split: operation.splits)
next
  case (TimerFires e)
  then show "attempt_step ev a \<noteq> a \<Longrightarrow> ?thesis" by (simp add: rank_abort)
qed (auto simp: operation_result_def grace_expires_def await_resumes_def attempt_rank_def
      split: stage.splits option.splits sum.splits if_splits)

lemma rank_change: "attempt_change f \<Longrightarrow> f a \<noteq> a \<Longrightarrow> attempt_rank (f a) < attempt_rank a"
  by (auto simp: attempt_change_def rank_abort rank_attempt_step)

lemma rank_update:
  assumes "k < length as" "attempt_rank x < attempt_rank (as ! k)"
  shows "sum_list (map attempt_rank (as[k := x])) < sum_list (map attempt_rank as)"
  using assms by (induction as arbitrary: k) (auto split: nat.splits simp: less_Suc_eq_0_disj)

lemma rank_map_attempt:
  assumes "attempt_change f" "map_attempt k f as \<noteq> as"
  shows "sum_list (map attempt_rank (map_attempt k f as)) < sum_list (map attempt_rank as)"
proof -
  from assms(2) have "k < length as" "f (as ! k) \<noteq> as ! k"
    by (auto simp: map_attempt_def split: if_splits)
  with rank_change [OF assms(1)] show ?thesis by (simp add: map_attempt_def rank_update)
qed

lemma rank_caught: "phase_rank (st_phase s) > 1 \<Longrightarrow> step_rank (step_caught e final rnd hook s) < step_rank s"
  using step_caught_phase [of e final rnd hook s] by (auto simp: step_rank_def)

lemma rank_enter:
  assumes "st_attempt s < st_max s" "st_phase s = Sleeping e"
  shows "step_rank (enter_attempt l (s\<lparr>st_attempt := Suc (st_attempt s)\<rparr>)) < step_rank s"
proof -
  have "phase_rank (st_phase (enter_attempt l (s\<lparr>st_attempt := Suc (st_attempt s)\<rparr>))) \<le> 10"
    by (simp add: enter_attempt_def split: option.split)
  moreover have "(st_max s - st_attempt s) * 11 = (st_max s - Suc (st_attempt s)) * 11 + 11" using assms(1) by simp
  ultimately show ?thesis using assms(2) by (simp add: step_rank_def)
qed

lemma step_rank_decreases:
  assumes "step_counts s" "step_step ev s \<noteq> s"
  shows "step_rank (step_step ev s) < step_rank s"
proof (cases ev)
  case (InputResolved failure rnd hook)
  with assms(2) have "st_phase s = Resolving" by (auto simp: input_resolved_def split: if_splits)
  with InputResolved show ?thesis
    by (auto simp: input_resolved_def split: option.split intro!: rank_caught) (auto simp: step_rank_def)
next
  case (StepAnnounced failure rnd hook)
  with assms(2) have "st_phase s = Announcing" by (auto simp: step_announced_def split: if_splits)
  with StepAnnounced show ?thesis
    by (auto simp: step_announced_def split: option.split intro!: rank_caught)
      (auto simp: step_rank_def begin_attempt_def attempt_rank_def)
next
  case (AttemptEvent k e)
  with assms(2) have "map_attempt k (attempt_step e) (st_attempts s) \<noteq> st_attempts s" by auto
  from rank_map_attempt [OF changes(1) this] AttemptEvent show ?thesis by (simp add: step_rank_def)
next
  case (AttemptReturned ch rnd hook)
  with assms(2) have "st_phase s = Running" by (auto simp: attempt_returned_def split: if_splits)
  with AttemptReturned assms(2) show ?thesis
    by (auto simp: attempt_returned_def split: stage.splits sum.splits option.splits intro!: rank_caught)
      (auto simp: step_rank_def)
next
  case (ParentAborts reason)
  have "sum_list (map attempt_rank (map_last (abort_attempt reason) (st_attempts s))) \<le> sum_list (map attempt_rank (st_attempts s))"
    using rank_map_attempt [OF changes(2)] unfolding map_last_def by (metis less_imp_le order_refl)
  moreover have "st_parent s = None" using ParentAborts assms(2) by (auto simp: step_parent_aborts_def split: if_splits)
  ultimately show ?thesis
    by (cases "st_phase s") (simp_all add: ParentAborts step_parent_aborts_def Let_def step_rank_def less_Suc_eq_le)
next
  case SleepOver
  with assms(2) obtain e where e: "st_phase s = Sleeping e" by (auto simp: sleep_over_def split: step_phase.splits)
  with assms(1) have "st_attempt s < st_max s" by (simp add: step_counts_def)
  with SleepOver e show ?thesis by (simp add: sleep_over_def rank_enter)
qed


text \<open>A step that has not returned can go on without its operation.\<close>

lemma attempt_goes_on:
  assumes "attempt_ok a" "\<not> stage_over a"
  shows "\<exists>ev \<in> {TimerFires e, AwaitResumes, GraceExpires}. attempt_step ev a \<noteq> a"
proof (cases "at_stage a")
  case Racing
  show ?thesis
  proof (cases "at_race a")
    case None
    show ?thesis
    proof (cases "at_aborted a")
      case None
      then have "attempt_step (TimerFires e) a \<noteq> a"
        using assms(2) by (auto simp: abort_attempt_def dest: arg_cong [of _ _ at_aborted])
      then show ?thesis by blast
    next
      case (Some r)
      with assms(1) None show ?thesis by (simp add: attempt_ok_def)
    qed
  next
    case (Some r)
    then have "attempt_step AwaitResumes a \<noteq> a"
      using Racing by (cases r) (auto simp: await_resumes_def dest: arg_cong [of _ _ at_stage])
    then show ?thesis by blast
  qed
next
  case (InGrace e st)
  then have "attempt_step (if st = None then GraceExpires else AwaitResumes) a \<noteq> a"
    by (cases st) (auto simp: grace_expires_def await_resumes_def dest: arg_cong [of _ _ at_stage])
  then show ?thesis by (cases st) auto
qed (use assms in \<open>simp add: stage_over_def\<close>)


lemma step_goes_on:
  assumes counts: "step_counts s" and ok: "\<forall>a \<in> set (st_attempts s). attempt_ok a"
    and open_phase: "\<forall>x. st_phase s \<noteq> Finished x"
  shows "\<exists>ev. (\<forall>k r. ev \<noteq> AttemptEvent k (OperationSettles r)) \<and> step_step ev s \<noteq> s"
proof (cases "st_phase s")
  case Resolving
  have "step_step (InputResolved None 0 None) s \<noteq> s"
    using Resolving step_caught_phase [of _ False 0 None s]
    by (auto simp: input_resolved_def step_caught_def split: option.split dest: arg_cong [of _ _ st_phase])
  then show ?thesis by blast
next
  case Announcing
  then have "step_step (StepAnnounced None 0 None) s \<noteq> s" by (auto simp: step_announced_def dest: arg_cong [of _ _ st_phase])
  then show ?thesis by blast
next
  case (Sleeping e)
  then have "st_attempt (step_step SleepOver s) \<noteq> st_attempt s" by (simp add: sleep_over_def)
  then show ?thesis by (metis step_event.distinct(23))
next
  case Running
  define a where "a = last (st_attempts s)"
  have ne: "st_attempts s \<noteq> []" using counts Running by (simp add: step_counts_def)
  then have a: "attempt_ok a" "a = st_attempts s ! (length (st_attempts s) - 1)" using ok by (simp_all add: a_def last_conv_nth)
  show ?thesis
  proof (cases "stage_over a")
    case False
    from attempt_goes_on [OF a(1) False, of "plain_error []"] obtain ev where
      ev: "ev \<in> {TimerFires (plain_error []), AwaitResumes, GraceExpires}" "attempt_step ev a \<noteq> a" by blast
    have "st_attempts (step_step (AttemptEvent (length (st_attempts s) - 1) ev) s) ! (length (st_attempts s) - 1) \<noteq> a"
      using ne ev(2) a(2) by (simp add: map_attempt_nth)
    then have "step_step (AttemptEvent (length (st_attempts s) - 1) ev) s \<noteq> s" using a(2) by metis
    moreover have "\<forall>k r. AttemptEvent (length (st_attempts s) - 1) ev \<noteq> AttemptEvent k (OperationSettles r)" using ev(1) by auto
    ultimately show ?thesis by blast
  next
    case True
    then obtain r nc where "at_stage a = Over r nc" by (auto simp: stage_over_def split: stage.splits)
    then have "st_phase (attempt_returned None 0 None s) \<noteq> Running"
      using Running by (auto simp: attempt_returned_def a_def [symmetric] step_caught_not_running split: sum.split option.split)
    with Running have "step_step (AttemptReturned None 0 None) s \<noteq> s" by auto
    then show ?thesis by blast
  qed
qed (use open_phase in simp)

subsection \<open>Properties\<close>

text \<open>What the validation of a node gives.\<close>

lemma config_attempts:
  assumes "validateRetryConfig (Some r) = None"
  shows "1 \<le> max_attempts (Some (retry_config_of r f)) \<and> max_attempts (Some (retry_config_of r f)) \<le> 100"
  using validated_attempts validated_fields [OF assms]
  by (auto simp: max_attempts_def retry_config_of_def split: option.split)

lemma prepared_step:
  assumes "prepare_step node dt = Inr retry"
  shows "1 \<le> max_attempts (Some retry) \<and> max_attempts (Some retry) \<le> 100"
proof (cases "Option.bind (sn_retry node) id")
  case None
  then have "spread_retry (Option.bind (sn_retry node) id) (sn_retryIf node) = DEFAULT_RETRY" by (simp add: spread_retry_def)
  moreover have "retry = spread_retry (Option.bind (sn_retry node) id) (sn_retryIf node)"
    using assms by (auto simp: prepare_step_def split: if_splits option.splits sum.splits)
  ultimately show ?thesis by (simp add: max_attempts_def DEFAULT_RETRY_def)
next
  case (Some r)
  then have node: "sn_retry node = Some (Some r)" by (cases "sn_retry node") auto
  with assms have v: "validateRetryConfig (Some r) = None" and
    retry: "retry = spread_retry (Some r) (sn_retryIf node)"
    by (auto simp: prepare_step_def split: if_splits option.splits sum.splits)
  have "rr_maxAttempts r = JAbsent \<or>
      max_attempts (Some retry) = max_attempts (Some (retry_config_of r (sn_retryIf node)))"
    by (simp add: retry spread_retry_def Let_def spread_field_def max_attempts_def)
  moreover have "rr_maxAttempts r = JAbsent \<Longrightarrow> max_attempts (Some retry) = 1"
    by (simp add: retry spread_retry_def Let_def spread_field_def max_attempts_def DEFAULT_RETRY_def)
  ultimately show ?thesis using config_attempts [OF v] by auto
qed

lemma prepared_composite:
  assumes "prepare_composite retry f timeout = Inr (config, timed)"
  shows "1 \<le> max_attempts config \<and> max_attempts config \<le> 100"
proof (cases config)
  case (Some c)
  with assms obtain r where "retry = Some (Some r)" "validateRetryConfig (Some r) = None" "c = retry_config_of r f"
    by (auto simp: prepare_composite_def Let_def bind_eq_Some_conv split: option.splits sum.splits)
  with config_attempts Some show ?thesis by simp
qed (simp add: max_attempts_def)

text \<open>C30: However its operation, its timers, the hooks and the abort signal interleave, a step starts an attempt only when
  the operation of the attempt before has settled, so that no two of its operations are ever active at once; it makes
  at most as many attempts as it is configured to, and never more than a hundred; and it succeeds only with the value
  that its last operation gave before it was aborted.\<close>

theorem step_attempts_are_isolated:
  assumes "prepare_step node dt = Inr retry" "s = step_run retry parent evs"
  shows "(\<forall>k. Suc k < length (st_attempts s) \<longrightarrow> \<not> op_active (st_attempts s ! k)) \<and>
    length (st_attempts s) \<le> max_attempts (Some retry) \<and> max_attempts (Some retry) \<le> 100 \<and>
    (\<forall>v. st_phase s = Finished (StepSucceeded v) \<longrightarrow> at_operation (last (st_attempts s)) = OpFenced (Inr v))"
proof -
  note max = prepared_step [OF assms(1)]
  have "step_counts s" "step_end_ok s" using max by (simp_all add: assms(2) counts_run end_ok_run)
  moreover have "st_max s = max_attempts (Some retry)" by (simp add: assms(2) step_run_max)
  moreover have "\<forall>k. Suc k < length (st_attempts s) \<longrightarrow> \<not> op_active (st_attempts s ! k)"
    unfolding assms(2) step_run_def by (intro allI impI st.isolated [OF start_step_inv])
  ultimately show ?thesis using max by (simp add: step_counts_def step_end_ok_def)
qed

text \<open>The same of a composite node: an attempt starts only when the execution before has settled, there are at most as
  many as configured, and the result that is returned is the one of the last execution, with the number of the
  attempt.\<close>

theorem composite_attempts_are_isolated:
  assumes "prepare_composite retry f timeout = Inr (config, timed)" "s = composite_run i config timed parent evs"
  shows "(\<forall>k. Suc k < length (cn_attempts s) \<longrightarrow> \<not> op_active (cn_attempts s ! k)) \<and>
    length (cn_attempts s) \<le> max_attempts config \<and> max_attempts config \<le> 100 \<and>
    (\<forall>r. cn_phase s = CompositeFinished (CompositeReturned r) \<longrightarrow>
       (\<exists>x. at_operation (last (cn_attempts s)) = OpFenced (Inr x) \<and> r = withAttempt (cn_attempt s) x))"
proof -
  note max = prepared_composite [OF assms(1)]
  have "composite_counts s" using max by (simp add: assms(2) composite_counts_run)
  moreover have "cn_max s = max_attempts config" by (simp add: assms(2) composite_run_max)
  moreover have "\<forall>k. Suc k < length (cn_attempts s) \<longrightarrow> \<not> op_active (cn_attempts s ! k)"
    unfolding assms(2) composite_run_def by (intro allI impI cn.isolated [OF start_composite_inv])
  ultimately show ?thesis using max by (simp add: composite_counts_def)
qed

text \<open>C31: A step always returns: every event that changes its run lowers a bound on the events that still can, and while
  it has not returned some event other than the settling of its operation changes it, since its timers fire; so an
  operation that never settles does not keep it.\<close>

theorem step_always_returns:
  assumes "prepare_step node dt = Inr retry" "s = step_run retry parent evs"
  shows "(\<forall>ev. step_step ev s \<noteq> s \<longrightarrow> step_rank (step_step ev s) < step_rank s) \<and>
    ((\<forall>x. st_phase s \<noteq> Finished x) \<longrightarrow>
       (\<exists>ev. (\<forall>k r. ev \<noteq> AttemptEvent k (OperationSettles r)) \<and> step_step ev s \<noteq> s))"
proof -
  have counts: "step_counts s" using prepared_step [OF assms(1)] by (simp add: assms(2) counts_run)
  moreover have "\<forall>a \<in> set (st_attempts s). attempt_ok a"
    using st.all_ok [OF start_step_inv] by (auto simp: assms(2) step_run_def)
  ultimately show ?thesis using step_rank_decreases step_goes_on by blast
qed

subsection \<open>A run\<close>

definition tool_step :: step_node where
  "tool_step = \<lparr>sn_isStep = True, sn_hasAgent = False, sn_hasTool = True, sn_retry = Some (Some sample_retry),
     sn_retryIf = (\<lambda>_. None), sn_timeout = None\<rparr>"

definition reset_error :: workflow_error where
  "reset_error = plain_error ''read ECONNRESET''"

text \<open>The first attempt times out and its operation stops within the grace period; its error is retried, and the second
  succeeds.\<close>

definition retried_events :: "nat step_event list" where
  "retried_events =
     [InputResolved None 0 None, StepAnnounced None 0 None,
      AttemptEvent 0 (TimerFires reset_error), AttemptEvent 0 AwaitResumes, AttemptEvent 0 (OperationSettles (Inr 3)),
      AttemptEvent 0 FenceReacts, AttemptEvent 0 AwaitResumes, AttemptReturned None (1/2) None, SleepOver,
      InputResolved None 0 None, StepAnnounced None 0 None,
      AttemptEvent 1 (OperationSettles (Inr 5)), AttemptEvent 1 FenceReacts, AttemptEvent 1 AwaitResumes,
      AttemptReturned None 0 None]"

lemmas step_eval = step_run_def retried_events_def start_step_def enter_attempt_def st_max_def max_attempts_def
  input_resolved_def step_announced_def begin_attempt_def map_attempt_def abort_attempt_def stage_over_def await_resumes_def
  is_fenced_def operation_result_def fence_reacts_def attempt_returned_def sleep_over_def step_caught_def

lemma sample_retry_config:
  "spread_retry (Some sample_retry) f =
     \<lparr>rc_maxAttempts = Some 3, rc_initialDelay = Some 100, rc_maxDelay = Some 1000, rc_backoff = Some Exponential, rc_retryIf = None\<rparr>"
  by (simp add: spread_retry_def sample_retry_def Let_def spread_field_def retry_config_of_def)

lemma tool_step_prepared: "prepare_step tool_step None = Inr (spread_retry (Some sample_retry) (\<lambda>_. None))"
  by (simp add: prepare_step_def tool_step_def sample_retry_valid parsePositiveDuration_def validateNumericDuration_def
      DEFAULT_STEP_TIMEOUT_MS_def MAX_TIMER_DELAY_MS_def MAX_SAFE_INTEGER_def)

lemma reset_retried: "isRetryableWorkflowError reset_error None"
  by (simp add: isRetryableWorkflowError_def reset_error_def plain_error_def hasTransientErrorCode_def code_here_def
      transient_codes_def word_char_def)

lemma sample_delay:
  "calculateRetryDelay (Suc 0) (1/2) (Some \<lparr>rc_maxAttempts = Some 3, rc_initialDelay = Some 100, rc_maxDelay = Some 1000,
     rc_backoff = Some Exponential, rc_retryIf = None\<rparr>) = 100"
  by (simp add: calculateRetryDelay_def base_delay_def initial_delay_def max_delay_def)

lemma retried_run:
  "st_attempts (step_run (spread_retry (Some sample_retry) f) None retried_events) =
     [\<lparr>at_operation = OpFenced (Inl reset_error), at_aborted = Some reset_error, at_race = Some (Inl reset_error),
       at_stage = Over (Inl reset_error) False\<rparr>,
      \<lparr>at_operation = OpFenced (Inr 5), at_aborted = None, at_race = Some (Inr 5), at_stage = Over (Inr 5) False\<rparr>] \<and>
   st_phase (step_run (spread_retry (Some sample_retry) f) None retried_events) = Finished (StepSucceeded 5)"
  unfolding sample_retry_config
  by (simp add: step_eval reset_retried sample_delay MAX_TIMER_DELAY_MS_def Let_def)

theorem step_attempts_are_isolated_witness:
  "st_phase (step_run (spread_retry (Some sample_retry) (\<lambda>_. None)) None retried_events) = Finished (StepSucceeded 5) \<and>
   length (st_attempts (step_run (spread_retry (Some sample_retry) (\<lambda>_. None)) None retried_events)) = 2 \<and>
   \<not> op_active (st_attempts (step_run (spread_retry (Some sample_retry) (\<lambda>_. None)) None retried_events) ! 0)"
  using step_attempts_are_isolated [OF tool_step_prepared refl, of None retried_events] retried_run by simp

theorem step_always_returns_witness:
  "\<exists>ev. step_step ev (start_step (spread_retry (Some sample_retry) (\<lambda>_. None)) None :: nat step_run) \<noteq>
     start_step (spread_retry (Some sample_retry) (\<lambda>_. None)) None"
proof -
  have "step_run (spread_retry (Some sample_retry) (\<lambda>_. None)) None [] =
      (start_step (spread_retry (Some sample_retry) (\<lambda>_. None)) None :: nat step_run)" by (simp add: step_run_def)
  moreover have "st_phase (start_step (spread_retry (Some sample_retry) (\<lambda>_. None)) None :: nat step_run) = Resolving"
    by (simp add: sample_retry_config start_step_def enter_attempt_def st_max_def max_attempts_def)
  ultimately show ?thesis using step_always_returns [OF tool_step_prepared refl, of None "[]"] by (metis step_phase.distinct(7))
qed

end
