(* ===== verification/NodeNamespace.thy ===== *)
theory NodeNamespace
  imports Prelude "HOL-Library.Sublist"
begin

text \<open>
  Node ids of nested workflows, \<open>workflow/dsl/validation.ts\<close>: the children of a composite node live in the namespace of
  its id. A node is a tree; what a configuration holds besides its children is the type \<open>'p\<close>. Steps computed by a
  function are named by it, and the prefixes a definition was rebased by are kept with it, newest first, with the ids
  the rebase left alone, as the closures of the code keep them.
\<close>

type_synonym rebase_layer = "string \<times> string \<times> string list"

datatype 'p wnode = WNode string "'p wconfig" "string list option"
and 'p wconfig =
    CLeaf 'p
  | CParallel 'p "'p wnode list"
  | CBranch 'p "'p wnode list" "'p wnode list option"
  | CLoop 'p "'p wsteps"
  | CSub 'p "'p wsub"
and 'p wsteps = Static "'p wnode list" | Dynamic string
and 'p wsub = Named string | Defined "'p wdef"
and 'p wdef = WDef 'p "'p wsteps" "rebase_layer list"

definition slash :: "string \<Rightarrow> string" where "slash i = i @ ''/''"

definition then_prefix :: "string \<Rightarrow> string" where "then_prefix i = i @ ''/then/''"

definition else_prefix :: "string \<Rightarrow> string" where "else_prefix i = i @ ''/else/''"

definition rebaseId :: "string \<Rightarrow> string \<Rightarrow> string \<Rightarrow> string" where
  "rebaseId oldPrefix newPrefix i =
     (if newPrefix \<noteq> [] \<and> prefix newPrefix i then i
      else if oldPrefix \<noteq> [] \<and> prefix oldPrefix i then newPrefix @ drop (length oldPrefix) i
      else newPrefix @ i)"

text \<open>The second component collects the ids left unchanged, the set \<open>kept\<close>.\<close>

fun rebaseWorkflowNodes :: "string \<Rightarrow> string \<Rightarrow> 'p wnode list \<Rightarrow> 'p wnode list \<times> string list"
and rebase_node :: "string \<Rightarrow> string \<Rightarrow> 'p wnode \<Rightarrow> 'p wnode \<times> string list"
and rebaseCompositeDescendants :: "string \<Rightarrow> string \<Rightarrow> string \<Rightarrow> string \<Rightarrow> 'p wconfig \<Rightarrow> 'p wconfig \<times> string list"
and rebaseWorkflowDefinition :: "string \<Rightarrow> string \<Rightarrow> 'p wdef \<Rightarrow> 'p wdef" where
  "rebaseWorkflowNodes old new [] = ([], [])"
| "rebaseWorkflowNodes old new (n # ns) =
     (let (m, k) = rebase_node old new n; (ms, ks) = rebaseWorkflowNodes old new ns in (m # ms, k @ ks))"
| "rebase_node old new (WNode i c d) =
     (let j = rebaseId old new i; (c', k) = rebaseCompositeDescendants i j old new c
      in (WNode j c' (map_option (map (rebaseId old new)) d), (if j = i then [i] else []) @ k))"
| "rebaseCompositeDescendants i j old new (CLeaf p) = (CLeaf p, [])"
| "rebaseCompositeDescendants i j old new (CParallel p ns) =
     (let (ms, k) = rebaseWorkflowNodes (slash i) (slash j) ns in (CParallel p ms, k))"
| "rebaseCompositeDescendants i j old new (CBranch p t None) =
     (let (ms, k) = rebaseWorkflowNodes (then_prefix i) (then_prefix j) t in (CBranch p ms None, k))"
| "rebaseCompositeDescendants i j old new (CBranch p t (Some e)) =
     (let (ms, k) = rebaseWorkflowNodes (then_prefix i) (then_prefix j) t;
          (es, l) = rebaseWorkflowNodes (else_prefix i) (else_prefix j) e
      in (CBranch p ms (Some es), k @ l))"
| "rebaseCompositeDescendants i j old new (CLoop p (Static ns)) =
     (let (ms, k) = rebaseWorkflowNodes (slash i) (slash j) ns in (CLoop p (Static ms), k))"
| "rebaseCompositeDescendants i j old new (CLoop p (Dynamic g)) = (CLoop p (Dynamic g), [])"
| "rebaseCompositeDescendants i j old new (CSub p (Named w)) = (CSub p (Named w), [])"
| "rebaseCompositeDescendants i j old new (CSub p (Defined w)) = (CSub p (Defined (rebaseWorkflowDefinition old new w)), [])"
| "rebaseWorkflowDefinition old new (WDef p (Static ns) layers) =
     (let (ms, k) = rebaseWorkflowNodes old new ns in WDef p (Static ms) ((old, new, k) # layers))"
| "rebaseWorkflowDefinition old new (WDef p (Dynamic g) layers) = WDef p (Dynamic g) ((old, new, []) # layers)"

definition namespaceWorkflowNodes :: "string \<Rightarrow> 'p wnode list \<Rightarrow> 'p wnode list" where
  "namespaceWorkflowNodes p nodes = fst (rebaseWorkflowNodes [] p nodes)"

definition removeWorkflowNodeNamespace :: "string \<Rightarrow> 'p wnode list \<Rightarrow> 'p wnode list" where
  "removeWorkflowNodeNamespace p nodes = fst (rebaseWorkflowNodes p [] nodes)"

definition namespaceWorkflowDefinition :: "string \<Rightarrow> 'p wdef \<Rightarrow> 'p wdef" where
  "namespaceWorkflowDefinition p w = rebaseWorkflowDefinition [] p w"

text \<open>The ids that can be seen without calling anything.\<close>

fun collectWorkflowNodeIds :: "'p wnode list \<Rightarrow> string list"
and visit_node :: "'p wnode \<Rightarrow> string list"
and visit_config :: "'p wconfig \<Rightarrow> string list"
and visit_definition :: "'p wdef \<Rightarrow> string list"
and visit_steps :: "'p wsteps \<Rightarrow> string list" where
  "collectWorkflowNodeIds [] = []"
| "collectWorkflowNodeIds (n # ns) = visit_node n @ collectWorkflowNodeIds ns"
| "visit_node (WNode i c d) = i # visit_config c"
| "visit_config (CLeaf p) = []"
| "visit_config (CParallel p ns) = collectWorkflowNodeIds ns"
| "visit_config (CBranch p t None) = collectWorkflowNodeIds t"
| "visit_config (CBranch p t (Some e)) = collectWorkflowNodeIds t @ collectWorkflowNodeIds e"
| "visit_config (CLoop p s) = visit_steps s"
| "visit_config (CSub p (Named w)) = []"
| "visit_config (CSub p (Defined w)) = visit_definition w"
| "visit_definition (WDef q s layers) = visit_steps s"
| "visit_steps (Static ns) = collectWorkflowNodeIds ns"
| "visit_steps (Dynamic g) = []"

subsection \<open>The context a definition sees\<close>

definition is_kept :: "string list \<Rightarrow> string \<Rightarrow> bool" where
  "is_kept kept key \<longleftrightarrow> (\<exists>i \<in> set kept. key = i \<or> prefix (slash i) key)"

definition rebase_key :: "string \<Rightarrow> string \<Rightarrow> string list \<Rightarrow> string \<Rightarrow> string" where
  "rebase_key from to kept key =
     (if prefix from key \<and> \<not> is_kept kept key then to @ drop (length from) key else key)"

definition rebaseContextKeys :: "string \<Rightarrow> string \<Rightarrow> string list \<Rightarrow> (string \<times> 'v) list \<Rightarrow> (string \<times> 'v) list" where
  "rebaseContextKeys from to kept context = fold (\<lambda>(k, v). jm_set (rebase_key from to kept k) v) context []"

definition workflowOutputValidationContext :: "'p wdef \<Rightarrow> (string \<times> 'v) list \<Rightarrow> (string \<times> 'v) list" where
  "workflowOutputValidationContext w context =
     (case w of WDef p s layers \<Rightarrow> fold (\<lambda>(old, new, kept). rebaseContextKeys new old kept) layers context)"

subsection \<open>Children stay in their namespace\<close>

lemma rebaseId_prefix: "prefix new (rebaseId old new i)"
  by (simp add: rebaseId_def)

lemma rebaseId_same: "rebaseId old new i = i \<Longrightarrow> prefix new i"
  by (metis rebaseId_prefix)

lemma prefix_slash: "prefix p i \<Longrightarrow> prefix p (slash i)" "prefix p i \<Longrightarrow> prefix p (then_prefix i)" "prefix p i \<Longrightarrow> prefix p (else_prefix i)"
  by (simp_all add: slash_def then_prefix_def else_prefix_def prefix_prefix)

lemma rebased_ids:
  fixes ns :: "'p wnode list" and n :: "'p wnode" and c :: "'p wconfig" and w :: "'p wdef"
  shows "\<forall>x \<in> set (collectWorkflowNodeIds (fst (rebaseWorkflowNodes old new ns))). prefix new x"
    and "\<forall>x \<in> set (visit_node (fst (rebase_node old new n))). prefix new x"
    and "prefix new j \<Longrightarrow> \<forall>x \<in> set (visit_config (fst (rebaseCompositeDescendants i j old new c))). prefix new x"
    and "\<forall>x \<in> set (visit_definition (rebaseWorkflowDefinition old new w)). prefix new x"
proof (induction old new ns and old new n and i j old new c and old new w
    rule: rebaseWorkflowNodes_rebase_node_rebaseCompositeDescendants_rebaseWorkflowDefinition.induct)
qed (auto simp: rebaseId_prefix Let_def split: prod.splits intro: prefix_order.trans prefix_slash dest: rebaseId_same)

subsection \<open>Leaving a namespace again\<close>

text \<open>The tree without the record of the prefixes its definitions were rebased by.\<close>

fun plain_nodes :: "'p wnode list \<Rightarrow> 'p wnode list"
and plain_node :: "'p wnode \<Rightarrow> 'p wnode"
and plain_config :: "'p wconfig \<Rightarrow> 'p wconfig"
and plain_definition :: "'p wdef \<Rightarrow> 'p wdef"
and plain_steps :: "'p wsteps \<Rightarrow> 'p wsteps" where
  "plain_nodes [] = []"
| "plain_nodes (n # ns) = plain_node n # plain_nodes ns"
| "plain_node (WNode i c d) = WNode i (plain_config c) d"
| "plain_config (CLeaf p) = CLeaf p"
| "plain_config (CParallel p ns) = CParallel p (plain_nodes ns)"
| "plain_config (CBranch p t None) = CBranch p (plain_nodes t) None"
| "plain_config (CBranch p t (Some e)) = CBranch p (plain_nodes t) (Some (plain_nodes e))"
| "plain_config (CLoop p s) = CLoop p (plain_steps s)"
| "plain_config (CSub p (Named w)) = CSub p (Named w)"
| "plain_config (CSub p (Defined w)) = CSub p (Defined (plain_definition w))"
| "plain_definition (WDef p s layers) = WDef p (plain_steps s) []"
| "plain_steps (Static ns) = Static (plain_nodes ns)"
| "plain_steps (Dynamic g) = Dynamic g"

text \<open>Ids and dependencies of a node lie in the namespace of its parent, and going from one namespace to the other
  and back does not mistake one for the other.\<close>

definition name_ok :: "string \<Rightarrow> string \<Rightarrow> string \<Rightarrow> bool" where
  "name_ok old new i \<longleftrightarrow> prefix old i \<and> \<not> prefix new i \<and> (old \<noteq> [] \<longrightarrow> \<not> prefix old (new @ drop (length old) i))"

fun nodes_ok :: "string \<Rightarrow> string \<Rightarrow> 'p wnode list \<Rightarrow> bool"
and node_ok :: "string \<Rightarrow> string \<Rightarrow> 'p wnode \<Rightarrow> bool"
and config_ok :: "string \<Rightarrow> string \<Rightarrow> string \<Rightarrow> string \<Rightarrow> 'p wconfig \<Rightarrow> bool"
and definition_ok :: "string \<Rightarrow> string \<Rightarrow> 'p wdef \<Rightarrow> bool"
and steps_ok :: "string \<Rightarrow> string \<Rightarrow> 'p wsteps \<Rightarrow> bool" where
  "nodes_ok old new [] = True"
| "nodes_ok old new (n # ns) = (node_ok old new n \<and> nodes_ok old new ns)"
| "node_ok old new (WNode i c d) =
     (name_ok old new i \<and> (\<forall>x \<in> set (case d of None \<Rightarrow> [] | Some xs \<Rightarrow> xs). name_ok old new x) \<and>
      config_ok i (rebaseId old new i) old new c)"
| "config_ok i j old new (CLeaf p) = True"
| "config_ok i j old new (CParallel p ns) = nodes_ok (slash i) (slash j) ns"
| "config_ok i j old new (CBranch p t None) = nodes_ok (then_prefix i) (then_prefix j) t"
| "config_ok i j old new (CBranch p t (Some e)) =
     (nodes_ok (then_prefix i) (then_prefix j) t \<and> nodes_ok (else_prefix i) (else_prefix j) e)"
| "config_ok i j old new (CLoop p s) = steps_ok (slash i) (slash j) s"
| "config_ok i j old new (CSub p (Named w)) = True"
| "config_ok i j old new (CSub p (Defined w)) = definition_ok old new w"
| "definition_ok old new (WDef p s layers) = steps_ok old new s"
| "steps_ok old new (Static ns) = nodes_ok old new ns"
| "steps_ok old new (Dynamic g) = True"

lemma rebaseId_back:
  assumes "name_ok old new i" "new \<noteq> []"
  shows "rebaseId new old (rebaseId old new i) = i"
proof -
  from assms have "rebaseId old new i = new @ drop (length old) i" "prefix old i"
    by (auto simp: rebaseId_def name_ok_def)
  moreover have "\<not> (old \<noteq> [] \<and> prefix old (new @ drop (length old) i))" using assms unfolding name_ok_def by blast
  ultimately show ?thesis using assms by (auto simp: rebaseId_def prefix_def)
qed

lemma rebase_back:
  fixes ns :: "'p wnode list" and n :: "'p wnode" and c :: "'p wconfig" and w :: "'p wdef"
  shows "nodes_ok old new ns \<Longrightarrow> new \<noteq> [] \<Longrightarrow>
      plain_nodes (fst (rebaseWorkflowNodes new old (fst (rebaseWorkflowNodes old new ns)))) = plain_nodes ns"
    and "node_ok old new n \<Longrightarrow> new \<noteq> [] \<Longrightarrow>
      plain_node (fst (rebase_node new old (fst (rebase_node old new n)))) = plain_node n"
    and "config_ok i j old new c \<Longrightarrow> new \<noteq> [] \<Longrightarrow>
      plain_config (fst (rebaseCompositeDescendants j i new old (fst (rebaseCompositeDescendants i j old new c)))) = plain_config c"
    and "definition_ok old new w \<Longrightarrow> new \<noteq> [] \<Longrightarrow>
      plain_definition (rebaseWorkflowDefinition new old (rebaseWorkflowDefinition old new w)) = plain_definition w"
proof (induction old new ns and old new n and i j old new c and old new w
    rule: rebaseWorkflowNodes_rebase_node_rebaseCompositeDescendants_rebaseWorkflowDefinition.induct)
  case (3 old new i c d)
  have i: "rebaseId new old (rebaseId old new i) = i" using 3 by (simp add: rebaseId_back)
  have "map_option (map (rebaseId new old)) (map_option (map (rebaseId old new)) d) = d"
    using 3 by (cases d) (auto simp: rebaseId_back intro!: map_idI)
  with 3 i show ?case by (auto simp: Let_def split: prod.splits)
qed (auto simp: Let_def slash_def then_prefix_def else_prefix_def split: prod.splits)


text \<open>A graph as the builders make it: every child and every dependency of a child starts with the id of its parent.\<close>

fun nested :: "string \<Rightarrow> 'p wnode list \<Rightarrow> bool"
and nested_node :: "string \<Rightarrow> 'p wnode \<Rightarrow> bool"
and nested_config :: "string \<Rightarrow> string \<Rightarrow> 'p wconfig \<Rightarrow> bool"
and nested_definition :: "string \<Rightarrow> 'p wdef \<Rightarrow> bool"
and nested_steps :: "string \<Rightarrow> 'p wsteps \<Rightarrow> bool" where
  "nested q [] = True"
| "nested q (n # ns) = (nested_node q n \<and> nested q ns)"
| "nested_node q (WNode i c d) =
     (prefix q i \<and> (\<forall>x \<in> set (case d of None \<Rightarrow> [] | Some xs \<Rightarrow> xs). prefix q x) \<and> nested_config q i c)"
| "nested_config q i (CLeaf p) = True"
| "nested_config q i (CParallel p ns) = nested (slash i) ns"
| "nested_config q i (CBranch p t None) = nested (then_prefix i) t"
| "nested_config q i (CBranch p t (Some e)) = (nested (then_prefix i) t \<and> nested (else_prefix i) e)"
| "nested_config q i (CLoop p s) = nested_steps (slash i) s"
| "nested_config q i (CSub p (Named w)) = True"
| "nested_config q i (CSub p (Defined w)) = nested_definition q w"
| "nested_definition q (WDef p s layers) = nested_steps q s"
| "nested_steps q (Static ns) = nested q ns"
| "nested_steps q (Dynamic g) = True"

text \<open>Every id and dependency.\<close>

fun names :: "'p wnode list \<Rightarrow> string list"
and node_names :: "'p wnode \<Rightarrow> string list"
and config_names :: "'p wconfig \<Rightarrow> string list"
and definition_names :: "'p wdef \<Rightarrow> string list"
and steps_names :: "'p wsteps \<Rightarrow> string list" where
  "names [] = []"
| "names (n # ns) = node_names n @ names ns"
| "node_names (WNode i c d) = i # (case d of None \<Rightarrow> [] | Some xs \<Rightarrow> xs) @ config_names c"
| "config_names (CLeaf p) = []"
| "config_names (CParallel p ns) = names ns"
| "config_names (CBranch p t None) = names t"
| "config_names (CBranch p t (Some e)) = names t @ names e"
| "config_names (CLoop p s) = steps_names s"
| "config_names (CSub p (Named w)) = []"
| "config_names (CSub p (Defined w)) = definition_names w"
| "definition_names (WDef p s layers) = steps_names s"
| "steps_names (Static ns) = names ns"
| "steps_names (Dynamic g) = []"

text \<open>No name lies in the namespace that is entered, and none has children in whose namespace it lies.\<close>

definition apart :: "string \<Rightarrow> string \<Rightarrow> string list \<Rightarrow> bool" where
  "apart old new xs \<longleftrightarrow>
     (\<forall>x \<in> set xs. \<not> prefix new x \<and> (if old = [] then \<not> prefix (slash x) new else \<not> prefix old (new @ drop (length old) x)))"

lemma apart_sub: "apart old new xs \<Longrightarrow> set ys \<subseteq> set xs \<Longrightarrow> apart old new ys"
  by (auto simp: apart_def)

lemma apart_name: "apart old new xs \<Longrightarrow> x \<in> set xs \<Longrightarrow> prefix old x \<Longrightarrow> name_ok old new x"
  by (auto simp: apart_def name_ok_def)

text \<open>What is apart stays apart below a name \<open>i\<close>; \<open>sep\<close> is the separator.\<close>

lemma apart_below:
  assumes "apart old new (i # xs)" "prefix old i" "new \<noteq> []" "\<forall>x \<in> set xs. prefix (i @ sep) x" "prefix ''/'' sep"
  shows "apart (i @ sep) (rebaseId old new i @ sep) xs"
proof -
  have j: "rebaseId old new i = new @ drop (length old) i" using assms(1-3) by (auto simp: rebaseId_def apart_def)
  have "\<not> prefix (new @ drop (length old) i @ sep) x \<and> \<not> prefix (i @ sep) (new @ drop (length old) i @ sep @ drop (length i + length sep) x)"
    if x: "x \<in> set xs" for x
  proof
    from assms(1) x have nx: "\<not> prefix new x" by (simp add: apart_def)
    then show "\<not> prefix (new @ drop (length old) i @ sep) x" by (meson append_prefixD)
    from assms(4) x obtain t where t: "x = i @ sep @ t" by (auto simp: prefix_def)
    from assms(2) obtain s where s: "i = old @ s" by (auto simp: prefix_def)
    show "\<not> prefix (i @ sep) (new @ drop (length old) i @ sep @ drop (length i + length sep) x)"
    proof
      assume p: "prefix (i @ sep) (new @ drop (length old) i @ sep @ drop (length i + length sep) x)"
      show False
      proof (cases "old = []")
        case True
        from p have "prefix (i @ sep) (new @ i @ sep @ t)" by (simp add: True t)
        then have "prefix (i @ sep) new \<or> prefix new (i @ sep)" by (metis prefix_same_cases prefixI)
        moreover have "prefix (i @ sep) new \<Longrightarrow> prefix (slash i) new"
          using assms(5) by (metis append_assoc append_prefixD prefixE slash_def)
        moreover have "prefix new (i @ sep) \<Longrightarrow> prefix new x" by (simp add: t flip: append_assoc)
        ultimately show False using assms(1) nx True by (auto simp: apart_def)
      next
        case False
        from p have "prefix old (new @ drop (length old) x)" by (simp add: s t) (metis append_prefixD)
        with assms(1) x False show False by (simp add: apart_def)
      qed
    qed
  qed
  then show ?thesis by (auto simp: apart_def j)
qed


lemma nested_names:
  fixes ns :: "'p wnode list" and n :: "'p wnode" and c :: "'p wconfig" and w :: "'p wdef" and st :: "'p wsteps"
  shows "nested q ns \<Longrightarrow> \<forall>x \<in> set (names ns). prefix q x"
    and "nested_node q n \<Longrightarrow> \<forall>x \<in> set (node_names n). prefix q x"
    and "nested_config q i c \<Longrightarrow> prefix q i \<Longrightarrow> \<forall>x \<in> set (config_names c). prefix q x"
    and "nested_definition q w \<Longrightarrow> \<forall>x \<in> set (definition_names w). prefix q x"
    and "nested_steps q st \<Longrightarrow> \<forall>x \<in> set (steps_names st). prefix q x"
  by (induction q ns and q n and q i c and q w and q st
      rule: nested_nested_node_nested_config_nested_definition_nested_steps.induct)
    (auto intro: prefix_order.trans prefix_slash split: option.splits)

lemma below_rules:
  assumes "apart old new (i # xs)" "prefix old i" "new \<noteq> []"
  shows "\<forall>x \<in> set xs. prefix (slash i) x \<Longrightarrow> apart (slash i) (slash (rebaseId old new i)) xs"
    "\<forall>x \<in> set xs. prefix (then_prefix i) x \<Longrightarrow> apart (then_prefix i) (then_prefix (rebaseId old new i)) xs"
    "\<forall>x \<in> set xs. prefix (else_prefix i) x \<Longrightarrow> apart (else_prefix i) (else_prefix (rebaseId old new i)) xs"
  unfolding slash_def then_prefix_def else_prefix_def
  using apart_below [OF assms(1-3)] by simp_all

lemma separator_nonempty [simp]: "slash i \<noteq> []" "then_prefix i \<noteq> []" "else_prefix i \<noteq> []"
  by (simp_all add: slash_def then_prefix_def else_prefix_def)

lemma nested_ok:
  fixes ns :: "'p wnode list" and n :: "'p wnode" and c :: "'p wconfig" and w :: "'p wdef" and st :: "'p wsteps"
  shows "nested old ns \<Longrightarrow> new \<noteq> [] \<Longrightarrow> apart old new (names ns) \<Longrightarrow> nodes_ok old new ns"
    and "nested_node old n \<Longrightarrow> new \<noteq> [] \<Longrightarrow> apart old new (node_names n) \<Longrightarrow> node_ok old new n"
    and "nested_config old i c \<Longrightarrow> new \<noteq> [] \<Longrightarrow> prefix old i \<Longrightarrow> apart old new (i # config_names c) \<Longrightarrow>
      config_ok i (rebaseId old new i) old new c"
    and "nested_definition old w \<Longrightarrow> new \<noteq> [] \<Longrightarrow> apart old new (definition_names w) \<Longrightarrow> definition_ok old new w"
    and "nested_steps old st \<Longrightarrow> new \<noteq> [] \<Longrightarrow> apart old new (steps_names st) \<Longrightarrow> steps_ok old new st"
proof (induction old ns and old n and old i c and old w and old st arbitrary: new and new and new and new and new
    rule: nested_nested_node_nested_config_nested_definition_nested_steps.induct)
  case (2 q n ns)
  have "apart q new (node_names n)" "apart q new (names ns)" by (rule apart_sub [OF 2(5)]; auto)+
  with 2 show ?case by simp
next
  case (3 q i c d)
  have "apart q new (i # config_names c)" by (rule apart_sub [OF 3(4)]) auto
  moreover have "\<forall>x \<in> set (case d of None \<Rightarrow> [] | Some xs \<Rightarrow> xs). name_ok q new x" "name_ok q new i"
    using 3(2,4) by (auto intro: apart_name)
  ultimately show ?case using 3 by simp
next
  case (5 q i p ns)
  then have "\<forall>x \<in> set (names ns). prefix (slash i) x" by (intro nested_names(1)) simp
  with 5 below_rules(1) [OF _ 5(4,3)] show ?case by simp
next
  case (6 q i p t)
  then have "\<forall>x \<in> set (names t). prefix (then_prefix i) x" by (intro nested_names(1)) simp
  with 6 below_rules(2) [OF _ 6(4,3)] show ?case by simp
next
  case (7 q i p t e)
  have "apart q new (i # names t)" "apart q new (i # names e)" by (rule apart_sub [OF 7(6)]; auto)+
  moreover have "\<forall>x \<in> set (names t). prefix (then_prefix i) x" "\<forall>x \<in> set (names e). prefix (else_prefix i) x"
    using 7(3) by (intro nested_names(1); simp)+
  ultimately show ?case using 7 below_rules(2,3) [OF _ 7(5,4)] by simp
next
  case (8 q i p st)
  then have "\<forall>x \<in> set (steps_names st). prefix (slash i) x" by (intro nested_names(5)) simp
  with 8 below_rules(1) [OF _ 8(4,3)] show ?case by simp
next
  case (10 q i p w)
  have "apart q new (definition_names w)" by (rule apart_sub [OF 10(5)]) auto
  with 10 show ?case by simp
qed simp_all

text \<open>C34: Removing a namespace from a graph that was put into it gives the graph back, whatever composite nodes, branches,
  loops and inline workflows it nests, provided the children of its nodes are named as the builders name them, no
  name already lies in the namespace, and no node has the id of the node that owns the namespace, or of one above it.\<close>

theorem namespace_roundtrip:
  assumes "nested [] nodes" "p \<noteq> []" "apart [] p (names nodes)"
  shows "plain_nodes (removeWorkflowNodeNamespace p (namespaceWorkflowNodes p nodes)) = plain_nodes nodes"
  unfolding removeWorkflowNodeNamespace_def namespaceWorkflowNodes_def
  by (rule rebase_back(1) [OF nested_ok(1) [OF assms(1,2,3)] assms(2)])

text \<open>Every id of a graph that was put into a namespace lies in it, those of nested nodes and of inline workflows
  included, so a child can collide with a node of the parent graph only when that node is named into the
  namespace itself.\<close>

theorem namespaced_ids_are_confined:
  "set (collectWorkflowNodeIds (namespaceWorkflowNodes p nodes)) \<subseteq> {i. prefix p i}"
  using rebased_ids(1) [of "[]" p nodes] by (auto simp: namespaceWorkflowNodes_def)

definition looped_nodes :: "string wnode list" where
  "looped_nodes =
     [WNode ''fetch'' (CLeaf ''step'') None,
      WNode ''each'' (CParallel ''all'' [WNode ''each/x'' (CLeaf ''step'') (Some [''each/y'']), WNode ''each/y'' (CLeaf ''step'') None])
        (Some [''fetch''])]"

theorem namespace_roundtrip_witness:
  "plain_nodes (removeWorkflowNodeNamespace ''loop/'' (namespaceWorkflowNodes ''loop/'' looped_nodes)) = looped_nodes"
proof -
  have "nested [] looped_nodes" by (simp add: looped_nodes_def slash_def)
  moreover have "apart [] ''loop/'' (names looped_nodes)" by (simp add: looped_nodes_def apart_def slash_def)
  ultimately show ?thesis using namespace_roundtrip [of looped_nodes "''loop/''"] by (simp add: looped_nodes_def)
qed

text \<open>The view of a definition undoes the namespace on the keys of the steps it declares: of those that were moved, and
  of those the rebase left alone.\<close>

lemma view_restores_declared_ids:
  assumes "p \<noteq> []" "prefix p i \<longrightarrow> i \<in> set kept" "\<not> prefix p i \<longrightarrow> \<not> is_kept kept (p @ i)"
  shows "rebase_key p [] kept (rebaseId [] p i) = i"
  using assms by (auto simp: rebase_key_def rebaseId_def is_kept_def)

text \<open>With a composite child that has the id of the loop the namespace is not left again: its children keep the prefix.\<close>

lemma same_id_not_restored:
  "removeWorkflowNodeNamespace ''each/'' (namespaceWorkflowNodes ''each/''
     [WNode ''each'' (CParallel p [WNode ''each/x'' (CLeaf q) None]) None]) =
   [WNode ''each'' (CParallel p [WNode ''each/each/x'' (CLeaf q) None]) None]"
  by (simp add: removeWorkflowNodeNamespace_def namespaceWorkflowNodes_def rebaseId_def slash_def Let_def)

text \<open>Two children of different names become one when one of them already carries the prefix.\<close>

lemma namespace_merges_ids:
  "collectWorkflowNodeIds (namespaceWorkflowNodes ''each/'' [WNode ''x'' (CLeaf p) None, WNode ''each/x'' (CLeaf p) None]) =
   [''each/x'', ''each/x'']"
  by (simp add: namespaceWorkflowNodes_def rebaseId_def Let_def)

end
