(* ===== verification/LoopNode.thy ===== *)
theory LoopNode
  imports NodeNamespace WorkflowPatch WorkflowGraph
begin

text \<open>
  The loop node of a workflow, \<open>executeLoopNodeStrategy\<close> in \<open>workflow/executor/dag/loop-node-strategy.ts\<close>. The condition,
  the generator of steps, the hooks and the execution of a child graph are functions of an environment; one execution
  of the node calls each at most once per iteration, and another execution has another environment. Errors they throw,
  which stand for an abort as well, end the execution. The condition and the hooks at the end return the context as they
  leave it beside their result; that a function changes the context and then throws, or that the generator of steps
  changes it, is left out. Timestamps are left out, and with them the encoding of dates in
  the persisted child states; the host's structural equality and cloneability are arguments, as in \<open>WorkflowPatch\<close>.
\<close>

subsection \<open>Values\<close>

datatype loop_exit = ByCondition | ByMaxIterations | ByError

text \<open>A value of a context is one of the program or one that the loop writes: the loop context \<open>_loop\<close>, the persisted
  loop state, and the outputs of the node.\<close>

datatype 'v wvalue =
    Plain 'v
  | LoopContextValue nat "(string \<times> 'v wvalue) list list" bool bool
  | LoopStateValue "'v loop_state"
  | WaitingOutput nat "(string \<times> 'v wvalue) list list"
  | LoopOutput loop_exit nat "(string \<times> 'v wvalue) list list" "(string \<times> 'v wvalue) list"
and 'v loop_state =
    LoopState (ls_owner: "string option") (ls_iteration: nat) (ls_previous: "(string \<times> 'v wvalue) list list")
      (ls_states: "(string \<times> 'v child_state) list option") (ls_completed: "string list option")
      (ls_context: "(string \<times> 'v wvalue) list option") (ls_evaluation: "(string \<times> 'v wvalue) list option")
and 'v child_state =
    ChildState (cs_status: node_status) (cs_output: "'v wvalue option") (cs_error: "string option")
      (cs_retry: "'v loop_state option") (cs_retained: bool) (cs_completed: "string list option")

type_synonym 'v wcontext = "(string \<times> 'v wvalue) list"
type_synonym 'v child_states = "(string \<times> 'v child_state) list"
type_synonym 'v parked_waits = "(string \<times> 'v option) list"

record 'v loop_context =
  lx_iteration :: nat
  lx_previousResults :: "'v wcontext list"
  lx_isFirstIteration :: bool
  lx_isLastAllowedIteration :: bool

definition loop_context_value :: "'v loop_context \<Rightarrow> 'v wvalue" where
  "loop_context_value l =
     LoopContextValue (lx_iteration l) (lx_previousResults l) (lx_isFirstIteration l) (lx_isLastAllowedIteration l)"

subsection \<open>The environment\<close>

record ('v, 'p) child_call =
  cc_nodes :: "'p wnode list"
  cc_iteration :: nat
  cc_states :: "'v child_states"
  cc_context :: "'v wcontext"
  cc_boundary :: "'v child_states option"

record ('v, 'e) child_result =
  cr_waiting :: bool
  cr_waitingNode :: "string option"
  cr_waitingConfig :: "'v option"
  cr_waitingNodes :: "'v parked_waits option"
  cr_stalledWaitNode :: "string option"
  cr_stalledWaitNodes :: "'v parked_waits option"
  cr_error :: "string option"
  cr_errorCause :: "'e option"
  cr_context :: "'v wcontext"
  cr_states :: "'v child_states"
  cr_patch :: "'v wvalue record_patch"

datatype ('v, 'p) loop_steps =
    StaticSteps "'p wnode list"
  | GeneratedSteps "'v wcontext \<Rightarrow> 'v loop_context \<Rightarrow> 'p wnode list option"

record ('v, 'p, 'e) loop_config =
  lc_steps :: "('v, 'p) loop_steps"
  lc_maxIterations :: nat
  lc_while :: "'v wcontext \<Rightarrow> 'v loop_context \<Rightarrow> 'e + bool \<times> 'v wcontext"
  lc_child :: "('v, 'p) child_call \<Rightarrow> 'e + ('v, 'e) child_result"
  lc_delay :: "nat \<Rightarrow> 'e option"
  lc_onMaxIterations :: "('v wcontext \<Rightarrow> 'v loop_context \<Rightarrow> 'e + 'v wcontext \<times> 'v wcontext) option"
  lc_onComplete :: "('v wcontext \<Rightarrow> 'v loop_context \<Rightarrow> 'e + 'v wcontext \<times> 'v wcontext) option"
  lc_stateEqual :: "'v child_state \<Rightarrow> 'v child_state \<Rightarrow> bool"
  lc_cloneable :: "'v wcontext \<Rightarrow> bool"

datatype 'e loop_error =
    ReservedKeyCollision string | ChildIdCollision string | LoopNotCloneable | NoOwnState | StepsThrew | Raised 'e

subsection \<open>The saved state of the loop\<close>

definition loopStateKey :: "string \<Rightarrow> string" where
  "loopStateKey i = i @ ''_loop_state''"

definition isPersistedLoopState :: "'v loop_state \<Rightarrow> bool" where
  "isPersistedLoopState s \<longleftrightarrow> ls_owner s \<noteq> None \<or> ls_states s \<noteq> None \<or> ls_completed s \<noteq> None"

definition persisted_in :: "'v wvalue option \<Rightarrow> 'v loop_state option" where
  "persisted_in v = (case v of Some (LoopStateValue s) \<Rightarrow> if isPersistedLoopState s then Some s else None | _ \<Rightarrow> None)"

definition isOwnedLoopState :: "'v wvalue option \<Rightarrow> string \<Rightarrow> bool" where
  "isOwnedLoopState v i = (case v of Some (LoopStateValue s) \<Rightarrow> ls_owner s = Some i | _ \<Rightarrow> False)"

definition hasLegacyDeclaredNodeState :: "'v child_states \<Rightarrow> string list \<Rightarrow> string list \<Rightarrow> bool" where
  "hasLegacyDeclaredNodeState states currentIds legacyIds \<longleftrightarrow>
     (\<exists>i \<in> set (jm_keys states). i \<in> set legacyIds \<and> i \<notin> set currentIds)"

definition reconcileIterationNodeStates :: "'v child_states \<Rightarrow> 'v child_states \<Rightarrow> 'v child_states" where
  "reconcileIterationNodeStates snapshot runNodeStates =
     fold (\<lambda>(i, s) acc. if jm_get acc i \<noteq> None then jm_set i s acc else acc) runNodeStates snapshot"

text \<open>What does not change during an execution.\<close>

record 'v loop_resume =
  re_iteration :: "nat option"
  re_outputRetry :: "'v loop_state option"
  re_legacyStatic :: bool

record 'v loop_vars =
  lv_iteration :: nat
  lv_previousResults :: "'v wcontext list"
  lv_resumeStates :: "'v child_states option"
  lv_exposed :: "'v child_states"
  lv_context :: "'v wcontext"
  lv_states :: "'v child_states"

subsection \<open>One iteration\<close>

definition loop_context_of :: "nat \<Rightarrow> 'v loop_vars \<Rightarrow> 'v loop_context" where
  "loop_context_of maxIterations lv =
     \<lparr>lx_iteration = lv_iteration lv, lx_previousResults = lv_previousResults lv,
      lx_isFirstIteration = (lv_iteration lv = 0), lx_isLastAllowedIteration = (Suc (lv_iteration lv) = maxIterations)\<rparr>"

definition resuming_states :: "'v loop_resume \<Rightarrow> 'v loop_vars \<Rightarrow> 'v child_states option" where
  "resuming_states re lv = (if re_iteration re = Some (lv_iteration lv) then lv_resumeStates lv else None)"

definition resuming_retry :: "'v loop_resume \<Rightarrow> 'v loop_vars \<Rightarrow> 'v loop_state option" where
  "resuming_retry re lv = (if re_iteration re = Some (lv_iteration lv) then re_outputRetry re else None)"

text \<open>The steps of the iteration, under the ids that its saved child states use.\<close>

definition iteration_steps :: "string \<Rightarrow> ('v, 'p, 'e) loop_config \<Rightarrow> 'v loop_resume \<Rightarrow> 'v child_states option \<Rightarrow> 'v wcontext \<Rightarrow>
    'v loop_context \<Rightarrow> 'p wnode list option" where
  "iteration_steps i cfg re resuming context l =
     (case lc_steps cfg of
        GeneratedSteps f \<Rightarrow>
          (case f context l of
             None \<Rightarrow> None
           | Some generated \<Rightarrow>
               (let namespaced = namespaceWorkflowNodes (slash i) generated
                in Some (case resuming of
                      Some states \<Rightarrow>
                        if hasLegacyDeclaredNodeState states (collectWorkflowNodeIds namespaced) (collectWorkflowNodeIds generated)
                        then generated else namespaced
                    | None \<Rightarrow> namespaced)))
      | StaticSteps steps \<Rightarrow>
          Some (if resuming \<noteq> None \<and> re_legacyStatic re then removeWorkflowNodeNamespace (slash i) steps else steps))"

definition parked_nodes :: "('v, 'e) child_result \<Rightarrow> 'v parked_waits option" where
  "parked_nodes r =
     (case cr_waitingNodes r of
        Some ws \<Rightarrow> Some ws
      | None \<Rightarrow>
          (case cr_stalledWaitNodes r of
             Some ws \<Rightarrow> Some ws
           | None \<Rightarrow> map_option (\<lambda>n. [(n, None)]) (cr_stalledWaitNode r)))"

definition first_parked :: "'v parked_waits option \<Rightarrow> (string \<times> 'v option) option" where
  "first_parked ws = (case ws of Some (w # _) \<Rightarrow> Some w | _ \<Rightarrow> None)"

record ('v, 'e) node_execution =
  ne_state :: "'v child_state"
  ne_patch :: "'v wvalue record_patch"
  ne_waiting :: bool
  ne_waitingNode :: "string option"
  ne_waitingConfig :: "'v option"
  ne_waitingNodes :: "'v parked_waits option"
  ne_errorCause :: "'e option"

definition saved_iteration :: "string \<Rightarrow> 'v loop_vars \<Rightarrow> 'v child_states \<Rightarrow> 'v loop_state" where
  "saved_iteration i lv states = LoopState (Some i) (lv_iteration lv) (lv_previousResults lv) (Some states) None None None"

definition parked_result :: "string \<Rightarrow> 'v loop_vars \<Rightarrow> ('v, 'e) child_result \<Rightarrow> ('v, 'e) node_execution" where
  "parked_result i lv r =
     \<lparr>ne_state = ChildState NRunning (Some (WaitingOutput (lv_iteration lv) (lv_previousResults lv))) None None False None,
      ne_patch = mergeContextPatches [cr_patch r,
        createSetContextPatch [(loopStateKey i, LoopStateValue (saved_iteration i lv (cr_states r)))]],
      ne_waiting = True,
      ne_waitingNode = (case cr_waitingNode r of Some n \<Rightarrow> Some n | None \<Rightarrow> map_option fst (first_parked (parked_nodes r))),
      ne_waitingConfig = (case cr_waitingConfig r of Some c \<Rightarrow> Some c | None \<Rightarrow> Option.bind (first_parked (parked_nodes r)) snd),
      ne_waitingNodes = parked_nodes r,
      ne_errorCause = None\<rparr>"

text \<open>Child states of the iteration go to the run's map as the difference to what the loop published last.\<close>

definition publish_states :: "('v, 'p, 'e) loop_config \<Rightarrow> 'v child_states \<Rightarrow> 'v loop_vars \<Rightarrow> 'v child_states" where
  "publish_states cfg states lv = applyRecordPatch (createRecordPatch (lc_stateEqual cfg) (lv_exposed lv) states) (lv_states lv)"

definition retains_output :: "'v child_states \<Rightarrow> bool" where
  "retains_output states \<longleftrightarrow> (\<exists>(i, s) \<in> set states. cs_status s = NFailed \<and> cs_retained s)"

text \<open>A test of a string or of an absent one: the empty string fails it as well.\<close>

definition truthy_text :: "string option \<Rightarrow> string option" where
  "truthy_text x = (if x = Some [] then None else x)"

datatype ('v, 'e) iteration_end =
    NextIteration "'v loop_vars"
  | ConditionFalse "'v loop_vars"
  | ChildFailed "'v loop_vars" string "'e option" "'v loop_state option"
  | ChildParked "'v loop_vars" "('v, 'e) node_execution"
  | LoopThrew "'v loop_vars" "'e loop_error"

text \<open>What follows the execution of the child graph.\<close>

definition after_child :: "string \<Rightarrow> ('v, 'p, 'e) loop_config \<Rightarrow> 'v wcontext \<Rightarrow> 'v loop_vars \<Rightarrow> ('v, 'e) child_result \<Rightarrow>
    ('v, 'e) iteration_end" where
  "after_child i cfg evaluation lv r =
     (if cr_waiting r \<or> parked_nodes r \<noteq> None then
        ChildParked (lv\<lparr>lv_states := publish_states cfg (cr_states r) lv\<rparr>) (parked_result i lv r)
      else
        (case truthy_text (cr_error r) of
           Some e \<Rightarrow>
             (if retains_output (cr_states r) then
                (if \<not> lc_cloneable cfg (cr_context r) then LoopThrew lv LoopNotCloneable
                 else
                   (let saved = LoopState (Some i) (lv_iteration lv) (lv_previousResults lv) (Some (cr_states r))
                          (Some (jm_keys (lv_exposed lv))) (Some (cr_context r)) (Some evaluation)
                    in case jm_get (lv_states lv) i of
                         None \<Rightarrow> LoopThrew lv NoOwnState
                       | Some (ChildState st out err retry retained completed) \<Rightarrow>
                           ChildFailed (lv\<lparr>lv_states := jm_set i (ChildState st out err (Some saved) retained completed) (lv_states lv)\<rparr>)
                             e (cr_errorCause r) (Some saved)))
              else ChildFailed lv e (cr_errorCause r) None)
         | None \<Rightarrow>
             (let lv1 = lv\<lparr>lv_previousResults := lv_previousResults lv @ [cr_context r],
                          lv_context := applyRecordPatch (cr_patch r) (lv_context lv),
                          lv_states := publish_states cfg (cr_states r) lv,
                          lv_exposed := cr_states r\<rparr>
              in case (if Suc (lv_iteration lv) < lc_maxIterations cfg then lc_delay cfg (lv_iteration lv) else None) of
                   Some e \<Rightarrow> LoopThrew lv1 (Raised e)
                 | None \<Rightarrow> NextIteration (lv1\<lparr>lv_iteration := Suc (lv_iteration lv)\<rparr>))))"

text \<open>The call of the child graph. An output retry restores the context that the failed iteration had reached.\<close>

definition restored_context :: "'v loop_resume \<Rightarrow> 'v loop_vars \<Rightarrow> 'v wcontext option" where
  "restored_context re lv = (if resuming_states re lv \<noteq> None then Option.bind (re_outputRetry re) ls_context else None)"

definition iteration_call :: "string \<Rightarrow> ('v, 'p, 'e) loop_config \<Rightarrow> 'v loop_resume \<Rightarrow> 'p wnode list \<Rightarrow> 'v loop_vars \<Rightarrow>
    ('v, 'p) child_call" where
  "iteration_call i cfg re nodes lv =
     (let resuming = resuming_states re lv
      in \<lparr>cc_nodes = nodes, cc_iteration = lv_iteration lv,
          cc_states = (case resuming of
             None \<Rightarrow> []
           | Some states \<Rightarrow> if resuming_retry re lv \<noteq> None then states else reconcileIterationNodeStates states (lv_states lv)),
          cc_context = jm_set ''_loop'' (loop_context_value (loop_context_of (lc_maxIterations cfg) lv))
            (case restored_context re lv of
               Some saved \<Rightarrow> saved | None \<Rightarrow> lv_context lv),
          cc_boundary = resuming\<rparr>)"

definition run_iteration :: "string \<Rightarrow> ('v, 'p, 'e) loop_config \<Rightarrow> string list \<Rightarrow> 'v loop_resume \<Rightarrow> 'v wcontext \<Rightarrow> 'v loop_vars \<Rightarrow>
    ('v, 'e) iteration_end \<times> ('v, 'p) child_call list" where
  "run_iteration i cfg parentNodeIds re evaluation lv =
     (case iteration_steps i cfg re (resuming_states re lv)
             (if resuming_retry re lv \<noteq> None then evaluation else lv_context lv)
             (loop_context_of (lc_maxIterations cfg) lv) of
        None \<Rightarrow> (LoopThrew lv StepsThrew, [])
      | Some nodes \<Rightarrow>
          (case truthy_text (find (\<lambda>c. c \<in> set parentNodeIds) (collectWorkflowNodeIds nodes)) of
             Some c \<Rightarrow> (LoopThrew lv (ChildIdCollision c), [])
           | None \<Rightarrow>
               (let call = iteration_call i cfg re nodes lv; lv1 = lv\<lparr>lv_resumeStates := None\<rparr>
                in if case_option False (\<lambda>c. \<not> lc_cloneable cfg c) (restored_context re lv) then (LoopThrew lv1 LoopNotCloneable, [])
                else (case lc_child cfg call of
                      Inl e \<Rightarrow> LoopThrew lv1 (Raised e)
                    | Inr r \<Rightarrow> after_child i cfg evaluation lv1 r, [call]))))"

definition evaluation_context :: "('v, 'p, 'e) loop_config \<Rightarrow> 'v loop_resume \<Rightarrow> 'v loop_vars \<Rightarrow> 'v wcontext" where
  "evaluation_context cfg re lv =
     (case Option.bind (resuming_retry re lv) ls_evaluation of Some c \<Rightarrow> c | None \<Rightarrow> lv_context lv)"

definition loop_iteration :: "string \<Rightarrow> ('v, 'p, 'e) loop_config \<Rightarrow> string list \<Rightarrow> 'v loop_resume \<Rightarrow> 'v loop_vars \<Rightarrow>
    ('v, 'e) iteration_end \<times> ('v, 'p) child_call list" where
  "loop_iteration i cfg parentNodeIds re lv =
     (case (if resuming_retry re lv \<noteq> None then Inr (True, lv_context lv)
            else lc_while cfg (lv_context lv) (loop_context_of (lc_maxIterations cfg) lv)) of
        Inl e \<Rightarrow> (LoopThrew lv (Raised e), [])
      | Inr (shouldContinue, context) \<Rightarrow>
          (let lv1 = lv\<lparr>lv_context := context\<rparr>; evaluation = evaluation_context cfg re lv1
           in if \<not> lc_cloneable cfg evaluation then (LoopThrew lv1 LoopNotCloneable, [])
              else if \<not> shouldContinue then (ConditionFalse lv1, [])
              else run_iteration i cfg parentNodeIds re evaluation lv1))"

subsection \<open>The loop and its end\<close>

text \<open>The second component lists the calls of child graphs, for the theorems.\<close>

lemma loop_iteration_advances:
  "loop_iteration i cfg ids re lv = (NextIteration lv', calls) \<Longrightarrow> lv_iteration lv' = Suc (lv_iteration lv)"
  by (auto simp: loop_iteration_def run_iteration_def after_child_def Let_def
      split: sum.splits prod.splits if_splits option.splits child_state.splits)

function loop_from :: "string \<Rightarrow> ('v, 'p, 'e) loop_config \<Rightarrow> string list \<Rightarrow> 'v loop_resume \<Rightarrow> 'v loop_vars \<Rightarrow>
    ('v, 'e) iteration_end \<times> ('v, 'p) child_call list" where
  "loop_from i cfg ids re lv =
     (if lv_iteration lv < lc_maxIterations cfg then
        (case loop_iteration i cfg ids re lv of
           (NextIteration lv', calls) \<Rightarrow> (let (e, more) = loop_from i cfg ids re lv' in (e, calls @ more))
         | (e, calls) \<Rightarrow> (e, calls))
      else (NextIteration lv, []))"
  by pat_completeness auto
termination
  by (relation "measure (\<lambda>(i, cfg, ids, re, lv). lc_maxIterations cfg - lv_iteration lv)")
    (auto dest: loop_iteration_advances [OF sym])


definition clear_retry :: "string \<Rightarrow> 'v child_states \<Rightarrow> 'v child_states" where
  "clear_retry i states =
     (case jm_get states i of
        None \<Rightarrow> states
      | Some (ChildState st out err retry retained completed) \<Rightarrow> jm_set i (ChildState st out err None retained completed) states)"

definition saved_retry :: "string \<Rightarrow> 'v child_states \<Rightarrow> 'v loop_state option" where
  "saved_retry i states =
     (case Option.bind (jm_get states i) cs_retry of
        Some s \<Rightarrow> if isPersistedLoopState s then Some s else None
      | None \<Rightarrow> None)"

definition restored_exposed :: "'v loop_state option \<Rightarrow> 'v child_states option \<Rightarrow> 'v child_states \<Rightarrow> 'v child_states" where
  "restored_exposed retry resumeStates states =
     (case retry of
        Some s \<Rightarrow>
          fold (\<lambda>i acc. case jm_get states i of None \<Rightarrow> acc | Some c \<Rightarrow> jm_set i c acc)
            (case ls_completed s of None \<Rightarrow> [] | Some ids \<Rightarrow> ids) []
      | None \<Rightarrow> (case resumeStates of Some r \<Rightarrow> r | None \<Rightarrow> []))"

definition resumes_legacy :: "string \<Rightarrow> ('v, 'p, 'e) loop_config \<Rightarrow> 'v child_states option \<Rightarrow> bool" where
  "resumes_legacy i cfg resumeStates =
     (case (lc_steps cfg, resumeStates) of
        (StaticSteps steps, Some states) \<Rightarrow>
          hasLegacyDeclaredNodeState states (collectWorkflowNodeIds steps)
            (collectWorkflowNodeIds (removeWorkflowNodeNamespace (slash i) steps))
      | _ \<Rightarrow> False)"

text \<open>The saved state an execution starts from, and the variables of the loop.\<close>

definition existing_loop_state :: "string \<Rightarrow> 'v wcontext \<Rightarrow> 'v child_states \<Rightarrow> 'v loop_state option" where
  "existing_loop_state i context states =
     (case saved_retry i states of Some s \<Rightarrow> Some s | None \<Rightarrow> persisted_in (jm_get context (loopStateKey i)))"

definition start_loop :: "string \<Rightarrow> ('v, 'p, 'e) loop_config \<Rightarrow> 'v wcontext \<Rightarrow> 'v child_states \<Rightarrow> 'v loop_resume \<times> 'v loop_vars" where
  "start_loop i cfg context states =
     (let existing = existing_loop_state i context states;
          states1 = clear_retry i states;
          resumeStates = Option.bind existing ls_states
      in (\<lparr>re_iteration = map_option ls_iteration existing, re_outputRetry = saved_retry i states,
           re_legacyStatic = resumes_legacy i cfg resumeStates\<rparr>,
          \<lparr>lv_iteration = (case existing of Some s \<Rightarrow> ls_iteration s | None \<Rightarrow> 0),
           lv_previousResults = (case existing of Some s \<Rightarrow> ls_previous s | None \<Rightarrow> []),
           lv_resumeStates = resumeStates,
           lv_exposed = restored_exposed (saved_retry i states) resumeStates states1,
           lv_context = context, lv_states = states1\<rparr>))"

text \<open>What the completion handler returns, and the context as it leaves it.\<close>

definition completion_updates :: "('v, 'p, 'e) loop_config \<Rightarrow> loop_exit \<Rightarrow> 'v loop_vars \<Rightarrow> 'e + 'v wcontext \<times> 'v wcontext" where
  "completion_updates cfg reason lv =
     (let l = \<lparr>lx_iteration = lv_iteration lv, lx_previousResults = lv_previousResults lv, lx_isFirstIteration = False,
               lx_isLastAllowedIteration = True\<rparr>
      in case (reason, lc_onMaxIterations cfg, lc_onComplete cfg) of
           (ByMaxIterations, Some f, _) \<Rightarrow> f (lv_context lv) l
         | (ByCondition, _, Some f) \<Rightarrow> f (lv_context lv) l
         | _ \<Rightarrow> Inr ([], lv_context lv))"

definition is_generated :: "('v, 'p, 'e) loop_config \<Rightarrow> bool" where
  "is_generated cfg = (case lc_steps cfg of GeneratedSteps f \<Rightarrow> True | StaticSteps ns \<Rightarrow> False)"

definition finish_loop :: "string \<Rightarrow> ('v, 'p, 'e) loop_config \<Rightarrow> 'v wvalue option \<Rightarrow> loop_exit \<Rightarrow> string option \<Rightarrow> 'e option \<Rightarrow>
    'v loop_state option \<Rightarrow> 'v loop_vars \<Rightarrow> ('e loop_error + ('v, 'e) node_execution) \<times> 'v loop_vars" where
  "finish_loop i cfg existingValue reason lastError cause retry lv =
     (case completion_updates cfg reason lv of
        Inl e \<Rightarrow> (Inl (Raised e), lv)
      | Inr (updates, context) \<Rightarrow>
          (let output = LoopOutput reason (lv_iteration lv) (lv_previousResults lv) updates;
               patch = createSetContextPatch ((i, output) # updates)
           in (Inr \<lparr>ne_state = ChildState (if reason = ByError then NFailed else NCompleted) (Some output) lastError retry False
                     (if is_generated cfg then Some (jm_keys (lv_exposed lv)) else None),
                   ne_patch =
                     (if is_generated cfg \<and> isOwnedLoopState existingValue i \<and> jm_get updates (loopStateKey i) = None
                      then patch\<lparr>rp_delete := rp_delete patch @ [loopStateKey i]\<rparr> else patch),
                   ne_waiting = False, ne_waitingNode = None, ne_waitingConfig = None, ne_waitingNodes = None,
                   ne_errorCause = cause\<rparr>,
               lv\<lparr>lv_context := context\<rparr>)))"

definition loop_result :: "string \<Rightarrow> ('v, 'p, 'e) loop_config \<Rightarrow> 'v wvalue option \<Rightarrow> ('v, 'e) iteration_end \<Rightarrow>
    ('e loop_error + ('v, 'e) node_execution) \<times> 'v loop_vars" where
  "loop_result i cfg existingValue e =
     (case e of
        NextIteration lv \<Rightarrow> finish_loop i cfg existingValue ByMaxIterations None None None lv
      | ConditionFalse lv \<Rightarrow> finish_loop i cfg existingValue ByCondition None None None lv
      | ChildFailed lv err cause retry \<Rightarrow> finish_loop i cfg existingValue ByError (Some err) cause retry lv
      | ChildParked lv r \<Rightarrow> (Inr r, lv)
      | LoopThrew lv err \<Rightarrow> (Inl err, lv))"

record ('v, 'p, 'e) loop_execution =
  le_result :: "'e loop_error + ('v, 'e) node_execution"
  le_context :: "'v wcontext"
  le_states :: "'v child_states"
  le_calls :: "('v, 'p) child_call list"

definition executeLoopNodeStrategy :: "string \<Rightarrow> ('v, 'p, 'e) loop_config \<Rightarrow> string list \<Rightarrow> 'v wcontext \<Rightarrow> 'v child_states \<Rightarrow>
    ('v, 'p, 'e) loop_execution" where
  "executeLoopNodeStrategy i cfg parentNodeIds context states =
     (if loopStateKey i \<in> set parentNodeIds
      then \<lparr>le_result = Inl (ReservedKeyCollision (loopStateKey i)), le_context = context, le_states = states, le_calls = []\<rparr>
      else
        (let (re, lv) = start_loop i cfg context states;
             (e, calls) = loop_from i cfg parentNodeIds re lv;
             (result, lv') = loop_result i cfg (jm_get context (loopStateKey i)) e
         in \<lparr>le_result = result, le_context = lv_context lv', le_states = lv_states lv', le_calls = calls\<rparr>))"

end
