(* ===== verification/LoopSafety.thy ===== *)
theory LoopSafety
  imports LoopNode
begin

text \<open>
  What a loop node promises: its iterations run in order, each on the results of those before it, and no more of them
  than allowed; and an execution that parked on a wait is taken up again in the iteration that parked.
\<close>

subsection \<open>Reading one iteration\<close>

lemma loop_context_of_update [simp]:
  "loop_context_of n (lv\<lparr>lv_context := c\<rparr>) = loop_context_of n lv"
  by (simp add: loop_context_of_def)

lemma loop_at_call [simp]:
  "cc_iteration (iteration_call i cfg re nodes lv) = lv_iteration lv"
  "jm_get (cc_context (iteration_call i cfg re nodes lv)) ''_loop'' =
     Some (loop_context_value (loop_context_of (lc_maxIterations cfg) lv))"
  "cc_boundary (iteration_call i cfg re nodes lv) = resuming_states re lv"
  "resuming_states re lv = None \<Longrightarrow> cc_states (iteration_call i cfg re nodes lv) = []"
  by (simp_all add: iteration_call_def Let_def jsmap_simps)

text \<open>The variables with which an iteration ends, and the context its child graph returned.\<close>

fun end_vars :: "('v, 'e) iteration_end \<Rightarrow> 'v loop_vars" where
  "end_vars (NextIteration lv) = lv"
| "end_vars (ConditionFalse lv) = lv"
| "end_vars (ChildFailed lv e c r) = lv"
| "end_vars (ChildParked lv r) = lv"
| "end_vars (LoopThrew lv e) = lv"

definition child_context :: "('v, 'p, 'e) loop_config \<Rightarrow> ('v, 'p) child_call \<Rightarrow> 'v wcontext" where
  "child_context cfg c = (case lc_child cfg c of Inl e \<Rightarrow> [] | Inr r \<Rightarrow> cr_context r)"

text \<open>A call that an iteration makes: in its place, with the results so far, with a fresh graph unless it resumes one, and
  with children that no node of the parent graph is named like.\<close>

definition call_of :: "('v, 'p, 'e) loop_config \<Rightarrow> string list \<Rightarrow> 'v child_states option \<Rightarrow> nat \<Rightarrow> 'v wcontext list \<Rightarrow>
    ('v, 'p) child_call \<Rightarrow> bool" where
  "call_of cfg ids boundary n prev c \<longleftrightarrow>
     cc_iteration c = n \<and> cc_boundary c = boundary \<and> (boundary = None \<longrightarrow> cc_states c = []) \<and>
     jm_get (cc_context c) ''_loop'' = Some (LoopContextValue n prev (n = 0) (Suc n = lc_maxIterations cfg)) \<and>
     ([] \<notin> set ids \<longrightarrow> set (collectWorkflowNodeIds (cc_nodes c)) \<inter> set ids = {})"

lemma no_collision:
  assumes "truthy_text (find (\<lambda>c. c \<in> set ids) xs) = None" "[] \<notin> set ids"
  shows "set xs \<inter> set ids = {}"
proof (cases "find (\<lambda>c. c \<in> set ids) xs")
  case None
  then show ?thesis by (auto simp: find_None_iff)
next
  case (Some c)
  then have "c \<in> set ids" by (auto simp: find_Some_iff)
  with Some assms show ?thesis by (auto simp: truthy_text_def split: if_splits)
qed

lemma call_of_iteration:
  assumes "truthy_text (find (\<lambda>c. c \<in> set ids) (collectWorkflowNodeIds nodes)) = None"
  shows "call_of cfg ids (resuming_states re lv) (lv_iteration lv) (lv_previousResults lv) (iteration_call i cfg re nodes lv)"
  using no_collision [OF assms]
  by (auto simp: call_of_def loop_context_value_def loop_context_of_def) (auto simp: iteration_call_def Let_def)

text \<open>The ends of an iteration that started with the given variables.\<close>

inductive iteration_ends :: "string \<Rightarrow> ('v, 'p, 'e) loop_config \<Rightarrow> string list \<Rightarrow> 'v loop_resume \<Rightarrow> 'v loop_vars \<Rightarrow>
    ('v, 'e) iteration_end \<Rightarrow> ('v, 'p) child_call list \<Rightarrow> bool" for i cfg ids re lv where
  stopped: "lv_iteration lv' = lv_iteration lv \<Longrightarrow> lv_previousResults lv' = lv_previousResults lv \<Longrightarrow>
     iteration_ends i cfg ids re lv (ConditionFalse lv') []"
| threw: "iteration_ends i cfg ids re lv (LoopThrew lv' err) []"
| threw_late: "call_of cfg ids (resuming_states re lv) (lv_iteration lv) (lv_previousResults lv) c \<Longrightarrow>
     iteration_ends i cfg ids re lv (LoopThrew lv' err) [c]"
| went_on: "call_of cfg ids (resuming_states re lv) (lv_iteration lv) (lv_previousResults lv) c \<Longrightarrow>
     lv_iteration lv' = Suc (lv_iteration lv) \<Longrightarrow>
     lv_previousResults lv' = lv_previousResults lv @ [child_context cfg c] \<Longrightarrow> lv_resumeStates lv' = None \<Longrightarrow>
     iteration_ends i cfg ids re lv (NextIteration lv') [c]"
| failed: "call_of cfg ids (resuming_states re lv) (lv_iteration lv) (lv_previousResults lv) c \<Longrightarrow>
     lv_iteration lv' = lv_iteration lv \<Longrightarrow> lv_previousResults lv' = lv_previousResults lv \<Longrightarrow>
     iteration_ends i cfg ids re lv (ChildFailed lv' e cause rt) [c]"
| parked: "call_of cfg ids (resuming_states re lv) (lv_iteration lv) (lv_previousResults lv) c \<Longrightarrow>
     lv_iteration lv' = lv_iteration lv \<Longrightarrow> lv_previousResults lv' = lv_previousResults lv \<Longrightarrow>
     lc_child cfg c = Inr r \<Longrightarrow>
     iteration_ends i cfg ids re lv (ChildParked lv' (parked_result i lv' r)) [c]"

lemma parked_result_cong:
  "lv_iteration a = lv_iteration b \<Longrightarrow> lv_previousResults a = lv_previousResults b \<Longrightarrow> parked_result i a r = parked_result i b r"
  by (simp add: parked_result_def saved_iteration_def)

lemma after_child_ends:
  assumes "call_of cfg ids (resuming_states re lv) (lv_iteration lv) (lv_previousResults lv) c" "lc_child cfg c = Inr r"
    "lv_iteration lv1 = lv_iteration lv" "lv_previousResults lv1 = lv_previousResults lv" "lv_resumeStates lv1 = None"
  shows "iteration_ends i cfg ids re lv (after_child i cfg ev lv1 r) [c]"
proof (cases "cr_waiting r \<or> parked_nodes r \<noteq> None")
  case True
  have "parked_result i lv1 r = parked_result i (lv1\<lparr>lv_states := publish_states cfg (cr_states r) lv1\<rparr>) r"
    by (rule parked_result_cong) simp_all
  with True assms parked [of cfg ids re lv c "lv1\<lparr>lv_states := publish_states cfg (cr_states r) lv1\<rparr>" r i]
  show ?thesis by (auto simp: after_child_def)
next
  case False
  with assms show ?thesis
    by (auto simp: after_child_def Let_def child_context_def
        intro!: iteration_ends.threw_late iteration_ends.went_on iteration_ends.failed
        split: if_splits option.splits child_state.splits)
qed

lemma run_iteration_ends:
  assumes "run_iteration i cfg ids re ev lv1 = (e, calls)"
    "lv_iteration lv1 = lv_iteration lv" "lv_previousResults lv1 = lv_previousResults lv" "lv_resumeStates lv1 = lv_resumeStates lv"
  shows "iteration_ends i cfg ids re lv e calls"
proof -
  have same: "resuming_states re lv1 = resuming_states re lv" using assms by (simp add: resuming_states_def)
  show ?thesis using assms(1)
    by (auto simp: run_iteration_def Let_def assms(2-) simp flip: same
        dest!: call_of_iteration [of ids _ cfg re lv1 i]
        intro!: iteration_ends.threw iteration_ends.threw_late after_child_ends
        split: option.splits if_splits sum.splits)
qed

lemma loop_iteration_ends:
  assumes "loop_iteration i cfg ids re lv = (e, calls)"
  shows "iteration_ends i cfg ids re lv e calls"
  using assms
  by (auto simp: loop_iteration_def Let_def intro!: iteration_ends.threw iteration_ends.stopped run_iteration_ends
      split: sum.splits prod.splits if_splits)

subsection \<open>The iterations of an execution\<close>

fun in_order :: "('v, 'p, 'e) loop_config \<Rightarrow> string list \<Rightarrow> 'v child_states option \<Rightarrow> nat \<Rightarrow> 'v wcontext list \<Rightarrow>
    ('v, 'p) child_call list \<Rightarrow> bool" where
  "in_order cfg ids boundary n prev [] = True"
| "in_order cfg ids boundary n prev (c # cs) =
     (call_of cfg ids boundary n prev c \<and> in_order cfg ids None (Suc n) (prev @ [child_context cfg c]) cs)"

lemma in_order_nth:
  "in_order cfg ids boundary n prev calls \<Longrightarrow> k < length calls \<Longrightarrow>
   call_of cfg ids (if k = 0 then boundary else None) (n + k) (prev @ map (child_context cfg) (take k calls)) (calls ! k)"
proof (induction calls arbitrary: boundary n prev k)
  case (Cons c cs)
  then show ?case by (cases k) (force dest: Cons.IH)+
qed simp

lemma in_order_iterations:
  assumes "in_order cfg ids boundary n prev calls"
  shows "map cc_iteration calls = [n..<n + length calls]"
  using in_order_nth [OF assms] by (intro nth_equalityI) (simp_all add: call_of_def)

definition ends_well :: "string \<Rightarrow> ('v, 'p, 'e) loop_config \<Rightarrow> nat \<Rightarrow> 'v wcontext list \<Rightarrow> ('v, 'p) child_call list \<Rightarrow>
    ('v, 'e) iteration_end \<Rightarrow> bool" where
  "ends_well i cfg n prev calls e =
     (case e of
        NextIteration lv \<Rightarrow>
          lv_iteration lv = n + length calls \<and> lc_maxIterations cfg \<le> lv_iteration lv \<and>
          lv_previousResults lv = prev @ map (child_context cfg) calls
      | ConditionFalse lv \<Rightarrow>
          lv_iteration lv = n + length calls \<and> lv_iteration lv < lc_maxIterations cfg \<and>
          lv_previousResults lv = prev @ map (child_context cfg) calls
      | ChildFailed lv err cause rt \<Rightarrow>
          calls \<noteq> [] \<and> Suc (lv_iteration lv) = n + length calls \<and> lv_iteration lv < lc_maxIterations cfg \<and>
          lv_previousResults lv = prev @ map (child_context cfg) (butlast calls)
      | ChildParked lv r \<Rightarrow>
          calls \<noteq> [] \<and> Suc (lv_iteration lv) = n + length calls \<and> lv_iteration lv < lc_maxIterations cfg \<and>
          lv_previousResults lv = prev @ map (child_context cfg) (butlast calls) \<and>
          (\<exists>x. lc_child cfg (last calls) = Inr x \<and> r = parked_result i lv x)
      | LoopThrew lv err \<Rightarrow> n + length calls \<le> lc_maxIterations cfg)"

lemma ends_well_step:
  assumes "ends_well i cfg (Suc n) (prev @ [child_context cfg c]) calls e"
  shows "ends_well i cfg n prev (c # calls) e"
  using assms by (auto simp: ends_well_def split: iteration_end.splits)

declare loop_from.simps [simp del]

lemma loop_from_ends:
  "loop_from i cfg ids re lv = (e, calls) \<Longrightarrow>
   in_order cfg ids (resuming_states re lv) (lv_iteration lv) (lv_previousResults lv) calls \<and>
   ends_well i cfg (lv_iteration lv) (lv_previousResults lv) calls e"
proof (induction i cfg ids re lv arbitrary: e calls rule: loop_from.induct)
  case (1 i cfg ids re lv)
  show ?case
  proof (cases "lv_iteration lv < lc_maxIterations cfg")
    case False
    with 1(2) show ?thesis by (auto simp: loop_from.simps ends_well_def)
  next
    case more: True
    obtain e1 calls1 where it: "loop_iteration i cfg ids re lv = (e1, calls1)" by fastforce
    from loop_iteration_ends [OF it] show ?thesis
    proof cases
      case (went_on c lv')
      obtain e2 calls2 where rest: "loop_from i cfg ids re lv' = (e2, calls2)" by fastforce
      with more it 1(2) went_on(1,2) have "e = e2" "calls = c # calls2" by (simp_all add: loop_from.simps)
      moreover have "resuming_states re lv' = None" using went_on by (simp add: resuming_states_def)
      moreover have "in_order cfg ids (resuming_states re lv') (lv_iteration lv') (lv_previousResults lv') calls2 \<and>
          ends_well i cfg (lv_iteration lv') (lv_previousResults lv') calls2 e2"
        using 1(1) [OF more it [symmetric, unfolded went_on(1)] refl rest] .
      ultimately show ?thesis using went_on by (auto intro: ends_well_step)
    qed (use more it 1(2) in \<open>auto simp: loop_from.simps ends_well_def\<close>)
  qed
qed

lemma start_loop_resume:
  assumes "start_loop i cfg context states = (re, lv)"
  shows "resuming_states re lv = Option.bind (existing_loop_state i context states) ls_states"
    "lv_iteration lv = (case existing_loop_state i context states of Some s \<Rightarrow> ls_iteration s | None \<Rightarrow> 0)"
    "lv_previousResults lv = (case existing_loop_state i context states of Some s \<Rightarrow> ls_previous s | None \<Rightarrow> [])"
  using assms by (auto simp: start_loop_def Let_def resuming_states_def split: option.splits)

lemma execution_cases:
  assumes "x = executeLoopNodeStrategy i cfg ids context states" "loopStateKey i \<notin> set ids"
    "n = (case existing_loop_state i context states of Some s \<Rightarrow> ls_iteration s | None \<Rightarrow> 0)"
    "prev = (case existing_loop_state i context states of Some s \<Rightarrow> ls_previous s | None \<Rightarrow> [])"
  obtains e re lv where "start_loop i cfg context states = (re, lv)" "loop_from i cfg ids re lv = (e, le_calls x)"
    "in_order cfg ids (Option.bind (existing_loop_state i context states) ls_states) n prev (le_calls x)"
    "ends_well i cfg n prev (le_calls x) e"
    "le_result x = fst (loop_result i cfg (jm_get context (loopStateKey i)) e)"
proof -
  obtain re lv where st: "start_loop i cfg context states = (re, lv)" by fastforce
  obtain e calls where lf: "loop_from i cfg ids re lv = (e, calls)" by fastforce
  have "le_calls x = calls" "le_result x = fst (loop_result i cfg (jm_get context (loopStateKey i)) e)"
    using assms(1,2) st lf by (simp_all add: executeLoopNodeStrategy_def split: prod.splits)
  with that [OF st] lf loop_from_ends [OF lf] start_loop_resume [OF st] assms(3,4) show ?thesis by metis
qed

subsection \<open>A loop that starts afresh\<close>

lemma loop_from_bound:
  "loop_from i cfg ids re lv = (e, calls) \<Longrightarrow> lv_iteration lv + length calls \<le> max (lv_iteration lv) (lc_maxIterations cfg)"
proof (induction i cfg ids re lv arbitrary: e calls rule: loop_from.induct)
  case (1 i cfg ids re lv)
  show ?case
  proof (cases "lv_iteration lv < lc_maxIterations cfg")
    case False
    with 1(2) show ?thesis by (auto simp: loop_from.simps)
  next
    case more: True
    obtain e1 calls1 where it: "loop_iteration i cfg ids re lv = (e1, calls1)" by fastforce
    from loop_iteration_ends [OF it] show ?thesis
    proof cases
      case (went_on c lv')
      obtain e2 calls2 where rest: "loop_from i cfg ids re lv' = (e2, calls2)" by fastforce
      with more it 1(2) went_on(1,2) have "calls = c # calls2" by (simp_all add: loop_from.simps)
      then show ?thesis using 1(1) [OF more it [symmetric, unfolded went_on(1)] refl rest] went_on(4) more by simp
    qed (use more it 1(2) in \<open>auto simp: loop_from.simps\<close>)
  qed
qed

text \<open>What the node reports when it is through.\<close>

definition loop_output_ok :: "('v, 'p, 'e) loop_config \<Rightarrow> ('v, 'p) child_call list \<Rightarrow> ('v, 'e) node_execution \<Rightarrow> bool" where
  "loop_output_ok cfg calls r \<longleftrightarrow>
     (\<exists>reason n updates.
        cs_output (ne_state r) = Some (LoopOutput reason n (map (child_context cfg) (take n calls)) updates) \<and>
        length calls = (if reason = ByError then Suc n else n) \<and>
        cs_status (ne_state r) = (if reason = ByError then NFailed else NCompleted) \<and>
        (reason = ByMaxIterations \<longrightarrow> n = lc_maxIterations cfg) \<and> (reason \<noteq> ByMaxIterations \<longrightarrow> n < lc_maxIterations cfg))"

lemma finish_output:
  assumes "fst (finish_loop i cfg old reason err cause rt lv) = Inr r"
  shows "\<exists>updates. cs_output (ne_state r) = Some (LoopOutput reason (lv_iteration lv) (lv_previousResults lv) updates) \<and>
    cs_status (ne_state r) = (if reason = ByError then NFailed else NCompleted)"
  using assms by (auto simp: finish_loop_def Let_def split: sum.splits prod.splits)

lemma finished_output:
  assumes "fst (loop_result i cfg old e) = Inr r" "ends_well i cfg 0 [] calls e" "\<not> ne_waiting r"
    "length calls \<le> lc_maxIterations cfg"
  shows "loop_output_ok cfg calls r"
proof (cases e)
  case (ChildParked lv r')
  with assms show ?thesis by (auto simp: loop_result_def ends_well_def parked_result_def)
next
  case (LoopThrew lv err)
  with assms show ?thesis by (simp add: loop_result_def)
next
  case (ChildFailed lv err cause rt)
  then show ?thesis using assms finish_output [of i cfg old ByError "Some err" cause rt lv r]
    by (cases calls rule: rev_cases) (auto simp: loop_result_def ends_well_def loop_output_ok_def)
next
  case (NextIteration lv)
  then show ?thesis using assms finish_output [of i cfg old ByMaxIterations None None None lv r]
    by (auto simp: loop_result_def ends_well_def loop_output_ok_def)
next
  case (ConditionFalse lv)
  then show ?thesis using assms finish_output [of i cfg old ByCondition None None None lv r]
    by (auto simp: loop_result_def ends_well_def loop_output_ok_def)
qed

text \<open>C32: A loop without saved state runs its child graph for the iterations 0, 1, 2 in this order, at most as often as
  allowed. Each run starts without node states, sees the number of the iteration and the contexts that all earlier runs
  returned, and has no child named like a node of the parent graph. A loop that is through reports the contexts of the
  runs that succeeded, and reports the limit as its reason only when it was reached.\<close>

theorem loop_runs_in_order:
  assumes "existing_loop_state i context states = None" "x = executeLoopNodeStrategy i cfg ids context states"
  shows "length (le_calls x) \<le> lc_maxIterations cfg \<and>
    (\<forall>k < length (le_calls x). call_of cfg ids None k (map (child_context cfg) (take k (le_calls x))) (le_calls x ! k)) \<and>
    (\<forall>r. le_result x = Inr r \<and> \<not> ne_waiting r \<longrightarrow> loop_output_ok cfg (le_calls x) r)"
proof (cases "loopStateKey i \<in> set ids")
  case True
  with assms show ?thesis by (simp add: executeLoopNodeStrategy_def)
next
  case False
  from execution_cases [OF assms(2) False refl refl] assms(1) obtain e re lv where
    ex: "start_loop i cfg context states = (re, lv)" "loop_from i cfg ids re lv = (e, le_calls x)"
      "in_order cfg ids None 0 [] (le_calls x)" "ends_well i cfg 0 [] (le_calls x) e"
      "le_result x = fst (loop_result i cfg (jm_get context (loopStateKey i)) e)"
    by (metis bind.bind_lzero option.simps(4))
  have "length (le_calls x) \<le> lc_maxIterations cfg"
    using loop_from_bound [OF ex(2)] start_loop_resume(2) [OF ex(1)] assms(1) by simp
  then show ?thesis using in_order_nth [OF ex(3)] finished_output [OF _ ex(4)] ex(5) by (auto split: if_splits)
qed

text \<open>A loop of one step that may run twice, whose condition always holds.\<close>

definition quiet_result :: "(int, string) child_result" where
  "quiet_result = \<lparr>cr_waiting = False, cr_waitingNode = None, cr_waitingConfig = None, cr_waitingNodes = None,
     cr_stalledWaitNode = None, cr_stalledWaitNodes = None, cr_error = None, cr_errorCause = None,
     cr_context = [(''a'', Plain 1)], cr_states = [(''l/a'', ChildState NCompleted (Some (Plain 1)) None None False None)],
     cr_patch = createSetContextPatch [(''a'', Plain 1)]\<rparr>"

definition twice :: "(int, string, string) loop_config" where
  "twice = \<lparr>lc_steps = StaticSteps [WNode ''l/a'' (CLeaf ''step'') None], lc_maxIterations = 2,
     lc_while = (\<lambda>c l. Inr (True, c)), lc_child = (\<lambda>call. Inr quiet_result), lc_delay = (\<lambda>n. None),
     lc_onMaxIterations = None, lc_onComplete = None, lc_stateEqual = (\<lambda>a b. False), lc_cloneable = (\<lambda>c. True)\<rparr>"

lemmas loop_eval = executeLoopNodeStrategy_def start_loop_def existing_loop_state_def saved_retry_def persisted_in_def
  clear_retry_def restored_exposed_def resumes_legacy_def loop_from.simps loop_iteration_def run_iteration_def
  resuming_retry_def resuming_states_def evaluation_context_def iteration_steps_def truthy_text_def iteration_call_def
  restored_context_def after_child_def parked_nodes_def loop_result_def finish_loop_def completion_updates_def
  is_generated_def isOwnedLoopState_def

lemma twice_run:
  "length (le_calls (executeLoopNodeStrategy ''l'' twice [''l''] [] [])) = 2 \<and>
   (\<exists>r. le_result (executeLoopNodeStrategy ''l'' twice [''l''] [] []) = Inr r \<and> \<not> ne_waiting r)"
  by (simp add: loop_eval twice_def quiet_result_def Let_def loopStateKey_def)

theorem loop_runs_in_order_witness:
  "call_of twice [''l''] None 1 [[(''a'', Plain 1)]] (le_calls (executeLoopNodeStrategy ''l'' twice [''l''] [] []) ! 1) \<and>
   (\<exists>r. le_result (executeLoopNodeStrategy ''l'' twice [''l''] [] []) = Inr r \<and>
      loop_output_ok twice (le_calls (executeLoopNodeStrategy ''l'' twice [''l''] [] [])) r)"
proof -
  let ?x = "executeLoopNodeStrategy ''l'' twice [''l''] [] []"
  have "existing_loop_state ''l'' [] ([] :: int child_states) = None"
    by (simp add: existing_loop_state_def saved_retry_def persisted_in_def)
  note t = loop_runs_in_order [OF this refl, of twice "[''l'']"]
  have "child_context twice c = [(''a'', Plain 1)]" for c
    by (simp add: child_context_def twice_def quiet_result_def)
  moreover have "take 1 (le_calls ?x) = [le_calls ?x ! 0]" using twice_run by (cases "le_calls ?x") auto
  ultimately have "map (child_context twice) (take 1 (le_calls ?x)) = [[(''a'', Plain 1)]]" by simp
  with t twice_run show ?thesis by (metis less_2_cases_iff One_nat_def)
qed

subsection \<open>A loop that parked\<close>

lemma reconcile_get:
  assumes "jm_ok run"
  shows "jm_get (reconcileIterationNodeStates snapshot run) j =
    (if jm_get snapshot j = None then None else case jm_get run j of Some s \<Rightarrow> Some s | None \<Rightarrow> jm_get snapshot j)"
proof -
  have "jm_get (fold (\<lambda>(i, s) acc. if jm_get acc i \<noteq> None then jm_set i s acc else acc) run snapshot) j =
      (if jm_get snapshot j = None then None else case jm_get (rev run) j of Some s \<Rightarrow> Some s | None \<Rightarrow> jm_get snapshot j)"
  proof (induction run arbitrary: snapshot)
    case (Cons p run)
    obtain a b where p: "p = (a, b)" by fastforce
    show ?case
      by (simp only: fold_simps p prod.case, subst Cons.IH)
        (auto simp: jsmap_simps map_add_def split: option.splits if_splits)
  qed simp
  with jm_rev [OF assms] show ?thesis by (simp add: reconcileIterationNodeStates_def)
qed

lemma clear_retry_ok: "jm_ok states \<Longrightarrow> jm_ok (clear_retry i states)"
  by (auto simp: clear_retry_def split: option.splits child_state.splits)

text \<open>The first call of an execution that resumes from the context.\<close>

lemma first_call_states:
  assumes "loop_from i cfg ids re lv = (e, c # cs)" "re_outputRetry re = None" "resuming_states re lv = Some snapshot"
  shows "cc_states c = reconcileIterationNodeStates snapshot (lv_states lv)"
proof -
  have "\<exists>d ds. loop_iteration i cfg ids re lv = (d, c # ds)"
  proof (cases "loop_iteration i cfg ids re lv")
    case (Pair d ds)
    from loop_iteration_ends [OF Pair] show ?thesis using assms(1) Pair
      by cases (auto simp: loop_from.simps [of i cfg ids re lv] split: if_splits prod.splits)
  qed
  then show ?thesis using assms(2,3)
    by (auto simp: loop_iteration_def run_iteration_def resuming_retry_def iteration_call_def Let_def resuming_states_def
        split: sum.splits prod.splits if_splits option.splits)
qed

lemma parked_saves:
  "jm_get (applyRecordPatch (ne_patch (parked_result i lv r)) ctx) (loopStateKey i) =
     Some (LoopStateValue (saved_iteration i lv (cr_states r)))"
proof -
  let ?q = "createSetContextPatch [(loopStateKey i, LoopStateValue (saved_iteration i lv (cr_states r)))]"
  have "patch_ok (createSetContextPatch [])" by (simp add: createSetContextPatch_def patch_ok_def)
  moreover have "jm_get (applyRecordPatch ?q t) (loopStateKey i) = Some (LoopStateValue (saved_iteration i lv (cr_states r)))" for t
    by (simp add: applyRecordPatch_def createSetContextPatch_def jsmap_simps)
  ultimately show ?thesis
    using merge_all_effect [THEN conjunct2, rule_format, of "createSetContextPatch []" "[cr_patch r, ?q]" ctx "loopStateKey i"]
    by (simp only: parked_result_def mergeContextPatches_def node_execution.simps fold_simps)
qed

lemma parked_existing:
  assumes "r = parked_result i lv x" "saved_retry i states = None"
  shows "existing_loop_state i (applyRecordPatch (ne_patch r) ctx) states = Some (saved_iteration i lv (cr_states x))"
  using parked_saves [of i lv x ctx] assms
  by (simp add: existing_loop_state_def persisted_in_def isPersistedLoopState_def saved_iteration_def)

lemma parked_execution:
  assumes "le_result (executeLoopNodeStrategy i cfg ids context states) = Inr r" "ne_waiting r"
    "calls = le_calls (executeLoopNodeStrategy i cfg ids context states)"
  obtains lv x prev b where "r = parked_result i lv x" "lc_child cfg (last calls) = Inr x" "calls \<noteq> []"
    "call_of cfg ids b (lv_iteration lv) (lv_previousResults lv) (last calls)" "lv_iteration lv < lc_maxIterations cfg"
proof -
  have free: "loopStateKey i \<notin> set ids" using assms(1) by (auto simp: executeLoopNodeStrategy_def)
  let ?old = "existing_loop_state i context states"
  let ?n = "case ?old of Some s \<Rightarrow> ls_iteration s | None \<Rightarrow> 0"
  let ?prev = "case ?old of Some s \<Rightarrow> ls_previous s | None \<Rightarrow> []"
  obtain e re lv0 where "in_order cfg ids (Option.bind ?old ls_states) ?n ?prev calls" and e: "ends_well i cfg ?n ?prev calls e"
    and r: "Inr r = fst (loop_result i cfg (jm_get context (loopStateKey i)) e)"
    using execution_cases [OF refl free refl refl] assms(1,3) by metis
  note order = in_order_nth [OF this(1)]
  have "\<exists>lv. e = ChildParked lv r"
    using r assms(2) by (cases e) (auto simp: loop_result_def finish_loop_def Let_def split: sum.splits prod.splits)
  then obtain lv where lv: "e = ChildParked lv r" by blast
  with e obtain x where x: "lc_child cfg (last calls) = Inr x" "r = parked_result i lv x" "calls \<noteq> []"
      "Suc (lv_iteration lv) = ?n + length calls" "lv_iteration lv < lc_maxIterations cfg"
      "lv_previousResults lv = ?prev @ map (child_context cfg) (butlast calls)"
    by (auto simp: ends_well_def)
  from x(3,4) have "lv_iteration lv = ?n + (length calls - 1)" by (cases calls) auto
  moreover have "calls ! (length calls - 1) = last calls" "take (length calls - 1) calls = butlast calls"
    using x(3) by (simp_all add: last_conv_nth butlast_conv_take)
  ultimately have "\<exists>b. call_of cfg ids b (lv_iteration lv) (lv_previousResults lv) (last calls)"
    using order [of "length calls - 1"] x(3,6) by (metis diff_less length_greater_0_conv zero_less_one)
  with x that show ?thesis by blast
qed

text \<open>Where the next execution calls the child graph again.\<close>

lemma taken_up_call:
  assumes "le_result (executeLoopNodeStrategy i cfg ids context1 states1) = Inr r" "ne_waiting r"
    "d = last (le_calls (executeLoopNodeStrategy i cfg ids context1 states1))"
    "le_calls (executeLoopNodeStrategy i cfg2 ids (applyRecordPatch (ne_patch r) context2) states2) = c # cs"
    "lc_maxIterations cfg2 = lc_maxIterations cfg" "saved_retry i states2 = None" "jm_ok states2"
  shows "map cc_iteration (c # cs) = [cc_iteration d..<cc_iteration d + length (c # cs)] \<and>
    jm_get (cc_context c) ''_loop'' = jm_get (cc_context d) ''_loop'' \<and>
    (\<exists>x. lc_child cfg d = Inr x \<and>
       (\<forall>j. jm_get (cc_states c) j =
          (if jm_get (cr_states x) j = None then None
           else case jm_get (clear_retry i states2) j of Some s \<Rightarrow> Some s | None \<Rightarrow> jm_get (cr_states x) j)))"
proof -
  obtain lv x b where p: "r = parked_result i lv x" "lc_child cfg d = Inr x"
    "call_of cfg ids b (lv_iteration lv) (lv_previousResults lv) d"
    using parked_execution [OF assms(1,2) refl] assms(3) by metis
  let ?saved = "saved_iteration i lv (cr_states x)"
  let ?ctx = "applyRecordPatch (ne_patch r) context2"
  have old: "existing_loop_state i ?ctx states2 = Some ?saved"
    by (rule parked_existing [OF p(1) assms(6)])
  have free: "loopStateKey i \<notin> set ids" using assms(1) by (auto simp: executeLoopNodeStrategy_def)
  obtain e re lv0 where ex: "start_loop i cfg2 ?ctx states2 = (re, lv0)"
      "loop_from i cfg2 ids re lv0 = (e, c # cs)"
      "in_order cfg2 ids (Some (cr_states x)) (lv_iteration lv) (lv_previousResults lv) (c # cs)"
    using execution_cases [OF refl free refl refl, of cfg2 ?ctx states2] assms(4) old
    by (simp add: saved_iteration_def) metis
  have "re_outputRetry re = None" "resuming_states re lv0 = Some (cr_states x)" "lv_states lv0 = clear_retry i states2"
    using ex(1) old assms(6)
    by (auto simp: start_loop_def Let_def resuming_states_def saved_iteration_def)
  then have "cc_states c = reconcileIterationNodeStates (cr_states x) (clear_retry i states2)"
    using first_call_states [OF ex(2)] by simp
  moreover have "cc_iteration d = lv_iteration lv" using p(3) by (simp add: call_of_def)
  moreover have "jm_get (cc_context c) ''_loop'' = jm_get (cc_context d) ''_loop''"
    using ex(3) p(3) assms(5) by (simp add: call_of_def)
  ultimately show ?thesis
    using in_order_iterations [OF ex(3)] p(2) reconcile_get [OF clear_retry_ok [OF assms(7)]] by simp
qed

text \<open>Where it does not.\<close>

lemma loop_from_ended:
  assumes "lv_iteration lv < lc_maxIterations cfg" "loop_iteration i cfg ids re lv = (e, calls)" "\<And>lv'. e \<noteq> NextIteration lv'"
  shows "loop_from i cfg ids re lv = (e, calls)"
proof (cases e)
  case (NextIteration lv')
  with assms(3) show ?thesis by blast
qed (use assms(1,2) in \<open>simp_all add: loop_from.simps [of i cfg ids re lv]\<close>)

lemma run_iteration_without_call:
  assumes "run_iteration i cfg ids re ev lv = (e, [])" "re_outputRetry re = None"
  shows "e = LoopThrew lv StepsThrew \<or> (\<exists>j. e = LoopThrew lv (ChildIdCollision j))"
  using assms by (auto simp: run_iteration_def restored_context_def Let_def split: option.splits if_splits)

text \<open>C33: What an execution of a loop does that parked before, under the same limit and with no output of the node to be retried.
  It takes up the iteration that parked: it asks the condition again, with the loop context that the child graph was shown, on the run's context as the patch of the parked execution left it. If
  the condition holds, then the child graph is called for that iteration and, when it goes on, for the ones that
  follow; it is shown the same loop context and starts with the saved states of the children, each replaced by the run's own
  state of that child where the run has one, so that a completed step does not run twice and a wait that was resolved is
  not pending again. Only steps that cannot be built or that collide with the parent graph prevent the call, with an
  error. If the condition fails, the loop ends there without a call and reports the iterations before; if it
  throws, or the context cannot be copied, so does the execution.\<close>

theorem parked_loop_is_taken_up:
  assumes "le_result (executeLoopNodeStrategy i cfg ids context1 states1) = Inr r" "ne_waiting r"
    "d = last (le_calls (executeLoopNodeStrategy i cfg ids context1 states1))"
    "ctx = applyRecordPatch (ne_patch r) context2" "x2 = executeLoopNodeStrategy i cfg2 ids ctx states2"
    "lc_maxIterations cfg2 = lc_maxIterations cfg" "saved_retry i states2 = None" "jm_ok states2"
  shows "\<exists>l. jm_get (cc_context d) ''_loop'' = Some (loop_context_value l) \<and>
    (case lc_while cfg2 ctx l of
       Inl e \<Rightarrow> le_calls x2 = [] \<and> le_result x2 = Inl (Raised e)
     | Inr (go, ctx') \<Rightarrow>
         if \<not> lc_cloneable cfg2 ctx' then le_calls x2 = [] \<and> le_result x2 = Inl LoopNotCloneable
         else if \<not> go then le_calls x2 = [] \<and>
           (case le_result x2 of
              Inl err \<Rightarrow> \<exists>e. err = Raised e
            | Inr r2 \<Rightarrow> cs_status (ne_state r2) = NCompleted \<and>
                (\<exists>updates. cs_output (ne_state r2) = Some (LoopOutput ByCondition (cc_iteration d) (lx_previousResults l) updates)))
         else
           (case le_calls x2 of
              [] \<Rightarrow> le_result x2 = Inl StepsThrew \<or> (\<exists>j. le_result x2 = Inl (ChildIdCollision j))
            | c # cs \<Rightarrow> map cc_iteration (c # cs) = [cc_iteration d..<cc_iteration d + length (c # cs)] \<and>
                jm_get (cc_context c) ''_loop'' = jm_get (cc_context d) ''_loop'' \<and>
                (\<exists>x. lc_child cfg d = Inr x \<and>
                   (\<forall>j. jm_get (cc_states c) j =
                      (if jm_get (cr_states x) j = None then None
                       else case jm_get (clear_retry i states2) j of Some s \<Rightarrow> Some s | None \<Rightarrow> jm_get (cr_states x) j)))))"
    (is "\<exists>l. ?shown l \<and> ?next l")
proof -
  obtain lv x b where p: "r = parked_result i lv x" "lv_iteration lv < lc_maxIterations cfg"
    "call_of cfg ids b (lv_iteration lv) (lv_previousResults lv) d"
    using parked_execution [OF assms(1,2) refl] assms(3) by metis
  have free: "loopStateKey i \<notin> set ids" using assms(1) by (auto simp: executeLoopNodeStrategy_def)
  let ?l = "loop_context_of (lc_maxIterations cfg) lv"
  obtain re lv0 where st: "start_loop i cfg2 ctx states2 = (re, lv0)" by fastforce
  have old: "existing_loop_state i ctx states2 = Some (saved_iteration i lv (cr_states x))"
    unfolding assms(4) by (rule parked_existing [OF p(1) assms(7)])
  with st assms(7) have lv0: "re_outputRetry re = None" "resuming_retry re lv0 = None" "lv_context lv0 = ctx"
    "lv_iteration lv0 = lv_iteration lv" "lv_previousResults lv0 = lv_previousResults lv"
    by (auto simp: start_loop_def Let_def resuming_retry_def saved_iteration_def)
  have l: "loop_context_of (lc_maxIterations cfg2) lv0 = ?l" using lv0 assms(6) by (simp add: loop_context_of_def)
  have it: "loop_iteration i cfg2 ids re lv0 =
      (case lc_while cfg2 ctx ?l of
         Inl e \<Rightarrow> (LoopThrew lv0 (Raised e), [])
       | Inr (go, ctx') \<Rightarrow>
           if \<not> lc_cloneable cfg2 ctx' then (LoopThrew (lv0\<lparr>lv_context := ctx'\<rparr>) LoopNotCloneable, [])
           else if \<not> go then (ConditionFalse (lv0\<lparr>lv_context := ctx'\<rparr>), [])
           else run_iteration i cfg2 ids re ctx' (lv0\<lparr>lv_context := ctx'\<rparr>))"
    using lv0(2,3) l
    by (auto simp: loop_iteration_def Let_def evaluation_context_def resuming_retry_def split: sum.split prod.split)
  have more: "lv_iteration lv0 < lc_maxIterations cfg2" using p(2) lv0(4) assms(6) by simp
  have ended: "le_calls x2 = calls \<and> le_result x2 = fst (loop_result i cfg2 (jm_get ctx (loopStateKey i)) e)"
    if "loop_iteration i cfg2 ids re lv0 = (e, calls)" "\<And>lv'. e \<noteq> NextIteration lv'" for e calls
    using loop_from_ended [OF more that] free st by (simp add: assms(5) executeLoopNodeStrategy_def split: prod.split)
  have shown: "jm_get (cc_context d) ''_loop'' = Some (loop_context_value ?l)" "cc_iteration d = lv_iteration lv"
    using p(3) by (auto simp: call_of_def loop_context_value_def loop_context_of_def)
  have "?next ?l"
  proof (cases "lc_while cfg2 ctx ?l")
    case (Inl err)
    with it have "loop_iteration i cfg2 ids re lv0 = (LoopThrew lv0 (Raised err), [])" by simp
    from ended [OF this] Inl show ?thesis by (simp add: loop_result_def)
  next
    case (Inr gc)
    obtain go ctx' where gc: "gc = (go, ctx')" by fastforce
    consider (copy) "\<not> lc_cloneable cfg2 ctx'" | (stop) "lc_cloneable cfg2 ctx'" "\<not> go" | (go) "lc_cloneable cfg2 ctx'" go
      by blast
    then show ?thesis
    proof cases
      case copy
      with it have "loop_iteration i cfg2 ids re lv0 = (LoopThrew (lv0\<lparr>lv_context := ctx'\<rparr>) LoopNotCloneable, [])"
        by (simp add: Inr gc)
      from ended [OF this] copy show ?thesis by (simp add: Inr gc loop_result_def)
    next
      case stop
      with it have "loop_iteration i cfg2 ids re lv0 = (ConditionFalse (lv0\<lparr>lv_context := ctx'\<rparr>), [])"
        by (simp add: Inr gc)
      moreover have "lx_previousResults ?l = lv_previousResults lv" by (simp add: loop_context_of_def)
      ultimately show ?thesis using ended stop lv0(4,5) shown(2)
        by (auto simp: Inr gc loop_result_def finish_loop_def Let_def split: sum.split prod.split)
    next
      case go
      show ?thesis
      proof (cases "le_calls x2")
        case Nil
        obtain e calls where run: "run_iteration i cfg2 ids re ctx' (lv0\<lparr>lv_context := ctx'\<rparr>) = (e, calls)" by fastforce
        with it go have at: "loop_iteration i cfg2 ids re lv0 = (e, calls)" by (simp add: Inr gc)
        have "calls = []"
        proof (cases "\<exists>lv'. e = NextIteration lv'")
          case True
          then obtain lv' where "e = NextIteration lv'" by blast
          with at more Nil free st show ?thesis
            by (auto simp: assms(5) executeLoopNodeStrategy_def loop_from.simps [of i cfg2 ids re lv0] split: prod.splits)
        qed (use ended [OF at] Nil in auto)
        from run_iteration_without_call [OF run [unfolded this] lv0(1)] ended [OF at] Nil go show ?thesis
          by (auto simp: Inr gc loop_result_def)
      next
        case (Cons c cs)
        from taken_up_call [OF assms(1-3) Cons [unfolded assms(4,5)] assms(6-8)] go show ?thesis
          by (simp add: Inr gc Cons)
      qed
    qed
  qed
  with shown(1) show ?thesis by blast
qed

text \<open>The second iteration of the loop waits: its first step is completed, the wait behind it runs.\<close>

definition done_state :: "int child_state" where
  "done_state = ChildState NCompleted (Some (Plain 1)) None None False None"

definition pending_state :: "int child_state" where
  "pending_state = ChildState NRunning None None None False None"

definition asking :: "(int, string, string) loop_config" where
  "asking = twice\<lparr>lc_child := (\<lambda>c. Inr (if cc_iteration c = 1 \<and> cc_boundary c = None
     then quiet_result\<lparr>cr_waiting := True, cr_states := [(''l/a'', done_state), (''l/w'', pending_state)]\<rparr>
     else quiet_result))\<rparr>"

definition parked_run :: "(int, string) node_execution" where
  "parked_run = parked_result ''l'' \<lparr>lv_iteration = 1, lv_previousResults = [[(''a'', Plain 1)]], lv_resumeStates = None,
     lv_exposed = [], lv_context = [], lv_states = []\<rparr>
     (quiet_result\<lparr>cr_waiting := True, cr_states := [(''l/a'', done_state), (''l/w'', pending_state)]\<rparr>)"

lemma asking_parks:
  "le_result (executeLoopNodeStrategy ''l'' asking [''l''] [] []) = Inr parked_run"
  "length (le_calls (executeLoopNodeStrategy ''l'' asking [''l''] [] [])) = 2"
  "cc_iteration (last (le_calls (executeLoopNodeStrategy ''l'' asking [''l''] [] []))) = 1"
  "cc_boundary (last (le_calls (executeLoopNodeStrategy ''l'' asking [''l''] [] []))) = None"
  by (simp_all add: loop_eval asking_def twice_def quiet_result_def Let_def loopStateKey_def parked_result_def
      saved_iteration_def parked_run_def)

text \<open>While the loop was parked, the run resolved the wait.\<close>

definition resolved_states :: "int child_states" where
  "resolved_states = [(''l'', pending_state), (''l/w'', done_state)]"

lemma parked_run_waits: "ne_waiting parked_run"
  by (simp add: parked_run_def parked_result_def)

lemma asking_resumes:
  "length (le_calls (executeLoopNodeStrategy ''l'' asking [''l''] (applyRecordPatch (ne_patch parked_run) []) resolved_states)) = 1"
proof -
  have "existing_loop_state ''l'' (applyRecordPatch (ne_patch parked_run) []) resolved_states =
      Some (saved_iteration ''l'' \<lparr>lv_iteration = 1, lv_previousResults = [[(''a'', Plain 1)]], lv_resumeStates = None,
        lv_exposed = [], lv_context = [], lv_states = []\<rparr> [(''l/a'', done_state), (''l/w'', pending_state)])"
    by (subst parked_existing [OF parked_run_def]) (simp_all add: saved_retry_def resolved_states_def pending_state_def)
  then show ?thesis
    by (simp add: executeLoopNodeStrategy_def start_loop_def saved_retry_def resolved_states_def pending_state_def
        resumes_legacy_def asking_def twice_def loop_from.simps loop_iteration_def run_iteration_def resuming_retry_def
        resuming_states_def evaluation_context_def iteration_steps_def truthy_text_def iteration_call_def restored_context_def
        after_child_def parked_nodes_def quiet_result_def Let_def saved_iteration_def loopStateKey_def
        hasLegacyDeclaredNodeState_def removeWorkflowNodeNamespace_def rebaseId_def slash_def split: prod.splits)
qed

lemma asking_holds: "lc_while asking = (\<lambda>c l. Inr (True, c))" "lc_cloneable asking c"
  by (simp_all add: asking_def twice_def)

lemma one_call: "length xs = 1 \<Longrightarrow> \<exists>x. xs = [x]"
  by (cases xs) auto

theorem parked_loop_is_taken_up_witness:
  "\<exists>c. le_calls (executeLoopNodeStrategy ''l'' asking [''l''] (applyRecordPatch (ne_patch parked_run) []) resolved_states) = [c] \<and>
     cc_iteration c = 1 \<and> jm_get (cc_states c) ''l/a'' = Some done_state \<and> jm_get (cc_states c) ''l/w'' = Some done_state"
proof -
  let ?x = "executeLoopNodeStrategy ''l'' asking [''l''] (applyRecordPatch (ne_patch parked_run) []) resolved_states"
  let ?d = "last (le_calls (executeLoopNodeStrategy ''l'' asking [''l''] [] []))"
  obtain c where c: "le_calls ?x = [c]" using one_call [OF asking_resumes] by blast
  have "saved_retry ''l'' resolved_states = None" "jm_ok resolved_states"
    by (simp_all add: saved_retry_def resolved_states_def pending_state_def jm_ok_def)
  from parked_loop_is_taken_up [OF asking_parks(1) parked_run_waits refl refl refl refl this, of "[]"]
  have t: "map cc_iteration [c] = [cc_iteration ?d..<cc_iteration ?d + 1] \<and>
    (\<exists>x. lc_child asking ?d = Inr x \<and>
       (\<forall>j. jm_get (cc_states c) j =
          (if jm_get (cr_states x) j = None then None
           else case jm_get (clear_retry ''l'' resolved_states) j of Some s \<Rightarrow> Some s | None \<Rightarrow> jm_get (cr_states x) j)))"
    by (auto simp: c asking_holds)
  let ?x = "quiet_result\<lparr>cr_waiting := True, cr_states := [(''l/a'', done_state), (''l/w'', pending_state)]\<rparr>"
  from t have one: "cc_iteration c = 1" using asking_parks(3) by simp
  have child: "lc_child asking ?d = Inr ?x" using asking_parks(3,4) by (simp add: asking_def)
  from t obtain x where x: "lc_child asking ?d = Inr x"
    "\<And>j. jm_get (cc_states c) j =
      (if jm_get (cr_states x) j = None then None
       else case jm_get (clear_retry ''l'' resolved_states) j of Some s \<Rightarrow> Some s | None \<Rightarrow> jm_get (cr_states x) j)"
    by blast
  from child x(1) have "x = ?x" by (simp only: sum.inject)
  moreover have "jm_get (clear_retry ''l'' resolved_states) ''l/a'' = None"
    "jm_get (clear_retry ''l'' resolved_states) ''l/w'' = Some done_state"
    by (simp_all add: clear_retry_def resolved_states_def pending_state_def)
  ultimately have "jm_get (cc_states c) ''l/a'' = Some done_state" "jm_get (cc_states c) ''l/w'' = Some done_state"
    using x(2) by simp_all
  with c one show ?thesis by blast
qed

text \<open>The condition is asked again when a parked loop is taken up. Where it has become false, because the context changed while
  the loop was parked, the loop completes without the rest of the iteration that parked: its steps behind the wait
  never run, and its context is not among the results.\<close>

lemma resumed_condition_ends_the_loop:
  assumes "le_result (executeLoopNodeStrategy i cfg ids context1 states1) = Inr r" "ne_waiting r"
    "d = last (le_calls (executeLoopNodeStrategy i cfg ids context1 states1))"
    "saved_retry i states2 = None" "lc_maxIterations cfg2 = lc_maxIterations cfg" "lc_onComplete cfg2 = None"
    "\<And>c l. lc_while cfg2 c l = Inr (False, c)" "\<And>c. lc_cloneable cfg2 c"
    "x2 = executeLoopNodeStrategy i cfg2 ids (applyRecordPatch (ne_patch r) context2) states2"
  shows "le_calls x2 = [] \<and>
    (\<exists>r2 prev. le_result x2 = Inr r2 \<and> cs_status (ne_state r2) = NCompleted \<and>
       cs_output (ne_state r2) = Some (LoopOutput ByCondition (cc_iteration d) prev []))"
proof -
  obtain lv x b where p: "r = parked_result i lv x" "lv_iteration lv < lc_maxIterations cfg"
    "call_of cfg ids b (lv_iteration lv) (lv_previousResults lv) d"
    using parked_execution [OF assms(1,2) refl] assms(3) by metis
  have "existing_loop_state i (applyRecordPatch (ne_patch r) context2) states2 = Some (saved_iteration i lv (cr_states x))"
    by (rule parked_existing [OF p(1) assms(4)])
  moreover have "loopStateKey i \<notin> set ids" using assms(1) by (auto simp: executeLoopNodeStrategy_def)
  ultimately show ?thesis using p(2,3) assms(4-9)
    by (simp add: executeLoopNodeStrategy_def start_loop_def Let_def loop_from.simps loop_iteration_def resuming_retry_def
        saved_iteration_def loop_result_def finish_loop_def completion_updates_def call_of_def)
qed

end
