(* ===== verification/RunEvents.thy ===== *)
theory RunEvents
  imports WorkflowGraph "HOL-Library.Multiset"
begin

text \<open>
  Waits and event mailboxes of the runs of a workflow: the records of \<open>workflow/backends/types.ts\<close> and their retention,
  \<open>workflow/backends/event-wait-retention.ts\<close>. A date is the integer of its milliseconds; \<open>'p\<close> is the type of payloads,
  which are copied and never read.
\<close>

subsection \<open>Records\<close>

datatype workflow_status = RPending | RRunning | RWaiting | RCompleted | RFailed | RCancelled

record 'p run_event =
  ev_id :: string
  ev_eventName :: string
  ev_payload :: 'p
  ev_publishedAt :: int
  ev_order :: "nat option"

datatype wait_status = WaitPending | WaitDelivered | WaitExpired | WaitCancelled

datatype wait_kind = EventWait | DelayWait

record event_wait =
  ew_id :: string
  ew_nodeId :: string
  ew_eventName :: string
  ew_kind :: wait_kind
  ew_expiresAt :: "int option"
  ew_status :: wait_status
  ew_instance :: "string option"
  ew_claimedAt :: "int option"
  ew_recoveryClaimedAt :: "int option"
  ew_claimedEventId :: "string option"
  ew_deliveredEventId :: "string option"

record 'p delivery_claim =
  dc_wait :: event_wait
  dc_event :: "'p run_event"
  dc_claimedAt :: int

definition isSameWaitNodeExecution :: "event_wait \<Rightarrow> event_wait \<Rightarrow> bool" where
  "isSameWaitNodeExecution candidate expected \<longleftrightarrow>
     ew_nodeId candidate = ew_nodeId expected \<and>
     (ew_instance candidate = None \<or> ew_instance expected = None \<or> ew_instance candidate = ew_instance expected)"

subsection \<open>Bounds\<close>

definition MAX_WORKFLOW_PENDING_EVENT_WAIT_ENTRIES :: nat where
  "MAX_WORKFLOW_PENDING_EVENT_WAIT_ENTRIES = 1000"

definition MAX_WORKFLOW_RUN_EVENT_MAILBOX_ENTRIES :: nat where
  "MAX_WORKFLOW_RUN_EVENT_MAILBOX_ENTRIES = 1000"

definition MAX_WORKFLOW_RUN_EVENT_MAILBOXES :: nat where
  "MAX_WORKFLOW_RUN_EVENT_MAILBOXES = 10000"

datatype backend_error =
    RunNotFound string
  | MailboxCapacity
  | MailboxFull string
  | EventWaitListFull string
  | QueueFull string

subsection \<open>Retention of waits\<close>

definition isResolved :: "event_wait \<Rightarrow> bool" where
  "isResolved w \<longleftrightarrow> ew_status w \<noteq> WaitPending \<and> ew_claimedAt w = None"

text \<open>The list without its first \<open>n\<close> resolved records.\<close>

fun drop_resolved :: "nat \<Rightarrow> event_wait list \<Rightarrow> event_wait list" where
  "drop_resolved n [] = []"
| "drop_resolved 0 (w # ws) = w # ws"
| "drop_resolved (Suc n) (w # ws) = (if isResolved w then drop_resolved n ws else w # drop_resolved (Suc n) ws)"

definition appendRetainedPendingEventWait :: "event_wait list \<Rightarrow> event_wait \<Rightarrow> backend_error + event_wait list" where
  "appendRetainedPendingEventWait waits w =
     (let evictionsRequired = Suc (length waits) - MAX_WORKFLOW_PENDING_EVENT_WAIT_ENTRIES
      in if length (filter isResolved waits) < evictionsRequired then Inl (EventWaitListFull (ew_id w))
         else Inr (drop_resolved evictionsRequired waits @ [w]))"

subsection \<open>Mailboxes\<close>

definition appendRetainedRunEvent :: "'p run_event list \<Rightarrow> 'p run_event \<Rightarrow> nat \<Rightarrow> backend_error + 'p run_event list" where
  "appendRetainedRunEvent mailbox event reservedEntries =
     (if MAX_WORKFLOW_RUN_EVENT_MAILBOX_ENTRIES \<le> length mailbox + reservedEntries then Inl (MailboxFull (ev_eventName event))
      else Inr (mailbox @ [event]))"

definition event_matches :: "string \<Rightarrow> int option \<Rightarrow> 'p run_event \<Rightarrow> bool" where
  "event_matches eventName publishedBefore e \<longleftrightarrow>
     ev_eventName e = eventName \<and> (case publishedBefore of None \<Rightarrow> True | Some d \<Rightarrow> ev_publishedAt e \<le> d)"

definition hasRetainedRunEvent :: "'p run_event list \<Rightarrow> string \<Rightarrow> int option \<Rightarrow> bool" where
  "hasRetainedRunEvent mailbox eventName publishedBefore \<longleftrightarrow> (\<exists>e \<in> set mailbox. event_matches eventName publishedBefore e)"

fun takeRetainedRunEvent :: "'p run_event list \<Rightarrow> string \<Rightarrow> int option \<Rightarrow> ('p run_event \<times> 'p run_event list) option" where
  "takeRetainedRunEvent [] eventName publishedBefore = None"
| "takeRetainedRunEvent (e # es) eventName publishedBefore =
     (if event_matches eventName publishedBefore e then Some (e, es)
      else map_option (\<lambda>(x, rest). (x, e # rest)) (takeRetainedRunEvent es eventName publishedBefore))"

definition published_after :: "'p run_event \<Rightarrow> 'p run_event \<Rightarrow> bool" where
  "published_after candidate event \<longleftrightarrow>
     (case (ev_order event, ev_order candidate) of
        (Some o1, Some o2) \<Rightarrow> o1 < o2
      | _ \<Rightarrow> ev_publishedAt event < ev_publishedAt candidate)"

text \<open>A new element goes before the first that satisfies a test, or to the end.\<close>

fun insert_before :: "('a \<Rightarrow> bool) \<Rightarrow> 'a \<Rightarrow> 'a list \<Rightarrow> 'a list" where
  "insert_before P x [] = [x]"
| "insert_before P x (y # ys) = (if P y then x # y # ys else y # insert_before P x ys)"

definition restoreRetainedRunEvent :: "'p run_event list \<Rightarrow> 'p run_event \<Rightarrow> 'p run_event list" where
  "restoreRetainedRunEvent mailbox event = insert_before (\<lambda>c. published_after c event) event mailbox"

text \<open>The first element that satisfies a test, changed.\<close>

fun update_first :: "('a \<Rightarrow> bool) \<Rightarrow> ('a \<Rightarrow> 'a) \<Rightarrow> 'a list \<Rightarrow> 'a list" where
  "update_first P f [] = []"
| "update_first P f (x # xs) = (if P x then f x # xs else x # update_first P f xs)"

fun remove_first :: "('a \<Rightarrow> bool) \<Rightarrow> 'a list \<Rightarrow> 'a list" where
  "remove_first P [] = []"
| "remove_first P (x # xs) = (if P x then xs else x # remove_first P xs)"

subsection \<open>What retention keeps\<close>

lemma insert_before_mset [simp]: "mset (insert_before P x ys) = add_mset x (mset ys)"
  by (induction ys) auto

lemma insert_before_length [simp]: "length (insert_before P x ys) = Suc (length ys)"
  by (induction ys) auto

lemma insert_before_set [simp]: "set (insert_before P x ys) = insert x (set ys)"
  by (metis insert_before_mset set_mset_mset set_mset_add_mset_insert)

lemma take_event_Some:
  "takeRetainedRunEvent es n d = Some (x, rest) \<Longrightarrow>
   \<exists>before after. es = before @ x # after \<and> rest = before @ after \<and> event_matches n d x \<and> (\<forall>e \<in> set before. \<not> event_matches n d e)"
proof (induction es arbitrary: rest)
  case (Cons e es)
  show ?case
  proof (cases "event_matches n d e")
    case True
    with Cons.prems show ?thesis by (intro exI [of _ "[]"] exI [of _ rest]) auto
  next
    case False
    with Cons.prems obtain r where r: "takeRetainedRunEvent es n d = Some (x, r)" "rest = e # r" by auto
    from Cons.IH [OF r(1)] obtain b a where "es = b @ x # a \<and> r = b @ a \<and> event_matches n d x \<and> (\<forall>e \<in> set b. \<not> event_matches n d e)"
      by blast
    with r(2) False show ?thesis by (intro exI [of _ "e # b"] exI [of _ a]) auto
  qed
qed simp

lemma take_event_None: "takeRetainedRunEvent es n d = None \<longleftrightarrow> \<not> hasRetainedRunEvent es n d"
  by (induction es) (auto simp: hasRetainedRunEvent_def)

lemma drop_resolved_counts:
  "n \<le> length (filter isResolved ws) \<Longrightarrow> length (drop_resolved n ws) = length ws - n"
proof (induction n ws rule: drop_resolved.induct)
  case (3 n w ws)
  have "length (filter isResolved ws) \<le> length ws" by simp
  with 3 show ?case by (auto simp: Suc_diff_le simp del: length_filter_le split: if_splits)
qed auto

text \<open>Only resolved waits are dropped: a pending one, or one with an unfinished claim, stays, in its place.\<close>

lemma drop_resolved_keeps: "filter (\<lambda>w. \<not> isResolved w) (drop_resolved n ws) = filter (\<lambda>w. \<not> isResolved w) ws"
  by (induction n ws rule: drop_resolved.induct) auto

lemma append_wait_retains:
  assumes "appendRetainedPendingEventWait waits w = Inr waits'"
  shows "w \<in> set waits'" "filter (\<lambda>v. \<not> isResolved v) waits' = filter (\<lambda>v. \<not> isResolved v) (waits @ [w])"
    "length waits \<le> MAX_WORKFLOW_PENDING_EVENT_WAIT_ENTRIES \<Longrightarrow> length waits' \<le> MAX_WORKFLOW_PENDING_EVENT_WAIT_ENTRIES"
proof -
  let ?n = "Suc (length waits) - MAX_WORKFLOW_PENDING_EVENT_WAIT_ENTRIES"
  from assms have r: "?n \<le> length (filter isResolved waits)" "waits' = drop_resolved ?n waits @ [w]"
    by (auto simp: appendRetainedPendingEventWait_def Let_def split: if_splits)
  then show "w \<in> set waits'" "filter (\<lambda>v. \<not> isResolved v) waits' = filter (\<lambda>v. \<not> isResolved v) (waits @ [w])"
    by (simp_all add: drop_resolved_keeps)
  have "0 < MAX_WORKFLOW_PENDING_EVENT_WAIT_ENTRIES" by (simp add: MAX_WORKFLOW_PENDING_EVENT_WAIT_ENTRIES_def)
  with r show "length waits \<le> MAX_WORKFLOW_PENDING_EVENT_WAIT_ENTRIES \<Longrightarrow> length waits' \<le> MAX_WORKFLOW_PENDING_EVENT_WAIT_ENTRIES"
    by (simp add: drop_resolved_counts)
qed

end
