(* ===== verification/RunBackend.thy ===== *)
theory RunBackend
  imports RunEvents
begin

text \<open>
  The memory backend of workflow runs, \<open>workflow/backends/memory.ts\<close>: runs, their waits and mailboxes, the queue, locks, claims of
  stalled runs and the retention of finished ones. Every operation is one synchronous step on the state; the clock and
  fresh lock ids are arguments. Checkpoints, approvals and observers are left out, as are the fields of a run that no
  operation here reads, and the encoding of stored values, which a patch carries as what it leaves of them.
\<close>

record 'p workflow_run =
  wr_id :: string
  wr_workflowId :: string
  wr_status :: workflow_status
  wr_input :: 'p
  wr_nodeStates :: "(string \<times> node_status) list"
  wr_context :: "(string \<times> 'p) list"
  wr_createdAt :: int
  wr_startedAt :: "int option"
  wr_heartbeatAt :: "int option"
  wr_completedAt :: "int option"
  wr_workerId :: "string option"

record 'p queue_item =
  qi_runId :: string
  qi_workflowId :: string
  qi_input :: 'p
  qi_priority :: "int option"
  qi_createdAt :: int

record run_lock =
  lk_lockId :: string
  lk_expiresAt :: int

record stalled_claim =
  sc_workerId :: string
  sc_expiresAt :: int

record 'p run_backend =
  rb_runs :: "(string \<times> 'p workflow_run) list"
  rb_eventWaits :: "(string \<times> event_wait list) list"
  rb_runEvents :: "(string \<times> 'p run_event list) list"
  rb_nextOrder :: nat
  rb_claims :: "(string \<times> (string \<times> 'p delivery_claim) list) list"
  rb_queue :: "'p queue_item list"
  rb_locks :: "(string \<times> run_lock) list"
  rb_stalledClaims :: "(string \<times> stalled_claim) list"
  rb_revisions :: "(string \<times> nat) list"
  rb_retention :: "(string \<times> nat) list"
  rb_retryQueued :: "string list"
  rb_retryPending :: "(string \<times> nat) list"
  rb_nextGeneration :: nat
  rb_maxQueueSize :: nat

definition empty_backend :: "nat \<Rightarrow> 'p run_backend" where
  "empty_backend maxQueueSize =
     \<lparr>rb_runs = [], rb_eventWaits = [], rb_runEvents = [], rb_nextOrder = 0, rb_claims = [], rb_queue = [], rb_locks = [],
      rb_stalledClaims = [], rb_revisions = [], rb_retention = [], rb_retryQueued = [], rb_retryPending = [],
      rb_nextGeneration = 0, rb_maxQueueSize = maxQueueSize\<rparr>"

definition waits_of :: "'p run_backend \<Rightarrow> string \<Rightarrow> event_wait list" where
  "waits_of s runId = (case jm_get (rb_eventWaits s) runId of None \<Rightarrow> [] | Some ws \<Rightarrow> ws)"

definition mailbox_of :: "'p run_backend \<Rightarrow> string \<Rightarrow> 'p run_event list" where
  "mailbox_of s runId = (case jm_get (rb_runEvents s) runId of None \<Rightarrow> [] | Some es \<Rightarrow> es)"

definition claims_of :: "'p run_backend \<Rightarrow> string \<Rightarrow> (string \<times> 'p delivery_claim) list" where
  "claims_of s runId = (case jm_get (rb_claims s) runId of None \<Rightarrow> [] | Some cs \<Rightarrow> cs)"

definition wait_with :: "'p run_backend \<Rightarrow> string \<Rightarrow> string \<Rightarrow> event_wait option" where
  "wait_with s runId waitId = find (\<lambda>w. ew_id w = waitId) (waits_of s runId)"

text \<open>A change of the record of a wait in its place.\<close>

definition change_wait :: "string \<Rightarrow> string \<Rightarrow> (event_wait \<Rightarrow> event_wait) \<Rightarrow> 'p run_backend \<Rightarrow> 'p run_backend" where
  "change_wait runId waitId f s =
     (case jm_get (rb_eventWaits s) runId of
        None \<Rightarrow> s
      | Some ws \<Rightarrow> s\<lparr>rb_eventWaits := jm_set runId (update_first (\<lambda>w. ew_id w = waitId) f ws) (rb_eventWaits s)\<rparr>)"

subsection \<open>Revisions\<close>

definition advanceRunRetentionRevision :: "string \<Rightarrow> 'p run_backend \<Rightarrow> 'p run_backend" where
  "advanceRunRetentionRevision runId s =
     (if jm_get (rb_retention s) runId = None then s
      else s\<lparr>rb_retention := jm_set runId (rb_nextGeneration s) (rb_retention s),
             rb_nextGeneration := Suc (rb_nextGeneration s)\<rparr>)"

definition publishRunObservation :: "string \<Rightarrow> 'p run_backend \<Rightarrow> 'p run_backend" where
  "publishRunObservation runId s =
     advanceRunRetentionRevision runId
       (s\<lparr>rb_revisions := jm_set runId (Suc (case jm_get (rb_revisions s) runId of None \<Rightarrow> 0 | Some n \<Rightarrow> n)) (rb_revisions s)\<rparr>)"

subsection \<open>Delivery claims\<close>

definition releaseRunEventClaim :: "string \<Rightarrow> string \<Rightarrow> 'p run_backend \<Rightarrow> 'p run_backend" where
  "releaseRunEventClaim runId eventId s =
     (case jm_get (rb_claims s) runId of
        None \<Rightarrow> s
      | Some claims \<Rightarrow>
          s\<lparr>rb_claims := (if jm_del eventId claims = [] then jm_del runId (rb_claims s)
                         else jm_set runId (jm_del eventId claims) (rb_claims s))\<rparr>)"

definition deleteEmptyRunEventMailbox :: "string \<Rightarrow> 'p run_event list \<Rightarrow> 'p run_backend \<Rightarrow> 'p run_backend" where
  "deleteEmptyRunEventMailbox runId mailbox s =
     (if mailbox \<noteq> [] \<or> claims_of s runId \<noteq> [] then s else s\<lparr>rb_runEvents := jm_del runId (rb_runEvents s)\<rparr>)"

definition unclaimed :: "event_wait \<Rightarrow> event_wait" where
  "unclaimed w = w\<lparr>ew_claimedAt := None, ew_recoveryClaimedAt := None, ew_claimedEventId := None\<rparr>"

definition persistRunEventDeliveryReceipts :: "string \<Rightarrow> 'p run_backend \<Rightarrow> 'p run_backend" where
  "persistRunEventDeliveryReceipts runId s =
     (case jm_get (rb_runs s) runId of
        None \<Rightarrow> s
      | Some run \<Rightarrow>
          fold (\<lambda>(eventId, c). change_wait runId (ew_id (dc_wait c))
              (\<lambda>w. let u = unclaimed w in if jm_get (wr_nodeStates run) (ew_nodeId (dc_wait c)) = Some NCompleted
                   then u\<lparr>ew_deliveredEventId := Some eventId\<rparr> else u))
            (claims_of s runId) s)"

definition hasRunEventDeliveryReceipt :: "string \<Rightarrow> string \<Rightarrow> 'p run_backend \<Rightarrow> bool" where
  "hasRunEventDeliveryReceipt runId eventId s \<longleftrightarrow> (\<exists>w \<in> set (waits_of s runId). ew_deliveredEventId w = Some eventId)"

subsection \<open>Runs\<close>

definition createRun :: "'p workflow_run \<Rightarrow> 'p run_backend \<Rightarrow> 'p run_backend" where
  "createRun run s =
     s\<lparr>rb_runs := jm_set (wr_id run) run (rb_runs s), rb_revisions := jm_set (wr_id run) 0 (rb_revisions s),
       rb_retention := jm_set (wr_id run) (rb_nextGeneration s) (rb_retention s),
       rb_nextGeneration := Suc (rb_nextGeneration s)\<rparr>"

text \<open>A field that a patch does not have keeps its value; one that the patch has is set, and an optional field is cleared where
  the patch holds \<open>undefined\<close>. The status of a run is never \<open>undefined\<close>.\<close>

record 'p run_patch =
  up_status :: "workflow_status option"
  up_startedAt :: "int option option"
  up_heartbeatAt :: "int option option"
  up_completedAt :: "int option option"
  up_workerId :: "string option option"
  up_nodeStates :: "(string \<times> node_status) list"
  up_nodeStateDeletes :: "string list"
  up_context :: "(string \<times> 'p option) list"
  up_contextDeletes :: "string list"

definition patched :: "'a option \<Rightarrow> 'a \<Rightarrow> 'a" where
  "patched p old = (case p of None \<Rightarrow> old | Some v \<Rightarrow> v)"

text \<open>A context key whose value the encoding dropped is deleted.\<close>

definition mergeMemoryRunUpdate :: "'p workflow_run \<Rightarrow> 'p run_patch \<Rightarrow> 'p workflow_run" where
  "mergeMemoryRunUpdate run u =
     run\<lparr>wr_status := patched (up_status u) (wr_status run),
         wr_startedAt := patched (up_startedAt u) (wr_startedAt run),
         wr_heartbeatAt := patched (up_heartbeatAt u) (wr_heartbeatAt run),
         wr_completedAt := patched (up_completedAt u) (wr_completedAt run),
         wr_workerId := patched (up_workerId u) (wr_workerId run),
         wr_nodeStates := fold jm_del (up_nodeStateDeletes u) (fold (\<lambda>(k, v). jm_set k v) (up_nodeStates u) (wr_nodeStates run)),
         wr_context := fold jm_del (up_contextDeletes u)
           (fold (\<lambda>(k, v). case v of None \<Rightarrow> jm_del k | Some x \<Rightarrow> jm_set k x) (up_context u) (wr_context run))\<rparr>"

definition storeRunUpdate :: "string \<Rightarrow> 'p workflow_run \<Rightarrow> workflow_status option \<Rightarrow> 'p run_backend \<Rightarrow> 'p run_backend" where
  "storeRunUpdate runId updated status s =
     (let s1 = publishRunObservation runId (s\<lparr>rb_runs := jm_set runId updated (rb_runs s)\<rparr>);
          s2 = (if status \<noteq> None \<and> status \<noteq> Some RRunning then s1\<lparr>rb_stalledClaims := jm_del runId (rb_stalledClaims s1)\<rparr> else s1)
      in if status \<noteq> Some RCompleted \<and> status \<noteq> Some RCancelled then s2
         else
           (let s3 = (if status = Some RCompleted then persistRunEventDeliveryReceipts runId s2 else s2)
            in s3\<lparr>rb_runEvents := jm_del runId (rb_runEvents s3), rb_claims := jm_del runId (rb_claims s3)\<rparr>))"

text \<open>The conditional updates: absent statuses or worker are not tested, and \<open>extra\<close> is a further condition.\<close>

definition run_matches :: "workflow_status list option \<Rightarrow> string option \<Rightarrow> ('p workflow_run \<Rightarrow> bool) \<Rightarrow> 'p workflow_run \<Rightarrow> bool" where
  "run_matches statuses workerId extra run \<longleftrightarrow>
     (case statuses of None \<Rightarrow> True | Some xs \<Rightarrow> wr_status run \<in> set xs) \<and>
     (case workerId of None \<Rightarrow> True | Some w \<Rightarrow> wr_workerId run = Some w) \<and> extra run"

definition updateRunConditionally :: "string \<Rightarrow> 'p run_patch \<Rightarrow> workflow_status list option \<Rightarrow> string option \<Rightarrow>
    ('p workflow_run \<Rightarrow> bool) \<Rightarrow> 'p run_backend \<Rightarrow> (backend_error + bool) \<times> 'p run_backend" where
  "updateRunConditionally runId patch statuses workerId extra s =
     (case jm_get (rb_runs s) runId of
        None \<Rightarrow> (Inl (RunNotFound runId), s)
      | Some run \<Rightarrow>
          if run_matches statuses workerId extra run
          then (Inr True, storeRunUpdate runId (mergeMemoryRunUpdate run patch) (up_status patch) s)
          else (Inr False, s))"

text \<open>A snapshot replaces the maps of the run.\<close>

record 'p run_snapshot =
  ss_status :: "workflow_status option"
  ss_workerId :: "string option option"
  ss_nodeStates :: "(string \<times> node_status) list"
  ss_context :: "(string \<times> 'p) list"

definition restoreRunStateIfStatus :: "string \<Rightarrow> workflow_status list \<Rightarrow> 'p run_snapshot \<Rightarrow> string option \<Rightarrow> 'p run_backend \<Rightarrow>
    (backend_error + bool) \<times> 'p run_backend" where
  "restoreRunStateIfStatus runId statuses snapshot workerId s =
     (case jm_get (rb_runs s) runId of
        None \<Rightarrow> (Inl (RunNotFound runId), s)
      | Some run \<Rightarrow>
          if run_matches (Some statuses) workerId (\<lambda>_. True) run
          then (Inr True, storeRunUpdate runId
              (run\<lparr>wr_status := patched (ss_status snapshot) (wr_status run),
                  wr_workerId := patched (ss_workerId snapshot) (wr_workerId run),
                  wr_nodeStates := ss_nodeStates snapshot, wr_context := ss_context snapshot\<rparr>)
              (ss_status snapshot) s)
          else (Inr False, s))"

definition deleteRunState :: "string \<Rightarrow> 'p run_backend \<Rightarrow> 'p run_backend" where
  "deleteRunState runId s =
     s\<lparr>rb_runs := jm_del runId (rb_runs s), rb_eventWaits := jm_del runId (rb_eventWaits s),
       rb_runEvents := jm_del runId (rb_runEvents s), rb_claims := jm_del runId (rb_claims s),
       rb_queue := filter (\<lambda>q. qi_runId q \<noteq> runId) (rb_queue s), rb_locks := jm_del runId (rb_locks s),
       rb_stalledClaims := jm_del runId (rb_stalledClaims s), rb_revisions := jm_del runId (rb_revisions s),
       rb_retention := jm_del runId (rb_retention s), rb_retryQueued := filter (\<lambda>i. i \<noteq> runId) (rb_retryQueued s),
       rb_retryPending := jm_del runId (rb_retryPending s)\<rparr>"

subsection \<open>Retention of finished runs\<close>

record retention_candidate =
  rt_runId :: string
  rt_workflowId :: string
  rt_createdAt :: int
  rt_status :: workflow_status
  rt_completedAt :: int
  rt_revision :: nat

definition is_terminal :: "workflow_status \<Rightarrow> bool" where
  "is_terminal st \<longleftrightarrow> st = RCompleted \<or> st = RFailed \<or> st = RCancelled"

definition memoryTerminalRetentionCandidate :: "'p workflow_run \<Rightarrow> int \<Rightarrow> nat \<Rightarrow> retention_candidate option" where
  "memoryTerminalRetentionCandidate run cutoff revision =
     (if \<not> is_terminal (wr_status run) then None
      else
        (case wr_completedAt run of
           None \<Rightarrow> None
         | Some done \<Rightarrow>
             if cutoff \<le> done then None
             else Some \<lparr>rt_runId = wr_id run, rt_workflowId = wr_workflowId run, rt_createdAt = wr_createdAt run,
                        rt_status = wr_status run, rt_completedAt = done, rt_revision = revision\<rparr>))"

definition deleteTerminalRunIfUnchanged :: "retention_candidate \<Rightarrow> 'p run_backend \<Rightarrow> bool \<times> 'p run_backend" where
  "deleteTerminalRunIfUnchanged c s =
     (case jm_get (rb_runs s) (rt_runId c) of
        None \<Rightarrow> (False, s)
      | Some run \<Rightarrow>
          if wr_workflowId run \<noteq> rt_workflowId c \<or> wr_status run \<noteq> rt_status c \<or> wr_createdAt run \<noteq> rt_createdAt c \<or>
             wr_completedAt run \<noteq> Some (rt_completedAt c) \<or> jm_get (rb_retention s) (rt_runId c) \<noteq> Some (rt_revision c) \<or>
             \<not> is_terminal (wr_status run)
          then (False, s)
          else (True, deleteRunState (rt_runId c) s))"

subsection \<open>Mailboxes\<close>

text \<open>Mailboxes that no wait can claim from again are dropped, oldest first, once there are too many.\<close>

definition retains_mailbox :: "workflow_status \<Rightarrow> bool" where
  "retains_mailbox st \<longleftrightarrow> st = RPending \<or> st = RRunning \<or> st = RWaiting \<or> st = RFailed"

definition is_orphan :: "'p run_backend \<Rightarrow> string \<Rightarrow> bool" where
  "is_orphan s runId \<longleftrightarrow>
     (case jm_get (rb_runs s) runId of None \<Rightarrow> True | Some run \<Rightarrow> \<not> retains_mailbox (wr_status run)) \<and> claims_of s runId = []"

fun evict_mailboxes :: "string list \<Rightarrow> nat \<Rightarrow> 'p run_backend \<Rightarrow> 'p run_backend" where
  "evict_mailboxes [] overflow s = s"
| "evict_mailboxes (r # rs) overflow s =
     (if overflow = 0 then s
      else if is_orphan s r then evict_mailboxes rs (overflow - 1) (s\<lparr>rb_runEvents := jm_del r (rb_runEvents s)\<rparr>)
      else evict_mailboxes rs overflow s)"

definition evictOrphanRunEventMailboxes :: "nat \<Rightarrow> 'p run_backend \<Rightarrow> 'p run_backend" where
  "evictOrphanRunEventMailboxes requiredSlots s =
     evict_mailboxes (jm_keys (rb_runEvents s))
       (length (rb_runEvents s) + requiredSlots - MAX_WORKFLOW_RUN_EVENT_MAILBOXES) s"

definition append_to_mailbox :: "string \<Rightarrow> 'p run_event \<Rightarrow> 'p run_backend \<Rightarrow> (backend_error + unit) \<times> 'p run_backend" where
  "append_to_mailbox runId event s =
     (let s1 = s\<lparr>rb_nextOrder := Suc (rb_nextOrder s)\<rparr>
      in case appendRetainedRunEvent (mailbox_of s runId) (event\<lparr>ev_order := Some (rb_nextOrder s)\<rparr>) (length (claims_of s runId)) of
           Inl e \<Rightarrow> (Inl e, s1)
         | Inr mailbox \<Rightarrow>
             (Inr (), advanceRunRetentionRevision runId (s1\<lparr>rb_runEvents := jm_set runId mailbox (rb_runEvents s1)\<rparr>)))"

definition appendRunEvent :: "string \<Rightarrow> 'p run_event \<Rightarrow> 'p run_backend \<Rightarrow> (backend_error + unit) \<times> 'p run_backend" where
  "appendRunEvent runId event s =
     (if jm_get (rb_runEvents s) runId \<noteq> None then append_to_mailbox runId event s
      else
        (let s1 = evictOrphanRunEventMailboxes 1 s
         in if MAX_WORKFLOW_RUN_EVENT_MAILBOXES \<le> length (rb_runEvents s1) then (Inl MailboxCapacity, s1)
            else append_to_mailbox runId event s1))"

definition removeRunEvent :: "string \<Rightarrow> string \<Rightarrow> 'p run_backend \<Rightarrow> bool \<times> 'p run_backend" where
  "removeRunEvent runId eventId s =
     (case jm_get (rb_runEvents s) runId of
        None \<Rightarrow> (False, s)
      | Some mailbox \<Rightarrow>
          if \<not> (\<exists>e \<in> set mailbox. ev_id e = eventId) then (False, s)
          else
            (let rest = remove_first (\<lambda>e. ev_id e = eventId) mailbox
             in (True, advanceRunRetentionRevision runId
                  (deleteEmptyRunEventMailbox runId rest (s\<lparr>rb_runEvents := jm_set runId rest (rb_runEvents s)\<rparr>)))))"

definition takeRunEvent :: "string \<Rightarrow> string \<Rightarrow> 'p run_backend \<Rightarrow> 'p run_event option \<times> 'p run_backend" where
  "takeRunEvent runId eventName s =
     (case jm_get (rb_runEvents s) runId of
        None \<Rightarrow> (None, s)
      | Some mailbox \<Rightarrow>
          (case takeRetainedRunEvent mailbox eventName None of
             None \<Rightarrow> (None, deleteEmptyRunEventMailbox runId mailbox s)
           | Some (e, rest) \<Rightarrow>
               (Some e, advanceRunRetentionRevision runId
                  (deleteEmptyRunEventMailbox runId rest (s\<lparr>rb_runEvents := jm_set runId rest (rb_runEvents s)\<rparr>)))))"

definition peekRunEvent :: "string \<Rightarrow> string \<Rightarrow> 'p run_backend \<Rightarrow> 'p run_event option" where
  "peekRunEvent runId eventName s = find (\<lambda>e. ev_eventName e = eventName) (mailbox_of s runId)"

text \<open>The oldest matching event and its wait are claimed in one step.\<close>

definition claimRunEventForWait :: "string \<Rightarrow> string \<Rightarrow> string \<Rightarrow> int option \<Rightarrow> int \<Rightarrow> 'p run_backend \<Rightarrow>
    'p run_event option \<times> 'p run_backend" where
  "claimRunEventForWait runId waitId eventName publishedBefore now s =
     (case wait_with s runId waitId of
        None \<Rightarrow> (None, s)
      | Some w \<Rightarrow>
          if ew_status w \<noteq> WaitPending then (None, s)
          else
            (case jm_get (rb_runEvents s) runId of
               None \<Rightarrow> (None, s)
             | Some mailbox \<Rightarrow>
                 (case takeRetainedRunEvent mailbox eventName publishedBefore of
                    None \<Rightarrow> (None, s)
                  | Some (e, rest) \<Rightarrow>
                      (let claim = (\<lambda>v. v\<lparr>ew_status := WaitDelivered, ew_claimedAt := Some now, ew_claimedEventId := Some (ev_id e)\<rparr>)
                       in (Some e, advanceRunRetentionRevision runId
                            (change_wait runId waitId claim
                              (s\<lparr>rb_runEvents := jm_set runId rest (rb_runEvents s),
                                rb_claims := jm_set runId (jm_set (ev_id e) \<lparr>dc_wait = claim w, dc_event = e, dc_claimedAt = now\<rparr>
                                  (claims_of s runId)) (rb_claims s)\<rparr>)))))))"

definition listRunEventDeliveryClaims :: "string option \<Rightarrow> 'p run_backend \<Rightarrow> 'p delivery_claim list" where
  "listRunEventDeliveryClaims runId s =
     concat (map (\<lambda>(r, cs). if runId \<noteq> None \<and> runId \<noteq> Some r then [] else map snd cs) (rb_claims s))"

definition lease_held :: "int option \<Rightarrow> int \<Rightarrow> bool" where
  "lease_held recoveryClaimedAt staleBefore \<longleftrightarrow> (case recoveryClaimedAt of None \<Rightarrow> False | Some d \<Rightarrow> staleBefore < d)"

definition reserveRunEventDeliveryClaim :: "string \<Rightarrow> string \<Rightarrow> string \<Rightarrow> int \<Rightarrow> int \<Rightarrow> 'p run_backend \<Rightarrow> bool \<times> 'p run_backend" where
  "reserveRunEventDeliveryClaim runId waitId eventId claimedAt staleBefore s =
     (case jm_get (claims_of s runId) eventId of
        None \<Rightarrow> (False, s)
      | Some c \<Rightarrow>
          if ew_id (dc_wait c) \<noteq> waitId \<or> lease_held (ew_recoveryClaimedAt (dc_wait c)) staleBefore then (False, s)
          else
            (let lease = (\<lambda>w. w\<lparr>ew_recoveryClaimedAt := Some claimedAt\<rparr>)
             in (True, advanceRunRetentionRevision runId
                  (change_wait runId waitId lease
                    (s\<lparr>rb_claims := jm_set runId (jm_set eventId (c\<lparr>dc_wait := lease (dc_wait c)\<rparr>) (claims_of s runId)) (rb_claims s)\<rparr>)))))"

definition restoreRunEvent :: "string \<Rightarrow> 'p run_event \<Rightarrow> 'p run_backend \<Rightarrow> 'p run_backend" where
  "restoreRunEvent runId event s =
     advanceRunRetentionRevision runId
       (releaseRunEventClaim runId (ev_id event)
         (s\<lparr>rb_runEvents := jm_set runId (restoreRetainedRunEvent (mailbox_of s runId) event) (rb_runEvents s)\<rparr>))"

definition is_restorable :: "event_wait \<Rightarrow> bool" where
  "is_restorable w \<longleftrightarrow> ew_status w = WaitDelivered \<or> ew_status w = WaitExpired"

definition pending_again :: "event_wait \<Rightarrow> event_wait" where
  "pending_again w = (unclaimed w)\<lparr>ew_status := WaitPending\<rparr>"

definition restoreRunEventDelivery :: "string \<Rightarrow> string \<Rightarrow> 'p run_event \<Rightarrow> 'p run_backend \<Rightarrow> bool \<times> 'p run_backend" where
  "restoreRunEventDelivery runId waitId event s =
     (case jm_get (claims_of s runId) (ev_id event) of
        None \<Rightarrow> (False, s)
      | Some c \<Rightarrow>
          if ew_id (dc_wait c) \<noteq> waitId then (False, s)
          else
            (let restored = (case wait_with s runId waitId of None \<Rightarrow> False | Some w \<Rightarrow> is_restorable w);
                 s1 = (if restored then change_wait runId waitId pending_again s else s)
             in (restored, advanceRunRetentionRevision runId
                  (releaseRunEventClaim runId (ev_id event)
                    (s1\<lparr>rb_runEvents := jm_set runId (restoreRetainedRunEvent (mailbox_of s1 runId) (dc_event c)) (rb_runEvents s1)\<rparr>)))))"

definition finalizeRunEventDelivery :: "string \<Rightarrow> string \<Rightarrow> bool \<Rightarrow> 'p run_backend \<Rightarrow> 'p run_backend" where
  "finalizeRunEventDelivery runId eventId delivered s =
     (let s1 = (case jm_get (claims_of s runId) eventId of
                  None \<Rightarrow> s
                | Some c \<Rightarrow> advanceRunRetentionRevision runId
                    (change_wait runId (ew_id (dc_wait c))
                      (\<lambda>w. if delivered then (unclaimed w)\<lparr>ew_deliveredEventId := Some eventId\<rparr> else unclaimed w) s));
          s2 = releaseRunEventClaim runId eventId s1
      in case jm_get (rb_runEvents s2) runId of
           None \<Rightarrow> s2
         | Some mailbox \<Rightarrow> deleteEmptyRunEventMailbox runId mailbox s2)"

subsection \<open>Waits\<close>

text \<open>A record of the same wait that still has something to come.\<close>

definition is_open_wait :: "event_wait \<Rightarrow> bool" where
  "is_open_wait w \<longleftrightarrow>
     ew_status w = WaitPending \<or> ew_claimedEventId w \<noteq> None \<or>
     (ew_claimedAt w \<noteq> None \<and> (ew_kind w = DelayWait \<or> ew_status w = WaitExpired))"

definition store_wait :: "string \<Rightarrow> event_wait \<Rightarrow> 'p run_backend \<Rightarrow> (backend_error + bool) \<times> 'p run_backend" where
  "store_wait runId w s =
     (if \<exists>v \<in> set (waits_of s runId). is_open_wait v \<and> isSameWaitNodeExecution v w then (Inr False, s)
      else
        (case appendRetainedPendingEventWait (waits_of s runId) w of
           Inl e \<Rightarrow> (Inl e, s)
         | Inr ws \<Rightarrow> (Inr True, advanceRunRetentionRevision runId (s\<lparr>rb_eventWaits := jm_set runId ws (rb_eventWaits s)\<rparr>))))"

definition savePendingEventWait :: "string \<Rightarrow> event_wait \<Rightarrow> 'p run_backend \<Rightarrow> (backend_error + unit) \<times> 'p run_backend" where
  "savePendingEventWait runId w s =
     (case store_wait runId w s of (Inl e, s1) \<Rightarrow> (Inl e, s1) | (Inr saved, s1) \<Rightarrow> (Inr (), s1))"

definition savePendingEventWaitIfStatusAndWorker :: "string \<Rightarrow> workflow_status list \<Rightarrow> string \<Rightarrow> event_wait \<Rightarrow> 'p run_backend \<Rightarrow>
    (backend_error + bool) \<times> 'p run_backend" where
  "savePendingEventWaitIfStatusAndWorker runId statuses workerId w s =
     (case jm_get (rb_runs s) runId of
        None \<Rightarrow> (Inl (RunNotFound runId), s)
      | Some run \<Rightarrow>
          if wr_status run \<notin> set statuses \<or> wr_workerId run \<noteq> Some workerId then (Inr False, s)
          else store_wait runId w s)"

definition getPendingEventWaits :: "string \<Rightarrow> 'p run_backend \<Rightarrow> event_wait list" where
  "getPendingEventWaits runId s = filter (\<lambda>w. ew_status w = WaitPending) (waits_of s runId)"

definition listPendingEventWaits :: "'p run_backend \<Rightarrow> (string \<times> event_wait) list" where
  "listPendingEventWaits s =
     concat (map (\<lambda>(r, ws). if jm_get (rb_runs s) r = None then []
                            else map (Pair r) (filter (\<lambda>w. ew_status w = WaitPending) ws)) (rb_eventWaits s))"

definition resolvePendingEventWait :: "string \<Rightarrow> string \<Rightarrow> wait_status \<Rightarrow> (string \<times> int) option \<Rightarrow> int \<Rightarrow> 'p run_backend \<Rightarrow>
    bool \<times> 'p run_backend" where
  "resolvePendingEventWait runId waitId status unlessBuffered now s =
     (case wait_with s runId waitId of
        None \<Rightarrow> (False, s)
      | Some w \<Rightarrow>
          if ew_status w \<noteq> WaitPending then (False, s)
          else if (case unlessBuffered of None \<Rightarrow> False | Some (n, d) \<Rightarrow> hasRetainedRunEvent (mailbox_of s runId) n (Some d))
          then (False, s)
          else (True, advanceRunRetentionRevision runId
                 (change_wait runId waitId
                   (\<lambda>v. let u = v\<lparr>ew_status := status\<rparr>
                        in if status = WaitDelivered \<or> status = WaitExpired then u\<lparr>ew_claimedAt := Some now\<rparr> else u) s)))"

definition restorePendingEventWait :: "string \<Rightarrow> string \<Rightarrow> 'p run_backend \<Rightarrow> bool \<times> 'p run_backend" where
  "restorePendingEventWait runId waitId s =
     (case wait_with s runId waitId of
        None \<Rightarrow> (False, s)
      | Some w \<Rightarrow>
          if \<not> is_restorable w then (False, s)
          else (True, advanceRunRetentionRevision runId (change_wait runId waitId pending_again s)))"

definition is_timed_claim :: "event_wait \<Rightarrow> bool" where
  "is_timed_claim w \<longleftrightarrow>
     ew_claimedAt w \<noteq> None \<and>
     ((ew_kind w = DelayWait \<and> ew_status w = WaitDelivered) \<or> (ew_kind w = EventWait \<and> ew_status w = WaitExpired))"

definition listTimedEventWaitClaims :: "string option \<Rightarrow> 'p run_backend \<Rightarrow> event_wait list" where
  "listTimedEventWaitClaims runId s =
     concat (map (\<lambda>(r, ws). if runId \<noteq> None \<and> runId \<noteq> Some r then [] else filter is_timed_claim ws) (rb_eventWaits s))"

definition reserveTimedEventWaitClaim :: "string \<Rightarrow> string \<Rightarrow> int \<Rightarrow> int \<Rightarrow> 'p run_backend \<Rightarrow> bool \<times> 'p run_backend" where
  "reserveTimedEventWaitClaim runId waitId claimedAt staleBefore s =
     (case wait_with s runId waitId of
        None \<Rightarrow> (False, s)
      | Some w \<Rightarrow>
          if \<not> is_timed_claim w \<or> lease_held (ew_recoveryClaimedAt w) staleBefore then (False, s)
          else (True, advanceRunRetentionRevision runId
                 (change_wait runId waitId (\<lambda>v. v\<lparr>ew_recoveryClaimedAt := Some claimedAt\<rparr>) s)))"

definition finalizeTimedEventWaitClaim :: "string \<Rightarrow> string \<Rightarrow> 'p run_backend \<Rightarrow> 'p run_backend" where
  "finalizeTimedEventWaitClaim runId waitId s =
     (case wait_with s runId waitId of
        None \<Rightarrow> s
      | Some w \<Rightarrow> advanceRunRetentionRevision runId
          (change_wait runId waitId (\<lambda>v. v\<lparr>ew_claimedAt := None, ew_recoveryClaimedAt := None\<rparr>) s))"

end
