(* ===== verification/RunQueue.thy ===== *)
theory RunQueue
  imports RunBackend "HOL-Library.Char_ord" "HOL-Library.List_Lexorder"
begin

text \<open>
  The queue, the locks and the claims of stalled runs of the memory backend, the listing of finished runs, and one step
  function for all modelled operations that change the state: runs, waits, mailboxes, queue, locks and stalled runs
  (\<open>workflow/backends/memory.ts\<close>, \<open>workflow/backends/shared/requeue-run.ts\<close>). The operations on checkpoints, on
  approvals and on observers are not among them.
\<close>

subsection \<open>The queue\<close>

definition item_priority :: "'p queue_item \<Rightarrow> int" where
  "item_priority q = (case qi_priority q of None \<Rightarrow> 0 | Some n \<Rightarrow> n)"

definition enqueue_item :: "'p queue_item \<Rightarrow> 'p run_backend \<Rightarrow> (backend_error + unit) \<times> 'p run_backend" where
  "enqueue_item job s =
     (if rb_maxQueueSize s \<le> length (rb_queue s) then (Inl (QueueFull (qi_runId job)), s)
      else (Inr (), advanceRunRetentionRevision (qi_runId job)
        (s\<lparr>rb_queue := insert_before (\<lambda>j. item_priority j < item_priority job) job (rb_queue s),
          rb_retryQueued := set_add (qi_runId job) (rb_retryQueued s)\<rparr>)))"

definition pending_of :: "'p run_backend \<Rightarrow> string \<Rightarrow> nat" where
  "pending_of s runId = (case jm_get (rb_retryPending s) runId of None \<Rightarrow> 0 | Some n \<Rightarrow> n)"

definition dequeue_item :: "'p run_backend \<Rightarrow> 'p queue_item option \<times> 'p run_backend" where
  "dequeue_item s =
     (case rb_queue s of
        [] \<Rightarrow> (None, s)
      | job # rest \<Rightarrow>
          (let s1 = s\<lparr>rb_queue := rest\<rparr>
           in (Some job,
               if qi_runId job \<in> set (rb_retryQueued s)
               then s1\<lparr>rb_retryPending := jm_set (qi_runId job) (Suc (pending_of s (qi_runId job))) (rb_retryPending s)\<rparr>
               else s1)))"

definition acknowledge_item :: "string \<Rightarrow> 'p run_backend \<Rightarrow> 'p run_backend" where
  "acknowledge_item runId s =
     (let s1 = s\<lparr>rb_retryPending := (if 1 < pending_of s runId then jm_set runId (pending_of s runId - 1) (rb_retryPending s)
                                     else jm_del runId (rb_retryPending s))\<rparr>
      in if \<not> (\<exists>q \<in> set (rb_queue s1). qi_runId q = runId) \<and> jm_get (rb_retryPending s1) runId = None
         then s1\<lparr>rb_retryQueued := filter (\<lambda>i. i \<noteq> runId) (rb_retryQueued s1)\<rparr> else s1)"

text \<open>A delivery that is given back is queued as a new item without a priority, and then acknowledged.\<close>

definition requeueRun :: "string \<Rightarrow> int \<Rightarrow> 'p run_backend \<Rightarrow> (backend_error + unit) \<times> 'p run_backend" where
  "requeueRun runId now s =
     (case jm_get (rb_runs s) runId of
        None \<Rightarrow> (Inr (), s)
      | Some run \<Rightarrow> enqueue_item \<lparr>qi_runId = wr_id run, qi_workflowId = wr_workflowId run, qi_input = wr_input run,
                                 qi_priority = None, qi_createdAt = now\<rparr> s)"

definition nack_item :: "string \<Rightarrow> int \<Rightarrow> 'p run_backend \<Rightarrow> (backend_error + unit) \<times> 'p run_backend" where
  "nack_item runId now s =
     (case requeueRun runId now s of
        (Inl e, s1) \<Rightarrow> (Inl e, s1)
      | (Inr u, s1) \<Rightarrow> (Inr u, acknowledge_item runId s1))"

subsection \<open>Locks\<close>

definition acquireLock :: "string \<Rightarrow> int \<Rightarrow> string \<Rightarrow> int \<Rightarrow> 'p run_backend \<Rightarrow> string option \<times> 'p run_backend" where
  "acquireLock runId duration lockId now s =
     (case jm_get (rb_locks s) runId of
        Some l \<Rightarrow>
          if now < lk_expiresAt l then (None, s)
          else (Some lockId, s\<lparr>rb_locks := jm_set runId \<lparr>lk_lockId = lockId, lk_expiresAt = now + duration\<rparr> (rb_locks s)\<rparr>)
      | None \<Rightarrow> (Some lockId, s\<lparr>rb_locks := jm_set runId \<lparr>lk_lockId = lockId, lk_expiresAt = now + duration\<rparr> (rb_locks s)\<rparr>))"

definition releaseLock :: "string \<Rightarrow> string option \<Rightarrow> 'p run_backend \<Rightarrow> 'p run_backend" where
  "releaseLock runId lockId s =
     (case (lockId, jm_get (rb_locks s) runId) of
        (Some i, Some l) \<Rightarrow> if lk_lockId l \<noteq> i then s else s\<lparr>rb_locks := jm_del runId (rb_locks s)\<rparr>
      | _ \<Rightarrow> s\<lparr>rb_locks := jm_del runId (rb_locks s)\<rparr>)"

definition extendLock :: "string \<Rightarrow> int \<Rightarrow> string option \<Rightarrow> int \<Rightarrow> 'p run_backend \<Rightarrow> bool \<times> 'p run_backend" where
  "extendLock runId duration lockId now s =
     (case jm_get (rb_locks s) runId of
        None \<Rightarrow> (False, s)
      | Some l \<Rightarrow>
          if lk_expiresAt l \<le> now then (False, s)
          else if lockId \<noteq> None \<and> lockId \<noteq> Some (lk_lockId l) then (False, s)
          else (True, s\<lparr>rb_locks := jm_set runId (l\<lparr>lk_expiresAt := now + duration\<rparr>) (rb_locks s)\<rparr>))"

definition isLocked :: "string \<Rightarrow> int \<Rightarrow> 'p run_backend \<Rightarrow> bool" where
  "isLocked runId now s = (case jm_get (rb_locks s) runId of None \<Rightarrow> False | Some l \<Rightarrow> now < lk_expiresAt l)"

subsection \<open>Stalled runs\<close>

definition last_activity :: "'p workflow_run \<Rightarrow> int" where
  "last_activity run =
     (case wr_heartbeatAt run of Some t \<Rightarrow> t | None \<Rightarrow> (case wr_startedAt run of Some t \<Rightarrow> t | None \<Rightarrow> wr_createdAt run))"

definition findStalledRuns :: "int \<Rightarrow> int \<Rightarrow> 'p run_backend \<Rightarrow> 'p workflow_run list" where
  "findStalledRuns stalledThreshold now s =
     filter (\<lambda>run. wr_status run = RRunning \<and> stalledThreshold \<le> now - last_activity run) (jm_values (rb_runs s))"

definition claimStalledRun :: "string \<Rightarrow> string \<Rightarrow> int \<Rightarrow> int \<Rightarrow> 'p run_backend \<Rightarrow> bool \<times> 'p run_backend" where
  "claimStalledRun runId workerId stalledThreshold now s =
     (case jm_get (rb_runs s) runId of
        None \<Rightarrow> (False, s)
      | Some run \<Rightarrow>
          if wr_status run \<noteq> RRunning then (False, s)
          else if now - last_activity run < stalledThreshold then (False, s)
          else if (case jm_get (rb_stalledClaims s) runId of None \<Rightarrow> False | Some c \<Rightarrow> now < sc_expiresAt c) then (False, s)
          else (True, publishRunObservation runId
            (s\<lparr>rb_stalledClaims := jm_set runId \<lparr>sc_workerId = workerId, sc_expiresAt = now + stalledThreshold\<rparr> (rb_stalledClaims s),
              rb_runs := jm_set runId
                (run\<lparr>wr_workerId := Some workerId,
                    wr_startedAt := Some (case wr_startedAt run of None \<Rightarrow> now | Some t \<Rightarrow> t),
                    wr_heartbeatAt := Some now\<rparr>) (rb_runs s)\<rparr>)))"

subsection \<open>The listing of finished runs\<close>

definition candidate_le :: "retention_candidate \<Rightarrow> retention_candidate \<Rightarrow> bool" where
  "candidate_le a b \<longleftrightarrow>
     rt_completedAt a < rt_completedAt b \<or> (rt_completedAt a = rt_completedAt b \<and> rt_runId a \<le> rt_runId b)"

definition insertBoundedTerminalRetentionCandidate :: "retention_candidate list \<Rightarrow> retention_candidate \<Rightarrow> nat \<Rightarrow>
    bool \<times> retention_candidate list" where
  "insertBoundedTerminalRetentionCandidate candidates c limit =
     (let inserted = insert_before (\<lambda>d. \<not> candidate_le d c) c candidates
      in if length inserted \<le> limit then (False, inserted) else (True, butlast inserted))"

definition listTerminalRunRetentionCandidates :: "int \<Rightarrow> nat \<Rightarrow> 'p run_backend \<Rightarrow> bool \<times> retention_candidate list" where
  "listTerminalRunRetentionCandidates cutoff limit s =
     (if limit = 0 then (False, [])
      else fold (\<lambda>run (more, cs).
          if wr_id run \<in> set (rb_retryQueued s) \<or> jm_get (rb_retryPending s) (wr_id run) \<noteq> None then (more, cs)
          else
            (case memoryTerminalRetentionCandidate run cutoff
                 (case jm_get (rb_retention s) (wr_id run) of None \<Rightarrow> 0 | Some n \<Rightarrow> n) of
               None \<Rightarrow> (more, cs)
             | Some c \<Rightarrow> (let (dropped, cs1) = insertBoundedTerminalRetentionCandidate cs c limit in (more \<or> dropped, cs1))))
        (jm_values (rb_runs s)) (False, []))"

definition clear_backend :: "'p run_backend \<Rightarrow> 'p run_backend" where
  "clear_backend s =
     (empty_backend (rb_maxQueueSize s))\<lparr>rb_nextOrder := rb_nextOrder s, rb_nextGeneration := rb_nextGeneration s\<rparr>"

subsection \<open>The operations together\<close>

datatype 'p backend_op =
    CreateRun "'p workflow_run"
  | UpdateRun string "'p run_patch" "workflow_status list option" "string option" "'p workflow_run \<Rightarrow> bool"
  | RestoreState string "workflow_status list" "'p run_snapshot" "string option"
  | DeleteRun string
  | DeleteIfUnchanged retention_candidate
  | SaveWait string event_wait
  | SaveOwnedWait string "workflow_status list" string event_wait
  | ResolveWait string string wait_status "(string \<times> int) option" int
  | RestoreWait string string
  | ReserveTimedClaim string string int int
  | FinalizeTimedClaim string string
  | AppendEvent string "'p run_event"
  | RemoveEvent string string
  | TakeEvent string string
  | ClaimEvent string string string "int option" int
  | ReserveClaim string string string int int
  | RestoreEvent string "'p run_event"
  | RestoreDelivery string string "'p run_event"
  | FinalizeDelivery string string bool
  | Enqueue "'p queue_item"
  | Dequeue
  | Acknowledge string
  | Nack string int
  | Lock string int string int
  | Unlock string "string option"
  | ExtendLock string int "string option" int
  | ClaimStalled string string int int
  | ClearAll

fun backend_step :: "'p backend_op \<Rightarrow> 'p run_backend \<Rightarrow> 'p run_backend" where
  "backend_step (CreateRun run) s = createRun run s"
| "backend_step (UpdateRun r p st w f) s = snd (updateRunConditionally r p st w f s)"
| "backend_step (RestoreState r st p w) s = snd (restoreRunStateIfStatus r st p w s)"
| "backend_step (DeleteRun r) s = deleteRunState r s"
| "backend_step (DeleteIfUnchanged c) s = snd (deleteTerminalRunIfUnchanged c s)"
| "backend_step (SaveWait r w) s = snd (savePendingEventWait r w s)"
| "backend_step (SaveOwnedWait r st wk w) s = snd (savePendingEventWaitIfStatusAndWorker r st wk w s)"
| "backend_step (ResolveWait r w st b t) s = snd (resolvePendingEventWait r w st b t s)"
| "backend_step (RestoreWait r w) s = snd (restorePendingEventWait r w s)"
| "backend_step (ReserveTimedClaim r w t b) s = snd (reserveTimedEventWaitClaim r w t b s)"
| "backend_step (FinalizeTimedClaim r w) s = finalizeTimedEventWaitClaim r w s"
| "backend_step (AppendEvent r e) s = snd (appendRunEvent r e s)"
| "backend_step (RemoveEvent r e) s = snd (removeRunEvent r e s)"
| "backend_step (TakeEvent r n) s = snd (takeRunEvent r n s)"
| "backend_step (ClaimEvent r w n b t) s = snd (claimRunEventForWait r w n b t s)"
| "backend_step (ReserveClaim r w e t b) s = snd (reserveRunEventDeliveryClaim r w e t b s)"
| "backend_step (RestoreEvent r e) s = restoreRunEvent r e s"
| "backend_step (RestoreDelivery r w e) s = snd (restoreRunEventDelivery r w e s)"
| "backend_step (FinalizeDelivery r e d) s = finalizeRunEventDelivery r e d s"
| "backend_step (Enqueue q) s = snd (enqueue_item q s)"
| "backend_step Dequeue s = snd (dequeue_item s)"
| "backend_step (Acknowledge r) s = acknowledge_item r s"
| "backend_step (Nack r t) s = snd (nack_item r t s)"
| "backend_step (Lock r d i t) s = snd (acquireLock r d i t s)"
| "backend_step (Unlock r i) s = releaseLock r i s"
| "backend_step (ExtendLock r d i t) s = snd (extendLock r d i t s)"
| "backend_step (ClaimStalled r w d t) s = snd (claimStalledRun r w d t s)"
| "backend_step ClearAll s = clear_backend s"

definition run_backend_ops :: "'p backend_op list \<Rightarrow> 'p run_backend \<Rightarrow> 'p run_backend" where
  "run_backend_ops ops s = fold backend_step ops s"

end
