(* ===== verification/RunMailSafety.thy ===== *)
theory RunMailSafety
  imports RunQueue
begin

text \<open>
  Events that were accepted for a run: they stay in its mailbox, in the order they were published, or with the wait that
  claimed them, until something consumes them; and mailboxes keep their bounds. An event that was taken may be put back by
  whoever took it. No bound is checked then, so the invariants carry the number of events by which the bounds may
  be exceeded.
\<close>

subsection \<open>Maps\<close>

lemma length_jm_set: "length (jm_set k v m) = (if k \<in> set (jm_keys m) then length m else Suc (length m))"
  by (induction m) auto

lemma jm_set_nonempty [simp]: "jm_set k v m \<noteq> []"
  by (cases m) (auto simp: split_paired_all)

lemma length_jm_set_old: "jm_get m k = Some w \<Longrightarrow> length (jm_set k v m) = length m"
  by (induction m) (auto split: if_splits)

lemma length_jm_del: "length (jm_del k m) \<le> length m"
  by (induction m) auto

lemma jm_del_append: "jm_del k (xs @ ys) = jm_del k xs @ jm_del k ys"
  by (simp add: AList.delete_eq)

lemma jm_get_in_keys: "jm_get m k \<noteq> None \<longleftrightarrow> k \<in> set (jm_keys m)"
  by (simp add: map_of_eq_None_iff)

lemma jm_set_absent: "k \<notin> set (jm_keys m) \<Longrightarrow> jm_set k v m = m @ [(k, v)]"
  by (induction m) auto

subsection \<open>The events a run holds\<close>

definition order_of :: "'p run_event \<Rightarrow> nat" where
  "order_of e = (case ev_order e of None \<Rightarrow> 0 | Some n \<Rightarrow> n)"

abbreviation claimed_events :: "(string \<times> 'p delivery_claim) list \<Rightarrow> 'p run_event list" where
  "claimed_events cs \<equiv> map (\<lambda>p. dc_event (snd p)) cs"

definition run_mail_ok :: "nat \<Rightarrow> nat \<Rightarrow> 'p run_event list \<Rightarrow> (string \<times> 'p delivery_claim) list \<Rightarrow> bool" where
  "run_mail_ok extra nextOrder mb cs \<longleftrightarrow>
     sorted_wrt (\<lambda>a b. order_of a < order_of b) mb \<and>
     distinct (map order_of (mb @ claimed_events cs)) \<and> distinct (map ev_id (mb @ claimed_events cs)) \<and>
     (\<forall>e \<in> set (mb @ claimed_events cs). \<exists>n. ev_order e = Some n \<and> n < nextOrder) \<and>
     jm_keys cs = map ev_id (claimed_events cs) \<and>
     length mb + length cs \<le> MAX_WORKFLOW_RUN_EVENT_MAILBOX_ENTRIES + extra"

definition mail_ok :: "nat \<Rightarrow> 'p run_backend \<Rightarrow> bool" where
  "mail_ok extra s \<longleftrightarrow>
     jm_ok (rb_runEvents s) \<and> jm_ok (rb_claims s) \<and> length (rb_runEvents s) \<le> MAX_WORKFLOW_RUN_EVENT_MAILBOXES + extra \<and>
     (\<forall>r. run_mail_ok extra (rb_nextOrder s) (mailbox_of s r) (claims_of s r) \<and> jm_get (rb_claims s) r \<noteq> Some [] \<and>
        (jm_get (rb_claims s) r \<noteq> None \<longrightarrow> jm_get (rb_runEvents s) r \<noteq> None) \<and>
        (jm_get (rb_runEvents s) r = Some [] \<longrightarrow> jm_get (rb_claims s) r \<noteq> None))"

definition event_held :: "'p run_backend \<Rightarrow> string \<Rightarrow> 'p run_event \<Rightarrow> bool" where
  "event_held s r e \<longleftrightarrow> e \<in> set (mailbox_of s r) \<or> e \<in> set (claimed_events (claims_of s r))"

lemma distinct_sub:
  assumes "mset xs \<subseteq># mset ys" "distinct (map f ys)"
  shows "distinct (map f xs)"
proof -
  obtain zs where "mset ys = mset (xs @ zs)" using assms(1) by (metis ex_mset mset_append subset_mset.add_diff_inverse)
  then have "mset (map f ys) = mset (map f (xs @ zs))" by (metis mset_map)
  then show ?thesis using assms(2) by (metis distinct_append map_append mset_eq_imp_distinct_iff)
qed

lemma run_mail_ok_parts:
  assumes "run_mail_ok extra n mb cs"
  shows "sorted_wrt (\<lambda>a b. order_of a < order_of b) mb" "order_of ` set mb \<inter> order_of ` set (claimed_events cs) = {}"
    "jm_keys cs = map ev_id (claimed_events cs)" "jm_ok cs" "distinct (map ev_id (mb @ claimed_events cs))"
    "length mb + length cs \<le> MAX_WORKFLOW_RUN_EVENT_MAILBOX_ENTRIES + extra"
proof -
  from assms have "distinct (map order_of mb @ map order_of (claimed_events cs))" unfolding run_mail_ok_def by (metis map_append)
  then show "order_of ` set mb \<inter> order_of ` set (claimed_events cs) = {}" by (metis distinct_append list.set_map)
  from assms have d: "distinct (map ev_id mb @ map ev_id (claimed_events cs))" unfolding run_mail_ok_def by (metis map_append)
  from assms show keys: "jm_keys cs = map ev_id (claimed_events cs)" unfolding run_mail_ok_def by blast
  from d show "jm_ok cs" unfolding jm_ok_def keys by (metis distinct_append)
qed (use assms in \<open>simp_all only: run_mail_ok_def\<close>)

text \<open>Fewer events, or the same ones elsewhere.\<close>

lemma run_mail_ok_sub:
  assumes "run_mail_ok extra n mb cs" "mset (mb' @ claimed_events cs') \<subseteq># mset (mb @ claimed_events cs)"
    "sorted_wrt (\<lambda>a b. order_of a < order_of b) mb'" "jm_keys cs' = map ev_id (claimed_events cs')"
  shows "run_mail_ok extra n mb' cs'"
proof -
  have "length mb' + length cs' \<le> length mb + length cs"
    using size_mset_mono [OF assms(2)] by simp
  moreover have "set (mb' @ claimed_events cs') \<subseteq> set (mb @ claimed_events cs)"
    using set_mset_mono [OF assms(2)] by (simp only: set_mset_mset)
  ultimately show ?thesis using assms distinct_sub [OF assms(2), of order_of] distinct_sub [OF assms(2), of ev_id]
    unfolding run_mail_ok_def by (meson dual_order.trans subset_iff)
qed

lemma run_mail_ok_later: "run_mail_ok extra n mb cs \<Longrightarrow> n \<le> m \<Longrightarrow> run_mail_ok extra m mb cs"
  unfolding run_mail_ok_def using less_le_trans by blast

lemma run_mail_ok_Nil [simp]: "run_mail_ok extra n [] []"
  by (simp add: run_mail_ok_def)

lemma run_mail_ok_order:
  assumes "run_mail_ok extra n mb cs" "x \<in> set (mb @ claimed_events cs)"
  shows "ev_order x = Some (order_of x) \<and> order_of x < n"
proof -
  from assms obtain k where "ev_order x = Some k" "k < n" unfolding run_mail_ok_def by blast
  then show ?thesis by (simp add: order_of_def)
qed

lemma run_mail_ok_append:
  assumes "run_mail_ok extra n mb cs" "ev_order e = Some n" "ev_id e \<notin> set (map ev_id (mb @ claimed_events cs))"
    "length mb + length cs < MAX_WORKFLOW_RUN_EVENT_MAILBOX_ENTRIES"
  shows "run_mail_ok extra (Suc n) (mb @ [e]) cs"
proof -
  have small: "order_of x < n" if "x \<in> set (mb @ claimed_events cs)" for x
    using run_mail_ok_order [OF assms(1) that] by simp
  have o: "order_of e = n" by (simp add: order_of_def assms(2))
  then have "order_of e \<notin> order_of ` set (mb @ claimed_events cs)" using small by fastforce
  moreover have "sorted_wrt (\<lambda>a b. order_of a < order_of b) (mb @ [e])"
    using assms(1) small o by (simp add: run_mail_ok_def sorted_wrt_append)
  moreover have "\<forall>x \<in> set ((mb @ [e]) @ claimed_events cs). \<exists>k. ev_order x = Some k \<and> k < Suc n"
    using assms(1,2) unfolding run_mail_ok_def by (auto simp: less_Suc_eq)
  ultimately show ?thesis using assms(1,3,4) unfolding run_mail_ok_def by auto
qed

lemma run_mail_ok_more: "run_mail_ok extra n mb cs \<Longrightarrow> extra \<le> limit \<Longrightarrow> run_mail_ok limit n mb cs"
  unfolding run_mail_ok_def by (elim conjE, intro conjI; (assumption | linarith))

lemma mail_ok_more: "mail_ok extra s \<Longrightarrow> extra \<le> limit \<Longrightarrow> mail_ok limit s"
  unfolding mail_ok_def using run_mail_ok_more [of extra _ _ _ limit] by (meson add_le_mono order.refl order.trans)

lemma take_sorted:
  assumes "run_mail_ok extra n mb cs" "takeRetainedRunEvent mb name d = Some (e, rest)"
  shows "mset mb = add_mset e (mset rest)" "sorted_wrt (\<lambda>a b. order_of a < order_of b) rest"
proof -
  obtain b a where "mb = b @ e # a" "rest = b @ a" using take_event_Some [OF assms(2)] by blast
  with assms(1) show "mset mb = add_mset e (mset rest)" "sorted_wrt (\<lambda>a b. order_of a < order_of b) rest"
    by (auto simp: run_mail_ok_def sorted_wrt_append)
qed

lemma run_mail_ok_claim:
  assumes "run_mail_ok extra n mb cs" "takeRetainedRunEvent mb name d = Some (e, rest)" "dc_event c = e"
  shows "run_mail_ok extra n rest (jm_set (ev_id e) c cs)" "jm_set (ev_id e) c cs = cs @ [(ev_id e, c)]"
proof -
  note t = take_sorted [OF assms(1,2)]
  have "ev_id e \<notin> set (jm_keys cs)"
  proof
    assume "ev_id e \<in> set (jm_keys cs)"
    then have "ev_id e \<in> ev_id ` set (claimed_events cs)" using assms(1) unfolding run_mail_ok_def by (metis list.set_map)
    moreover have "e \<in> set mb" using t(1) by (metis set_mset_mset union_single_eq_member add_mset_add_single)
    ultimately show False using assms(1) unfolding run_mail_ok_def by auto
  qed
  then show new: "jm_set (ev_id e) c cs = cs @ [(ev_id e, c)]" by (rule jm_set_absent)
  show "run_mail_ok extra n rest (jm_set (ev_id e) c cs)"
    using assms t by (intro run_mail_ok_sub [OF assms(1)]) (auto simp: new run_mail_ok_def)
qed

lemma insert_by_order:
  assumes "sorted_wrt (\<lambda>a b. order_of a < order_of b) mb" "\<forall>x \<in> set (e # mb). ev_order x = Some (order_of x)"
    "order_of e \<notin> order_of ` set mb"
  shows "sorted_wrt (\<lambda>a b. order_of a < order_of b) (restoreRetainedRunEvent mb e)"
  using assms
proof (induction mb)
  case (Cons x xs)
  have "published_after x e \<longleftrightarrow> order_of e < order_of x" using Cons.prems(2) by (simp add: published_after_def)
  with Cons show ?case by (fastforce simp: restoreRetainedRunEvent_def)
qed (simp add: restoreRetainedRunEvent_def)

lemma claims_del_mset:
  assumes "run_mail_ok extra n mb cs" "jm_get cs k = Some c"
  shows "mset (claimed_events cs) = add_mset (dc_event c) (mset (claimed_events (jm_del k cs)))"
    "jm_keys (jm_del k cs) = map ev_id (claimed_events (jm_del k cs))" "ev_id (dc_event c) = k"
proof -
  note keys = run_mail_ok_parts(3) [OF assms(1)]
  have "jm_ok cs" by (rule run_mail_ok_parts(4) [OF assms(1)])
  then show "mset (claimed_events cs) = add_mset (dc_event c) (mset (claimed_events (jm_del k cs)))" using assms(2)
    by (induction cs) (auto simp: jm_ok_def delete_id split: if_splits)
  show "jm_keys (jm_del k cs) = map ev_id (claimed_events (jm_del k cs))" using keys
    by (induction cs) auto
  from assms(2) keys show "ev_id (dc_event c) = k" by (induction cs) (auto split: if_splits)
qed

lemma run_mail_ok_release: "run_mail_ok extra n mb cs \<Longrightarrow> run_mail_ok extra n mb (jm_del k cs)"
proof (cases "jm_get cs k")
  case None
  assume "run_mail_ok extra n mb cs"
  with None show ?thesis by (simp add: delete_id map_of_eq_None_iff)
next
  case (Some c)
  assume ok: "run_mail_ok extra n mb cs"
  show ?thesis using ok claims_del_mset [OF ok Some]
    by (intro run_mail_ok_sub [OF ok]) (auto simp: run_mail_ok_def)
qed

lemma run_mail_ok_restore:
  assumes "run_mail_ok extra n mb cs" "jm_get cs k = Some c"
  shows "run_mail_ok extra n (restoreRetainedRunEvent mb (dc_event c)) (jm_del k cs)"
proof -
  note d = claims_del_mset [OF assms]
  have e: "dc_event c \<in> set (claimed_events cs)" using d(1) by (metis set_mset_mset union_single_eq_member add_mset_add_single)
  have "order_of (dc_event c) \<notin> order_of ` set mb" using run_mail_ok_parts(2) [OF assms(1)] e by blast
  moreover have "\<forall>x \<in> set (dc_event c # mb). ev_order x = Some (order_of x)"
    using e run_mail_ok_order [OF assms(1)] by (metis Un_iff set_ConsD set_append)
  ultimately have sorted: "sorted_wrt (\<lambda>a b. order_of a < order_of b) (restoreRetainedRunEvent mb (dc_event c))"
    by (intro insert_by_order [OF run_mail_ok_parts(1) [OF assms(1)]])
  have "mset (restoreRetainedRunEvent mb (dc_event c) @ claimed_events (jm_del k cs)) \<subseteq># mset (mb @ claimed_events cs)"
    using d(1) by (simp add: restoreRetainedRunEvent_def)
  from run_mail_ok_sub [OF assms(1) this sorted d(2)] show ?thesis .
qed

subsection \<open>Steps\<close>

lemma mailbox_other: "jm_get (rb_runEvents s') r = jm_get (rb_runEvents s) r \<Longrightarrow> mailbox_of s' r = mailbox_of s r"
  by (simp add: mailbox_of_def)

lemma claims_other: "jm_get (rb_claims s') r = jm_get (rb_claims s) r \<Longrightarrow> claims_of s' r = claims_of s r"
  by (simp add: claims_of_def)

text \<open>A step that changes the mail of one run.\<close>

lemma mail_ok_change:
  assumes "mail_ok extra s" "jm_ok (rb_runEvents s')" "jm_ok (rb_claims s')"
    "length (rb_runEvents s') \<le> MAX_WORKFLOW_RUN_EVENT_MAILBOXES + extra"
    "\<And>q. q \<noteq> r \<Longrightarrow> jm_get (rb_runEvents s') q = jm_get (rb_runEvents s) q \<and> jm_get (rb_claims s') q = jm_get (rb_claims s) q"
    "rb_nextOrder s \<le> rb_nextOrder s'" "run_mail_ok extra (rb_nextOrder s') (mailbox_of s' r) (claims_of s' r)"
    "jm_get (rb_claims s') r \<noteq> Some []" "jm_get (rb_claims s') r \<noteq> None \<longrightarrow> jm_get (rb_runEvents s') r \<noteq> None"
    "jm_get (rb_runEvents s') r = Some [] \<longrightarrow> jm_get (rb_claims s') r \<noteq> None"
  shows "mail_ok extra s'"
proof -
  have "run_mail_ok extra (rb_nextOrder s') (mailbox_of s' q) (claims_of s' q) \<and> jm_get (rb_claims s') q \<noteq> Some [] \<and>
      (jm_get (rb_claims s') q \<noteq> None \<longrightarrow> jm_get (rb_runEvents s') q \<noteq> None) \<and>
      (jm_get (rb_runEvents s') q = Some [] \<longrightarrow> jm_get (rb_claims s') q \<noteq> None)" for q
  proof (cases "q = r")
    case True
    with assms(7-10) show ?thesis by simp
  next
    case False
    from assms(5) [OF False] assms(1,6) show ?thesis
      by (auto simp: mail_ok_def mailbox_other [of s' q s] claims_other [of s' q s] intro: run_mail_ok_later)
  qed
  with assms(2-4) show ?thesis by (simp add: mail_ok_def)
qed

text \<open>A step that does not touch mail.\<close>

definition same_mail :: "'p run_backend \<Rightarrow> 'p run_backend \<Rightarrow> bool" where
  "same_mail s s' \<longleftrightarrow> rb_runEvents s' = rb_runEvents s \<and> rb_claims s' = rb_claims s \<and> rb_nextOrder s' = rb_nextOrder s"

lemma same_mail_of: "same_mail s s' \<Longrightarrow> mailbox_of s' = mailbox_of s \<and> claims_of s' = claims_of s"
  by (auto simp: same_mail_def mailbox_of_def claims_of_def)

lemma same_mail_ok: "same_mail s s' \<Longrightarrow> mail_ok extra s' \<longleftrightarrow> mail_ok extra s"
  using same_mail_of [of s s'] by (simp add: mail_ok_def same_mail_def)

lemma same_mail_trans [trans]: "same_mail s t \<Longrightarrow> same_mail t u \<Longrightarrow> same_mail s u"
  by (simp add: same_mail_def)

lemma same_mail_refl [simp, intro]: "same_mail s s"
  by (simp add: same_mail_def)

lemma advance_mail [simp]:
  "rb_runEvents (advanceRunRetentionRevision r s) = rb_runEvents s"
  "rb_claims (advanceRunRetentionRevision r s) = rb_claims s"
  "rb_nextOrder (advanceRunRetentionRevision r s) = rb_nextOrder s"
  "rb_eventWaits (advanceRunRetentionRevision r s) = rb_eventWaits s"
  "rb_runs (advanceRunRetentionRevision r s) = rb_runs s"
  by (simp_all add: advanceRunRetentionRevision_def)

lemma publish_mail [simp]:
  "rb_runEvents (publishRunObservation r s) = rb_runEvents s"
  "rb_claims (publishRunObservation r s) = rb_claims s"
  "rb_nextOrder (publishRunObservation r s) = rb_nextOrder s"
  by (simp_all add: publishRunObservation_def)

lemma change_wait_mail [simp]:
  "rb_runEvents (change_wait r w f s) = rb_runEvents s"
  "rb_claims (change_wait r w f s) = rb_claims s"
  "rb_nextOrder (change_wait r w f s) = rb_nextOrder s"
  "rb_runs (change_wait r w f s) = rb_runs s"
  by (simp_all add: change_wait_def split: option.splits)

lemma fold_change_wait_mail:
  "same_mail s (fold (\<lambda>(i, c). change_wait r (g c) (f i c)) cs s)"
  by (induction cs arbitrary: s) (force simp: same_mail_def)+

lemma persist_mail [simp]: "same_mail s (persistRunEventDeliveryReceipts r s)"
  using fold_change_wait_mail by (auto simp: persistRunEventDeliveryReceipts_def split: option.splits)

lemma release_mail:
  "rb_runEvents (releaseRunEventClaim r k s) = rb_runEvents s"
  "rb_nextOrder (releaseRunEventClaim r k s) = rb_nextOrder s"
  "rb_eventWaits (releaseRunEventClaim r k s) = rb_eventWaits s"
  "claims_of (releaseRunEventClaim r k s) r = jm_del k (claims_of s r)"
  "jm_ok (rb_claims s) \<Longrightarrow> jm_ok (rb_claims (releaseRunEventClaim r k s))"
  "jm_get (rb_claims s) r \<noteq> Some [] \<Longrightarrow> jm_get (rb_claims (releaseRunEventClaim r k s)) r \<noteq> Some []"
  "jm_get (rb_claims (releaseRunEventClaim r k s)) r \<noteq> None \<Longrightarrow> jm_get (rb_claims s) r \<noteq> None"
  by (auto simp: releaseRunEventClaim_def claims_of_def jsmap_simps split: option.splits)

lemma release_other [simp]: "q \<noteq> r \<Longrightarrow> jm_get (rb_claims (releaseRunEventClaim r k s)) q = jm_get (rb_claims s) q"
  by (auto simp: releaseRunEventClaim_def jsmap_simps split: option.splits)

text \<open>The mail of a run is forgotten.\<close>

definition forgets :: "string \<Rightarrow> 'p run_backend \<Rightarrow> 'p run_backend \<Rightarrow> bool" where
  "forgets r s s' \<longleftrightarrow> rb_runEvents s' = jm_del r (rb_runEvents s) \<and> rb_claims s' = jm_del r (rb_claims s) \<and>
     rb_nextOrder s' = rb_nextOrder s"

lemma forgets_ok: "mail_ok extra s \<Longrightarrow> forgets r s s' \<Longrightarrow> mail_ok extra s'"
  using length_jm_del [of r "rb_runEvents s"]
  by (intro mail_ok_change [of extra s s' r])
    (auto simp: forgets_def mail_ok_def mailbox_of_def claims_of_def jsmap_simps)

lemma forgets_held: "forgets r s s' \<Longrightarrow> event_held s' q e \<longleftrightarrow> q \<noteq> r \<and> event_held s q e"
  by (auto simp: forgets_def event_held_def mailbox_of_def claims_of_def jsmap_simps)

lemma same_mail_held: "same_mail s s' \<Longrightarrow> event_held s' q e \<longleftrightarrow> event_held s q e"
  using same_mail_of [of s s'] by (simp add: event_held_def)

definition ends_mail :: "workflow_status option \<Rightarrow> bool" where
  "ends_mail st \<longleftrightarrow> st = Some RCompleted \<or> st = Some RCancelled"

lemma store_update_mail:
  "same_mail s (storeRunUpdate r run st s) \<or> (ends_mail st \<and> forgets r s (storeRunUpdate r run st s))"
proof -
  let ?s1 = "publishRunObservation r (s\<lparr>rb_runs := jm_set r run (rb_runs s)\<rparr>)"
  let ?s2 = "if st \<noteq> None \<and> st \<noteq> Some RRunning then ?s1\<lparr>rb_stalledClaims := jm_del r (rb_stalledClaims ?s1)\<rparr> else ?s1"
  have "same_mail s ?s2" by (simp add: same_mail_def)
  then show ?thesis using persist_mail [of ?s2 r]
    by (auto simp: storeRunUpdate_def Let_def ends_mail_def forgets_def same_mail_def)
qed

subsection \<open>Eviction and publication\<close>

lemma evict_spec:
  assumes "mail_ok extra s"
  shows "mail_ok extra (evict_mailboxes rs n s) \<and> rb_claims (evict_mailboxes rs n s) = rb_claims s \<and>
    rb_nextOrder (evict_mailboxes rs n s) = rb_nextOrder s \<and> rb_runs (evict_mailboxes rs n s) = rb_runs s \<and>
    (\<forall>q. jm_get (rb_runEvents (evict_mailboxes rs n s)) q = jm_get (rb_runEvents s) q \<or>
       (0 < n \<and> is_orphan s q \<and> jm_get (rb_runEvents (evict_mailboxes rs n s)) q = None))"
  using assms
proof (induction rs n s rule: evict_mailboxes.induct)
  case (2 r rs n s)
  let ?t = "s\<lparr>rb_runEvents := jm_del r (rb_runEvents s)\<rparr>"
  show ?case
  proof (cases "n \<noteq> 0 \<and> is_orphan s r")
    case True
    have none: "jm_get (rb_claims s) r = None"
      using 2(3) True by (auto simp: is_orphan_def mail_ok_def claims_of_def split: option.splits)
    have "mail_ok extra ?t" using 2(3) length_jm_del [of r "rb_runEvents s"] none
      by (intro mail_ok_change [of extra s ?t r]) (auto simp: mail_ok_def mailbox_of_def claims_of_def jsmap_simps)
    moreover have "is_orphan ?t q \<longleftrightarrow> is_orphan s q" for q by (simp add: is_orphan_def claims_of_def)
    ultimately have IH: "mail_ok extra (evict_mailboxes rs (n - 1) ?t)" "rb_claims (evict_mailboxes rs (n - 1) ?t) = rb_claims s"
      "rb_nextOrder (evict_mailboxes rs (n - 1) ?t) = rb_nextOrder s" "rb_runs (evict_mailboxes rs (n - 1) ?t) = rb_runs s"
      "\<And>q. jm_get (rb_runEvents (evict_mailboxes rs (n - 1) ?t)) q = jm_get (rb_runEvents ?t) q \<or>
        (is_orphan s q \<and> jm_get (rb_runEvents (evict_mailboxes rs (n - 1) ?t)) q = None)"
      using 2(1) True by simp_all (metis (no_types, lifting))
    have "jm_get (rb_runEvents (evict_mailboxes rs (n - 1) ?t)) q = jm_get (rb_runEvents s) q \<or>
        (0 < n \<and> is_orphan s q \<and> jm_get (rb_runEvents (evict_mailboxes rs (n - 1) ?t)) q = None)" for q
      using IH(5) [of q] True by (cases "q = r") (simp_all add: jsmap_simps)
    then show ?thesis using IH(1-4) True by simp
  next
    case False
    with 2 show ?thesis by auto
  qed
qed simp

lemma held_ids:
  "ev_id e \<notin> set (map ev_id (mailbox_of s r @ claimed_events (claims_of s r))) \<longleftrightarrow> (\<forall>x. event_held s r x \<longrightarrow> ev_id x \<noteq> ev_id e)"
  unfolding event_held_def by force

definition fresh_id :: "'p run_backend \<Rightarrow> string \<Rightarrow> 'p run_event \<Rightarrow> bool" where
  "fresh_id s r e \<longleftrightarrow> (\<forall>x. event_held s r x \<longrightarrow> ev_id x \<noteq> ev_id e)"

lemma append_to_mailbox_ok:
  assumes "mail_ok extra s" "fresh_id s r e" "append_to_mailbox r e s = (res, s')"
    "jm_get (rb_runEvents s) r = None \<Longrightarrow> length (rb_runEvents s) < MAX_WORKFLOW_RUN_EVENT_MAILBOXES"
  shows "mail_ok extra s' \<and> (\<forall>q x. event_held s q x \<longrightarrow> event_held s' q x) \<and>
    (\<forall>q x. event_held s' q x \<longrightarrow> event_held s q x \<or> (q = r \<and> res = Inr () \<and> x = e\<lparr>ev_order := Some (rb_nextOrder s)\<rparr>)) \<and>
    (res = Inr () \<longrightarrow> event_held s' r (e\<lparr>ev_order := Some (rb_nextOrder s)\<rparr>)) \<and> rb_nextOrder s \<le> rb_nextOrder s'"
proof (cases "MAX_WORKFLOW_RUN_EVENT_MAILBOX_ENTRIES \<le> length (mailbox_of s r) + length (claims_of s r)")
  case True
  with assms(3) have s': "s' = s\<lparr>rb_nextOrder := Suc (rb_nextOrder s)\<rparr>" "res \<noteq> Inr ()"
    by (auto simp: append_to_mailbox_def appendRetainedRunEvent_def)
  have "mail_ok extra s'" using assms(1)
    by (auto simp: s' mail_ok_def mailbox_of_def claims_of_def intro: run_mail_ok_later)
  with s' show ?thesis by (simp add: event_held_def mailbox_of_def claims_of_def)
next
  case False
  let ?e = "e\<lparr>ev_order := Some (rb_nextOrder s)\<rparr>"
  from False assms(3) have r: "res = Inr ()" "rb_runEvents s' = jm_set r (mailbox_of s r @ [?e]) (rb_runEvents s)"
    "rb_claims s' = rb_claims s" "rb_nextOrder s' = Suc (rb_nextOrder s)"
    by (auto simp: append_to_mailbox_def appendRetainedRunEvent_def Let_def)
  have of: "mailbox_of s' q = (if q = r then mailbox_of s r @ [?e] else mailbox_of s q)" "claims_of s' q = claims_of s q" for q
    by (simp_all add: mailbox_of_def claims_of_def r jsmap_simps)
  have "run_mail_ok extra (rb_nextOrder s) (mailbox_of s r) (claims_of s r)" using assms(1) by (simp add: mail_ok_def)
  then have "run_mail_ok extra (Suc (rb_nextOrder s)) (mailbox_of s r @ [?e]) (claims_of s r)"
    using assms(2) False by (intro run_mail_ok_append) (auto simp: fresh_id_def event_held_def)
  moreover have "length (rb_runEvents s') \<le> MAX_WORKFLOW_RUN_EVENT_MAILBOXES + extra"
    using assms(1,4) by (auto simp: r length_jm_set mail_ok_def map_of_eq_None_iff)
  ultimately have "mail_ok extra s'" using assms(1)
    by (intro mail_ok_change [of extra s s' r]) (auto simp: of r mail_ok_def jsmap_simps)
  then show ?thesis by (auto simp: event_held_def of r(1,4))
qed

text \<open>What takes an accepted event out of the backend.\<close>

definition consumes :: "'p backend_op \<Rightarrow> 'p run_backend \<Rightarrow> string \<Rightarrow> 'p run_event \<Rightarrow> bool" where
  "consumes op s r e =
     (case op of
        TakeEvent q n \<Rightarrow> q = r \<and> n = ev_eventName e
      | RemoveEvent q i \<Rightarrow> q = r \<and> i = ev_id e
      | FinalizeDelivery q i d \<Rightarrow> q = r \<and> i = ev_id e
      | UpdateRun q p st w f \<Rightarrow> q = r \<and> ends_mail (up_status p)
      | RestoreState q st p w \<Rightarrow> q = r \<and> ends_mail (ss_status p)
      | DeleteRun q \<Rightarrow> q = r
      | DeleteIfUnchanged c \<Rightarrow> rt_runId c = r
      | AppendEvent q x \<Rightarrow> q \<noteq> r \<and> is_orphan s r \<and> MAX_WORKFLOW_RUN_EVENT_MAILBOXES \<le> length (rb_runEvents s)
      | ClearAll \<Rightarrow> True
      | _ \<Rightarrow> False)"

text \<open>An event that is published has a new id. One that is put back is the one that is claimed under its id or, if none is, has
  an id and a place of its own.\<close>

definition op_fresh :: "'p backend_op \<Rightarrow> 'p run_backend \<Rightarrow> bool" where
  "op_fresh op s =
     (case op of
        AppendEvent r e \<Rightarrow> fresh_id s r e
      | RestoreEvent r e \<Rightarrow>
          (case jm_get (claims_of s r) (ev_id e) of
             Some c \<Rightarrow> dc_event c = e
           | None \<Rightarrow> fresh_id s r e \<and> (\<exists>n. ev_order e = Some n \<and> n < rb_nextOrder s) \<and>
               (\<forall>x. event_held s r x \<longrightarrow> order_of x \<noteq> order_of e))
      | _ \<Rightarrow> True)"

text \<open>The events that an operation puts back without a claim, for which no place was kept.\<close>

definition put_back_by :: "'p backend_op \<Rightarrow> 'p run_backend \<Rightarrow> nat" where
  "put_back_by op s =
     (case op of RestoreEvent r e \<Rightarrow> if jm_get (claims_of s r) (ev_id e) = None then 1 else 0 | _ \<Rightarrow> 0)"

text \<open>A good step: the invariant holds after it, what was held is held or was consumed, and what is held was held, or has
  just been published or put back.\<close>

definition good_step :: "nat \<Rightarrow> 'p backend_op \<Rightarrow> 'p run_backend \<Rightarrow> 'p run_backend \<Rightarrow> bool" where
  "good_step extra op s s' \<longleftrightarrow> mail_ok (extra + put_back_by op s) s' \<and> rb_nextOrder s \<le> rb_nextOrder s' \<and>
     (\<forall>q x. event_held s q x \<longrightarrow> event_held s' q x \<or> consumes op s q x) \<and>
     (\<forall>q x. event_held s' q x \<longrightarrow> event_held s q x \<or> op = RestoreEvent q x \<or>
        (\<exists>e. op = AppendEvent q e \<and> x = e\<lparr>ev_order := Some (rb_nextOrder s)\<rparr>))"

lemma good_stepI:
  assumes "mail_ok extra s'" "rb_nextOrder s \<le> rb_nextOrder s'" "\<And>q x. event_held s q x \<Longrightarrow> event_held s' q x \<or> consumes op s q x"
    "\<And>q x. event_held s' q x \<Longrightarrow> event_held s q x \<or> (\<exists>e. op = AppendEvent q e \<and> x = e\<lparr>ev_order := Some (rb_nextOrder s)\<rparr>)"
  shows "good_step extra op s s'"
  unfolding good_step_def
proof (intro conjI allI impI)
  show "mail_ok (extra + put_back_by op s) s'" by (rule mail_ok_more [OF assms(1)]) simp
qed (use assms(2-4) in blast)+

lemma good_same: "mail_ok extra s \<Longrightarrow> same_mail s s' \<Longrightarrow> good_step extra op s s'"
  using same_mail_ok [of s s' extra] same_mail_held [of s s'] by (intro good_stepI) (simp_all, simp add: same_mail_def)

lemma good_forgets: "mail_ok extra s \<Longrightarrow> forgets r s s' \<Longrightarrow> (\<And>x. consumes op s r x) \<Longrightarrow> good_step extra op s s'"
  using forgets_ok [of extra s r s'] forgets_held [of r s s'] by (intro good_stepI) (simp, simp add: forgets_def, blast+)

text \<open>A step on the mail of one run.\<close>

lemma good_change:
  assumes "mail_ok extra s" "jm_ok (rb_runEvents s')" "jm_ok (rb_claims s')"
    "length (rb_runEvents s') \<le> MAX_WORKFLOW_RUN_EVENT_MAILBOXES + extra"
    "\<And>q. q \<noteq> r \<Longrightarrow> jm_get (rb_runEvents s') q = jm_get (rb_runEvents s) q \<and> jm_get (rb_claims s') q = jm_get (rb_claims s) q"
    "rb_nextOrder s' = rb_nextOrder s" "run_mail_ok extra (rb_nextOrder s) (mailbox_of s' r) (claims_of s' r)"
    "jm_get (rb_claims s') r \<noteq> Some []" "jm_get (rb_claims s') r \<noteq> None \<longrightarrow> jm_get (rb_runEvents s') r \<noteq> None"
    "jm_get (rb_runEvents s') r = Some [] \<longrightarrow> jm_get (rb_claims s') r \<noteq> None"
    "\<And>x. event_held s r x \<Longrightarrow> event_held s' r x \<or> consumes op s r x" "\<And>x. event_held s' r x \<Longrightarrow> event_held s r x"
  shows "good_step extra op s s'"
proof -
  have "mail_ok extra s'" by (rule mail_ok_change [OF assms(1-5)]) (use assms(6-10) in auto)
  moreover have "event_held s' q x \<longleftrightarrow> event_held s q x" if "q \<noteq> r" for q x
    using assms(5) [OF that] by (simp add: event_held_def mailbox_of_def claims_of_def)
  ultimately show ?thesis using assms(6,11,12) by (intro good_stepI) (simp, simp, metis, metis)
qed

lemma good_append:
  assumes "mail_ok extra s" "fresh_id s r e"
  shows "good_step extra (AppendEvent r e) s (snd (appendRunEvent r e s))"
proof (cases "jm_get (rb_runEvents s) r = None")
  case False
  obtain res s' where a: "append_to_mailbox r e s = (res, s')" by fastforce
  have "snd (appendRunEvent r e s) = s'" using False a by (simp add: appendRunEvent_def)
  with append_to_mailbox_ok [OF assms a] False show ?thesis by (intro good_stepI) (metis, metis, metis, metis)
next
  case True
  let ?s1 = "evictOrphanRunEventMailboxes 1 s"
  let ?n = "length (rb_runEvents s) + 1 - MAX_WORKFLOW_RUN_EVENT_MAILBOXES"
  have ev: "mail_ok extra ?s1" "rb_claims ?s1 = rb_claims s"
    "\<And>q. jm_get (rb_runEvents ?s1) q = jm_get (rb_runEvents s) q \<or>
       (0 < ?n \<and> is_orphan s q \<and> jm_get (rb_runEvents ?s1) q = None)"
    "rb_nextOrder ?s1 = rb_nextOrder s"
    using evict_spec [OF assms(1), of "jm_keys (rb_runEvents s)" ?n] by (auto simp: evictOrphanRunEventMailboxes_def)
  have none: "jm_get (rb_runEvents ?s1) r = None" using ev(3) [of r] True by auto
  have full: "0 < ?n \<longleftrightarrow> MAX_WORKFLOW_RUN_EVENT_MAILBOXES \<le> length (rb_runEvents s)" by auto
  have held1: "event_held ?s1 q x \<or> consumes (AppendEvent r e) s q x" if h: "event_held s q x" for q x
  proof (cases "jm_get (rb_runEvents ?s1) q = jm_get (rb_runEvents s) q")
    case same: True
    with h ev(2) show ?thesis by (simp add: event_held_def mailbox_of_def claims_of_def)
  next
    case False
    with ev(3) [of q] True full show ?thesis by (cases "q = r") (auto simp: consumes_def)
  qed
  have held2: "event_held s q x" if "event_held ?s1 q x" for q x
    using that ev(3) [of q] ev(2) by (auto simp: event_held_def mailbox_of_def claims_of_def)
  have fresh1: "fresh_id ?s1 r e"
    using assms(2) True none ev(2) by (simp add: fresh_id_def event_held_def mailbox_of_def claims_of_def)
  show ?thesis
  proof (cases "MAX_WORKFLOW_RUN_EVENT_MAILBOXES \<le> length (rb_runEvents ?s1)")
    case True
    with ev(1) held1 held2 ev(4) \<open>jm_get (rb_runEvents s) r = None\<close> show ?thesis
      by (intro good_stepI) (simp_all add: appendRunEvent_def)
  next
    case False
    obtain res s' where a: "append_to_mailbox r e ?s1 = (res, s')" by fastforce
    have "snd (appendRunEvent r e s) = s'" using True False a by (simp add: appendRunEvent_def)
    with append_to_mailbox_ok [OF ev(1) fresh1 a] False held1 held2 ev(4) show ?thesis
      by (intro good_stepI) (metis not_less, metis not_less, metis not_less, metis not_less)
  qed
qed

subsection \<open>The other operations\<close>

lemma remove_first_spec:
  "\<exists>e \<in> set xs. P e \<Longrightarrow> \<exists>b x a. xs = b @ x # a \<and> remove_first P xs = b @ a \<and> P x"
proof (induction xs)
  case (Cons y ys)
  show ?case
  proof (cases "P y")
    case True
    then have "y # ys = [] @ y # ys \<and> remove_first P (y # ys) = [] @ ys \<and> P y" by simp
    then show ?thesis by blast
  next
    case False
    with Cons.prems have "\<exists>e \<in> set ys. P e" by auto
    from Cons.IH [OF this] obtain b x a where o: "ys = b @ x # a" "remove_first P ys = b @ a" "P x" by blast
    have r: "remove_first P (y # ys) = y # remove_first P ys" using False by simp
    have "y # ys = (y # b) @ x # a \<and> remove_first P (y # ys) = (y # b) @ a \<and> P x"
      unfolding r o(2) by (simp add: o(1,3))
    then show ?thesis by blast
  qed
qed simp

lemma drop_empty_claims [simp]:
  "rb_claims (deleteEmptyRunEventMailbox r mb s) = rb_claims s"
  "rb_nextOrder (deleteEmptyRunEventMailbox r mb s) = rb_nextOrder s"
  by (auto simp: deleteEmptyRunEventMailbox_def)

lemma drop_empty_mail:
  "q \<noteq> r \<Longrightarrow> jm_get (rb_runEvents (deleteEmptyRunEventMailbox r mb s)) q = jm_get (rb_runEvents s) q"
  "jm_get (rb_runEvents (deleteEmptyRunEventMailbox r mb s)) r =
     (if mb \<noteq> [] \<or> claims_of s r \<noteq> [] then jm_get (rb_runEvents s) r else None)"
  "jm_ok (rb_runEvents s) \<Longrightarrow> jm_ok (rb_runEvents (deleteEmptyRunEventMailbox r mb s))"
  "length (rb_runEvents (deleteEmptyRunEventMailbox r mb s)) \<le> length (rb_runEvents s)"
  by (auto simp: deleteEmptyRunEventMailbox_def jsmap_simps length_jm_del)

lemma mail_ok_run:
  assumes "mail_ok extra s"
  shows "run_mail_ok extra (rb_nextOrder s) (mailbox_of s r) (claims_of s r)" "jm_get (rb_claims s) r \<noteq> Some []"
    "jm_get (rb_claims s) r \<noteq> None \<Longrightarrow> jm_get (rb_runEvents s) r \<noteq> None"
    "jm_get (rb_runEvents s) r = Some [] \<Longrightarrow> jm_get (rb_claims s) r \<noteq> None"
  using assms unfolding mail_ok_def by blast+

lemma mail_ok_maps:
  assumes "mail_ok extra s"
  shows "jm_ok (rb_runEvents s)" "jm_ok (rb_claims s)" "length (rb_runEvents s) \<le> MAX_WORKFLOW_RUN_EVENT_MAILBOXES + extra"
  using assms unfolding mail_ok_def by blast+

text \<open>One event leaves the mailbox of a run.\<close>

lemma good_without:
  assumes "mail_ok extra s" "jm_get (rb_runEvents s) r = Some (b @ x # a)" "\<And>y. y = x \<Longrightarrow> consumes op s r y"
    "s' = advanceRunRetentionRevision r (deleteEmptyRunEventMailbox r (b @ a) (s\<lparr>rb_runEvents := jm_set r (b @ a) (rb_runEvents s)\<rparr>))"
  shows "good_step extra op s s'"
proof -
  let ?t = "s\<lparr>rb_runEvents := jm_set r (b @ a) (rb_runEvents s)\<rparr>"
  have cl: "claims_of ?t r = claims_of s r" by (simp add: claims_of_def)
  have mb: "mailbox_of s r = b @ x # a" by (simp add: mailbox_of_def assms(2))
  have ev: "rb_claims s' = rb_claims s" "rb_nextOrder s' = rb_nextOrder s"
    "\<And>q. q \<noteq> r \<Longrightarrow> jm_get (rb_runEvents s') q = jm_get (rb_runEvents s) q"
    "jm_get (rb_runEvents s') r = (if b @ a \<noteq> [] \<or> claims_of s r \<noteq> [] then Some (b @ a) else None)"
    using drop_empty_mail(1) [of _ r "b @ a" ?t] drop_empty_mail(2) [of r "b @ a" ?t] cl
    by (simp_all add: assms(4) jsmap_simps)
  have of: "mailbox_of s' r = b @ a" "claims_of s' r = claims_of s r"
    by (simp_all add: mailbox_of_def claims_of_def ev)
  note ok = mail_ok_run [OF assms(1), of r] mail_ok_maps [OF assms(1)]
  have "length (rb_runEvents ?t) = length (rb_runEvents s)"
    using length_jm_set_old [OF assms(2)] by simp
  then have len: "length (rb_runEvents s') \<le> MAX_WORKFLOW_RUN_EVENT_MAILBOXES + extra"
    using ok(7) drop_empty_mail(4) [of r "b @ a" ?t] by (simp add: assms(4))
  have "run_mail_ok extra (rb_nextOrder s) (b @ a) (claims_of s r)"
    using run_mail_ok_parts(1,3) [OF ok(1)] by (intro run_mail_ok_sub [OF ok(1)]) (auto simp: mb sorted_wrt_append)
  moreover have "jm_ok (rb_runEvents s')" using ok(5) drop_empty_mail(3) [of ?t r "b @ a"] by (simp add: assms(4))
  ultimately show ?thesis
    by (intro good_change [OF assms(1), of s' r])
      (use ok ev of len assms(3) in \<open>auto simp: event_held_def mb claims_of_def split: if_splits option.splits\<close>)
qed

lemma good_remove: "mail_ok extra s \<Longrightarrow> good_step extra (RemoveEvent r i) s (snd (removeRunEvent r i s))"
proof (cases "jm_get (rb_runEvents s) r")
  case (Some mb)
  assume ok: "mail_ok extra s"
  show ?thesis
  proof (cases "\<exists>e \<in> set mb. ev_id e = i")
    case True
    from remove_first_spec [OF True] obtain b x a where
      m: "mb = b @ x # a" "remove_first (\<lambda>e. ev_id e = i) mb = b @ a" "ev_id x = i" by blast
    show ?thesis using True Some m(2)
      by (intro good_without [OF ok Some [unfolded m(1)]]) (auto simp: removeRunEvent_def Let_def consumes_def m(3))
  qed (use ok Some in \<open>simp add: removeRunEvent_def good_same\<close>)
qed (simp add: removeRunEvent_def good_same)

lemma good_take: "mail_ok extra s \<Longrightarrow> good_step extra (TakeEvent r n) s (snd (takeRunEvent r n s))"
proof (cases "jm_get (rb_runEvents s) r")
  case (Some mb)
  assume ok: "mail_ok extra s"
  show ?thesis
  proof (cases "takeRetainedRunEvent mb n None")
    case None
    have "mb \<noteq> [] \<or> claims_of s r \<noteq> []"
      using mail_ok_run(2,4) [OF ok, of r] Some by (auto simp: claims_of_def split: option.splits)
    then have "deleteEmptyRunEventMailbox r mb s = s" by (simp add: deleteEmptyRunEventMailbox_def)
    with ok None Some show ?thesis by (simp add: takeRunEvent_def good_same)
  next
    case (Some y)
    obtain x rest where y: "y = (x, rest)" by fastforce
    from take_event_Some [OF Some [unfolded y]] obtain b a where
      m: "mb = b @ x # a" "rest = b @ a" "event_matches n None x" by blast
    show ?thesis using Some \<open>jm_get (rb_runEvents s) r = Some mb\<close> m y
      by (intro good_without [OF ok, of r b x a]) (auto simp: takeRunEvent_def consumes_def event_matches_def)
  qed
qed (simp add: takeRunEvent_def good_same)

lemma good_claim: "mail_ok extra s \<Longrightarrow> good_step extra (ClaimEvent r w n d t) s (snd (claimRunEventForWait r w n d t s))"
proof -
  assume ok: "mail_ok extra s"
  show ?thesis
  proof (cases "fst (claimRunEventForWait r w n d t s)")
    case None
    then have "snd (claimRunEventForWait r w n d t s) = s"
      by (auto simp: claimRunEventForWait_def Let_def split: option.splits if_splits prod.splits)
    with ok show ?thesis by (simp add: good_same)
  next
    case (Some e)
    then obtain v mb rest where c: "jm_get (rb_runEvents s) r = Some mb" "takeRetainedRunEvent mb n d = Some (e, rest)"
        "dc_event v = e"
      and s': "rb_runEvents (snd (claimRunEventForWait r w n d t s)) = jm_set r rest (rb_runEvents s)"
        "rb_claims (snd (claimRunEventForWait r w n d t s)) = jm_set r (jm_set (ev_id e) v (claims_of s r)) (rb_claims s)"
        "rb_nextOrder (snd (claimRunEventForWait r w n d t s)) = rb_nextOrder s"
      by (auto simp: claimRunEventForWait_def Let_def split: option.splits if_splits prod.splits)
        (metis delivery_claim.select_convs(2))
    let ?s' = "snd (claimRunEventForWait r w n d t s)"
    note inv = mail_ok_run [OF ok, of r] mail_ok_maps [OF ok]
    have mb: "mailbox_of s r = mb" by (simp add: mailbox_of_def c(1))
    note run = run_mail_ok_claim [OF inv(1) [unfolded mb] c(2,3)]
    have of: "mailbox_of ?s' r = rest" "claims_of ?s' r = claims_of s r @ [(ev_id e, v)]"
      by (simp_all add: mailbox_of_def claims_of_def s' jsmap_simps) (simp add: run(2) flip: claims_of_def)
    have ms: "mset mb = add_mset e (mset rest)" by (rule take_sorted(1) [OF inv(1) [unfolded mb] c(2)])
    have held: "event_held ?s' r x" if "event_held s r x" for x
      using that ms c(3) unfolding event_held_def of mb by (auto dest: arg_cong [of _ _ set_mset])
    have held2: "event_held s r x" if "event_held ?s' r x" for x
      using that ms c(3) unfolding event_held_def of mb by (auto dest: arg_cong [of _ _ set_mset])
    show ?thesis
      by (rule good_change [OF ok, of ?s' r])
        (use inv of run held held2 length_jm_set_old [OF c(1), of rest] in \<open>auto simp: s' jsmap_simps\<close>)
  qed
qed

lemma good_reserve: "mail_ok extra s \<Longrightarrow> good_step extra (ReserveClaim r w i t b) s (snd (reserveRunEventDeliveryClaim r w i t b s))"
proof -
  assume ok: "mail_ok extra s"
  let ?s' = "snd (reserveRunEventDeliveryClaim r w i t b s)"
  show ?thesis
  proof (cases "fst (reserveRunEventDeliveryClaim r w i t b s)")
    case False
    then have "?s' = s" by (auto simp: reserveRunEventDeliveryClaim_def Let_def split: option.splits if_splits)
    with ok show ?thesis by (simp add: good_same)
  next
    case True
    then obtain c where c: "jm_get (claims_of s r) i = Some c" "ew_id (dc_wait c) = w"
        "\<not> lease_held (ew_recoveryClaimedAt (dc_wait c)) b"
      by (auto simp: reserveRunEventDeliveryClaim_def split: option.splits if_splits)
    define v where "v = c\<lparr>dc_wait := (dc_wait c)\<lparr>ew_recoveryClaimedAt := Some t\<rparr>\<rparr>"
    have s': "rb_runEvents ?s' = rb_runEvents s" "rb_nextOrder ?s' = rb_nextOrder s"
        "rb_claims ?s' = jm_set r (jm_set i v (claims_of s r)) (rb_claims s)" and v: "dc_event v = dc_event c"
      using c by (simp_all add: reserveRunEventDeliveryClaim_def Let_def v_def)
    note inv = mail_ok_run [OF ok, of r] mail_ok_maps [OF ok]
    have "jm_keys (jm_set i v cs) = jm_keys cs \<and> claimed_events (jm_set i v cs) = claimed_events cs"
      if "jm_get cs i = Some c" for cs
      using that v by (induction cs) (auto split: if_splits)
    with c(1) have keys: "jm_keys (jm_set i v (claims_of s r)) = jm_keys (claims_of s r)"
      "claimed_events (jm_set i v (claims_of s r)) = claimed_events (claims_of s r)" by blast+
    then have "length (jm_set i v (claims_of s r)) = length (claims_of s r)" by (metis length_map)
    with inv(1) keys have run: "run_mail_ok extra (rb_nextOrder s) (mailbox_of s r) (jm_set i v (claims_of s r))"
      unfolding run_mail_ok_def by presburger
    have of: "mailbox_of ?s' r = mailbox_of s r" "claims_of ?s' r = jm_set i v (claims_of s r)"
      by (simp_all add: mailbox_of_def claims_of_def s' jsmap_simps)
    have "jm_get (rb_claims s) r \<noteq> None" using c(1) by (auto simp: claims_of_def split: option.splits)
    then show ?thesis
      by (intro good_change [OF ok, of ?s' r])
        (use inv of run keys in \<open>auto simp: s' jsmap_simps event_held_def\<close>)
  qed
qed

text \<open>The event of a claim goes back to the mailbox.\<close>

lemma good_give_back:
  assumes ok: "mail_ok extra s" and c: "jm_get (claims_of s r) i = Some c" and s1: "same_mail s s1"
    and st: "s' = advanceRunRetentionRevision r (releaseRunEventClaim r i
      (s1\<lparr>rb_runEvents := jm_set r (restoreRetainedRunEvent (mailbox_of s r) (dc_event c)) (rb_runEvents s1)\<rparr>))"
  shows "good_step extra op s s'"
proof -
  let ?mb = "restoreRetainedRunEvent (mailbox_of s r) (dc_event c)"
  let ?s2 = "s1\<lparr>rb_runEvents := jm_set r ?mb (rb_runEvents s1)\<rparr>"
  have s2: "rb_runEvents ?s2 = jm_set r ?mb (rb_runEvents s)" "rb_claims ?s2 = rb_claims s" "rb_nextOrder ?s2 = rb_nextOrder s"
    using s1 by (simp_all add: same_mail_def)
  then have cl2: "claims_of ?s2 r = claims_of s r" by (simp add: claims_of_def)
  note inv = mail_ok_run [OF ok, of r] mail_ok_maps [OF ok]
  have some: "jm_get (rb_claims s) r \<noteq> None" using c by (auto simp: claims_of_def split: option.splits)
  then obtain old where old: "jm_get (rb_runEvents s) r = Some old" using inv(3) by blast
  have of: "mailbox_of s' r = ?mb" "claims_of s' r = jm_del i (claims_of s r)"
    using release_mail(1) [of r i ?s2] release_mail(4) [of r i ?s2] s2(1) cl2
    by (simp_all add: st mailbox_of_def claims_of_def jsmap_simps)
  have ms: "mset (claimed_events (claims_of s r)) = add_mset (dc_event c) (mset (claimed_events (jm_del i (claims_of s r))))"
    by (rule claims_del_mset(1) [OF inv(1) c])
  have held: "event_held s' r x" if "event_held s r x" for x
  proof -
    have "x \<in> set (mailbox_of s r) \<or> x = dc_event c \<or> x \<in> set (claimed_events (jm_del i (claims_of s r)))"
      using that arg_cong [OF ms, of set_mset] by (auto simp: event_held_def)
    then show ?thesis unfolding event_held_def of restoreRetainedRunEvent_def insert_before_set by blast
  qed
  have held2: "event_held s r x" if "event_held s' r x" for x
    using that arg_cong [OF ms, of set_mset] unfolding event_held_def of restoreRetainedRunEvent_def insert_before_set by auto
  have nonempty: "insert_before (\<lambda>ca. published_after ca (dc_event c)) (dc_event c) (mailbox_of s r) \<noteq> []"
    by (metis insert_before_length length_0_conv nat.distinct(1))
  have len: "length (jm_set r ?mb (rb_runEvents s)) = length (rb_runEvents s)" by (rule length_jm_set_old [OF old])
  show ?thesis
    by (rule good_change [OF ok, of s' r])
      (use inv of held held2 len some nonempty s2 run_mail_ok_restore [OF inv(1) c] in
        \<open>auto simp: st jsmap_simps restoreRetainedRunEvent_def release_mail(1-6)\<close>)
qed

lemma good_restore: "mail_ok extra s \<Longrightarrow> good_step extra (RestoreDelivery r w e) s (snd (restoreRunEventDelivery r w e s))"
proof (cases "\<exists>c. jm_get (claims_of s r) (ev_id e) = Some c \<and> ew_id (dc_wait c) = w")
  case False
  assume ok: "mail_ok extra s"
  from False have "snd (restoreRunEventDelivery r w e s) = s" by (auto simp: restoreRunEventDelivery_def split: option.splits)
  with ok show ?thesis by (simp add: good_same)
next
  case True
  then obtain c where c: "jm_get (claims_of s r) (ev_id e) = Some c" "ew_id (dc_wait c) = w" by blast
  assume ok: "mail_ok extra s"
  let ?s1 = "if case wait_with s r w of None \<Rightarrow> False | Some w \<Rightarrow> is_restorable w then change_wait r w pending_again s else s"
  have "same_mail s ?s1" by (simp add: same_mail_def)
  moreover from same_mail_of [OF this] have "mailbox_of ?s1 r = mailbox_of s r" by simp
  ultimately show ?thesis using c
    by (intro good_give_back [OF ok c(1), of ?s1]) (auto simp: restoreRunEventDelivery_def Let_def)
qed

text \<open>An event goes back that no wait had claimed: there is one more.\<close>

lemma run_mail_ok_put_back:
  assumes "run_mail_ok extra n mb cs" "ev_order e = Some k" "k < n" "ev_id e \<notin> set (map ev_id (mb @ claimed_events cs))"
    "order_of e \<notin> set (map order_of (mb @ claimed_events cs))"
  shows "run_mail_ok (Suc extra) n (restoreRetainedRunEvent mb e) cs"
proof -
  have sub: "mset (restoreRetainedRunEvent mb e @ claimed_events cs) \<subseteq># mset (e # mb @ claimed_events cs)"
    by (simp add: restoreRetainedRunEvent_def)
  have "distinct (map order_of (e # mb @ claimed_events cs))" "distinct (map ev_id (e # mb @ claimed_events cs))"
    using assms(1,4,5) unfolding run_mail_ok_def by simp_all
  note d = distinct_sub [OF sub this(1)] distinct_sub [OF sub this(2)]
  have o: "\<forall>x \<in> set (e # mb). ev_order x = Some (order_of x)"
    using assms(2) run_mail_ok_order [OF assms(1)] by (auto simp: order_of_def)
  have sorted: "sorted_wrt (\<lambda>a b. order_of a < order_of b) (restoreRetainedRunEvent mb e)"
    by (rule insert_by_order [OF run_mail_ok_parts(1) [OF assms(1)] o]) (use assms(5) in auto)
  have "\<forall>x \<in> set (restoreRetainedRunEvent mb e @ claimed_events cs). \<exists>m. ev_order x = Some m \<and> m < n"
    using assms(1-3) unfolding run_mail_ok_def restoreRetainedRunEvent_def by auto
  with d sorted run_mail_ok_parts(3,6) [OF assms(1)] show ?thesis
    unfolding run_mail_ok_def by (simp add: restoreRetainedRunEvent_def)
qed

lemma good_put_back:
  assumes ok: "mail_ok extra s" and new: "op_fresh (RestoreEvent r e) s"
  shows "good_step extra (RestoreEvent r e) s (restoreRunEvent r e s)"
proof (cases "jm_get (claims_of s r) (ev_id e)")
  case (Some c)
  with new have "dc_event c = e" by (simp add: op_fresh_def)
  with Some show ?thesis by (intro good_give_back [OF ok Some same_mail_refl]) (simp add: restoreRunEvent_def)
next
  case None
  let ?s' = "restoreRunEvent r e s"
  let ?mb = "restoreRetainedRunEvent (mailbox_of s r) e"
  let ?s1 = "s\<lparr>rb_runEvents := jm_set r ?mb (rb_runEvents s)\<rparr>"
  note inv = mail_ok_run [OF ok, of r] mail_ok_maps [OF ok]
  have of: "rb_runEvents ?s' = jm_set r ?mb (rb_runEvents s)" "rb_nextOrder ?s' = rb_nextOrder s"
    by (simp_all add: restoreRunEvent_def release_mail(1,2))
  have "jm_del (ev_id e) (claims_of s r) = claims_of s r" using None by (simp add: map_of_eq_None_iff delete_id)
  then have cl: "jm_get (rb_claims ?s') q = jm_get (rb_claims s) q" for q
    using inv(2) by (cases "q = r") (auto simp: restoreRunEvent_def releaseRunEventClaim_def claims_of_def jsmap_simps split: option.split)
  have cls: "claims_of ?s' q = claims_of s q" for q by (simp add: claims_of_def cl)
  have mb: "mailbox_of ?s' q = (if q = r then ?mb else mailbox_of s q)" for q
    by (simp add: mailbox_of_def of jsmap_simps)
  have nonempty: "?mb \<noteq> []" unfolding restoreRetainedRunEvent_def by (metis insert_before_length length_0_conv nat.distinct(1))
  from new None obtain k where k: "ev_order e = Some k" "k < rb_nextOrder s" "fresh_id s r e"
    "\<forall>x. event_held s r x \<longrightarrow> order_of x \<noteq> order_of e" by (auto simp: op_fresh_def)
  have "run_mail_ok (Suc extra) (rb_nextOrder s) ?mb (claims_of s r)"
    by (rule run_mail_ok_put_back [OF inv(1) k(1,2)]) (use k(3,4) in \<open>auto simp: fresh_id_def event_held_def\<close>)
  moreover have "length (rb_runEvents ?s') \<le> MAX_WORKFLOW_RUN_EVENT_MAILBOXES + Suc extra"
    using inv(7) by (simp add: of length_jm_set)
  moreover have "jm_ok (rb_runEvents ?s')" unfolding of(1) using inv(5) by simp
  moreover have "jm_ok (rb_claims ?s')" using release_mail(5) [of ?s1 r "ev_id e"] inv(6) by (simp add: restoreRunEvent_def)
  ultimately have "mail_ok (Suc extra) ?s'" using inv(2) nonempty
    by (intro mail_ok_change [OF mail_ok_more [OF ok], of "Suc extra" ?s' r]) (simp_all add: of cl cls mb jsmap_simps)
  moreover have "event_held ?s' q x \<longleftrightarrow> event_held s q x \<or> (q = r \<and> x = e)" for q x
    by (auto simp: event_held_def mb cls restoreRetainedRunEvent_def)
  ultimately show ?thesis using None of(2) unfolding good_step_def by (simp add: put_back_by_def)
qed

lemma good_finalize: "mail_ok extra s \<Longrightarrow> good_step extra (FinalizeDelivery r i d) s (finalizeRunEventDelivery r i d s)"
proof -
  assume ok: "mail_ok extra s"
  let ?s' = "finalizeRunEventDelivery r i d s"
  define s1 where "s1 = (case jm_get (claims_of s r) i of None \<Rightarrow> s
    | Some c \<Rightarrow> advanceRunRetentionRevision r (change_wait r (ew_id (dc_wait c))
        (\<lambda>w. if d then (unclaimed w)\<lparr>ew_deliveredEventId := Some i\<rparr> else unclaimed w) s))"
  define s2 where "s2 = releaseRunEventClaim r i s1"
  have s1: "rb_runEvents s1 = rb_runEvents s" "rb_claims s1 = rb_claims s" "rb_nextOrder s1 = rb_nextOrder s"
    by (simp_all add: s1_def split: option.splits)
  have st: "?s' = (case jm_get (rb_runEvents s2) r of None \<Rightarrow> s2 | Some mb \<Rightarrow> deleteEmptyRunEventMailbox r mb s2)"
    by (simp only: finalizeRunEventDelivery_def Let_def s1_def s2_def)
  have s2: "rb_runEvents s2 = rb_runEvents s" "rb_nextOrder s2 = rb_nextOrder s"
    using s1 by (simp_all add: s2_def release_mail(1,2))
  have "claims_of s1 r = claims_of s r" by (simp only: claims_of_def s1(2))
  then have cl2: "claims_of s2 r = jm_del i (claims_of s r)" by (simp add: s2_def release_mail(4))
  note inv = mail_ok_run [OF ok, of r] mail_ok_maps [OF ok]
  have claims: "rb_claims ?s' = rb_claims s2" "rb_nextOrder ?s' = rb_nextOrder s"
    by (simp_all add: st s2 split: option.split)
  then have cl: "claims_of ?s' r = jm_del i (claims_of s r)" using cl2 by (simp add: claims_of_def)
  have events: "\<And>q. q \<noteq> r \<Longrightarrow> jm_get (rb_runEvents ?s') q = jm_get (rb_runEvents s) q" "jm_ok (rb_runEvents ?s')"
    "length (rb_runEvents ?s') \<le> MAX_WORKFLOW_RUN_EVENT_MAILBOXES + extra"
    using inv(5,7) s2(1)
    by (auto simp: st drop_empty_mail(1,3) split: option.split intro: order.trans [OF drop_empty_mail(4)])
  have mine: "jm_get (rb_runEvents ?s') r =
      (if jm_get (rb_runEvents s) r = Some [] \<and> jm_del i (claims_of s r) = [] then None else jm_get (rb_runEvents s) r)"
    by (simp add: st s2(1) drop_empty_mail(2) cl2 split: option.split)
  then have mb: "mailbox_of ?s' r = mailbox_of s r" by (simp add: mailbox_of_def)
  have none: "jm_get (rb_claims ?s') r = None \<longleftrightarrow> jm_del i (claims_of s r) = []" and ne: "jm_get (rb_claims ?s') r \<noteq> Some []"
    using cl2 inv(2) s1(2) by (auto simp: claims(1) s2_def releaseRunEventClaim_def claims_of_def jsmap_simps split: option.splits)
  have held: "event_held ?s' r x \<or> consumes (FinalizeDelivery r i d) s r x" if "event_held s r x" for x
  proof (cases "jm_get (claims_of s r) i")
    case None
    then have "jm_del i (claims_of s r) = claims_of s r" by (simp add: map_of_eq_None_iff delete_id)
    with that show ?thesis by (simp add: event_held_def mb cl)
  next
    case (Some c)
    have "x \<in> set (mailbox_of s r) \<or> x = dc_event c \<or> x \<in> set (claimed_events (jm_del i (claims_of s r)))"
      using that arg_cong [OF claims_del_mset(1) [OF inv(1) Some], of set_mset] by (auto simp: event_held_def)
    then show ?thesis using claims_del_mset(3) [OF inv(1) Some] by (auto simp: event_held_def mb cl consumes_def)
  qed
  have held2: "event_held s r x" if "event_held ?s' r x" for x
  proof -
    have "set (claimed_events (jm_del i cs)) \<subseteq> set (claimed_events cs)" for cs :: "(string \<times> 'a delivery_claim) list"
      by (auto simp: jm_del_ok_iff)
    with that show ?thesis unfolding event_held_def mb cl by blast
  qed
  have "jm_ok (rb_claims ?s')" using release_mail(5) [of s1 r i] inv(6) s1(2) by (simp add: claims(1) s2_def)
  then show ?thesis
    by (intro good_change [OF ok, of ?s' r])
      (use inv run_mail_ok_release [OF inv(1)] events mine mb cl none ne held held2 claims s1(2) s2_def in
        \<open>auto simp: claims_of_def split: option.splits if_splits\<close>)
qed

lemma enqueue_mail: "same_mail s (snd (enqueue_item q s))"
  by (simp add: enqueue_item_def same_mail_def)

lemma acknowledge_mail: "same_mail s (acknowledge_item r s)"
  by (simp add: acknowledge_item_def Let_def same_mail_def)

lemma nack_mail: "same_mail s (snd (nack_item r t s))"
proof -
  obtain x s1 where q: "requeueRun r t s = (x, s1)" by fastforce
  have "same_mail s (snd (requeueRun r t s))"
    by (simp add: requeueRun_def enqueue_mail split: option.split)
  with q have "same_mail s s1" by simp
  then show ?thesis using same_mail_trans [OF _ acknowledge_mail] by (cases x) (simp_all add: nack_item_def q)
qed

lemma store_wait_mail: "same_mail s (snd (store_wait r w s))"
  by (simp add: store_wait_def same_mail_def split: sum.splits)

lemma wait_mail:
  "same_mail s (snd (savePendingEventWait r w s))"
  "same_mail s (snd (savePendingEventWaitIfStatusAndWorker r st wk w s))"
  "same_mail s (snd (resolvePendingEventWait r i status b t s))"
  "same_mail s (snd (restorePendingEventWait r i s))"
  "same_mail s (snd (reserveTimedEventWaitClaim r i t u s))"
  "same_mail s (finalizeTimedEventWaitClaim r i s)"
  using store_wait_mail [of s r w]
  by (auto simp: savePendingEventWait_def savePendingEventWaitIfStatusAndWorker_def resolvePendingEventWait_def
      restorePendingEventWait_def reserveTimedEventWaitClaim_def finalizeTimedEventWaitClaim_def same_mail_def Let_def
      split: option.splits prod.splits sum.splits)

lemma plain_mail:
  "same_mail s (createRun run s)" "same_mail s (snd (dequeue_item s))" "same_mail s (snd (acquireLock r d i t s))"
  "same_mail s (releaseLock r j s)" "same_mail s (snd (extendLock r d j t s))" "same_mail s (snd (claimStalledRun r w d t s))"
  by (auto simp: createRun_def dequeue_item_def acquireLock_def releaseLock_def extendLock_def claimStalledRun_def same_mail_def
      Let_def split: option.splits list.splits)

lemma delete_forgets: "forgets r s (deleteRunState r s)"
  by (simp add: forgets_def deleteRunState_def)

lemma good_update:
  assumes "mail_ok extra s" "s' = s \<or> (\<exists>run. s' = storeRunUpdate r run st s)" "\<And>x. ends_mail st \<Longrightarrow> consumes op s r x"
  shows "good_step extra op s s'"
  using assms store_update_mail [of s r _ st] good_same [OF assms(1)] good_forgets [OF assms(1)]
  by (metis same_mail_refl)

lemma good_clear: "good_step extra ClearAll s (clear_backend s)"
  by (auto simp: good_step_def consumes_def put_back_by_def mail_ok_def clear_backend_def empty_backend_def mailbox_of_def claims_of_def event_held_def)

theorem step_is_good:
  assumes "mail_ok extra s" "op_fresh op s"
  shows "good_step extra op s (backend_step op s)"
proof (cases op)
  case (UpdateRun r p st w f)
  then show ?thesis
    by (intro good_update [OF assms(1), of _ r])
      (auto simp: updateRunConditionally_def consumes_def split: option.splits)
next
  case (RestoreState r st p w)
  then show ?thesis
    by (intro good_update [OF assms(1), of _ r])
      (auto simp: restoreRunStateIfStatus_def consumes_def split: option.splits)
next
  case (DeleteRun r)
  then show ?thesis using good_forgets [OF assms(1) delete_forgets] by (simp add: consumes_def)
next
  case (DeleteIfUnchanged c)
  then show ?thesis using good_forgets [OF assms(1) delete_forgets [of "rt_runId c"]] good_same [OF assms(1) same_mail_refl]
    by (auto simp: deleteTerminalRunIfUnchanged_def consumes_def split: option.splits)
next
  case (AppendEvent r e)
  with assms show ?thesis using good_append [of extra s r e] by (simp add: op_fresh_def)
next
  case (RestoreEvent r e)
  with assms show ?thesis using good_put_back [of extra s r e] by simp
qed (use assms(1) in \<open>simp_all add: good_same wait_mail plain_mail enqueue_mail acknowledge_mail nack_mail good_remove good_take
    good_claim good_reserve good_restore good_finalize good_clear\<close>)

subsection \<open>Runs of the backend\<close>

text \<open>The events published, each under an id of its own.\<close>

definition published :: "'p backend_op list \<Rightarrow> (string \<times> string) list" where
  "published ops = concat (map (\<lambda>op. case op of AppendEvent r e \<Rightarrow> [(r, ev_id e)] | _ \<Rightarrow> []) ops)"

lemma published_append [simp]: "published (xs @ ys) = published xs @ published ys"
  by (simp add: published_def)

lemma run_ops_append [simp]: "run_backend_ops (xs @ ys) s = run_backend_ops ys (run_backend_ops xs s)"
  by (simp add: run_backend_ops_def)

lemma run_ops_simps [simp]: "run_backend_ops [] s = s" "run_backend_ops (op # ops) s = run_backend_ops ops (backend_step op s)"
  by (simp_all add: run_backend_ops_def)

text \<open>Events that were taken out of a mailbox and may be put back. A caller puts back what it took, once, or what is still
  claimed.\<close>

fun taken_after :: "'p backend_op \<Rightarrow> 'p run_backend \<Rightarrow> (string \<times> 'p run_event) list \<Rightarrow> (string \<times> 'p run_event) list" where
  "taken_after (TakeEvent r n) s taken = (case fst (takeRunEvent r n s) of None \<Rightarrow> taken | Some e \<Rightarrow> (r, e) # taken)"
| "taken_after (RestoreEvent r e) s taken = removeAll (r, e) taken"
| "taken_after op s taken = taken"

definition may_put_back :: "'p backend_op \<Rightarrow> 'p run_backend \<Rightarrow> (string \<times> 'p run_event) list \<Rightarrow> bool" where
  "may_put_back op s taken =
     (case op of
        RestoreEvent r e \<Rightarrow>
          (r, e) \<in> set taken \<or> (case jm_get (claims_of s r) (ev_id e) of None \<Rightarrow> False | Some c \<Rightarrow> dc_event c = e)
      | _ \<Rightarrow> True)"

fun returns_taken :: "'p backend_op list \<Rightarrow> 'p run_backend \<Rightarrow> (string \<times> 'p run_event) list \<Rightarrow> bool" where
  "returns_taken [] s taken = True"
| "returns_taken (op # ops) s taken =
     (may_put_back op s taken \<and> returns_taken ops (backend_step op s) (taken_after op s taken))"

fun taken_by :: "'p backend_op list \<Rightarrow> 'p run_backend \<Rightarrow> (string \<times> 'p run_event) list \<Rightarrow> (string \<times> 'p run_event) list" where
  "taken_by [] s taken = taken"
| "taken_by (op # ops) s taken = taken_by ops (backend_step op s) (taken_after op s taken)"

fun put_back :: "'p backend_op list \<Rightarrow> 'p run_backend \<Rightarrow> nat" where
  "put_back [] s = 0"
| "put_back (op # ops) s = put_back_by op s + put_back ops (backend_step op s)"

lemma returns_taken_append [simp]:
  "returns_taken (xs @ ys) s taken \<longleftrightarrow> returns_taken xs s taken \<and> returns_taken ys (run_backend_ops xs s) (taken_by xs s taken)"
  by (induction xs arbitrary: s taken) auto

text \<open>Without such an operation nothing is asked of the callers, and the bounds are exact.\<close>

lemma nothing_put_back:
  "\<forall>r e. RestoreEvent r e \<notin> set ops \<Longrightarrow> returns_taken ops s taken \<and> put_back ops s = 0"
proof (induction ops arbitrary: s taken)
  case (Cons op ops)
  then show ?case by (cases op) (auto simp: may_put_back_def put_back_by_def)
qed simp

text \<open>The events of a run that are held or were taken: each has its own id, which was published, and its own place.\<close>

abbreviation event_known :: "'p run_backend \<Rightarrow> (string \<times> 'p run_event) list \<Rightarrow> string \<Rightarrow> 'p run_event \<Rightarrow> bool" where
  "event_known s taken r x \<equiv> event_held s r x \<or> (r, x) \<in> set taken"

definition held_from :: "nat \<Rightarrow> (string \<times> string) set \<Rightarrow> (string \<times> 'p run_event) list \<Rightarrow> 'p run_backend \<Rightarrow> bool" where
  "held_from extra ps taken s \<longleftrightarrow> mail_ok extra s \<and> (\<forall>r x. (r, x) \<in> set taken \<longrightarrow> \<not> event_held s r x) \<and>
     (\<forall>r x. event_known s taken r x \<longrightarrow> (r, ev_id x) \<in> ps \<and> ev_order x = Some (order_of x) \<and> order_of x < rb_nextOrder s) \<and>
     (\<forall>r x y. event_known s taken r x \<and> event_known s taken r y \<and> (ev_id x = ev_id y \<or> order_of x = order_of y) \<longrightarrow> x = y)"

lemma claimed_held:
  assumes "mail_ok extra s" "jm_get (claims_of s r) i = Some c"
  shows "event_held s r (dc_event c)" "ev_id (dc_event c) = i"
proof -
  note d = claims_del_mset [OF mail_ok_run(1) [OF assms(1)] assms(2)]
  from arg_cong [OF d(1), of set_mset] show "event_held s r (dc_event c)" by (auto simp: event_held_def)
  show "ev_id (dc_event c) = i" by (rule d(3))
qed

lemma held_from_fresh:
  assumes "held_from extra ps taken s" "set (published [op]) \<inter> ps = {}" "may_put_back op s taken"
  shows "op_fresh op s"
proof (cases op)
  case (AppendEvent r e)
  with assms(2) have "(r, ev_id e) \<notin> ps" by (simp add: published_def)
  with assms(1) AppendEvent show ?thesis by (force simp: op_fresh_def fresh_id_def held_from_def)
next
  case (RestoreEvent r e)
  from assms(1) have ok: "mail_ok extra s" and
    own: "\<And>x y. event_known s taken r x \<Longrightarrow> event_known s taken r y \<Longrightarrow> ev_id x = ev_id y \<or> order_of x = order_of y \<Longrightarrow> x = y"
    and e: "(r, e) \<in> set taken \<Longrightarrow> \<not> event_held s r e \<and> ev_order e = Some (order_of e) \<and> order_of e < rb_nextOrder s"
    unfolding held_from_def by blast+
  show ?thesis
  proof (cases "jm_get (claims_of s r) (ev_id e)")
    case (Some c)
    from claimed_held [OF ok Some] own assms(3) have "dc_event c = e" by (auto simp: may_put_back_def RestoreEvent Some)
    with Some show ?thesis by (simp add: op_fresh_def RestoreEvent)
  next
    case None
    with assms(3) have t: "(r, e) \<in> set taken" by (simp add: may_put_back_def RestoreEvent)
    then have "ev_id x \<noteq> ev_id e \<and> order_of x \<noteq> order_of e" if "event_held s r x" for x
      using that e [OF t] own by blast
    with None e [OF t] show ?thesis by (simp add: op_fresh_def RestoreEvent fresh_id_def)
  qed
qed (simp_all add: op_fresh_def)

text \<open>An event that was taken is no longer held.\<close>

lemma take_gone:
  assumes "mail_ok extra s" "fst (takeRunEvent r n s) = Some e"
  shows "event_held s r e" "\<not> event_held (snd (takeRunEvent r n s)) r e"
proof -
  from assms(2) obtain mb rest where m: "jm_get (rb_runEvents s) r = Some mb" "takeRetainedRunEvent mb n None = Some (e, rest)"
    by (auto simp: takeRunEvent_def split: option.splits)
  from take_event_Some [OF m(2)] obtain b a where split: "mb = b @ e # a" "rest = b @ a" by blast
  have mb: "mailbox_of s r = b @ e # a" by (simp add: mailbox_of_def m(1) split)
  then show "event_held s r e" by (simp add: event_held_def)
  have d: "distinct (map ev_id ((b @ e # a) @ claimed_events (claims_of s r)))"
    using run_mail_ok_parts(5) [OF mail_ok_run(1) [OF assms(1), of r]] by (simp only: mb)
  let ?s' = "snd (takeRunEvent r n s)"
  have "set (mailbox_of ?s' r) \<subseteq> set rest" "claims_of ?s' r = claims_of s r"
    by (auto simp: takeRunEvent_def m mailbox_of_def claims_of_def drop_empty_mail(2) jsmap_simps split: if_splits)
  with d show "\<not> event_held ?s' r e" unfolding event_held_def split(2) by auto
qed

lemma taken_after_known:
  assumes "mail_ok extra s" "(q, x) \<in> set (taken_after op s taken)"
  shows "event_known s taken q x" "\<not> event_held (backend_step op s) q x \<or> (q, x) \<in> set taken \<and> op \<noteq> RestoreEvent q x"
  using assms(2) take_gone [OF assms(1)] by (cases op; force split: option.splits)+

lemma held_from_step:
  assumes "held_from extra ps taken s" "set (published [op]) \<inter> ps = {}" "may_put_back op s taken"
  shows "held_from (extra + put_back_by op s) (ps \<union> set (published [op])) (taken_after op s taken) (backend_step op s)"
proof -
  let ?s' = "backend_step op s" and ?t' = "taken_after op s taken"
  from assms(1) have ok: "mail_ok extra s" and gone: "\<And>r x. (r, x) \<in> set taken \<Longrightarrow> \<not> event_held s r x"
    and known: "\<And>r x. event_known s taken r x \<Longrightarrow> (r, ev_id x) \<in> ps \<and> ev_order x = Some (order_of x) \<and> order_of x < rb_nextOrder s"
    and own: "\<And>r x y. event_known s taken r x \<Longrightarrow> event_known s taken r y \<Longrightarrow> ev_id x = ev_id y \<or> order_of x = order_of y \<Longrightarrow> x = y"
    unfolding held_from_def by blast+
  have "good_step extra op s ?s'" using step_is_good [OF ok held_from_fresh [OF assms]] .
  then have g: "mail_ok (extra + put_back_by op s) ?s'" "rb_nextOrder s \<le> rb_nextOrder ?s'"
    "\<And>q x. event_held ?s' q x \<Longrightarrow> event_held s q x \<or> op = RestoreEvent q x \<or>
       (\<exists>e. op = AppendEvent q e \<and> x = e\<lparr>ev_order := Some (rb_nextOrder s)\<rparr>)"
    unfolding good_step_def by blast+
  define new where "new q x \<longleftrightarrow> (\<exists>e. op = AppendEvent q e \<and> x = e\<lparr>ev_order := Some (rb_nextOrder s)\<rparr>)" for q x
  have fresh: "(q, ev_id x) \<notin> ps \<and> (q, ev_id x) \<in> set (published [op]) \<and> ev_order x = Some (rb_nextOrder s) \<and>
      order_of x = rb_nextOrder s" if "new q x" for q x
    using that assms(2) by (auto simp: new_def published_def order_of_def)
  have one: "x = y" if "new q x" "new q y" for q x y using that by (auto simp: new_def)
  have put: "event_known s taken q x" if "op = RestoreEvent q x" for q x
    using assms(3) claimed_held(1) [OF ok, of q "ev_id x"] by (auto simp: may_put_back_def that split: option.splits)
  have old: "event_known s taken q x \<or> (new q x \<and> event_held ?s' q x)" if "event_known ?s' ?t' q x" for q x
    using that g(3) [of q x] put taken_after_known(1) [OF ok, of q x op taken] unfolding new_def by blast
  have "\<not> event_held ?s' q x" if "(q, x) \<in> set ?t'" for q x
  proof
    assume h: "event_held ?s' q x"
    with taken_after_known(2) [OF ok that] have t: "(q, x) \<in> set taken" "op \<noteq> RestoreEvent q x" by blast+
    with g(3) [OF h] gone have "new q x" unfolding new_def by blast
    with fresh known t(1) show False by blast
  qed
  moreover have "(q, ev_id x) \<in> ps \<union> set (published [op]) \<and> ev_order x = Some (order_of x) \<and> order_of x < rb_nextOrder ?s'"
    if "event_known ?s' ?t' q x" for q x
    using old [OF that]
  proof
    assume "event_known s taken q x"
    with known g(2) show ?thesis by (meson UnI1 less_le_trans)
  next
    assume n: "new q x \<and> event_held ?s' q x"
    then have "x \<in> set (mailbox_of ?s' q @ claimed_events (claims_of ?s' q))" by (simp add: event_held_def)
    with run_mail_ok_order [OF mail_ok_run(1) [OF g(1)]] n fresh show ?thesis by blast
  qed
  moreover have "x = y" if "event_known ?s' ?t' q x" "event_known ?s' ?t' q y" "ev_id x = ev_id y \<or> order_of x = order_of y" for q x y
    using old [OF that(1)] old [OF that(2)] own [of q x y] one [of q x y] fresh [of q x] fresh [of q y] known [of q x] known [of q y] that(3)
    by (metis less_irrefl)
  ultimately show ?thesis using g(1) unfolding held_from_def by blast
qed

lemma held_from_run:
  "held_from extra ps taken s \<Longrightarrow> distinct (published ops) \<Longrightarrow> set (published ops) \<inter> ps = {} \<Longrightarrow> returns_taken ops s taken \<Longrightarrow>
   held_from (extra + put_back ops s) (ps \<union> set (published ops)) (taken_by ops s taken) (run_backend_ops ops s)"
proof (induction ops arbitrary: extra ps taken s)
  case Nil
  then show ?case by (simp add: published_def)
next
  case (Cons op ops)
  have split: "published (op # ops) = published [op] @ published ops" by (simp add: published_def)
  have "held_from (extra + put_back_by op s) (ps \<union> set (published [op])) (taken_after op s taken) (backend_step op s)"
    using Cons.prems by (intro held_from_step) (auto simp: split)
  from Cons.IH [OF this] Cons.prems show ?case by (auto simp: split Un_assoc add.assoc)
qed

lemma empty_mail: "held_from 0 {} [] (empty_backend m)"
  by (simp add: held_from_def mail_ok_def empty_backend_def mailbox_of_def claims_of_def event_held_def)

lemma reached:
  assumes "distinct (published ops)" "returns_taken ops (empty_backend m) []"
  shows "held_from (put_back ops (empty_backend m)) (set (published ops)) (taken_by ops (empty_backend m) [])
    (run_backend_ops ops (empty_backend m))"
  using held_from_run [OF empty_mail assms(1) _ assms(2)] by (metis Int_empty_right add_0 sup_bot_left)

text \<open>No operation of a run consumes the event.\<close>

fun spared :: "'p backend_op list \<Rightarrow> 'p run_backend \<Rightarrow> string \<Rightarrow> 'p run_event \<Rightarrow> bool" where
  "spared [] s r e = True"
| "spared (op # ops) s r e = (\<not> consumes op s r e \<and> spared ops (backend_step op s) r e)"

lemma spared_held:
  "held_from extra ps taken s \<Longrightarrow> distinct (published ops) \<Longrightarrow> set (published ops) \<inter> ps = {} \<Longrightarrow> returns_taken ops s taken \<Longrightarrow>
   spared ops s r e \<Longrightarrow> event_held s r e \<Longrightarrow> event_held (run_backend_ops ops s) r e"
proof (induction ops arbitrary: extra ps taken s)
  case (Cons op ops)
  have split: "published (op # ops) = published [op] @ published ops" by (simp add: published_def)
  have d: "set (published [op]) \<inter> ps = {}" using Cons.prems(3) by (auto simp: split)
  have put: "may_put_back op s taken" using Cons.prems(4) by simp
  have "good_step extra op s (backend_step op s)"
    using Cons.prems(1) held_from_fresh [OF Cons.prems(1) d put] step_is_good by (auto simp: held_from_def)
  then have "event_held (backend_step op s) r e" using Cons.prems(5,6) by (auto simp: good_step_def)
  then show ?case using Cons.IH [OF held_from_step [OF Cons.prems(1) d put]] Cons.prems(2-5) by (auto simp: split)
qed simp

lemma accepted_held:
  assumes "mail_ok extra s" "fresh_id s r e" "fst (appendRunEvent r e s) = Inr ()"
  shows "event_held (snd (appendRunEvent r e s)) r (e\<lparr>ev_order := Some (rb_nextOrder s)\<rparr>)"
proof (cases "jm_get (rb_runEvents s) r = None")
  case False
  obtain res s' where a: "append_to_mailbox r e s = (res, s')" by fastforce
  have "appendRunEvent r e s = (res, s')" using False a by (simp add: appendRunEvent_def)
  with append_to_mailbox_ok [OF assms(1,2) a] False assms(3) show ?thesis by (metis fst_conv snd_conv)
next
  case True
  let ?s1 = "evictOrphanRunEventMailboxes 1 s"
  let ?n = "length (rb_runEvents s) + 1 - MAX_WORKFLOW_RUN_EVENT_MAILBOXES"
  have ev: "mail_ok extra ?s1" "rb_claims ?s1 = rb_claims s" "rb_nextOrder ?s1 = rb_nextOrder s"
      "jm_get (rb_runEvents ?s1) r = None"
    using evict_spec [OF assms(1), of "jm_keys (rb_runEvents s)" ?n] True
    unfolding evictOrphanRunEventMailboxes_def by (blast, blast, blast, metis)
  have fresh1: "fresh_id ?s1 r e"
    using assms(2) True ev(2,4) by (simp add: fresh_id_def event_held_def mailbox_of_def claims_of_def)
  obtain res s' where a: "append_to_mailbox r e ?s1 = (res, s')" by fastforce
  have room: "\<not> MAX_WORKFLOW_RUN_EVENT_MAILBOXES \<le> length (rb_runEvents ?s1)"
    using assms(3) True by (auto simp: appendRunEvent_def Let_def split: if_splits)
  then have "appendRunEvent r e s = (res, s')" using True a by (simp add: appendRunEvent_def)
  with append_to_mailbox_ok [OF ev(1) fresh1 a] room assms(3) ev(3) show ?thesis by (metis fst_conv not_less snd_conv)
qed

text \<open>C35: An event whose publication was accepted is not lost. Whatever operations came before, and whatever come after, in any
  order and interleaving, the run keeps the very event, in its mailbox or with the wait that claimed it, until an
  operation consumes it: the event is taken, removed or finalized, the run completes, is cancelled or deleted, the
  backend is cleared, or the run is not there or is over and all mailboxes are in use when another run needs one. Events are
  published under ids of their own, and only events that were taken, or are claimed, are put back.\<close>

theorem accepted_event_is_kept:
  assumes "distinct (published (ops1 @ AppendEvent r e # ops2))"
    "returns_taken (ops1 @ AppendEvent r e # ops2) (empty_backend m) []" "s = run_backend_ops ops1 (empty_backend m)"
    "fst (appendRunEvent r e s) = Inr ()" "s1 = backend_step (AppendEvent r e) s"
    "spared ops2 s1 r (e\<lparr>ev_order := Some (rb_nextOrder s)\<rparr>)"
  shows "event_held (run_backend_ops ops2 s1) r (e\<lparr>ev_order := Some (rb_nextOrder s)\<rparr>)"
proof -
  have split: "published (AppendEvent r e # ops2) = (r, ev_id e) # published ops2" by (simp add: published_def)
  have one: "set (published [AppendEvent r e]) = {(r, ev_id e)}" by (simp add: published_def)
  let ?taken = "taken_by ops1 (empty_backend m) []"
  from assms(2) have put: "returns_taken ops1 (empty_backend m) []" "returns_taken (AppendEvent r e # ops2) s ?taken"
    by (simp_all add: assms(3))
  then have later: "may_put_back (AppendEvent r e) s ?taken" "returns_taken ops2 s1 (taken_after (AppendEvent r e) s ?taken)"
    by (simp_all add: assms(5))
  have s: "held_from (put_back ops1 (empty_backend m)) (set (published ops1)) ?taken s"
    using assms(1) put(1) by (simp add: assms(3) reached split)
  have "set (published [AppendEvent r e]) \<inter> set (published ops1) = {}" using assms(1) by (auto simp: split one)
  note s1 = held_from_step [OF s this later(1)] held_from_fresh [OF s this later(1)]
  have "event_held s1 r (e\<lparr>ev_order := Some (rb_nextOrder s)\<rparr>)"
    using accepted_held [OF _ _ assms(4), of "put_back ops1 (empty_backend m)"] s s1(2)
    by (simp add: assms(5) held_from_def op_fresh_def)
  with spared_held [OF s1(1) [folded assms(5)] _ _ later(2) assms(6)] assms(1) show ?thesis
    by (auto simp: split one)
qed

text \<open>C36: In every state that operations reach, the mailbox of a run is in the order of publication; an event is in a mailbox
  or with one claim, once; mailbox and claims of a run, which keep their places for a rollback, stay within the bound of
  a mailbox together, and there are at most as many mailboxes as allowed, but for the events that a caller took and put
  back later, for which the backend checks no bound; and the event a wait claims is the first published
  of those that match. Events are published under ids of their own, and only events that were taken, or are
  claimed, are put back.\<close>

theorem mailboxes_keep_order_and_bounds:
  assumes "distinct (published ops)" "returns_taken ops (empty_backend m) []" "s = run_backend_ops ops (empty_backend m)"
  shows "sorted_wrt (\<lambda>a b. order_of a < order_of b) (mailbox_of s r) \<and>
    distinct (map ev_id (mailbox_of s r @ claimed_events (claims_of s r))) \<and>
    length (mailbox_of s r) + length (claims_of s r) \<le>
      MAX_WORKFLOW_RUN_EVENT_MAILBOX_ENTRIES + put_back ops (empty_backend m) \<and>
    length (rb_runEvents s) \<le> MAX_WORKFLOW_RUN_EVENT_MAILBOXES + put_back ops (empty_backend m) \<and>
    (\<forall>e. fst (claimRunEventForWait r w n d t s) = Some e \<longrightarrow>
       (\<forall>x \<in> set (mailbox_of s r). event_matches n d x \<longrightarrow> order_of e \<le> order_of x))"
proof -
  have ok: "mail_ok (put_back ops (empty_backend m)) s"
    using reached [OF assms(1,2)] by (simp add: assms(3) held_from_def)
  note run = run_mail_ok_parts [OF mail_ok_run(1) [OF ok, of r]]
  have "order_of e \<le> order_of x" if c: "fst (claimRunEventForWait r w n d t s) = Some e" and
      x: "x \<in> set (mailbox_of s r)" "event_matches n d x" for e x
  proof -
    from c obtain rest where "takeRetainedRunEvent (mailbox_of s r) n d = Some (e, rest)"
      by (auto simp: claimRunEventForWait_def mailbox_of_def Let_def split: option.splits if_splits prod.splits)
    from take_event_Some [OF this] obtain b a where "mailbox_of s r = b @ e # a" "\<forall>y \<in> set b. \<not> event_matches n d y" by blast
    with run(1) x show ?thesis by (auto simp: sorted_wrt_append)
  qed
  with run(1,5,6) mail_ok_maps(3) [OF ok] show ?thesis by blast
qed

subsection \<open>Rollback of a claim\<close>

lemma insert_before_split:
  "\<forall>y \<in> set b. \<not> P y \<Longrightarrow> \<forall>y \<in> set a. P y \<Longrightarrow> insert_before P x (b @ a) = b @ x # a"
proof (induction b)
  case Nil
  then show ?case by (cases a) auto
qed auto

lemma restore_position:
  assumes "run_mail_ok extra n (b @ e # a) cs"
  shows "restoreRetainedRunEvent (b @ a) e = b @ e # a"
proof -
  have o: "ev_order y = Some (order_of y)" if "y \<in> set (b @ e # a)" for y
    using run_mail_ok_order [OF assms, of y] that by auto
  have "sorted_wrt (\<lambda>a b. order_of a < order_of b) (b @ e # a)" by (rule run_mail_ok_parts(1) [OF assms])
  then have "\<forall>y \<in> set b. \<not> published_after y e" "\<forall>y \<in> set a. published_after y e"
    using o by (auto simp: sorted_wrt_append published_after_def)
  then show ?thesis unfolding restoreRetainedRunEvent_def by (rule insert_before_split)
qed

lemma change_wait_of:
  "waits_of (change_wait r w f s) q = (if q = r then update_first (\<lambda>v. ew_id v = w) f (waits_of s r) else waits_of s q)"
  by (auto simp: change_wait_def waits_of_def jsmap_simps split: option.splits)

lemma update_first_find:
  assumes "find P xs = Some x" "P (f x)"
  shows "find P (update_first P f xs) = Some (f x)" "update_first P g (update_first P f xs) = update_first P (\<lambda>y. g (f y)) xs"
  using assms by (induction xs) (auto split: if_splits)

text \<open>C37: A claim that is rolled back leaves no trace: the mailbox is what it was before the claim, the event in the place it
  had, the claims of the run are what they were, and the wait is pending again, without a claim.\<close>

theorem claim_rollback_is_exact:
  assumes "distinct (published ops)" "returns_taken ops (empty_backend m) []" "s = run_backend_ops ops (empty_backend m)"
    "claimRunEventForWait r w n d t s = (Some e, s1)" "restoreRunEventDelivery r w e s1 = (restored, s2)"
  shows "restored \<and> mailbox_of s2 r = mailbox_of s r \<and> claims_of s2 r = claims_of s r \<and>
    waits_of s2 r = update_first (\<lambda>v. ew_id v = w) pending_again (waits_of s r)"
proof -
  have ok: "mail_ok (put_back ops (empty_backend m)) s"
    using reached [OF assms(1,2)] by (simp add: assms(3) held_from_def)
  note run = mail_ok_run(1) [OF ok, of r]
  let ?claim = "\<lambda>v. v\<lparr>ew_status := WaitDelivered, ew_claimedAt := Some t, ew_claimedEventId := Some (ev_id e)\<rparr>"
  obtain v mb rest where c: "wait_with s r w = Some v" "jm_get (rb_runEvents s) r = Some mb"
      "takeRetainedRunEvent mb n d = Some (e, rest)"
      "s1 = advanceRunRetentionRevision r (change_wait r w ?claim
        (s\<lparr>rb_runEvents := jm_set r rest (rb_runEvents s),
          rb_claims := jm_set r (jm_set (ev_id e) \<lparr>dc_wait = ?claim v, dc_event = e, dc_claimedAt = t\<rparr> (claims_of s r)) (rb_claims s)\<rparr>))"
    using assms(4) by (auto simp: claimRunEventForWait_def Let_def split: option.splits if_splits prod.splits)
  have mb: "mailbox_of s r = mb" by (simp add: mailbox_of_def c(2))
  from take_event_Some [OF c(3)] obtain b a where split: "mb = b @ e # a" "rest = b @ a" by blast
  define k where "k = \<lparr>dc_wait = ?claim v, dc_event = e, dc_claimedAt = t\<rparr>"
  have new: "jm_set (ev_id e) k (claims_of s r) = claims_of s r @ [(ev_id e, k)]"
    by (rule run_mail_ok_claim(2) [OF run [unfolded mb] c(3)]) (simp add: k_def)
  have vid: "ew_id v = w" using c(1) by (auto simp: wait_with_def find_Some_iff)
  have waits1: "waits_of s1 r = update_first (\<lambda>u. ew_id u = w) ?claim (waits_of s r)"
    by (simp add: c(4) waits_of_def change_wait_def jsmap_simps split: option.split)
  have first: "wait_with s1 r w = Some (?claim v)"
    unfolding wait_with_def waits1 by (rule update_first_find(1)) (use c(1) vid in \<open>simp_all add: wait_with_def\<close>)
  have cls: "claims_of s1 r = jm_set (ev_id e) k (claims_of s r)"
    by (simp add: c(4) k_def claims_of_def jsmap_simps)
  have cl1: "claims_of s1 r = claims_of s r @ [(ev_id e, k)]" unfolding cls by (rule new)
  have cl1k: "jm_get (claims_of s1 r) (ev_id e) = Some k" unfolding cls by (simp only: jm_get_set refl if_True)
  have mb1: "mailbox_of s1 r = rest" by (simp add: c(4) mailbox_of_def jsmap_simps)
  have "is_restorable (?claim v)" by (simp add: is_restorable_def)
  with first cl1k have s2: "restored" "s2 = advanceRunRetentionRevision r (releaseRunEventClaim r (ev_id e)
      ((change_wait r w pending_again s1)\<lparr>rb_runEvents := jm_set r
        (restoreRetainedRunEvent (mailbox_of (change_wait r w pending_again s1) r) e) (rb_runEvents (change_wait r w pending_again s1))\<rparr>))"
    using assms(5) vid by (auto simp: restoreRunEventDelivery_def k_def Let_def)
  have "mailbox_of (change_wait r w pending_again s1) r = rest" using mb1 by (simp add: mailbox_of_def)
  then have "mailbox_of s2 r = restoreRetainedRunEvent rest e" by (simp add: s2(2) mailbox_of_def release_mail(1) jsmap_simps)
  then have mb2: "mailbox_of s2 r = mailbox_of s r"
    using restore_position [of _ "rb_nextOrder s" b e a "claims_of s r"] run by (simp add: mb split)
  have "claims_of s2 r = jm_del (ev_id e) (claims_of s1 r)"
    by (simp add: s2(2) claims_of_def release_mail(4) [unfolded claims_of_def])
  moreover have "ev_id e \<notin> set (jm_keys (claims_of s r))"
  proof
    assume "ev_id e \<in> set (jm_keys (claims_of s r))"
    then have "length (jm_set (ev_id e) k (claims_of s r)) = length (claims_of s r)" by (simp add: length_jm_set)
    with new show False by simp
  qed
  ultimately have cl2: "claims_of s2 r = claims_of s r" by (simp add: cl1 jm_del_append delete_id)
  have "waits_of s2 r = update_first (\<lambda>u. ew_id u = w) pending_again (waits_of s1 r)"
    by (simp add: s2(2) waits_of_def release_mail(3) change_wait_def jsmap_simps split: option.split)
  also have "\<dots> = update_first (\<lambda>u. ew_id u = w) (\<lambda>u. pending_again (?claim u)) (waits_of s r)"
    unfolding waits1 by (rule update_first_find(2)) (use c(1) vid in \<open>simp_all add: wait_with_def\<close>)
  also have "(\<lambda>u. pending_again (?claim u)) = pending_again" by (rule ext) (simp add: pending_again_def unclaimed_def)
  finally show ?thesis using s2(1) mb2 cl2 by simp
qed

subsection \<open>Approvals that are published, claimed, taken and put back\<close>

definition approval_wait :: event_wait where
  "approval_wait = \<lparr>ew_id = ''w1'', ew_nodeId = ''ask'', ew_eventName = ''approved'', ew_kind = EventWait, ew_expiresAt = None,
     ew_status = WaitPending, ew_instance = None, ew_claimedAt = None, ew_recoveryClaimedAt = None, ew_claimedEventId = None,
     ew_deliveredEventId = None\<rparr>"

definition approval :: "string \<Rightarrow> int run_event" where
  "approval i = \<lparr>ev_id = i, ev_eventName = ''approved'', ev_payload = 7, ev_publishedAt = 5, ev_order = None\<rparr>"

definition before_approval :: "int backend_op list" where
  "before_approval = [SaveWait ''run'' approval_wait, AppendEvent ''run'' (approval ''e1'')]"

definition after_approval :: "int backend_op list" where
  "after_approval = [ClaimEvent ''run'' ''w1'' ''approved'' None 9,
     RestoreDelivery ''run'' ''w1'' (approval ''e1''), ClaimEvent ''run'' ''w1'' ''approved'' None 10,
     RestoreEvent ''run'' ((approval ''e1'')\<lparr>ev_order := Some 0\<rparr>)]"

text \<open>The first approval is taken, and put back after another one was published.\<close>

definition taken_approval :: "int backend_op list" where
  "taken_approval = before_approval @ [AppendEvent ''run'' (approval ''e2''), TakeEvent ''run'' ''approved'',
     AppendEvent ''run'' (approval ''e3''), RestoreEvent ''run'' ((approval ''e1'')\<lparr>ev_order := Some 0\<rparr>)]"

lemmas mail_eval = before_approval_def after_approval_def taken_approval_def approval_def approval_wait_def empty_backend_def
  savePendingEventWait_def store_wait_def waits_of_def appendRetainedPendingEventWait_def
  MAX_WORKFLOW_PENDING_EVENT_WAIT_ENTRIES_def appendRunEvent_def evictOrphanRunEventMailboxes_def
  MAX_WORKFLOW_RUN_EVENT_MAILBOXES_def append_to_mailbox_def appendRetainedRunEvent_def mailbox_of_def claims_of_def
  MAX_WORKFLOW_RUN_EVENT_MAILBOX_ENTRIES_def advanceRunRetentionRevision_def claimRunEventForWait_def wait_with_def
  event_matches_def change_wait_def restoreRunEventDelivery_def restoreRunEvent_def is_restorable_def
  restoreRetainedRunEvent_def releaseRunEventClaim_def pending_again_def unclaimed_def consumes_def takeRunEvent_def
  deleteEmptyRunEventMailbox_def published_after_def may_put_back_def put_back_by_def

lemma approvals_published:
  "distinct (published (before_approval @ AppendEvent ''run'' (approval ''e2'') # after_approval))"
  "returns_taken (before_approval @ AppendEvent ''run'' (approval ''e2'') # after_approval) (empty_backend 10) []"
  by (simp add: published_def before_approval_def after_approval_def approval_def) (simp add: mail_eval Let_def jsmap_simps)

theorem accepted_event_is_kept_witness:
  "event_held (run_backend_ops after_approval (backend_step (AppendEvent ''run'' (approval ''e2''))
      (run_backend_ops before_approval (empty_backend 10)))) ''run'' ((approval ''e2'')\<lparr>ev_order := Some 1\<rparr>)"
proof -
  let ?s = "run_backend_ops before_approval (empty_backend 10)"
  have "fst (appendRunEvent ''run'' (approval ''e2'') ?s) = Inr ()" "rb_nextOrder ?s = 1"
    "spared after_approval (backend_step (AppendEvent ''run'' (approval ''e2'')) ?s) ''run'' ((approval ''e2'')\<lparr>ev_order := Some 1\<rparr>)"
    by (simp_all add: mail_eval Let_def jsmap_simps)
  with accepted_event_is_kept [OF approvals_published refl _ refl] show ?thesis by metis
qed

lemma taken_approvals:
  "distinct (published taken_approval)" "returns_taken taken_approval (empty_backend 10) []"
  "mailbox_of (run_backend_ops taken_approval (empty_backend 10)) ''run'' =
     [(approval ''e1'')\<lparr>ev_order := Some 0\<rparr>, (approval ''e2'')\<lparr>ev_order := Some 1\<rparr>, (approval ''e3'')\<lparr>ev_order := Some 2\<rparr>]"
  "put_back taken_approval (empty_backend 10) = 1"
  by (simp add: published_def taken_approval_def before_approval_def approval_def)
    (simp_all add: mail_eval Let_def jsmap_simps)

theorem mailboxes_keep_order_and_bounds_witness:
  "sorted_wrt (\<lambda>a b. order_of a < order_of b) (mailbox_of (run_backend_ops taken_approval (empty_backend 10)) ''run'') \<and>
   length (mailbox_of (run_backend_ops taken_approval (empty_backend 10)) ''run'') = 3 \<and>
   length (rb_runEvents (run_backend_ops taken_approval (empty_backend 10))) \<le> MAX_WORKFLOW_RUN_EVENT_MAILBOXES + 1"
proof -
  have "length (mailbox_of (run_backend_ops taken_approval (empty_backend 10)) ''run'') = 3" unfolding taken_approvals(3) by simp
  with mailboxes_keep_order_and_bounds [OF taken_approvals(1,2) refl, of "''run''"] show ?thesis
    unfolding taken_approvals(4) by blast
qed

theorem claim_rollback_is_exact_witness:
  "mailbox_of (snd (restoreRunEventDelivery ''run'' ''w1'' ((approval ''e1'')\<lparr>ev_order := Some 0\<rparr>)
     (snd (claimRunEventForWait ''run'' ''w1'' ''approved'' None 9
       (run_backend_ops taken_approval (empty_backend 10)))))) ''run'' =
   [(approval ''e1'')\<lparr>ev_order := Some 0\<rparr>, (approval ''e2'')\<lparr>ev_order := Some 1\<rparr>, (approval ''e3'')\<lparr>ev_order := Some 2\<rparr>]"
proof -
  let ?s = "run_backend_ops taken_approval (empty_backend 10)"
  have "fst (claimRunEventForWait ''run'' ''w1'' ''approved'' None 9 ?s) = Some ((approval ''e1'')\<lparr>ev_order := Some 0\<rparr>)"
    by (simp add: mail_eval Let_def jsmap_simps)
  then have "claimRunEventForWait ''run'' ''w1'' ''approved'' None 9 ?s =
      (Some ((approval ''e1'')\<lparr>ev_order := Some 0\<rparr>), snd (claimRunEventForWait ''run'' ''w1'' ''approved'' None 9 ?s))"
    by (metis prod.collapse)
  from claim_rollback_is_exact [OF taken_approvals(1,2) refl this prod.collapse [symmetric]] taken_approvals(3)
  show ?thesis by simp
qed

end
