(* ===== verification/RunQueueSafety.thy ===== *)
theory RunQueueSafety
  imports RunQueue
begin

text \<open>
  The queue of the backend is a stable priority queue, a lock belongs to one owner until it is given up or has expired, and
  a finished run is deleted by the retention only while nothing has happened to it since it was listed.
\<close>

subsection \<open>Order of the queue\<close>

definition queue_sorted :: "'p queue_item list \<Rightarrow> bool" where
  "queue_sorted q \<longleftrightarrow> sorted_wrt (\<lambda>a b. item_priority b \<le> item_priority a) q"

lemma insert_by_priority:
  assumes "queue_sorted q"
  shows "insert_before (\<lambda>j. item_priority j < item_priority job) job q =
      filter (\<lambda>j. item_priority job \<le> item_priority j) q @ job # filter (\<lambda>j. item_priority j < item_priority job) q"
  using assms
proof (induction q)
  case (Cons x xs)
  show ?case
  proof (cases "item_priority x < item_priority job")
    case True
    with Cons.prems have "\<forall>y \<in> set xs. item_priority y < item_priority job" by (auto simp: queue_sorted_def)
    with True show ?thesis by (simp add: filter_id_conv filter_empty_conv not_le)
  next
    case False
    with Cons show ?thesis by (simp add: queue_sorted_def not_less)
  qed
qed simp

lemma queue_sorted_insert:
  assumes "queue_sorted q"
  shows "queue_sorted (insert_before (\<lambda>j. item_priority j < item_priority job) job q)"
  unfolding insert_by_priority [OF assms] using assms
  by (auto simp: queue_sorted_def sorted_wrt_append sorted_wrt_filter)

lemma advance_queue [simp]:
  "rb_queue (advanceRunRetentionRevision r s) = rb_queue s" "rb_locks (advanceRunRetentionRevision r s) = rb_locks s"
  "rb_queue (publishRunObservation r s) = rb_queue s" "rb_locks (publishRunObservation r s) = rb_locks s"
  by (simp_all add: advanceRunRetentionRevision_def publishRunObservation_def)

lemma change_wait_queue [simp]:
  "rb_queue (change_wait r w f s) = rb_queue s" "rb_locks (change_wait r w f s) = rb_locks s"
  by (simp_all add: change_wait_def split: option.splits)

lemma evict_queue [simp]:
  "rb_queue (evict_mailboxes rs n s) = rb_queue s \<and> rb_locks (evict_mailboxes rs n s) = rb_locks s"
  by (induction rs n s rule: evict_mailboxes.induct) auto

lemma fold_keeps:
  "(\<And>x t. f (h x t) = f t) \<Longrightarrow> f (fold h xs s) = f s"
  by (induction xs arbitrary: s) auto

lemma persist_queue [simp]:
  "rb_queue (persistRunEventDeliveryReceipts r s) = rb_queue s" "rb_locks (persistRunEventDeliveryReceipts r s) = rb_locks s"
  by (auto simp: persistRunEventDeliveryReceipts_def split: option.splits intro!: fold_keeps)

lemma mail_queue [simp]:
  "rb_queue (releaseRunEventClaim r i s) = rb_queue s" "rb_locks (releaseRunEventClaim r i s) = rb_locks s"
  "rb_queue (deleteEmptyRunEventMailbox r mb s) = rb_queue s" "rb_locks (deleteEmptyRunEventMailbox r mb s) = rb_locks s"
  "rb_queue (storeRunUpdate r run st s) = rb_queue s" "rb_locks (storeRunUpdate r run st s) = rb_locks s"
  by (auto simp: releaseRunEventClaim_def deleteEmptyRunEventMailbox_def storeRunUpdate_def Let_def split: option.splits)

lemmas backend_ops_defs = createRun_def updateRunConditionally_def restoreRunStateIfStatus_def deleteTerminalRunIfUnchanged_def
  savePendingEventWait_def savePendingEventWaitIfStatusAndWorker_def store_wait_def resolvePendingEventWait_def
  restorePendingEventWait_def reserveTimedEventWaitClaim_def finalizeTimedEventWaitClaim_def appendRunEvent_def
  append_to_mailbox_def evictOrphanRunEventMailboxes_def removeRunEvent_def takeRunEvent_def claimRunEventForWait_def
  reserveRunEventDeliveryClaim_def restoreRunEvent_def restoreRunEventDelivery_def finalizeRunEventDelivery_def claimStalledRun_def

text \<open>Operations on other things leave the queue and the locks alone.\<close>

fun touches_queue :: "'p backend_op \<Rightarrow> bool" where
  "touches_queue (Enqueue q) = True" | "touches_queue Dequeue = True" | "touches_queue (Nack r t) = True"
| "touches_queue (DeleteRun r) = True" | "touches_queue (DeleteIfUnchanged c) = True" | "touches_queue ClearAll = True"
| "touches_queue op = False"

fun touches_locks :: "'p backend_op \<Rightarrow> bool" where
  "touches_locks (Lock r d i t) = True" | "touches_locks (Unlock r i) = True" | "touches_locks (ExtendLock r d i t) = True"
| "touches_locks (DeleteRun r) = True" | "touches_locks (DeleteIfUnchanged c) = True" | "touches_locks ClearAll = True"
| "touches_locks op = False"

lemma queue_frame: "\<not> touches_queue op \<Longrightarrow> rb_queue (backend_step op s) = rb_queue s"
  by (cases op)
    (auto simp: backend_ops_defs acknowledge_item_def acquireLock_def releaseLock_def extendLock_def Let_def
      split: option.splits sum.splits prod.splits)

lemma locks_frame: "\<not> touches_locks op \<Longrightarrow> rb_locks (backend_step op s) = rb_locks s"
  by (cases op)
    (auto simp: backend_ops_defs enqueue_item_def dequeue_item_def acknowledge_item_def nack_item_def requeueRun_def Let_def
      split: option.splits sum.splits prod.splits list.splits if_splits)

lemma queue_sorted_step:
  assumes "queue_sorted (rb_queue s)"
  shows "queue_sorted (rb_queue (backend_step op s))"
proof (cases "touches_queue op")
  case False
  with assms show ?thesis by (simp add: queue_frame)
next
  case True
  have enq: "queue_sorted (rb_queue (snd (enqueue_item job s)))" for job
    using assms queue_sorted_insert [OF assms, of job] by (simp add: enqueue_item_def)
  have filt: "queue_sorted (filter P (rb_queue s))" for P
    using assms by (simp add: queue_sorted_def sorted_wrt_filter)
  have ack: "rb_queue (acknowledge_item r t) = rb_queue t" for r and t :: "'a run_backend"
    by (simp add: acknowledge_item_def Let_def)
  from True show ?thesis
  proof (cases op)
    case (Nack r t)
    show ?thesis
    proof (cases "requeueRun r t s")
      case (Pair x s1)
      have "queue_sorted (rb_queue (snd (requeueRun r t s)))"
        using assms enq by (simp add: requeueRun_def split: option.split)
      with Pair show ?thesis by (cases x) (simp_all add: Nack nack_item_def ack)
    qed
  next
    case Dequeue
    with assms show ?thesis
      by (auto simp: dequeue_item_def Let_def queue_sorted_def split: list.split)
  qed (use assms enq filt in \<open>auto simp: deleteRunState_def deleteTerminalRunIfUnchanged_def clear_backend_def empty_backend_def
      queue_sorted_def split: option.split\<close>)
qed

lemma queue_sorted_run: "queue_sorted (rb_queue s) \<Longrightarrow> queue_sorted (rb_queue (run_backend_ops ops s))"
  unfolding run_backend_ops_def by (induction ops arbitrary: s) (auto intro: queue_sorted_step)

lemma same_priority:
  "filter (\<lambda>x. item_priority k = item_priority x \<and> item_priority job \<le> item_priority x) q @
   (if item_priority k = item_priority job then [job] else []) @
   filter (\<lambda>x. item_priority k = item_priority x \<and> item_priority x < item_priority job) q =
   filter (\<lambda>x. item_priority k = item_priority x) (q @ [job])"
proof (cases "item_priority job \<le> item_priority k")
  case True
  then have "filter (\<lambda>x. item_priority k = item_priority x \<and> item_priority job \<le> item_priority x) q =
      filter (\<lambda>x. item_priority k = item_priority x) q"
    "filter (\<lambda>x. item_priority k = item_priority x \<and> item_priority x < item_priority job) q = []"
    by (auto simp: filter_empty_conv intro!: filter_cong)
  then show ?thesis by simp
next
  case False
  then have "filter (\<lambda>x. item_priority k = item_priority x \<and> item_priority x < item_priority job) q =
      filter (\<lambda>x. item_priority k = item_priority x) q"
    "filter (\<lambda>x. item_priority k = item_priority x \<and> item_priority job \<le> item_priority x) q = []"
    by (auto simp: filter_empty_conv intro!: filter_cong)
  with False show ?thesis by simp
qed

text \<open>C38: The queue is a stable priority queue. After any operations, an accepted job takes the place that a stable sort by
  descending priority gives it behind all jobs already queued, so jobs of one priority leave in the order in which they
  came, and a job that leaves has the highest priority of all.\<close>

theorem queue_is_stable_by_priority:
  assumes "s = run_backend_ops ops (empty_backend m)" "fst (enqueue_item job s) = Inr ()"
  shows "rb_queue (snd (enqueue_item job s)) = sort_key (\<lambda>j. - item_priority j) (rb_queue s @ [job]) \<and>
    (\<forall>j s'. dequeue_item s = (Some j, s') \<longrightarrow> (\<forall>x \<in> set (rb_queue s'). item_priority x \<le> item_priority j))"
proof -
  let ?f = "\<lambda>j. - item_priority j"
  have sorted: "queue_sorted (rb_queue s)"
    unfolding assms(1) by (rule queue_sorted_run) (simp add: empty_backend_def queue_sorted_def)
  let ?q = "insert_before (\<lambda>j. item_priority j < item_priority job) job (rb_queue s)"
  have "sort_key ?f (rb_queue s @ [job]) = ?q"
  proof (rule properties_for_sort_key)
    show "mset ?q = mset (rb_queue s @ [job])" by simp
    show "sorted (map ?f ?q)" using queue_sorted_insert [OF sorted, of job]
      by (simp add: queue_sorted_def sorted_map)
    show "filter (\<lambda>x. ?f k = ?f x) ?q = filter (\<lambda>x. ?f k = ?f x) (rb_queue s @ [job])" if "k \<in> set ?q" for k
      unfolding insert_by_priority [OF sorted] using same_priority [of k job "rb_queue s"]
      by (cases "item_priority k = item_priority job") (auto simp: conj_commute)
  qed
  moreover have "rb_queue (snd (enqueue_item job s)) = ?q" using assms(2) by (simp add: enqueue_item_def split: if_splits)
  ultimately show ?thesis using sorted
    by (auto simp: dequeue_item_def Let_def queue_sorted_def split: list.splits)
qed

text \<open>A job of priority 1 behind the one that was there, in front of one without a priority.\<close>

definition job_of :: "string \<Rightarrow> int option \<Rightarrow> int queue_item" where
  "job_of r p = \<lparr>qi_runId = r, qi_workflowId = ''w'', qi_input = 0, qi_priority = p, qi_createdAt = 0\<rparr>"

theorem queue_is_stable_by_priority_witness:
  "rb_queue (snd (enqueue_item (job_of ''c'' (Some 1))
      (run_backend_ops [Enqueue (job_of ''a'' None), Enqueue (job_of ''b'' (Some 1))] (empty_backend 9)))) =
   [job_of ''b'' (Some 1), job_of ''c'' (Some 1), job_of ''a'' None]"
proof -
  let ?s = "run_backend_ops [Enqueue (job_of ''a'' None), Enqueue (job_of ''b'' (Some 1))] (empty_backend 9)"
  have q: "rb_queue ?s = [job_of ''b'' (Some 1), job_of ''a'' None]" "rb_maxQueueSize ?s = 9"
    by (simp_all add: run_backend_ops_def enqueue_item_def empty_backend_def item_priority_def job_of_def advanceRunRetentionRevision_def)
  then have "fst (enqueue_item (job_of ''c'' (Some 1)) ?s) = Inr ()" by (simp add: enqueue_item_def)
  from conjunct1 [OF queue_is_stable_by_priority [OF refl this]] show ?thesis
    unfolding q by (simp add: job_of_def item_priority_def)
qed

subsection \<open>Locks\<close>

definition gives_up :: "'p backend_op \<Rightarrow> string \<Rightarrow> string \<Rightarrow> bool" where
  "gives_up op r i =
     (case op of
        Unlock q j \<Rightarrow> q = r \<and> (j = None \<or> j = Some i)
      | DeleteRun q \<Rightarrow> q = r
      | DeleteIfUnchanged c \<Rightarrow> rt_runId c = r
      | ClearAll \<Rightarrow> True
      | _ \<Rightarrow> False)"

text \<open>No operation gives the lock up, and whenever another owner asks for it, it has not expired.\<close>

fun lock_kept :: "'p backend_op list \<Rightarrow> 'p run_backend \<Rightarrow> string \<Rightarrow> string \<Rightarrow> bool" where
  "lock_kept [] s r i = True"
| "lock_kept (op # ops) s r i =
     (\<not> gives_up op r i \<and>
      (case (op, jm_get (rb_locks s) r) of (Lock q d j t, Some l) \<Rightarrow> q = r \<longrightarrow> t < lk_expiresAt l | _ \<Rightarrow> True) \<and>
      lock_kept ops (backend_step op s) r i)"

lemma lock_step:
  assumes "jm_get (rb_locks s) r = Some l" "\<not> gives_up op r (lk_lockId l)"
    "case op of Lock q d j t \<Rightarrow> q = r \<longrightarrow> t < lk_expiresAt l | _ \<Rightarrow> True"
  shows "\<exists>l'. jm_get (rb_locks (backend_step op s)) r = Some l' \<and> lk_lockId l' = lk_lockId l"
proof (cases "touches_locks op")
  case False
  with assms(1) show ?thesis by (simp add: locks_frame)
next
  case True
  then show ?thesis using assms
    by (cases op) (auto simp: gives_up_def acquireLock_def releaseLock_def extendLock_def deleteRunState_def
        deleteTerminalRunIfUnchanged_def jsmap_simps split: option.splits if_splits)
qed

lemma lock_run:
  "jm_get (rb_locks s) r = Some l \<Longrightarrow> lock_kept ops s r (lk_lockId l) \<Longrightarrow>
   \<exists>l'. jm_get (rb_locks (run_backend_ops ops s)) r = Some l' \<and> lk_lockId l' = lk_lockId l"
proof (induction ops arbitrary: s l)
  case Nil
  then show ?case by (simp add: run_backend_ops_def)
next
  case (Cons op ops)
  have "case op of Lock q d j t \<Rightarrow> q = r \<longrightarrow> t < lk_expiresAt l | _ \<Rightarrow> True"
    using Cons.prems by (cases op) auto
  from lock_step [OF Cons.prems(1) _ this] Cons.prems(2) obtain l' where
    l': "jm_get (rb_locks (backend_step op s)) r = Some l'" "lk_lockId l' = lk_lockId l" by auto
  from Cons.IH [OF l'(1)] Cons.prems(2) l'(2) show ?case by (simp add: run_backend_ops_def)
qed

text \<open>C39: A lock has one owner. After an owner got the lock of a run, and as long as the lock is not given up by its owner, without
  a token, or with the run, and has not expired when another asks for it, it stays the owner's through any operations,
  releases and extensions with the token of an earlier owner among them; and an attempt to get it before it expires
  fails and changes nothing.\<close>

theorem lock_has_one_owner:
  assumes "acquireLock r d i t s = (Some i, s1)" "lock_kept ops s1 r i" "s2 = run_backend_ops ops s1"
  shows "\<exists>l. jm_get (rb_locks s2) r = Some l \<and> lk_lockId l = i \<and>
    (u < lk_expiresAt l \<longrightarrow> acquireLock r e j u s2 = (None, s2) \<and> isLocked r u s2)"
proof -
  have "jm_get (rb_locks s1) r = Some \<lparr>lk_lockId = i, lk_expiresAt = t + d\<rparr>"
    using assms(1) by (auto simp: acquireLock_def jsmap_simps split: option.splits if_splits)
  from lock_run [OF this] assms(2,3) obtain l where "jm_get (rb_locks s2) r = Some l" "lk_lockId l = i" by auto
  then show ?thesis by (auto simp: acquireLock_def isLocked_def)
qed

text \<open>The first owner extends its lock; a worker that stalled gives back the lock it had before, and another asks for it.\<close>

definition lock_story :: "int backend_op list" where
  "lock_story = [ExtendLock ''run'' 50 (Some ''a'') 30, Unlock ''run'' (Some ''z''), Lock ''run'' 50 ''b'' 60]"

theorem lock_has_one_owner_witness:
  "\<exists>l. jm_get (rb_locks (run_backend_ops lock_story (snd (acquireLock ''run'' 50 ''a'' 0 (empty_backend 9))))) ''run'' = Some l \<and>
     lk_lockId l = ''a''"
proof -
  let ?s = "snd (acquireLock ''run'' 50 ''a'' 0 (empty_backend 9)) :: int run_backend"
  have "acquireLock ''run'' 50 ''a'' 0 (empty_backend 9) = (Some ''a'', ?s)"
    by (simp add: acquireLock_def empty_backend_def)
  moreover have "lock_kept lock_story ?s ''run'' ''a''"
    by (simp add: lock_story_def acquireLock_def empty_backend_def gives_up_def extendLock_def releaseLock_def)
  ultimately show ?thesis using lock_has_one_owner [of "''run''" 50 "''a''" 0 "empty_backend 9" ?s lock_story] by blast
qed

subsection \<open>Retention\<close>

text \<open>What is recorded of a run.\<close>

definition recorded :: "'p run_backend \<Rightarrow> string \<Rightarrow> 'p workflow_run option \<times> event_wait list \<times> (string \<times> 'p delivery_claim) list" where
  "recorded s r = (jm_get (rb_runs s) r, waits_of s r, claims_of s r)"

text \<open>A step gives a run a new revision, or none, when what is recorded of it changes.\<close>

definition revises :: "'p run_backend \<Rightarrow> 'p run_backend \<Rightarrow> bool" where
  "revises s s' \<longleftrightarrow>
     rb_nextGeneration s \<le> rb_nextGeneration s' \<and>
     (\<forall>q. (recorded s' q = recorded s q \<and> jm_get (rb_retention s') q = jm_get (rb_retention s) q) \<or>
       jm_get (rb_retention s') q = None \<or>
       (\<exists>k. jm_get (rb_retention s') q = Some k \<and> rb_nextGeneration s \<le> k \<and> k < rb_nextGeneration s'))"

lemma revises_same:
  "rb_runs s' = rb_runs s \<Longrightarrow> rb_eventWaits s' = rb_eventWaits s \<Longrightarrow> rb_claims s' = rb_claims s \<Longrightarrow>
   rb_retention s' = rb_retention s \<Longrightarrow> rb_nextGeneration s' = rb_nextGeneration s \<Longrightarrow> revises s s'"
  by (simp add: revises_def recorded_def waits_of_def claims_of_def)

lemma revises_advance:
  assumes "rb_retention s' = rb_retention (advanceRunRetentionRevision r s)"
    "rb_nextGeneration s' = rb_nextGeneration (advanceRunRetentionRevision r s)"
    "\<And>q. q \<noteq> r \<Longrightarrow> jm_get (rb_runs s') q = jm_get (rb_runs s) q \<and> jm_get (rb_eventWaits s') q = jm_get (rb_eventWaits s) q \<and>
       jm_get (rb_claims s') q = jm_get (rb_claims s) q"
  shows "revises s s'"
proof -
  have "recorded s' q = recorded s q" if "q \<noteq> r" for q
    using assms(3) [OF that] by (simp add: recorded_def waits_of_def claims_of_def)
  then show ?thesis unfolding revises_def assms(1,2)
    by (cases "jm_get (rb_retention s) r") (auto simp: advanceRunRetentionRevision_def jsmap_simps, metis)
qed

lemma advance_revision:
  "rb_retention (advanceRunRetentionRevision r s) =
     (if jm_get (rb_retention s) r = None then rb_retention s else jm_set r (rb_nextGeneration s) (rb_retention s))"
  "rb_nextGeneration (advanceRunRetentionRevision r s) =
     (if jm_get (rb_retention s) r = None then rb_nextGeneration s else Suc (rb_nextGeneration s))"
  by (simp_all add: advanceRunRetentionRevision_def)

lemma advance_rest [simp]:
  "rb_runs (advanceRunRetentionRevision r s) = rb_runs s" "rb_claims (advanceRunRetentionRevision r s) = rb_claims s"
  "rb_eventWaits (advanceRunRetentionRevision r s) = rb_eventWaits s"
  by (simp_all add: advanceRunRetentionRevision_def)

lemma change_wait_rest [simp]:
  "rb_runs (change_wait r w f s) = rb_runs s" "rb_claims (change_wait r w f s) = rb_claims s"
  "rb_retention (change_wait r w f s) = rb_retention s" "rb_nextGeneration (change_wait r w f s) = rb_nextGeneration s"
  "q \<noteq> r \<Longrightarrow> jm_get (rb_eventWaits (change_wait r w f s)) q = jm_get (rb_eventWaits s) q"
  by (auto simp: change_wait_def jsmap_simps split: option.splits)

lemma evict_rest [simp]:
  "rb_runs (evict_mailboxes rs n s) = rb_runs s" "rb_claims (evict_mailboxes rs n s) = rb_claims s"
  "rb_eventWaits (evict_mailboxes rs n s) = rb_eventWaits s"
  "rb_retention (evict_mailboxes rs n s) = rb_retention s" "rb_nextGeneration (evict_mailboxes rs n s) = rb_nextGeneration s"
  by (induction rs n s rule: evict_mailboxes.induct) auto

lemma persist_rest [simp]:
  "rb_runs (persistRunEventDeliveryReceipts r s) = rb_runs s" "rb_claims (persistRunEventDeliveryReceipts r s) = rb_claims s"
  "rb_retention (persistRunEventDeliveryReceipts r s) = rb_retention s"
  "rb_nextGeneration (persistRunEventDeliveryReceipts r s) = rb_nextGeneration s"
  "q \<noteq> r \<Longrightarrow> jm_get (rb_eventWaits (persistRunEventDeliveryReceipts r s)) q = jm_get (rb_eventWaits s) q"
  by (auto simp: persistRunEventDeliveryReceipts_def split: option.splits
      intro!: fold_keeps fold_keeps [where f = "\<lambda>t. jm_get (rb_eventWaits t) q"])

lemma mail_rest [simp]:
  "rb_runs (releaseRunEventClaim r i s) = rb_runs s" "rb_eventWaits (releaseRunEventClaim r i s) = rb_eventWaits s"
  "rb_retention (releaseRunEventClaim r i s) = rb_retention s" "rb_nextGeneration (releaseRunEventClaim r i s) = rb_nextGeneration s"
  "q \<noteq> r \<Longrightarrow> jm_get (rb_claims (releaseRunEventClaim r i s)) q = jm_get (rb_claims s) q"
  "rb_runs (deleteEmptyRunEventMailbox r mb s) = rb_runs s" "rb_claims (deleteEmptyRunEventMailbox r mb s) = rb_claims s"
  "rb_eventWaits (deleteEmptyRunEventMailbox r mb s) = rb_eventWaits s"
  "rb_retention (deleteEmptyRunEventMailbox r mb s) = rb_retention s"
  "rb_nextGeneration (deleteEmptyRunEventMailbox r mb s) = rb_nextGeneration s"
  by (auto simp: releaseRunEventClaim_def deleteEmptyRunEventMailbox_def jsmap_simps split: option.splits)

text \<open>A step that changes one run only, and gives it a new revision or none.\<close>

lemma revises_one:
  assumes "rb_nextGeneration s \<le> rb_nextGeneration s'"
    "\<And>q. q \<noteq> r \<Longrightarrow> jm_get (rb_runs s') q = jm_get (rb_runs s) q \<and> jm_get (rb_eventWaits s') q = jm_get (rb_eventWaits s) q \<and>
       jm_get (rb_claims s') q = jm_get (rb_claims s) q \<and> jm_get (rb_retention s') q = jm_get (rb_retention s) q"
    "jm_get (rb_retention s') r = None \<or> (\<exists>k. jm_get (rb_retention s') r = Some k \<and> rb_nextGeneration s \<le> k \<and> k < rb_nextGeneration s')"
  shows "revises s s'"
proof -
  have "recorded s' q = recorded s q" if "q \<noteq> r" for q
    using assms(2) [OF that] by (simp add: recorded_def waits_of_def claims_of_def)
  with assms show ?thesis unfolding revises_def by metis
qed

lemma store_update_revises: "revises s (storeRunUpdate r run st s)"
  by (rule revises_advance [of _ r])
    (simp_all add: storeRunUpdate_def publishRunObservation_def Let_def advance_revision jsmap_simps)

lemma delete_revises: "revises s (deleteRunState r s)"
  by (rule revises_one [of _ _ r]) (simp_all add: deleteRunState_def jsmap_simps)

lemma create_revises: "revises s (createRun run s)"
  by (rule revises_one [of _ _ "wr_id run"]) (simp_all add: createRun_def jsmap_simps)

lemma clear_revises: "revises s (clear_backend s)"
  by (simp add: revises_def clear_backend_def empty_backend_def)

lemma revises_refl [simp]: "revises s s"
  by (simp add: revises_def)

lemma revises_advanced:
  assumes "rb_retention t = rb_retention s" "rb_nextGeneration t = rb_nextGeneration s"
    "\<And>q. q \<noteq> r \<Longrightarrow> jm_get (rb_runs t) q = jm_get (rb_runs s) q \<and> jm_get (rb_eventWaits t) q = jm_get (rb_eventWaits s) q \<and>
       jm_get (rb_claims t) q = jm_get (rb_claims s) q"
  shows "revises s (advanceRunRetentionRevision r t)"
  by (rule revises_advance [of _ r]) (simp_all add: assms advance_revision)

lemma wait_revises:
  "revises s (snd (store_wait r w s))" "revises s (snd (savePendingEventWait r w s))"
  "revises s (snd (savePendingEventWaitIfStatusAndWorker r st wk w s))"
proof -
  show 1: "revises s (snd (store_wait r w s))"
    by (auto simp: store_wait_def jsmap_simps intro!: revises_advanced split: sum.split)
  then show "revises s (snd (savePendingEventWait r w s))"
    by (auto simp: savePendingEventWait_def split: prod.splits sum.splits)
  show "revises s (snd (savePendingEventWaitIfStatusAndWorker r st wk w s))"
    using 1 by (auto simp: savePendingEventWaitIfStatusAndWorker_def split: option.split)
qed

lemma waits_revise:
  "revises s (snd (resolvePendingEventWait r w st b t s))" "revises s (snd (restorePendingEventWait r w s))"
  "revises s (snd (reserveTimedEventWaitClaim r w t u s))" "revises s (finalizeTimedEventWaitClaim r w s)"
  by (auto simp: resolvePendingEventWait_def restorePendingEventWait_def reserveTimedEventWaitClaim_def
      finalizeTimedEventWaitClaim_def intro!: revises_advanced split: option.split)

lemma mailbox_revises:
  "revises s (snd (removeRunEvent r i s))" "revises s (snd (takeRunEvent r n s))"
proof -
  show "revises s (snd (removeRunEvent r i s))"
    by (auto simp: removeRunEvent_def Let_def intro!: revises_advanced split: option.split)
  show "revises s (snd (takeRunEvent r n s))"
    by (auto simp: takeRunEvent_def Let_def intro!: revises_advanced split: option.split) (rule revises_same; simp)
qed

lemma append_revises: "revises s (snd (appendRunEvent r e s))"
proof -
  have "revises s (snd (append_to_mailbox r e t))" if "rb_runs t = rb_runs s" "rb_eventWaits t = rb_eventWaits s"
    "rb_claims t = rb_claims s" "rb_retention t = rb_retention s" "rb_nextGeneration t = rb_nextGeneration s" for t
    using that by (cases "appendRetainedRunEvent (mailbox_of t r) (e\<lparr>ev_order := Some (rb_nextOrder t)\<rparr>) (length (claims_of t r))")
      (auto simp: append_to_mailbox_def Let_def intro!: revises_advanced revises_same)
  moreover have "revises s (evictOrphanRunEventMailboxes 1 s)"
    by (rule revises_same) (simp_all add: evictOrphanRunEventMailboxes_def)
  ultimately show ?thesis
    by (auto simp: appendRunEvent_def evictOrphanRunEventMailboxes_def Let_def)
qed

lemma claim_revises:
  "revises s (snd (claimRunEventForWait r w n d t s))" "revises s (snd (reserveRunEventDeliveryClaim r w i t u s))"
  "revises s (snd (restoreRunEventDelivery r w e s))" "revises s (restoreRunEvent r e s)"
proof -
  show "revises s (restoreRunEvent r e s)"
    by (auto simp: restoreRunEvent_def jsmap_simps intro!: revises_advanced)
  show "revises s (snd (claimRunEventForWait r w n d t s))"
    by (auto simp: claimRunEventForWait_def Let_def jsmap_simps intro!: revises_advanced split: option.split)
  show "revises s (snd (reserveRunEventDeliveryClaim r w i t u s))"
    by (auto simp: reserveRunEventDeliveryClaim_def Let_def jsmap_simps intro!: revises_advanced split: option.split)
  show "revises s (snd (restoreRunEventDelivery r w e s))"
    by (auto simp: restoreRunEventDelivery_def Let_def jsmap_simps intro!: revises_advanced split: option.split)
qed

lemma release_unknown:
  assumes "jm_get (claims_of s r) i = None"
  shows "claims_of (releaseRunEventClaim r i s) q = claims_of s q"
proof (cases "jm_get (rb_claims s) r")
  case (Some cs)
  with assms have "jm_del i cs = cs" by (auto simp: claims_of_def map_of_eq_None_iff)
  with Some show ?thesis by (auto simp: releaseRunEventClaim_def claims_of_def jsmap_simps)
qed (simp add: releaseRunEventClaim_def)

lemma revises_after:
  "revises s t \<Longrightarrow> rb_runs u = rb_runs t \<Longrightarrow> rb_eventWaits u = rb_eventWaits t \<Longrightarrow> rb_claims u = rb_claims t \<Longrightarrow>
   rb_retention u = rb_retention t \<Longrightarrow> rb_nextGeneration u = rb_nextGeneration t \<Longrightarrow> revises s u"
  by (simp add: revises_def recorded_def waits_of_def claims_of_def)

lemma finalize_revises: "revises s (finalizeRunEventDelivery r i b s)"
proof (cases "jm_get (claims_of s r) i")
  case None
  then have "revises s (releaseRunEventClaim r i s)"
    by (simp add: revises_def recorded_def waits_of_def release_unknown)
  then show ?thesis
    by (rule revises_after) (auto simp: None finalizeRunEventDelivery_def Let_def split: option.split)
next
  case (Some c)
  show ?thesis
    by (rule revises_advance [of _ r])
      (auto simp: Some finalizeRunEventDelivery_def Let_def advance_revision split: option.split)
qed

lemma queue_revises:
  "revises s (snd (enqueue_item job s))" "revises s (snd (dequeue_item s))" "revises s (acknowledge_item r s)"
  "revises s (snd (nack_item r t s))" "revises s (snd (claimStalledRun r w d t s))"
proof -
  show enq: "revises s (snd (enqueue_item job s))" for job
    by (auto simp: enqueue_item_def intro!: revises_advanced)
  show "revises s (snd (dequeue_item s))"
    by (rule revises_same) (auto simp: dequeue_item_def Let_def split: list.split)
  have ack: "rb_runs (acknowledge_item r t) = rb_runs t \<and> rb_eventWaits (acknowledge_item r t) = rb_eventWaits t \<and>
      rb_claims (acknowledge_item r t) = rb_claims t \<and> rb_retention (acknowledge_item r t) = rb_retention t \<and>
      rb_nextGeneration (acknowledge_item r t) = rb_nextGeneration t" for t :: "'a run_backend"
    by (simp add: acknowledge_item_def Let_def)
  then show "revises s (acknowledge_item r s)" by (intro revises_same) auto
  have "revises s (snd (requeueRun r t s))" using enq by (auto simp: requeueRun_def split: option.split)
  then show "revises s (snd (nack_item r t s))" 
    by (rule revises_after) (auto simp: nack_item_def ack split: prod.split sum.split)
  show "revises s (snd (claimStalledRun r w d t s))"
    by (auto simp: claimStalledRun_def publishRunObservation_def jsmap_simps intro!: revises_advanced split: option.split)
qed

lemma lock_revises:
  "revises s (snd (acquireLock r d i t s))" "revises s (releaseLock r j s)" "revises s (snd (extendLock r d j t s))"
  by (rule revises_same; simp add: acquireLock_def releaseLock_def extendLock_def split: option.split)+

lemma step_revises: "revises s (backend_step op s)"
  by (cases op)
    (auto simp: updateRunConditionally_def restoreRunStateIfStatus_def deleteTerminalRunIfUnchanged_def
      create_revises store_update_revises delete_revises wait_revises waits_revise append_revises mailbox_revises claim_revises
      finalize_revises queue_revises lock_revises clear_revises split: option.split)

text \<open>From a state on, a run has what it had recorded, or a later revision than any it had there, or none.\<close>

definition later_revision :: "nat \<Rightarrow> 'p run_backend \<Rightarrow> string \<Rightarrow> bool" where
  "later_revision g s r \<longleftrightarrow> (case jm_get (rb_retention s) r of None \<Rightarrow> True | Some k \<Rightarrow> g \<le> k)"

lemma revises_later:
  "revises s s' \<Longrightarrow> g \<le> rb_nextGeneration s \<Longrightarrow> later_revision g s r \<Longrightarrow> later_revision g s' r"
  unfolding revises_def later_revision_def by (erule conjE, drule spec [of _ r]) (auto split: option.splits)

lemma revises_changed:
  "revises s s' \<Longrightarrow> g \<le> rb_nextGeneration s \<Longrightarrow> recorded s' r \<noteq> recorded s r \<Longrightarrow> later_revision g s' r"
  unfolding revises_def later_revision_def by (erule conjE, drule spec [of _ r]) (auto split: option.splits)

lemma step_generation: "g \<le> rb_nextGeneration s \<Longrightarrow> g \<le> rb_nextGeneration (backend_step op s)"
  using step_revises [of s op] by (simp add: revises_def)

lemma run_generation: "g \<le> rb_nextGeneration s \<Longrightarrow> g \<le> rb_nextGeneration (run_backend_ops ops s)"
  unfolding run_backend_ops_def by (induction ops arbitrary: s) (simp_all add: step_generation)

lemma run_later:
  "g \<le> rb_nextGeneration s \<Longrightarrow> later_revision g s r \<Longrightarrow> later_revision g (run_backend_ops ops s) r"
  unfolding run_backend_ops_def
proof (induction ops arbitrary: s)
  case (Cons op ops)
  have "g \<le> rb_nextGeneration (backend_step op s)" using Cons.prems(1) by (rule step_generation)
  from Cons.IH [OF this revises_later [OF step_revises Cons.prems]] show ?case by simp
qed simp

lemma run_changed:
  assumes "g \<le> rb_nextGeneration s" "recorded (run_backend_ops ops s) r \<noteq> recorded s r"
  shows "later_revision g (run_backend_ops ops s) r"
  using assms
proof (induction ops arbitrary: s)
  case Nil
  then show ?case by (simp add: run_backend_ops_def)
next
  case (Cons op ops)
  let ?t = "backend_step op s"
  have g: "g \<le> rb_nextGeneration ?t" using Cons.prems(1) by (rule step_generation)
  show ?case
  proof (cases "recorded ?t r = recorded s r")
    case True
    with Cons.IH [OF g] Cons.prems(2) show ?thesis by (simp add: run_backend_ops_def)
  next
    case False
    with run_later [OF g revises_changed [OF step_revises Cons.prems(1)], of r ops] show ?thesis
      by (simp add: run_backend_ops_def)
  qed
qed

fun touches_runs :: "'p backend_op \<Rightarrow> bool" where
  "touches_runs (CreateRun run) = True" | "touches_runs (UpdateRun r p st w f) = True" | "touches_runs (RestoreState r st p w) = True"
| "touches_runs (DeleteRun r) = True" | "touches_runs (DeleteIfUnchanged c) = True" | "touches_runs (ClaimStalled r w d t) = True"
| "touches_runs ClearAll = True" | "touches_runs op = False"

lemma advance_keys [simp]:
  "jm_get (rb_retention (advanceRunRetentionRevision r s)) q = None \<longleftrightarrow> jm_get (rb_retention s) q = None"
  by (auto simp: advance_revision jsmap_simps)

lemma runs_frame:
  "\<not> touches_runs op \<Longrightarrow> rb_runs (backend_step op s) = rb_runs s \<and>
     (jm_get (rb_retention (backend_step op s)) q = None \<longleftrightarrow> jm_get (rb_retention s) q = None)"
  by (cases op)
    (auto simp: backend_ops_defs enqueue_item_def dequeue_item_def acknowledge_item_def nack_item_def requeueRun_def acquireLock_def
      releaseLock_def extendLock_def Let_def split: option.splits sum.splits prod.splits list.splits if_splits)

text \<open>Every run is stored under its id and has a revision.\<close>

definition runs_ok :: "'p run_backend \<Rightarrow> bool" where
  "runs_ok s \<longleftrightarrow> jm_ok (rb_runs s) \<and> (\<forall>(r, run) \<in> set (rb_runs s). wr_id run = r \<and> jm_get (rb_retention s) r \<noteq> None)"

lemma runs_ok_set:
  assumes "runs_ok s" "rb_runs s' = jm_set r run' (rb_runs s)" "jm_get (rb_runs s) r = Some run" "wr_id run' = wr_id run"
    "\<And>q. jm_get (rb_retention s') q = None \<longleftrightarrow> jm_get (rb_retention s) q = None"
  shows "runs_ok s'"
proof -
  from assms(1,3) have "(r, run) \<in> set (rb_runs s)" by (simp add: runs_ok_def jm_get_in_set [symmetric])
  with assms show ?thesis by (auto simp: runs_ok_def jm_set_ok_iff)
qed

lemma runs_ok_step:
  assumes "runs_ok s"
  shows "runs_ok (backend_step op s)"
proof (cases "touches_runs op")
  case False
  from runs_frame [OF this, of s] assms show ?thesis by (simp add: runs_ok_def)
next
  case True
  have store: "runs_ok (storeRunUpdate r run' st s)" if "jm_get (rb_runs s) r = Some run" "wr_id run' = wr_id run" for r run run' st
    by (rule runs_ok_set [OF assms _ that]) (simp_all add: storeRunUpdate_def publishRunObservation_def Let_def)
  have del: "runs_ok (deleteRunState r s)" for r
    using assms by (auto simp: runs_ok_def deleteRunState_def jm_del_ok_iff jsmap_simps)
  from True show ?thesis
  proof (cases op)
    case (CreateRun run)
    with assms show ?thesis by (auto simp: createRun_def runs_ok_def jm_set_ok_iff jsmap_simps)
  next
    case (ClaimStalled r w d t)
    with assms show ?thesis
      by (auto simp: claimStalledRun_def publishRunObservation_def split: option.split intro!: runs_ok_set [OF assms])
  qed (use assms store del in \<open>auto simp: updateRunConditionally_def mergeMemoryRunUpdate_def restoreRunStateIfStatus_def
      deleteTerminalRunIfUnchanged_def clear_backend_def empty_backend_def runs_ok_def split: option.split\<close>)
qed

text \<open>The revisions given out are below the next.\<close>

definition revisions_ok :: "'p run_backend \<Rightarrow> bool" where
  "revisions_ok s \<longleftrightarrow> (\<forall>r k. jm_get (rb_retention s) r = Some k \<longrightarrow> k < rb_nextGeneration s)"

lemma revisions_ok_step:
  assumes "revisions_ok s"
  shows "revisions_ok (backend_step op s)"
  using assms step_revises [of s op] unfolding revisions_ok_def revises_def
  by (metis dual_order.strict_trans1 option.distinct(1) option.inject)

lemma backend_run_ok: "runs_ok s \<Longrightarrow> revisions_ok s \<Longrightarrow> runs_ok (run_backend_ops ops s) \<and> revisions_ok (run_backend_ops ops s)"
  unfolding run_backend_ops_def by (induction ops arbitrary: s) (simp_all add: runs_ok_step revisions_ok_step)

text \<open>A listed candidate is a run of the state.\<close>

definition lists_run :: "'p run_backend \<Rightarrow> int \<Rightarrow> retention_candidate \<Rightarrow> bool" where
  "lists_run s cutoff c \<longleftrightarrow>
     (\<exists>run \<in> set (jm_values (rb_runs s)). memoryTerminalRetentionCandidate run cutoff
        (case jm_get (rb_retention s) (wr_id run) of None \<Rightarrow> 0 | Some n \<Rightarrow> n) = Some c)"

lemma set_bounded: "set (snd (insertBoundedTerminalRetentionCandidate cs c limit)) \<subseteq> insert c (set cs)"
  by (auto simp: insertBoundedTerminalRetentionCandidate_def Let_def dest: in_set_butlastD)

lemma listed_candidates:
  assumes "c \<in> set (snd (listTerminalRunRetentionCandidates cutoff limit s))"
  shows "lists_run s cutoff c"
proof -
  let ?f = "\<lambda>run (more, cs).
          if wr_id run \<in> set (rb_retryQueued s) \<or> jm_get (rb_retryPending s) (wr_id run) \<noteq> None then (more, cs)
          else
            (case memoryTerminalRetentionCandidate run cutoff
                 (case jm_get (rb_retention s) (wr_id run) of None \<Rightarrow> 0 | Some n \<Rightarrow> n) of
               None \<Rightarrow> (more, cs)
             | Some c \<Rightarrow> (let (dropped, cs1) = insertBoundedTerminalRetentionCandidate cs c limit in (more \<or> dropped, cs1)))"
  have "\<forall>d \<in> set (snd (fold ?f runs st)). lists_run s cutoff d"
    if "set runs \<subseteq> set (jm_values (rb_runs s))" "\<forall>d \<in> set (snd st). lists_run s cutoff d" for runs and st :: "bool \<times> retention_candidate list"
    using that
  proof (induction runs arbitrary: st)
    case (Cons run runs)
    have "\<forall>d \<in> set (snd (?f run st)). lists_run s cutoff d"
    proof (cases "memoryTerminalRetentionCandidate run cutoff (case jm_get (rb_retention s) (wr_id run) of None \<Rightarrow> 0 | Some n \<Rightarrow> n)")
      case (Some c)
      then have "lists_run s cutoff c" using Cons.prems(1) unfolding lists_run_def by auto
      with Some Cons.prems(2) set_bounded [of "snd st" c limit] show ?thesis by (auto split: prod.splits)
    qed (use Cons.prems(2) in \<open>auto split: prod.splits\<close>)
    with Cons show ?case by simp
  qed simp
  from this [of "jm_values (rb_runs s)" "(False, [])"] assms show ?thesis
    by (simp add: listTerminalRunRetentionCandidates_def split: if_splits)
qed

text \<open>C40: A finished run is deleted by the retention only as it was listed. A listed candidate is deleted if nothing happened since;
  but once any operation has changed what is recorded of its run, be it that the run was resumed, deleted and created again
  under the same id, given a wait or a delivery, then no later deletion with the candidate removes anything.\<close>

theorem changed_run_is_not_deleted:
  assumes "s = run_backend_ops ops (empty_backend m)" "c \<in> set (snd (listTerminalRunRetentionCandidates cutoff limit s))"
  shows "deleteTerminalRunIfUnchanged c s = (True, deleteRunState (rt_runId c) s) \<and>
    (recorded (run_backend_ops ops1 s) (rt_runId c) \<noteq> recorded s (rt_runId c) \<longrightarrow>
       (\<forall>ops2. let s' = run_backend_ops ops2 (run_backend_ops ops1 s) in deleteTerminalRunIfUnchanged c s' = (False, s')))"
proof -
  have ok: "runs_ok s" "revisions_ok s"
    unfolding assms(1) by (rule conjunct1 [OF backend_run_ok] conjunct2 [OF backend_run_ok]; simp add: runs_ok_def revisions_ok_def empty_backend_def)+
  from listed_candidates [OF assms(2)] obtain r run where
    run: "(r, run) \<in> set (rb_runs s)" "memoryTerminalRetentionCandidate run cutoff
        (case jm_get (rb_retention s) (wr_id run) of None \<Rightarrow> 0 | Some n \<Rightarrow> n) = Some c"
    by (auto simp: lists_run_def)
  with ok obtain k where k: "wr_id run = r" "jm_get (rb_runs s) r = Some run" "jm_get (rb_retention s) r = Some k"
    by (auto simp: runs_ok_def jm_get_in_set)
  from k run(2) have c: "rt_runId c = r" "rt_revision c = k" "rt_workflowId c = wr_workflowId run" "rt_status c = wr_status run"
    "rt_createdAt c = wr_createdAt run" "wr_completedAt run = Some (rt_completedAt c)" "is_terminal (wr_status run)"
    by (auto simp: memoryTerminalRetentionCandidate_def split: if_splits option.splits)
  have "deleteTerminalRunIfUnchanged c s' = (False, s')"
    if "recorded (run_backend_ops ops1 s) r \<noteq> recorded s r" "s' = run_backend_ops ops2 (run_backend_ops ops1 s)" for ops2 s'
  proof -
    from run_changed [OF order_refl that(1)] have "later_revision (rb_nextGeneration s) (run_backend_ops ops1 s) r" .
    with run_later [OF run_generation [OF order_refl]] have "later_revision (rb_nextGeneration s) s' r" unfolding that(2) by blast
    moreover have "k < rb_nextGeneration s" using ok(2) k(3) by (simp add: revisions_ok_def)
    ultimately show ?thesis by (auto simp: deleteTerminalRunIfUnchanged_def later_revision_def c split: option.splits)
  qed
  moreover have "deleteTerminalRunIfUnchanged c s = (True, deleteRunState r s)"
    by (simp add: deleteTerminalRunIfUnchanged_def c k)
  ultimately show ?thesis by (simp add: c Let_def)
qed

text \<open>A finished run is listed, and another one is created under its id before the deletion.\<close>

definition finished_run :: "int \<Rightarrow> int workflow_run" where
  "finished_run x = \<lparr>wr_id = ''r'', wr_workflowId = ''w'', wr_status = RCompleted, wr_input = x, wr_nodeStates = [], wr_context = [],
     wr_createdAt = 0, wr_startedAt = Some 1, wr_heartbeatAt = None, wr_completedAt = Some 2, wr_workerId = None\<rparr>"

definition listed_run :: retention_candidate where
  "listed_run = \<lparr>rt_runId = ''r'', rt_workflowId = ''w'', rt_createdAt = 0, rt_status = RCompleted, rt_completedAt = 2, rt_revision = 0\<rparr>"

theorem changed_run_is_not_deleted_witness:
  "fst (deleteTerminalRunIfUnchanged listed_run (run_backend_ops [CreateRun (finished_run 7)] (empty_backend 9))) \<and>
   \<not> fst (deleteTerminalRunIfUnchanged listed_run
     (run_backend_ops [Lock ''r'' 5 ''k'' 3] (run_backend_ops [CreateRun (finished_run 8)] (run_backend_ops [CreateRun (finished_run 7)] (empty_backend 9)))))"
proof -
  let ?s = "run_backend_ops [CreateRun (finished_run 7)] (empty_backend 9)"
  have "listed_run \<in> set (snd (listTerminalRunRetentionCandidates 5 3 ?s))"
    by (simp add: run_backend_ops_def createRun_def empty_backend_def finished_run_def listTerminalRunRetentionCandidates_def
        memoryTerminalRetentionCandidate_def is_terminal_def insertBoundedTerminalRetentionCandidate_def listed_run_def)
  moreover have "recorded (run_backend_ops [CreateRun (finished_run 8)] ?s) (rt_runId listed_run) \<noteq> recorded ?s (rt_runId listed_run)"
    by (simp add: run_backend_ops_def createRun_def empty_backend_def finished_run_def recorded_def listed_run_def)
  ultimately show ?thesis using changed_run_is_not_deleted [OF refl] by (metis fst_conv)
qed

end
