(* ===== verification/Spec2Isabelle.thy ===== *)
theory Spec2Isabelle
  imports StreamRunnerSafety WorkflowSafety Semaphores CircuitBreakers LruRefinement SegmentCodec DependencyCache SemverRanges GlobMatcher RequestBatcher RepositorySafety SingleflightSafety AttemptSafety LoopSafety RunMailSafety RunQueueSafety
begin

text \<open>
  A verification development of veryfront: the stateful core of its agent streams, its workflow executor and
  its caches, with the concurrency primitives and the string algorithms they rest on. All paths below are
  relative to \<open>src/src/\<close> of the repository.

  \<^bold>\<open>The parts of the program.\<close> An agent turn reads a provider's stream. The lifecycle runner races every read
  against deadlines and a cancellation coordinator, hands each event to a pure reducer, and yields the
  reducer's frames to its consumer; when the generator returns, the outcome of the attempt is settled once. A
  workflow is a graph of nodes that an executor admits in dependency order under a concurrency limit, merging
  what the nodes write into a shared context by patches. A node is tried again under a retry policy, and a loop node
  runs a nested workflow, whose node ids live in its namespace, once per iteration. A backend stores the runs of
  workflows, the waits they park on, the events published to them, and the queue and locks of the workers. All of
  them lean on small utilities: semaphores that bound concurrent work, circuit breakers in front of remote services, an
  LRU cache with a doubly linked list, a batcher that coalesces the cache reads of one request, keys built from encoded segments, a graph of module
  dependencies that invalidates cached hashes, a version-range solver and a glob matcher. Cached values live in
  backends; a multi-tier cache reads the tiers in order, fills the upper ones from the lower ones, and the
  repositories scope its keys; concurrent misses of one key share a single operation.

  \<^bold>\<open>Theories and sources.\<close>

  \<^item> \<open>Prelude\<close>: the named collections, lists, options and maps shared by all. A JavaScript \<open>Map\<close> is a list of
    pairs in insertion order with distinct keys; the locale \<open>ordered_map\<close> states its laws and \<open>jsmap\<close>
    interprets it on \<open>jm_get\<close>, \<open>jm_set\<close> and \<open>jm_del\<close>. The locale \<open>step_refinement\<close> lifts a simulation of
    single operations to sequences of operations.
  \<^item> \<open>ToolInput\<close>: \<open>agent/streaming/tool-input.ts\<close> and \<open>agent/streaming/lifecycle/tool-input.ts\<close>.
  \<^item> \<open>StreamTypes\<close>, \<open>StreamReducer\<close>: the types, policy and reducer of \<open>agent/streaming/lifecycle\<close>.
    \<open>StreamProjection\<close>, \<open>StreamInvariants\<close> and \<open>StreamHandoff\<close> hold the lemmas on it: the consumer's view
    of the frames, the invariant, and the decisions at the end of a step.
  \<^item> \<open>StreamOutcome\<close>: \<open>agent/streaming/stream-outcome.ts\<close>.
  \<^item> \<open>StreamDeadlines\<close>, \<open>StreamCancellation\<close>: \<open>deadlines.ts\<close> and \<open>cancellation.ts\<close> of the lifecycle.
  \<^item> \<open>StreamRunner\<close>, \<open>StreamRunnerSafety\<close>: the generator of \<open>runner.ts\<close> as a step relation over its
    suspension points, and what holds of every interleaving of it with provider, clock and consumer.
  \<^item> \<open>WorkflowGraph\<close>, \<open>WorkflowPatch\<close>: \<open>graph.ts\<close> and \<open>context-patch.ts\<close> of \<open>workflow/executor/dag\<close>.
  \<^item> \<open>WorkflowScheduler\<close>, \<open>WorkflowSafety\<close>: the scheduling loop \<open>executeUnwrapped\<close> of
    \<open>workflow/executor/dag/index.ts\<close>.
  \<^item> \<open>RetryPolicy\<close>: \<open>workflow/executor/retry-policy.ts\<close>, with the durations of \<open>workflow/types.ts\<close>, \<open>utils/timer.ts\<close>
    and the transient codes of \<open>observability/telemetry-error.ts\<close>. \<open>NodeAttempts\<close>, \<open>AttemptSafety\<close>: the attempts of
    \<open>step-executor.ts\<close> and \<open>composite-node-execution.ts\<close> under timeouts, aborts and retries. The locale
    \<open>retry_loop\<close> is what a driver of attempts promises; \<open>st\<close> and \<open>cn\<close> interpret it on the two.
  \<^item> \<open>NodeNamespace\<close>: the namespaces of node ids in \<open>workflow/dsl/validation.ts\<close>.
  \<^item> \<open>LoopNode\<close>, \<open>LoopSafety\<close>: \<open>workflow/executor/dag/loop-node-strategy.ts\<close>.
  \<^item> \<open>RunEvents\<close>: \<open>workflow/backends/event-wait-retention.ts\<close> and the records of \<open>backends/types.ts\<close>. \<open>RunBackend\<close> and
    \<open>RunQueue\<close>: the class of \<open>workflow/backends/memory.ts\<close>, each method a function and \<open>backend_step\<close> all the modelled ones that change the state.
    \<open>RunMailSafety\<close> and \<open>RunQueueSafety\<close> hold what is shown of every sequence of its operations.
  \<^item> \<open>PermitQueue\<close>, \<open>Semaphores\<close>: \<open>utils/semaphore.ts\<close> and \<open>utils/permit-semaphore.ts\<close>. The locale
    \<open>permit_queue\<close> is the contract of a counter of permits with a queue of waiters; \<open>sem\<close> and \<open>ps\<close>
    interpret it on the two classes.
  \<^item> \<open>CircuitBreakers\<close>: \<open>utils/circuit-breaker.ts\<close>.
  \<^item> \<open>LruList\<close>, \<open>LruCache\<close>, \<open>LruRefinement\<close>: \<open>utils/cache/stores/memory\<close> and the eviction manager. The
    list is a heap of nodes with \<open>prev\<close> and \<open>next\<close> pointers; the specification is a list of entries in the
    order of their last use, and \<open>lru\<close> interprets \<open>step_refinement\<close> on the two.
  \<^item> \<open>CodeUnits\<close>, \<open>SegmentCodec\<close>: \<open>utils/utf8-byte-length.ts\<close> and \<open>cache/keys/segment-codec.ts\<close>, over 16-bit
    code units.
  \<^item> \<open>CacheTtl\<close>, \<open>CacheGlob\<close>, \<open>MemoryBackend\<close>: \<open>ttl.ts\<close>, \<open>glob.ts\<close> and \<open>memory.ts\<close> of \<open>cache/backends\<close>;
    \<open>MemoryBackendSafety\<close> holds the invariant of the backend, what its reads give back and when it returns.
  \<^item> \<open>MultiTier\<close>: \<open>cache/multi-tier.ts\<close>, over tiers that are records of operations. The locale
    \<open>sound_tier\<close> of \<open>MultiTierSafety\<close> is what a client relies on, that a tier gives back nothing but what was
    written and not yet expired; \<open>sound_tiers\<close> extends it to a cache of several tiers.
  \<^item> \<open>CacheRepository\<close>, \<open>RepositorySafety\<close>: \<open>repositories/cache/cache-repository.ts\<close>, whose memory tier and
    backend tier interpret \<open>sound_tier\<close> and whose multi-tier repository interprets \<open>sound_tiers\<close>.
  \<^item> \<open>Singleflight\<close>, \<open>SingleflightSafety\<close>: the class of \<open>utils/singleflight.ts\<close>.
  \<^item> \<open>DependencyGraph\<close>, \<open>DependencyCache\<close>: \<open>cache/dependency-graph.ts\<close>.
  \<^item> \<open>Semver\<close>, \<open>SemverOrder\<close>, \<open>SemverRanges\<close>: \<open>platform/compat/semver.ts\<close>.
  \<^item> \<open>GlobMatcher\<close>: \<open>utils/glob-matcher.ts\<close>.
  \<^item> \<open>RequestBatcher\<close>: \<open>cache/request-cache-batcher.ts\<close> and \<open>cache/batch-results.ts\<close>.

  \<^bold>\<open>How state and effects are modelled.\<close> A class is a record and a method a function that returns the record
  updated; a thrown error is the left side of a sum or \<open>None\<close>. Asynchronous code is cut at its suspension
  points: each reaction of a promise, each timer and each listener is an event, and a property of the code is
  stated over every sequence of events that may occur. Times are readings of the injected clock. The
  execution of a node in a pass of the executor always answers. Sources that are not in the repository, or that do only I/O, are arguments of the definitions that call them: the JSON
  codec, the parser of provider errors, hashing, reading and import parsing, the size estimate of a value.

  \<^bold>\<open>What is shown.\<close> Of streams: the frames alone reproduce the reducer's state, sequence numbers are
  consecutive and segments bracketed in every interleaving, a settled attempt absorbs every signal, a cancelled
  one falls silent, a wait never exceeds its budget, every returned generator has an outcome, and an
  error that comes after output and a finish reason does not undo what the attempt achieved. Of workflows: cycle detection is exact, nothing runs twice, early or
  beyond the limit, a pass terminates, completes an acyclic workflow whose nodes finish, stalls only on a parked
  wait, and recovery is bounded; applying the patch of a change reproduces it and merging is sequential
  application; no two attempts of a step overlap, a step returns even when its operation never settles, and delays
  keep to their policy; removing a namespace undoes adding it; a loop runs its iterations in order; one that parked
  asks its condition again and, if it holds, goes on where it was. Of stored runs: an accepted event is kept until
  something consumes it, mailboxes keep their order and, but for events that are put back, their bounds, a delivery rolls back exactly, the queue is a stable priority queue, a lock has one
  owner, and the retention deletes no run that changed since it was listed. Of the utilities: permits are conserved
  and granted in order, an open breaker fails fast, the memory cache refines its specification within its limits, an encoded segment has one preimage, incremental
  hashing is hashing from nothing, a glob decides its language, versions are linearly ordered and ranges admit
  what their syntax says, and a request reads its own writes, each key fetched once. Of the cache: the memory
  backend keeps its limits exactly and, like the repositories over it when their operations and backfills do not
  overlap, serves only the last admissible write of a key until it expires, and its globs decide their language. Of shared operations: the counts of callers are
  exact, callers get the outcome of what they joined, cancellation comes exactly when it is asked for and nobody
  waits, and a key has one operation in flight.
  Some theorems state what the code does where a comment or the caller expects otherwise: the globs of the cache
  and a value with a star, the memory backend that hangs with an empty key, a backfill that overwrites a newer
  write, a breaker with a high success threshold under calls made one after another, the condition of a loop that
  parked, the status null of a stream.

  \<^bold>\<open>Bounds and fuel.\<close> Depth-first search is given a depth equal to the number of nodes, which no path
  without a repetition exceeds; the scheduling loop has one more unit of fuel than nodes, since every round but
  the last settles one, and \<open>execution_terminates\<close> shows that it never runs out; the eviction loop has as
  many rounds as entries, each removing one. The eviction loop of the memory backend is a partial function, since it
  does not end when the oldest key is empty, and \<open>memory_backend_returns_unless_empty_key\<close> says when it does.
  Collecting dependents is bounded by the number of modules; the
  builder of the dependency cache needs more fuel than there are modules to scan, and the theorems about it
  assume no more than that. A loop node recurses on the iterations it has left. The events of a step are bounded by
  \<open>step_rank\<close>, which every one of them lowers. The operations of the backend of runs are not recursive, but for the
  eviction of mailboxes, which walks the list of them.

  \<^bold>\<open>Not modelled.\<close> Observers, diagnostics, logging and statistics, which have no effect on results. The
  adapters that decode provider parts, whose output is the reducer's input. How parallel, map, branch and
  sub-workflow nodes schedule their children, the delegation to agents, checkpoints and the code that resumes from
  them, approvals, the observers of runs, and the managers that publish events to waits. The stores of runs over
  Redis. In the backend of runs the encoding of stored values, which a patch carries as what it leaves of them, and the fields
  of a run that no operation reads; in
  the retry policy the durations written as strings, whose arithmetic is in floating point; in the loop node the
  dates of persisted child states, and changes of the context by its generator of steps. The percent and base64
  encodings of key segments, the parse cache of the batcher, the default size estimate of the memory cache, the
  stores over Redis, HTTP and disk behind the multi-tier cache, the rounding of floating-point time, and
  \<open>waitForSharedPromise\<close>.
  Rendering, routing, bundling, the server, the configuration loader and the sandbox work through parsers,
  compilers and runtime objects that are not in the repository; the clients of remote services are I/O.
\<close>

end
